(* ===== verification/Prelude.thy ===== *)
theory Prelude
  imports Main "HOL-Library.Word"
begin

text \<open>
  The vocabulary every component of the model shares: the outcome of a C function, bytes and
  C character buffers, and the generic lemmas about them.
\<close>

unbundle bit_operations_syntax

section \<open>Outcomes of C functions\<close>

text \<open>
  A C function of this repository either returns a value, ends the process (\<open>exit\<close>, which
  \<^verbatim>\<open>log_entry\<close> of libreciva also calls after every message of level \<^verbatim>\<open>LG_FTL\<close>), performs an
  access the C standard leaves undefined (a read or write outside an object, through a null
  pointer, or of memory that was freed), or loops for ever.  Each is a value of the model.
\<close>

datatype 'a res = Ret 'a | Exit | Fault | Diverge

fun res_bind :: "'a res \<Rightarrow> ('a \<Rightarrow> 'b res) \<Rightarrow> 'b res" where
  "res_bind (Ret x) f = f x"
| "res_bind Exit f = Exit"
| "res_bind Fault f = Fault"
| "res_bind Diverge f = Diverge"

fun returns :: "'a res \<Rightarrow> bool" where
  "returns (Ret x) = True"
| "returns r = False"

fun res_map :: "('a \<Rightarrow> 'b) \<Rightarrow> 'a res \<Rightarrow> 'b res" where
  "res_map f (Ret x) = Ret (f x)"
| "res_map f Exit = Exit"
| "res_map f Fault = Fault"
| "res_map f Diverge = Diverge"

named_theorems res_simps \<open>computation rules for outcomes\<close>

lemma res_bind_assoc [res_simps]:
  "res_bind (res_bind m f) g = res_bind m (\<lambda>x. res_bind (f x) g)"
  by (cases m) auto

lemma res_bind_Ret_iff:
  "res_bind m f = Ret y \<longleftrightarrow> (\<exists>x. m = Ret x \<and> f x = Ret y)"
  by (cases m) auto

lemma res_bind_cong [fundef_cong]:
  "m = m' \<Longrightarrow> (\<And>x. m' = Ret x \<Longrightarrow> f x = f' x) \<Longrightarrow> res_bind m f = res_bind m' f'"
  by (cases m') auto

lemma returns_iff: "returns m \<longleftrightarrow> (\<exists>x. m = Ret x)"
  by (cases m) auto

lemma res_map_Ret_iff: "res_map f m = Ret y \<longleftrightarrow> (\<exists>x. m = Ret x \<and> y = f x)"
  by (cases m) auto

text \<open>A sequence of steps on a state.\<close>

fun steps :: "('s \<Rightarrow> 's res) list \<Rightarrow> 's \<Rightarrow> 's res" where
  "steps [] s = Ret s"
| "steps (f # fs) s = res_bind (f s) (steps fs)"

lemma steps_append: "steps (fs @ gs) s = res_bind (steps fs s) (steps gs)"
proof (induction fs arbitrary: s)
  case (Cons f fs)
  then show ?case by (cases "f s") auto
qed simp

section \<open>Bytes and C buffers\<close>

type_synonym byte = "8 word"

text \<open>
  A character array is the list of its bytes, the terminating NUL and whatever follows it
  included; its length is the size of the object.  \<open>rd\<close> and \<open>wr\<close> are the accesses
  \<open>b[i]\<close> and \<open>b[i]=c\<close>: outside the object they are faults.
\<close>

definition rd :: "'a list \<Rightarrow> int \<Rightarrow> 'a res" where
  "rd b i = (if 0 \<le> i \<and> i < int (length b) then Ret (b ! nat i) else Fault)"

definition wr :: "'a list \<Rightarrow> int \<Rightarrow> 'a \<Rightarrow> 'a list res" where
  "wr b i c = (if 0 \<le> i \<and> i < int (length b) then Ret (b[nat i := c]) else Fault)"

text \<open>The string a buffer holds: its bytes before the first NUL.\<close>

definition cstr :: "byte list \<Rightarrow> byte list" where
  "cstr b = takeWhile (\<lambda>c. c \<noteq> 0) b"

text \<open>\<open>strlen\<close> reads until it finds a NUL; without one it runs off the object.\<close>

definition strlen :: "byte list \<Rightarrow> int res" where
  "strlen b = (if 0 \<in> set b then Ret (int (length (cstr b))) else Fault)"

text \<open>The object a string literal, or a \<open>malloc(strlen(s)+1)\<close> and \<open>strcpy\<close>, leaves.\<close>

definition zstr :: "byte list \<Rightarrow> byte list" where
  "zstr s = s @ [0]"

definition lit :: "string \<Rightarrow> byte list" where
  "lit s = zstr (map of_char s)"

text \<open>\<open>strcpy(dst, src)\<close> into an object of fixed size: the NUL must fit too.\<close>

definition strcpy :: "byte list \<Rightarrow> byte list \<Rightarrow> byte list res" where
  "strcpy dst src =
     (if 0 \<notin> set src \<or> length dst \<le> length (cstr src) then Fault
      else Ret (cstr src @ [0] @ drop (Suc (length (cstr src))) dst))"

text \<open>\<open>strcat(dst, src)\<close>, likewise.\<close>

definition strcat :: "byte list \<Rightarrow> byte list \<Rightarrow> byte list res" where
  "strcat dst src =
     (if 0 \<notin> set src \<or> 0 \<notin> set dst \<or> length dst \<le> length (cstr dst) + length (cstr src)
      then Fault
      else Ret (cstr dst @ cstr src @ [0]
                @ drop (Suc (length (cstr dst) + length (cstr src))) dst))"

text \<open>\<open>strcmp\<close>: the sign of the first difference of the bytes, read as \<open>unsigned char\<close>.\<close>

fun bytes_cmp :: "byte list \<Rightarrow> byte list \<Rightarrow> int" where
  "bytes_cmp [] [] = 0"
| "bytes_cmp [] (y # ys) = -1"
| "bytes_cmp (x # xs) [] = 1"
| "bytes_cmp (x # xs) (y # ys) =
     (if x = y then bytes_cmp xs ys else if unat x < unat y then -1 else 1)"

definition strcmp :: "byte list \<Rightarrow> byte list \<Rightarrow> int" where
  "strcmp a b = bytes_cmp (cstr a) (cstr b)"

subsection \<open>Lemmas on buffers\<close>

named_theorems buf_simps \<open>accesses to character buffers\<close>

lemma rd_Ret [buf_simps]: "0 \<le> i \<Longrightarrow> i < int (length b) \<Longrightarrow> rd b i = Ret (b ! nat i)"
  by (simp add: rd_def)

lemma rd_int [buf_simps]: "n < length b \<Longrightarrow> rd b (int n) = Ret (b ! n)"
  by (simp add: rd_def)

lemma wr_Ret [buf_simps]: "0 \<le> i \<Longrightarrow> i < int (length b) \<Longrightarrow> wr b i c = Ret (b[nat i := c])"
  by (simp add: wr_def)

lemma wr_int [buf_simps]: "n < length b \<Longrightarrow> wr b (int n) c = Ret (b[n := c])"
  by (simp add: wr_def)

lemma cstr_zstr [simp]: "0 \<notin> set s \<Longrightarrow> cstr (zstr s) = s"
  by (simp add: cstr_def zstr_def takeWhile_append)

lemma cstr_append_nul [simp]: "0 \<notin> set s \<Longrightarrow> cstr (s @ 0 # t) = s"
  by (simp add: cstr_def takeWhile_append)

lemma zero_notin_cstr [simp]: "0 \<notin> set (cstr b)"
  by (auto simp: cstr_def dest: set_takeWhileD)

lemma length_zstr [simp]: "length (zstr s) = Suc (length s)"
  by (simp add: zstr_def)

lemma zero_in_zstr [simp]: "0 \<in> set (zstr s)"
  by (simp add: zstr_def)

lemma strlen_zstr [simp]: "0 \<notin> set s \<Longrightarrow> strlen (zstr s) = Ret (int (length s))"
  by (simp add: strlen_def)

lemma length_cstr_less: "0 \<in> set b \<Longrightarrow> length (cstr b) < length b"
  unfolding cstr_def
  by (induction b) auto

lemma cstr_split:
  assumes "0 \<in> set b"
  shows "b = cstr b @ 0 # drop (Suc (length (cstr b))) b"
  using assms unfolding cstr_def by (induction b) auto

lemma cstr_cases:
  assumes "0 \<in> set b"
  obtains t where "b = cstr b @ 0 # t" "0 \<notin> set (cstr b)"
  using cstr_split [OF assms] zero_notin_cstr by blast

lemma nth_cstr: "n < length (cstr b) \<Longrightarrow> cstr b ! n = b ! n"
  by (simp add: cstr_def takeWhile_nth)

lemma nth_length_cstr: "0 \<in> set b \<Longrightarrow> b ! length (cstr b) = 0"
  by (metis cstr_split nth_append_length)

lemma nth_zstr_less [simp]: "i < length s \<Longrightarrow> zstr s ! i = s ! i"
  by (simp add: zstr_def nth_append)

lemma nth_zstr_length [simp]: "zstr s ! length s = 0"
  by (simp add: zstr_def)

lemma strcpy_zstr:
  assumes "0 \<notin> set s" "length s < length d"
  shows "strcpy d (zstr s) = Ret (s @ 0 # drop (Suc (length s)) d)"
  using assms by (simp add: strcpy_def)

lemma strcat_prefix:
  assumes "0 \<notin> set a" "0 \<notin> set s" "length a + length s < length (a @ 0 # t)"
  shows "strcat (a @ 0 # t) (zstr s) = Ret (a @ s @ 0 # drop (length s) t)"
  using assms by (simp add: strcat_def)

lemma bytes_cmp_refl [simp]: "bytes_cmp xs xs = 0"
  by (induction xs) auto

lemma bytes_cmp_eq_0 [simp]: "bytes_cmp xs ys = 0 \<longleftrightarrow> xs = ys"
  by (induction xs ys rule: bytes_cmp.induct) auto

lemma bytes_cmp_antisym: "bytes_cmp ys xs = - bytes_cmp xs ys"
  by (induction xs ys rule: bytes_cmp.induct)
     (auto simp: not_less dest: le_neq_implies_less simp flip: word_unat_eq_iff)

section \<open>Text that is printed\<close>

text \<open>The bytes of a literal without its NUL, and the digits of \<open>%d\<close> and \<open>%X\<close>.\<close>

definition bytes :: "string \<Rightarrow> byte list" where
  "bytes s = map of_char s"

fun dec_digits :: "nat \<Rightarrow> byte list" where
  "dec_digits n = (if n < 10 then [of_nat (48 + n)] else dec_digits (n div 10) @ [of_nat (48 + n mod 10)])"

declare dec_digits.simps [simp del]

fun hex_digit :: "nat \<Rightarrow> byte" where
  "hex_digit n = of_nat (if n < 10 then 48 + n else 55 + n)"

fun hex_digits :: "nat \<Rightarrow> byte list" where
  "hex_digits n = (if n < 16 then [hex_digit n] else hex_digits (n div 16) @ [hex_digit (n mod 16)])"

declare hex_digits.simps [simp del]

definition dec_int :: "int \<Rightarrow> byte list" where
  "dec_int i = (if i < 0 then bytes ''-'' @ dec_digits (nat (- i)) else dec_digits (nat i))"

definition pad_left :: "byte \<Rightarrow> nat \<Rightarrow> byte list \<Rightarrow> byte list" where
  "pad_left c n s = replicate (n - length s) c @ s"

end
