(* ===== verification/Lcd_Text.thy ===== *)
theory Lcd_Text
  imports Prelude
begin

text \<open>
  The text routines of \<^verbatim>\<open>src/libreciva/src/lcd/lcd.c\<close>: UTF-8 aware length, stepping to the
  next and the previous character, extraction of a character, insertion and deletion in an
  input buffer, and the two scrolling lines.  A string argument is the whole object it points
  into; positions are C \<open>int\<close>s.  The lemmas give each routine's result on a string that is
  a sequence of characters (\<open>uchar\<close>).
\<close>

section \<open>Bytes of a UTF-8 string\<close>

definition lead :: "byte \<Rightarrow> bool" where
  "lead c \<longleftrightarrow> c AND 0xC0 = 0xC0"

definition cont :: "byte \<Rightarrow> bool" where
  "cont c \<longleftrightarrow> c AND 0xC0 = 0x80"

lemma lead_cont: "lead c \<Longrightarrow> \<not> cont c"
  by (simp add: lead_def cont_def)

lemma zero_not_lead [simp]: "\<not> lead 0" and zero_not_cont [simp]: "\<not> cont 0"
  by (simp_all add: lead_def cont_def)

definition SLCD_TEXTBUF_MAXLEN :: int where "SLCD_TEXTBUF_MAXLEN = 128"

definition SLCD_UCHR_END1 :: "byte list" where "SLCD_UCHR_END1 = [0xee, 0x80, 0x80]"
definition SLCD_UCHR_END2 :: "byte list" where "SLCD_UCHR_END2 = [0xee, 0x80, 0x81]"
definition SLCD_UCHR_END3 :: "byte list" where "SLCD_UCHR_END3 = [0xee, 0x80, 0x82]"
definition SLCD_UCHR_DEL1 :: "byte list" where "SLCD_UCHR_DEL1 = [0xee, 0x80, 0x83]"
definition SLCD_UCHR_DEL2 :: "byte list" where "SLCD_UCHR_DEL2 = [0xee, 0x80, 0x84]"
definition SLCD_UCHR_DEL3 :: "byte list" where "SLCD_UCHR_DEL3 = [0xee, 0x80, 0x85]"
definition SLCD_UCHR_VOL1 :: "byte list" where "SLCD_UCHR_VOL1 = [0xee, 0x80, 0x86]"
definition SLCD_UCHR_VOL2 :: "byte list" where "SLCD_UCHR_VOL2 = [0xee, 0x80, 0x87]"
definition SLCD_UCHR_LEFT :: "byte list" where "SLCD_UCHR_LEFT = [0xee, 0x80, 0x88]"
definition SLCD_UCHR_RIGHT :: "byte list" where "SLCD_UCHR_RIGHT = [0xee, 0x80, 0x89]"
definition SLCD_UCHR_PAUSE :: "byte list" where "SLCD_UCHR_PAUSE = [0xee, 0x80, 0x8a]"
definition SLCD_UCHR_FF :: "byte list" where "SLCD_UCHR_FF = [0xee, 0x80, 0x8c]"
definition SLCD_UCHR_REW :: "byte list" where "SLCD_UCHR_REW = [0xee, 0x80, 0x8d]"
definition SLCD_UCHR_STOP :: "byte list" where "SLCD_UCHR_STOP = [0xee, 0x80, 0x8e]"
definition SLCD_UCHR_MUTE :: "byte list" where "SLCD_UCHR_MUTE = [0x4d]"

definition SLCD_USTR_INPUTMENU :: "byte list" where
  "SLCD_USTR_INPUTMENU =
     SLCD_UCHR_DEL1 @ SLCD_UCHR_DEL2 @ SLCD_UCHR_DEL3 @ SLCD_UCHR_LEFT @ SLCD_UCHR_RIGHT
     @ SLCD_UCHR_END1 @ SLCD_UCHR_END2 @ SLCD_UCHR_END3"

lemmas uchr_defs =
  SLCD_UCHR_END1_def SLCD_UCHR_END2_def SLCD_UCHR_END3_def SLCD_UCHR_DEL1_def
  SLCD_UCHR_DEL2_def SLCD_UCHR_DEL3_def SLCD_UCHR_VOL1_def SLCD_UCHR_VOL2_def
  SLCD_UCHR_LEFT_def SLCD_UCHR_RIGHT_def SLCD_UCHR_PAUSE_def SLCD_UCHR_FF_def
  SLCD_UCHR_REW_def SLCD_UCHR_STOP_def SLCD_UCHR_MUTE_def

section \<open>The routines\<close>

text \<open>\<open>while ((b[i] & 0xC0) == 0x80) i++\<close>: the first index from \<open>i\<close> that is no continuation.\<close>

function skip_cont :: "byte list \<Rightarrow> int \<Rightarrow> int res" where
  "skip_cont b i = res_bind (rd b i) (\<lambda>c. if cont c then skip_cont b (i + 1) else Ret i)"
  by pat_completeness auto
termination
  by (relation "measure (\<lambda>(b, i). nat (int (length b) - i))")
     (auto simp: rd_def split: if_splits)

declare skip_cont.simps [simp del]

lemma skip_cont_ge: "skip_cont b i = Ret j \<Longrightarrow> i \<le> j"
proof (induction b i rule: skip_cont.induct)
  case (1 b i)
  then show ?case
    by (subst (asm) skip_cont.simps) (fastforce simp: res_bind_Ret_iff split: if_splits)
qed

function lcd_strlen_loop :: "byte list \<Rightarrow> int \<Rightarrow> int \<Rightarrow> int res" where
  "lcd_strlen_loop b i l =
     res_bind (rd b i) (\<lambda>c.
       if c = 0 then Ret l
       else if lead c
       then res_bind (skip_cont b (i + 1)) (\<lambda>j. lcd_strlen_loop b j (l + 1))
       else lcd_strlen_loop b (i + 1) (l + 1))"
  by pat_completeness auto
termination
  by (relation "measure (\<lambda>(b, i, l). nat (int (length b) - i))")
     (auto simp: rd_def split: if_splits dest!: skip_cont_ge)

declare lcd_strlen_loop.simps [simp del]

definition lcd_strlen :: "byte list option \<Rightarrow> int res" where
  "lcd_strlen buf = (case buf of None \<Rightarrow> Ret 0 | Some b \<Rightarrow> lcd_strlen_loop b 0 0)"

definition lcd_strcatc :: "byte list option \<Rightarrow> int \<Rightarrow> byte \<Rightarrow> (int \<times> byte list option) res" where
  "lcd_strcatc buf maxlen c =
     (case buf of
        None \<Rightarrow> Ret (0, None)
      | Some b \<Rightarrow>
          res_bind (strlen b) (\<lambda>i.
            if i \<ge> maxlen then Ret (i, Some b)
            else res_bind (wr b i c) (\<lambda>b.
                 res_bind (wr b (i + 1) 0) (\<lambda>b. Ret (i + 1, Some b)))))"

definition lcd_getnextcharacterpos :: "byte list \<Rightarrow> int \<Rightarrow> int res" where
  "lcd_getnextcharacterpos str curpos =
     res_bind (skip_cont str (curpos + 1)) (\<lambda>p.
     res_bind (rd str p) (\<lambda>c. Ret (if c = 0 then 0 else p)))"

function back_cont :: "byte list \<Rightarrow> int \<Rightarrow> int res" where
  "back_cont b i =
     (if i > 0
      then res_bind (rd b i) (\<lambda>c. if cont c then back_cont b (i - 1) else Ret i)
      else Ret i)"
  by pat_completeness auto
termination
  by (relation "measure (\<lambda>(b, i). nat i)") auto

declare back_cont.simps [simp del]

definition lcd_getprevcharacterpos :: "byte list \<Rightarrow> int \<Rightarrow> int res" where
  "lcd_getprevcharacterpos str curpos =
     res_bind (if curpos = 0 then res_bind (strlen str) (\<lambda>n. Ret (n - 1)) else Ret (curpos - 1))
       (back_cont str)"

text \<open>
  The static buffer \<open>utf8[4]\<close>: the first byte and, after a lead byte, at most two more.  The
  result is the string the buffer holds.
\<close>

fun utf8_more :: "byte list \<Rightarrow> int \<Rightarrow> nat \<Rightarrow> byte list res" where
  "utf8_more b i 0 = res_bind (rd b i) (\<lambda>c. Ret [])"
| "utf8_more b i (Suc n) =
     res_bind (rd b i) (\<lambda>c.
       if cont c then res_bind (utf8_more b (i + 1) n) (\<lambda>r. Ret (c # r)) else Ret [])"

definition lcd_getutf8char :: "byte list \<Rightarrow> int \<Rightarrow> byte list res" where
  "lcd_getutf8char str pos =
     res_bind (rd str pos) (\<lambda>c.
       if lead c then res_bind (utf8_more str (pos + 1) 2) (\<lambda>r. Ret (c # r))
       else Ret (if c = 0 then [] else [c]))"

definition lcd_parsespecial :: "byte list \<Rightarrow> byte list" where
  "lcd_parsespecial t =
     (if t = SLCD_UCHR_END1 then [0x45]
      else if t = SLCD_UCHR_END2 then [0x4e]
      else if t = SLCD_UCHR_END3 then [0x44]
      else if t = SLCD_UCHR_DEL1 then [0x44]
      else if t = SLCD_UCHR_DEL2 then [0x45]
      else if t = SLCD_UCHR_DEL3 then [0x4c]
      else t)"

text \<open>Deletion copies the rest of the string left; insertion copies it right.\<close>

function del_loop :: "byte list \<Rightarrow> int \<Rightarrow> byte list res" where
  "del_loop b i =
     res_bind (rd b i) (\<lambda>c.
       if c = 0 then wr b i 0
       else res_bind (rd b (i + 1)) (\<lambda>d.
            res_bind (wr b i d) (\<lambda>b'. del_loop b' (i + 1))))"
  by pat_completeness auto
termination
  by (relation "measure (\<lambda>(b, i). nat (int (length b) - i))")
     (auto simp: rd_def wr_def split: if_splits)

declare del_loop.simps [simp del]

function ins_loop :: "byte list \<Rightarrow> int \<Rightarrow> int \<Rightarrow> byte list res" where
  "ins_loop b i pos =
     (if i > pos
      then res_bind (rd b (i - 1)) (\<lambda>c. res_bind (wr b i c) (\<lambda>b'. ins_loop b' (i - 1) pos))
      else Ret b)"
  by pat_completeness auto
termination
  by (relation "measure (\<lambda>(b, i, pos). nat (i - pos))") auto

declare ins_loop.simps [simp del]

definition lcd_insertchar ::
  "byte list \<Rightarrow> int \<Rightarrow> byte \<Rightarrow> int \<Rightarrow> (int \<times> byte list) res" where
  "lcd_insertchar str pos ch maxlen =
     res_bind (strlen str) (\<lambda>n.
       let newlen = (if ch = 0 then n - 1 else n + 1)
       in if newlen \<ge> SLCD_TEXTBUF_MAXLEN \<or> newlen \<ge> maxlen then Ret (pos, str)
          else if ch = 0
          then (if pos = 0 then Ret (pos, str)
                else res_bind (del_loop str (pos - 1)) (\<lambda>b. Ret (pos - 1, b)))
          else res_bind (wr str (n + 1) 0) (\<lambda>b.
               res_bind (strlen b) (\<lambda>m.
               res_bind (ins_loop b m pos) (\<lambda>b.
               res_bind (wr b pos ch) (\<lambda>b. Ret (pos + 1, b))))))"

definition lcd_inputbuildinputline :: "byte list \<Rightarrow> int \<Rightarrow> int \<Rightarrow> byte list res" where
  "lcd_inputbuildinputline src bol cursor =
     (if 0 \<le> bol \<and> bol \<le> int (length src) then Ret (drop (nat bol) src) else Fault)"

section \<open>Strings as sequences of characters\<close>

text \<open>
  A character is a byte that is no continuation, followed, if it is a lead byte, by
  continuations.  A well-formed string is a concatenation of characters; \<open>offs cs i\<close> is
  where its \<open>i\<close>-th character starts.
\<close>

fun uchar :: "byte list \<Rightarrow> bool" where
  "uchar [] = False"
| "uchar (c # t) = (c \<noteq> 0 \<and> \<not> cont c \<and> (t \<noteq> [] \<longrightarrow> lead c) \<and> (\<forall>x\<in>set t. cont x))"

definition utext :: "byte list list \<Rightarrow> bool" where
  "utext cs \<longleftrightarrow> (\<forall>c\<in>set cs. uchar c)"

definition offs :: "byte list list \<Rightarrow> nat \<Rightarrow> int" where
  "offs cs i = int (length (concat (take i cs)))"

lemma utext_simps [simp]:
  "utext []" "utext (c # cs) \<longleftrightarrow> uchar c \<and> utext cs"
  "utext (cs @ ds) \<longleftrightarrow> utext cs \<and> utext ds"
  by (auto simp: utext_def)

lemma uchar_nz: "uchar c \<Longrightarrow> 0 \<notin> set c"
  by (cases c) auto

lemma utext_nz: "utext cs \<Longrightarrow> 0 \<notin> set (concat cs)"
  by (auto simp: utext_def dest: uchar_nz)

lemma uchar_cases:
  assumes "uchar c"
  obtains x t where "c = x # t" "x \<noteq> 0" "\<not> cont x" "t \<noteq> [] \<Longrightarrow> lead x" "\<forall>y\<in>set t. cont y"
  using assms by (cases c) auto

lemma rd_append: "rd (p @ x # r) (int (length p)) = Ret x"
  by (simp add: rd_def)

lemma wr_append: "wr (p @ x # r) (int (length p)) c = Ret (p @ c # r)"
  by (simp add: wr_def list_update_append)

lemma skip_cont_append:
  "\<forall>x\<in>set t. cont x \<Longrightarrow> \<not> cont y \<Longrightarrow>
   skip_cont (p @ t @ y # r) (int (length p)) = Ret (int (length p + length t))"
proof (induction t arbitrary: p)
  case Nil
  then show ?case by (subst skip_cont.simps) (simp add: rd_append)
next
  case (Cons x t)
  have "skip_cont ((p @ [x]) @ t @ y # r) (int (length (p @ [x])))
      = Ret (int (length (p @ [x]) + length t))"
    using Cons by (intro Cons.IH) auto
  then show ?case
    using Cons.prems by (subst skip_cont.simps) (simp add: rd_append add.commute)
qed

text \<open>The byte after a character is never a continuation: the next character or the NUL.\<close>

lemma next_not_cont:
  assumes "utext ds" obtains y r' where "concat ds @ 0 # r = y # r'" "\<not> cont y" "(y = 0) = (ds = [])"
proof (cases ds)
  case Nil
  then show ?thesis using that [of 0 r] by simp
next
  case (Cons d es)
  with assms obtain x t where "d = x # t" "x \<noteq> 0" "\<not> cont x" by (auto elim: uchar_cases)
  with Cons show ?thesis using that [of x "t @ concat es @ 0 # r"] by simp
qed

lemma skip_cont_char:
  assumes "\<forall>x\<in>set t. cont x" "utext ds"
  shows "skip_cont (p @ t @ concat ds @ 0 # r) (int (length p)) = Ret (int (length p + length t))"
  using assms by (metis next_not_cont skip_cont_append)

lemma lcd_strlen_loop_text:
  "utext cs \<Longrightarrow>
   lcd_strlen_loop (p @ concat cs @ 0 # r) (int (length p)) l = Ret (l + int (length cs))"
proof (induction cs arbitrary: p l)
  case Nil
  then show ?case by (subst lcd_strlen_loop.simps) (simp add: rd_append)
next
  case (Cons c cs)
  then obtain x t where c: "c = x # t" "x \<noteq> 0" "t \<noteq> [] \<Longrightarrow> lead x" "\<forall>y\<in>set t. cont y"
    by (auto elim: uchar_cases)
  have IH: "lcd_strlen_loop (p @ c @ concat cs @ 0 # r) (int (length p + length c)) (l + 1)
      = Ret (l + 1 + int (length cs))"
    using Cons.IH [of "p @ c" "l + 1"] Cons.prems by simp
  have sk: "skip_cont (p @ c @ concat cs @ 0 # r) (int (length p) + 1)
      = Ret (int (length p + length c))"
    using skip_cont_char [of t cs "p @ [x]" r] c Cons.prems by (simp add: add.commute)
  show ?case
    using IH sk c
    by (subst lcd_strlen_loop.simps) (cases "lead x"; cases "t = []"; auto simp: rd_append add_ac)
qed

lemma lcd_strlen_text:
  "utext cs \<Longrightarrow> lcd_strlen (Some (concat cs @ 0 # r)) = Ret (int (length cs))"
  using lcd_strlen_loop_text [of cs "[]" r 0] by (simp add: lcd_strlen_def)

text \<open>On any terminated string the length is found without leaving the object.\<close>

lemma skip_cont_terminates:
  "i \<le> k \<Longrightarrow> k < length b \<Longrightarrow> b ! k = 0 \<Longrightarrow>
   \<exists>j. skip_cont b (int i) = Ret (int j) \<and> i \<le> j \<and> j \<le> k"
proof (induction "k - i" arbitrary: i)
  case 0
  then have "i = k" by simp
  with 0 show ?case by (subst skip_cont.simps) (auto simp: buf_simps)
next
  case (Suc d)
  have pre: "d = k - Suc i" "Suc i \<le> k" using Suc.hyps(2) by simp_all
  obtain j where "skip_cont b (int (Suc i)) = Ret (int j)" "Suc i \<le> j" "j \<le> k"
    using Suc.hyps(1) [OF pre Suc.prems(2,3)] by metis
  with Suc.prems show ?case
    by (subst skip_cont.simps) (cases "cont (b ! i)"; auto simp: buf_simps add.commute)
qed

lemma lcd_strlen_loop_terminates:
  "i \<le> k \<Longrightarrow> k < length b \<Longrightarrow> b ! k = 0 \<Longrightarrow> \<exists>n. lcd_strlen_loop b (int i) l = Ret n"
proof (induction "k - i" arbitrary: i l rule: less_induct)
  case less
  show ?case
  proof (cases "b ! i = 0")
    case True
    with less.prems show ?thesis by (subst lcd_strlen_loop.simps) (simp add: buf_simps)
  next
    case False
    then have i: "Suc i \<le> k" using less.prems by (cases "i = k") auto
    obtain j where j: "skip_cont b (int (Suc i)) = Ret (int j)" "Suc i \<le> j" "j \<le> k"
      using skip_cont_terminates [OF i less.prems(2,3)] by metis
    have "\<exists>n. lcd_strlen_loop b (int j) (l + 1) = Ret n"
      using less.hyps [of j] j i less.prems by auto
    moreover have "\<exists>n. lcd_strlen_loop b (int (Suc i)) (l + 1) = Ret n"
      using less.hyps [of "Suc i"] i less.prems by auto
    ultimately show ?thesis
      using False less.prems j(1)
      by (subst lcd_strlen_loop.simps) (auto simp: buf_simps add.commute)
  qed
qed

lemma lcd_strlen_terminates: "0 \<in> set b \<Longrightarrow> \<exists>n. lcd_strlen (Some b) = Ret n"
  using lcd_strlen_loop_terminates [of 0 _ b 0] by (auto simp: lcd_strlen_def in_set_conv_nth)

lemma take_nth_drop_concat:
  "i < length cs \<Longrightarrow> concat cs = concat (take i cs) @ cs ! i @ concat (drop (Suc i) cs)"
  by (metis concat.simps(2) concat_append id_take_nth_drop)

lemma offs_Suc: "i < length cs \<Longrightarrow> offs cs (Suc i) = offs cs i + int (length (cs ! i))"
  by (simp add: offs_def take_Suc_conv_app_nth)

lemma offs_0 [simp]: "offs cs 0 = 0"
  by (simp add: offs_def)

lemma utext_take_drop: "utext cs \<Longrightarrow> utext (take i cs)" "utext cs \<Longrightarrow> utext (drop i cs)"
  by (auto simp: utext_def dest: in_set_takeD in_set_dropD)

lemma utext_nth: "utext cs \<Longrightarrow> i < length cs \<Longrightarrow> uchar (cs ! i)"
  by (simp add: utext_def)

text \<open>Stepping forward goes to the next character, and from the last one back to the first.\<close>

lemma lcd_getnextcharacterpos_text:
  assumes "utext cs" "i < length cs"
  shows "lcd_getnextcharacterpos (concat cs @ 0 # r) (offs cs i)
         = Ret (if Suc i < length cs then offs cs (Suc i) else 0)"
proof -
  let ?p = "concat (take i cs)" and ?ds = "drop (Suc i) cs"
  from utext_nth [OF assms] obtain x t where
    c: "cs ! i = x # t" "\<forall>y\<in>set t. cont y" by (auto elim: uchar_cases)
  have s: "concat cs @ 0 # r = (?p @ [x]) @ t @ concat ?ds @ 0 # r"
    using take_nth_drop_concat [OF assms(2)] c by simp
  have ds: "utext ?ds" using assms utext_take_drop by blast
  obtain y r' where y: "concat ?ds @ 0 # r = y # r'" "(y = 0) = (?ds = [])"
    using next_not_cont [OF ds] by metis
  have "skip_cont (concat cs @ 0 # r) (offs cs i + 1) = Ret (offs cs (Suc i))"
    using skip_cont_char [OF c(2) ds, of "?p @ [x]" r] offs_Suc [OF assms(2)] c(1)
    by (simp add: s offs_def add.commute)
  moreover have "rd (concat cs @ 0 # r) (offs cs (Suc i)) = Ret y"
    using rd_append [of "?p @ [x] @ t" y r'] y(1) offs_Suc [OF assms(2)] c(1)
    by (simp add: s offs_def algebra_simps)
  ultimately show ?thesis
    using y(2) assms(2) by (auto simp: lcd_getnextcharacterpos_def)
qed

text \<open>Stepping backward goes to the previous character, and from the first one to the last.\<close>

lemma back_cont_append:
  "\<forall>x\<in>set t. cont x \<Longrightarrow> \<not> cont y \<Longrightarrow>
   back_cont (p @ y # t @ r) (int (length p + length t)) = Ret (int (length p))"
proof (induction t arbitrary: r rule: rev_induct)
  case Nil
  then show ?case by (subst back_cont.simps) (simp add: rd_append)
next
  case (snoc x t)
  have "rd (p @ y # (t @ [x]) @ r) (int (length p + length (t @ [x]))) = Ret x"
    using rd_append [of "p @ y # t" x r] by simp
  with snoc show ?case by (subst back_cont.simps) simp
qed

lemma back_cont_char:
  assumes "utext cs" "i < length cs"
  shows "back_cont (concat cs @ 0 # r) (offs cs (Suc i) - 1) = Ret (offs cs i)"
proof -
  from utext_nth [OF assms] obtain x t where
    c: "cs ! i = x # t" "\<forall>y\<in>set t. cont y" "\<not> cont x" by (auto elim: uchar_cases)
  show ?thesis
    using back_cont_append [OF c(2,3), of "concat (take i cs)" "concat (drop (Suc i) cs) @ 0 # r"]
      take_nth_drop_concat [OF assms(2)] offs_Suc [OF assms(2)] c(1)
    by (simp add: offs_def)
qed

lemma strlen_text: "utext cs \<Longrightarrow> strlen (concat cs @ 0 # r) = Ret (offs cs (length cs))"
  using utext_nz [of cs] by (simp add: strlen_def offs_def)

lemma offs_pos: "utext cs \<Longrightarrow> 0 < i \<Longrightarrow> i \<le> length cs \<Longrightarrow> 0 < offs cs i"
proof -
  assume "utext cs" "0 < i" "i \<le> length cs"
  then have "uchar (cs ! 0)" by (cases cs) auto
  with \<open>0 < i\<close> \<open>i \<le> length cs\<close> show ?thesis
    by (cases cs; cases i) (auto simp: offs_def elim!: uchar_cases)
qed

lemma lcd_getprevcharacterpos_text:
  assumes "utext cs" "i < length cs"
  shows "lcd_getprevcharacterpos (concat cs @ 0 # r) (offs cs i)
         = Ret (offs cs (if i = 0 then length cs - 1 else i - 1))"
proof (cases "i = 0")
  case True
  then show ?thesis
    using back_cont_char [OF assms(1), of "length cs - 1" r] assms
    by (simp add: lcd_getprevcharacterpos_def strlen_text)
next
  case False
  then show ?thesis
    using back_cont_char [OF assms(1), of "i - 1" r] offs_pos [OF assms(1), of i] assms(2)
    by (simp add: lcd_getprevcharacterpos_def)
qed

text \<open>Extraction returns the character, cut after three bytes.\<close>

lemma utf8_more_take:
  "\<forall>x\<in>set t. cont x \<Longrightarrow> \<not> cont y \<Longrightarrow>
   utf8_more (p @ t @ y # r) (int (length p)) n = Ret (take n t)"
proof (induction t arbitrary: p n)
  case Nil
  then show ?case by (cases n) (simp_all add: rd_append)
next
  case (Cons x t)
  show ?case
  proof (cases n)
    case 0
    then show ?thesis by (simp add: rd_append)
  next
    case (Suc m)
    have "utf8_more ((p @ [x]) @ t @ y # r) (int (length (p @ [x]))) m = Ret (take m t)"
      using Cons by (intro Cons.IH) auto
    with Suc Cons.prems show ?thesis by (simp add: rd_append add.commute)
  qed
qed

lemma lcd_getutf8char_text:
  assumes "utext cs" "i < length cs"
  shows "lcd_getutf8char (concat cs @ 0 # r) (offs cs i) = Ret (take 3 (cs ! i))"
proof -
  let ?p = "concat (take i cs)" and ?ds = "drop (Suc i) cs"
  from utext_nth [OF assms] obtain x t where
    c: "cs ! i = x # t" "\<forall>y\<in>set t. cont y" "x \<noteq> 0" "t \<noteq> [] \<Longrightarrow> lead x"
    by (auto elim: uchar_cases)
  have s: "concat cs @ 0 # r = ?p @ x # t @ concat ?ds @ 0 # r"
    using take_nth_drop_concat [OF assms(2)] c by simp
  have "utext ?ds" using assms utext_take_drop by blast
  then obtain y r' where y: "concat ?ds @ 0 # r = y # r'" "\<not> cont y"
    using next_not_cont by metis
  have "utf8_more (concat cs @ 0 # r) (offs cs i + 1) 2 = Ret (take 2 t)"
    using utf8_more_take [OF c(2) y(2), of "?p @ [x]" r' 2]
    by (simp add: s y(1) offs_def add.commute)
  moreover have "rd (concat cs @ 0 # r) (offs cs i) = Ret x"
    by (simp add: s offs_def rd_append)
  ultimately show ?thesis
    using c by (cases "lead x"; cases "t = []") (auto simp: lcd_getutf8char_def numeral_eq_Suc)
qed

section \<open>Editing an input buffer\<close>

lemma del_loop_append:
  "x \<noteq> 0 \<Longrightarrow> 0 \<notin> set s \<Longrightarrow>
   del_loop (p @ x # s @ 0 # r) (int (length p)) = Ret (p @ s @ 0 # 0 # r)"
proof (induction s arbitrary: p x)
  case Nil
  have "del_loop ((p @ [0]) @ 0 # r) (int (length (p @ [0]))) = Ret ((p @ [0]) @ 0 # r)"
    by (subst del_loop.simps) (simp only: rd_append wr_append res_bind.simps if_True simp_thms)
  then show ?case
    using Nil rd_append [of "p @ [x]" 0 r]
    by (subst del_loop.simps) (simp add: rd_append wr_append add.commute)
next
  case (Cons y s)
  have "del_loop ((p @ [y]) @ y # s @ 0 # r) (int (length (p @ [y])))
      = Ret ((p @ [y]) @ s @ 0 # 0 # r)"
    using Cons by (intro Cons.IH) auto
  then show ?case
    using Cons.prems rd_append [of "p @ [x]" y "s @ 0 # r"]
    by (subst del_loop.simps) (simp add: rd_append wr_append add.commute)
qed

lemma ins_loop_append:
  "ins_loop (p @ s @ z # q) (int (length p + length s)) (int (length p))
   = Ret (p @ hd (s @ [z]) # s @ q)"
proof (induction s arbitrary: z q rule: rev_induct)
  case Nil
  then show ?case by (subst ins_loop.simps) simp
next
  case (snoc x s)
  have "rd (p @ s @ x # z # q) (int (length p + length s)) = Ret x"
    using rd_append [of "p @ s" x "z # q"] by simp
  moreover have "wr (p @ s @ x # z # q) (int (length p + length s) + 1) x
      = Ret (p @ s @ x # x # q)"
    by (simp add: wr_def list_update_append nat_add_distrib)
  ultimately show ?case
    using snoc.IH [of x "x # q"]
    by (subst ins_loop.simps) (simp add: add.commute add.left_commute hd_append)
qed

lemma lcd_insertchar_insert:
  assumes "0 \<notin> set s" "0 \<notin> set t" "ch \<noteq> 0"
    and "int (length (s @ t)) + 1 < maxlen" "int (length (s @ t)) + 1 < SLCD_TEXTBUF_MAXLEN"
    and "r \<noteq> []"
  shows "lcd_insertchar (s @ t @ 0 # r) (int (length s)) ch maxlen
         = Ret (int (length s) + 1, s @ ch # t @ 0 # tl r)"
proof -
  obtain x q where r: "r = x # q" using assms(6) by (cases r) auto
  have n: "strlen (s @ t @ 0 # r) = Ret (int (length s + length t))" for r
    using assms(1,2) cstr_append_nul [of "s @ t" r] by (simp add: strlen_def)
  have w: "wr (s @ t @ 0 # x # q) (int (length s + length t) + 1) 0 = Ret (s @ t @ 0 # 0 # q)"
    by (simp add: wr_def list_update_append nat_add_distrib)
  show ?thesis
    using assms n w ins_loop_append [of s t 0 "0 # q"]
    by (simp add: lcd_insertchar_def r Let_def wr_def list_update_append)
qed

lemma lcd_insertchar_delete:
  assumes "0 \<notin> set s" "0 \<notin> set t" "x \<noteq> 0"
    and "int (length (s @ t)) < maxlen" "int (length (s @ t)) < SLCD_TEXTBUF_MAXLEN"
  shows "lcd_insertchar (s @ x # t @ 0 # r) (int (length s) + 1) 0 maxlen
         = Ret (int (length s), s @ t @ 0 # 0 # r)"
proof -
  have n: "strlen (s @ x # t @ 0 # r) = Ret (int (length s + length t) + 1)"
    using assms(1-3) cstr_append_nul [of "s @ x # t" r] by (simp add: strlen_def)
  show ?thesis
    using assms n del_loop_append [of x t s r]
    by (simp add: lcd_insertchar_def Let_def)
qed

text \<open>The two cases in which the buffer is left as it is.\<close>

lemma lcd_insertchar_full:
  assumes "strlen b = Ret n" "ch \<noteq> 0" "n + 1 \<ge> maxlen \<or> n + 1 \<ge> SLCD_TEXTBUF_MAXLEN"
  shows "lcd_insertchar b pos ch maxlen = Ret (pos, b)"
  using assms by (auto simp: lcd_insertchar_def)

lemma lcd_insertchar_delete_first:
  assumes "strlen b = Ret n"
  shows "lcd_insertchar b 0 0 maxlen = Ret (0, b)"
  using assms by (auto simp: lcd_insertchar_def)

end
