(* ===== verification/Lcd_State.thy ===== *)
theory Lcd_State
  imports Lcd_Text
begin

text \<open>
  The data of \<^verbatim>\<open>src/libreciva/include/lcd.h\<close> and \<^verbatim>\<open>lcdhw.h\<close>: rows and screen handles in a
  heap of allocated objects, the table of display operations \<^verbatim>\<open>lcd.c\<close> calls, and the
  state its functions pass along.
\<close>

section \<open>Enumerations and structures\<close>

datatype slcd_e_select = SLCD_SELECTED | SLCD_NOTSELECTED

datatype slcd_e_type = SLCD_MENU | SLCD_FRAME | SLCD_INPUT | SLCD_CLOCK | SLCD_YESNO

datatype slcd_e_inputctl = SLCD_LEFT | SLCD_RIGHT | SLCD_ENTER

datatype slcd_e_menuctl = SLCD_UP | SLCD_DOWN

datatype slcd_e_bartype = SLCD_BLINES | SLCD_BARROWS

datatype slcd_e_arrows = SLCD_SEL_ARROWS | SLCD_SEL_NOARROWS

datatype slcd_e_clkmode = SLCD_CLK_12HR | SLCD_CLK_24HR

datatype slcd_e_icons =
    SLCD_ICON_SHIFT | SLCD_ICON_IRADIO | SLCD_ICON_MEDIA | SLCD_ICON_SHUFFLE | SLCD_ICON_REPEAT
  | SLCD_ICON_SLEEP | SLCD_ICON_MUTE | SLCD_ICON_ALARM | SLCD_ICON_SNOOZE | SLCD_ICON_MENU
  | SLCD_ICON_VOLUME | SLCD_ICON_REWIND | SLCD_ICON_PAUSE | SLCD_ICON_STOP | SLCD_ICON_FF

definition SLCD_HAS_ICONS :: "32 word" where "SLCD_HAS_ICONS = 512"
definition SLCD_HAS_DRIVERCLOCK :: "32 word" where "SLCD_HAS_DRIVERCLOCK = 2048"

text \<open>The members of \<open>struct tm\<close> the code reads.\<close>

record tm =
  tm_sec :: int
  tm_min :: int
  tm_hour :: int
  tm_mday :: int
  tm_mon :: int
  tm_wday :: int

text \<open>A pointer is a number, \<open>NULL\<close> is 0.\<close>

type_synonym ptr = nat

abbreviation (input) NULL :: ptr where "NULL \<equiv> 0"

text \<open>A row owns its string, so the string is part of the row; \<open>None\<close> is a null pointer.\<close>

record slcd_s_row =
  row_next :: ptr
  row_prev :: ptr
  row_str :: "byte list option"
  row_idnumber :: int
  row_scrollpos :: int
  row_len :: int

record lcd_handle =
  h_type :: slcd_e_type
  h_numrows :: int
  h_top :: ptr
  h_end :: ptr
  h_tsc :: ptr
  h_curl :: ptr
  h_linebuf :: "byte list option"
  h_statusrow :: int
  h_showicons :: bool
  h_alm :: tm
  h_almon :: bool
  h_inputselectedopt :: int
  h_inputcursorpos :: int
  h_inputbolpos :: int
  h_result :: ptr
  h_selectopts :: "byte list option"
  h_maxlen :: int
  h_yesnoopt :: int
  h_yesnomax :: int
  h_yesnoopts :: "byte list option"

section \<open>The display interface\<close>

text \<open>
  The functions of \<^verbatim>\<open>lcdhw.h\<close> that \<^verbatim>\<open>lcd.c\<close> calls.  The library is linked with one of two
  implementations (\<^verbatim>\<open>lcd_reciva.c\<close> and \<^verbatim>\<open>lcd_devel.c\<close>), so they are a table of operations
  over the implementation's own state \<open>'hw\<close>.
\<close>

record 'hw lcdhw_ops =
  op_width :: "'hw \<Rightarrow> int"
  op_height :: "'hw \<Rightarrow> int"
  op_capabilities :: "'hw \<Rightarrow> 32 word"
  op_hwclearscr :: "'hw \<Rightarrow> 'hw res"
  op_hwputline :: "int \<Rightarrow> byte list \<Rightarrow> slcd_e_arrows \<Rightarrow> 'hw \<Rightarrow> (bool \<times> 'hw) res"
  op_hwcursor :: "int \<Rightarrow> int \<Rightarrow> bool \<Rightarrow> 'hw \<Rightarrow> (bool \<times> 'hw) res"
  op_hwrefresh :: "'hw \<Rightarrow> 'hw res"
  op_hwclock :: "tm \<Rightarrow> bool \<Rightarrow> tm \<Rightarrow> slcd_e_clkmode \<Rightarrow> byte list \<Rightarrow> byte list \<Rightarrow> byte list
                 \<Rightarrow> 'hw \<Rightarrow> (bool \<times> 'hw) res"
  op_geticon :: "slcd_e_icons \<Rightarrow> 'hw \<Rightarrow> bool"
  op_hwgetscreen :: "'hw \<Rightarrow> byte list list option"
  op_hwgetselrows :: "'hw \<Rightarrow> int list option"

section \<open>The state of the library\<close>

text \<open>
  \<open>rows\<close>, \<open>handles\<close> and \<open>bufs\<close> are the allocated rows, screen handles and the input buffers
  callers own; an address that is not allocated, or was freed, has no entry and using it is a
  fault.  \<open>nalloc\<close> counts the calls of \<open>malloc\<close> and \<open>oom\<close> says which of them return \<open>NULL\<close>:
  it is a free parameter of every theorem.  Addresses are not reused.  \<open>currentscreen\<close> and
  \<open>lastmins\<close> are the static variables of \<^verbatim>\<open>lcd.c\<close> and \<^verbatim>\<open>lcd_tick\<close>.
\<close>

record 'hw lcdst =
  rows :: "ptr \<Rightarrow> slcd_s_row option"
  handles :: "ptr \<Rightarrow> lcd_handle option"
  bufs :: "ptr \<Rightarrow> byte list option"
  nalloc :: nat
  oom :: "nat \<Rightarrow> bool"
  currentscreen :: ptr
  lastmins :: int
  hwst :: 'hw

definition lcd_malloc :: "'hw lcdst \<Rightarrow> ptr \<times> 'hw lcdst" where
  "lcd_malloc s = (if oom s (nalloc s) then NULL else Suc (nalloc s),
                   s\<lparr>nalloc := Suc (nalloc s)\<rparr>)"

definition ld_row :: "ptr \<Rightarrow> 'hw lcdst \<Rightarrow> slcd_s_row res" where
  "ld_row p s = (case rows s p of None \<Rightarrow> Fault | Some r \<Rightarrow> Ret r)"

definition st_row :: "ptr \<Rightarrow> (slcd_s_row \<Rightarrow> slcd_s_row) \<Rightarrow> 'hw lcdst \<Rightarrow> 'hw lcdst res" where
  "st_row p f s =
     (case rows s p of None \<Rightarrow> Fault | Some r \<Rightarrow> Ret (s\<lparr>rows := (rows s)(p \<mapsto> f r)\<rparr>))"

definition ld_h :: "ptr \<Rightarrow> 'hw lcdst \<Rightarrow> lcd_handle res" where
  "ld_h p s = (case handles s p of None \<Rightarrow> Fault | Some h \<Rightarrow> Ret h)"

definition st_h :: "ptr \<Rightarrow> (lcd_handle \<Rightarrow> lcd_handle) \<Rightarrow> 'hw lcdst \<Rightarrow> 'hw lcdst res" where
  "st_h p f s =
     (case handles s p of None \<Rightarrow> Fault | Some h \<Rightarrow> Ret (s\<lparr>handles := (handles s)(p \<mapsto> f h)\<rparr>))"

definition ld_buf :: "ptr \<Rightarrow> 'hw lcdst \<Rightarrow> byte list res" where
  "ld_buf p s = (case bufs s p of None \<Rightarrow> Fault | Some b \<Rightarrow> Ret b)"

definition st_buf :: "ptr \<Rightarrow> byte list \<Rightarrow> 'hw lcdst \<Rightarrow> 'hw lcdst res" where
  "st_buf p b s =
     (case bufs s p of None \<Rightarrow> Fault | Some _ \<Rightarrow> Ret (s\<lparr>bufs := (bufs s)(p \<mapsto> b)\<rparr>))"

text \<open>Reading a \<open>char *\<close> that may be null.\<close>

definition ld_str :: "byte list option \<Rightarrow> byte list res" where
  "ld_str p = (case p of None \<Rightarrow> Fault | Some b \<Rightarrow> Ret b)"

named_theorems heap_simps \<open>loads and stores at known addresses\<close>

lemma ld_row_Some [heap_simps]: "rows s p = Some r \<Longrightarrow> ld_row p s = Ret r"
  by (simp add: ld_row_def)

lemma st_row_Some [heap_simps]:
  "rows s p = Some r \<Longrightarrow> st_row p f s = Ret (s\<lparr>rows := (rows s)(p \<mapsto> f r)\<rparr>)"
  by (simp add: st_row_def)

lemma ld_h_Some [heap_simps]: "handles s p = Some h \<Longrightarrow> ld_h p s = Ret h"
  by (simp add: ld_h_def)

lemma st_h_Some [heap_simps]:
  "handles s p = Some h \<Longrightarrow> st_h p f s = Ret (s\<lparr>handles := (handles s)(p \<mapsto> f h)\<rparr>)"
  by (simp add: st_h_def)

lemma ld_buf_Some [heap_simps]: "bufs s p = Some b \<Longrightarrow> ld_buf p s = Ret b"
  by (simp add: ld_buf_def)

lemma st_buf_Some [heap_simps]:
  "bufs s p = Some b \<Longrightarrow> st_buf p b' s = Ret (s\<lparr>bufs := (bufs s)(p \<mapsto> b')\<rparr>)"
  by (simp add: st_buf_def)

lemma ld_str_Some [heap_simps]: "ld_str (Some b) = Ret b"
  by (simp add: ld_str_def)

end
