(* ===== verification/Lcd_Menu.thy ===== *)
theory Lcd_Menu
  imports Lcd_State
begin

text \<open>
  The menu functions of \<^verbatim>\<open>src/libreciva/src/lcd/lcd.c\<close> on the circular list of rows, and
  \<^verbatim>\<open>lcd_delete\<close>.  A message of level \<^verbatim>\<open>LG_FTL\<close> ends the process inside \<^verbatim>\<open>log_entry\<close>, so the
  branches that log one are \<open>Exit\<close>; messages of other levels have no effect on the state.
\<close>

section \<open>Creating, clearing and deleting\<close>

definition init_handle :: "int \<Rightarrow> lcd_handle" where
  "init_handle width =
     \<lparr>h_type = SLCD_MENU, h_numrows = 0, h_top = NULL, h_end = NULL, h_tsc = NULL, h_curl = NULL,
      h_linebuf = Some (replicate (nat (width * 3 + 1)) 0),
      h_statusrow = -1, h_showicons = False,
      h_alm = \<lparr>tm_sec = 0, tm_min = 0, tm_hour = 0, tm_mday = 0, tm_mon = 0, tm_wday = 0\<rparr>,
      h_almon = False,
      h_inputselectedopt = 0, h_inputcursorpos = 0, h_inputbolpos = 0, h_result = NULL,
      h_selectopts = None, h_maxlen = 0,
      h_yesnoopt = 0, h_yesnomax = 0, h_yesnoopts = None\<rparr>"

definition lcd_menucreate :: "'hw lcdhw_ops \<Rightarrow> 'hw lcdst \<Rightarrow> (ptr \<times> 'hw lcdst) res" where
  "lcd_menucreate I s =
     (let (h, s) = lcd_malloc s
      in if h = NULL then Exit
         else let (linebuf, s) = lcd_malloc s
              in if linebuf = NULL then Exit
                 else Ret (h, s\<lparr>handles := (handles s)(h \<mapsto> init_handle (op_width I (hwst s)))\<rparr>))"

text \<open>
  \<open>while (p!=NULL) { free(p->str); q=p; p=p->next; free(q); }\<close>.  Every round frees an
  allocated row, so more rounds than allocations cannot happen: the fuel is never used up
  (\<open>free_rows_not_Diverge\<close>).
\<close>

fun free_rows :: "nat \<Rightarrow> ptr \<Rightarrow> 'hw lcdst \<Rightarrow> 'hw lcdst res" where
  "free_rows 0 p s = (if p = NULL then Ret s else Diverge)"
| "free_rows (Suc n) p s =
     (if p = NULL then Ret s
      else res_bind (ld_row p s) (\<lambda>r. free_rows n (row_next r) (s\<lparr>rows := (rows s)(p := None)\<rparr>)))"

definition lcd_menuclear :: "ptr \<Rightarrow> 'hw lcdst \<Rightarrow> (bool \<times> 'hw lcdst) res" where
  "lcd_menuclear handle s =
     (if handle = NULL then Ret (False, s)
      else res_bind (ld_h handle s) (\<lambda>h.
           res_bind (st_h handle (\<lambda>h. h\<lparr>h_tsc := NULL, h_curl := NULL, h_top := NULL,
                                        h_numrows := 0\<rparr>) s) (\<lambda>s.
           res_bind (if h_end h \<noteq> NULL then st_row (h_end h) (\<lambda>r. r\<lparr>row_next := NULL\<rparr>) s
                     else Ret s) (\<lambda>s.
           res_bind (st_h handle (\<lambda>h. h\<lparr>h_end := NULL\<rparr>) s) (\<lambda>s.
           res_bind (free_rows (nalloc s) (h_top h) s) (\<lambda>s. Ret (True, s)))))))"

definition lcd_delete :: "ptr \<Rightarrow> 'hw lcdst \<Rightarrow> 'hw lcdst res" where
  "lcd_delete handle s =
     (if handle = NULL then Ret s
      else res_bind (lcd_menuclear handle s) (\<lambda>(_, s).
           res_bind (ld_h handle s) (\<lambda>_. Ret (s\<lparr>handles := (handles s)(handle := None)\<rparr>))))"

section \<open>Adding an entry\<close>

text \<open>Linking the new row \<open>row\<close> behind the last one; the list is circular.\<close>

definition link_row :: "ptr \<Rightarrow> ptr \<Rightarrow> 'hw lcdst \<Rightarrow> 'hw lcdst res" where
  "link_row handle row s =
     res_bind (ld_h handle s) (\<lambda>h.
       if h_top h = NULL
       then res_bind (st_row row (\<lambda>r. r\<lparr>row_prev := row, row_next := row\<rparr>) s) (\<lambda>s.
            st_h handle (\<lambda>h. h\<lparr>h_top := row, h_end := row, h_tsc := row, h_curl := row\<rparr>) s)
       else res_bind (st_row row (\<lambda>r. r\<lparr>row_prev := h_end h\<rparr>) s) (\<lambda>s.
            res_bind (st_row (h_end h) (\<lambda>r. r\<lparr>row_next := row\<rparr>) s) (\<lambda>s.
            res_bind (st_row row (\<lambda>r. r\<lparr>row_next := h_top h\<rparr>) s) (\<lambda>s.
            res_bind (st_row (h_top h) (\<lambda>r. r\<lparr>row_prev := row\<rparr>) s) (\<lambda>s.
            st_h handle (\<lambda>h. h\<lparr>h_end := row\<rparr>) s)))))"

definition lcd_menuaddentry ::
  "ptr \<Rightarrow> int \<Rightarrow> byte list option \<Rightarrow> slcd_e_select \<Rightarrow> 'hw lcdst \<Rightarrow> (bool \<times> 'hw lcdst) res" where
  "lcd_menuaddentry handle idnumber str selected s =
     (if handle = NULL \<or> str = None then Ret (False, s)
      else
        let (row, s) = lcd_malloc s
        in if row = NULL then Exit
           else
             res_bind (ld_str str) (\<lambda>b.
             res_bind (strlen b) (\<lambda>_.
             let (copy, s) = lcd_malloc s
             in if copy = NULL then Exit
                else
                  res_bind (lcd_strlen str) (\<lambda>len.
                  let s = s\<lparr>rows := (rows s)(row \<mapsto>
                            \<lparr>row_next = NULL, row_prev = NULL, row_str = Some (zstr (cstr b)),
                             row_idnumber = idnumber, row_scrollpos = 0, row_len = len\<rparr>)\<rparr>
                  in res_bind (link_row handle row s) (\<lambda>s.
                     res_bind (if selected = SLCD_SELECTED
                               then st_h handle (\<lambda>h. h\<lparr>h_curl := row, h_tsc := row\<rparr>) s
                               else Ret s) (\<lambda>s.
                     res_bind (st_h handle (\<lambda>h. h\<lparr>h_numrows := h_numrows h + 1\<rparr>) s) (\<lambda>s.
                     Ret (True, s))))))))"

section \<open>Sorting\<close>

text \<open>The six pointer updates that move \<open>t2\<close> behind its successor \<open>t3\<close>.\<close>

definition swap_rows :: "ptr \<Rightarrow> ptr \<Rightarrow> ptr \<Rightarrow> ptr \<Rightarrow> 'hw lcdst \<Rightarrow> 'hw lcdst res" where
  "swap_rows t1 t2 t3 t4 s =
     res_bind (st_row t1 (\<lambda>r. r\<lparr>row_next := t3\<rparr>) s) (\<lambda>s.
     res_bind (st_row t3 (\<lambda>r. r\<lparr>row_next := t2\<rparr>) s) (\<lambda>s.
     res_bind (st_row t2 (\<lambda>r. r\<lparr>row_next := t4\<rparr>) s) (\<lambda>s.
     res_bind (st_row t4 (\<lambda>r. r\<lparr>row_prev := t2\<rparr>) s) (\<lambda>s.
     res_bind (st_row t2 (\<lambda>r. r\<lparr>row_prev := t3\<rparr>) s) (\<lambda>s.
     st_row t3 (\<lambda>r. r\<lparr>row_prev := t1\<rparr>) s)))))"

fun sort_inner :: "nat \<Rightarrow> ptr \<Rightarrow> ptr \<Rightarrow> 'hw lcdst \<Rightarrow> 'hw lcdst res" where
  "sort_inner 0 handle p s = Ret s"
| "sort_inner (Suc n) handle p s =
     res_bind (ld_row p s) (\<lambda>r2.
     let t1 = row_prev r2; t2 = p; t3 = row_next r2
     in res_bind (ld_row t3 s) (\<lambda>r3.
        let t4 = row_next r3
        in res_bind (ld_row t1 s) (\<lambda>r1.
           res_bind (ld_str (row_str r1)) (\<lambda>str1.
           res_bind (ld_str (row_str r2)) (\<lambda>str2.
           if strcmp str1 str2 > 0
           then res_bind (swap_rows t1 t2 t3 t4 s) (\<lambda>s.
                res_bind (st_h handle (\<lambda>h. if h_top h = t2 then h\<lparr>h_top := t3\<rparr> else h) s) (\<lambda>s.
                res_bind (st_h handle (\<lambda>h. if h_end h = t3 then h\<lparr>h_end := t2\<rparr> else h) s) (\<lambda>s.
                sort_inner n handle p s)))
           else sort_inner n handle t3 s)))))"

fun sort_outer :: "int list \<Rightarrow> ptr \<Rightarrow> 'hw lcdst \<Rightarrow> 'hw lcdst res" where
  "sort_outer [] handle s = Ret s"
| "sort_outer (i # is) handle s =
     res_bind (ld_h handle s) (\<lambda>h.
     res_bind (sort_inner (nat (h_numrows h - 1 - i)) handle (h_top h) s) (\<lambda>s.
     sort_outer is handle s))"

definition lcd_menusort :: "ptr \<Rightarrow> 'hw lcdst \<Rightarrow> 'hw lcdst res" where
  "lcd_menusort handle s =
     (if handle = NULL then Exit
      else res_bind (ld_h handle s) (\<lambda>h.
           if h_top h = NULL \<or> h_numrows h < 2 then Ret s
           else res_bind (sort_outer [0..h_numrows h - 2] handle s) (\<lambda>s.
                st_h handle (\<lambda>h. h\<lparr>h_tsc := h_curl h\<rparr>) s)))"

section \<open>Moving the selection and reading it\<close>

fun nth_next :: "nat \<Rightarrow> ptr \<Rightarrow> 'hw lcdst \<Rightarrow> ptr res" where
  "nth_next 0 p s = Ret p"
| "nth_next (Suc n) p s = res_bind (ld_row p s) (\<lambda>r. nth_next n (row_next r) s)"

definition lcd_menucontrol ::
  "'hw lcdhw_ops \<Rightarrow> ptr \<Rightarrow> slcd_e_menuctl \<Rightarrow> 'hw lcdst \<Rightarrow> (bool \<times> 'hw lcdst) res" where
  "lcd_menucontrol I handle cmd s =
     (if handle = NULL then Exit
      else res_bind (ld_h handle s) (\<lambda>h.
        if h_curl h = NULL then Ret (False, s)
        else res_bind (st_row (h_curl h) (\<lambda>r. r\<lparr>row_scrollpos := 0\<rparr>) s) (\<lambda>s.
             let height = op_height I (hwst s)
             in case cmd of
                  SLCD_UP \<Rightarrow>
                    res_bind (if h_numrows h > height \<and> h_curl h = h_tsc h
                              then res_bind (ld_row (h_tsc h) s) (\<lambda>r.
                                   st_h handle (\<lambda>h. h\<lparr>h_tsc := row_prev r\<rparr>) s)
                              else Ret s) (\<lambda>s.
                    res_bind (ld_row (h_curl h) s) (\<lambda>r.
                    res_bind (st_h handle (\<lambda>h. h\<lparr>h_curl := row_prev r\<rparr>) s) (\<lambda>s.
                    Ret (True, s))))
                | SLCD_DOWN \<Rightarrow>
                    res_bind (if h_numrows h > height
                              then res_bind (nth_next (nat (height - 1)) (h_tsc h) s) (\<lambda>p.
                                   if h_curl h = p
                                   then res_bind (ld_row (h_tsc h) s) (\<lambda>r.
                                        st_h handle (\<lambda>h. h\<lparr>h_tsc := row_next r\<rparr>) s)
                                   else Ret s)
                              else Ret s) (\<lambda>s.
                    res_bind (ld_row (h_curl h) s) (\<lambda>r.
                    res_bind (st_h handle (\<lambda>h. h\<lparr>h_curl := row_next r\<rparr>) s) (\<lambda>s.
                    Ret (True, s)))))))"

definition lcd_menugetselid :: "ptr \<Rightarrow> 'hw lcdst \<Rightarrow> int res" where
  "lcd_menugetselid handle s =
     (if handle = NULL then Exit
      else res_bind (ld_h handle s) (\<lambda>h.
           if h_curl h = NULL then Ret (-1)
           else res_bind (ld_row (h_curl h) s) (\<lambda>r. Ret (row_idnumber r))))"

definition lcd_menugetsels :: "ptr \<Rightarrow> 'hw lcdst \<Rightarrow> byte list res" where
  "lcd_menugetsels handle s =
     (if handle = NULL then Exit
      else res_bind (ld_h handle s) (\<lambda>h.
           if h_curl h = NULL then Ret (zstr [])
           else res_bind (ld_row (h_curl h) s) (\<lambda>r.
                case row_str r of None \<Rightarrow> Exit | Some b \<Rightarrow> Ret b)))"

end
