(* ===== verification/Menu_Ring.thy ===== *)
theory Menu_Ring
  imports Lcd_Menu "HOL-Library.Multiset"
begin

text \<open>
  The circular doubly linked list of a menu as a list of addresses, and what the pointer
  operations of \<^verbatim>\<open>Lcd_Menu\<close> do to it.
\<close>

section \<open>Rings\<close>

definition nxt :: "(ptr \<Rightarrow> slcd_s_row option) \<Rightarrow> ptr \<Rightarrow> ptr" where
  "nxt R a = row_next (the (R a))"

definition prv :: "(ptr \<Rightarrow> slcd_s_row option) \<Rightarrow> ptr \<Rightarrow> ptr" where
  "prv R a = row_prev (the (R a))"

text \<open>Neighbours in the list, the last address being followed by the first.\<close>

definition links :: "'a list \<Rightarrow> ('a \<times> 'a) set" where
  "links as = set (zip as (rotate1 as))"

definition ring :: "(ptr \<Rightarrow> slcd_s_row option) \<Rightarrow> ptr list \<Rightarrow> bool" where
  "ring R as \<longleftrightarrow> distinct as \<and> NULL \<notin> set as \<and> (\<forall>a\<in>set as. R a \<noteq> None)
     \<and> (\<forall>(a, b)\<in>links as. nxt R a = b \<and> prv R b = a)"

lemma links_Nil [simp]: "links [] = {}"
  by (simp add: links_def)

lemma links_single [simp]: "links [a] = {(a, a)}"
  by (simp add: links_def)

lemma zip_rotate1: "length xs = length ys \<Longrightarrow> zip (rotate1 xs) (rotate1 ys) = rotate1 (zip xs ys)"
  by (cases xs; cases ys) auto

lemma links_rotate1 [simp]: "links (rotate1 as) = links as"
  by (simp add: links_def zip_rotate1)

lemma links_rotate [simp]: "links (rotate n as) = links as"
  by (induction n) simp_all

lemma ring_rotate [simp]: "ring R (rotate n as) = ring R as"
  by (simp add: ring_def)

lemma links_iff:
  "(a, b) \<in> links as \<longleftrightarrow> (\<exists>i<length as. a = as ! i \<and> b = as ! (Suc i mod length as))"
  by (auto simp: links_def set_zip nth_rotate1)

lemma links_snd: "(a, b) \<in> links as \<Longrightarrow> a \<in> set as \<and> b \<in> set as"
  unfolding links_def by (auto dest: set_zip_leftD set_zip_rightD)

lemma ringD:
  assumes "ring R as"
  shows "distinct as" "NULL \<notin> set as" "a \<in> set as \<Longrightarrow> \<exists>r. R a = Some r"
  using assms by (auto simp: ring_def)

lemma ring_links: "ring R as \<Longrightarrow> (a, b) \<in> links as \<Longrightarrow> nxt R a = b \<and> prv R b = a"
  by (auto simp: ring_def)

lemma ring_next:
  assumes "ring R as" "i < length as"
  shows "nxt R (as ! i) = as ! (Suc i mod length as)"
proof -
  have "(as ! i, as ! (Suc i mod length as)) \<in> links as"
    using assms(2) unfolding links_iff by blast
  then show ?thesis using ring_links [OF assms(1)] by blast
qed

lemma mod_pred: "i < n \<Longrightarrow> Suc ((i + n - Suc 0) mod n) mod n = (i :: nat)"
proof -
  assume "i < n"
  then have "Suc ((i + n - Suc 0) mod n) mod n = Suc (i + n - Suc 0) mod n"
    by (simp add: mod_Suc_eq)
  also have "\<dots> = i" using \<open>i < n\<close> by simp
  finally show ?thesis .
qed

lemma ring_prev:
  assumes "ring R as" "i < length as"
  shows "prv R (as ! i) = as ! ((i + length as - 1) mod length as)"
proof -
  let ?j = "(i + length as - Suc 0) mod length as"
  from assms(2) have "0 < length as" by linarith
  then have "?j < length as" by (rule mod_less_divisor)
  then have "(as ! ?j, as ! (Suc ?j mod length as)) \<in> links as"
    unfolding links_iff by blast
  then have "(as ! ?j, as ! i) \<in> links as"
    using mod_pred [OF assms(2)] by simp
  then show ?thesis using ring_links [OF assms(1)] by simp
qed

text \<open>A ring only depends on the pointers of its rows.\<close>

lemma ring_cong_imp:
  assumes "ring R as"
    and "\<And>a. a \<in> set as \<Longrightarrow> R' a \<noteq> None \<and> nxt R' a = nxt R a \<and> prv R' a = prv R a"
  shows "ring R' as"
proof -
  have "nxt R' a = b \<and> prv R' b = a" if "(a, b) \<in> links as" for a b
    using links_snd [OF that] assms(2) ring_links [OF assms(1) that] by metis
  then show ?thesis
    using ringD(1,2) [OF assms(1)] assms(2) unfolding ring_def by blast
qed

text \<open>Neighbours of a list given by its head and its last element.\<close>

lemma links_Cons:
  "links (x # xs) = set (zip (butlast (x # xs)) xs) \<union> {(last (x # xs), x)}"
proof (cases xs rule: rev_cases)
  case (snoc ys y)
  then show ?thesis
    using zip_append [of "x # ys" "ys @ [y]" "[y]" "[x]"] by (auto simp: links_def butlast_append)
qed simp

lemma links_append1:
  assumes "distinct (x # xs @ [r])"
  shows "links ((x # xs) @ [r])
         = (links (x # xs) - {(last (x # xs), x)}) \<union> {(last (x # xs), r), (r, x)}"
proof -
  have "zip (x # xs) (xs @ [r]) = zip (butlast (x # xs)) xs @ [(last (x # xs), r)]"
  proof (cases xs rule: rev_cases)
    case (snoc ys y)
    then show ?thesis
      using zip_append [of "x # ys" "ys @ [y]" "[y]" "[r]"] by (simp add: butlast_append)
  qed simp
  then have l': "links ((x # xs) @ [r])
      = set (zip (butlast (x # xs)) xs) \<union> {(last (x # xs), r), (r, x)}"
    using links_Cons [of x "xs @ [r]"] by (auto simp: butlast_append)
  have "(last (x # xs), x) \<notin> set (zip (butlast (x # xs)) xs)"
    using assms by (auto dest: set_zip_rightD)
  with l' show ?thesis by (auto simp: links_Cons)
qed

end
