(* ===== verification/Menu_Spec.thy ===== *)
theory Menu_Spec
  imports Menu_Ring
begin

text \<open>
  What a menu is to its callers, a list of entries with a selected one and a first visible one,
  and that the pointer operations of \<^verbatim>\<open>Lcd_Menu\<close> implement the operations on that list.
\<close>

section \<open>The abstract menu\<close>

record amenu =
  m_items :: "(int \<times> byte list) list"
  m_sel :: nat
  m_top :: nat

abbreviation m_size :: "amenu \<Rightarrow> nat" where
  "m_size m \<equiv> length (m_items m)"

definition m_add :: "int \<Rightarrow> byte list \<Rightarrow> bool \<Rightarrow> amenu \<Rightarrow> amenu" where
  "m_add i t selected m =
     m\<lparr>m_items := m_items m @ [(i, t)],
       m_sel := (if selected \<or> m_items m = [] then m_size m else m_sel m),
       m_top := (if selected \<or> m_items m = [] then m_size m else m_top m)\<rparr>"

definition m_up :: "nat \<Rightarrow> amenu \<Rightarrow> amenu" where
  "m_up height m =
     (let n = m_size m; pred = (\<lambda>i. (i + n - 1) mod n)
      in m\<lparr>m_sel := pred (m_sel m),
           m_top := (if n > height \<and> m_sel m = m_top m then pred (m_top m) else m_top m)\<rparr>)"

definition m_down :: "nat \<Rightarrow> amenu \<Rightarrow> amenu" where
  "m_down height m =
     (let n = m_size m; succ = (\<lambda>i. (i + 1) mod n)
      in m\<lparr>m_sel := succ (m_sel m),
           m_top := (if n > height \<and> m_sel m = (m_top m + (height - 1)) mod n
                     then succ (m_top m) else m_top m)\<rparr>)"

text \<open>The selected entry is on one of the \<open>height\<close> lines that start at the first visible one.\<close>

definition m_visible :: "nat \<Rightarrow> amenu \<Rightarrow> bool" where
  "m_visible height m \<longleftrightarrow>
     m_size m \<le> height \<or> (\<exists>k<height. m_sel m = (m_top m + k) mod m_size m)"

lemma mod_pred_add:
  assumes "0 < n" shows "((t + Suc j) mod n + n - Suc 0) mod n = (t + j) mod (n :: nat)"
proof -
  have "((t + Suc j) mod n + n - Suc 0) mod n = ((t + Suc j) mod n + (n - 1)) mod n"
    using assms by simp
  also have "\<dots> = (t + Suc j + (n - 1)) mod n" by (simp add: mod_add_left_eq)
  also have "t + Suc j + (n - 1) = t + j + n" using assms by simp
  finally show ?thesis by simp
qed

lemma m_up_visible:
  assumes "m_visible H m" "0 < H" "m_sel m < m_size m" "m_top m < m_size m"
  shows "m_visible H (m_up H m)"
proof (cases "m_size m \<le> H")
  case False
  let ?n = "m_size m"
  from False assms(1) obtain k where k: "k < H" "m_sel m = (m_top m + k) mod ?n"
    by (auto simp: m_visible_def)
  show ?thesis
  proof (cases "m_sel m = m_top m")
    case True
    then show ?thesis
      using False assms(2-) by (auto simp: m_visible_def m_up_def Let_def intro!: exI [of _ 0])
  next
    case neq: False
    have pos: "0 < ?n" using assms(3) by linarith
    from neq k assms(4) obtain j where j: "k = Suc j" by (cases k) auto
    then have "(m_sel m + ?n - 1) mod ?n = (m_top m + j) mod ?n"
      using k(2) mod_pred_add [OF pos, of "m_top m" j] by simp
    then show ?thesis
      using k(1) j neq False by (auto simp: m_visible_def m_up_def Let_def intro!: exI [of _ j])
  qed
qed (simp add: m_visible_def m_up_def Let_def)

lemma m_down_visible:
  assumes "m_visible H m" "0 < H" "m_sel m < m_size m" "m_top m < m_size m"
  shows "m_visible H (m_down H m)"
proof (cases "m_size m \<le> H")
  case False
  let ?n = "m_size m"
  from False assms(1) obtain k where k: "k < H" "m_sel m = (m_top m + k) mod ?n"
    by (auto simp: m_visible_def)
  show ?thesis
  proof (cases "m_sel m = (m_top m + (H - 1)) mod ?n")
    case True
    then have "(m_sel m + 1) mod ?n = ((m_top m + 1) mod ?n + (H - 1)) mod ?n"
      by (simp add: mod_simps add_ac)
    then show ?thesis
      using False True assms(2) by (auto simp: m_visible_def m_down_def Let_def intro!: exI [of _ "H - 1"])
  next
    case neq: False
    with k have "k \<noteq> H - 1" by auto
    then have "k + 1 < H" using k(1) by linarith
    moreover have "(m_sel m + 1) mod ?n = (m_top m + (k + 1)) mod ?n"
      using k(2) by (simp add: mod_simps)
    ultimately show ?thesis
      using neq False by (auto simp: m_visible_def m_down_def Let_def intro!: exI [of _ "k + 1"])
  qed
qed (simp add: m_visible_def m_down_def Let_def)


section \<open>Representation\<close>

definition row_item :: "slcd_s_row \<Rightarrow> int \<times> byte list" where
  "row_item r = (row_idnumber r, cstr (the (row_str r)))"

definition row_ok :: "slcd_s_row \<Rightarrow> bool" where
  "row_ok r \<longleftrightarrow> (\<exists>b. row_str r = Some b \<and> 0 \<in> set b)"

definition h_points :: "lcd_handle \<Rightarrow> ptr list \<Rightarrow> nat \<Rightarrow> nat \<Rightarrow> bool" where
  "h_points h as sel tp \<longleftrightarrow>
     h_numrows h = int (length as) \<and>
     (if as = [] then h_top h = NULL \<and> h_end h = NULL \<and> h_tsc h = NULL \<and> h_curl h = NULL
      else h_top h = hd as \<and> h_end h = last as \<and> sel < length as \<and> tp < length as
           \<and> h_curl h = as ! sel \<and> h_tsc h = as ! tp)"

text \<open>
  The screen at \<open>hp\<close> holds the menu \<open>m\<close> in the rows at the addresses \<open>as\<close>: they form a ring,
  each owns a string, and the handle's four pointers are where \<open>m\<close> says.
\<close>

definition menu_rep :: "'hw lcdst \<Rightarrow> ptr \<Rightarrow> ptr list \<Rightarrow> amenu \<Rightarrow> bool" where
  "menu_rep s hp as m \<longleftrightarrow>
     hp \<noteq> NULL \<and> ring (rows s) as \<and> (\<forall>a\<in>set as. a \<le> nalloc s \<and> row_ok (the (rows s a))) \<and>
     m_items m = map (\<lambda>a. row_item (the (rows s a))) as \<and>
     (\<exists>h. handles s hp = Some h \<and> h_points h as (m_sel m) (m_top m))"

lemma menu_repE:
  assumes "menu_rep s hp as m"
  obtains h where "hp \<noteq> NULL" "handles s hp = Some h" "ring (rows s) as"
    "h_points h as (m_sel m) (m_top m)" "m_size m = length as"
  using assms by (auto simp: menu_rep_def)

lemma menu_rep_row:
  assumes "menu_rep s hp as m" "i < length as"
  obtains r b where "rows s (as ! i) = Some r" "row_str r = Some b" "0 \<in> set b"
    "as ! i \<noteq> NULL" "row_next r = as ! (Suc i mod length as)"
    "row_prev r = as ! ((i + length as - 1) mod length as)" "m_items m ! i = row_item r"
proof -
  have R: "ring (rows s) as" using assms by (simp add: menu_rep_def)
  have mem: "as ! i \<in> set as" using assms(2) by simp
  obtain r where r: "rows s (as ! i) = Some r" using ringD(3) [OF R mem] by blast
  obtain b where "row_str r = Some b" "0 \<in> set b"
    using assms(1) mem r by (auto simp: menu_rep_def row_ok_def)
  moreover have "as ! i \<noteq> NULL" using ringD(2) [OF R] mem by metis
  moreover have "m_items m ! i = row_item r" using assms r by (simp add: menu_rep_def)
  ultimately show ?thesis
    using that r ring_next [OF R assms(2)] ring_prev [OF R assms(2)] by (simp add: nxt_def prv_def)
qed

text \<open>Rewriting a row without touching its pointers, its string or its number.\<close>

lemma menu_rep_row_update:
  assumes "menu_rep s hp as m" "rows s p = Some r"
    "row_next (f r) = row_next r" "row_prev (f r) = row_prev r"
    "row_str (f r) = row_str r" "row_idnumber (f r) = row_idnumber r"
  shows "menu_rep (s\<lparr>rows := (rows s)(p \<mapsto> f r)\<rparr>) hp as m"
proof -
  have "ring ((rows s)(p \<mapsto> f r)) as"
    by (rule ring_cong_imp [of "rows s"])
       (use assms ringD(3) in \<open>auto simp: menu_rep_def nxt_def prv_def\<close>)
  then show ?thesis
    using assms by (auto simp: menu_rep_def row_ok_def row_item_def)
qed

lemma menu_rep_scrollpos:
  assumes "menu_rep s hp as m" "i < length as"
  obtains s1 where "st_row (as ! i) (\<lambda>r. r\<lparr>row_scrollpos := c\<rparr>) s = Ret s1" "menu_rep s1 hp as m"
    "handles s1 = handles s" "hwst s1 = hwst s"
proof -
  obtain r where r: "rows s (as ! i) = Some r" using menu_rep_row [OF assms] by metis
  show ?thesis
    by (rule that [OF st_row_Some [OF r]])
       (use menu_rep_row_update [OF assms(1) r, of "\<lambda>r. r\<lparr>row_scrollpos := c\<rparr>"] in simp_all)
qed

lemma menu_rep_handle:
  assumes "menu_rep s hp as m" "handles s' hp = Some h'" "h_points h' as (m_sel m') (m_top m')"
    "m_items m' = m_items m" "rows s' = rows s" "nalloc s' = nalloc s"
  shows "menu_rep s' hp as m'"
  using assms by (auto simp: menu_rep_def)

section \<open>Moving the selection\<close>

lemma nth_next_ring:
  assumes "ring (rows s) as" "i < length as"
  shows "nth_next n (as ! i) s = Ret (as ! ((i + n) mod length as))"
  using assms(2)
proof (induction n arbitrary: i)
  case (Suc n)
  have len: "0 < length as" using Suc.prems by linarith
  obtain r where r: "rows s (as ! i) = Some r"
    using ringD(3) [OF assms(1)] Suc.prems nth_mem by blast
  have "row_next r = as ! (Suc i mod length as)"
    using ring_next [OF assms(1) Suc.prems] r by (simp add: nxt_def)
  then show ?case
    using Suc.IH [of "Suc i mod length as"] len r
    by (simp add: heap_simps mod_simps)
qed simp

lemma ring_nth_eq_iff:
  "ring R as \<Longrightarrow> i < length as \<Longrightarrow> j < length as \<Longrightarrow> as ! i = as ! j \<longleftrightarrow> i = j"
  using nth_eq_iff_index_eq ringD(1) by blast


text \<open>One key press moves the selection round the list and scrolls the window when it must.\<close>

lemma menucontrol_up:
  assumes "menu_rep s hp as m" "as \<noteq> []" "op_height I (hwst s) = int H"
  shows "\<exists>s'. lcd_menucontrol I hp SLCD_UP s = Ret (True, s') \<and> menu_rep s' hp as (m_up H m)"
proof -
  obtain h where h: "hp \<noteq> NULL" "handles s hp = Some h" "ring (rows s) as"
      "h_points h as (m_sel m) (m_top m)" and n: "m_size m = length as"
    using menu_repE [OF assms(1)] by metis
  let ?n = "length as" and ?sel = "m_sel m" and ?top = "m_top m"
  have p: "h_curl h = as ! ?sel" "h_tsc h = as ! ?top" "?sel < ?n" "?top < ?n" "h_numrows h = int ?n"
      "h_top h = hd as" "h_end h = last as"
    using h(4) assms(2) by (auto simp: h_points_def)
  have eq: "as ! ?sel = as ! ?top \<longleftrightarrow> ?sel = ?top" by (rule ring_nth_eq_iff [OF h(3) p(3,4)])
  obtain s1 where s1: "st_row (as ! ?sel) (\<lambda>r. r\<lparr>row_scrollpos := 0\<rparr>) s = Ret s1"
      "menu_rep s1 hp as m" "handles s1 = handles s" "hwst s1 = hwst s"
    using menu_rep_scrollpos [OF assms(1) p(3)] by metis
  obtain r where r: "rows s1 (as ! ?sel) = Some r" "as ! ?sel \<noteq> NULL"
      "row_prev r = as ! ((?sel + ?n - 1) mod ?n)"
    using menu_rep_row [OF s1(2) p(3)] by metis
  have lt: "(i + ?n - Suc 0) mod ?n < ?n" for i using p(3) by (intro mod_less_divisor) linarith
  show ?thesis
  proof (cases "?n > H \<and> ?sel = ?top")
    case True
    then show ?thesis
      using h p r s1 assms(2,3) n lt
      by (auto simp: lcd_menucontrol_def heap_simps m_up_def Let_def h_points_def
               intro!: menu_rep_handle [OF s1(2)])
  next
    case False
    then show ?thesis
      using h p r s1 assms(2,3) n lt eq
      by (auto simp: lcd_menucontrol_def heap_simps m_up_def Let_def h_points_def
               intro!: menu_rep_handle [OF s1(2)])
  qed
qed

lemma menucontrol_down:
  assumes "menu_rep s hp as m" "as \<noteq> []" "op_height I (hwst s) = int H" "0 < H"
  shows "\<exists>s'. lcd_menucontrol I hp SLCD_DOWN s = Ret (True, s') \<and> menu_rep s' hp as (m_down H m)"
proof -
  obtain h where h: "hp \<noteq> NULL" "handles s hp = Some h" "ring (rows s) as"
      "h_points h as (m_sel m) (m_top m)" and n: "m_size m = length as"
    using menu_repE [OF assms(1)] by metis
  let ?n = "length as" and ?sel = "m_sel m" and ?top = "m_top m"
  let ?bot = "(m_top m + (H - 1)) mod length as"
  have p: "h_curl h = as ! ?sel" "h_tsc h = as ! ?top" "?sel < ?n" "?top < ?n" "h_numrows h = int ?n"
      "h_top h = hd as" "h_end h = last as"
    using h(4) assms(2) by (auto simp: h_points_def)
  have lt: "i mod ?n < ?n" for i using p(3) by (intro mod_less_divisor) linarith
  have eq: "as ! ?sel = as ! ?bot \<longleftrightarrow> ?sel = ?bot"
    by (rule ring_nth_eq_iff [OF h(3) p(3) lt])
  obtain s1 where s1: "st_row (as ! ?sel) (\<lambda>r. r\<lparr>row_scrollpos := 0\<rparr>) s = Ret s1"
      "menu_rep s1 hp as m" "handles s1 = handles s" "hwst s1 = hwst s"
    using menu_rep_scrollpos [OF assms(1) p(3)] by metis
  obtain r where r: "rows s1 (as ! ?sel) = Some r" "as ! ?sel \<noteq> NULL"
      "row_next r = as ! (Suc ?sel mod ?n)"
    using menu_rep_row [OF s1(2) p(3)] by metis
  obtain rt where rt: "rows s1 (as ! ?top) = Some rt" "row_next rt = as ! (Suc ?top mod ?n)"
    using menu_rep_row [OF s1(2) p(4)] by metis
  have nn: "nth_next (nat (int H - 1)) (as ! ?top) s1 = Ret (as ! ?bot)"
    using nth_next_ring [of s1 as ?top "H - 1"] s1(2) p(4) assms(4)
    by (simp add: menu_rep_def nat_diff_distrib)
  have ctl: "lcd_menucontrol I hp SLCD_DOWN s =
      Ret (True, s1\<lparr>handles := (handles s1)(hp \<mapsto>
        (if ?n > H \<and> ?sel = ?bot then h\<lparr>h_tsc := as ! (Suc ?top mod ?n)\<rparr> else h)
          \<lparr>h_curl := as ! (Suc ?sel mod ?n)\<rparr>)\<rparr>)"
    using h p r rt s1 assms(3) eq nn
    by (auto simp: lcd_menucontrol_def heap_simps simp del: nth_next.simps)
  show ?thesis
    unfolding ctl using p n lt assms(2) h(4)
    by (auto simp: m_down_def Let_def h_points_def intro!: menu_rep_handle [OF s1(2)])
qed

end
