(* ===== verification/Menu_Refine.thy ===== *)
theory Menu_Refine
  imports Menu_Spec
begin

text \<open>
  Adding entries to a menu and clearing it: \<^verbatim>\<open>lcd_menuaddentry\<close> appends to the abstract list and
  \<^verbatim>\<open>lcd_menuclear\<close> frees exactly the menu's rows.
\<close>

section \<open>Clearing\<close>

fun chain :: "(ptr \<Rightarrow> slcd_s_row option) \<Rightarrow> ptr list \<Rightarrow> ptr \<Rightarrow> bool" where
  "chain R [] p = (p = NULL)"
| "chain R (a # as) p = (p = a \<and> a \<noteq> NULL \<and> (\<exists>r. R a = Some r \<and> chain R as (row_next r)))"

lemma chain_cong: "(\<And>a. a \<in> set as \<Longrightarrow> R a = R' a) \<Longrightarrow> chain R as p = chain R' as p"
  by (induction as arbitrary: p) auto

lemma chain_nth:
  "(\<And>i. i < length as \<Longrightarrow> as ! i \<noteq> NULL \<and> (\<exists>r. R (as ! i) = Some r \<and>
      row_next r = (if Suc i < length as then as ! Suc i else NULL))) \<Longrightarrow>
   chain R as (if as = [] then NULL else hd as)"
proof (induction as)
  case (Cons a as)
  obtain r where "a \<noteq> NULL" "R a = Some r" "row_next r = (if as = [] then NULL else hd as)"
    using Cons.prems [of 0] by (auto simp: hd_conv_nth)
  moreover have "chain R as (if as = [] then NULL else hd as)"
  proof (rule Cons.IH)
    fix i assume "i < length as"
    then show "as ! i \<noteq> NULL \<and> (\<exists>r. R (as ! i) = Some r \<and>
      row_next r = (if Suc i < length as then as ! Suc i else NULL))"
      using Cons.prems [of "Suc i"] by (auto split: if_splits)
  qed
  ultimately show ?case by simp
qed simp

text \<open>The loop frees every row of the chain, and as many rounds as there are rows are enough.\<close>

lemma free_rows_not_Diverge:
  "chain (rows s) as p \<Longrightarrow> distinct as \<Longrightarrow> length as \<le> n \<Longrightarrow>
   free_rows n p s = Ret (s\<lparr>rows := (\<lambda>a. if a \<in> set as then None else rows s a)\<rparr>)"
proof (induction as arbitrary: n p s)
  case Nil
  then show ?case by (cases n) auto
next
  case (Cons a as)
  obtain k where n: "n = Suc k" "length as \<le> k" using Cons.prems(3) by (cases n) auto
  obtain r where r: "rows s a = Some r" "chain (rows s) as (row_next r)" "p = a" "a \<noteq> NULL"
    using Cons.prems(1) by auto
  have "chain ((rows s)(a := None)) as (row_next r)"
    using r(2) Cons.prems(2) by (subst chain_cong [of as _ "rows s"]) auto
  then have "free_rows k (row_next r) (s\<lparr>rows := (rows s)(a := None)\<rparr>)
      = Ret (s\<lparr>rows := (\<lambda>x. if x \<in> set as then None else ((rows s)(a := None)) x)\<rparr>)"
    using Cons.IH [OF _ _ n(2), of "s\<lparr>rows := (rows s)(a := None)\<rparr>" "row_next r"] Cons.prems(2)
    by (simp del: fun_upd_apply cong: if_cong)
  moreover have "(\<lambda>x. if x \<in> set as then None else ((rows s)(a := None)) x)
      = (\<lambda>x. if x \<in> set (a # as) then None else rows s x)" by auto
  ultimately show ?case using r n(1) by (simp only: free_rows.simps) (simp add: heap_simps)
qed

lemma bounded_length:
  assumes "distinct as" "\<forall>a\<in>set as. a \<noteq> 0 \<and> a \<le> (n :: nat)" shows "length as \<le> n"
proof -
  have "set as \<subseteq> {1..n}" using assms(2) by (auto simp: Suc_le_eq)
  then have "card (set as) \<le> card {1..n}" by (intro card_mono) auto
  then show ?thesis using assms(1) by (simp add: distinct_card)
qed

lemma menu_rep_bounded: "menu_rep s hp as m \<Longrightarrow> length as \<le> nalloc s"
  by (rule bounded_length) (auto simp: menu_rep_def ring_def intro: gr0I)

text \<open>C20.
  Clearing a menu returns, frees exactly the menu's rows and leaves an empty menu.
\<close>

lemma menuclear_frees:
  assumes "menu_rep s hp as m"
  shows "\<exists>s'. lcd_menuclear hp s = Ret (True, s') \<and>
           rows s' = (\<lambda>a. if a \<in> set as then None else rows s a) \<and>
           menu_rep s' hp [] (m\<lparr>m_items := []\<rparr>)"
proof -
  obtain h where h: "hp \<noteq> NULL" "handles s hp = Some h" "ring (rows s) as"
      "h_points h as (m_sel m) (m_top m)" and n: "m_size m = length as"
    using menu_repE [OF assms] by metis
  have dist: "distinct as" using ringD(1) [OF h(3)] .
  show ?thesis
  proof (cases "as = []")
    case True
    then show ?thesis
      using h by (auto simp: lcd_menuclear_def heap_simps h_points_def menu_rep_def ring_def
          free_rows_not_Diverge [where as = "[]"] split: nat.splits)
  next
    case False
    let ?l = "as ! (length as - 1)"
    have len: "length as - 1 < length as" using False by simp
    have e: "h_end h = ?l" "h_top h = hd as" "?l \<noteq> NULL"
      using h(4) False menu_rep_row [OF assms len] by (auto simp: h_points_def last_conv_nth)
    obtain r where r: "rows s ?l = Some r" using menu_rep_row [OF assms len] by metis
    let ?R = "(rows s)(?l \<mapsto> r\<lparr>row_next := NULL\<rparr>)"
    have "chain ?R as (if as = [] then NULL else hd as)"
    proof (rule chain_nth)
      fix i assume i: "i < length as"
      obtain ri where ri: "rows s (as ! i) = Some ri" "as ! i \<noteq> NULL"
          "row_next ri = as ! (Suc i mod length as)" using menu_rep_row [OF assms i] by metis
      have "as ! i = ?l \<longleftrightarrow> i = length as - 1" by (rule ring_nth_eq_iff [OF h(3) i len])
      then show "as ! i \<noteq> NULL \<and> (\<exists>r. ?R (as ! i) = Some r \<and>
          row_next r = (if Suc i < length as then as ! Suc i else NULL))"
        using ri i r by auto
    qed
    then have ch: "chain ?R as (hd as)" using False by simp
    have l: "?l \<in> set as" using len by simp
    let ?s2 = "s\<lparr>rows := ?R, handles := (handles s)(hp \<mapsto> h\<lparr>h_tsc := NULL, h_curl := NULL,
                 h_top := NULL, h_numrows := 0, h_end := NULL\<rparr>)\<rparr>"
    have "free_rows (nalloc s) (hd as) ?s2
        = Ret (?s2\<lparr>rows := (\<lambda>a. if a \<in> set as then None else rows s a)\<rparr>)"
      using free_rows_not_Diverge [of ?s2 as "hd as" "nalloc s"] ch dist menu_rep_bounded [OF assms] l
      by (simp add: fun_eq_iff cong: if_cong)
    then show ?thesis
      using h r e False by (simp add: lcd_menuclear_def heap_simps menu_rep_def ring_def h_points_def)
  qed
qed

section \<open>Adding an entry\<close>

lemma ring_single: "a \<noteq> NULL \<Longrightarrow> R a \<noteq> None \<Longrightarrow> nxt R a = a \<Longrightarrow> prv R a = a \<Longrightarrow> ring R [a]"
  by (simp add: ring_def)

text \<open>Linking a fresh row behind the last one extends the ring.\<close>

lemma ring_append:
  assumes R: "ring R as" "as \<noteq> []" and row: "row \<notin> set as" "row \<noteq> NULL"
    and alloc: "\<And>a. a \<in> set as \<union> {row} \<Longrightarrow> R' a \<noteq> None"
    and n: "\<And>a. a \<in> set as \<union> {row} \<Longrightarrow>
        nxt R' a = (if a = row then hd as else if a = last as then row else nxt R a)"
    and p: "\<And>a. a \<in> set as \<union> {row} \<Longrightarrow>
        prv R' a = (if a = row then last as else if a = hd as then row else prv R a)"
  shows "ring R' (as @ [row])"
proof -
  obtain x xs where as: "as = x # xs" using R(2) by (cases as) auto
  have dist: "distinct (x # xs @ [row])" using ringD(1) [OF R(1)] row as by simp
  have lx: "nxt R (last as) = x \<and> prv R x = last as"
    by (rule ring_links [OF R(1)]) (simp add: as links_Cons)
  have "nxt R' a = b \<and> prv R' b = a" if "(a, b) \<in> links (as @ [row])" for a b
  proof -
    from that consider "(a, b) \<in> links as" "(a, b) \<noteq> (last as, x)" | "a = last as" "b = row"
      | "a = row" "b = x"
      using links_append1 [OF dist] as by auto
    then show ?thesis
    proof cases
      case 1
      then have ab: "a \<in> set as" "b \<in> set as" using links_snd [OF 1(1)] by simp_all
      have nb: "nxt R a = b \<and> prv R b = a" by (rule ring_links [OF R(1) 1(1)])
      then have "a \<noteq> last as" "b \<noteq> x" using 1(2) lx by auto
      then show ?thesis using n [of a] p [of b] ab nb row as by auto
    next
      case 2
      then show ?thesis using n [of "last as"] p [of row] row R(2) by (auto simp: last_in_set)
    next
      case 3
      then show ?thesis using n [of row] p [of x] row as by auto
    qed
  qed
  then show ?thesis using ringD(1,2) [OF R(1)] row alloc by (auto simp: ring_def)
qed

definition row_data :: "slcd_s_row \<Rightarrow> byte list option \<times> int" where
  "row_data r = (row_str r, row_idnumber r)"

lemma link_row_appends:
  assumes R: "ring (rows s) as" "as \<noteq> []" and h: "handles s hp = Some h" "h_top h = hd as"
      "h_end h = last as" and row: "row \<notin> set as" "row \<noteq> NULL" "rows s row = Some r"
  shows "\<exists>R'. link_row hp row s =
            Ret (s\<lparr>rows := R', handles := (handles s)(hp \<mapsto> h\<lparr>h_end := row\<rparr>)\<rparr>)
          \<and> ring R' (as @ [row])
          \<and> (\<forall>a. map_option row_data (R' a) = map_option row_data (rows s a))"
proof -
  have mem: "hd as \<in> set as" "last as \<in> set as" using R(2) by auto
  obtain rh where rh: "rows s (hd as) = Some rh" using ringD(3) [OF R(1) mem(1)] by blast
  obtain rl where rl: "rows s (last as) = Some rl" using ringD(3) [OF R(1) mem(2)] by blast
  have ne: "row \<noteq> hd as" "row \<noteq> last as" "h_top h \<noteq> NULL"
    using row mem h ringD(2) [OF R(1)] by metis+
  show ?thesis
  proof (cases "hd as = last as")
    case True
    let ?R = "(rows s)(row \<mapsto> r\<lparr>row_prev := last as, row_next := hd as\<rparr>,
                last as \<mapsto> rl\<lparr>row_next := row, row_prev := row\<rparr>)"
    have "link_row hp row s =
        Ret (s\<lparr>rows := ?R, handles := (handles s)(hp \<mapsto> h\<lparr>h_end := row\<rparr>)\<rparr>)"
      using ne h rl row(3) True by (simp add: link_row_def heap_simps fun_upd_twist)
    moreover have "ring ?R (as @ [row])"
      by (rule ring_append [OF R row(1,2)])
         (use ringD(3) [OF R(1)] rl rh ne mem True in \<open>auto simp: nxt_def prv_def\<close>)
    ultimately show ?thesis using row(3) rl by (intro exI [of _ ?R]) (auto simp: row_data_def)
  next
    case False
    let ?R = "(rows s)(row \<mapsto> r\<lparr>row_prev := last as, row_next := hd as\<rparr>,
                last as \<mapsto> rl\<lparr>row_next := row\<rparr>, hd as \<mapsto> rh\<lparr>row_prev := row\<rparr>)"
    have "link_row hp row s =
        Ret (s\<lparr>rows := ?R, handles := (handles s)(hp \<mapsto> h\<lparr>h_end := row\<rparr>)\<rparr>)"
      using ne h rl rh row(3) False by (simp add: link_row_def heap_simps fun_upd_twist)
    moreover have "ring ?R (as @ [row])"
      by (rule ring_append [OF R row(1,2)])
         (use ringD(3) [OF R(1)] rl rh ne mem False in \<open>auto simp: nxt_def prv_def\<close>)
    ultimately show ?thesis using row(3) rl rh by (intro exI [of _ ?R]) (auto simp: row_data_def)
  qed
qed

lemma row_data_item: "row_data r = row_data r' \<Longrightarrow> row_item r = row_item r' \<and> row_ok r = row_ok r'"
  by (auto simp: row_data_def row_item_def row_ok_def)

lemma row_data_map:
  assumes "\<forall>a. map_option row_data (R' a) = map_option row_data (R a)" "R a \<noteq> None"
  shows "row_item (the (R' a)) = row_item (the (R a)) \<and> row_ok (the (R' a)) = row_ok (the (R a))"
proof -
  obtain r where r: "R a = Some r" using assms(2) by blast
  then obtain r' where r': "R' a = Some r'" "row_data r' = row_data r"
    using assms(1) [rule_format, of a] by auto
  show ?thesis using row_data_item [OF r'(2)] r r'(1) by simp
qed

text \<open>The new row is in the heap, not yet linked: linking it gives the extended menu.\<close>

lemma link_row_menu:
  assumes rep: "menu_rep s hp as m" and row: "row \<notin> set as" "row \<noteq> NULL"
      "rows s row = Some r" "row_ok r" "row \<le> nalloc s"
  shows "\<exists>s'. link_row hp row s = Ret s' \<and> ring (rows s') (as @ [row])
           \<and> (\<forall>a\<in>set (as @ [row]). a \<le> nalloc s' \<and> row_ok (the (rows s' a)))
           \<and> map (\<lambda>a. row_item (the (rows s' a))) (as @ [row]) = m_items m @ [row_item r]
           \<and> nalloc s' = nalloc s
           \<and> (\<exists>h'. handles s' hp = Some h' \<and> h_numrows h' = int (length as)
                \<and> h_top h' = hd (as @ [row]) \<and> h_end h' = row
                \<and> (if as = [] then h_curl h' = row \<and> h_tsc h' = row
                   else h_curl h' = as ! m_sel m \<and> h_tsc h' = as ! m_top m))"
proof -
  obtain h where h: "hp \<noteq> NULL" "handles s hp = Some h" "ring (rows s) as"
      "h_points h as (m_sel m) (m_top m)" and n: "m_size m = length as"
    using menu_repE [OF rep] by metis
  show ?thesis
  proof (cases "as = []")
    case True
    then show ?thesis
      using h row rep
      by (auto simp: link_row_def heap_simps h_points_def menu_rep_def row_ok_def row_item_def
               nxt_def prv_def intro!: ring_single)
  next
    case False
    have hh: "h_top h = hd as" "h_end h = last as" "h_curl h = as ! m_sel m" "h_tsc h = as ! m_top m"
        "h_numrows h = int (length as)"
      using h(4) False by (auto simp: h_points_def)
    obtain R' where R': "link_row hp row s =
            Ret (s\<lparr>rows := R', handles := (handles s)(hp \<mapsto> h\<lparr>h_end := row\<rparr>)\<rparr>)"
        "ring R' (as @ [row])" "\<forall>a. map_option row_data (R' a) = map_option row_data (rows s a)"
      using link_row_appends [OF h(3) False h(2) hh(1,2) row(1,2,3)] by metis
    have d: "row_item (the (R' a)) = row_item (the (rows s a)) \<and>
             row_ok (the (R' a)) = row_ok (the (rows s a))" if "a \<in> set as \<union> {row}" for a
      by (rule row_data_map [OF R'(3)]) (use that ringD(3) [OF h(3)] row(3) in auto)
    have "map (\<lambda>a. row_item (the (R' a))) as = m_items m"
      using rep d by (simp add: menu_rep_def)
    moreover have "\<forall>a\<in>set (as @ [row]). a \<le> nalloc s \<and> row_ok (the (R' a))"
      using rep row d by (auto simp: menu_rep_def)
    ultimately show ?thesis
      using R'(1,2) h(2) hh d [of row] row(3) False by auto
  qed
qed

lemma menuaddentry_rep:
  assumes rep: "menu_rep s hp as m" and b: "0 \<in> set b"
    and mem: "\<not> oom s (nalloc s)" "\<not> oom s (Suc (nalloc s))"
  shows "\<exists>s'. lcd_menuaddentry hp i (Some b) sel s = Ret (True, s')
           \<and> menu_rep s' hp (as @ [Suc (nalloc s)]) (m_add i (cstr b) (sel = SLCD_SELECTED) m)"
proof -
  let ?row = "Suc (nalloc s)"
  obtain len where len: "lcd_strlen (Some b) = Ret len" using lcd_strlen_terminates [OF b] by blast
  let ?r = "\<lparr>row_next = NULL, row_prev = NULL, row_str = Some (zstr (cstr b)),
            row_idnumber = i, row_scrollpos = 0, row_len = len\<rparr>"
  let ?s = "s\<lparr>nalloc := Suc (Suc (nalloc s)), rows := (rows s)(?row \<mapsto> ?r)\<rparr>"
  have new: "?row \<notin> set as" using rep by (auto simp: menu_rep_def)
  have hp: "hp \<noteq> NULL" using rep by (simp add: menu_rep_def)
  have "ring ((rows s)(?row \<mapsto> ?r)) as"
    by (rule ring_cong_imp [of "rows s"])
       (use rep new ringD(3) in \<open>auto simp: menu_rep_def nxt_def prv_def\<close>)
  then have rep': "menu_rep ?s hp as m"
    using rep new by (auto simp: menu_rep_def)
  have row: "?row \<notin> set as" "?row \<noteq> NULL" "rows ?s ?row = Some ?r" "row_ok ?r" "?row \<le> nalloc ?s"
    using new by (simp_all add: row_ok_def)
  obtain s' h' where s': "link_row hp ?row ?s = Ret s'" "ring (rows s') (as @ [?row])"
      "\<forall>a\<in>set (as @ [?row]). a \<le> nalloc s' \<and> row_ok (the (rows s' a))"
      "map (\<lambda>a. row_item (the (rows s' a))) (as @ [?row]) = m_items m @ [row_item ?r]"
      "nalloc s' = nalloc ?s" "handles s' hp = Some h'" "h_numrows h' = int (length as)"
      "h_top h' = hd (as @ [?row])" "h_end h' = ?row"
      "if as = [] then h_curl h' = ?row \<and> h_tsc h' = ?row
       else h_curl h' = as ! m_sel m \<and> h_tsc h' = as ! m_top m"
    using link_row_menu [OF rep' row] by metis
  let ?h = "(if sel = SLCD_SELECTED then h'\<lparr>h_curl := ?row, h_tsc := ?row\<rparr> else h')
              \<lparr>h_numrows := int (length as) + 1\<rparr>"
  have run: "lcd_menuaddentry hp i (Some b) sel s =
      Ret (True, s'\<lparr>handles := (handles s')(hp \<mapsto> ?h)\<rparr>)"
    using s'(1,6,7) hp b len mem
    by (auto simp: lcd_menuaddentry_def lcd_malloc_def heap_simps strlen_def Let_def)
  have nil: "m_items m = [] \<longleftrightarrow> as = []" "m_size m = length as"
    using rep by (auto simp: menu_rep_def)
  have bounds: "as \<noteq> [] \<Longrightarrow> m_sel m < length as \<and> m_top m < length as"
    using rep by (auto simp: menu_rep_def h_points_def)
  have pts: "h_points ?h (as @ [?row]) (m_sel (m_add i (cstr b) (sel = SLCD_SELECTED) m))
               (m_top (m_add i (cstr b) (sel = SLCD_SELECTED) m))"
    using s'(7-) nil bounds by (auto simp: h_points_def m_add_def nth_append)
  have items: "m_items (m_add i (cstr b) (sel = SLCD_SELECTED) m) = m_items m @ [row_item ?r]"
    by (simp add: m_add_def row_item_def)
  show ?thesis
    unfolding run using s'(2-5) hp pts items
    by (intro exI [of _ "s'\<lparr>handles := (handles s')(hp \<mapsto> ?h)\<rparr>"])
       (simp add: menu_rep_def del: map_append set_append)
qed

text \<open>Without memory the program ends; an entry without a string is refused.\<close>

lemma menuaddentry_no_memory:
  assumes "hp \<noteq> NULL" "0 \<in> set b" "oom s (nalloc s) \<or> oom s (Suc (nalloc s))"
  shows "lcd_menuaddentry hp i (Some b) sel s = Exit"
  using assms by (auto simp: lcd_menuaddentry_def lcd_malloc_def heap_simps strlen_def Let_def)

end
