(* ===== verification/Menu_Sort.thy ===== *)
theory Menu_Sort
  imports Menu_Refine
begin

text \<open>
  \<^verbatim>\<open>lcd_menusort\<close>: the list its pointer operations produce (\<open>menu_order\<close>), that the ring and the
  entries survive it, and what that order is and is not.
\<close>

section \<open>The passes of the sort on a list\<close>

text \<open>
  One inner loop of \<^verbatim>\<open>lcd_menusort\<close> goes through the positions from \<open>k\<close> on.  At each it
  compares the entry before the position with the entry at it, cyclically, and if they are out
  of order exchanges the entry at the position with the next one.
\<close>

definition swap_at :: "nat \<Rightarrow> 'a list \<Rightarrow> 'a list" where
  "swap_at k xs = xs[k := xs ! Suc k, Suc k := xs ! k]"

definition out_of_order :: "('a \<Rightarrow> byte list) \<Rightarrow> nat \<Rightarrow> 'a list \<Rightarrow> bool" where
  "out_of_order key k xs \<longleftrightarrow>
     bytes_cmp (key (xs ! ((k + length xs - 1) mod length xs))) (key (xs ! k)) > 0"

fun sort_pass :: "('a \<Rightarrow> byte list) \<Rightarrow> nat \<Rightarrow> nat \<Rightarrow> 'a list \<Rightarrow> 'a list" where
  "sort_pass key 0 k xs = xs"
| "sort_pass key (Suc n) k xs =
     sort_pass key n (Suc k) (if out_of_order key k xs then swap_at k xs else xs)"

definition menu_order :: "('a \<Rightarrow> byte list) \<Rightarrow> 'a list \<Rightarrow> 'a list" where
  "menu_order key xs =
     foldl (\<lambda>xs i. sort_pass key (length xs - 1 - i) 0 xs) xs [0..<length xs - 1]"

lemma length_swap_at [simp]: "length (swap_at k xs) = length xs"
  by (simp add: swap_at_def)

lemma mset_swap_at: "Suc k < length xs \<Longrightarrow> mset (swap_at k xs) = mset xs"
  by (simp add: swap_at_def mset_swap)

lemma set_swap_at: "Suc k < length xs \<Longrightarrow> set (swap_at k xs) = set xs"
  using mset_swap_at mset_eq_setD by blast

lemma distinct_swap_at: "Suc k < length xs \<Longrightarrow> distinct (swap_at k xs) = distinct xs"
  using mset_swap_at mset_eq_imp_distinct_iff by blast

lemma length_sort_pass [simp]: "length (sort_pass key n k xs) = length xs"
  by (induction n arbitrary: k xs) simp_all

lemma mset_sort_pass: "k + n < length xs \<Longrightarrow> mset (sort_pass key n k xs) = mset xs"
  by (induction n arbitrary: k xs) (auto simp: mset_swap_at)

lemma menu_order_fold:
  assumes "\<forall>i\<in>set is. i < length xs" "xs \<noteq> []"
  shows "mset (foldl (\<lambda>xs i. sort_pass key (length xs - 1 - i) 0 xs) xs is) = mset xs \<and>
         length (foldl (\<lambda>xs i. sort_pass key (length xs - 1 - i) 0 xs) xs is) = length xs"
  using assms
proof (induction "is" arbitrary: xs)
  case (Cons i js)
  let ?ys = "sort_pass key (length xs - 1 - i) 0 xs"
  have "mset ?ys = mset xs" using Cons.prems by (intro mset_sort_pass) (cases xs; simp)
  moreover have "?ys \<noteq> []" using Cons.prems(2) by (metis length_0_conv length_sort_pass)
  ultimately show ?case using Cons.IH [of ?ys] Cons.prems(1) by simp
qed simp

lemma mset_menu_order: "mset (menu_order key xs) = mset xs"
proof (cases "xs = []")
  case False
  have "\<forall>i\<in>set [0..<length xs - 1]. i < length xs" by auto
  from menu_order_fold [OF this False, of key] show ?thesis by (simp add: menu_order_def)
qed (simp add: menu_order_def)

lemma map_swap_at: "Suc k < length xs \<Longrightarrow> map f (swap_at k xs) = swap_at k (map f xs)"
  by (simp add: swap_at_def map_update)

lemma map_sort_pass:
  "k + n < length xs \<Longrightarrow> map f (sort_pass (\<lambda>a. key (f a)) n k xs) = sort_pass key n k (map f xs)"
proof (induction n arbitrary: k xs)
  case (Suc n)
  then have lt: "(k + length xs - Suc 0) mod length xs < length xs"
    by (intro mod_less_divisor) linarith
  then have "out_of_order (\<lambda>a. key (f a)) k xs = out_of_order key k (map f xs)"
    using Suc.prems by (simp add: out_of_order_def)
  then show ?case using Suc by (simp add: map_swap_at)
qed simp

lemma map_menu_order_fold:
  assumes "\<forall>i\<in>set is. i < length xs" "xs \<noteq> []"
  shows "map f (foldl (\<lambda>xs i. sort_pass (\<lambda>a. key (f a)) (length xs - 1 - i) 0 xs) xs is)
       = foldl (\<lambda>xs i. sort_pass key (length xs - 1 - i) 0 xs) (map f xs) is"
  using assms
proof (induction "is" arbitrary: xs)
  case (Cons i js)
  let ?ys = "sort_pass (\<lambda>a. key (f a)) (length xs - 1 - i) 0 xs"
  have "map f ?ys = sort_pass key (length xs - 1 - i) 0 (map f xs)"
    using Cons.prems by (intro map_sort_pass) (cases xs; simp)
  moreover have "?ys \<noteq> []" using Cons.prems(2) by (metis length_0_conv length_sort_pass)
  ultimately show ?case using Cons.IH [of ?ys] Cons.prems(1) by simp
qed simp

lemma map_menu_order: "map f (menu_order (\<lambda>a. key (f a)) xs) = menu_order key (map f xs)"
proof (cases "xs = []")
  case False
  have "\<forall>i\<in>set [0..<length xs - 1]. i < length xs" by auto
  from map_menu_order_fold [OF this False, of f key] show ?thesis by (simp add: menu_order_def)
qed (simp add: menu_order_def)
section \<open>The exchange on the ring\<close>

definition swap_next :: "ptr \<Rightarrow> ptr \<Rightarrow> ptr \<Rightarrow> ptr \<Rightarrow> (ptr \<Rightarrow> ptr) \<Rightarrow> ptr \<Rightarrow> ptr" where
  "swap_next t1 t2 t3 t4 f a =
     (if a = t1 then t3 else if a = t3 then t2 else if a = t2 then t4 else f a)"

definition swap_prev :: "ptr \<Rightarrow> ptr \<Rightarrow> ptr \<Rightarrow> ptr \<Rightarrow> (ptr \<Rightarrow> ptr) \<Rightarrow> ptr \<Rightarrow> ptr" where
  "swap_prev t1 t2 t3 t4 f a =
     (if a = t4 then t2 else if a = t2 then t3 else if a = t3 then t1 else f a)"

lemma st_row_step:
  assumes "rows s p \<noteq> None"
    "\<And>r. row_data (f r) = row_data r"
  shows "\<exists>R'. st_row p f s = Ret (s\<lparr>rows := R'\<rparr>)
    \<and> (\<forall>a. map_option row_data (R' a) = map_option row_data (rows s a))
    \<and> (\<forall>a. a \<noteq> p \<longrightarrow> nxt R' a = nxt (rows s) a \<and> prv R' a = prv (rows s) a)
    \<and> nxt R' p = row_next (f (the (rows s p))) \<and> prv R' p = row_prev (f (the (rows s p)))"
  using assms by (auto simp: st_row_def nxt_def prv_def)

lemma swap_rows_pointers:
  assumes alloc: "rows s t1 \<noteq> None" "rows s t2 \<noteq> None" "rows s t3 \<noteq> None" "rows s t4 \<noteq> None"
    and dist: "t1 \<noteq> t2" "t1 \<noteq> t3" "t2 \<noteq> t3" "t4 \<noteq> t2" "t4 \<noteq> t3"
  shows "\<exists>R'. swap_rows t1 t2 t3 t4 s = Ret (s\<lparr>rows := R'\<rparr>)
    \<and> (\<forall>a. map_option row_data (R' a) = map_option row_data (rows s a))
    \<and> (\<forall>a. nxt R' a = swap_next t1 t2 t3 t4 (nxt (rows s)) a)
    \<and> (\<forall>a. prv R' a = swap_prev t1 t2 t3 t4 (prv (rows s)) a)"
proof -
  obtain r1 r2 r3 r4 where r: "rows s t1 = Some r1" "rows s t2 = Some r2" "rows s t3 = Some r3"
    "rows s t4 = Some r4" using alloc by auto
  show ?thesis
    using r dist
    by (cases "t4 = t1")
       (auto simp: swap_rows_def heap_simps swap_next_def swap_prev_def nxt_def prv_def row_data_def)
qed

lemma swap_at_nth:
  "Suc k < length xs \<Longrightarrow> i < length xs \<Longrightarrow>
   swap_at k xs ! i = (if i = k then xs ! Suc k else if i = Suc k then xs ! k else xs ! i)"
  by (simp add: swap_at_def nth_list_update)

lemma ring_swap:
  assumes R: "ring R as" and n: "3 \<le> length as" "Suc k < length as"
  defines "t1 \<equiv> as ! ((k + length as - 1) mod length as)" and "t2 \<equiv> as ! k" and "t3 \<equiv> as ! Suc k"
    and "t4 \<equiv> as ! (Suc (Suc k) mod length as)"
  assumes R': "\<And>a. R a \<noteq> None \<Longrightarrow> R' a \<noteq> None"
    "\<And>a. nxt R' a = swap_next t1 t2 t3 t4 (nxt R) a"
    "\<And>a. prv R' a = swap_prev t1 t2 t3 t4 (prv R) a"
  shows "ring R' (swap_at k as)"
proof -
  let ?n = "length as" and ?as = "swap_at k as"
  let ?S = "\<lambda>i. if Suc i = ?n then 0 else Suc i"
  let ?j = "if k = 0 then ?n - 1 else k - 1"
  have S: "i < ?n \<Longrightarrow> Suc i mod ?n = ?S i" for i by auto
  have j: "(k + ?n - 1) mod ?n = ?j"
    using n by (cases k) (auto simp: mod_if)
  have l: "Suc (Suc k) mod ?n = ?S (Suc k)" using S n by simp
  have eq: "as ! i = as ! i' \<longleftrightarrow> i = i'" if "i < ?n" "i' < ?n" for i i'
    by (rule ring_nth_eq_iff [OF R that])
  have t: "t1 = as ! ?j" "t4 = as ! ?S (Suc k)" by (simp_all only: t1_def t4_def j l)
  have lt: "?j < ?n" "?S (Suc k) < ?n" "k < ?n" using n by auto
  have step: "nxt R' (?as ! i) = ?as ! ?S i \<and> prv R' (?as ! ?S i) = ?as ! i" if i: "i < ?n" for i
  proof -
    have Si: "?S i < ?n" using i n by auto
    have nx: "nxt R (as ! i) = as ! ?S i" "prv R (as ! ?S i) = as ! i"
    proof -
      have "(as ! i, as ! ?S i) \<in> links as" unfolding links_iff using i S [OF i] by metis
      from ring_links [OF R this] show "nxt R (as ! i) = as ! ?S i" "prv R (as ! ?S i) = as ! i"
        by simp_all
    qed
    consider "i = k" | "i = Suc k" | "i = ?j" "i \<noteq> k" "i \<noteq> Suc k"
      | "i \<noteq> k" "i \<noteq> Suc k" "i \<noteq> ?j" by blast
    then show ?thesis
    proof cases
      case 1
      have "t3 \<noteq> t1" "t2 \<noteq> t4"
        unfolding t t2_def t3_def using eq lt n by auto
      then show ?thesis
        using 1 n by (auto simp: swap_at_nth R' swap_next_def swap_prev_def t2_def t3_def)
    next
      case 2
      have "t2 \<noteq> t1" "t2 \<noteq> t3" "?S (Suc k) \<noteq> k" "?S (Suc k) \<noteq> Suc k"
        unfolding t t2_def t3_def using eq lt n by auto
      then show ?thesis
        using 2 n lt swap_at_nth [OF n(2) lt(2)]
        by (simp add: swap_at_nth R' swap_next_def swap_prev_def t2_def [symmetric] t(2) del: length_greater_0_conv)
    next
      case 3
      have "t3 \<noteq> t4" "t3 \<noteq> t2" "?S i = k"
        unfolding t t2_def t3_def using eq lt n 3 by auto
      then show ?thesis
        using 3 n lt i by (simp add: swap_at_nth R' swap_next_def swap_prev_def t3_def [symmetric] t(1))
    next
      case 4
      have d: "?S i \<noteq> k" "?S i \<noteq> Suc k" "?S i \<noteq> ?S (Suc k)"
        using 4 n i by (cases "k = 0"; auto)+
      have "as ! i \<noteq> t1" "as ! i \<noteq> t2" "as ! i \<noteq> t3"
        unfolding t t2_def t3_def using eq lt n 4 i by auto
      moreover have "as ! ?S i \<noteq> t4" "as ! ?S i \<noteq> t2" "as ! ?S i \<noteq> t3"
        unfolding t t2_def t3_def using eq [OF Si] lt n d by auto
      ultimately show ?thesis
        using 4 d n i Si nx by (simp add: swap_at_nth R' swap_next_def swap_prev_def)
    qed
  qed
  have "nxt R' a = b \<and> prv R' b = a" if "(a, b) \<in> links ?as" for a b
    using that step S n by (auto simp: links_iff)
  then show ?thesis
    using ringD(1,2) [OF R] R'(1) R n by (auto simp: ring_def distinct_swap_at set_swap_at)
qed
section \<open>The sort\<close>

text \<open>What stays the same during the sort: the rows' data and all of the handle but its ends.\<close>

definition sort_rel :: "'hw lcdst \<Rightarrow> lcd_handle \<Rightarrow> ptr \<Rightarrow> 'hw lcdst \<Rightarrow> ptr list \<Rightarrow> bool" where
  "sort_rel s0 h0 hp s as \<longleftrightarrow>
     ring (rows s) as \<and> nalloc s = nalloc s0
     \<and> (\<forall>a. map_option row_data (rows s a) = map_option row_data (rows s0 a))
     \<and> handles s hp = Some (h0\<lparr>h_top := hd as, h_end := last as\<rparr>)"

definition row_key :: "'hw lcdst \<Rightarrow> ptr \<Rightarrow> byte list" where
  "row_key s a = snd (row_item (the (rows s a)))"

lemma sort_rel_key:
  assumes "sort_rel s0 h0 hp s as" "\<forall>a\<in>set as. row_ok (the (rows s0 a))" "a \<in> set as"
  obtains r b where "rows s a = Some r" "row_str r = Some b" "cstr b = row_key s0 a"
    "row_next r = nxt (rows s) a" "row_prev r = prv (rows s) a"
proof -
  have "ring (rows s) as" using assms(1) by (simp add: sort_rel_def)
  then obtain r where r: "rows s a = Some r" using ringD(3) assms(3) by blast
  have "map_option row_data (rows s0 a) = Some (row_data r)"
    using assms(1) r by (metis sort_rel_def option.simps(9))
  then obtain r0 where r0: "rows s0 a = Some r0" "row_data r0 = row_data r" by auto
  have "row_ok r" "row_item r = row_item r0"
    using row_data_item [OF r0(2)] assms(2,3) r0(1) by auto
  then obtain b where "row_str r = Some b" "cstr b = row_key s0 a"
    using r0 by (auto simp: row_ok_def row_key_def row_item_def)
  then show ?thesis using that r by (simp add: nxt_def prv_def)
qed

text \<open>One round of the inner loop.\<close>

lemma hd_swap_at:
  assumes "Suc k < length xs" shows "hd (swap_at k xs) = (if k = 0 then xs ! 1 else hd xs)"
proof -
  have ne: "xs \<noteq> []" "swap_at k xs \<noteq> []" using assms by (auto simp flip: length_0_conv)
  then show ?thesis using assms by (simp add: hd_conv_nth swap_at_nth)
qed

lemma last_swap_at:
  "Suc k < length xs \<Longrightarrow> last (swap_at k xs) = (if Suc (Suc k) = length xs then xs ! k else last xs)"
  by (subst (1 2) last_conv_nth) (auto simp: swap_at_def nth_list_update)

lemma sort_step_swap:
  assumes rel: "sort_rel s0 h0 hp s as" and n: "3 \<le> length as" "Suc k < length as"
  defines "t1 \<equiv> as ! ((k + length as - 1) mod length as)" and "t2 \<equiv> as ! k" and "t3 \<equiv> as ! Suc k"
    and "t4 \<equiv> as ! (Suc (Suc k) mod length as)"
  shows "\<exists>s'. res_bind (swap_rows t1 t2 t3 t4 s) (\<lambda>s.
                res_bind (st_h hp (\<lambda>h. if h_top h = t2 then h\<lparr>h_top := t3\<rparr> else h) s) (\<lambda>s.
                st_h hp (\<lambda>h. if h_end h = t3 then h\<lparr>h_end := t2\<rparr> else h) s)) = Ret s'
           \<and> sort_rel s0 h0 hp s' (swap_at k as)"
proof -
  let ?n = "length as"
  have R: "ring (rows s) as" using rel by (simp add: sort_rel_def)
  have len: "(k + ?n - 1) mod ?n < ?n" "Suc (Suc k) mod ?n < ?n" "k < ?n"
    using n by (auto intro!: mod_less_divisor)
  have eq: "as ! i = as ! i' \<longleftrightarrow> i = i'" if "i < ?n" "i' < ?n" for i i'
    by (rule ring_nth_eq_iff [OF R that])
  have j: "(k + ?n - 1) mod ?n = (if k = 0 then ?n - 1 else k - 1)"
    using n by (cases k) (auto simp: mod_if)
  have l: "Suc (Suc k) mod ?n = (if Suc (Suc k) = ?n then 0 else Suc (Suc k))"
    using n by auto
  have dist: "t1 \<noteq> t2" "t1 \<noteq> t3" "t2 \<noteq> t3" "t4 \<noteq> t2" "t4 \<noteq> t3"
    unfolding t1_def t2_def t3_def t4_def using eq len n j l by auto
  have alloc: "rows s t1 \<noteq> None" "rows s t2 \<noteq> None" "rows s t3 \<noteq> None" "rows s t4 \<noteq> None"
    unfolding t1_def t2_def t3_def t4_def using len n ringD(3) [OF R] by (metis nth_mem option.distinct(1))+
  obtain R' where R': "swap_rows t1 t2 t3 t4 s = Ret (s\<lparr>rows := R'\<rparr>)"
      "\<forall>a. map_option row_data (R' a) = map_option row_data (rows s a)"
      "\<forall>a. nxt R' a = swap_next t1 t2 t3 t4 (nxt (rows s)) a"
      "\<forall>a. prv R' a = swap_prev t1 t2 t3 t4 (prv (rows s)) a"
    using swap_rows_pointers [OF alloc dist] by metis
  have keep: "rows s a \<noteq> None \<Longrightarrow> R' a \<noteq> None" for a
    using R'(2) by (metis option.map_disc_iff)
  have ring': "ring R' (swap_at k as)"
    using ring_swap [OF R n, of R'] keep R'(3,4) unfolding t1_def t2_def t3_def t4_def by blast
  have ne: "as \<noteq> []" using n by auto
  have "hd as = t2 \<longleftrightarrow> k = 0"
    using eq [of 0 k] n ne by (simp add: t2_def hd_conv_nth)
  moreover have "last as = t3 \<longleftrightarrow> Suc (Suc k) = ?n"
    using eq [of "?n - 1" "Suc k"] n ne by (auto simp: t3_def last_conv_nth)
  ultimately show ?thesis
    using rel R'(1,2) ring' n hd_swap_at [OF n(2)] last_swap_at [OF n(2)]
    by (auto simp: sort_rel_def heap_simps t2_def t3_def)
qed

lemma strcmp_key: "cstr a = x \<Longrightarrow> cstr b = y \<Longrightarrow> strcmp a b = bytes_cmp x y"
  by (simp add: strcmp_def)

lemma sort_inner_refines:
  assumes "sort_rel s0 h0 hp s as" "3 \<le> length as" "k + n < length as"
    "\<forall>a\<in>set as. row_ok (the (rows s0 a))"
  shows "\<exists>s'. sort_inner n hp (as ! k) s = Ret s'
           \<and> sort_rel s0 h0 hp s' (sort_pass (row_key s0) n k as)"
  using assms
proof (induction n arbitrary: k s as)
  case (Suc n)
  let ?n = "length as" and ?j = "(k + length as - 1) mod length as"
  have len: "?j < ?n" "k < ?n" "Suc k < ?n" "Suc (Suc k) mod ?n < ?n"
    using Suc.prems by (auto intro!: mod_less_divisor)
  have R: "ring (rows s) as" using Suc.prems(1) by (simp add: sort_rel_def)
  obtain r1 b1 where r1: "rows s (as ! ?j) = Some r1" "row_str r1 = Some b1"
      "cstr b1 = row_key s0 (as ! ?j)"
    using sort_rel_key [OF Suc.prems(1,4) nth_mem [OF len(1)]] by metis
  obtain r2 b2 where r2: "rows s (as ! k) = Some r2" "row_str r2 = Some b2"
      "cstr b2 = row_key s0 (as ! k)" "row_next r2 = nxt (rows s) (as ! k)"
      "row_prev r2 = prv (rows s) (as ! k)"
    using sort_rel_key [OF Suc.prems(1,4) nth_mem [OF len(2)]] by metis
  obtain r3 b3 where r3: "rows s (as ! Suc k) = Some r3" "row_str r3 = Some b3"
      "row_next r3 = nxt (rows s) (as ! Suc k)"
    using sort_rel_key [OF Suc.prems(1,4) nth_mem [OF len(3)]] by metis
  have ptr: "row_next r2 = as ! Suc k" "row_prev r2 = as ! ?j"
      "row_next r3 = as ! (Suc (Suc k) mod ?n)"
    using ring_next [OF R len(2)] ring_prev [OF R len(2)] ring_next [OF R len(3)] r2(4,5) r3(3) len(3)
    by simp_all
  have cmp: "0 < strcmp b1 b2 \<longleftrightarrow> out_of_order (row_key s0) k as"
    using strcmp_key [OF r1(3) r2(3)] by (simp add: out_of_order_def)
  show ?case
  proof (cases "out_of_order (row_key s0) k as")
    case False
    have "\<exists>s'. sort_inner n hp (as ! Suc k) s = Ret s'
           \<and> sort_rel s0 h0 hp s' (sort_pass (row_key s0) n (Suc k) as)"
      by (rule Suc.IH) (use Suc.prems in simp_all)
    then show ?thesis
      using False cmp r1 r2 r3 ptr by (simp add: heap_simps)
  next
    case True
    let ?as = "swap_at k as"
    obtain s' where s': "res_bind (swap_rows (as ! ?j) (as ! k) (as ! Suc k) (as ! (Suc (Suc k) mod ?n)) s)
          (\<lambda>s. res_bind (st_h hp (\<lambda>h. if h_top h = as ! k then h\<lparr>h_top := as ! Suc k\<rparr> else h) s) (\<lambda>s.
               st_h hp (\<lambda>h. if h_end h = as ! Suc k then h\<lparr>h_end := as ! k\<rparr> else h) s)) = Ret s'"
        "sort_rel s0 h0 hp s' ?as"
      using sort_step_swap [OF Suc.prems(1,2) len(3)] by metis
    have "\<exists>s''. sort_inner n hp (?as ! Suc k) s' = Ret s''
           \<and> sort_rel s0 h0 hp s'' (sort_pass (row_key s0) n (Suc k) ?as)"
      by (rule Suc.IH [OF s'(2)]) (use Suc.prems set_swap_at [OF len(3)] in auto)
    moreover have "?as ! Suc k = as ! k" using len(3) by (simp add: swap_at_nth)
    moreover have "sort_inner (Suc n) hp (as ! k) s = res_bind (Ret s') (\<lambda>s. sort_inner n hp (as ! k) s)"
      unfolding s'(1) [symmetric]
      using True cmp r1(1,2) r2(1,2) r3(1,2) ptr by (simp add: heap_simps res_simps Let_def cong: if_cong)
    ultimately show ?thesis using True by simp
  qed
qed simp

lemma sort_outer_refines:
  assumes "sort_rel s0 h0 hp s as" "3 \<le> length as" "h_numrows h0 = int (length as)"
    "\<forall>a\<in>set as. row_ok (the (rows s0 a))" "\<forall>i\<in>set is. i < length as"
  shows "\<exists>s'. sort_outer (map int is) hp s = Ret s' \<and> sort_rel s0 h0 hp s'
           (foldl (\<lambda>xs i. sort_pass (row_key s0) (length xs - 1 - i) 0 xs) as is)"
  using assms
proof (induction "is" arbitrary: s as)
  case (Cons i js)
  let ?m = "length as - 1 - i" and ?n = "length as"
  have i: "i < ?n" "0 + ?m < ?n" using Cons.prems by auto
  have h: "handles s hp = Some (h0\<lparr>h_top := hd as, h_end := last as\<rparr>)"
    using Cons.prems(1) by (simp add: sort_rel_def)
  have m: "nat (h_numrows h0 - 1 - int i) = ?m" using Cons.prems(3) i by simp
  have hd: "hd as = as ! 0" using Cons.prems(2) by (cases as) auto
  obtain s1 where s1: "sort_inner ?m hp (as ! 0) s = Ret s1"
      "sort_rel s0 h0 hp s1 (sort_pass (row_key s0) ?m 0 as)"
    using sort_inner_refines [OF Cons.prems(1,2) i(2) Cons.prems(4)] by blast
  have "set (sort_pass (row_key s0) ?m 0 as) = set as"
    using mset_sort_pass [OF i(2)] mset_eq_setD by blast
  then have "\<exists>s'. sort_outer (map int js) hp s1 = Ret s' \<and> sort_rel s0 h0 hp s'
     (foldl (\<lambda>xs i. sort_pass (row_key s0) (length xs - 1 - i) 0 xs)
        (sort_pass (row_key s0) ?m 0 as) js)"
    using Cons.IH [OF s1(2)] Cons.prems by simp
  then show ?case using h m hd s1(1) by (simp add: heap_simps)
qed simp
lemma sort_rel_item:
  assumes "sort_rel s0 h0 hp s as" "\<forall>a\<in>set as. rows s0 a \<noteq> None" "a \<in> set as"
  shows "row_item (the (rows s a)) = row_item (the (rows s0 a)) \<and>
         row_ok (the (rows s a)) = row_ok (the (rows s0 a))"
  using assms by (intro row_data_map) (auto simp: sort_rel_def)

text \<open>
  For three rows and more the function computes \<open>menu_order\<close> of the entries: it returns, the
  list stays a ring of the same rows, no entry is lost or duplicated, and the selected entry
  stays selected and becomes the first visible one.
\<close>

lemma menusort_orders:
  assumes rep: "menu_rep s hp as m" and n: "3 \<le> length as"
  shows "\<exists>s' as' m'. lcd_menusort hp s = Ret s' \<and> menu_rep s' hp as' m' \<and> set as' = set as
           \<and> m_items m' = menu_order snd (m_items m)
           \<and> m_top m' = m_sel m' \<and> m_items m' ! m_sel m' = m_items m ! m_sel m"
proof -
  obtain h where h: "hp \<noteq> NULL" "handles s hp = Some h" "ring (rows s) as"
      "h_points h as (m_sel m) (m_top m)" and sz: "m_size m = length as"
    using menu_repE [OF rep] by metis
  have ne: "as \<noteq> []" using n by auto
  have hh: "h_top h = hd as" "h_end h = last as" "h_numrows h = int (length as)"
      "h_curl h = as ! m_sel m" "m_sel m < length as"
    using h(4) ne by (auto simp: h_points_def)
  have ok: "\<forall>a\<in>set as. row_ok (the (rows s a))" "\<forall>a\<in>set as. a \<le> nalloc s"
      "m_items m = map (\<lambda>a. row_item (the (rows s a))) as"
    using rep by (auto simp: menu_rep_def)
  have alloc: "\<forall>a\<in>set as. rows s a \<noteq> None" using h(3) by (auto simp: ring_def)
  have "h\<lparr>h_top := hd as, h_end := last as\<rparr> = h" using hh(1,2) by (cases h) simp
  then have rel: "sort_rel s h hp s as" using h by (simp add: sort_rel_def)
  let ?as = "menu_order (row_key s) as"
  have bnd: "\<forall>i\<in>set [0..<length as - 1]. i < length as" by auto
  obtain s1 where s1: "sort_outer (map int [0..<length as - 1]) hp s = Ret s1" "sort_rel s h hp s1 ?as"
    using sort_outer_refines [OF rel n hh(3) ok(1) bnd] by (auto simp: menu_order_def)
  have set: "set ?as = set as" "length ?as = length as"
    using mset_menu_order [of "row_key s" as] mset_eq_setD mset_eq_length by blast+
  obtain j where j: "j < length as" "?as ! j = as ! m_sel m"
    using hh(5) set by (metis in_set_conv_nth)
  have upto: "[0..h_numrows h - 2] = map int [0..<length as - 1]"
    using hh(3) n by (intro nth_equalityI) auto
  have top: "h_top h \<noteq> NULL" using hh(1) ne ringD(2) [OF h(3)] by (metis hd_in_set)
  let ?h = "h\<lparr>h_top := hd ?as, h_end := last ?as, h_tsc := as ! m_sel m\<rparr>"
  let ?s' = "s1\<lparr>handles := (handles s1)(hp \<mapsto> ?h)\<rparr>"
  let ?m = "\<lparr>m_items = menu_order snd (m_items m), m_sel = j, m_top = j\<rparr>"
  have run: "lcd_menusort hp s = Ret ?s'"
    using h top hh n s1 upto by (simp add: lcd_menusort_def heap_simps sort_rel_def)
  have item: "row_item (the (rows s1 a)) = row_item (the (rows s a)) \<and> row_ok (the (rows s1 a))"
    if "a \<in> set as" for a
    using sort_rel_item [OF s1(2), of a] that set alloc ok(1) by auto
  have items: "m_items ?m = map (\<lambda>a. row_item (the (rows s1 a))) ?as"
  proof -
    have "row_key s = (\<lambda>a. snd (row_item (the (rows s a))))" by (simp add: row_key_def fun_eq_iff)
    then have "menu_order snd (m_items m) = map (\<lambda>a. row_item (the (rows s a))) ?as"
      using map_menu_order [of "\<lambda>a. row_item (the (rows s a))" snd as] ok(3) by simp
    also have "\<dots> = map (\<lambda>a. row_item (the (rows s1 a))) ?as"
      by (rule map_cong) (use item set in auto)
    finally show ?thesis by simp
  qed
  have pts: "h_points ?h ?as j j"
    using j set hh ne by (auto simp: h_points_def)
  have "menu_rep ?s' hp ?as ?m"
    using s1(2) h(1) items pts item ok(2) set by (auto simp: menu_rep_def sort_rel_def)
  moreover have "m_items ?m ! j = m_items m ! m_sel m"
    using items j set item ok(3) hh(5) by (metis nth_map nth_mem amenu.select_convs(1))
  ultimately show ?thesis using run set by (intro exI [of _ ?s'] exI [of _ ?as] exI [of _ ?m]) simp
qed

text \<open>
  The order is not the alphabetical one: the entries C, E, A, B, D come out as E, D, C, A, B.
\<close>

lemma menu_order_not_sorted:
  "menu_order id [[67], [69], [65], [66], [68]] = [[69], [68], [67], [65], [66 :: byte]]"
  by (simp add: menu_order_def out_of_order_def swap_at_def upt_rec)

text \<open>
  With two rows the exchange is between a row and itself: when the entries are in order already,
  the function leaves the first row with itself as its successor, so the list is no ring any
  more and the second entry cannot be reached from the first.
\<close>

lemma menusort_breaks_two:
  assumes rep: "menu_rep s hp [a, b] m"
    and ord: "bytes_cmp (snd (m_items m ! 1)) (snd (m_items m ! 0)) > 0"
  shows "\<exists>s'. lcd_menusort hp s = Ret s' \<and> nxt (rows s') a = a \<and> \<not> ring (rows s') [a, b]
           \<and> \<not> ring (rows s') [b, a]"
proof -
  obtain h where h: "hp \<noteq> NULL" "handles s hp = Some h" "ring (rows s) [a, b]"
      "h_points h [a, b] (m_sel m) (m_top m)"
    using menu_repE [OF rep] by metis
  have two: "0 < length [a, b]" "1 < length [a, b]" by simp_all
  obtain ra ba where ra: "rows s a = Some ra" "row_str ra = Some ba" "a \<noteq> NULL"
      "row_next ra = b" "row_prev ra = b" "m_items m ! 0 = row_item ra"
    using menu_rep_row [OF rep two(1)] by simp metis
  obtain rb bb where rb: "rows s b = Some rb" "row_str rb = Some bb" "b \<noteq> NULL"
      "row_next rb = a" "row_prev rb = a" "m_items m ! 1 = row_item rb"
    using menu_rep_row [OF rep two(2)] by simp metis
  have ab: "a \<noteq> b" using ringD(1) [OF h(3)] by simp
  have cmp: "0 < strcmp bb ba" using ord ra rb by (simp add: row_item_def strcmp_def)
  show ?thesis
    using h ra rb ab cmp
    by (simp add: lcd_menusort_def heap_simps h_points_def Let_def swap_rows_def res_simps
          ring_def links_def nxt_def upto.simps)
qed

end
