(* ===== verification/Lcd_Demo.thy ===== *)
theory Lcd_Demo
  imports Lcd_Menu
begin

text \<open>
  Concrete rows, states and a small display, at which the theorems about \<^verbatim>\<open>lcd.c\<close> are applied.
\<close>

definition demo_row :: "ptr \<Rightarrow> ptr \<Rightarrow> byte list \<Rightarrow> int \<Rightarrow> slcd_s_row" where
  "demo_row n p t i = \<lparr>row_next = n, row_prev = p, row_str = Some (zstr t), row_idnumber = i,
                       row_scrollpos = 0, row_len = int (length t)\<rparr>"

definition demo_state :: "(ptr \<rightharpoonup> slcd_s_row) \<Rightarrow> lcd_handle \<Rightarrow> nat \<Rightarrow> nat lcdst" where
  "demo_state R h n = \<lparr>rows = R, handles = [1 \<mapsto> h], bufs = Map.empty, nalloc = n,
                       oom = (\<lambda>_. False), currentscreen = NULL, lastmins = 60, hwst = 2\<rparr>"

text \<open>A display of two lines whose height is its state.\<close>

definition demo_ops :: "nat lcdhw_ops" where
  "demo_ops = \<lparr>op_width = (\<lambda>_. 4), op_height = int, op_capabilities = (\<lambda>_. 0),
     op_hwclearscr = Ret, op_hwputline = (\<lambda>_ _ _ d. Ret (True, d)),
     op_hwcursor = (\<lambda>_ _ _ d. Ret (True, d)), op_hwrefresh = Ret,
     op_hwclock = (\<lambda>_ _ _ _ _ _ _ d. Ret (True, d)), op_geticon = (\<lambda>_ _. False),
     op_hwgetscreen = (\<lambda>_. None), op_hwgetselrows = (\<lambda>_. None)\<rparr>"

end
