(* ===== verification/Menu_Props.thy ===== *)
theory Menu_Props
  imports Menu_Sort Lcd_Demo
begin

text \<open>
  The menu under the keys, for every menu and display height, and the menu theorems at concrete
  screens.
\<close>

section \<open>A concrete menu\<close>

definition demo_empty :: "nat lcdst" where
  "demo_empty = demo_state Map.empty (init_handle 4) 2"

text \<open>Three entries \<open>C\<close>, \<open>A\<close>, \<open>B\<close> with the numbers 1, 2, 3 on a display of two lines.\<close>

definition demo_three :: "nat lcdst" where
  "demo_three = demo_state [3 \<mapsto> demo_row 5 7 [67] 1, 5 \<mapsto> demo_row 7 3 [65] 2, 7 \<mapsto> demo_row 3 5 [66] 3]
     ((init_handle 4)\<lparr>h_numrows := 3, h_top := 3, h_end := 7, h_tsc := 3, h_curl := 5\<rparr>) 8"

definition demo_two :: "nat lcdst" where
  "demo_two = demo_state [3 \<mapsto> demo_row 5 5 [65] 1, 5 \<mapsto> demo_row 3 3 [66] 2]
     ((init_handle 4)\<lparr>h_numrows := 2, h_top := 3, h_end := 5, h_tsc := 3, h_curl := 3\<rparr>) 6"

definition demo_items :: "(int \<times> byte list) list" where
  "demo_items = [(1, [67]), (2, [65]), (3, [66])]"

lemma demo_empty_rep: "menu_rep demo_empty 1 [] \<lparr>m_items = [], m_sel = 0, m_top = 0\<rparr>"
  by (simp add: menu_rep_def demo_empty_def demo_state_def ring_def h_points_def init_handle_def)

lemma cstr_demo [simp]: "c \<noteq> 0 \<Longrightarrow> cstr (zstr [c]) = [c]"
  by (simp add: cstr_def zstr_def)

lemma demo_three_rep:
  "menu_rep demo_three 1 [3, 5, 7] \<lparr>m_items = demo_items, m_sel = 1, m_top = 0\<rparr>"
  by (simp add: menu_rep_def demo_three_def demo_state_def ring_def h_points_def init_handle_def
        demo_row_def row_ok_def row_item_def demo_items_def links_def nxt_def prv_def)

lemma demo_two_rep:
  "menu_rep demo_two 1 [3, 5] \<lparr>m_items = [(1, [65]), (2, [66])], m_sel = 0, m_top = 0\<rparr>"
  by (simp add: menu_rep_def demo_two_def demo_state_def ring_def h_points_def init_handle_def
        demo_row_def row_ok_def row_item_def links_def nxt_def prv_def)

section \<open>The menu at the keys\<close>

text \<open>C3.
  A key press on a menu of any length moves the selection one entry on, round the list, and
  scrolls the window of visible entries only when the selection would leave it; the rows and
  their strings stay as they are.
\<close>

theorem menucontrol_moves:
  assumes "menu_rep s hp as m" "as \<noteq> []" "op_height I (hwst s) = int H" "0 < H"
  shows "\<exists>s'. lcd_menucontrol I hp cmd s = Ret (True, s') \<and>
           menu_rep s' hp as (case cmd of SLCD_UP \<Rightarrow> m_up H m | SLCD_DOWN \<Rightarrow> m_down H m)"
  using menucontrol_up menucontrol_down assms by (cases cmd) auto

theorem menucontrol_moves_witness:
  "\<exists>s'. lcd_menucontrol demo_ops 1 SLCD_DOWN demo_three = Ret (True, s')
     \<and> menu_rep s' 1 [3, 5, 7] \<lparr>m_items = demo_items, m_sel = 2, m_top = 1\<rparr>"
  using menucontrol_moves [OF demo_three_rep, of demo_ops 2 SLCD_DOWN]
  by (simp add: demo_ops_def demo_three_def demo_state_def m_down_def demo_items_def numeral_2_eq_2)

text \<open>C30.
  A key press never moves the selected entry out of the lines of the display, whatever the
  length of the menu: if it was on the display before, it is afterwards.
\<close>

theorem menucontrol_keeps_visible:
  assumes "menu_rep s hp as m" "as \<noteq> []" "op_height I (hwst s) = int H" "0 < H" "m_visible H m"
  shows "\<exists>s' m'. lcd_menucontrol I hp cmd s = Ret (True, s') \<and> menu_rep s' hp as m'
           \<and> m_visible H m' \<and> m_items m' = m_items m"
proof -
  have b: "m_sel m < m_size m" "m_top m < m_size m"
    using assms(1,2) by (auto simp: menu_rep_def h_points_def)
  show ?thesis
    using menucontrol_up [OF assms(1-3)] menucontrol_down [OF assms(1-4)]
      m_up_visible [OF assms(5,4) b] m_down_visible [OF assms(5,4) b]
    by (cases cmd) (fastforce simp: m_up_def m_down_def Let_def)+
qed

theorem menucontrol_keeps_visible_witness:
  "\<exists>s' m'. lcd_menucontrol demo_ops 1 SLCD_UP demo_three = Ret (True, s')
     \<and> menu_rep s' 1 [3, 5, 7] m' \<and> m_visible 2 m' \<and> m_items m' = demo_items"
proof -
  have "m_visible 2 \<lparr>m_items = demo_items, m_sel = 1, m_top = 0\<rparr>"
    by (auto simp: m_visible_def demo_items_def intro!: exI [of _ 1])
  then show ?thesis
    using menucontrol_keeps_visible [OF demo_three_rep, of demo_ops 2 SLCD_UP]
    by (simp add: demo_ops_def demo_three_def demo_state_def)
qed

text \<open>C17.
  An entry is appended at the end of the list, with a copy of its string; it becomes the
  selected entry if that is asked for or it is the first.
\<close>

theorem menuaddentry_appends:
  assumes rep: "menu_rep s hp as m" and b: "0 \<in> set b"
    and mem: "\<not> oom s (nalloc s)" "\<not> oom s (Suc (nalloc s))"
  shows "\<exists>s'. lcd_menuaddentry hp i (Some b) sel s = Ret (True, s')
           \<and> menu_rep s' hp (as @ [Suc (nalloc s)]) (m_add i (cstr b) (sel = SLCD_SELECTED) m)"
  by (rule menuaddentry_rep [OF assms])

section \<open>Witnesses\<close>

theorem menuaddentry_appends_witness:
  "\<exists>s'. lcd_menuaddentry 1 9 (Some [0x43, 0xc3, 0xa9, 0]) SLCD_NOTSELECTED demo_three = Ret (True, s')
     \<and> menu_rep s' 1 [3, 5, 7, 9] \<lparr>m_items = demo_items @ [(9, [0x43, 0xc3, 0xa9])], m_sel = 1, m_top = 0\<rparr>"
  using menuaddentry_appends [OF demo_three_rep, of "[0x43, 0xc3, 0xa9, 0]" 9 SLCD_NOTSELECTED]
  by (simp add: demo_three_def demo_state_def m_add_def demo_items_def cstr_def)

theorem menuclear_frees_witness:
  "\<exists>s'. lcd_menuclear 1 demo_three = Ret (True, s') \<and> rows s' 5 = None
     \<and> menu_rep s' 1 [] \<lparr>m_items = [], m_sel = 1, m_top = 0\<rparr>"
  using menuclear_frees [OF demo_three_rep] by auto

theorem menusort_orders_witness:
  "\<exists>s' as' m'. lcd_menusort 1 demo_three = Ret s' \<and> menu_rep s' 1 as' m' \<and> set as' = {3, 5, 7}
     \<and> m_items m' = [(1, [67]), (3, [66]), (2, [65])] \<and> m_items m' ! m_sel m' = (2, [65])"
  using menusort_orders [OF demo_three_rep]
  by (simp add: demo_items_def menu_order_def out_of_order_def swap_at_def upt_rec) blast

theorem menusort_breaks_two_witness:
  "\<exists>s'. lcd_menusort 1 demo_two = Ret s' \<and> nxt (rows s') 3 = 3 \<and> \<not> ring (rows s') [3, 5]"
  using menusort_breaks_two [OF demo_two_rep] by auto

end
