(* ===== verification/Lcd_Scroll.thy ===== *)
theory Lcd_Scroll
  imports Lcd_Demo "HOL-Library.Signed_Division"
begin

text \<open>
  \<^verbatim>\<open>lcd_textbuildscrollingline\<close> and \<^verbatim>\<open>lcd_inputbuildscrollingline\<close> of
  \<^verbatim>\<open>src/libreciva/src/lcd/lcd.c\<close>: the line of a scrolled row and the top line of an input screen.
  Their static buffers are objects of 128 bytes, emptied at the start of each call.  The lemmas
  describe both lines as windows of a cyclic sequence of characters.
\<close>

section \<open>The two lines\<close>

definition linebuf0 :: "byte list" where
  "linebuf0 = replicate (nat SLCD_TEXTBUF_MAXLEN) 0"

text \<open>
  \<open>while (lcd_strlen(linebuf)<lcd_width())\<close>.  Every round appends a byte at least, unless the
  string is empty, so 128 rounds overflow the buffer first: the fuel is the buffer's size.
\<close>

fun scroll_loop :: "nat \<Rightarrow> byte list \<Rightarrow> int \<Rightarrow> int \<Rightarrow> byte list \<Rightarrow> byte list res" where
  "scroll_loop fuel str p width lb =
     res_bind (lcd_strlen (Some lb)) (\<lambda>n.
       if n < width
       then (case fuel of
               0 \<Rightarrow> Diverge
             | Suc k \<Rightarrow>
                 res_bind (lcd_getutf8char str p) (\<lambda>u.
                 res_bind (lcd_getnextcharacterpos str p) (\<lambda>p.
                 res_bind (strcat lb (zstr u)) (\<lambda>lb. scroll_loop k str p width lb))))
       else Ret lb)"

declare scroll_loop.simps [simp del]

definition lcd_textbuildscrollingline ::
  "'hw lcdhw_ops \<Rightarrow> ptr \<Rightarrow> 'hw lcdst \<Rightarrow> (byte list \<times> 'hw lcdst) res" where
  "lcd_textbuildscrollingline I row s =
     (if row = NULL then Ret (zstr [], s)
      else res_bind (ld_row row s) (\<lambda>r.
           res_bind (ld_str (row_str r)) (\<lambda>str.
           if row_len r \<le> op_width I (hwst s)
           then res_bind (strcpy linebuf0 str) (\<lambda>lb. Ret (lb, s))
           else
             res_bind (strcpy linebuf0 (zstr [])) (\<lambda>lb.
             res_bind (scroll_loop (nat SLCD_TEXTBUF_MAXLEN) str (row_scrollpos r)
                         (op_width I (hwst s)) lb) (\<lambda>lb.
             res_bind (lcd_getnextcharacterpos str (row_scrollpos r)) (\<lambda>p.
             res_bind (st_row row (\<lambda>r. r\<lparr>row_scrollpos := p\<rparr>) s) (\<lambda>s.
             Ret (lb, s))))))))"

fun prev_loop :: "nat \<Rightarrow> byte list \<Rightarrow> int \<Rightarrow> int res" where
  "prev_loop 0 str p = Ret p"
| "prev_loop (Suc n) str p = res_bind (lcd_getprevcharacterpos str p) (\<lambda>p. prev_loop n str p)"

fun copy_loop :: "nat \<Rightarrow> byte list \<Rightarrow> int \<Rightarrow> byte list \<Rightarrow> (int \<times> byte list) res" where
  "copy_loop 0 str p lb = Ret (p, lb)"
| "copy_loop (Suc n) str p lb =
     res_bind (lcd_getutf8char str p) (\<lambda>u.
     res_bind (strcat lb (zstr (lcd_parsespecial u))) (\<lambda>lb.
     res_bind (lcd_getnextcharacterpos str p) (\<lambda>p. copy_loop n str p lb)))"

text \<open>The marked selection in the middle of the line.\<close>

definition put_selected :: "byte list \<Rightarrow> int \<Rightarrow> byte list \<Rightarrow> (int \<times> byte list) res" where
  "put_selected str p lb =
     res_bind (lcd_getutf8char str p) (\<lambda>u.
       if u = SLCD_UCHR_END1 \<or> u = SLCD_UCHR_DEL1
       then res_bind (strcat lb (lit (if u = SLCD_UCHR_END1 then '' END '' else '' DEL ''))) (\<lambda>lb.
            res_bind (lcd_getnextcharacterpos str p) (\<lambda>p.
            res_bind (lcd_getnextcharacterpos str p) (\<lambda>p.
            res_bind (lcd_getnextcharacterpos str p) (\<lambda>p. Ret (p, lb)))))
       else res_bind (strcat lb (lit '' <'')) (\<lambda>lb.
            res_bind (strcat lb (zstr u)) (\<lambda>lb.
            res_bind (strcat lb (lit ''> '')) (\<lambda>lb.
            res_bind (lcd_getnextcharacterpos str p) (\<lambda>p. Ret (p, lb))))))"

definition lcd_inputbuildscrollingline ::
  "int \<Rightarrow> byte list option \<Rightarrow> int \<Rightarrow> byte list res" where
  "lcd_inputbuildscrollingline width selstr selection =
     (case selstr of
        None \<Rightarrow> Ret (zstr [])
      | Some str \<Rightarrow>
          res_bind (strcpy linebuf0 (zstr [])) (\<lambda>lb.
          let preview = (width - 5) sdiv 2
          in res_bind (prev_loop (nat preview) str selection) (\<lambda>p.
             res_bind (copy_loop (nat preview) str p lb) (\<lambda>(p, lb).
             res_bind (put_selected str p lb) (\<lambda>(p, lb).
             res_bind (copy_loop (nat preview) str p lb) (\<lambda>(p, lb).
             if width \<noteq> preview + 5 + preview then strcat lb (lit '' '') else Ret lb))))))"

section \<open>A text as a cyclic sequence\<close>

text \<open>
  The characters of at most three bytes, which \<^verbatim>\<open>lcd_getutf8char\<close> extracts whole.  \<open>at cs x\<close> is
  where the character number \<open>x\<close>, counted round the text in both directions, starts, and
  \<open>glyph cs x\<close> is that character.
\<close>

definition glyphs :: "byte list list \<Rightarrow> bool" where
  "glyphs cs \<longleftrightarrow> utext cs \<and> (\<forall>c\<in>set cs. length c \<le> 3)"

definition idx :: "nat \<Rightarrow> int \<Rightarrow> nat" where
  "idx n x = nat (x mod int n)"

definition at :: "byte list list \<Rightarrow> int \<Rightarrow> int" where
  "at cs x = offs cs (idx (length cs) x)"

definition glyph :: "byte list list \<Rightarrow> int \<Rightarrow> byte list" where
  "glyph cs x = cs ! idx (length cs) x"

lemma idx_less: "0 < n \<Longrightarrow> idx n x < n"
  by (simp add: idx_def nat_less_iff)

lemma idx_small: "i < n \<Longrightarrow> idx n (int i) = i"
  by (simp add: idx_def nat_mod_as_int [symmetric] flip: of_nat_mod)

lemma idx_next:
  assumes "0 < n" shows "idx n (x + 1) = (if Suc (idx n x) < n then Suc (idx n x) else 0)"
proof -
  have "(x + 1) mod int n = (x mod int n + 1) mod int n" by (simp add: mod_simps)
  moreover have "0 \<le> x mod int n" "x mod int n < int n" using assms by simp_all
  ultimately show ?thesis
    unfolding idx_def
    by (cases "x mod int n + 1 = int n") (auto simp: mod_pos_pos_trivial nat_add_distrib)
qed

lemma idx_prev:
  assumes "0 < n" shows "idx n (x - 1) = (if idx n x = 0 then n - 1 else idx n x - 1)"
  using idx_next [OF assms, of "x - 1"] idx_less [OF assms, of "x - 1"] by auto

lemma at_small: "i < length cs \<Longrightarrow> at cs (int i) = offs cs i"
  by (simp add: at_def idx_small)

lemma glyph_in: "cs \<noteq> [] \<Longrightarrow> glyph cs x \<in> set cs"
  by (simp add: glyph_def idx_less)

lemma next_at:
  assumes "glyphs cs" "cs \<noteq> []"
  shows "lcd_getnextcharacterpos (concat cs @ 0 # r) (at cs x) = Ret (at cs (x + 1))"
  using assms lcd_getnextcharacterpos_text [of cs "idx (length cs) x" r] idx_less [of "length cs" x]
  by (simp add: at_def glyphs_def idx_next)

lemma prev_at:
  assumes "glyphs cs" "cs \<noteq> []"
  shows "lcd_getprevcharacterpos (concat cs @ 0 # r) (at cs x) = Ret (at cs (x - 1))"
  using assms lcd_getprevcharacterpos_text [of cs "idx (length cs) x" r] idx_less [of "length cs" x]
  by (simp add: at_def glyphs_def idx_prev)

lemma char_at:
  assumes "glyphs cs" "cs \<noteq> []"
  shows "lcd_getutf8char (concat cs @ 0 # r) (at cs x) = Ret (glyph cs x)"
  using assms lcd_getutf8char_text [of cs "idx (length cs) x" r] idx_less [of "length cs" x]
  by (simp add: at_def glyph_def glyphs_def)

lemma glyphs_simps [simp]:
  "glyphs []" "glyphs (c # cs) \<longleftrightarrow> uchar c \<and> length c \<le> 3 \<and> glyphs cs"
  "glyphs (cs @ ds) \<longleftrightarrow> glyphs cs \<and> glyphs ds"
  by (auto simp: glyphs_def)

lemma glyph_ok: "glyphs cs \<Longrightarrow> cs \<noteq> [] \<Longrightarrow> uchar (glyph cs x) \<and> length (glyph cs x) \<le> 3"
  using glyph_in by (auto simp: glyphs_def utext_def)

text \<open>A buffer that holds a text, and what appending a character to it does.\<close>

definition holds :: "byte list \<Rightarrow> nat \<Rightarrow> byte list \<Rightarrow> bool" where
  "holds b n t \<longleftrightarrow> 0 \<notin> set t \<and> length b = n \<and> (\<exists>q. b = t @ 0 # q)"

lemma strcat_holds:
  assumes "holds b n t" "0 \<notin> set u" "length t + length u < n"
  shows "\<exists>b'. strcat b (zstr u) = Ret b' \<and> holds b' n (t @ u)"
proof -
  obtain q where q: "b = t @ 0 # q" "0 \<notin> set t" "length b = n" using assms(1) by (auto simp: holds_def)
  show ?thesis
    using strcat_prefix [of t u q] assms q by (auto simp: holds_def)
qed

lemma strcpy_holds:
  assumes "0 \<notin> set t" "length t < length d"
  shows "\<exists>b. strcpy d (zstr t) = Ret b \<and> holds b (length d) t"
  using strcpy_zstr [OF assms] assms by (simp add: holds_def)

lemma holds_cstr: "holds b n t \<Longrightarrow> cstr b = t"
  by (auto simp: holds_def)

section \<open>The scrolled row\<close>

definition window :: "byte list list \<Rightarrow> int \<Rightarrow> nat \<Rightarrow> byte list list" where
  "window cs x n = map (\<lambda>k. glyph cs (x + int k)) [0..<n]"

lemma window_Suc: "window cs x (Suc n) = glyph cs x # window cs (x + 1) n"
proof -
  have "[0..<Suc n] = 0 # map Suc [0..<n]" by (simp add: upt_conv_Cons map_Suc_upt)
  then show ?thesis by (simp add: window_def o_def add_ac del: upt_Suc)
qed

lemma window_0 [simp]: "window cs x 0 = []"
  by (simp add: window_def)

lemma length_window [simp]: "length (window cs x n) = n"
  by (simp add: window_def)

lemma glyphs_window: "glyphs cs \<Longrightarrow> cs \<noteq> [] \<Longrightarrow> glyphs (window cs x n)"
  using glyph_in [of cs] by (fastforce simp: glyphs_def window_def utext_def)

lemma glyphs_length: "glyphs ds \<Longrightarrow> length (concat ds) \<le> 3 * length ds"
  by (induction ds) auto

lemma glyphs_nz: "glyphs ds \<Longrightarrow> 0 \<notin> set (concat ds)"
  unfolding glyphs_def using utext_nz by blast

lemma lcd_strlen_holds: "holds b n (concat ds) \<Longrightarrow> glyphs ds \<Longrightarrow> lcd_strlen (Some b) = Ret (int (length ds))"
  using lcd_strlen_text by (auto simp: holds_def glyphs_def)

lemma scroll_loop_window:
  assumes "glyphs cs" "cs \<noteq> []" "holds lb 128 (concat ds)" "glyphs ds"
    "length ds + k = W" "3 * W < 128" "k \<le> fuel"
  shows "\<exists>b. scroll_loop fuel (concat cs @ 0 # r) (at cs x) (int W) lb = Ret b
           \<and> holds b 128 (concat (ds @ window cs x k))"
  using assms
proof (induction k arbitrary: fuel x lb ds)
  case 0
  then show ?case by (subst scroll_loop.simps) (simp add: lcd_strlen_holds)
next
  case (Suc k)
  obtain f where f: "fuel = Suc f" "k \<le> f" using Suc.prems(7) by (cases fuel) auto
  have g: "uchar (glyph cs x)" "length (glyph cs x) \<le> 3" using glyph_ok [OF Suc.prems(1,2)] by auto
  have "length (concat ds) + length (glyph cs x) < 128"
    using glyphs_length [OF Suc.prems(4)] g(2) Suc.prems(5,6) by linarith
  then obtain b where b: "strcat lb (zstr (glyph cs x)) = Ret b" "holds b 128 (concat (ds @ [glyph cs x]))"
    using strcat_holds [OF Suc.prems(3) uchar_nz [OF g(1)]] by auto
  have "\<exists>b'. scroll_loop f (concat cs @ 0 # r) (at cs (x + 1)) (int W) b = Ret b'
           \<and> holds b' 128 (concat ((ds @ [glyph cs x]) @ window cs (x + 1) k))"
    by (rule Suc.IH [OF Suc.prems(1,2) b(2)]) (use Suc.prems g f in auto)
  then show ?case
    using Suc.prems f b(1)
    by (subst scroll_loop.simps) (simp add: lcd_strlen_holds char_at next_at window_Suc)
qed

text \<open>C19.
  A row wider than the display is shown from its scroll position on, as many characters as the
  display has columns and round its end, and every call moves the position on by one character:
  the building of the line ends and stays inside its buffer of 128 bytes on displays of up to 42
  columns.
\<close>

theorem scrolled_row_window:
  assumes row: "row \<noteq> NULL" "rows s row = Some r" "row_str r = Some (concat cs @ 0 # q)"
      "row_len r = int (length cs)" "row_scrollpos r = at cs x"
    and cs: "glyphs cs" "W < length cs" "op_width I (hwst s) = int W" "W \<le> 42"
  shows "\<exists>b. lcd_textbuildscrollingline I row s
           = Ret (b, s\<lparr>rows := (rows s)(row \<mapsto> r\<lparr>row_scrollpos := at cs (x + 1)\<rparr>)\<rparr>)
           \<and> cstr b = concat (window cs x W)"
proof -
  have ne: "cs \<noteq> []" using cs(2) by auto
  have lb: "holds (zstr [] @ replicate 127 0) 128 (concat [])" by (simp add: holds_def zstr_def)
  obtain b where b: "scroll_loop 128 (concat cs @ 0 # q) (at cs x) (int W) (zstr [] @ replicate 127 0) = Ret b"
      "holds b 128 (concat (window cs x W))"
    using scroll_loop_window [OF cs(1) ne lb, of W W 128 q x] cs(4) by auto
  have cp: "strcpy linebuf0 (zstr []) = Ret (zstr [] @ replicate 127 0)"
    by (simp add: strcpy_def linebuf0_def SLCD_TEXTBUF_MAXLEN_def zstr_def cstr_def)
  show ?thesis
    using row cs b cp next_at [OF cs(1) ne, of q x] holds_cstr [OF b(2)]
    by (simp add: lcd_textbuildscrollingline_def heap_simps SLCD_TEXTBUF_MAXLEN_def)
qed

lemma short_row:
  assumes "row \<noteq> NULL" "rows s row = Some r" "row_str r = Some (zstr t)" "0 \<notin> set t"
    "row_len r \<le> op_width I (hwst s)" "length t < 128"
  shows "\<exists>b. lcd_textbuildscrollingline I row s = Ret (b, s) \<and> cstr b = t"
proof -
  have "length t < length linebuf0" using assms(6) by (simp add: linebuf0_def SLCD_TEXTBUF_MAXLEN_def)
  from strcpy_holds [OF assms(4) this] obtain b where "strcpy linebuf0 (zstr t) = Ret b" "cstr b = t"
    using holds_cstr by blast
  then show ?thesis using assms by (simp add: lcd_textbuildscrollingline_def heap_simps)
qed

text \<open>
  A row that fits the display is shown as it is, from any scroll position, and nothing scrolls.
\<close>

theorem short_row_unscrolled:
  assumes "row \<noteq> NULL" "rows s row = Some r" "row_str r = Some (zstr t)" "0 \<notin> set t"
    "row_len r \<le> op_width I (hwst s)" "length t < 128"
  shows "\<exists>b. lcd_textbuildscrollingline I row s = Ret (b, s) \<and> cstr b = t"
  by (rule short_row [OF assms])

section \<open>The line of an input screen\<close>

lemma prev_loop_at:
  assumes "glyphs cs" "cs \<noteq> []"
  shows "prev_loop n (concat cs @ 0 # r) (at cs x) = Ret (at cs (x - int n))"
  by (induction n arbitrary: x) (simp_all add: prev_at [OF assms] algebra_simps)

text \<open>The three glyphs of \<open>END\<close> and \<open>DEL\<close> are shown as letters; nothing else changes.\<close>

lemma parsespecial_short: "uchar u \<Longrightarrow> length u \<le> 3 \<Longrightarrow>
    0 \<notin> set (lcd_parsespecial u) \<and> length (lcd_parsespecial u) \<le> 3"
  using uchar_nz by (auto simp: lcd_parsespecial_def)

definition letters :: "byte list list \<Rightarrow> byte list" where
  "letters us = concat (map lcd_parsespecial us)"

lemma letters_short:
  "glyphs us \<Longrightarrow> 0 \<notin> set (letters us) \<and> length (letters us) \<le> 3 * length us"
  by (induction us) (auto simp: letters_def dest: parsespecial_short)

lemma copy_loop_at:
  assumes "glyphs cs" "cs \<noteq> []" "holds lb 128 t" "length t + 3 * n < 128"
  shows "\<exists>b. copy_loop n (concat cs @ 0 # r) (at cs x) lb = Ret (at cs (x + int n), b)
           \<and> holds b 128 (t @ letters (window cs x n))"
  using assms(3,4)
proof (induction n arbitrary: x lb t)
  case (Suc n)
  let ?u = "lcd_parsespecial (glyph cs x)"
  have u: "0 \<notin> set ?u" "length ?u \<le> 3"
    using parsespecial_short glyph_ok [OF assms(1,2)] by auto
  obtain b where b: "strcat lb (zstr ?u) = Ret b" "holds b 128 (t @ ?u)"
    using strcat_holds [OF Suc.prems(1) u(1)] Suc.prems(2) u(2) by auto
  have "\<exists>b'. copy_loop n (concat cs @ 0 # r) (at cs (x + 1)) b = Ret (at cs (x + 1 + int n), b')
           \<and> holds b' 128 ((t @ ?u) @ letters (window cs (x + 1) n))"
    by (rule Suc.IH [OF b(2)]) (use Suc.prems(2) u(2) in auto)
  then show ?case
    using b(1) by (simp add: char_at [OF assms(1,2)] next_at [OF assms(1,2)] window_Suc letters_def algebra_simps)
qed (simp add: letters_def)

text \<open>What stands in the middle, and how many characters of the text it takes up.\<close>

definition marked :: "byte list \<Rightarrow> byte list \<times> int" where
  "marked u = (if u = SLCD_UCHR_END1 then ([32, 69, 78, 68, 32], 3)
               else if u = SLCD_UCHR_DEL1 then ([32, 68, 69, 76, 32], 3)
               else ([32, 60] @ u @ [62, 32], 1))"

lemma lit_bytes: "lit '' <'' = zstr [32, 60]" "lit ''> '' = zstr [62, 32]" "lit '' '' = zstr [32]"
  "lit '' END '' = zstr [32, 69, 78, 68, 32]" "lit '' DEL '' = zstr [32, 68, 69, 76, 32]"
  by (simp_all add: lit_def)

lemma put_selected_at:
  assumes "glyphs cs" "cs \<noteq> []" "holds lb 128 t" "length t + 7 < 128"
  shows "\<exists>b. put_selected (concat cs @ 0 # r) (at cs x) lb
             = Ret (at cs (x + snd (marked (glyph cs x))), b)
           \<and> holds b 128 (t @ fst (marked (glyph cs x)))"
proof -
  let ?u = "glyph cs x"
  have u: "0 \<notin> set ?u" "length ?u \<le> 3"
    using glyph_ok [OF assms(1,2)] uchar_nz by auto
  have n: "lcd_getnextcharacterpos (concat cs @ 0 # r) (at cs y) = Ret (at cs (y + 1))" for y
    by (rule next_at [OF assms(1,2)])
  show ?thesis
  proof (cases "?u = SLCD_UCHR_END1 \<or> ?u = SLCD_UCHR_DEL1")
    case True
    then show ?thesis
      using strcat_holds [OF assms(3), of "fst (marked ?u)"] assms(4) n
      by (auto simp: put_selected_def char_at [OF assms(1,2)] marked_def lit_bytes add.assoc)
  next
    case False
    obtain b1 where b1: "strcat lb (zstr [32, 60]) = Ret b1" "holds b1 128 (t @ [32, 60])"
      using strcat_holds [OF assms(3), of "[32, 60]"] assms(4) by auto
    obtain b2 where b2: "strcat b1 (zstr ?u) = Ret b2" "holds b2 128 (t @ [32, 60] @ ?u)"
      using strcat_holds [OF b1(2) u(1)] assms(4) u(2) by auto
    obtain b3 where b3: "strcat b2 (zstr [62, 32]) = Ret b3" "holds b3 128 (t @ [32, 60] @ ?u @ [62, 32])"
      using strcat_holds [OF b2(2), of "[62, 32]"] assms(4) u(2) by auto
    show ?thesis
      using False b1 b2 b3 n by (simp add: put_selected_def char_at [OF assms(1,2)] marked_def lit_bytes)
  qed
qed

text \<open>
  The top line of an input screen shows the selected character marked in the middle, and on
  either side as many characters of the selection text, taken cyclically, as fit.
\<close>

theorem input_line_centred:
  assumes "glyphs cs" "cs \<noteq> []" "5 \<le> W" "W \<le> 40"
  defines "n \<equiv> (W - 5) div 2"
  shows "\<exists>b. lcd_inputbuildscrollingline (int W) (Some (concat cs @ 0 # r)) (at cs x) = Ret b
           \<and> cstr b = letters (window cs (x - int n) n) @ fst (marked (glyph cs x))
                  @ letters (window cs (x + snd (marked (glyph cs x))) n) @ (if even W then [32] else [])"
proof -
  have pre: "(int W - 5) sdiv 2 = int n"
    using assms(3) by (cases "W = 5") (simp_all add: n_def signed_divide_int_def zdiv_int of_nat_diff)
  have W: "W = 2 * n + (if even W then 6 else 5)"
    using assms(3) unfolding n_def by (cases "even W") (auto elim!: evenE oddE)
  have n: "n \<le> 17" using assms(4) n_def by auto
  have lb: "holds (zstr [] @ replicate 127 0) 128 []" by (simp add: holds_def zstr_def)
  have cp: "strcpy linebuf0 (zstr []) = Ret (zstr [] @ replicate 127 0)"
    by (simp add: strcpy_def linebuf0_def SLCD_TEXTBUF_MAXLEN_def zstr_def cstr_def)
  let ?pre = "letters (window cs (x - int n) n)" and ?m = "marked (glyph cs x)"
  let ?post = "letters (window cs (x + snd ?m) n)"
  have short: "length (letters (window cs y n)) \<le> 51" "0 \<notin> set (letters (window cs y n))" for y
    using letters_short [OF glyphs_window [OF assms(1,2)], of y n] n by auto
  have m: "length (fst ?m) \<le> 7"
    using glyph_ok [OF assms(1,2), of x] by (auto simp: marked_def)
  obtain b1 where b1: "copy_loop n (concat cs @ 0 # r) (at cs (x - int n)) (zstr [] @ replicate 127 0)
      = Ret (at cs x, b1)" "holds b1 128 ?pre"
    using copy_loop_at [OF assms(1,2) lb, of n r "x - int n"] n by auto
  obtain b2 where b2: "put_selected (concat cs @ 0 # r) (at cs x) b1 = Ret (at cs (x + snd ?m), b2)"
      "holds b2 128 (?pre @ fst ?m)"
    using put_selected_at [OF assms(1,2) b1(2)] short(1) [of "x - int n"] by fastforce
  have "length (?pre @ fst ?m) + 3 * n < 128" using short(1) [of "x - int n"] m n by auto
  then obtain p b3 where b3: "copy_loop n (concat cs @ 0 # r) (at cs (x + snd ?m)) b2 = Ret (p, b3)"
      "holds b3 128 (?pre @ fst ?m @ ?post)"
    using copy_loop_at [OF assms(1,2) b2(2)] by fastforce
  have "length (?pre @ fst ?m @ ?post) + length [32 :: byte] < 128"
    using short(1) [of "x - int n"] short(1) [of "x + snd ?m"] m by auto
  then obtain b4 where b4: "strcat b3 (zstr [32]) = Ret b4" "holds b4 128 (?pre @ fst ?m @ ?post @ [32])"
    using strcat_holds [OF b3(2), of "[32]"] by auto
  have ev: "int W \<noteq> int n + 5 + int n \<longleftrightarrow> even W" using W by (cases "even W") presburger+
  show ?thesis
    using pre cp prev_loop_at [OF assms(1,2)] b1(1) b2(1) b3(1) b4(1) ev
      holds_cstr [OF b3(2)] holds_cstr [OF b4(2)]
    by (cases "even W") (simp_all add: lcd_inputbuildscrollingline_def Let_def lit_bytes)
qed

section \<open>Witnesses\<close>

text \<open>The five characters \<open>a\<close>, \<open>e\<close> with an acute accent, \<open>c\<close>, the play arrow and \<open>d\<close>.\<close>

definition demo_text :: "byte list list" where
  "demo_text = [[97], [0xc3, 0xa9], [99], SLCD_UCHR_RIGHT, [100]]"

lemma demo_text_glyphs: "glyphs demo_text"
  by (simp add: demo_text_def SLCD_UCHR_RIGHT_def cont_def lead_def)

definition demo_scroll :: "nat lcdst" where
  "demo_scroll = demo_state [3 \<mapsto> (demo_row 3 3 (concat demo_text) 1)\<lparr>row_len := 5, row_scrollpos := 1\<rparr>]
                   (init_handle 4) 4"

theorem scrolled_row_window_witness:
  "\<exists>b s'. lcd_textbuildscrollingline demo_ops 3 demo_scroll = Ret (b, s')
     \<and> cstr b = [0xc3, 0xa9, 99, 0xee, 0x80, 0x89, 100]"
proof -
  have at1: "at demo_text 1 = 1"
    by (simp add: at_def idx_def offs_def demo_text_def)
  have row: "rows demo_scroll 3 = Some ((demo_row 3 3 (concat demo_text) 1)\<lparr>row_len := 5, row_scrollpos := 1\<rparr>)"
    "row_str ((demo_row 3 3 (concat demo_text) 1)\<lparr>row_len := 5, row_scrollpos := 1\<rparr>) = Some (concat demo_text @ 0 # [])"
    by (simp_all add: demo_scroll_def demo_state_def demo_row_def zstr_def)
  have win: "window demo_text 1 4 = [[0xc3, 0xa9], [99], SLCD_UCHR_RIGHT, [100]]"
    by (simp add: window_def glyph_def idx_def demo_text_def upt_rec)
  show ?thesis
    using scrolled_row_window [of 3 demo_scroll, OF _ row _ _ demo_text_glyphs, of 1 4 demo_ops] win at1
    by (simp add: demo_scroll_def demo_state_def demo_ops_def demo_text_def SLCD_UCHR_RIGHT_def) blast
qed

theorem short_row_unscrolled_witness:
  "\<exists>b. lcd_textbuildscrollingline demo_ops 3 (demo_state [3 \<mapsto> demo_row 3 3 [72, 105] 1] (init_handle 4) 4)
     = Ret (b, demo_state [3 \<mapsto> demo_row 3 3 [72, 105] 1] (init_handle 4) 4) \<and> cstr b = [72, 105]"
  by (rule short_row_unscrolled [of _ _ "demo_row 3 3 [72, 105] 1"])
     (simp_all add: demo_state_def demo_row_def demo_ops_def)

text \<open>On ten columns, with \<open>a\<close> selected: the play arrow and \<open>d\<close> stand before it.\<close>

theorem input_line_centred_witness:
  "\<exists>b. lcd_inputbuildscrollingline 10 (Some (concat demo_text @ [0])) 0 = Ret b
     \<and> cstr b = [0xee, 0x80, 0x89, 100, 32, 60, 97, 62, 32, 0xc3, 0xa9, 99, 32]"
proof -
  have at0: "at demo_text 0 = 0"
    by (simp add: at_def idx_def)
  have w: "letters (window demo_text (- 2) 2) @ fst (marked (glyph demo_text 0))
      @ letters (window demo_text (0 + snd (marked (glyph demo_text 0))) 2) @ [32]
      = [0xee, 0x80, 0x89, 100, 32, 60, 97, 62, 32, 0xc3, 0xa9, 99, 32]"
    by (simp add: window_def glyph_def idx_def demo_text_def upt_rec marked_def letters_def
          lcd_parsespecial_def uchr_defs)
  have ne: "demo_text \<noteq> []" by (simp add: demo_text_def)
  have n: "(10 - 5) div 2 = (2 :: nat)" "int 10 = 10" "(0 :: int) - int 2 = - 2" "even (10 :: nat)"
    by simp_all
  have "5 \<le> (10 :: nat)" "(10 :: nat) \<le> 40" by simp_all
  note * = input_line_centred [OF demo_text_glyphs ne this, of "[]" 0, unfolded n at0]
  show ?thesis using * w by (simp only: if_True n)
qed

end
