(* ===== verification/Lcd_Frame.thy ===== *)
theory Lcd_Frame
  imports Menu_Props Lcd_Scroll
begin

text \<open>
  Frames of \<^verbatim>\<open>src/libreciva/src/lcd/lcd.c\<close>: a menu with one row for each line of the display,
  whose texts are set by line number, the progress bar and the status line.  The text
  \<^verbatim>\<open>vsnprintf\<close> produces is a parameter of the two \<open>printf\<close> functions.
\<close>

section \<open>The operations\<close>

text \<open>
  \<open>for (p=handle->top; p!=handle->end && p->idnumber!=line; p=p->next) ;\<close>.  A ring has at most
  as many rows as were allocated, so the fuel is the number of allocations.
\<close>

fun find_line :: "nat \<Rightarrow> ptr \<Rightarrow> ptr \<Rightarrow> int \<Rightarrow> 'hw lcdst \<Rightarrow> ptr res" where
  "find_line 0 p last_row line s = Diverge"
| "find_line (Suc n) p last_row line s =
     (if p = last_row then Ret p
      else res_bind (ld_row p s) (\<lambda>r.
           if row_idnumber r \<noteq> line then find_line n (row_next r) last_row line s else Ret p))"

definition lcd_framesetline ::
  "ptr \<Rightarrow> int \<Rightarrow> byte list option \<Rightarrow> 'hw lcdst \<Rightarrow> (bool \<times> 'hw lcdst) res" where
  "lcd_framesetline handle line str s =
     (if handle = NULL \<or> str = None then Exit
      else res_bind (ld_h handle s) (\<lambda>h.
        if h_top h = NULL then Ret (False, s)
        else res_bind (find_line (Suc (nalloc s)) (h_top h) (h_end h) line s) (\<lambda>p.
             res_bind (ld_row p s) (\<lambda>r.
             if row_idnumber r \<noteq> line then Ret (False, s)
             else res_bind (ld_str str) (\<lambda>b.
                  res_bind (strlen b) (\<lambda>_.
                  let (copy, s) = lcd_malloc s
                  in if copy = NULL then Exit
                     else res_bind (lcd_strlen (Some (zstr (cstr b)))) (\<lambda>len.
                          res_bind (st_row p (\<lambda>r. r\<lparr>row_str := Some (zstr (cstr b)),
                                                  row_scrollpos := 0, row_len := len\<rparr>) s) (\<lambda>s.
                          Ret (True, s)))))))))"

fun add_blank_rows :: "nat \<Rightarrow> int \<Rightarrow> ptr \<Rightarrow> 'hw lcdst \<Rightarrow> (bool \<times> 'hw lcdst) res" where
  "add_blank_rows 0 r h s = Ret (True, s)"
| "add_blank_rows (Suc n) r h s =
     res_bind (lcd_menuaddentry h r (Some (zstr [])) SLCD_NOTSELECTED s) (\<lambda>(ok, s).
       if ok then add_blank_rows n (r + 1) h s else Ret (False, s))"

definition lcd_framecreate :: "'hw lcdhw_ops \<Rightarrow> 'hw lcdst \<Rightarrow> (ptr \<times> 'hw lcdst) res" where
  "lcd_framecreate I s =
     res_bind (lcd_menucreate I s) (\<lambda>(h, s).
       if h = NULL then Ret (NULL, s)
       else res_bind (st_h h (\<lambda>x. x\<lparr>h_type := SLCD_FRAME\<rparr>) s) (\<lambda>s.
            res_bind (add_blank_rows (nat (op_height I (hwst s))) 0 h s) (\<lambda>(ok, s).
            if ok then Ret (h, s) else res_bind (lcd_delete h s) (\<lambda>s. Ret (NULL, s)))))"

definition SLCD_PRINTF_BUFSIZE :: nat where "SLCD_PRINTF_BUFSIZE = 256"

definition lcd_frameprintf ::
  "ptr \<Rightarrow> int \<Rightarrow> byte list option \<Rightarrow> 'hw lcdst \<Rightarrow> (bool \<times> 'hw lcdst) res" where
  "lcd_frameprintf handle line fmt s =
     (if handle = NULL \<or> fmt = None then Ret (False, s)
      else if length (the fmt) \<ge> SLCD_PRINTF_BUFSIZE then Ret (False, s)
      else lcd_framesetline handle line (Some (zstr (the fmt))) s)"

text \<open>The two loops of the progress bar.\<close>

function bar_loop :: "int \<Rightarrow> int \<Rightarrow> byte list \<Rightarrow> byte list \<Rightarrow> (int \<times> byte list) res" where
  "bar_loop i l whole lb =
     (if i < l - 2 then res_bind (strcat lb (zstr whole)) (\<lambda>lb. bar_loop (i + 2) l whole lb)
      else Ret (i, lb))"
  by pat_completeness auto
termination by (relation "measure (\<lambda>(i, l, whole, lb). nat (l - i))") auto

declare bar_loop.simps [simp del]

text \<open>
  \<open>while (lcd_strlen(handle->linebuf)<(lcd_width()-1)) strcat(handle->linebuf," ")\<close>: every
  round appends a byte, so the size of the buffer is fuel enough.
\<close>

fun pad_loop :: "nat \<Rightarrow> int \<Rightarrow> byte list \<Rightarrow> byte list res" where
  "pad_loop fuel n lb =
     res_bind (lcd_strlen (Some lb)) (\<lambda>k.
       if k < n
       then (case fuel of 0 \<Rightarrow> Diverge
             | Suc f \<Rightarrow> res_bind (strcat lb (lit '' '')) (\<lambda>lb. pad_loop f n lb))
       else Ret lb)"

declare pad_loop.simps [simp del]

definition bar_text :: "int \<Rightarrow> int \<Rightarrow> slcd_e_bartype \<Rightarrow> byte list \<Rightarrow> byte list res" where
  "bar_text width l type lb =
     (let half = (if type = SLCD_BARROWS then [0x20] else SLCD_UCHR_VOL1);
          whole = (if type = SLCD_BARROWS then SLCD_UCHR_RIGHT else SLCD_UCHR_VOL2)
      in res_bind (strcpy lb (lit ''|'')) (\<lambda>lb.
         res_bind (bar_loop 0 l whole lb) (\<lambda>(i, lb).
         res_bind (if i = 0 then Ret lb
                   else if i = l - 1 then strcat lb (zstr half)
                   else if i = l - 2 then strcat lb (zstr whole)
                   else Ret lb) (\<lambda>lb.
         res_bind (pad_loop (length lb) (width - 1) lb) (\<lambda>lb.
         strcat lb (lit ''|''))))))"

definition lcd_framebar ::
  "'hw lcdhw_ops \<Rightarrow> ptr \<Rightarrow> int \<Rightarrow> int \<Rightarrow> int \<Rightarrow> int \<Rightarrow> slcd_e_bartype \<Rightarrow> 'hw lcdst
   \<Rightarrow> (bool \<times> 'hw lcdst) res" where
  "lcd_framebar I handle line lo hi progress type s =
     (if handle = NULL then Exit
      else res_bind (ld_h handle s) (\<lambda>h.
        case h_linebuf h of
          None \<Rightarrow> Exit
        | Some lb \<Rightarrow>
            let progress = (if progress < lo then lo else progress);
                progress = (if progress > hi then hi else progress);
                width = op_width I (hwst s)
            in if hi - lo = 0 then Fault
               else let l = ((width - 2) * 2 * (progress - lo)) sdiv (hi - lo)
                    in res_bind (bar_text width l type lb) (\<lambda>lb.
                       res_bind (st_h handle (\<lambda>h. h\<lparr>h_linebuf := Some lb\<rparr>) s) (\<lambda>s.
                       lcd_framesetline handle line (Some lb) s))))"

definition lcd_framestatus :: "ptr \<Rightarrow> int \<Rightarrow> bool \<Rightarrow> 'hw lcdst \<Rightarrow> (bool \<times> 'hw lcdst) res" where
  "lcd_framestatus handle line showicons s =
     (if handle = NULL then Exit
      else res_bind (st_h handle (\<lambda>h. h\<lparr>h_statusrow := line, h_showicons := showicons\<rparr>) s) (\<lambda>s.
           Ret (True, s)))"

section \<open>Setting a line\<close>

fun set_first :: "int \<Rightarrow> 'b \<Rightarrow> (int \<times> 'b) list \<Rightarrow> (int \<times> 'b) list" where
  "set_first l t [] = []"
| "set_first l t ((i, u) # xs) = (if i = l then (i, t) # xs else (i, u) # set_first l t xs)"

lemma set_first_nth:
  "k < length xs \<Longrightarrow> fst (xs ! k) = l \<Longrightarrow> \<forall>j<k. fst (xs ! j) \<noteq> l \<Longrightarrow>
   set_first l t xs = xs[k := (l, t)]"
proof (induction xs arbitrary: k)
  case (Cons x xs)
  obtain i u where x: "x = (i, u)" by (cases x) auto
  show ?case
  proof (cases k)
    case 0
    then show ?thesis using Cons.prems x by simp
  next
    case (Suc k')
    have "set_first l t xs = xs[k' := (l, t)]"
      by (rule Cons.IH) (use Cons.prems Suc in auto)
    moreover have "i \<noteq> l" using Cons.prems(3) Suc x by auto
    ultimately show ?thesis using Suc x by simp
  qed
qed simp

lemma set_first_other: "l \<notin> fst ` set xs \<Longrightarrow> set_first l t xs = xs"
  by (induction xs) auto

lemma first_index:
  assumes "l \<in> fst ` set xs"
  obtains k where "k < length xs" "fst (xs ! k) = l" "\<forall>j<k. fst (xs ! j) \<noteq> l"
proof -
  have "\<exists>k. k < length xs \<and> fst (xs ! k) = l"
    using assms by (auto simp: in_set_conv_nth) (metis fst_conv)
  from LeastI_ex [OF this] not_less_Least show ?thesis
    by (intro that [of "LEAST k. k < length xs \<and> fst (xs ! k) = l"]) (auto dest: order.strict_trans)
qed

lemma find_line_index:
  assumes "menu_rep s hp as m" "k < length as" "i \<le> k" "k - i < n"
    "\<forall>j. i \<le> j \<and> j < k \<longrightarrow> fst (m_items m ! j) \<noteq> line" "fst (m_items m ! k) = line \<or> Suc k = length as"
  shows "find_line n (as ! i) (last as) line s = Ret (as ! k)"
  using assms(3-5)
proof (induction "k - i" arbitrary: i n)
  case 0
  then have i: "i = k" by simp
  obtain r where r: "rows s (as ! k) = Some r" "m_items m ! k = row_item r"
    using menu_rep_row [OF assms(1,2)] by metis
  obtain f where f: "n = Suc f" using 0 by (cases n) auto
  show ?case
  proof (cases "Suc k = length as")
    case True
    moreover have "as \<noteq> []" using assms(2) by auto
    ultimately have "last as = as ! k" by (simp add: last_conv_nth flip: True)
    then show ?thesis by (simp add: f i)
  next
    case False
    then show ?thesis using assms(6) r by (simp add: f i heap_simps row_item_def)
  qed
next
  case (Suc d)
  then obtain f where f: "n = Suc f" by (cases n) auto
  have i: "i < length as" "i < k" using Suc.hyps(2) assms(2) by auto
  obtain r where r: "rows s (as ! i) = Some r" "m_items m ! i = row_item r"
      "row_next r = as ! (Suc i mod length as)"
    using menu_rep_row [OF assms(1) i(1)] by metis
  have "ring (rows s) as" using assms(1) by (simp add: menu_rep_def)
  then have "as ! i \<noteq> last as"
    using ring_nth_eq_iff [of "rows s" as i "length as - 1"] i assms(2)
    by (subst last_conv_nth) auto
  moreover have "row_next r = as ! Suc i" using r(3) i assms(2) by simp
  moreover have "row_idnumber r \<noteq> line" using Suc.prems(3) i r(2) by (auto simp: row_item_def)
  moreover have "find_line f (as ! Suc i) (last as) line s = Ret (as ! k)"
    by (rule Suc.hyps(1)) (use Suc.hyps(2) Suc.prems f i in auto)
  ultimately show ?case using r(1) f by (simp add: heap_simps)
qed

lemma menu_rep_set_row:
  assumes "menu_rep s hp as m" "k < length as" "rows s (as ! k) = Some r"
    "rows s' = (rows s)(as ! k \<mapsto> r')" "row_next r' = row_next r" "row_prev r' = row_prev r" "row_ok r'"
    "handles s' = handles s" "nalloc s \<le> nalloc s'"
  shows "menu_rep s' hp as (m\<lparr>m_items := (m_items m)[k := row_item r']\<rparr>)"
proof -
  have R: "ring (rows s) as" using assms(1) by (simp add: menu_rep_def)
  have "ring (rows s') as"
    by (rule ring_cong_imp [OF R]) (use assms ringD(3) [OF R] in \<open>auto simp: nxt_def prv_def\<close>)
  moreover have "map (\<lambda>a. row_item (the (rows s' a))) as = (m_items m)[k := row_item r']"
    using assms R by (intro nth_equalityI) (auto simp: menu_rep_def nth_list_update ring_nth_eq_iff)
  moreover have "\<forall>a\<in>set as. a \<le> nalloc s' \<and> row_ok (the (rows s' a))"
    using assms by (fastforce simp: menu_rep_def)
  ultimately show ?thesis using assms(1,8) by (simp add: menu_rep_def)
qed

lemma framesetline_rep:
  assumes rep: "menu_rep s hp as m" and line: "line \<in> fst ` set (m_items m)"
    and b: "0 \<in> set b" "\<not> oom s (nalloc s)"
  shows "\<exists>s'. lcd_framesetline hp line (Some b) s = Ret (True, s')
           \<and> menu_rep s' hp as (m\<lparr>m_items := set_first line (cstr b) (m_items m)\<rparr>)"
proof -
  obtain h where h: "hp \<noteq> NULL" "handles s hp = Some h" "ring (rows s) as"
      "h_points h as (m_sel m) (m_top m)" and n: "m_size m = length as"
    using menu_repE [OF rep] by metis
  obtain k where k: "k < length as" "fst (m_items m ! k) = line" "\<forall>j<k. fst (m_items m ! j) \<noteq> line"
    using first_index [OF line] n by metis
  have ne: "as \<noteq> []" using k by auto
  have hh: "h_top h = as ! 0" "h_end h = last as" "as ! 0 \<noteq> NULL"
    using h(4) ne menu_rep_row [OF rep, of 0] by (auto simp: h_points_def hd_conv_nth)
  obtain r where r: "rows s (as ! k) = Some r" "m_items m ! k = row_item r"
    using menu_rep_row [OF rep k(1)] by metis
  have find: "find_line (Suc (nalloc s)) (as ! 0) (last as) line s = Ret (as ! k)"
    by (rule find_line_index [OF rep k(1)]) (use k menu_rep_bounded [OF rep] in auto)
  obtain len where len: "lcd_strlen (Some (zstr (cstr b))) = Ret len"
    using lcd_strlen_terminates [of "zstr (cstr b)"] by auto
  let ?r = "r\<lparr>row_str := Some (zstr (cstr b)), row_scrollpos := 0, row_len := len\<rparr>"
  let ?s' = "s\<lparr>nalloc := Suc (nalloc s), rows := (rows s)(as ! k \<mapsto> ?r)\<rparr>"
  have run: "lcd_framesetline hp line (Some b) s = Ret (True, ?s')"
    using h hh r k(2) b len find
    by (simp add: lcd_framesetline_def heap_simps row_item_def strlen_def lcd_malloc_def Let_def
          del: find_line.simps)
  have rep': "menu_rep ?s' hp as (m\<lparr>m_items := (m_items m)[k := row_item ?r]\<rparr>)"
    by (rule menu_rep_set_row [OF rep k(1) r(1)]) (simp_all add: row_ok_def)
  have item: "row_item ?r = (line, cstr b)" using r(2) k(2) by (simp add: row_item_def)
  have "set_first line (cstr b) (m_items m) = (m_items m)[k := (line, cstr b)]"
    by (rule set_first_nth) (use k n in auto)
  then show ?thesis unfolding run using rep' item by (intro exI [of _ ?s']) simp
qed

lemma framesetline_unknown:
  assumes rep: "menu_rep s hp as m" and line: "line \<notin> fst ` set (m_items m)"
  shows "lcd_framesetline hp line (Some b) s = Ret (False, s)"
proof -
  obtain h where h: "hp \<noteq> NULL" "handles s hp = Some h" "ring (rows s) as"
      "h_points h as (m_sel m) (m_top m)" and n: "m_size m = length as"
    using menu_repE [OF rep] by metis
  show ?thesis
  proof (cases "as = []")
    case True
    then show ?thesis using h by (simp add: lcd_framesetline_def heap_simps h_points_def)
  next
    case False
    let ?k = "length as - 1"
    have k: "?k < length as" using False by simp
    have ids: "fst (m_items m ! j) \<noteq> line" if "j < length as" for j
      using line n that by (metis image_eqI nth_mem)
    have hh: "h_top h = as ! 0" "h_end h = last as" "as ! 0 \<noteq> NULL"
      using h(4) False menu_rep_row [OF rep, of 0] by (auto simp: h_points_def hd_conv_nth)
    obtain r where r: "rows s (as ! ?k) = Some r" "m_items m ! ?k = row_item r"
      using menu_rep_row [OF rep k] by metis
    have find: "find_line (Suc (nalloc s)) (as ! 0) (last as) line s = Ret (as ! ?k)"
      by (rule find_line_index [OF rep k]) (use k ids menu_rep_bounded [OF rep] False in auto)
    have "row_idnumber r \<noteq> line" using ids [OF k] r(2) by (simp add: row_item_def)
    then show ?thesis
      using h hh r find by (simp add: lcd_framesetline_def heap_simps del: find_line.simps)
  qed
qed

text \<open>
  Setting a line replaces the text of the first row with that number and of no other row,
  copying the string, while the pointers into the list stay as they are; a line the screen does
  not have is refused and changes nothing.  The search returns although the list is circular.
\<close>

theorem framesetline_sets:
  assumes "menu_rep s hp as m" "0 \<in> set b" "\<not> oom s (nalloc s)"
  shows "\<exists>s'. lcd_framesetline hp line (Some b) s = Ret (line \<in> fst ` set (m_items m), s')
           \<and> menu_rep s' hp as (m\<lparr>m_items := set_first line (cstr b) (m_items m)\<rparr>)
           \<and> (line \<notin> fst ` set (m_items m) \<longrightarrow> s' = s)"
proof (cases "line \<in> fst ` set (m_items m)")
  case False
  then have "set_first line (cstr b) (m_items m) = m_items m" by (rule set_first_other)
  then show ?thesis using False framesetline_unknown [OF assms(1) False] assms(1) by simp
qed (use framesetline_rep [OF assms(1) _ assms(2,3)] in auto)

section \<open>Creating a frame\<close>

text \<open>What the list operations leave alone: the display, the memory oracle and the screen's kind.\<close>

definition same_screen :: "ptr \<Rightarrow> 'hw lcdst \<Rightarrow> 'hw lcdst \<Rightarrow> bool" where
  "same_screen hp s s' \<longleftrightarrow>
     hwst s' = hwst s \<and> oom s' = oom s \<and> bufs s' = bufs s \<and> currentscreen s' = currentscreen s
     \<and> map_option (\<lambda>h. (h_type h, h_linebuf h, h_inputselectedopt h)) (handles s' hp)
       = map_option (\<lambda>h. (h_type h, h_linebuf h, h_inputselectedopt h)) (handles s hp)"

lemma same_screen_refl: "same_screen hp s s"
  by (simp add: same_screen_def)

lemma same_screen_trans: "same_screen hp s s1 \<Longrightarrow> same_screen hp s1 s2 \<Longrightarrow> same_screen hp s s2"
  by (simp add: same_screen_def)

lemma same_screen_st_row: "st_row p f s = Ret s' \<Longrightarrow> same_screen hp s s'"
  by (auto simp: st_row_def same_screen_def split: option.splits)

lemma same_screen_st_h:
  "st_h p f s = Ret s' \<Longrightarrow> (\<And>h. h_type (f h) = h_type h \<and> h_linebuf (f h) = h_linebuf h
        \<and> h_inputselectedopt (f h) = h_inputselectedopt h) \<Longrightarrow>
   same_screen hp s s'"
  by (auto simp: st_h_def same_screen_def split: option.splits)

lemma same_screen_malloc: "lcd_malloc s = (p, s') \<Longrightarrow> same_screen hp s s'"
  by (auto simp: lcd_malloc_def same_screen_def)

lemma same_screen_rows: "same_screen hp s (s\<lparr>rows := R\<rparr>)"
  by (simp add: same_screen_def)

lemma same_screen_st_h_dest:
  "st_h p f s = Ret s' \<Longrightarrow>
   (\<forall>h. h_type (f h) = h_type h \<and> h_linebuf (f h) = h_linebuf h
        \<and> h_inputselectedopt (f h) = h_inputselectedopt h) \<longrightarrow> same_screen hp s s'"
  using same_screen_st_h by blast

lemmas same_screen_dests =
  same_screen_st_row [where hp = hp] same_screen_st_h_dest [where hp = hp] for hp

lemma same_screen_link:
  assumes "link_row hp row s = Ret s'" shows "same_screen hp s s'"
  using assms unfolding link_row_def
  by (auto simp: res_bind_Ret_iff split: if_splits dest!: same_screen_dests [of _ _ _ _ hp]
           intro: same_screen_trans) (meson same_screen_trans)

lemma menuaddentry_same:
  assumes "lcd_menuaddentry hp i str sel s = Ret (ok, s')" shows "same_screen hp s s'"
proof (cases "hp = NULL \<or> str = None")
  case False
  obtain r1 s1 where 1: "lcd_malloc s = (r1, s1)" by fastforce
  obtain r2 s2 where 2: "lcd_malloc s1 = (r2, s2)" by fastforce
  from assms False obtain R s3 s4 where
      3: "link_row hp r1 (s2\<lparr>rows := R\<rparr>) = Ret s3"
    and 4: "s4 = s3 \<or> st_h hp (\<lambda>h. h\<lparr>h_curl := r1, h_tsc := r1\<rparr>) s3 = Ret s4"
    and 5: "st_h hp (\<lambda>h. h\<lparr>h_numrows := h_numrows h + 1\<rparr>) s4 = Ret s'"
    by (auto simp: lcd_menuaddentry_def 1 2 Let_def res_bind_Ret_iff split: if_splits)
  have "same_screen hp s s2" using 1 2 same_screen_malloc same_screen_trans by blast
  moreover have "same_screen hp s2 s3" using same_screen_link [OF 3] by (simp add: same_screen_def)
  moreover have "same_screen hp s3 s4" using 4 same_screen_refl same_screen_st_h_dest by fastforce
  moreover have "same_screen hp s4 s'" using same_screen_st_h_dest [OF 5] by simp
  ultimately show ?thesis using same_screen_trans by blast
qed (use assms in \<open>auto simp: lcd_menuaddentry_def same_screen_refl\<close>)

text \<open>The blank rows numbered from \<open>r\<close> on are appended one by one.\<close>

lemma add_blank_rows_appends:
  assumes "menu_rep s hp as m" "\<forall>n. \<not> oom s n" "m_items m \<noteq> [] \<or> m_sel m = 0 \<and> m_top m = 0"
  shows "\<exists>s' as'. add_blank_rows n r hp s = Ret (True, s') \<and> menu_rep s' hp as'
           (m\<lparr>m_items := m_items m @ map (\<lambda>k. (r + int k, [])) [0..<n]\<rparr>) \<and> same_screen hp s s'"
  using assms
proof (induction n arbitrary: s as m r)
  case 0
  then show ?case by (auto simp: same_screen_refl)
next
  case (Suc n)
  have b: "0 \<in> set (zstr [])" by simp
  obtain s1 where s1: "lcd_menuaddentry hp r (Some (zstr [])) SLCD_NOTSELECTED s = Ret (True, s1)"
      "menu_rep s1 hp (as @ [Suc (nalloc s)]) (m_add r (cstr (zstr [])) False m)"
    using menuaddentry_rep [OF Suc.prems(1) b, of r SLCD_NOTSELECTED] Suc.prems(2) by auto
  have add: "m_add r (cstr (zstr [])) False m = m\<lparr>m_items := m_items m @ [(r, [])]\<rparr>"
    using Suc.prems(3) by (auto simp: m_add_def)
  have same: "same_screen hp s s1" by (rule menuaddentry_same [OF s1(1)])
  have oom1: "\<forall>n. \<not> oom s1 n" using same Suc.prems(2) by (simp add: same_screen_def)
  let ?m = "m\<lparr>m_items := m_items m @ [(r, [])]\<rparr>"
  obtain s2 as2 where s2: "add_blank_rows n (r + 1) hp s1 = Ret (True, s2)" "same_screen hp s1 s2"
      "menu_rep s2 hp as2 (?m\<lparr>m_items := m_items ?m @ map (\<lambda>k. (r + 1 + int k, [])) [0..<n]\<rparr>)"
    using Suc.IH [OF s1(2) [unfolded add], of "r + 1"] Suc.prems(2) oom1 by auto
  have "[0..<Suc n] = 0 # map Suc [0..<n]" by (simp add: upt_conv_Cons map_Suc_upt)
  then have "m_items ?m @ map (\<lambda>k. (r + 1 + int k, [])) [0..<n]
      = m_items m @ map (\<lambda>k. (r + int k, [])) [0..<Suc n]"
    by (simp add: o_def add_ac del: upt_Suc)
  then show ?case
    using s1(1) s2 same_screen_trans [OF same s2(2)] by auto
qed

lemma framecreate_rep:
  assumes "\<forall>n. \<not> oom s n" "op_height I (hwst s) = int H"
  shows "\<exists>s' as h. lcd_framecreate I s = Ret (Suc (nalloc s), s')
           \<and> menu_rep s' (Suc (nalloc s)) as
               \<lparr>m_items = map (\<lambda>k. (int k, [])) [0..<H], m_sel = 0, m_top = 0\<rparr>
           \<and> handles s' (Suc (nalloc s)) = Some h \<and> h_type h = SLCD_FRAME
           \<and> h_linebuf h = Some (replicate (nat (op_width I (hwst s) * 3 + 1)) 0)
           \<and> h_inputselectedopt h = 0 \<and> hwst s' = hwst s \<and> bufs s' = bufs s \<and> oom s' = oom s"
proof -
  let ?hp = "Suc (nalloc s)" and ?h = "(init_handle (op_width I (hwst s)))\<lparr>h_type := SLCD_FRAME\<rparr>"
  let ?s1 = "s\<lparr>nalloc := Suc (Suc (nalloc s)), handles := (handles s)(?hp \<mapsto> ?h)\<rparr>"
  have rep: "menu_rep ?s1 ?hp [] \<lparr>m_items = [], m_sel = 0, m_top = 0\<rparr>"
    by (simp add: menu_rep_def ring_def h_points_def init_handle_def)
  obtain s2 as where s2: "add_blank_rows H 0 ?hp ?s1 = Ret (True, s2)" "same_screen ?hp ?s1 s2"
      "menu_rep s2 ?hp as \<lparr>m_items = map (\<lambda>k. (int k, [])) [0..<H], m_sel = 0, m_top = 0\<rparr>"
    using add_blank_rows_appends [OF rep, of H 0] assms(1) by auto
  have "lcd_framecreate I s = Ret (?hp, s2)"
    using assms s2(1) by (simp add: lcd_framecreate_def lcd_menucreate_def lcd_malloc_def heap_simps)
  moreover obtain h where "handles s2 ?hp = Some h" "h_type h = h_type ?h" "h_linebuf h = h_linebuf ?h"
      "h_inputselectedopt h = h_inputselectedopt ?h" "hwst s2 = hwst s" "bufs s2 = bufs s" "oom s2 = oom s"
    using s2(2) by (auto simp: same_screen_def)
  ultimately show ?thesis using s2(3) by (auto simp: init_handle_def)
qed

text \<open>
  A new frame has one empty row for each line of the display, numbered from 0, on a fresh
  handle; with enough memory its creation always succeeds.
\<close>

theorem framecreate_lines:
  assumes "\<forall>n. \<not> oom s n" "op_height I (hwst s) = int H"
  shows "\<exists>s' as h. lcd_framecreate I s = Ret (Suc (nalloc s), s')
           \<and> menu_rep s' (Suc (nalloc s)) as
               \<lparr>m_items = map (\<lambda>k. (int k, [])) [0..<H], m_sel = 0, m_top = 0\<rparr>
           \<and> handles s' (Suc (nalloc s)) = Some h \<and> h_type h = SLCD_FRAME
           \<and> h_linebuf h = Some (replicate (nat (op_width I (hwst s) * 3 + 1)) 0)"
  using framecreate_rep [OF assms] by blast

section \<open>The progress bar\<close>

lemma bar_loop_runs:
  assumes "holds lb N t" "0 \<notin> set w" "length t + n * length w < N"
    "l - 2 \<le> i + 2 * int n" "n = 0 \<or> i + 2 * int n - 2 < l - 2"
  shows "\<exists>b. bar_loop i l w lb = Ret (i + 2 * int n, b) \<and> holds b N (t @ concat (replicate n w))"
  using assms
proof (induction n arbitrary: i lb t)
  case 0
  then show ?case by (subst bar_loop.simps) simp
next
  case (Suc n)
  obtain b where b: "strcat lb (zstr w) = Ret b" "holds b N (t @ w)"
    using strcat_holds [OF Suc.prems(1,2)] Suc.prems(3) by auto
  have "\<exists>b'. bar_loop (i + 2) l w b = Ret (i + 2 + 2 * int n, b')
      \<and> holds b' N ((t @ w) @ concat (replicate n w))"
    by (rule Suc.IH [OF b(2)]) (use Suc.prems in auto)
  then show ?case using b(1) Suc.prems(5) by (subst bar_loop.simps) (simp add: algebra_simps)
qed

lemma pad_loop_runs:
  assumes "holds lb N (concat ds)" "glyphs ds" "length (concat ds) + k < N" "k \<le> fuel"
  shows "\<exists>b. pad_loop fuel (int (length ds + k)) lb = Ret b
           \<and> holds b N (concat ds @ replicate k 32)"
  using assms
proof (induction k arbitrary: fuel lb ds)
  case 0
  then show ?case by (subst pad_loop.simps) (simp add: lcd_strlen_holds)
next
  case (Suc k)
  obtain f where f: "fuel = Suc f" "k \<le> f" using Suc.prems(4) by (cases fuel) auto
  obtain b where b: "strcat lb (zstr [32]) = Ret b" "holds b N (concat (ds @ [[32]]))"
    using strcat_holds [OF Suc.prems(1), of "[32]"] Suc.prems(3) by auto
  have "\<exists>b'. pad_loop f (int (length (ds @ [[32 :: byte]]) + k)) b = Ret b'
      \<and> holds b' N (concat (ds @ [[32]]) @ replicate k 32)"
    by (rule Suc.IH [OF b(2)]) (use Suc.prems f in \<open>auto simp: cont_def\<close>)
  then show ?case
    using Suc.prems f b(1) by (subst pad_loop.simps) (simp add: lcd_strlen_holds lit_bytes algebra_simps)
qed

text \<open>The characters between the two strokes, for a length of \<open>l\<close> half characters.\<close>

definition bar_cells :: "nat \<Rightarrow> slcd_e_bartype \<Rightarrow> byte list list" where
  "bar_cells l type =
     (if l \<le> 2 then []
      else replicate (l div 2) (if type = SLCD_BARROWS then SLCD_UCHR_RIGHT else SLCD_UCHR_VOL2)
           @ (if odd l then [if type = SLCD_BARROWS then [32] else SLCD_UCHR_VOL1] else []))"

definition bar_line :: "nat \<Rightarrow> nat \<Rightarrow> slcd_e_bartype \<Rightarrow> byte list" where
  "bar_line W l type =
     [124] @ concat (bar_cells l type) @ replicate (W - 2 - length (bar_cells l type)) 32 @ [124]"

lemma bar_cells_length: "l \<le> 2 * (W - 2) \<Longrightarrow> length (bar_cells l type) \<le> W - 2"
  by (auto simp: bar_cells_def elim!: oddE)

lemma bar_cells_glyphs: "glyphs (bar_cells l type)"
  by (auto simp: bar_cells_def glyphs_def utext_def uchr_defs cont_def lead_def)

lemma bar_text_line:
  assumes "2 \<le> W" "l \<le> 2 * (W - 2)" "length lb = 3 * W + 1"
  shows "\<exists>b. bar_text (int W) (int l) type lb = Ret b \<and> holds b (3 * W + 1) (bar_line W l type)"
proof -
  let ?N = "3 * W + 1" and ?c = "bar_cells l type"
  define half where "half = (if type = SLCD_BARROWS then [0x20] else SLCD_UCHR_VOL1)"
  define whole where "whole = (if type = SLCD_BARROWS then SLCD_UCHR_RIGHT else SLCD_UCHR_VOL2)"
  have hw: "0 \<notin> set half" "0 \<notin> set whole" "length half \<le> 3" "length whole = 3"
    by (auto simp: half_def whole_def uchr_defs)
  have bar: "lit ''|'' = zstr [124]" by (simp add: lit_def)
  obtain b0 where b0: "strcpy lb (lit ''|'') = Ret b0" "holds b0 ?N [124]"
    using strcpy_holds [of "[124]" lb] assms(1,3) by (auto simp: bar)
  define n where "n = (l - 1) div 2"
  have n: "3 * n \<le> 3 * (W - 2)" "int l - 2 \<le> 0 + 2 * int n" "n = 0 \<or> 0 + 2 * int n - 2 < int l - 2"
    using assms(2) by (auto simp: n_def)
  have nW: "n < W" using n(1) assms(1) by linarith
  obtain b1 where b1: "bar_loop 0 (int l) whole b0 = Ret (2 * int n, b1)"
      "holds b1 ?N ([124] @ concat (replicate n whole))"
    using bar_loop_runs [OF b0(2) hw(2), of n "int l" 0] n hw(4) nW by auto
  have len1: "length ([124] @ concat (replicate n whole)) = 1 + 3 * n"
    using hw(4) by (simp add: length_concat comp_def sum_list_replicate)
  have fit: "1 + 3 * n + 3 < ?N" using n(1) assms(1) by simp
  have "\<exists>b2. (if 2 * int n = 0 then Ret b1 else if 2 * int n = int l - 1 then strcat b1 (zstr half)
             else if 2 * int n = int l - 2 then strcat b1 (zstr whole) else Ret b1) = Ret b2
        \<and> holds b2 ?N (concat ([124] # ?c))"
  proof (cases "n = 0")
    case True
    then have "l \<le> 2" by (simp add: n_def)
    then show ?thesis using b1(2) True by (simp add: bar_cells_def)
  next
    case False
    then have l: "2 < l" by (simp add: n_def)
    show ?thesis
    proof (cases "odd l")
      case True
      then have eq: "2 * int n = int l - 1" "l div 2 = n" by (auto simp: n_def elim!: oddE)
      obtain b2 where "strcat b1 (zstr half) = Ret b2"
          "holds b2 ?N (([124] @ concat (replicate n whole)) @ half)"
        using strcat_holds [OF b1(2) hw(1)] len1 fit hw(3) by fastforce
      then show ?thesis using eq False True l by (simp add: bar_cells_def half_def whole_def)
    next
      case ev: False
      then have eq: "2 * int n = int l - 2" "l div 2 = Suc n" using l unfolding n_def by presburger+
      have cr: "concat (replicate n whole) @ whole = whole @ concat (replicate n whole)"
        by (induction n) auto
      obtain b2 where "strcat b1 (zstr whole) = Ret b2"
          "holds b2 ?N (([124] @ concat (replicate n whole)) @ whole)"
        using strcat_holds [OF b1(2) hw(2)] len1 fit hw(4) by fastforce
      then show ?thesis
        using eq False ev l cr by (cases "type = SLCD_BARROWS") (simp_all add: bar_cells_def whole_def)
    qed
  qed
  then obtain b2 where b2: "(if 2 * int n = 0 then Ret b1 else if 2 * int n = int l - 1 then strcat b1 (zstr half)
             else if 2 * int n = int l - 2 then strcat b1 (zstr whole) else Ret b1) = Ret b2"
        "holds b2 ?N (concat ([124] # ?c))" by blast
  have g: "glyphs ([124] # ?c)" using bar_cells_glyphs by (simp add: cont_def)
  have cl: "length ?c \<le> W - 2" by (rule bar_cells_length [OF assms(2)])
  let ?k = "W - 2 - length ?c"
  have clen: "length (concat ([124] # ?c)) \<le> 1 + 3 * length ?c"
    using glyphs_length [OF bar_cells_glyphs, of l type] by simp
  have blen: "length b2 = ?N" using b2(2) by (simp add: holds_def)
  obtain b3 where b3: "pad_loop (length b2) (int W - 1) b2 = Ret b3"
      "holds b3 ?N (concat ([124] # ?c) @ replicate ?k 32)"
  proof -
    have e: "int (length ([124] # ?c) + ?k) = int W - 1" using cl assms(1) by simp
    have "length (concat ([124] # ?c)) + ?k < ?N" "?k \<le> length b2"
      using clen cl assms(1) blen by linarith+
    from pad_loop_runs [OF b2(2) g this] show ?thesis unfolding e using that by blast
  qed
  have "length (concat ([124] # ?c) @ replicate ?k 32) + length [124 :: byte] < ?N"
    using clen cl assms(1) unfolding length_append length_replicate list.size by linarith
  then obtain b4 where "strcat b3 (lit ''|'') = Ret b4" "holds b4 ?N (bar_line W l type)"
    using strcat_holds [OF b3(2), of "[124]"] by (auto simp: bar bar_line_def)
  then show ?thesis
    unfolding bar_text_def Let_def half_def [symmetric] whole_def [symmetric]
    by (simp only: b0(1) b1(1) b2(1) b3(1) res_bind.simps prod.case) blast
qed
lemma sdiv_nonneg: "0 \<le> a \<Longrightarrow> 0 < b \<Longrightarrow> a sdiv b = a div (b :: int)"
  by (cases "a = 0") (simp_all add: signed_divide_int_def)

text \<open>How many half characters of the bar are drawn for a value between the limits.\<close>

definition bar_length :: "nat \<Rightarrow> int \<Rightarrow> int \<Rightarrow> int \<Rightarrow> nat" where
  "bar_length W lo hi v = nat (int (W - 2) * 2 * (v - lo) div (hi - lo))"

lemma bar_length_bound:
  assumes "lo < hi" "lo \<le> v" "v \<le> hi" shows "bar_length W lo hi v \<le> 2 * (W - 2)"
proof -
  have "int (W - 2) * 2 * (v - lo) \<le> int (W - 2) * 2 * (hi - lo)"
    using assms by (intro mult_left_mono) auto
  then have "int (W - 2) * 2 * (v - lo) div (hi - lo) \<le> int (W - 2) * 2 * (hi - lo) div (hi - lo)"
    using assms(1) by (intro zdiv_mono1) auto
  also have "\<dots> = int (W - 2) * 2" using assms(1) by simp
  finally show ?thesis by (simp add: bar_length_def)
qed

text \<open>
  The bar fills its line: exactly as many characters as the display is wide, a stroke at each
  end, the cells of the value, clamped to the limits, in between and blanks behind; it is built
  inside the line buffer of the screen for every width, range and value.
\<close>

theorem framebar_draws:
  fixes p lo hi :: int
  assumes rep: "menu_rep s hp as m" and line: "line \<in> fst ` set (m_items m)"
    and mem: "\<not> oom s (nalloc s)"
    and h: "handles s hp = Some h" "h_linebuf h = Some lb" "length lb = 3 * W + 1"
    and W: "op_width I (hwst s) = int W" "2 \<le> W" and lim: "lo < hi"
  defines "l \<equiv> bar_length W lo hi (min hi (max lo p))"
  shows "\<exists>s'. lcd_framebar I hp line lo hi p type s = Ret (True, s')
           \<and> menu_rep s' hp as (m\<lparr>m_items := set_first line (bar_line W l type) (m_items m)\<rparr>)
           \<and> lcd_strlen (Some (bar_line W l type @ [0])) = Ret (int W)"
proof -
  let ?v = "min hi (max lo p)"
  have v: "lo \<le> ?v" "?v \<le> hi" using lim by auto
  have bound: "l \<le> 2 * (W - 2)" unfolding l_def by (rule bar_length_bound [OF lim v])
  have clamp: "(if (if p < lo then lo else p) > hi then hi else (if p < lo then lo else p)) = ?v"
    using lim by auto
  have div: "((int W - 2) * 2 * (?v - lo)) sdiv (hi - lo) = int l"
    using W(2) lim v by (simp add: sdiv_nonneg l_def bar_length_def of_nat_diff pos_imp_zdiv_nonneg_iff)
  obtain b where b: "bar_text (int W) (int l) type lb = Ret b" "holds b (3 * W + 1) (bar_line W l type)"
    using bar_text_line [OF W(2) bound h(3)] by blast
  let ?s1 = "s\<lparr>handles := (handles s)(hp \<mapsto> h\<lparr>h_linebuf := Some b\<rparr>)\<rparr>"
  have "h_points (h\<lparr>h_linebuf := Some b\<rparr>) as (m_sel m) (m_top m)"
    using rep h(1) by (auto simp: menu_rep_def h_points_def)
  then have rep1: "menu_rep ?s1 hp as m"
    by (intro menu_rep_handle [OF rep]) simp_all
  have zb: "0 \<in> set b" "cstr b = bar_line W l type"
    using b(2) holds_cstr by (auto simp: holds_def)
  obtain s' where s': "lcd_framesetline hp line (Some b) ?s1 = Ret (True, s')"
      "menu_rep s' hp as (m\<lparr>m_items := set_first line (bar_line W l type) (m_items m)\<rparr>)"
    using framesetline_rep [OF rep1 line zb(1)] mem zb(2) by auto
  have hp: "hp \<noteq> NULL" using rep by (simp add: menu_rep_def)
  have run: "lcd_framebar I hp line lo hi p type s = Ret (True, s')"
    using hp h lim b(1) s'(1) W(1) clamp div
    by (simp add: lcd_framebar_def heap_simps Let_def)
  let ?ds = "[124] # bar_cells l type @ replicate (W - 2 - length (bar_cells l type)) [32] @ [[124]]"
  have cat: "concat (replicate k [x]) = replicate k x" for k and x :: byte by (induction k) auto
  have "utext ?ds"
    using bar_cells_glyphs by (auto simp: glyphs_def utext_def cont_def)
  then have "lcd_strlen (Some (concat ?ds @ [0])) = Ret (int (length ?ds))" by (rule lcd_strlen_text)
  moreover have "concat ?ds = bar_line W l type" by (simp add: bar_line_def cat)
  moreover have "length ?ds = W" using bar_cells_length [OF bound, of type] W(2) by simp
  ultimately have "lcd_strlen (Some (bar_line W l type @ [0])) = Ret (int W)" by (simp only:)
  then show ?thesis using run s'(2) by blast
qed

section \<open>Witnesses\<close>

theorem framesetline_sets_witness:
  "\<exists>s'. lcd_framesetline 1 2 (Some [72, 105, 0]) demo_three = Ret (True, s')
     \<and> menu_rep s' 1 [3, 5, 7] \<lparr>m_items = [(1, [67]), (2, [72, 105]), (3, [66])], m_sel = 1, m_top = 0\<rparr>"
proof -
  have b: "0 \<in> set [72, 105, 0 :: byte]" "\<not> oom demo_three (nalloc demo_three)"
    by (simp_all add: demo_three_def demo_state_def)
  show ?thesis
    using framesetline_sets [OF demo_three_rep b, of 2] by (simp add: demo_items_def cstr_def)
qed

theorem framecreate_lines_witness:
  "\<exists>s' as h. lcd_framecreate demo_ops demo_empty = Ret (3, s')
     \<and> menu_rep s' 3 as \<lparr>m_items = [(0, []), (1, [])], m_sel = 0, m_top = 0\<rparr>
     \<and> handles s' 3 = Some h \<and> h_type h = SLCD_FRAME"
proof -
  have "\<forall>n. \<not> oom demo_empty n" "op_height demo_ops (hwst demo_empty) = int 2"
    "Suc (nalloc demo_empty) = 3"
    by (simp_all add: demo_empty_def demo_state_def demo_ops_def)
  then show ?thesis
    using framecreate_lines [of demo_empty demo_ops 2] by (simp add: upt_rec) blast
qed

text \<open>Three quarters on a display of four columns: one whole cell and one half.\<close>

theorem framebar_draws_witness:
  "\<exists>s'. lcd_framebar demo_ops 1 2 0 4 3 SLCD_BLINES demo_three = Ret (True, s')
     \<and> menu_rep s' 1 [3, 5, 7] \<lparr>m_items = set_first 2 ([124] @ SLCD_UCHR_VOL2 @ SLCD_UCHR_VOL1 @ [124]) demo_items,
                               m_sel = 1, m_top = 0\<rparr>"
proof -
  define h where "h = (init_handle 4)\<lparr>h_numrows := 3, h_top := 3, h_end := 7, h_tsc := 3, h_curl := 5\<rparr>"
  have line: "bar_line 4 (bar_length 4 0 4 (min 4 (max 0 3))) SLCD_BLINES
      = [124] @ SLCD_UCHR_VOL2 @ SLCD_UCHR_VOL1 @ [124]"
    by (simp add: bar_line_def bar_cells_def bar_length_def)
  have hyps: "2 \<in> fst ` set (m_items \<lparr>m_items = demo_items, m_sel = 1, m_top = 0\<rparr>)"
    "\<not> oom demo_three (nalloc demo_three)" "handles demo_three 1 = Some h"
    "h_linebuf h = Some (replicate 13 0)" "length (replicate 13 (0 :: byte)) = 3 * 4 + 1"
    "op_width demo_ops (hwst demo_three) = int 4" "2 \<le> (4 :: nat)" "0 < (4 :: int)"
    by (simp_all add: demo_three_def demo_state_def demo_items_def h_def init_handle_def demo_ops_def)
  show ?thesis
    using framebar_draws [OF demo_three_rep hyps, of 3 SLCD_BLINES] line by simp blast
qed

end
