(* ===== verification/Lcd_Input.thy ===== *)
theory Lcd_Input
  imports Lcd_Frame
begin

text \<open>
  Input, yes/no and clock screens of \<^verbatim>\<open>src/libreciva/src/lcd/lcd.c\<close>.  The buffer the caller
  of \<^verbatim>\<open>lcd_inputcreate\<close> owns is an object of the state (\<open>bufs\<close>); the screen keeps its address.
\<close>

section \<open>Input screens\<close>

text \<open>The second and third glyphs of \<open>END\<close> and \<open>DEL\<close> cannot be selected.\<close>

definition skipped :: "byte list \<Rightarrow> bool" where
  "skipped u \<longleftrightarrow> u = SLCD_UCHR_END2 \<or> u = SLCD_UCHR_END3 \<or> u = SLCD_UCHR_DEL2 \<or> u = SLCD_UCHR_DEL3"

text \<open>
  The loop steps on while such a glyph is selected.  The selection always holds others
  (\<open>lcd_inputcreate\<close> appends them), so it ends after at most as many steps as it has bytes.
\<close>

fun skip_loop ::
  "nat \<Rightarrow> (byte list \<Rightarrow> int \<Rightarrow> int res) \<Rightarrow> byte list \<Rightarrow> int \<Rightarrow> int res" where
  "skip_loop fuel step str p =
     res_bind (lcd_getutf8char str p) (\<lambda>u8.
       if skipped u8
       then (case fuel of 0 \<Rightarrow> Diverge
             | Suc k \<Rightarrow> res_bind (step str p) (\<lambda>p. skip_loop k step str p))
       else Ret p)"

declare skip_loop.simps [simp del]

definition move_option ::
  "(byte list \<Rightarrow> int \<Rightarrow> int res) \<Rightarrow> ptr \<Rightarrow> 'hw lcdst \<Rightarrow> 'hw lcdst res" where
  "move_option step handle s =
     res_bind (ld_h handle s) (\<lambda>h.
     res_bind (ld_str (h_selectopts h)) (\<lambda>str.
     res_bind (step str (h_inputselectedopt h)) (\<lambda>p.
     res_bind (skip_loop (length str) step str p) (\<lambda>p.
     st_h handle (\<lambda>h. h\<lparr>h_inputselectedopt := p\<rparr>) s))))"

definition init_cursor :: "int \<Rightarrow> ptr \<Rightarrow> 'hw lcdst \<Rightarrow> 'hw lcdst res" where
  "init_cursor width handle s =
     res_bind (ld_h handle s) (\<lambda>h.
       if h_inputbolpos h < 0
       then res_bind (ld_buf (h_result h) s) (\<lambda>b.
            res_bind (strlen b) (\<lambda>n.
            st_h handle (\<lambda>h. h\<lparr>h_inputcursorpos := n,
                               h_inputbolpos := (if n < width then 0 else n - width + 1)\<rparr>) s))
       else Ret s)"

definition edit_result :: "ptr \<Rightarrow> byte \<Rightarrow> 'hw lcdst \<Rightarrow> 'hw lcdst res" where
  "edit_result handle ch s =
     res_bind (ld_h handle s) (\<lambda>h.
     res_bind (ld_buf (h_result h) s) (\<lambda>b.
     res_bind (lcd_insertchar b (h_inputcursorpos h) ch (h_maxlen h)) (\<lambda>(p, b).
     res_bind (st_buf (h_result h) b s) (\<lambda>s.
     st_h handle (\<lambda>h. h\<lparr>h_inputcursorpos := p\<rparr>) s))))"

text \<open>The result is true when \<open>END\<close> was selected.\<close>

definition input_enter :: "int \<Rightarrow> ptr \<Rightarrow> 'hw lcdst \<Rightarrow> (bool \<times> 'hw lcdst) res" where
  "input_enter width handle s =
     res_bind (ld_h handle s) (\<lambda>h.
     res_bind (ld_str (h_selectopts h)) (\<lambda>str.
     res_bind (lcd_getutf8char str (h_inputselectedopt h)) (\<lambda>u8.
     let cur = h_inputcursorpos h; bol = h_inputbolpos h in
     if u8 = SLCD_UCHR_END1 then Ret (True, s)
     else if u8 = SLCD_UCHR_DEL1
     then res_bind (if cur \<ge> 1 then edit_result handle 0 s else Ret s) (\<lambda>s. Ret (False, s))
     else if u8 = SLCD_UCHR_LEFT
     then res_bind (if cur > 0
                    then st_h handle (\<lambda>h. h\<lparr>h_inputcursorpos := cur - 1,
                           h_inputbolpos := (if cur - 1 < bol then cur - 1 else bol)\<rparr>) s
                    else Ret s) (\<lambda>s. Ret (False, s))
     else if u8 = SLCD_UCHR_RIGHT
     then res_bind (ld_buf (h_result h) s) (\<lambda>b.
          res_bind (strlen b) (\<lambda>n.
          res_bind (if 0 \<le> cur \<and> cur < n
                    then st_h handle (\<lambda>h. h\<lparr>h_inputcursorpos := cur + 1,
                           h_inputbolpos := (if cur + 1 - bol > width then cur + 1 - width else bol)\<rparr>) s
                    else Ret s) (\<lambda>s. Ret (False, s))))
     else res_bind (edit_result handle (hd (u8 @ [0])) s) (\<lambda>s. Ret (False, s)))))"

definition adjust_bol :: "int \<Rightarrow> lcd_handle \<Rightarrow> lcd_handle" where
  "adjust_bol width h =
     (let cur = h_inputcursorpos h;
          bol = (if cur < h_inputbolpos h then cur else h_inputbolpos h);
          bol = (if cur > bol + width then cur - width + 1 else bol)
      in h\<lparr>h_inputbolpos := bol\<rparr>)"

definition lcd_inputcontrol ::
  "'hw lcdhw_ops \<Rightarrow> ptr \<Rightarrow> slcd_e_inputctl \<Rightarrow> 'hw lcdst \<Rightarrow> (bool \<times> 'hw lcdst) res" where
  "lcd_inputcontrol I handle cmd s =
     (if handle = NULL then Ret (True, s)
      else let width = op_width I (hwst s) in
        res_bind (init_cursor width handle s) (\<lambda>s.
        res_bind (case cmd of
                    SLCD_LEFT \<Rightarrow> res_map (Pair False) (move_option lcd_getprevcharacterpos handle s)
                  | SLCD_RIGHT \<Rightarrow> res_map (Pair False) (move_option lcd_getnextcharacterpos handle s)
                  | SLCD_ENTER \<Rightarrow> input_enter width handle s) (\<lambda>(end_selected, s).
        if end_selected then Ret (True, s)
        else res_bind (st_h handle (adjust_bol width) s) (\<lambda>s. Ret (False, s)))))"

definition lcd_inputcreate ::
  "'hw lcdhw_ops \<Rightarrow> byte list option \<Rightarrow> ptr \<Rightarrow> int \<Rightarrow> 'hw lcdst \<Rightarrow> (ptr \<times> 'hw lcdst) res" where
  "lcd_inputcreate I selection result maxlen s =
     (if result = NULL \<or> selection = None then Exit
      else if maxlen < 1 then Ret (NULL, s)
      else res_bind (ld_str selection) (\<lambda>sel.
           res_bind (strlen sel) (\<lambda>n.
           if n > SLCD_TEXTBUF_MAXLEN - int (length SLCD_USTR_INPUTMENU) - 1 then Ret (NULL, s)
           else res_bind (lcd_framecreate I s) (\<lambda>(h, s).
                if h = NULL then Ret (NULL, s)
                else res_bind (st_h h (\<lambda>x. x\<lparr>h_type := SLCD_INPUT\<rparr>) s) (\<lambda>s.
                     let (opts, s) = lcd_malloc s
                     in if opts = NULL then Exit
                        else res_bind (st_h h (\<lambda>x. x\<lparr>
                               h_selectopts := Some (zstr (cstr sel @ SLCD_USTR_INPUTMENU)),
                               h_result := result, h_maxlen := maxlen,
                               h_inputbolpos := -1, h_inputcursorpos := -1\<rparr>) s) (\<lambda>s.
                             res_bind (lcd_inputcontrol I h SLCD_LEFT s) (\<lambda>(_, s). Ret (h, s))))))))"

definition lcd_inputsetline ::
  "ptr \<Rightarrow> int \<Rightarrow> byte list option \<Rightarrow> 'hw lcdst \<Rightarrow> (bool \<times> 'hw lcdst) res" where
  "lcd_inputsetline handle line str s =
     (if handle = NULL then Ret (False, s)
      else if line < 2 then Ret (False, s)
      else lcd_framesetline handle line str s)"

definition lcd_inputprintf ::
  "ptr \<Rightarrow> int \<Rightarrow> byte list option \<Rightarrow> 'hw lcdst \<Rightarrow> (bool \<times> 'hw lcdst) res" where
  "lcd_inputprintf handle line fmt s =
     (if handle = NULL \<or> fmt = None then Ret (False, s)
      else if length (the fmt) \<ge> SLCD_PRINTF_BUFSIZE then Ret (False, s)
      else lcd_inputsetline handle line (Some (zstr (the fmt))) s)"

section \<open>Yes/no screens\<close>

definition lcd_yesnocreate ::
  "'hw lcdhw_ops \<Rightarrow> byte list option \<Rightarrow> byte list option \<Rightarrow> int \<Rightarrow> 'hw lcdst
   \<Rightarrow> (ptr \<times> 'hw lcdst) res" where
  "lcd_yesnocreate I yesno title defopt s =
     (if yesno = None \<or> title = None then Ret (NULL, s)
      else res_bind (lcd_framecreate I s) (\<lambda>(h, s).
           if h = NULL then Ret (NULL, s)
           else res_bind (st_h h (\<lambda>x. x\<lparr>h_type := SLCD_YESNO\<rparr>) s) (\<lambda>s.
                res_bind (ld_str yesno) (\<lambda>b.
                res_bind (strlen b) (\<lambda>_.
                let (opts, s) = lcd_malloc s
                in if opts = NULL then Exit
                   else res_bind (st_h h (\<lambda>x. x\<lparr>h_yesnoopts := Some (zstr (cstr b))\<rparr>) s) (\<lambda>s.
                        res_bind (lcd_framesetline h 0 title s) (\<lambda>(_, s).
                        res_bind (st_h h (\<lambda>x. x\<lparr>h_yesnoopt := defopt,
                                      h_yesnomax := int (count_list (cstr b) 0x2f)\<rparr>) s) (\<lambda>s.
                        Ret (h, s)))))))))"

definition lcd_yesnocontrol ::
  "ptr \<Rightarrow> slcd_e_inputctl \<Rightarrow> 'hw lcdst \<Rightarrow> (bool \<times> 'hw lcdst) res" where
  "lcd_yesnocontrol handle cmd s =
     (if handle = NULL then Ret (False, s)
      else case cmd of
        SLCD_LEFT \<Rightarrow>
          res_bind (st_h handle (\<lambda>h. if h_yesnoopt h > 0
                                     then h\<lparr>h_yesnoopt := h_yesnoopt h - 1\<rparr> else h) s)
            (\<lambda>s. Ret (True, s))
      | SLCD_RIGHT \<Rightarrow>
          res_bind (st_h handle (\<lambda>h. if h_yesnoopt h < h_yesnomax h
                                     then h\<lparr>h_yesnoopt := h_yesnoopt h + 1\<rparr> else h) s)
            (\<lambda>s. Ret (True, s))
      | SLCD_ENTER \<Rightarrow> Ret (False, s))"

definition lcd_yesnoresult :: "ptr \<Rightarrow> 'hw lcdst \<Rightarrow> int res" where
  "lcd_yesnoresult handle s =
     (if handle = NULL then Ret 0 else res_bind (ld_h handle s) (\<lambda>h. Ret (h_yesnoopt h)))"

section \<open>Clock screens\<close>

text \<open>If the title cannot be set the handle itself is freed, its rows are not.\<close>

definition lcd_clockcreate ::
  "'hw lcdhw_ops \<Rightarrow> byte list option \<Rightarrow> 'hw lcdst \<Rightarrow> (ptr \<times> 'hw lcdst) res" where
  "lcd_clockcreate I title s =
     (if title = None then Ret (NULL, s)
      else res_bind (lcd_framecreate I s) (\<lambda>(h, s).
           if h = NULL then Ret (NULL, s)
           else res_bind (st_h h (\<lambda>x. x\<lparr>h_type := SLCD_CLOCK\<rparr>) s) (\<lambda>s.
                res_bind (lcd_framesetline h 0 title s) (\<lambda>(ok, s).
                if \<not> ok then Ret (NULL, s\<lparr>handles := (handles s)(h := None)\<rparr>)
                else Ret (h, s)))))"

definition lcd_clocksetalarm :: "ptr \<Rightarrow> tm option \<Rightarrow> bool \<Rightarrow> 'hw lcdst \<Rightarrow> 'hw lcdst res" where
  "lcd_clocksetalarm handle alm alarmon s =
     (if handle = NULL \<or> alm = None then Ret s
      else st_h handle (\<lambda>h. h\<lparr>h_almon := alarmon, h_alm := the alm\<rparr>) s)"

section \<open>The selectable options\<close>

definition input_chars :: "byte list list" where
  "input_chars = [SLCD_UCHR_DEL1, SLCD_UCHR_DEL2, SLCD_UCHR_DEL3, SLCD_UCHR_LEFT, SLCD_UCHR_RIGHT,
                  SLCD_UCHR_END1, SLCD_UCHR_END2, SLCD_UCHR_END3]"

text \<open>
  The characters a screen offers: those of the selection, then \<open>DEL\<close>, left, right and \<open>END\<close>.
  \<open>opos\<close> is the place of the \<open>j\<close>-th of them in the text, where \<open>DEL\<close> and \<open>END\<close> take up three
  glyphs.
\<close>

definition options :: "byte list list \<Rightarrow> byte list list" where
  "options sel = sel @ input_chars"

definition opos :: "nat \<Rightarrow> nat \<Rightarrow> nat" where
  "opos n j = (if j \<le> n then j else j + 2)"

definition selection_ok :: "byte list list \<Rightarrow> bool" where
  "selection_ok sel \<longleftrightarrow> glyphs sel \<and> (\<forall>u\<in>set sel. \<not> skipped u)"

lemma input_chars_glyphs: "glyphs input_chars"
  by (simp add: input_chars_def uchr_defs lead_def cont_def)

lemma length_options [simp]: "length (options sel) = length sel + 8"
  by (simp add: options_def input_chars_def)

lemma options_ok: "selection_ok sel \<Longrightarrow> glyphs (options sel) \<and> options sel \<noteq> []"
  using input_chars_glyphs by (auto simp: options_def selection_ok_def input_chars_def)

lemma skipped_option:
  assumes "selection_ok sel" "i < length sel + 8"
  shows "skipped (options sel ! i)
         \<longleftrightarrow> i \<in> {length sel + 1, length sel + 2, length sel + 6, length sel + 7}"
proof (cases "i < length sel")
  case True
  then show ?thesis using assms(1) by (simp add: options_def nth_append selection_ok_def)
next
  case False
  then obtain k where k: "i = length sel + k" "k < 8" using assms(2) by (metis add.commute
        le_add_diff_inverse nat_add_left_cancel_less not_less)
  have m: "map skipped input_chars = [False, True, True, False, False, False, True, True]"
    by (simp add: input_chars_def uchr_defs skipped_def)
  have "length input_chars = 8" by (simp add: input_chars_def)
  then have "skipped (input_chars ! k) = map skipped input_chars ! k" using k(2) by simp
  then have "skipped (input_chars ! k) \<longleftrightarrow> k \<in> {1, 2, 6, 7}"
    unfolding m using k(2) by (auto simp: less_Suc_eq numeral_eq_Suc)
  then show ?thesis by (simp add: k(1) options_def nth_append)
qed

lemma idx_period: "0 < n \<Longrightarrow> idx n (x + int n) = idx n x"
  by (simp add: idx_def)

lemma at_period: "cs \<noteq> [] \<Longrightarrow> at cs (x + int (length cs)) = at cs x"
  by (simp add: at_def idx_period)

lemma glyph_period: "cs \<noteq> [] \<Longrightarrow> glyph cs (x + int (length cs)) = glyph cs x"
  by (simp add: glyph_def idx_period)

lemma skip_loop_steps:
  assumes "glyphs cs" "cs \<noteq> []" "\<And>y. step (concat cs @ 0 # r) (at cs y) = Ret (at cs (y + d))"
    "\<forall>i<k. skipped (glyph cs (x + d * int i))" "\<not> skipped (glyph cs (x + d * int k))" "k \<le> fuel"
  shows "skip_loop fuel step (concat cs @ 0 # r) (at cs x) = Ret (at cs (x + d * int k))"
  using assms(4-)
proof (induction k arbitrary: fuel x)
  case 0
  then show ?case by (subst skip_loop.simps) (simp add: char_at [OF assms(1,2)])
next
  case (Suc k)
  obtain f where f: "fuel = Suc f" "k \<le> f" using Suc.prems(3) by (cases fuel) auto
  have "skip_loop f step (concat cs @ 0 # r) (at cs (x + d)) = Ret (at cs (x + d + d * int k))"
  proof (rule Suc.IH)
    show "\<forall>i<k. skipped (glyph cs (x + d + d * int i))"
      using Suc.prems(1) by (auto simp: algebra_simps dest: spec [of _ "Suc _"])
    show "\<not> skipped (glyph cs (x + d + d * int k))"
      using Suc.prems(2) by (simp add: algebra_simps)
  qed (rule f(2))
  moreover have "skipped (glyph cs x)" using Suc.prems(1) by (auto dest: spec [of _ 0])
  ultimately show ?case
    by (subst skip_loop.simps) (simp add: f(1) char_at [OF assms(1,2)] assms(3) algebra_simps)
qed

text \<open>One step right, or left, is one option on, or back, round the options.\<close>

lemma step_right:
  assumes "selection_ok sel" "j < length sel + 4" "2 \<le> fuel"
  defines "cs \<equiv> options sel"
  shows "skip_loop fuel lcd_getnextcharacterpos (concat cs @ 0 # r) (at cs (int (opos (length sel) j) + 1))
       = Ret (at cs (int (opos (length sel) ((j + 1) mod (length sel + 4)))))"
proof -
  let ?n = "length sel" and ?x = "int (opos (length sel) j) + 1"
  have cs: "glyphs cs" "cs \<noteq> []" using options_ok [OF assms(1)] by (auto simp: cs_def)
  have len: "length cs = ?n + 8" by (simp add: cs_def)
  have g: "glyph cs (int i) = options sel ! i" if "i < ?n + 8" for i
    using that by (simp add: glyph_def idx_small cs_def)
  have sk: "skipped (glyph cs (int i)) \<longleftrightarrow> i \<in> {?n + 1, ?n + 2, ?n + 6, ?n + 7}" if "i < ?n + 8" for i
    using skipped_option [OF assms(1) that] g [OF that] by simp
  have run: "skip_loop fuel lcd_getnextcharacterpos (concat cs @ 0 # r) (at cs ?x) = Ret (at cs (?x + int k))"
    if "\<forall>i<k. skipped (glyph cs (?x + int i))" "\<not> skipped (glyph cs (?x + int k))" "k \<le> 2" for k
    using skip_loop_steps [OF cs, of lcd_getnextcharacterpos r 1 k ?x fuel] next_at [OF cs] that assms(3)
    by simp
  consider "j < ?n" | "j = ?n" | "j = ?n + 1" | "j = ?n + 2" | "j = ?n + 3"
    using assms(2) by linarith
  then show ?thesis
  proof cases
    case 1
    then have "?x + int 0 = int (j + 1)" "opos ?n ((j + 1) mod (?n + 4)) = j + 1"
      by (auto simp: opos_def)
    then show ?thesis using run [of 0] sk [of "j + 1"] 1 by (simp add: algebra_simps)
  next
    case 2
    then have e: "?x = int (?n + 1)" "opos ?n ((j + 1) mod (?n + 4)) = ?n + 3"
      by (auto simp: opos_def)
    have "\<forall>i<2. skipped (glyph cs (?x + int i))"
      using sk [of "?n + 1"] sk [of "?n + 2"] e(1) by (auto simp: less_2_cases_iff algebra_simps)
    then show ?thesis using run [of 2] sk [of "?n + 3"] e by (simp add: algebra_simps)
  next
    case 3
    then have "?x = int (?n + 4)" "opos ?n ((j + 1) mod (?n + 4)) = ?n + 4"
      by (auto simp: opos_def)
    then show ?thesis using run [of 0] sk [of "?n + 4"] by (simp add: algebra_simps)
  next
    case 4
    then have "?x = int (?n + 5)" "opos ?n ((j + 1) mod (?n + 4)) = ?n + 5"
      by (auto simp: opos_def)
    then show ?thesis using run [of 0] sk [of "?n + 5"] by (simp add: algebra_simps)
  next
    case 5
    then have "j + 1 = ?n + 4" by simp
    then have "(j + 1) mod (?n + 4) = 0" by (simp only: mod_self)
    then have e: "?x = int (?n + 6)" "opos ?n ((j + 1) mod (?n + 4)) = 0"
      using 5 by (simp_all add: opos_def)
    have z: "?x + int 2 = 0 + int (length cs)" using e(1) len by simp
    have "\<forall>i<2. skipped (glyph cs (?x + int i))"
      using sk [of "?n + 6"] sk [of "?n + 7"] e(1) by (auto simp: less_2_cases_iff algebra_simps)
    moreover have "\<not> skipped (glyph cs (?x + int 2))"
      unfolding z glyph_period [OF cs(2)] using sk [of 0] by simp
    ultimately have "skip_loop fuel lcd_getnextcharacterpos (concat cs @ 0 # r) (at cs ?x) = Ret (at cs (?x + int 2))"
      by (intro run) simp_all
    then show ?thesis unfolding z at_period [OF cs(2)] e(2) by simp
  qed
qed
lemma step_left:
  assumes "selection_ok sel" "j < length sel + 4" "2 \<le> fuel"
  defines "cs \<equiv> options sel"
  shows "skip_loop fuel lcd_getprevcharacterpos (concat cs @ 0 # r) (at cs (int (opos (length sel) j) - 1))
       = Ret (at cs (int (opos (length sel) (if j = 0 then length sel + 3 else j - 1))))"
proof -
  let ?n = "length sel" and ?x = "int (opos (length sel) j) - 1"
  let ?y = "opos ?n (if j = 0 then ?n + 3 else j - 1)"
  have cs: "glyphs cs" "cs \<noteq> []" using options_ok [OF assms(1)] by (auto simp: cs_def)
  have len: "length cs = ?n + 8" by (simp add: cs_def)
  have g: "glyph cs (int i) = options sel ! i" if "i < ?n + 8" for i
    using that by (simp add: glyph_def idx_small cs_def)
  have sk: "skipped (glyph cs (int i)) \<longleftrightarrow> i \<in> {?n + 1, ?n + 2, ?n + 6, ?n + 7}" if "i < ?n + 8" for i
    using skipped_option [OF assms(1) that] g [OF that] by simp
  have run: "skip_loop fuel lcd_getprevcharacterpos (concat cs @ 0 # r) (at cs x) = Ret (at cs (x - int k))"
    if "\<forall>i<k. skipped (glyph cs (x - int i))" "\<not> skipped (glyph cs (x - int k))" "k \<le> 2" for k x
    using skip_loop_steps [OF cs, of lcd_getprevcharacterpos r "-1" k x fuel] prev_at [OF cs] that assms(3)
    by simp
  show ?thesis
  proof (cases "j = 0 \<or> j = ?n + 1")
    case True
    define x where "x = (if j = 0 then ?x + int (length cs) else ?x)"
    have x: "at cs ?x = at cs x" unfolding x_def
      by (cases "j = 0") (use at_period [OF cs(2), of ?x] in simp_all)
    have e: "x = int (?y + 2)" "?y = ?n \<or> ?y = ?n + 5"
      using True len by (auto simp: opos_def x_def)
    have "\<forall>i<2. skipped (glyph cs (x - int i))"
    proof (intro allI impI)
      fix i :: nat assume i: "i < 2"
      then have "x - int i = int (?y + 2 - i)" using e(1) by simp
      moreover have "?y + 2 - i \<in> {?n + 1, ?n + 2, ?n + 6, ?n + 7}" "?y + 2 - i < ?n + 8"
        using i e(2) by auto
      ultimately show "skipped (glyph cs (x - int i))" using sk by metis
    qed
    moreover have "x - int 2 = int ?y" using e(1) by simp
    moreover have "\<not> skipped (glyph cs (int ?y))" using sk [of ?y] e(2) by auto
    ultimately show ?thesis using run [of 2 x] x by simp
  next
    case False
    have e: "?x = int ?y" using False assms(2) by (auto simp: opos_def)
    have "?y < ?n + 8" "?y \<notin> {?n + 1, ?n + 2, ?n + 6, ?n + 7}"
      using False assms(2) by (auto simp: opos_def)
    then have "\<not> skipped (glyph cs (int ?y))" using sk by blast
    then show ?thesis using run [of 0 "int ?y"] unfolding e by simp
  qed
qed

section \<open>The editor behind an input screen\<close>

text \<open>
  The edited text is the part before the cursor and the part behind it.  What \<open>ENTER\<close> does
  depends on the selected option; \<open>limit\<close> is the size of the caller's buffer.
\<close>

definition edit :: "byte list \<Rightarrow> int \<Rightarrow> byte list \<times> byte list \<Rightarrow> byte list \<times> byte list" where
  "edit u limit = (\<lambda>(b, a).
     if u = SLCD_UCHR_END1 then (b, a)
     else if u = SLCD_UCHR_DEL1 then (butlast b, a)
     else if u = SLCD_UCHR_LEFT then (if b = [] then (b, a) else (butlast b, last b # a))
     else if u = SLCD_UCHR_RIGHT then (if a = [] then (b, a) else (b @ [hd a], tl a))
     else if int (length b + length a) + 1 < min limit SLCD_TEXTBUF_MAXLEN then (b @ [hd u], a)
     else (b, a))"

definition input_rep ::
  "'hw lcdhw_ops \<Rightarrow> 'hw lcdst \<Rightarrow> ptr \<Rightarrow> byte list list \<Rightarrow> nat \<Rightarrow> int \<Rightarrow> byte list \<times> byte list \<Rightarrow> bool" where
  "input_rep I s hp sel j limit ba \<longleftrightarrow>
     hp \<noteq> NULL \<and> selection_ok sel \<and> j < length sel + 4 \<and> 1 \<le> op_width I (hwst s) \<and>
     (\<exists>h q r. handles s hp = Some h
        \<and> h_selectopts h = Some (concat (options sel) @ 0 # r)
        \<and> h_inputselectedopt h = at (options sel) (int (opos (length sel) j))
        \<and> h_maxlen h = limit \<and> bufs s (h_result h) = Some (fst ba @ snd ba @ 0 # q)
        \<and> 0 \<notin> set (fst ba @ snd ba)
        \<and> limit \<le> int (length (fst ba @ snd ba @ 0 # q))
        \<and> int (length (fst ba @ snd ba)) < min limit SLCD_TEXTBUF_MAXLEN
        \<and> h_inputcursorpos h = int (length (fst ba))
        \<and> 0 \<le> h_inputbolpos h \<and> h_inputbolpos h \<le> h_inputcursorpos h
        \<and> h_inputcursorpos h \<le> h_inputbolpos h + op_width I (hwst s))"
text \<open>An edited state represents the edited text.\<close>

lemma input_rep_move:
  assumes "input_rep I s hp sel j limit ba" "handles s hp = Some h" "j' < length sel + 4"
  shows "input_rep I (s\<lparr>handles := (handles s)(hp \<mapsto>
           h\<lparr>h_inputselectedopt := at (options sel) (int (opos (length sel) j'))\<rparr>)\<rparr>) hp sel j' limit ba"
  using assms by (auto simp: input_rep_def)

lemma adjust_id: "0 \<le> h_inputbolpos h \<Longrightarrow> h_inputbolpos h \<le> h_inputcursorpos h \<Longrightarrow>
    h_inputcursorpos h \<le> h_inputbolpos h + w \<Longrightarrow> adjust_bol w h = h"
  by (simp add: adjust_bol_def Let_def)

lemma input_repE:
  assumes "input_rep I s hp sel j limit ba"
  obtains h r q where "hp \<noteq> NULL" "handles s hp = Some h"
    "h_selectopts h = Some (concat (options sel) @ 0 # r)"
    "h_inputselectedopt h = at (options sel) (int (opos (length sel) j))"
    "bufs s (h_result h) = Some (fst ba @ snd ba @ 0 # q)" "0 \<le> h_inputbolpos h"
    "h_inputbolpos h \<le> h_inputcursorpos h" "h_inputcursorpos h \<le> h_inputbolpos h + op_width I (hwst s)"
    "h_inputcursorpos h = int (length (fst ba))" "h_maxlen h = limit"
  using assms unfolding input_rep_def by metis

lemma input_control_frame:
  assumes "input_rep I s hp sel j limit ba" "handles s hp = Some h"
    "handles s' = (handles s)(hp \<mapsto> h')" "bufs s' = (bufs s)(h_result h := b')" "hwst s' = hwst s"
    "b' = Some (fst ba' @ snd ba' @ 0 # q')" "0 \<notin> set (fst ba' @ snd ba')"
    "limit \<le> int (length (fst ba' @ snd ba' @ 0 # q'))"
    "int (length (fst ba' @ snd ba')) < min limit SLCD_TEXTBUF_MAXLEN"
    "h_result h' = h_result h" "h_selectopts h' = h_selectopts h"
    "h_inputselectedopt h' = h_inputselectedopt h" "h_maxlen h' = h_maxlen h"
    "h_inputcursorpos h' = int (length (fst ba'))" "0 \<le> h_inputbolpos h'"
    "h_inputbolpos h' \<le> h_inputcursorpos h'" "h_inputcursorpos h' \<le> h_inputbolpos h' + op_width I (hwst s)"
  shows "input_rep I s' hp sel j limit ba'"
  using assms by (auto simp: input_rep_def)

lemma move_right:
  assumes rep: "input_rep I s hp sel j limit ba"
  shows "\<exists>s'. lcd_inputcontrol I hp SLCD_RIGHT s = Ret (False, s')
           \<and> input_rep I s' hp sel ((j + 1) mod (length sel + 4)) limit ba"
proof -
  obtain h r q where h: "hp \<noteq> NULL" "handles s hp = Some h"
    "h_selectopts h = Some (concat (options sel) @ 0 # r)"
    "h_inputselectedopt h = at (options sel) (int (opos (length sel) j))"
    "0 \<le> h_inputbolpos h" "h_inputbolpos h \<le> h_inputcursorpos h"
    "h_inputcursorpos h \<le> h_inputbolpos h + op_width I (hwst s)"
    using input_repE [OF rep] by metis
  have sel: "selection_ok sel" "j < length sel + 4" using rep by (auto simp: input_rep_def)
  have ok: "glyphs (options sel)" "options sel \<noteq> []" using options_ok [OF sel(1)] by auto
  have "2 \<le> length (concat (options sel) @ 0 # r)"
    by (simp add: options_def input_chars_def uchr_defs)
  note step = step_right [OF sel this, of r]
  let ?j = "(j + 1) mod (length sel + 4)"
  let ?h = "h\<lparr>h_inputselectedopt := at (options sel) (int (opos (length sel) ?j))\<rparr>"
  have "lcd_inputcontrol I hp SLCD_RIGHT s = Ret (False, s\<lparr>handles := (handles s)(hp \<mapsto> ?h)\<rparr>)"
    using h step adjust_id [of ?h "op_width I (hwst s)"]
    by (simp add: lcd_inputcontrol_def init_cursor_def heap_simps Let_def move_option_def next_at [OF ok])
  moreover have "?j < length sel + 4" by simp
  ultimately show ?thesis using input_rep_move [OF rep h(2)] by blast
qed

lemma move_left:
  assumes rep: "input_rep I s hp sel j limit ba"
  shows "\<exists>s'. lcd_inputcontrol I hp SLCD_LEFT s = Ret (False, s')
           \<and> input_rep I s' hp sel (if j = 0 then length sel + 3 else j - 1) limit ba"
proof -
  obtain h r q where h: "hp \<noteq> NULL" "handles s hp = Some h"
    "h_selectopts h = Some (concat (options sel) @ 0 # r)"
    "h_inputselectedopt h = at (options sel) (int (opos (length sel) j))"
    "0 \<le> h_inputbolpos h" "h_inputbolpos h \<le> h_inputcursorpos h"
    "h_inputcursorpos h \<le> h_inputbolpos h + op_width I (hwst s)"
    using input_repE [OF rep] by metis
  have sel: "selection_ok sel" "j < length sel + 4" using rep by (auto simp: input_rep_def)
  have ok: "glyphs (options sel)" "options sel \<noteq> []" using options_ok [OF sel(1)] by auto
  have "2 \<le> length (concat (options sel) @ 0 # r)"
    by (simp add: options_def input_chars_def uchr_defs)
  note step = step_left [OF sel this, of r]
  let ?j = "if j = 0 then length sel + 3 else j - 1"
  let ?h = "h\<lparr>h_inputselectedopt := at (options sel) (int (opos (length sel) ?j))\<rparr>"
  have "lcd_inputcontrol I hp SLCD_LEFT s = Ret (False, s\<lparr>handles := (handles s)(hp \<mapsto> ?h)\<rparr>)"
    using h step adjust_id [of ?h "op_width I (hwst s)"]
    by (simp add: lcd_inputcontrol_def init_cursor_def heap_simps Let_def move_option_def prev_at [OF ok])
  moreover have "?j < length sel + 4" using sel(2) by auto
  ultimately show ?thesis using input_rep_move [OF rep h(2)] by blast
qed

lemma adjust_ok:
  assumes "0 \<le> h_inputcursorpos h" "0 \<le> h_inputbolpos h" "1 \<le> w"
  shows "0 \<le> h_inputbolpos (adjust_bol w h)" "h_inputbolpos (adjust_bol w h) \<le> h_inputcursorpos h"
    "h_inputcursorpos h \<le> h_inputbolpos (adjust_bol w h) + w"
  using assms by (auto simp: adjust_bol_def Let_def)

lemma adjust_static [simp]:
  "h_result (adjust_bol w h) = h_result h" "h_selectopts (adjust_bol w h) = h_selectopts h"
  "h_inputselectedopt (adjust_bol w h) = h_inputselectedopt h" "h_maxlen (adjust_bol w h) = h_maxlen h"
  "h_inputcursorpos (adjust_bol w h) = h_inputcursorpos h"
  by (simp_all add: adjust_bol_def Let_def)

lemma insert_text:
  assumes "0 \<notin> set (b @ a)" "limit \<le> int (length (b @ a @ 0 # q))" "ch \<noteq> 0"
    "int (length (b @ a)) < min limit SLCD_TEXTBUF_MAXLEN"
  shows "\<exists>b' q'. lcd_insertchar (b @ a @ 0 # q) (int (length b)) ch limit
           = Ret (int (length b'), b' @ a @ 0 # q') \<and> 0 \<notin> set (b' @ a)
           \<and> length (b' @ a @ 0 # q') = length (b @ a @ 0 # q)
           \<and> int (length (b' @ a)) < min limit SLCD_TEXTBUF_MAXLEN
           \<and> b' = (if int (length b + length a) + 1 < min limit SLCD_TEXTBUF_MAXLEN then b @ [ch] else b)"
proof (cases "int (length b + length a) + 1 < min limit SLCD_TEXTBUF_MAXLEN")
  case True
  then have "q \<noteq> []" using assms(2) by (cases q) auto
  moreover have "lcd_insertchar (b @ a @ 0 # q) (int (length b)) ch limit
      = Ret (int (length b) + 1, b @ ch # a @ 0 # tl q)"
    by (rule lcd_insertchar_insert) (use True assms \<open>q \<noteq> []\<close> in auto)
  ultimately show ?thesis
    using True assms by (intro exI [of _ "b @ [ch]"] exI [of _ "tl q"]) auto
next
  case False
  have "strlen (b @ a @ 0 # q) = Ret (int (length (b @ a)))"
    using assms(1) cstr_append_nul [of "b @ a" q] by (simp add: strlen_def)
  then have "lcd_insertchar (b @ a @ 0 # q) (int (length b)) ch limit = Ret (int (length b), b @ a @ 0 # q)"
    by (rule lcd_insertchar_full) (use False assms(3) in auto)
  then show ?thesis using False assms by auto
qed

lemma delete_text:
  assumes "0 \<notin> set (b @ a)" "b \<noteq> []" "int (length (b @ a)) < min limit SLCD_TEXTBUF_MAXLEN"
  shows "lcd_insertchar (b @ a @ 0 # q) (int (length b)) 0 limit
       = Ret (int (length (butlast b)), butlast b @ a @ 0 # 0 # q)"
proof -
  obtain c x where b: "b = c @ [x]" using assms(2) by (cases b rule: rev_cases) auto
  show ?thesis
    using lcd_insertchar_delete [of c a x limit q] assms by (simp add: b add.commute)
qed

text \<open>\<open>ENTER\<close> edits the text as the selected option says and returns whether it was \<open>END\<close>.\<close>

lemma enter_edits:
  assumes rep: "input_rep I s hp sel j limit (b, a)"
  defines "u \<equiv> options sel ! opos (length sel) j"
  shows "\<exists>s'. lcd_inputcontrol I hp SLCD_ENTER s = Ret (u = SLCD_UCHR_END1, s')
           \<and> input_rep I s' hp sel j limit (edit u limit (b, a))"
proof -
  let ?w = "op_width I (hwst s)"
  have base: "selection_ok sel" "j < length sel + 4" "1 \<le> ?w" "0 \<notin> set (b @ a)"
      "int (length (b @ a)) < min limit SLCD_TEXTBUF_MAXLEN"
    using rep by (auto simp: input_rep_def)
  obtain h r q where h: "hp \<noteq> NULL" "handles s hp = Some h"
      "h_selectopts h = Some (concat (options sel) @ 0 # r)"
      "h_inputselectedopt h = at (options sel) (int (opos (length sel) j))"
      "bufs s (h_result h) = Some (b @ a @ 0 # q)" "h_maxlen h = limit"
      "h_inputcursorpos h = int (length b)" "0 \<le> h_inputbolpos h"
      "h_inputbolpos h \<le> h_inputcursorpos h" "h_inputcursorpos h \<le> h_inputbolpos h + ?w"
      "limit \<le> int (length (b @ a @ 0 # q))"
    using rep by (auto simp: input_rep_def)
  have ok: "glyphs (options sel)" "options sel \<noteq> []" using options_ok [OF base(1)] by auto
  have pos: "opos (length sel) j < length (options sel)" using base(2) by (auto simp: opos_def)
  have u8: "lcd_getutf8char (concat (options sel) @ 0 # r) (at (options sel) (int (opos (length sel) j))) = Ret u"
    using char_at [OF ok] pos by (simp add: glyph_def idx_small u_def)
  have uc: "uchar u" unfolding u_def using ok(1) pos by (auto simp: glyphs_def utext_def)
  have init: "init_cursor ?w hp s = Ret s" using h by (simp add: init_cursor_def heap_simps)
  have fin: "\<exists>s'. res_bind (st_h hp (adjust_bol ?w) s2) (\<lambda>s. Ret (False, s)) = Ret (False, s')
        \<and> input_rep I s' hp sel j limit ba'"
    if "handles s2 = (handles s)(hp \<mapsto> h2)" "bufs s2 = (bufs s)(h_result h := Some (fst ba' @ snd ba' @ 0 # q'))"
      "hwst s2 = hwst s" "0 \<notin> set (fst ba' @ snd ba')" "limit \<le> int (length (fst ba' @ snd ba' @ 0 # q'))"
      "int (length (fst ba' @ snd ba')) < min limit SLCD_TEXTBUF_MAXLEN"
      "h_result h2 = h_result h" "h_selectopts h2 = h_selectopts h"
      "h_inputselectedopt h2 = h_inputselectedopt h" "h_maxlen h2 = h_maxlen h"
      "h_inputcursorpos h2 = int (length (fst ba'))" "0 \<le> h_inputbolpos h2" for s2 h2 ba' q'
  proof -
    have "handles s2 hp = Some h2" using that(1) by simp
    then show ?thesis
      using that adjust_ok [of h2 ?w] base(3)
      by (auto simp: heap_simps intro!: input_control_frame [OF rep h(2), where h' = "adjust_bol ?w h2"])
  qed
  have ctl: "lcd_inputcontrol I hp SLCD_ENTER s = res_bind (input_enter ?w hp s)
      (\<lambda>(e, s). if e then Ret (True, s) else res_bind (st_h hp (adjust_bol ?w) s) (\<lambda>s. Ret (False, s)))"
    using h(1) init by (simp add: lcd_inputcontrol_def Let_def)
  have same: "handles s = (handles s)(hp \<mapsto> h)" "bufs s = (bufs s)(h_result h := Some (b @ a @ 0 # q))"
    using h by auto
  have noedit: "\<exists>s'. res_bind (st_h hp (adjust_bol ?w) s) (\<lambda>s. Ret (False, s)) = Ret (False, s')
        \<and> input_rep I s' hp sel j limit (b, a)"
  proof (rule fin [of s h "(b, a)" q])
    show "bufs s = (bufs s)(h_result h \<mapsto> fst (b, a) @ snd (b, a) @ 0 # q)"
      unfolding fst_conv snd_conv by (rule same(2))
  qed (use h base in \<open>auto simp: fun_upd_idem_iff\<close>)
  have menu_neq: "SLCD_UCHR_DEL1 \<noteq> SLCD_UCHR_END1" "SLCD_UCHR_LEFT \<noteq> SLCD_UCHR_END1"
      "SLCD_UCHR_LEFT \<noteq> SLCD_UCHR_DEL1" "SLCD_UCHR_RIGHT \<noteq> SLCD_UCHR_END1"
      "SLCD_UCHR_RIGHT \<noteq> SLCD_UCHR_DEL1" "SLCD_UCHR_RIGHT \<noteq> SLCD_UCHR_LEFT"
    by (simp_all add: uchr_defs)
  consider (done_sel) "u = SLCD_UCHR_END1" | (del) "u = SLCD_UCHR_DEL1" | (left) "u = SLCD_UCHR_LEFT"
    | (right) "u = SLCD_UCHR_RIGHT"
    | (char) "u \<notin> {SLCD_UCHR_END1, SLCD_UCHR_DEL1, SLCD_UCHR_LEFT, SLCD_UCHR_RIGHT}"
    by auto
  then show ?thesis
  proof cases
    case done_sel
    then have "input_enter ?w hp s = Ret (True, s)"
      using h(2,3,4) u8 by (simp add: input_enter_def heap_simps Let_def)
    then show ?thesis using ctl done_sel rep by (simp add: edit_def)
  next
    case del
    show ?thesis
    proof (cases "b = []")
      case True
      then have "input_enter ?w hp s = Ret (False, s)"
        using h del u8 menu_neq by (simp add: input_enter_def heap_simps Let_def)
      then show ?thesis
        using noedit ctl True h base del menu_neq by (simp add: edit_def)
    next
      case False
      let ?h = "h\<lparr>h_inputcursorpos := int (length (butlast b))\<rparr>"
      let ?s = "s\<lparr>bufs := (bufs s)(h_result h \<mapsto> butlast b @ a @ 0 # 0 # q), handles := (handles s)(hp \<mapsto> ?h)\<rparr>"
      have "input_enter ?w hp s = Ret (False, ?s)"
        using h del u8 menu_neq False delete_text [OF base(4) False base(5), of q]
        by (simp add: input_enter_def edit_result_def heap_simps Let_def Suc_le_eq)
      moreover obtain c x where "b = c @ [x]" using False by (cases b rule: rev_cases) auto
      ultimately show ?thesis
        using fin [of ?s ?h "(butlast b, a)" "0 # q"] ctl h base del menu_neq False
        by (auto simp: edit_def)
    qed
  next
    case left
    show ?thesis
    proof (cases "b = []")
      case True
      then have "input_enter ?w hp s = Ret (False, s)"
        using h left u8 menu_neq by (simp add: input_enter_def heap_simps Let_def)
      then show ?thesis
        using noedit ctl True h base left menu_neq by (simp add: edit_def)
    next
      case False
      let ?h = "h\<lparr>h_inputcursorpos := int (length b) - 1, h_inputbolpos :=
          (if int (length b) - 1 < h_inputbolpos h then int (length b) - 1 else h_inputbolpos h)\<rparr>"
      let ?s = "s\<lparr>handles := (handles s)(hp \<mapsto> ?h)\<rparr>"
      have "input_enter ?w hp s = Ret (False, ?s)"
        using h left u8 menu_neq False by (simp add: input_enter_def heap_simps Let_def)
      moreover have "butlast b @ last b # a = b @ a" using False by simp
      moreover obtain c x where "b = c @ [x]" using False by (cases b rule: rev_cases) auto
      ultimately show ?thesis
        using fin [of ?s ?h "(butlast b, last b # a)" q] ctl h base left menu_neq False same(2)
        by (auto simp: edit_def)
    qed
  next
    case right
    have n: "strlen (b @ a @ 0 # q) = Ret (int (length b + length a))"
      using base(4) cstr_append_nul [of "b @ a" q] by (simp add: strlen_def)
    show ?thesis
    proof (cases a)
      case Nil
      then have "input_enter ?w hp s = Ret (False, s)"
        using h right u8 menu_neq n by (simp add: input_enter_def heap_simps Let_def)
      then show ?thesis
        using noedit ctl Nil h base right menu_neq by (simp add: edit_def)
    next
      case (Cons x t)
      let ?h = "h\<lparr>h_inputcursorpos := int (length b) + 1, h_inputbolpos :=
          (if int (length b) + 1 - h_inputbolpos h > ?w then int (length b) + 1 - ?w else h_inputbolpos h)\<rparr>"
      let ?s = "s\<lparr>handles := (handles s)(hp \<mapsto> ?h)\<rparr>"
      have "input_enter ?w hp s = Ret (False, ?s)"
        using h right u8 menu_neq n Cons by (simp add: input_enter_def heap_simps Let_def)
      then show ?thesis
        using fin [of ?s ?h "(b @ [x], t)" q] ctl h base right menu_neq same(2)
        by (auto simp: edit_def Cons)
    qed
  next
    case char
    have nz: "hd (u @ [0]) \<noteq> 0" "hd (u @ [0]) = hd u" using uc by (cases u; simp)+
    obtain b' q' where ins: "lcd_insertchar (b @ a @ 0 # q) (int (length b)) (hd u) limit
          = Ret (int (length b'), b' @ a @ 0 # q')" "0 \<notin> set (b' @ a)"
        "length (b' @ a @ 0 # q') = length (b @ a @ 0 # q)"
        "int (length (b' @ a)) < min limit SLCD_TEXTBUF_MAXLEN"
        "b' = (if int (length b + length a) + 1 < min limit SLCD_TEXTBUF_MAXLEN then b @ [hd u] else b)"
      using insert_text [OF base(4) h(11) _ base(5), of "hd u"] nz by metis
    let ?h = "h\<lparr>h_inputcursorpos := int (length b')\<rparr>"
    let ?s = "s\<lparr>bufs := (bufs s)(h_result h \<mapsto> b' @ a @ 0 # q'), handles := (handles s)(hp \<mapsto> ?h)\<rparr>"
    have "input_enter ?w hp s = Ret (False, ?s)"
      using h char u8 nz ins(1) by (simp add: input_enter_def edit_result_def heap_simps Let_def)
    moreover have "edit u limit (b, a) = (b', a)"
      using char ins(5) by (simp add: edit_def)
    ultimately show ?thesis
      using fin [of ?s ?h "(b', a)" q'] ctl h base char ins by auto
  qed
qed

section \<open>The session of an input screen\<close>

text \<open>C18.
  On an input screen whose selection is made of characters of at most three bytes, none of them one of the reserved
  glyphs that the control skips, the left and right keys move round the characters offered, \<open>DEL\<close>, left, right and
  \<open>END\<close>, one at a time, the skipped glyphs passed over.  \<open>ENTER\<close> reports \<open>END\<close>; \<open>DEL\<close> deletes the byte before the
  cursor, left and right move the cursor over one byte of the text, and a character is inserted at the cursor if there
  is room: its first byte, which is all of an ASCII character but not of a longer one.  No command leaves the caller's
  buffer, fails to return, or moves the cursor off the display.
\<close>

theorem inputcontrol_edits:
  assumes "input_rep I s hp sel j limit (b, a)"
  defines "u \<equiv> options sel ! opos (length sel) j"
  shows "\<exists>s'. lcd_inputcontrol I hp cmd s = Ret (cmd = SLCD_ENTER \<and> u = SLCD_UCHR_END1, s')
           \<and> input_rep I s' hp sel
               (case cmd of SLCD_LEFT \<Rightarrow> if j = 0 then length sel + 3 else j - 1
                          | SLCD_RIGHT \<Rightarrow> (j + 1) mod (length sel + 4) | SLCD_ENTER \<Rightarrow> j) limit
               (if cmd = SLCD_ENTER then edit u limit (b, a) else (b, a))"
  using move_left [OF assms(1)] move_right [OF assms(1)] enter_edits [OF assms(1)]
  by (cases cmd) (simp_all add: u_def)

text \<open>
  A new input screen starts with \<open>END\<close> selected and the cursor behind the preset text, for every
  selection of up to 103 bytes and every caller's buffer that holds the preset.
\<close>

theorem inputcreate_ready:
  assumes mem: "\<forall>n. \<not> oom s n" and dim: "op_height I (hwst s) = int H" "1 \<le> op_width I (hwst s)"
    and sel: "selection_ok sel" "length (concat sel) \<le> 103"
    and buf: "result \<noteq> NULL" "bufs s result = Some (b @ 0 # q)" "0 \<notin> set b"
      "int (length b) < min limit SLCD_TEXTBUF_MAXLEN" "limit \<le> int (length (b @ 0 # q))"
  shows "\<exists>s'. lcd_inputcreate I (Some (concat sel @ 0 # r)) result limit s = Ret (Suc (nalloc s), s')
           \<and> input_rep I s' (Suc (nalloc s)) sel (length sel + 3) limit (b, [])"
proof -
  let ?hp = "Suc (nalloc s)" and ?w = "op_width I (hwst s)"
  obtain s1 h where s1: "lcd_framecreate I s = Ret (?hp, s1)" "handles s1 ?hp = Some h"
      "h_inputselectedopt h = 0" "hwst s1 = hwst s" "bufs s1 = bufs s" "oom s1 = oom s"
    using framecreate_rep [OF mem dim(1)] by blast
  have nz: "0 \<notin> set (concat sel)" using sel(1) glyphs_nz by (auto simp: selection_ok_def)
  have str: "strlen (concat sel @ 0 # r) = Ret (int (length (concat sel)))"
    "cstr (concat sel @ 0 # r) = concat sel"
    using nz by (simp_all add: strlen_def del: set_concat)
  have menu: "concat sel @ SLCD_USTR_INPUTMENU = concat (options sel)" "length SLCD_USTR_INPUTMENU = 24"
    by (simp_all add: options_def input_chars_def SLCD_USTR_INPUTMENU_def uchr_defs)
  let ?h = "h\<lparr>h_type := SLCD_INPUT, h_selectopts := Some (zstr (concat (options sel))),
              h_result := result, h_maxlen := limit, h_inputbolpos := -1, h_inputcursorpos := -1\<rparr>"
  let ?s2 = "s1\<lparr>nalloc := Suc (nalloc s1), handles := (handles s1)(?hp \<mapsto> ?h)\<rparr>"
  have create: "lcd_inputcreate I (Some (concat sel @ 0 # r)) result limit s
      = res_bind (lcd_inputcontrol I ?hp SLCD_LEFT ?s2) (\<lambda>(_, s). Ret (?hp, s))"
    using s1 mem buf(1,4) str sel(2)
    by (simp add: lcd_inputcreate_def ld_str_def SLCD_TEXTBUF_MAXLEN_def menu heap_simps lcd_malloc_def
          Let_def del: set_concat)
  let ?bol = "if int (length b) < ?w then 0 else int (length b) - ?w + 1"
  let ?s3 = "?s2\<lparr>handles := (handles s1)(?hp \<mapsto> ?h\<lparr>h_inputcursorpos := int (length b), h_inputbolpos := ?bol\<rparr>)\<rparr>"
  have n: "strlen (b @ 0 # q) = Ret (int (length b))" using buf(3) by (simp add: strlen_def)
  have init: "init_cursor ?w ?hp ?s2 = Ret ?s3" "init_cursor ?w ?hp ?s3 = Ret ?s3"
    using s1 buf(2) n by (auto simp: init_cursor_def heap_simps)
  have "lcd_inputcontrol I ?hp SLCD_LEFT ?s2 = lcd_inputcontrol I ?hp SLCD_LEFT ?s3"
    using init s1(4) by (simp add: lcd_inputcontrol_def Let_def)
  moreover have "at (options sel) 0 = 0" by (simp add: at_def idx_def)
  then have "input_rep I ?s3 ?hp sel 0 limit (b, [])"
    using sel(1) dim(2) s1 buf
    by (auto simp: input_rep_def opos_def zstr_def)
  then obtain s' where "lcd_inputcontrol I ?hp SLCD_LEFT ?s3 = Ret (False, s')"
      "input_rep I s' ?hp sel (length sel + 3) limit (b, [])"
    using move_left by fastforce
  ultimately show ?thesis using create by simp
qed

section \<open>Yes/no screens and alarms\<close>

text \<open>
  The selected option of a yes/no screen stays between the first and the last one under every
  sequence of keys, and only left and right are accepted.
\<close>

theorem yesno_in_range:
  assumes "handles s hp = Some h" "hp \<noteq> NULL" "0 \<le> h_yesnoopt h" "h_yesnoopt h \<le> h_yesnomax h"
  shows "\<exists>s' h'. lcd_yesnocontrol hp cmd s = Ret (cmd \<noteq> SLCD_ENTER, s') \<and> handles s' hp = Some h'
           \<and> h_yesnomax h' = h_yesnomax h \<and> 0 \<le> h_yesnoopt h' \<and> h_yesnoopt h' \<le> h_yesnomax h
           \<and> lcd_yesnoresult hp s' = Ret (case cmd of
                 SLCD_LEFT \<Rightarrow> max 0 (h_yesnoopt h - 1)
               | SLCD_RIGHT \<Rightarrow> min (h_yesnomax h) (h_yesnoopt h + 1)
               | SLCD_ENTER \<Rightarrow> h_yesnoopt h)"
  using assms by (cases cmd) (auto simp: lcd_yesnocontrol_def lcd_yesnoresult_def heap_simps)

section \<open>Witnesses\<close>

text \<open>The selection \<open>ab\<close>, and a buffer of six bytes preset to \<open>Hi\<close>.\<close>

definition demo_sel :: "byte list list" where
  "demo_sel = [[97], [98]]"

lemma demo_sel_ok: "selection_ok demo_sel"
  by (simp add: selection_ok_def demo_sel_def cont_def skipped_def uchr_defs)

definition demo_preset :: "nat lcdst" where
  "demo_preset = (demo_state Map.empty (init_handle 4) 2)\<lparr>bufs := [9 \<mapsto> [72, 105, 0, 0, 0, 0]]\<rparr>"

definition demo_input :: "nat lcdst" where
  "demo_input = (demo_state Map.empty ((init_handle 4)\<lparr>h_type := SLCD_INPUT,
      h_selectopts := Some (concat (options demo_sel) @ [0]), h_inputselectedopt := 1,
      h_result := 9, h_maxlen := 6, h_inputcursorpos := 2, h_inputbolpos := 0\<rparr>) 2)
      \<lparr>bufs := [9 \<mapsto> [72, 105, 0, 0, 0, 0]]\<rparr>"

lemma demo_input_rep: "input_rep demo_ops demo_input 1 demo_sel 1 6 ([72, 105], [])"
proof -
  have "at (options demo_sel) (int (opos (length demo_sel) 1)) = 1"
    by (simp add: at_def idx_def opos_def demo_sel_def offs_def options_def)
  then show ?thesis
    using demo_sel_ok
    by (simp add: input_rep_def demo_input_def demo_state_def demo_ops_def demo_sel_def
          SLCD_TEXTBUF_MAXLEN_def init_handle_def)
qed

theorem inputcontrol_edits_witness:
  "\<exists>s'. lcd_inputcontrol demo_ops 1 SLCD_ENTER demo_input = Ret (False, s')
     \<and> input_rep demo_ops s' 1 demo_sel 1 6 ([72, 105, 98], [])"
proof -
  have u: "options demo_sel ! opos (length demo_sel) 1 = [98]"
    by (simp add: options_def demo_sel_def opos_def)
  have e: "edit [98] 6 ([72, 105], []) = ([72, 105, 98], [])" "[98] \<noteq> SLCD_UCHR_END1"
    by (simp_all add: edit_def uchr_defs SLCD_TEXTBUF_MAXLEN_def)
  show ?thesis using inputcontrol_edits [OF demo_input_rep, of SLCD_ENTER] unfolding u using e by simp
qed

theorem inputcreate_ready_witness:
  "\<exists>s'. lcd_inputcreate demo_ops (Some [97, 98, 0]) 9 6 demo_preset = Ret (3, s')
     \<and> input_rep demo_ops s' 3 demo_sel 5 6 ([72, 105], [])"
proof -
  have hyps: "\<forall>n. \<not> oom demo_preset n" "op_height demo_ops (hwst demo_preset) = int 2"
    "1 \<le> op_width demo_ops (hwst demo_preset)"
    by (simp_all add: demo_preset_def demo_state_def demo_ops_def)
  have hyps2: "length (concat demo_sel) \<le> 103" "9 \<noteq> NULL"
    "bufs demo_preset 9 = Some ([72, 105] @ 0 # [0, 0, 0])" "0 \<notin> set [72, 105 :: byte]"
    "int (length [72, 105 :: byte]) < min 6 SLCD_TEXTBUF_MAXLEN"
    "6 \<le> int (length ([72, 105] @ 0 # [0, 0, 0 :: byte]))"
    by (simp_all add: demo_preset_def demo_state_def demo_sel_def SLCD_TEXTBUF_MAXLEN_def)
  have n: "Suc (nalloc demo_preset) = 3" "concat demo_sel @ 0 # [] = [97, 98, 0]" "length demo_sel + 3 = 5"
    by (simp_all add: demo_preset_def demo_state_def demo_sel_def)
  show ?thesis
    using inputcreate_ready [OF hyps demo_sel_ok hyps2, of "[]"] unfolding n by blast
qed

definition demo_yesno :: "nat lcdst" where
  "demo_yesno = demo_state Map.empty ((init_handle 4)\<lparr>h_type := SLCD_YESNO, h_yesnoopt := 1, h_yesnomax := 1\<rparr>) 2"

theorem yesno_in_range_witness:
  "\<exists>s'. lcd_yesnocontrol 1 SLCD_RIGHT demo_yesno = Ret (True, s') \<and> lcd_yesnoresult 1 s' = Ret 1"
proof -
  have "handles demo_yesno 1 = Some ((init_handle 4)\<lparr>h_type := SLCD_YESNO, h_yesnoopt := 1, h_yesnomax := 1\<rparr>)"
    by (simp add: demo_yesno_def demo_state_def)
  from yesno_in_range [OF this, of SLCD_RIGHT] show ?thesis by auto
qed

end
