(* ===== verification/Lcd_Refresh.thy ===== *)
theory Lcd_Refresh
  imports Lcd_Input
begin

text \<open>
  \<^verbatim>\<open>lcd_refresh\<close>, \<^verbatim>\<open>lcd_tick\<close> and \<^verbatim>\<open>lcd_dumpscreen\<close> of \<^verbatim>\<open>src/libreciva/src/lcd/lcd.c\<close>.  The
  local time is a parameter; \<^verbatim>\<open>printf\<close> and \<^verbatim>\<open>strftime\<close> (in the C locale) are written out for the
  formats the code uses.
\<close>

section \<open>Formatted text\<close>

text \<open>\<open>%2d\<close> and \<open>%02d\<close> of the clock's numbers, which are not negative.\<close>

definition fmt_2d :: "byte \<Rightarrow> int \<Rightarrow> byte list" where
  "fmt_2d pad n = (let d = dec_digits (nat n) in replicate (2 - length d) pad @ d)"

definition fmt_hm :: "byte \<Rightarrow> tm \<Rightarrow> byte list" where
  "fmt_hm pad t = fmt_2d pad (tm_hour t) @ bytes '':'' @ fmt_2d pad (tm_min t)"

definition day_names :: "string list" where
  "day_names = [''Sun'', ''Mon'', ''Tue'', ''Wed'', ''Thu'', ''Fri'', ''Sat'']"

definition month_names :: "string list" where
  "month_names = [''Jan'', ''Feb'', ''Mar'', ''Apr'', ''May'', ''Jun'', ''Jul'', ''Aug'', ''Sep'',
                  ''Oct'', ''Nov'', ''Dec'']"

text \<open>\<open>%a, %d-%b \<close>, with a question mark for a number out of range.\<close>

definition fmt_date :: "tm \<Rightarrow> byte list" where
  "fmt_date t =
     bytes (if 0 \<le> tm_wday t \<and> tm_wday t < 7 then day_names ! nat (tm_wday t) else ''?'')
     @ bytes '', '' @ fmt_2d 48 (tm_mday t) @ bytes ''-''
     @ bytes (if 0 \<le> tm_mon t \<and> tm_mon t < 12 then month_names ! nat (tm_mon t) else ''?'')
     @ bytes '' ''"

section \<open>Refreshing the display\<close>

definition putline ::
  "'hw lcdhw_ops \<Rightarrow> int \<Rightarrow> byte list \<Rightarrow> slcd_e_arrows \<Rightarrow> 'hw lcdst \<Rightarrow> 'hw lcdst res" where
  "putline I r b sel s =
     res_bind (op_hwputline I r b sel (hwst s)) (\<lambda>(_, d). Ret (s\<lparr>hwst := d\<rparr>))"

definition cursor :: "'hw lcdhw_ops \<Rightarrow> int \<Rightarrow> int \<Rightarrow> bool \<Rightarrow> 'hw lcdst \<Rightarrow> 'hw lcdst res" where
  "cursor I x y on s = res_bind (op_hwcursor I x y on (hwst s)) (\<lambda>(_, d). Ret (s\<lparr>hwst := d\<rparr>))"

definition clearscr :: "'hw lcdhw_ops \<Rightarrow> 'hw lcdst \<Rightarrow> 'hw lcdst res" where
  "clearscr I s = res_bind (op_hwclearscr I (hwst s)) (\<lambda>d. Ret (s\<lparr>hwst := d\<rparr>))"

text \<open>The rows of a menu: \<open>n\<close> lines from line \<open>r\<close> on, starting with the row \<open>p\<close>.\<close>

fun menu_lines ::
  "'hw lcdhw_ops \<Rightarrow> nat \<Rightarrow> int \<Rightarrow> ptr \<Rightarrow> ptr \<Rightarrow> 'hw lcdst \<Rightarrow> 'hw lcdst res" where
  "menu_lines I 0 r p curl s = Ret s"
| "menu_lines I (Suc n) r p curl s =
     res_bind (if p = curl
               then res_bind (lcd_textbuildscrollingline I p s) (\<lambda>(b, s).
                    putline I r b SLCD_SEL_ARROWS s)
               else res_bind (ld_row p s) (\<lambda>row.
                    res_bind (ld_str (row_str row)) (\<lambda>b.
                    putline I r b SLCD_SEL_NOARROWS s))) (\<lambda>s.
     res_bind (ld_row p s) (\<lambda>row. menu_lines I n (r + 1) (row_next row) curl s))"

fun blank_lines :: "'hw lcdhw_ops \<Rightarrow> nat \<Rightarrow> int \<Rightarrow> 'hw lcdst \<Rightarrow> 'hw lcdst res" where
  "blank_lines I 0 r s = Ret s"
| "blank_lines I (Suc n) r s =
     res_bind (putline I r (zstr []) SLCD_SEL_NOARROWS s) (\<lambda>s. blank_lines I n (r + 1) s)"

definition refresh_menu :: "'hw lcdhw_ops \<Rightarrow> lcd_handle \<Rightarrow> 'hw lcdst \<Rightarrow> 'hw lcdst res" where
  "refresh_menu I h s =
     res_bind (cursor I 0 0 False s) (\<lambda>s.
     let height = op_height I (hwst s); n = min (h_numrows h) height
     in res_bind (menu_lines I (nat n) 0 (h_tsc h) (h_curl h) s) (\<lambda>s.
        blank_lines I (nat (height - max 0 n)) (max 0 n) s))"

text \<open>The rows of a frame; row 1 of a yes/no screen is overridden with \<open>over\<close>.\<close>

fun frame_lines ::
  "'hw lcdhw_ops \<Rightarrow> nat \<Rightarrow> int \<Rightarrow> ptr \<Rightarrow> byte list option \<Rightarrow> 'hw lcdst \<Rightarrow> 'hw lcdst res" where
  "frame_lines I 0 r p over s = Ret s"
| "frame_lines I (Suc n) r p over s =
     res_bind (if over \<noteq> None \<and> r = 1 then putline I r (the over) SLCD_SEL_NOARROWS s
               else res_bind (lcd_textbuildscrollingline I p s) (\<lambda>(b, s).
                    putline I r b SLCD_SEL_NOARROWS s)) (\<lambda>s.
     res_bind (ld_row p s) (\<lambda>row. frame_lines I n (r + 1) (row_next row) over s))"

definition refresh_clock :: "'hw lcdhw_ops \<Rightarrow> tm \<Rightarrow> lcd_handle \<Rightarrow> 'hw lcdst \<Rightarrow> 'hw lcdst res" where
  "refresh_clock I now h s =
     res_bind (cursor I 0 0 False s) (\<lambda>s.
     if op_capabilities I (hwst s) AND SLCD_HAS_DRIVERCLOCK \<noteq> 0
     then res_bind (ld_row (h_top h) s) (\<lambda>row.
          res_bind (ld_str (row_str row)) (\<lambda>title.
          res_bind (op_hwclock I now (h_almon h) (h_alm h) SLCD_CLK_24HR (lit ''AM'') (lit ''PM'')
                      title (hwst s)) (\<lambda>(_, d). Ret (s\<lparr>hwst := d\<rparr>))))
     else res_bind (clearscr I s) (\<lambda>s.
          res_bind (ld_row (h_top h) s) (\<lambda>row.
          res_bind (ld_str (row_str row)) (\<lambda>title.
          res_bind (putline I 0 title SLCD_SEL_NOARROWS s) (\<lambda>s.
          res_bind (putline I 1 (zstr (fmt_hm 48 now)) SLCD_SEL_NOARROWS s) (\<lambda>s.
          res_bind (putline I 2 (zstr (fmt_date now)) SLCD_SEL_NOARROWS s) (\<lambda>s.
          if h_almon h
          then putline I 3 (zstr (bytes ''(al '' @ fmt_hm 48 (h_alm h) @ bytes '')'')) SLCD_SEL_NOARROWS s
          else Ret s)))))))"

definition status_text :: "'hw lcdhw_ops \<Rightarrow> tm \<Rightarrow> bool \<Rightarrow> 'hw \<Rightarrow> byte list" where
  "status_text I now showicons d =
     (let icon = (\<lambda>i. op_geticon I i d)
      in if op_capabilities I d AND SLCD_HAS_ICONS = 0 \<and> showicons
         then (if icon SLCD_ICON_REWIND then SLCD_UCHR_REW
               else if icon SLCD_ICON_PAUSE then SLCD_UCHR_PAUSE
               else if icon SLCD_ICON_STOP then SLCD_UCHR_STOP
               else if icon SLCD_ICON_FF then SLCD_UCHR_FF else bytes '' '')
              @ (if icon SLCD_ICON_MUTE then SLCD_UCHR_MUTE else bytes '' '')
              @ bytes ''   '' @ fmt_hm 48 now @ bytes '' ''
              @ (if icon SLCD_ICON_SLEEP then bytes ''Zzz'' else bytes ''   '')
              @ (if icon SLCD_ICON_ALARM then bytes ''A'' else bytes '' '')
         else fmt_hm 32 now)"

definition refresh_frame ::
  "'hw lcdhw_ops \<Rightarrow> tm \<Rightarrow> ptr \<Rightarrow> lcd_handle \<Rightarrow> 'hw lcdst \<Rightarrow> 'hw lcdst res" where
  "refresh_frame I now handle h s =
     res_bind (if h_statusrow h \<ge> 0
               then res_bind (lcd_frameprintf handle (h_statusrow h)
                                (Some (status_text I now (h_showicons h) (hwst s))) s) (\<lambda>(_, s). Ret s)
               else Ret s) (\<lambda>s.
     res_bind (cursor I 0 0 False s) (\<lambda>s.
     frame_lines I (nat (op_height I (hwst s))) 0 (h_tsc h) None s))"

definition refresh_input :: "'hw lcdhw_ops \<Rightarrow> lcd_handle \<Rightarrow> 'hw lcdst \<Rightarrow> 'hw lcdst res" where
  "refresh_input I h s =
     res_bind (lcd_inputbuildscrollingline (op_width I (hwst s)) (h_selectopts h)
                 (h_inputselectedopt h)) (\<lambda>b.
     res_bind (putline I 0 b SLCD_SEL_ARROWS s) (\<lambda>s.
     res_bind (cursor I (h_inputcursorpos h - h_inputbolpos h - 1) 1 True s) (\<lambda>s.
     res_bind (ld_buf (h_result h) s) (\<lambda>res.
     res_bind (lcd_inputbuildinputline res (h_inputbolpos h) (h_inputcursorpos h)) (\<lambda>b.
     putline I 1 b SLCD_SEL_NOARROWS s)))))"

text \<open>
  The option line of a yes/no screen: \<open>n\<close> more characters from the \<open>i\<close>-th on, \<open>j\<close> options
  opened so far.
\<close>

fun yesno_loop ::
  "int \<Rightarrow> int \<Rightarrow> byte list \<Rightarrow> nat \<Rightarrow> int \<Rightarrow> int \<Rightarrow> byte list \<Rightarrow> byte list res" where
  "yesno_loop width opt opts 0 i j lb = Ret lb"
| "yesno_loop width opt opts (Suc n) i j lb =
     res_bind (rd opts i) (\<lambda>c.
       if c = 0 then Ret lb
       else
         res_bind (if c = 0x2f
                   then res_bind (if opt = j - 1 then strcat lb (lit ''>'') else Ret lb) (\<lambda>lb.
                        strcat lb (lit ''/''))
                   else Ret lb) (\<lambda>lb.
         res_bind (if i = 0 \<or> c = 0x2f
                   then res_bind (if opt = j then strcat lb (lit ''<'') else Ret lb) (\<lambda>lb.
                        Ret (j + 1, lb))
                   else Ret (j, lb)) (\<lambda>(j, lb).
         res_bind (if c \<noteq> 0x2f
                   then res_bind (lcd_strcatc (Some lb) width c) (\<lambda>(_, lb). Ret (the lb))
                   else Ret lb) (\<lambda>lb.
         yesno_loop width opt opts n (i + 1) j lb))))"

definition refresh_yesno :: "'hw lcdhw_ops \<Rightarrow> ptr \<Rightarrow> lcd_handle \<Rightarrow> 'hw lcdst \<Rightarrow> 'hw lcdst res" where
  "refresh_yesno I handle h s =
     res_bind (ld_str (h_linebuf h)) (\<lambda>lb.
     res_bind (wr lb 0 0) (\<lambda>lb.
     res_bind (ld_str (h_yesnoopts h)) (\<lambda>opts.
     let width = op_width I (hwst s)
     in res_bind (yesno_loop width (h_yesnoopt h) opts (nat width) 0 0 lb) (\<lambda>lb.
        res_bind (if h_yesnoopt h = h_yesnomax h then strcat lb (lit ''>'') else Ret lb) (\<lambda>lb.
        res_bind (st_h handle (\<lambda>h. h\<lparr>h_linebuf := Some lb\<rparr>) s) (\<lambda>s.
        res_bind (cursor I 0 0 False s) (\<lambda>s.
        frame_lines I (nat (op_height I (hwst s))) 0 (h_top h) (Some lb) s)))))))"

definition lcd_refresh :: "'hw lcdhw_ops \<Rightarrow> tm \<Rightarrow> ptr \<Rightarrow> 'hw lcdst \<Rightarrow> 'hw lcdst res" where
  "lcd_refresh I now handle s =
     (if handle = NULL then clearscr I s
      else res_bind (ld_h handle s) (\<lambda>h.
        if h_tsc h = NULL then clearscr I s
        else
          res_bind (case h_type h of
                      SLCD_MENU \<Rightarrow> refresh_menu I h s
                    | SLCD_CLOCK \<Rightarrow> refresh_clock I now h s
                    | SLCD_FRAME \<Rightarrow> refresh_frame I now handle h s
                    | SLCD_INPUT \<Rightarrow> refresh_input I h s
                    | SLCD_YESNO \<Rightarrow> refresh_yesno I handle h s) (\<lambda>s.
          res_bind (op_hwrefresh I (hwst s)) (\<lambda>d.
          Ret (s\<lparr>hwst := d, currentscreen := handle\<rparr>)))))"

definition lcd_tick :: "'hw lcdhw_ops \<Rightarrow> tm \<Rightarrow> 'hw lcdst \<Rightarrow> 'hw lcdst res" where
  "lcd_tick I now s =
     (if currentscreen s = NULL then Ret s
      else res_bind (ld_h (currentscreen s) s) (\<lambda>h.
        case h_type h of
          SLCD_MENU \<Rightarrow> res_bind (lcd_refresh I now (currentscreen s) s) (\<lambda>s. Ret (s\<lparr>lastmins := -1\<rparr>))
        | SLCD_FRAME \<Rightarrow> res_bind (lcd_refresh I now (currentscreen s) s) (\<lambda>s. Ret (s\<lparr>lastmins := -1\<rparr>))
        | SLCD_CLOCK \<Rightarrow>
            if lastmins s \<noteq> tm_min now
            then lcd_refresh I now (currentscreen s) (s\<lparr>lastmins := tm_min now\<rparr>)
            else Ret s
        | _ \<Rightarrow> Ret s))"

definition lcd_fetch :: "ptr \<Rightarrow> 'hw lcdst \<Rightarrow> bool" where
  "lcd_fetch handle s = True"

section \<open>Dumping the screen\<close>

text \<open>\<open>strlen(buf)<maxlen-k\<close> compares unsigned 32-bit numbers.\<close>

definition room :: "byte list \<Rightarrow> int \<Rightarrow> int \<Rightarrow> bool res" where
  "room buf maxlen k = res_bind (strlen buf) (\<lambda>n. Ret (n < (maxlen - k) mod 2 ^ 32))"

text \<open>The characters of one line; \<open>c\<close> counts them, \<open>cc\<close> is the place of the next one.\<close>

fun dump_chars ::
  "nat \<Rightarrow> int \<Rightarrow> byte list \<Rightarrow> int \<Rightarrow> int \<Rightarrow> byte list \<Rightarrow> (nat \<times> byte list) res" where
  "dump_chars 0 maxlen line c cc buf = Ret (0, buf)"
| "dump_chars (Suc n) maxlen line c cc buf =
     (if cc = 0 \<and> c > 0 then Ret (Suc n, buf)
      else res_bind (room buf maxlen 3) (\<lambda>ok.
           if \<not> ok then Ret (Suc n, buf)
           else res_bind (lcd_getutf8char line cc) (\<lambda>u8.
                res_bind (lcd_getnextcharacterpos line cc) (\<lambda>cc.
                res_bind (strcat buf (zstr (lcd_parsespecial u8))) (\<lambda>buf.
                dump_chars n maxlen line (c + 1) cc buf)))))"

fun dump_pad :: "nat \<Rightarrow> int \<Rightarrow> byte list \<Rightarrow> byte list res" where
  "dump_pad 0 maxlen buf = Ret buf"
| "dump_pad (Suc n) maxlen buf =
     res_bind (room buf maxlen 2) (\<lambda>ok.
       if \<not> ok then Ret buf
       else res_bind (strcat buf (lit '' '')) (\<lambda>buf. dump_pad n maxlen buf))"

fun dump_lines ::
  "int \<Rightarrow> nat \<Rightarrow> int \<Rightarrow> byte list list \<Rightarrow> int list \<Rightarrow> int \<Rightarrow> byte list \<Rightarrow> byte list res" where
  "dump_lines width 0 maxlen lines selr r buf = Ret buf"
| "dump_lines width (Suc n) maxlen lines selr r buf =
     res_bind (room buf maxlen 4) (\<lambda>ok.
       if \<not> ok then Ret buf
       else
         res_bind (rd selr r) (\<lambda>a.
         res_bind (strcat buf (lit (if a = 13 then ''<'' else '' ''))) (\<lambda>buf.
         res_bind (rd lines r) (\<lambda>line.
         res_bind (dump_chars (nat width) maxlen line 0 0 buf) (\<lambda>(left, buf).
         res_bind (dump_pad left maxlen buf) (\<lambda>buf.
         res_bind (strcat buf (zstr ([if a = 13 then 0x3e else 0x20] @ [10]))) (\<lambda>buf.
         dump_lines width n maxlen lines selr (r + 1) buf)))))))"

definition lcd_dumpscreen ::
  "'hw lcdhw_ops \<Rightarrow> byte list \<Rightarrow> int \<Rightarrow> 'hw lcdst \<Rightarrow> byte list res" where
  "lcd_dumpscreen I buf maxlen s =
     res_bind (wr buf 0 0) (\<lambda>buf.
     case (op_hwgetscreen I (hwst s), op_hwgetselrows I (hwst s)) of
       (Some lines, Some selr) \<Rightarrow>
         dump_lines (op_width I (hwst s)) (nat (op_height I (hwst s))) maxlen lines selr 0 buf
     | _ \<Rightarrow> if op_height I (hwst s) > 0 then Fault else Ret buf)"

end
