(* ===== verification/Lcd_Screen.thy ===== *)
theory Lcd_Screen
  imports Lcd_State
begin

text \<open>
  What the two implementations of \<^verbatim>\<open>lcdhw.h\<close> have in common: the \<open>struct lcd_draw_screen\<close> with
  the operations on it, and the bit masks of icons and LEDs.  In the C code each file has its
  own copy of these functions.
\<close>

section \<open>The screen structure\<close>

definition LCD_ARROW_NONE :: int where "LCD_ARROW_NONE = 10"
definition LCD_ARROW_LEFT :: int where "LCD_ARROW_LEFT = 11"
definition LCD_ARROW_RIGHT :: int where "LCD_ARROW_RIGHT = 12"
definition LCD_ARROW_BOTH :: int where "LCD_ARROW_BOTH = 13"
definition LCD_CURSOR_OFF :: int where "LCD_CURSOR_OFF = 10"
definition LCD_CURSOR_ON :: int where "LCD_CURSOR_ON = 11"
definition LCD_LINE_CONTENTS_TEXT :: int where "LCD_LINE_CONTENTS_TEXT = 0"

text \<open>The three arrays are \<open>None\<close> before they are allocated and after they were freed.\<close>

record lcd_draw_screen =
  acText :: "byte list list option"
  piArrows :: "int list option"
  piLineContents :: "int list option"
  iX :: int
  iY :: int
  iCursorType :: int

definition ld_arr :: "'a option \<Rightarrow> 'a res" where
  "ld_arr p = (case p of None \<Rightarrow> Fault | Some x \<Rightarrow> Ret x)"

definition scr_cursor :: "int \<Rightarrow> int \<Rightarrow> int \<Rightarrow> int \<Rightarrow> bool \<Rightarrow> lcd_draw_screen \<Rightarrow> bool \<times> lcd_draw_screen" where
  "scr_cursor wid hei x y status scr =
     (if x \<ge> 0 \<and> x < wid \<and> y \<ge> 0 \<and> y < 2 \<and> y < hei
      then (True, scr\<lparr>iX := x, iY := y,
                      iCursorType := (if status then LCD_CURSOR_ON else LCD_CURSOR_OFF)\<rparr>)
      else (False, scr))"

fun clear_rows :: "nat \<Rightarrow> int \<Rightarrow> byte list list \<Rightarrow> int list \<Rightarrow> (byte list list \<times> int list) res" where
  "clear_rows 0 r t a = Ret (t, a)"
| "clear_rows (Suc n) r t a =
     res_bind (rd t r) (\<lambda>row.
     res_bind (wr row 0 0) (\<lambda>row.
     res_bind (wr t r row) (\<lambda>t.
     res_bind (wr a r LCD_ARROW_NONE) (\<lambda>a. clear_rows n (r + 1) t a))))"

definition scr_clear :: "int \<Rightarrow> int \<Rightarrow> lcd_draw_screen \<Rightarrow> lcd_draw_screen res" where
  "scr_clear wid hei scr =
     (case acText scr of
        None \<Rightarrow> Ret scr
      | Some t \<Rightarrow>
          res_bind (if hei > 0 then ld_arr (piArrows scr) else Ret []) (\<lambda>a.
          res_bind (clear_rows (nat hei) 0 t a) (\<lambda>(t, a).
          Ret (snd (scr_cursor wid hei 0 0 False
                 (scr\<lparr>acText := Some t, piArrows := (if hei > 0 then Some a else piArrows scr)\<rparr>))))))"

text \<open>\<open>for (i=0; i<limit && str[i]!='\0'; i++) row[i]=str[i]\<close>, then the terminating NUL.\<close>

function copy_line :: "int \<Rightarrow> int \<Rightarrow> byte list \<Rightarrow> byte list \<Rightarrow> byte list res" where
  "copy_line i limit str row =
     (if i < limit
      then res_bind (rd str i) (\<lambda>c.
           if c = 0 then wr row i 0
           else res_bind (wr row i c) (\<lambda>row. copy_line (i + 1) limit str row))
      else wr row i 0)"
  by pat_completeness auto
termination by (relation "measure (\<lambda>(i, limit, str, row). nat (limit - i))") auto

declare copy_line.simps [simp del]

definition scr_putline ::
  "int \<Rightarrow> int \<Rightarrow> int \<Rightarrow> byte list \<Rightarrow> slcd_e_arrows \<Rightarrow> lcd_draw_screen \<Rightarrow> (bool \<times> lcd_draw_screen) res" where
  "scr_putline wid hei num str sel scr =
     (if num < 0 \<or> num \<ge> hei then Ret (False, scr)
      else res_bind (ld_arr (acText scr)) (\<lambda>t.
           res_bind (rd t num) (\<lambda>row.
           res_bind (copy_line 0 (wid * 3) str row) (\<lambda>row.
           res_bind (wr t num row) (\<lambda>t.
           res_bind (ld_arr (piArrows scr)) (\<lambda>a.
           res_bind (wr a num (case sel of SLCD_SEL_ARROWS \<Rightarrow> LCD_ARROW_BOTH
                               | SLCD_SEL_NOARROWS \<Rightarrow> LCD_ARROW_NONE)) (\<lambda>a.
           Ret (True, scr\<lparr>acText := Some t, piArrows := Some a\<rparr>))))))))"

section \<open>Lines that are shown\<close>

text \<open>The screen has \<open>hei\<close> rows with room for three bytes for each column, and their arrows.\<close>

definition scr_ok :: "int \<Rightarrow> int \<Rightarrow> lcd_draw_screen \<Rightarrow> bool" where
  "scr_ok wid hei scr \<longleftrightarrow>
     0 \<le> wid \<and>
     (\<exists>t a. acText scr = Some t \<and> piArrows scr = Some a \<and> int (length t) = hei \<and> int (length a) = hei
        \<and> (\<forall>row\<in>set t. int (length row) = 3 * wid + 1 \<and> 0 \<in> set row)
        \<and> set a \<subseteq> {LCD_ARROW_NONE, LCD_ARROW_BOTH})"

definition scr_lines :: "lcd_draw_screen \<Rightarrow> (byte list \<times> bool) list" where
  "scr_lines scr = map (\<lambda>(row, a). (cstr row, a = LCD_ARROW_BOTH))
                     (zip (the (acText scr)) (the (piArrows scr)))"

lemma copy_line_copies:
  assumes "0 \<in> set str" "p = take (length p) (cstr str)" "int (length p) \<le> limit"
    "length p + length q = nat limit + 1"
  shows "\<exists>q'. copy_line (int (length p)) limit str (p @ q) = Ret (take (nat limit) (cstr str) @ 0 # q')
           \<and> length (take (nat limit) (cstr str) @ 0 # q') = length (p @ q)"
  using assms(2-)
proof (induction "nat limit - length p" arbitrary: p q)
  case 0
  then have l: "int (length p) = limit" by linarith
  have "length q = 1" using 0(4) l by linarith
  then obtain x q' where q: "q = x # q'" by (cases q) auto
  have "wr (p @ x # q') (int (length p)) 0 = Ret (p @ 0 # q')" by (simp add: wr_def list_update_append)
  moreover have "take (nat limit) (cstr str) = p" using 0(2) l by (metis nat_int)
  ultimately show ?case
    unfolding q using l by (subst copy_line.simps) simp
next
  case (Suc d)
  have lt: "int (length p) < limit" using Suc.hyps(2) by linarith
  have "0 < length q" using Suc.prems(3) lt by linarith
  then obtain x q' where q: "q = x # q'" by (cases q) auto
  show ?case
  proof (cases "length p < length (cstr str)")
    case True
    let ?c = "cstr str ! length p"
    have c: "str ! length p = ?c" "length p < length str"
      using True nth_cstr length_cstr_less [OF assms(1)] by auto
    have nz: "?c \<noteq> 0" using nth_mem [OF True] zero_notin_cstr [of str] by metis
    have "wr (p @ x # q') (int (length p)) ?c = Ret (p @ ?c # q')"
      by (simp add: wr_def list_update_append)
    moreover have "\<exists>r. copy_line (int (length (p @ [?c]))) limit str ((p @ [?c]) @ q')
        = Ret (take (nat limit) (cstr str) @ 0 # r)
        \<and> length (take (nat limit) (cstr str) @ 0 # r) = length ((p @ [?c]) @ q')"
    proof (rule Suc.hyps(1))
      show "p @ [?c] = take (length (p @ [?c])) (cstr str)"
        using arg_cong [OF Suc.prems(1), of "\<lambda>p. p @ [?c]"] True by (simp add: take_Suc_conv_app_nth)
    qed (use Suc.hyps(2) Suc.prems(2,3) lt q in auto)
    ultimately show ?thesis
      using c nz lt q by (subst copy_line.simps) (simp add: rd_int add.commute)
  next
    case False
    then have "take (length p) (cstr str) = cstr str" by simp
    then have p: "p = cstr str" using Suc.prems(1) by metis
    have "str ! length p = 0" "length p < length str"
      using nth_length_cstr [OF assms(1)] length_cstr_less [OF assms(1)] p by auto
    moreover have "wr (p @ x # q') (int (length p)) 0 = Ret (p @ 0 # q')"
      by (simp add: wr_def list_update_append)
    moreover have "take (nat limit) (cstr str) = cstr str" using lt p by simp
    ultimately show ?thesis
      using lt q p by (subst copy_line.simps) (simp add: rd_int)
  qed
qed

lemma scr_okE:
  assumes "scr_ok wid hei scr"
  obtains t a where "acText scr = Some t" "piArrows scr = Some a" "int (length t) = hei"
    "int (length a) = hei" "\<And>row. row \<in> set t \<Longrightarrow> int (length row) = 3 * wid + 1 \<and> 0 \<in> set row"
    "set a \<subseteq> {LCD_ARROW_NONE, LCD_ARROW_BOTH}" "0 \<le> wid"
  using assms unfolding scr_ok_def by metis

lemma length_scr_lines: "scr_ok wid hei scr \<Longrightarrow> int (length (scr_lines scr)) = hei"
  by (auto simp: scr_ok_def scr_lines_def)

lemma scr_putline_line:
  assumes ok: "scr_ok wid hei scr" and n: "int n < hei" and b: "0 \<in> set b"
  shows "\<exists>scr'. scr_putline wid hei (int n) b sel scr = Ret (True, scr') \<and> scr_ok wid hei scr'
           \<and> scr_lines scr' = (scr_lines scr)[n := (take (nat (3 * wid)) (cstr b), sel = SLCD_SEL_ARROWS)]"
proof -
  obtain t a where ta: "acText scr = Some t" "piArrows scr = Some a" "int (length t) = hei"
      "int (length a) = hei" "\<And>row. row \<in> set t \<Longrightarrow> int (length row) = 3 * wid + 1 \<and> 0 \<in> set row"
      "set a \<subseteq> {LCD_ARROW_NONE, LCD_ARROW_BOTH}" "0 \<le> wid"
    using scr_okE [OF ok] by metis
  have nt: "n < length t" "n < length a" using ta n by auto
  have row: "int (length (t ! n)) = 3 * wid + 1" using ta(5) nt by simp
  let ?s = "take (nat (3 * wid)) (cstr b)"
  have "length (t ! n) = nat (wid * 3) + 1" using row ta(7) by linarith
  then have "length [] + length (t ! n) = nat (wid * 3) + 1" by simp
  then obtain q where q: "copy_line 0 (wid * 3) b (t ! n) = Ret (?s @ 0 # q)"
      "length (?s @ 0 # q) = length (t ! n)"
    using copy_line_copies [OF b, of "[]" "wid * 3" "t ! n"] ta(7) by (auto simp: mult.commute)
  let ?v = "case sel of SLCD_SEL_ARROWS \<Rightarrow> LCD_ARROW_BOTH | SLCD_SEL_NOARROWS \<Rightarrow> LCD_ARROW_NONE"
  let ?scr = "scr\<lparr>acText := Some (t[n := ?s @ 0 # q]), piArrows := Some (a[n := ?v])\<rparr>"
  have run: "scr_putline wid hei (int n) b sel scr = Ret (True, ?scr)"
    using ta(1-4) nt n q(1) by (simp add: scr_putline_def ld_arr_def rd_int wr_int)
  have v: "?v \<in> {LCD_ARROW_NONE, LCD_ARROW_BOTH}" "(?v = LCD_ARROW_BOTH) = (sel = SLCD_SEL_ARROWS)"
    by (cases sel; simp add: LCD_ARROW_NONE_def LCD_ARROW_BOTH_def)+
  have ok': "scr_ok wid hei ?scr"
  proof -
    have "\<forall>row\<in>set (t[n := ?s @ 0 # q]). int (length row) = 3 * wid + 1 \<and> 0 \<in> set row"
      using ta(5) row q(2) by (auto dest!: subsetD [OF set_update_subset_insert])
    moreover have "set (a[n := ?v]) \<subseteq> {LCD_ARROW_NONE, LCD_ARROW_BOTH}"
      using ta(6) v(1) set_update_subset_insert [of a n ?v] by blast
    ultimately show ?thesis using ta(3,4,7) by (simp add: scr_ok_def)
  qed
  have nz: "0 \<notin> set ?s" by (auto dest: in_set_takeD)
  have "scr_lines ?scr = (scr_lines scr)[n := (?s, sel = SLCD_SEL_ARROWS)]"
    using ta(1,2) v(2) nz nt by (simp add: scr_lines_def map_update zip_update flip: v(2))
  then show ?thesis using run ok' by blast
qed

lemma clear_rows_runs:
  assumes "\<forall>row\<in>set t. int (length row) = 3 * wid + 1 \<and> 0 \<in> set row" "0 \<le> wid"
    "length a = length t" "k + n = length t"
  shows "\<exists>t' a'. clear_rows n (int k) t a = Ret (t', a') \<and> length t' = length t \<and> length a' = length t
           \<and> (\<forall>row\<in>set t'. int (length row) = 3 * wid + 1 \<and> 0 \<in> set row)
           \<and> (\<forall>i<length t. i < k \<longrightarrow> t' ! i = t ! i \<and> a' ! i = a ! i)
           \<and> (\<forall>i<length t. k \<le> i \<longrightarrow> cstr (t' ! i) = [] \<and> a' ! i = LCD_ARROW_NONE)"
  using assms(1,3,4)
proof (induction n arbitrary: k t a)
  case 0
  then show ?case by auto
next
  case (Suc n)
  have k: "k < length t" "k < length a" using Suc.prems by auto
  have row: "int (length (t ! k)) = 3 * wid + 1" using Suc.prems(1) k by simp
  then have pos: "0 < length (t ! k)" using assms(2) by linarith
  let ?t = "t[k := (t ! k)[0 := 0]]" and ?a = "a[k := LCD_ARROW_NONE]"
  have w: "wr (t ! k) 0 0 = Ret ((t ! k)[0 := 0])" using wr_int [OF pos] by simp
  have z: "0 \<in> set ((t ! k)[0 := 0])" "cstr ((t ! k)[0 := 0]) = []"
    using pos by (cases "t ! k"; simp add: cstr_def)+
  have "int (length r) = 3 * wid + 1 \<and> 0 \<in> set r" if "r \<in> set ?t" for r
  proof -
    have "r = (t ! k)[0 := 0] \<or> r \<in> set t" using that set_update_subset_insert by fastforce
    then show ?thesis using Suc.prems(1) row z(1) length_list_update [of "t ! k" 0 0] by metis
  qed
  then obtain t' a' where ta: "clear_rows n (int (Suc k)) ?t ?a = Ret (t', a')"
      "length t' = length t" "length a' = length t"
      "\<forall>row\<in>set t'. int (length row) = 3 * wid + 1 \<and> 0 \<in> set row"
      "\<forall>i<length t. i < Suc k \<longrightarrow> t' ! i = ?t ! i \<and> a' ! i = ?a ! i"
      "\<forall>i<length t. Suc k \<le> i \<longrightarrow> cstr (t' ! i) = [] \<and> a' ! i = LCD_ARROW_NONE"
    using Suc.IH [of ?t ?a "Suc k"] Suc.prems by auto
  have "clear_rows (Suc n) (int k) t a = Ret (t', a')"
    using ta(1) k w by (simp add: rd_int wr_int add.commute)
  moreover have "\<forall>i<length t. i < k \<longrightarrow> t' ! i = t ! i \<and> a' ! i = a ! i" using ta(5) by simp
  moreover have "\<forall>i<length t. k \<le> i \<longrightarrow> cstr (t' ! i) = [] \<and> a' ! i = LCD_ARROW_NONE"
    using ta(5,6) z(2) k by (auto simp: le_eq_less_or_eq nth_list_update dest: spec [of _ k])
  ultimately show ?case using ta(2,3,4) by blast
qed

lemma scr_cursor_lines: "scr_lines (snd (scr_cursor wid hei x y st scr)) = scr_lines scr"
  "scr_ok wid hei (snd (scr_cursor wid hei x y st scr)) = scr_ok wid hei scr"
  by (simp_all add: scr_cursor_def scr_lines_def scr_ok_def)

lemma scr_clear_lines:
  assumes "scr_ok wid hei scr" "1 \<le> hei"
  shows "\<exists>scr'. scr_clear wid hei scr = Ret scr' \<and> scr_ok wid hei scr'
           \<and> scr_lines scr' = replicate (nat hei) ([], False)"
proof -
  obtain t a where ta: "acText scr = Some t" "piArrows scr = Some a" "int (length t) = hei"
      "int (length a) = hei" "\<And>row. row \<in> set t \<Longrightarrow> int (length row) = 3 * wid + 1 \<and> 0 \<in> set row"
      "0 \<le> wid"
    using scr_okE [OF assms(1)] by metis
  have len: "length a = length t" "0 + nat hei = length t" using ta by auto
  obtain t' a' where ta': "clear_rows (nat hei) (int 0) t a = Ret (t', a')" "length t' = length t"
      "length a' = length t" "\<forall>row\<in>set t'. int (length row) = 3 * wid + 1 \<and> 0 \<in> set row"
      "\<forall>i<length t. 0 \<le> i \<longrightarrow> cstr (t' ! i) = [] \<and> a' ! i = LCD_ARROW_NONE"
    using clear_rows_runs [of t wid a 0 "nat hei"] ta(5,6) len by blast
  let ?scr = "scr\<lparr>acText := Some t', piArrows := Some a'\<rparr>"
  have "scr_clear wid hei scr = Ret (snd (scr_cursor wid hei 0 0 False ?scr))"
    using ta(1,2) ta'(1) assms(2) by (simp add: scr_clear_def ld_arr_def)
  moreover have "set a' \<subseteq> {LCD_ARROW_NONE}" using ta'(3,5) by (auto simp: in_set_conv_nth)
  then have "scr_ok wid hei ?scr" using ta' ta(3,6) by (auto simp: scr_ok_def)
  moreover have "scr_lines ?scr = replicate (nat hei) ([], False)"
    using ta' len(2) by (intro nth_equalityI) (auto simp: scr_lines_def LCD_ARROW_NONE_def LCD_ARROW_BOTH_def)
  ultimately show ?thesis using scr_cursor_lines by metis
qed

section \<open>Icons and LEDs\<close>

definition RLED_MENU :: "32 word" where "RLED_MENU = 1"
definition RLED_VOLUME :: "32 word" where "RLED_VOLUME = 2"

definition led_mask :: "slcd_e_icons \<Rightarrow> 32 word" where
  "led_mask icon =
     (case icon of SLCD_ICON_MENU \<Rightarrow> RLED_MENU | SLCD_ICON_VOLUME \<Rightarrow> RLED_VOLUME | _ \<Rightarrow> 0)"

definition icon_mask :: "slcd_e_icons \<Rightarrow> 32 word" where
  "icon_mask icon =
     (case icon of SLCD_ICON_SHIFT \<Rightarrow> 0x001 | SLCD_ICON_IRADIO \<Rightarrow> 0x002 | SLCD_ICON_MEDIA \<Rightarrow> 0x004
      | SLCD_ICON_SHUFFLE \<Rightarrow> 0x008 | SLCD_ICON_REPEAT \<Rightarrow> 0x010 | SLCD_ICON_SLEEP \<Rightarrow> 0x020
      | SLCD_ICON_MUTE \<Rightarrow> 0x040 | SLCD_ICON_ALARM \<Rightarrow> 0x080 | SLCD_ICON_SNOOZE \<Rightarrow> 0x100 | _ \<Rightarrow> 0)"

definition set_mask :: "bool \<Rightarrow> 32 word \<Rightarrow> 32 word \<Rightarrow> 32 word" where
  "set_mask state msk w = (if state then w OR msk else (w OR msk) XOR msk)"

lemma set_mask_self: "msk \<noteq> 0 \<Longrightarrow> (set_mask state msk w AND msk \<noteq> 0) = state"
proof -
  assume m: "msk \<noteq> 0"
  have "(w OR msk) AND msk = msk" "((w OR msk) XOR msk) AND msk = 0"
    by (rule bit_word_eqI; auto simp: bit_simps)+
  then show ?thesis using m by (simp add: set_mask_def)
qed

lemma set_mask_other: "msk AND m' = 0 \<Longrightarrow> set_mask state msk w AND m' = w AND m'"
  unfolding set_mask_def
  by (rule bit_word_eqI) (auto simp: bit_simps bit_eq_iff)

text \<open>Every icon that has a msk has a bit of its own.\<close>

lemma icon_mask_disjoint: "i \<noteq> j \<Longrightarrow> icon_mask i AND icon_mask j = 0"
  by (cases i; cases j; simp add: icon_mask_def)

lemma led_mask_disjoint: "i \<noteq> j \<Longrightarrow> led_mask i AND led_mask j = 0"
  by (cases i; cases j; simp add: led_mask_def RLED_MENU_def RLED_VOLUME_def)

end
