(* ===== verification/Lcd_Iface.thy ===== *)
theory Lcd_Iface
  imports Lcd_State
begin

text \<open>
  What \<^verbatim>\<open>lcd.c\<close> relies on of an implementation of \<^verbatim>\<open>lcdhw.h\<close>, as a locale: the screen is a list
  of lines, each a text and whether it has arrows, and each operation changes it as its comment
  in \<^verbatim>\<open>lcdhw.h\<close> says.  \<^verbatim>\<open>Lcd_Reciva\<close> and \<^verbatim>\<open>Lcd_Devel\<close> prove it of the two implementations.
\<close>

text \<open>
  \<open>ok\<close> is the implementation's invariant and \<open>fits\<close> the texts it can show; \<open>handed\<close> is what was last
  given to the display, the \<open>picture\<close> of the lines that were there.  A line holds as many
  bytes of a text as three for each column.
\<close>

locale lcd_backend =
  fixes I :: "'hw lcdhw_ops"
    and ok :: "'hw \<Rightarrow> bool"
    and shown :: "'hw \<Rightarrow> (byte list \<times> bool) list"
    and fits :: "byte list \<Rightarrow> bool"
    and handed :: "'hw \<Rightarrow> 'pic"
    and picture :: "int \<Rightarrow> (byte list \<times> bool) list \<Rightarrow> 'pic"
  assumes blank_fits: "fits []"
    and height: "ok d \<Longrightarrow> op_height I d = int (length (shown d)) \<and> 1 \<le> length (shown d)"
    and putline_shows: "ok d \<Longrightarrow> n < length (shown d) \<Longrightarrow> 0 \<in> set b \<Longrightarrow> fits (cstr b) \<Longrightarrow>
      \<exists>d'. op_hwputline I (int n) b sel d = Ret (True, d') \<and> ok d' \<and> op_width I d' = op_width I d
         \<and> shown d' = (shown d)[n := (take (nat (3 * op_width I d)) (cstr b), sel = SLCD_SEL_ARROWS)]"
    and cursor_keeps: "ok d \<Longrightarrow> \<exists>c d'. op_hwcursor I x y st d = Ret (c, d') \<and> ok d'
         \<and> op_width I d' = op_width I d \<and> shown d' = shown d"
    and clearscr_clears: "ok d \<Longrightarrow> \<exists>d'. op_hwclearscr I d = Ret d' \<and> ok d'
         \<and> op_width I d' = op_width I d \<and> shown d' = replicate (length (shown d)) ([], False)"
    and refresh_hands: "ok d \<Longrightarrow> \<exists>d'. op_hwrefresh I d = Ret d' \<and> ok d'
         \<and> op_width I d' = op_width I d \<and> shown d' = shown d
         \<and> handed d' = picture (op_width I d) (shown d)"

end
