(* ===== verification/Lcd_Reciva.thy ===== *)
theory Lcd_Reciva
  imports Lcd_Screen Lcd_Iface "HOL-Library.Signed_Division"
begin

text \<open>
  \<^verbatim>\<open>src/libreciva/src/lcd/lcd_reciva.c\<close>, the display of the radio behind \<^verbatim>\<open>/dev/misc/lcd\<close>.  The
  driver is a parameter: whether each \<open>open\<close> succeeds and what it answers to each request,
  given the requests before it.  The state records the requests made, latest first.
\<close>

section \<open>The driver\<close>

datatype lcd_ioctl =
    IOC_LCD_GET_CAPABILITIES | IOC_LCD_GET_WIDTH | IOC_LCD_GET_HEIGHT | IOC_LCD_LEDS_SUPPORTED
  | IOC_LCD_BACKLIGHT int | IOC_LCD_SET_CONTRAST int | IOC_LCD_GRID int | IOC_LCD_INVERSE_GRID int
  | IOC_LCD_DRAW_ICONS "32 word" | IOC_LCD_LED "32 word"
  | IOC_LCD_SET_AMPM_TEXT "(byte list \<times> byte list) option"
  | IOC_LCD_DRAW_SCREEN "(byte list \<times> bool) list"
  | IOC_LCD_DRAW_CLOCK "int list" "byte list"
  | IOC_LCD_GRAB_SCREEN_REGION int int int int

datatype ioctl_reply = Done int | Failed bool

text \<open>
  \<open>Done v\<close>: the request succeeded, with the value \<open>v\<close> for those that return one.  \<open>Failed b\<close>: it
  returned -1, and \<open>b\<close> tells whether \<open>errno\<close> is \<^verbatim>\<open>ENOSYS\<close>.
\<close>

record lcd_driver =
  drv_open :: "lcd_ioctl list \<Rightarrow> bool"
  drv_ioctl :: "lcd_ioctl list \<Rightarrow> lcd_ioctl \<Rightarrow> ioctl_reply"

definition SLCD_HAS_BRIGHTNESS :: "32 word" where "SLCD_HAS_BRIGHTNESS = 32"
definition SLCD_HAS_CONTRAST :: "32 word" where "SLCD_HAS_CONTRAST = 64"
definition SLCD_HAS_GRID :: "32 word" where "SLCD_HAS_GRID = 128"
definition SLCD_HAS_INVGRID :: "32 word" where "SLCD_HAS_INVGRID = 256"
definition SLCD_HAS_LEDS :: "32 word" where "SLCD_HAS_LEDS = 1024"

record reciva =
  wid :: int
  hei :: int
  cap :: "32 word"
  icons :: "32 word"
  leds :: "32 word"
  scr :: lcd_draw_screen
  clkmode :: int
  clktitle :: "byte list"
  requests :: "lcd_ioctl list"

definition lcd_hwdoioctl :: "lcd_driver \<Rightarrow> lcd_ioctl \<Rightarrow> reciva \<Rightarrow> (ioctl_reply \<times> reciva) res" where
  "lcd_hwdoioctl D req l =
     (if \<not> drv_open D (requests l) then Exit
      else Ret (drv_ioctl D (requests l) req, l\<lparr>requests := req # requests l\<rparr>))"

section \<open>The operations\<close>

definition lcd_hwclearscr :: "reciva \<Rightarrow> reciva res" where
  "lcd_hwclearscr l = res_bind (scr_clear (wid l) (hei l) (scr l)) (\<lambda>x. Ret (l\<lparr>scr := x\<rparr>))"

definition lcd_hwputline ::
  "int \<Rightarrow> byte list \<Rightarrow> slcd_e_arrows \<Rightarrow> reciva \<Rightarrow> (bool \<times> reciva) res" where
  "lcd_hwputline num str sel l =
     res_bind (scr_putline (wid l) (hei l) num str sel (scr l)) (\<lambda>(ok, x). Ret (ok, l\<lparr>scr := x\<rparr>))"

definition lcd_hwcursor :: "int \<Rightarrow> int \<Rightarrow> bool \<Rightarrow> reciva \<Rightarrow> (bool \<times> reciva) res" where
  "lcd_hwcursor x y status l =
     (let (ok, x) = scr_cursor (wid l) (hei l) x y status (scr l) in Ret (ok, l\<lparr>scr := x\<rparr>))"

text \<open>The driver reads the screen: here what its lines show.\<close>

definition lcd_hwrefresh :: "lcd_driver \<Rightarrow> reciva \<Rightarrow> reciva res" where
  "lcd_hwrefresh D l =
     res_bind (lcd_hwdoioctl D (IOC_LCD_DRAW_SCREEN (scr_lines (scr l))) l) (\<lambda>(_, l). Ret l)"

definition lcd_brightness :: "lcd_driver \<Rightarrow> int \<Rightarrow> reciva \<Rightarrow> reciva res" where
  "lcd_brightness D level l =
     (if cap l AND SLCD_HAS_BRIGHTNESS = 0 then Ret l
      else
        let level = (if level < 0 then 0 else level);
            level = (if level > 100 then 100 else level);
            level = (level * 31) sdiv 100
        in res_bind (lcd_hwdoioctl D (IOC_LCD_BACKLIGHT level) l) (\<lambda>(_, l). Ret l))"

definition lcd_contrast :: "lcd_driver \<Rightarrow> int \<Rightarrow> reciva \<Rightarrow> reciva res" where
  "lcd_contrast D level l =
     (if cap l AND SLCD_HAS_CONTRAST = 0 then Ret l
      else
        let level = (if level < 0 then 0 else level);
            level = (if level > 100 then 100 else level)
        in res_bind (lcd_hwdoioctl D (IOC_LCD_SET_CONTRAST level) l) (\<lambda>(_, l). Ret l))"

definition lcd_seticon :: "lcd_driver \<Rightarrow> slcd_e_icons \<Rightarrow> bool \<Rightarrow> reciva \<Rightarrow> (bool \<times> reciva) res" where
  "lcd_seticon D icon state l =
     (if led_mask icon \<noteq> 0
      then let l = l\<lparr>leds := set_mask state (led_mask icon) (leds l)\<rparr>
           in res_bind (if cap l AND SLCD_HAS_LEDS \<noteq> 0
                        then res_bind (lcd_hwdoioctl D (IOC_LCD_LED (leds l)) l) (\<lambda>(_, l). Ret l)
                        else Ret l) (\<lambda>l. Ret (True, l))
      else if icon_mask icon \<noteq> 0
      then let l = l\<lparr>icons := set_mask state (icon_mask icon) (icons l)\<rparr>
           in res_bind (if cap l AND SLCD_HAS_ICONS \<noteq> 0
                        then res_bind (lcd_hwdoioctl D (IOC_LCD_DRAW_ICONS (icons l)) l) (\<lambda>(_, l). Ret l)
                        else Ret l) (\<lambda>l. Ret (True, l))
      else Ret (False, l))"

definition lcd_geticon :: "slcd_e_icons \<Rightarrow> reciva \<Rightarrow> bool" where
  "lcd_geticon icon l =
     (if led_mask icon \<noteq> 0 then leds l AND led_mask icon \<noteq> 0
      else if icon_mask icon \<noteq> 0 then icons l AND icon_mask icon \<noteq> 0
      else False)"

definition lcd_capabilities :: "reciva \<Rightarrow> 32 word" where "lcd_capabilities l = cap l"
definition lcd_width :: "reciva \<Rightarrow> int" where "lcd_width l = wid l"
definition lcd_height :: "reciva \<Rightarrow> int" where "lcd_height l = hei l"

text \<open>\<open>strncpy\<close> of at most 31 bytes and the NUL behind them; the string that is stored.\<close>

definition CLK_TITLE_LEN :: nat where "CLK_TITLE_LEN = 32"

definition lcd_hwclock ::
  "lcd_driver \<Rightarrow> tm \<Rightarrow> bool \<Rightarrow> tm \<Rightarrow> slcd_e_clkmode \<Rightarrow> byte list \<Rightarrow> byte list \<Rightarrow> byte list
   \<Rightarrow> reciva \<Rightarrow> (bool \<times> reciva) res" where
  "lcd_hwclock D clk almon alm mode am pm title l =
     (if cap l AND SLCD_HAS_DRIVERCLOCK = 0 then Ret (False, l)
      else
        let l = l\<lparr>clktitle := take (CLK_TITLE_LEN - 1) (cstr title),
                  clkmode := (case mode of SLCD_CLK_12HR \<Rightarrow> 0 | SLCD_CLK_24HR \<Rightarrow> 1)\<rparr>
        in res_bind (lcd_hwdoioctl D (IOC_LCD_SET_AMPM_TEXT (Some (am, pm))) l) (\<lambda>(_, l).
           res_bind (lcd_hwdoioctl D (IOC_LCD_DRAW_CLOCK
               ([tm_hour clk, tm_min clk, tm_sec clk, clkmode l]
                @ (if almon then [1, tm_hour alm, tm_min alm] else [0, 0, 0])) (clktitle l)) l)
             (\<lambda>(_, l). Ret (True, l))))"

definition lcd_hwgetscreen :: "reciva \<Rightarrow> byte list list option" where
  "lcd_hwgetscreen l = acText (scr l)"

definition lcd_hwgetselrows :: "reciva \<Rightarrow> int list option" where
  "lcd_hwgetselrows l = piArrows (scr l)"

text \<open>\<open>if (!(!lcd_hwdoioctl(req) && errno==ENOSYS)) lcd.cap|=bit\<close>\<close>

definition probe :: "lcd_driver \<Rightarrow> lcd_ioctl \<Rightarrow> 32 word \<Rightarrow> reciva \<Rightarrow> reciva res" where
  "probe D req b l =
     res_bind (lcd_hwdoioctl D req l) (\<lambda>(r, l).
       Ret (if r = Failed True then l else l\<lparr>cap := cap l OR b\<rparr>))"

definition query :: "int \<Rightarrow> ioctl_reply \<Rightarrow> int" where
  "query old r = (case r of Done v \<Rightarrow> v | Failed _ \<Rightarrow> old)"

text \<open>
  The structure is static, so zero, before \<^verbatim>\<open>lcd_init\<close>; \<open>tmp\<close> is what the uninitialised local
  holds if the driver does not answer.  \<open>alloc_fails\<close> is the number of the allocation that fails, if one does:
  one of the first three makes the function return, that of a row ends the process.  What
  \<^verbatim>\<open>malloc\<close> leaves in a row behind its first byte is not read.
\<close>

definition screen_alloc :: "int \<Rightarrow> int \<Rightarrow> lcd_draw_screen \<Rightarrow> lcd_draw_screen" where
  "screen_alloc w h x =
     x\<lparr>acText := Some (replicate (nat h) (replicate (nat (3 * w + 1)) 0)),
       piArrows := Some (replicate (nat h) LCD_ARROW_NONE),
       piLineContents := Some (replicate (nat h) LCD_LINE_CONTENTS_TEXT)\<rparr>"

definition init_query :: "lcd_driver \<Rightarrow> int \<Rightarrow> reciva \<Rightarrow> reciva res" where
  "init_query D tmp l =
     res_bind (lcd_hwdoioctl D IOC_LCD_GET_CAPABILITIES l) (\<lambda>(r, l).
     let l = l\<lparr>cap := word_of_int (query (uint (cap l)) r)\<rparr> in
     res_bind (lcd_hwdoioctl D IOC_LCD_GET_WIDTH l) (\<lambda>(r, l).
     let l = l\<lparr>wid := query (wid l) r\<rparr> in
     res_bind (lcd_hwdoioctl D IOC_LCD_GET_HEIGHT l) (\<lambda>(r, l).
     let l = l\<lparr>hei := query (hei l) r\<rparr> in
     res_bind (lcd_hwdoioctl D IOC_LCD_LEDS_SUPPORTED l) (\<lambda>(r, l).
     Ret (if query tmp r \<noteq> 0 then l\<lparr>cap := cap l OR SLCD_HAS_LEDS\<rparr> else l)))))"

definition lcd_init ::
  "lcd_driver \<Rightarrow> int \<Rightarrow> nat option \<Rightarrow> reciva \<Rightarrow> (bool \<times> reciva) res" where
  "lcd_init D tmp alloc_fails l =
     res_bind (init_query D tmp l) (\<lambda>l.
     res_bind (probe D (IOC_LCD_BACKLIGHT 0) SLCD_HAS_BRIGHTNESS l) (\<lambda>l.
     res_bind (probe D (IOC_LCD_SET_CONTRAST 0) SLCD_HAS_CONTRAST l) (\<lambda>l.
     res_bind (probe D (IOC_LCD_GRID 0) SLCD_HAS_GRID l) (\<lambda>l.
     res_bind (probe D (IOC_LCD_INVERSE_GRID 0) SLCD_HAS_INVGRID l) (\<lambda>l.
     res_bind (probe D (IOC_LCD_DRAW_ICONS 0) SLCD_HAS_ICONS l) (\<lambda>l.
     res_bind (probe D (IOC_LCD_SET_AMPM_TEXT None) SLCD_HAS_DRIVERCLOCK l) (\<lambda>l.
     let l = l\<lparr>icons := 0, leds := 0\<rparr> in
     res_bind (lcd_seticon D SLCD_ICON_SHIFT False l) (\<lambda>(_, l).
     res_bind (lcd_brightness D 15 l) (\<lambda>l.
     res_bind (lcd_contrast D 15 l) (\<lambda>l.
     if alloc_fails \<in> {Some 0, Some 1, Some 2} then Ret (False, l)
     else if alloc_fails \<noteq> None \<and> int (the alloc_fails) < hei l + 3 then Exit
     else
         let l = l\<lparr>scr := screen_alloc (wid l) (hei l) (scr l)\<rparr> in
         res_bind (lcd_hwclearscr l) (\<lambda>l.
         res_bind (lcd_hwrefresh D l) (\<lambda>l. Ret (True, l)))))))))))))"

definition lcd_exit :: "reciva \<Rightarrow> reciva" where
  "lcd_exit l = l\<lparr>scr := (scr l)\<lparr>acText := None, piArrows := None, piLineContents := None\<rparr>\<rparr>"

definition lcd_grab_region ::
  "lcd_driver \<Rightarrow> int \<Rightarrow> int \<Rightarrow> int \<Rightarrow> int \<Rightarrow> reciva \<Rightarrow> reciva res" where
  "lcd_grab_region D y x width height l =
     res_bind (lcd_hwdoioctl D (IOC_LCD_GRAB_SCREEN_REGION y x width height) l) (\<lambda>(_, l). Ret l)"

text \<open>The table of operations \<^verbatim>\<open>lcd.c\<close> is linked with.\<close>

definition reciva_ops :: "lcd_driver \<Rightarrow> reciva lcdhw_ops" where
  "reciva_ops D = \<lparr>op_width = lcd_width, op_height = lcd_height, op_capabilities = lcd_capabilities,
     op_hwclearscr = lcd_hwclearscr, op_hwputline = lcd_hwputline, op_hwcursor = lcd_hwcursor,
     op_hwrefresh = lcd_hwrefresh D, op_hwclock = lcd_hwclock D, op_geticon = lcd_geticon,
     op_hwgetscreen = lcd_hwgetscreen, op_hwgetselrows = lcd_hwgetselrows\<rparr>"

section \<open>The display of the radio implements the interface\<close>

definition reciva_ok :: "lcd_driver \<Rightarrow> reciva \<Rightarrow> bool" where
  "reciva_ok D l \<longleftrightarrow> scr_ok (wid l) (hei l) (scr l) \<and> 1 \<le> hei l \<and> (\<forall>q. drv_open D q)"

definition reciva_shown :: "reciva \<Rightarrow> (byte list \<times> bool) list" where
  "reciva_shown l = scr_lines (scr l)"

text \<open>The lines of the last request, if that was to draw the screen.\<close>

definition reciva_handed :: "reciva \<Rightarrow> (byte list \<times> bool) list option" where
  "reciva_handed l = (case requests l of IOC_LCD_DRAW_SCREEN x # _ \<Rightarrow> Some x | _ \<Rightarrow> None)"

lemmas reciva_defs = reciva_ops_def reciva_ok_def reciva_shown_def reciva_handed_def lcd_width_def lcd_height_def
  lcd_hwputline_def lcd_hwcursor_def lcd_hwclearscr_def lcd_hwrefresh_def lcd_hwdoioctl_def

interpretation reciva: lcd_backend "reciva_ops D" "reciva_ok D" reciva_shown "\<lambda>_. True" reciva_handed
  "\<lambda>_. Some" for D
proof
  fix d :: reciva and n :: nat and b :: "byte list" and sel x y st
  show True by simp
  assume ok: "reciva_ok D d"
  then have s: "scr_ok (wid d) (hei d) (scr d)" "1 \<le> hei d" by (simp_all add: reciva_ok_def)
  note len = length_scr_lines [OF s(1)]
  show "op_height (reciva_ops D) d = int (length (reciva_shown d)) \<and> 1 \<le> length (reciva_shown d)"
    using len s(2) by (simp add: reciva_defs)
  show "\<exists>c d'. op_hwcursor (reciva_ops D) x y st d = Ret (c, d') \<and> reciva_ok D d'
      \<and> op_width (reciva_ops D) d' = op_width (reciva_ops D) d \<and> reciva_shown d' = reciva_shown d"
    using ok by (simp add: reciva_defs Let_def case_prod_beta scr_cursor_lines)
  show "\<exists>d'. op_hwclearscr (reciva_ops D) d = Ret d' \<and> reciva_ok D d'
      \<and> op_width (reciva_ops D) d' = op_width (reciva_ops D) d
      \<and> reciva_shown d' = replicate (length (reciva_shown d)) ([], False)"
    using scr_clear_lines [OF s] ok len by (auto simp: reciva_defs)
  show "\<exists>d'. op_hwrefresh (reciva_ops D) d = Ret d' \<and> reciva_ok D d'
      \<and> op_width (reciva_ops D) d' = op_width (reciva_ops D) d \<and> reciva_shown d' = reciva_shown d
      \<and> reciva_handed d' = Some (reciva_shown d)"
    using ok by (auto simp: reciva_defs)
  assume "n < length (reciva_shown d)" "0 \<in> set b"
  then show "\<exists>d'. op_hwputline (reciva_ops D) (int n) b sel d = Ret (True, d') \<and> reciva_ok D d'
      \<and> op_width (reciva_ops D) d' = op_width (reciva_ops D) d
      \<and> reciva_shown d' = (reciva_shown d)[n := (take (nat (3 * op_width (reciva_ops D) d)) (cstr b),
                                             sel = SLCD_SEL_ARROWS)]"
    using scr_putline_line [OF s(1), of n b sel] ok len by (auto simp: reciva_defs)
qed

text \<open>
  After \<^verbatim>\<open>lcd_init\<close> the interface holds, whatever the driver answers, if it reports a height of
  a line at least and a width that is not negative.
\<close>

lemma ioctl_open: "\<forall>q. drv_open D q \<Longrightarrow>
    lcd_hwdoioctl D req l = Ret (drv_ioctl D (requests l) req, l\<lparr>requests := req # requests l\<rparr>)"
  by (simp add: lcd_hwdoioctl_def)

lemma probe_keeps:
  "\<forall>q. drv_open D q \<Longrightarrow> \<exists>l'. probe D req b l = Ret l' \<and> wid l' = wid l \<and> hei l' = hei l"
  by (simp add: probe_def ioctl_open)

lemma seticon_keeps:
  "\<forall>q. drv_open D q \<Longrightarrow>
   \<exists>ok l'. lcd_seticon D icon st l = Ret (ok, l') \<and> wid l' = wid l \<and> hei l' = hei l"
  by (auto simp: lcd_seticon_def ioctl_open Let_def)

lemma brightness_keeps:
  "\<forall>q. drv_open D q \<Longrightarrow> \<exists>l'. lcd_brightness D n l = Ret l' \<and> wid l' = wid l \<and> hei l' = hei l"
  by (simp add: lcd_brightness_def ioctl_open Let_def)

lemma contrast_keeps:
  "\<forall>q. drv_open D q \<Longrightarrow> \<exists>l'. lcd_contrast D n l = Ret l' \<and> wid l' = wid l \<and> hei l' = hei l"
  by (simp add: lcd_contrast_def ioctl_open Let_def)

lemma screen_alloc_ok: "0 \<le> w \<Longrightarrow> 1 \<le> h \<Longrightarrow> scr_ok w h (screen_alloc w h x)"
  by (auto simp: scr_ok_def screen_alloc_def)

text \<open>
  After \<^verbatim>\<open>lcd_init\<close> the screen is blank and the interface holds: whatever the driver answers to
  the other requests, if it reports a height of a line at least and a width.
\<close>

theorem reciva_init_ready:
  assumes D: "\<forall>q. drv_open D q"
    and w: "drv_ioctl D (IOC_LCD_GET_CAPABILITIES # requests l) IOC_LCD_GET_WIDTH = Done w" "0 \<le> w"
    and h: "drv_ioctl D (IOC_LCD_GET_WIDTH # IOC_LCD_GET_CAPABILITIES # requests l) IOC_LCD_GET_HEIGHT = Done h"
      "1 \<le> h"
  shows "\<exists>l'. lcd_init D tmp None l = Ret (True, l') \<and> reciva_ok D l' \<and> lcd_width l' = w \<and> lcd_height l' = h
           \<and> reciva_shown l' = replicate (nat h) ([], False)"
proof -
  note P = probe_keeps [OF D]
  obtain l4 where l4: "init_query D tmp l = Ret l4" "wid l4 = w" "hei l4 = h"
    using D w h by (simp add: init_query_def ioctl_open query_def Let_def)
  obtain l5 where l5: "probe D (IOC_LCD_BACKLIGHT 0) SLCD_HAS_BRIGHTNESS l4 = Ret l5" "wid l5 = w" "hei l5 = h"
    using P l4(2,3) by metis
  obtain l6 where l6: "probe D (IOC_LCD_SET_CONTRAST 0) SLCD_HAS_CONTRAST l5 = Ret l6" "wid l6 = w" "hei l6 = h"
    using P l5(2,3) by metis
  obtain l7 where l7: "probe D (IOC_LCD_GRID 0) SLCD_HAS_GRID l6 = Ret l7" "wid l7 = w" "hei l7 = h"
    using P l6(2,3) by metis
  obtain l8 where l8: "probe D (IOC_LCD_INVERSE_GRID 0) SLCD_HAS_INVGRID l7 = Ret l8" "wid l8 = w" "hei l8 = h"
    using P l7(2,3) by metis
  obtain l9 where l9: "probe D (IOC_LCD_DRAW_ICONS 0) SLCD_HAS_ICONS l8 = Ret l9" "wid l9 = w" "hei l9 = h"
    using P l8(2,3) by metis
  obtain l10 where l10: "probe D (IOC_LCD_SET_AMPM_TEXT None) SLCD_HAS_DRIVERCLOCK l9 = Ret l10"
      "wid l10 = w" "hei l10 = h"
    using P l9(2,3) by metis
  obtain ok l11 where l11: "lcd_seticon D SLCD_ICON_SHIFT False (l10\<lparr>icons := 0, leds := 0\<rparr>) = Ret (ok, l11)"
      "wid l11 = w" "hei l11 = h"
    using seticon_keeps [OF D, of SLCD_ICON_SHIFT False "l10\<lparr>icons := 0, leds := 0\<rparr>"] l10(2,3) by auto
  obtain l12 where l12: "lcd_brightness D 15 l11 = Ret l12" "wid l12 = w" "hei l12 = h"
    using brightness_keeps [OF D] l11(2,3) by metis
  obtain l13 where l13: "lcd_contrast D 15 l12 = Ret l13" "wid l13 = w" "hei l13 = h"
    using contrast_keeps [OF D] l12(2,3) by metis
  let ?l = "l13\<lparr>scr := screen_alloc w h (scr l13)\<rparr>"
  have ok: "reciva_ok D ?l"
    using screen_alloc_ok [OF w(2) h(2)] l13 D h(2) by (simp add: reciva_ok_def)
  obtain la where la: "lcd_hwclearscr ?l = Ret la" "reciva_ok D la" "lcd_width la = w"
      "reciva_shown la = replicate (length (reciva_shown ?l)) ([], False)"
    using reciva.clearscr_clears [OF ok] l13 by (auto simp: reciva_ops_def lcd_width_def)
  obtain lb where lb: "lcd_hwrefresh D la = Ret lb" "reciva_ok D lb" "lcd_width lb = w" "reciva_shown lb = reciva_shown la"
    using reciva.refresh_hands [OF la(2)] la(3) by (auto simp: reciva_ops_def)
  have "hei l13 = int (length (reciva_shown ?l))"
    using reciva.height [OF ok] by (simp add: reciva_ops_def lcd_height_def)
  then have n: "length (reciva_shown ?l) = nat h" using l13(3) by linarith
  have "lcd_init D tmp None l = Ret (True, lb)"
    using l4(1) l5(1) l6(1) l7(1) l8(1) l9(1) l10(1) l11(1) l12(1) l13 la(1) lb(1)
    by (simp add: lcd_init_def Let_def)
  moreover have "lcd_height lb = h"
    using reciva.height [OF lb(2)] lb(4) la(4) n h(2) by (simp add: reciva_ops_def)
  ultimately show ?thesis using lb la(4) n by auto
qed

text \<open>
  Icons and LEDs read back what was written to them, setting one changes no other, and only the
  four transport icons, which the radio does not have, are refused.
\<close>

theorem reciva_icon_roundtrip:
  assumes "\<forall>q. drv_open D q"
  shows "\<exists>l'. lcd_seticon D icon state l = Ret (icon \<notin> {SLCD_ICON_REWIND, SLCD_ICON_PAUSE, SLCD_ICON_STOP, SLCD_ICON_FF}, l')
           \<and> (icon \<notin> {SLCD_ICON_REWIND, SLCD_ICON_PAUSE, SLCD_ICON_STOP, SLCD_ICON_FF} \<longrightarrow> lcd_geticon icon l' = state)
           \<and> (\<forall>other. other \<noteq> icon \<longrightarrow> lcd_geticon other l' = lcd_geticon other l)"
proof -
  have m: "led_mask icon = 0 \<and> icon_mask icon = 0
      \<longleftrightarrow> icon \<in> {SLCD_ICON_REWIND, SLCD_ICON_PAUSE, SLCD_ICON_STOP, SLCD_ICON_FF}"
    by (cases icon) (simp_all add: led_mask_def icon_mask_def RLED_MENU_def RLED_VOLUME_def)
  have excl: "led_mask i \<noteq> 0 \<Longrightarrow> icon_mask i = 0" for i
    by (cases i) (simp_all add: led_mask_def icon_mask_def)
  have other: "led_mask icon AND led_mask j = 0" "icon_mask icon AND icon_mask j = 0" if "j \<noteq> icon" for j
    using led_mask_disjoint icon_mask_disjoint that by auto
  show ?thesis
    using assms m excl other
    by (auto simp: lcd_seticon_def lcd_hwdoioctl_def Let_def lcd_geticon_def set_mask_self set_mask_other)
qed

section \<open>Witnesses\<close>

text \<open>A driver of a display of two lines of sixteen columns that can do everything.\<close>

definition demo_driver :: lcd_driver where
  "demo_driver = \<lparr>drv_open = (\<lambda>_. True),
     drv_ioctl = (\<lambda>_ r. Done (if r = IOC_LCD_GET_WIDTH then 16 else if r = IOC_LCD_GET_HEIGHT then 2 else 0))\<rparr>"

definition demo_reciva :: reciva where
  "demo_reciva = \<lparr>wid = 0, hei = 0, cap = 0, icons = 0, leds = 0,
     scr = \<lparr>acText = None, piArrows = None, piLineContents = None, iX = 0, iY = 0, iCursorType = 0\<rparr>,
     clkmode = 0, clktitle = [], requests = []\<rparr>"

theorem reciva_init_ready_witness:
  "\<exists>l'. lcd_init demo_driver 7 None demo_reciva = Ret (True, l') \<and> reciva_ok demo_driver l'
     \<and> lcd_width l' = 16 \<and> lcd_height l' = 2 \<and> reciva_shown l' = [([], False), ([], False)]"
proof -
  have "\<forall>q. drv_open demo_driver q"
    "drv_ioctl demo_driver (IOC_LCD_GET_CAPABILITIES # requests demo_reciva) IOC_LCD_GET_WIDTH = Done 16"
    "0 \<le> (16 :: int)"
    "drv_ioctl demo_driver (IOC_LCD_GET_WIDTH # IOC_LCD_GET_CAPABILITIES # requests demo_reciva)
       IOC_LCD_GET_HEIGHT = Done 2" "1 \<le> (2 :: int)"
    by (simp_all add: demo_driver_def)
  from reciva_init_ready [OF this, of 7] show ?thesis by (simp add: numeral_2_eq_2)
qed

theorem reciva_icon_roundtrip_witness:
  "\<exists>l'. lcd_seticon demo_driver SLCD_ICON_SLEEP True demo_reciva = Ret (True, l')
     \<and> lcd_geticon SLCD_ICON_SLEEP l' \<and> \<not> lcd_geticon SLCD_ICON_MUTE l'"
proof -
  have "\<forall>q. drv_open demo_driver q" by (simp add: demo_driver_def)
  from reciva_icon_roundtrip [OF this, of SLCD_ICON_SLEEP True demo_reciva]
  have "\<exists>l'. lcd_seticon demo_driver SLCD_ICON_SLEEP True demo_reciva = Ret (True, l')
     \<and> lcd_geticon SLCD_ICON_SLEEP l'
     \<and> lcd_geticon SLCD_ICON_MUTE l' = lcd_geticon SLCD_ICON_MUTE demo_reciva" by auto
  moreover have "\<not> lcd_geticon SLCD_ICON_MUTE demo_reciva"
    by (simp add: lcd_geticon_def demo_reciva_def led_mask_def)
  ultimately show ?thesis by metis
qed

end
