(* ===== verification/Lcd_Devel.thy ===== *)
theory Lcd_Devel
  imports Lcd_Screen Lcd_Iface "HOL-Library.Signed_Division"
begin

text \<open>
  \<^verbatim>\<open>src/libreciva/src/lcd/lcd_devel.c\<close>, the display of the simulator on a text terminal of
  four lines of fourteen columns.  What \<^verbatim>\<open>lcd_hwrefresh\<close> draws is recorded in \<open>drawn\<close>: for each
  row the left arrow, the text and the right arrow.
\<close>

record devel =
  d_wid :: int
  d_hei :: int
  d_cap :: "32 word"
  d_icons :: "32 word"
  d_leds :: "32 word"
  d_scr :: lcd_draw_screen
  drawn :: "(bool \<times> byte list \<times> bool) list"

section \<open>The operations\<close>

definition devel_hwclearscr :: "devel \<Rightarrow> devel res" where
  "devel_hwclearscr l = res_bind (scr_clear (d_wid l) (d_hei l) (d_scr l)) (\<lambda>x. Ret (l\<lparr>d_scr := x\<rparr>))"

definition devel_hwputline ::
  "int \<Rightarrow> byte list \<Rightarrow> slcd_e_arrows \<Rightarrow> devel \<Rightarrow> (bool \<times> devel) res" where
  "devel_hwputline num str sel l =
     res_bind (scr_putline (d_wid l) (d_hei l) num str sel (d_scr l)) (\<lambda>(ok, x). Ret (ok, l\<lparr>d_scr := x\<rparr>))"

definition devel_brightness :: "int \<Rightarrow> devel \<Rightarrow> devel" where "devel_brightness level l = l"
definition devel_contrast :: "int \<Rightarrow> devel \<Rightarrow> devel" where "devel_contrast level l = l"

definition devel_hwcursor :: "int \<Rightarrow> int \<Rightarrow> bool \<Rightarrow> devel \<Rightarrow> (bool \<times> devel) res" where
  "devel_hwcursor x y status l =
     (let (ok, x) = scr_cursor (d_wid l) (d_hei l) x y status (d_scr l) in Ret (ok, l\<lparr>d_scr := x\<rparr>))"

definition devel_seticon :: "slcd_e_icons \<Rightarrow> bool \<Rightarrow> devel \<Rightarrow> bool \<times> devel" where
  "devel_seticon icon state l =
     (if led_mask icon \<noteq> 0 then (True, l\<lparr>d_leds := set_mask state (led_mask icon) (d_leds l)\<rparr>)
      else if icon_mask icon \<noteq> 0 then (True, l\<lparr>d_icons := set_mask state (icon_mask icon) (d_icons l)\<rparr>)
      else (False, l))"

definition devel_geticon :: "slcd_e_icons \<Rightarrow> devel \<Rightarrow> bool" where
  "devel_geticon icon l =
     (if led_mask icon \<noteq> 0 then d_leds l AND led_mask icon \<noteq> 0
      else if icon_mask icon \<noteq> 0 then d_icons l AND icon_mask icon \<noteq> 0
      else False)"

definition devel_capabilities :: "devel \<Rightarrow> 32 word" where "devel_capabilities l = d_cap l"
definition devel_width :: "devel \<Rightarrow> int" where "devel_width l = d_wid l"
definition devel_height :: "devel \<Rightarrow> int" where "devel_height l = d_hei l"

section \<open>Characters and lines of the terminal\<close>

text \<open>
  \<^verbatim>\<open>lcd_hwchr\<close>: the loop that looks for the character number \<open>pos\<close> compares the byte index with
  it, and the decoder shifts by 5, 4 and 3 bits for the second byte.
\<close>

function find_chr :: "byte list \<Rightarrow> int \<Rightarrow> int \<Rightarrow> int res" where
  "find_chr b i pos =
     res_bind (rd b i) (\<lambda>c.
       if c \<noteq> 0 \<and> i < pos
       then (if c AND 0x80 = 0 then find_chr b (i + 1) pos
             else res_bind (skip_cont b (i + 1)) (\<lambda>j. find_chr b j pos))
       else Ret i)"
  by pat_completeness auto
termination
  by (relation "measure (\<lambda>(b, i, pos). nat (pos - i))") (auto dest: skip_cont_ge)

declare find_chr.simps [simp del]

text \<open>\<open>if (d!='\0') { c<<=k ; c|=d&0x3f ; }\<close>\<close>

definition shift_or :: "nat \<Rightarrow> byte \<Rightarrow> 64 word \<Rightarrow> 64 word" where
  "shift_or k d c = (if d = 0 then c else push_bit k c OR ucast (d AND 0x3f))"

definition decode_chr :: "byte list \<Rightarrow> int \<Rightarrow> byte \<Rightarrow> 64 word res" where
  "decode_chr b i c0 =
     (if c0 AND 0xe0 = 0xc0
      then res_bind (rd b (i + 1)) (\<lambda>d1. Ret (shift_or 5 d1 (ucast (c0 AND 0x1f))))
      else if c0 AND 0xf0 = 0xe0
      then res_bind (rd b (i + 1)) (\<lambda>d1.
           res_bind (rd b (i + 2)) (\<lambda>d2.
           Ret (shift_or 6 d2 (shift_or 4 d1 (ucast (c0 AND 0x0f))))))
      else if c0 AND 0xf8 = 0xf0
      then res_bind (rd b (i + 1)) (\<lambda>d1.
           res_bind (rd b (i + 2)) (\<lambda>d2.
           res_bind (rd b (i + 3)) (\<lambda>d3.
           Ret (shift_or 6 d3 (shift_or 6 d2 (shift_or 3 d1 (ucast (c0 AND 0x07))))))))
      else Ret 0)"

definition chr_of :: "64 word \<Rightarrow> byte" where
  "chr_of c =
     (if c = 0xe000 then 0x45 else if c = 0xe001 then 0x4e else if c = 0xe002 then 0x44
      else if c = 0xe003 then 0x45 else if c = 0xe004 then 0x4e else if c = 0xe005 then 0x44
      else if c = 0xe006 then 0x56 else if c = 0xe007 then 0x76 else if c = 0xe008 then 0x3c
      else if c = 0xe009 then 0x3e else if c = 0xe00a then 0x70 else if c = 0xe00b then 0x62
      else if c = 0xe00c then 0x66 else if c = 0xe00d then 0x72 else if c = 0xe00e then 0x73
      else if c = 0xe00f then 0x78 else 0x3f)"

definition lcd_hwchr :: "byte list option \<Rightarrow> int \<Rightarrow> byte res" where
  "lcd_hwchr str pos =
     (case str of
        None \<Rightarrow> Ret 0
      | Some b \<Rightarrow>
          res_bind (find_chr b 0 pos) (\<lambda>i.
          res_bind (rd b i) (\<lambda>c0.
          if c0 AND 0x80 = 0 then Ret c0 else res_map chr_of (decode_chr b i c0))))"

text \<open>\<open>for (len=0; lcd_hwchr(str, len)!='\0'; len++)\<close>: the byte index reaches the NUL.\<close>

fun chr_count :: "nat \<Rightarrow> byte list \<Rightarrow> int \<Rightarrow> int res" where
  "chr_count 0 b len = Diverge"
| "chr_count (Suc n) b len =
     res_bind (lcd_hwchr (Some b) len) (\<lambda>c. if c = 0 then Ret len else chr_count n b (len + 1))"

fun copy_chrs :: "nat \<Rightarrow> byte list \<Rightarrow> int \<Rightarrow> int \<Rightarrow> int \<Rightarrow> byte list \<Rightarrow> (int \<times> byte list) res" where
  "copy_chrs 0 b j i w line = Ret (i, line)"
| "copy_chrs (Suc n) b j i w line =
     (if i < w
      then res_bind (lcd_hwchr (Some b) j) (\<lambda>c.
           if c = 0 then Ret (i, line)
           else res_bind (wr line i c) (\<lambda>line. copy_chrs n b (j + 1) (i + 1) w line))
      else Ret (i, line))"

text \<open>
  The line is centred in a fresh buffer of \<open>wid+1\<close> bytes, of which the first fourteen are
  cleared.
\<close>

definition lcd_hwparseline :: "int \<Rightarrow> byte list \<Rightarrow> byte list res" where
  "lcd_hwparseline w b =
     (if w + 1 < 14 then Fault
      else
        let line = replicate (nat (w + 1)) 0
        in res_bind (chr_count (Suc (length b)) b 0) (\<lambda>len.
           let pad = nat ((w - len) sdiv 2);
               line = replicate pad 0x20 @ drop pad line
           in res_bind (copy_chrs (nat w) b 0 (int pad) w line) (\<lambda>(i, line).
              wr line i 0)))"

text \<open>
  The text is the format of \<^verbatim>\<open>wprintw\<close>: with a percent sign in it the function reads arguments
  it was not given.
\<close>

fun draw_rows ::
  "nat \<Rightarrow> int \<Rightarrow> int \<Rightarrow> byte list list \<Rightarrow> int list \<Rightarrow> (bool \<times> byte list \<times> bool) list res" where
  "draw_rows 0 w r t a = Ret []"
| "draw_rows (Suc n) w r t a =
     res_bind (rd a r) (\<lambda>arrow.
     res_bind (rd t r) (\<lambda>row.
     res_bind (lcd_hwparseline w row) (\<lambda>line.
     if 0x25 \<in> set (cstr line) then Fault
     else res_bind (draw_rows n w (r + 1) t a) (\<lambda>rest.
          Ret ((arrow = LCD_ARROW_LEFT \<or> arrow = LCD_ARROW_BOTH, cstr line,
                arrow = LCD_ARROW_RIGHT \<or> arrow = LCD_ARROW_BOTH) # rest)))))"

definition devel_hwrefresh :: "devel \<Rightarrow> devel res" where
  "devel_hwrefresh l =
     (if d_hei l \<le> 0 then Ret (l\<lparr>drawn := []\<rparr>)
      else res_bind (ld_arr (acText (d_scr l))) (\<lambda>t.
           res_bind (ld_arr (piArrows (d_scr l))) (\<lambda>a.
           res_bind (draw_rows (nat (d_hei l)) (d_wid l) 0 t a) (\<lambda>rows. Ret (l\<lparr>drawn := rows\<rparr>)))))"

definition devel_hwclock ::
  "tm \<Rightarrow> bool \<Rightarrow> tm \<Rightarrow> slcd_e_clkmode \<Rightarrow> byte list \<Rightarrow> byte list \<Rightarrow> byte list \<Rightarrow> devel
   \<Rightarrow> (bool \<times> devel) res" where
  "devel_hwclock clk almon alm mode am pm title l = Ret (False, l)"

definition devel_hwgetscreen :: "devel \<Rightarrow> byte list list option" where
  "devel_hwgetscreen l = acText (d_scr l)"

definition devel_hwgetselrows :: "devel \<Rightarrow> int list option" where
  "devel_hwgetselrows l = piArrows (d_scr l)"

text \<open>As in \<^verbatim>\<open>lcd_reciva.c\<close>, \<open>alloc_fails\<close> is the number of the allocation that fails.\<close>

definition devel_alloc :: "int \<Rightarrow> int \<Rightarrow> lcd_draw_screen \<Rightarrow> lcd_draw_screen" where
  "devel_alloc w h x =
     x\<lparr>acText := Some (replicate (nat h) (replicate (nat (3 * w + 1)) 0)),
       piArrows := Some (replicate (nat h) LCD_ARROW_NONE),
       piLineContents := Some (replicate (nat h) LCD_LINE_CONTENTS_TEXT)\<rparr>"

definition devel_init :: "nat option \<Rightarrow> devel \<Rightarrow> (bool \<times> devel) res" where
  "devel_init alloc_fails l =
     (let l = l\<lparr>d_cap := 1, d_wid := 14, d_hei := 4, d_icons := 0, d_leds := 0\<rparr>
      in if alloc_fails \<in> {Some 0, Some 1, Some 2} then Ret (False, l)
         else if alloc_fails \<noteq> None \<and> int (the alloc_fails) < d_hei l + 3 then Exit
         else let l = l\<lparr>d_scr := devel_alloc (d_wid l) (d_hei l) (d_scr l)\<rparr>
              in res_bind (devel_hwclearscr l) (\<lambda>l.
                 res_bind (devel_hwrefresh l) (\<lambda>l. Ret (True, l))))"

definition devel_exit :: "devel \<Rightarrow> devel" where
  "devel_exit l = l\<lparr>d_scr := (d_scr l)\<lparr>acText := None, piArrows := None, piLineContents := None\<rparr>\<rparr>"

definition devel_ops :: "devel lcdhw_ops" where
  "devel_ops = \<lparr>op_width = devel_width, op_height = devel_height, op_capabilities = devel_capabilities,
     op_hwclearscr = devel_hwclearscr, op_hwputline = devel_hwputline, op_hwcursor = devel_hwcursor,
     op_hwrefresh = devel_hwrefresh, op_hwclock = devel_hwclock, op_geticon = devel_geticon,
     op_hwgetscreen = devel_hwgetscreen, op_hwgetselrows = devel_hwgetselrows\<rparr>"

section \<open>Plain text on the terminal\<close>

text \<open>ASCII text without percent signs, which the terminal shows as it is.\<close>

definition plain :: "byte list \<Rightarrow> bool" where
  "plain t \<longleftrightarrow> (\<forall>c\<in>set t. c AND 0x80 = 0 \<and> c \<noteq> 0x25)"

lemma find_chr_plain:
  assumes "0 \<in> set b" "plain (cstr b)" "i \<le> length (cstr b)"
  shows "find_chr b (int i) pos = Ret (max (int i) (min pos (int (length (cstr b)))))"
  using assms(3)
proof (induction "length (cstr b) - i" arbitrary: i)
  case 0
  then have i: "i = length (cstr b)" by simp
  then show ?case
    using nth_length_cstr [OF assms(1)] length_cstr_less [OF assms(1)]
    by (subst find_chr.simps) (simp add: rd_int)
next
  case (Suc d)
  then have i: "i < length (cstr b)" by simp
  have c: "b ! i = cstr b ! i" "i < length b" "cstr b ! i \<noteq> 0" "cstr b ! i AND 0x80 = 0"
    using i nth_cstr length_cstr_less [OF assms(1)] nth_mem [OF i] zero_notin_cstr [of b] assms(2)
    by (auto simp: plain_def)
  have "find_chr b (int (Suc i)) pos = Ret (max (int (Suc i)) (min pos (int (length (cstr b)))))"
    by (rule Suc.hyps(1)) (use Suc.hyps(2) i in auto)
  then show ?case
    using c i by (subst find_chr.simps) (auto simp: rd_int add.commute max_def min_def)
qed

lemma hwchr_plain:
  assumes "0 \<in> set b" "plain (cstr b)"
  shows "lcd_hwchr (Some b) (int j) = Ret (if j < length (cstr b) then cstr b ! j else 0)"
proof -
  have f: "find_chr b 0 (int j) = Ret (int (min j (length (cstr b))))"
    using find_chr_plain [OF assms, of 0 "int j"] by simp
  show ?thesis
  proof (cases "j < length (cstr b)")
    case True
    then have "b ! j = cstr b ! j" "j < length b" "cstr b ! j AND 0x80 = 0"
      using nth_cstr length_cstr_less [OF assms(1)] nth_mem [OF True] assms(2) by (auto simp: plain_def)
    then show ?thesis using f True by (simp add: lcd_hwchr_def rd_int)
  next
    case False
    then show ?thesis
      using f nth_length_cstr [OF assms(1)] length_cstr_less [OF assms(1)]
      by (simp add: lcd_hwchr_def rd_int min_def not_less)
  qed
qed

lemma chr_count_plain:
  assumes "0 \<in> set b" "plain (cstr b)"
  shows "j \<le> length (cstr b) \<Longrightarrow> length (cstr b) - j < n \<Longrightarrow>
         chr_count n b (int j) = Ret (int (length (cstr b)))"
proof (induction n arbitrary: j)
  case (Suc n)
  show ?case
  proof (cases "j < length (cstr b)")
    case True
    then have "cstr b ! j \<noteq> 0" using nth_mem zero_notin_cstr by metis
    moreover have "chr_count n b (int (Suc j)) = Ret (int (length (cstr b)))"
      using Suc.IH [of "Suc j"] Suc.prems True by auto
    ultimately show ?thesis using True hwchr_plain [OF assms, of j] by (simp add: add.commute)
  next
    case False
    then show ?thesis using Suc.prems(1) hwchr_plain [OF assms, of j] by simp
  qed
qed simp

lemma copy_chrs_plain:
  assumes "0 \<in> set b" "plain (cstr b)"
  shows "length p + n = W \<Longrightarrow> length q = n + 1 \<Longrightarrow> j \<le> length (cstr b) \<Longrightarrow>
    \<exists>q'. copy_chrs m b (int j) (int (length p)) (int W) (p @ q)
           = Ret (int (length (p @ take (min m n) (drop j (cstr b)))), (p @ take (min m n) (drop j (cstr b))) @ q')
       \<and> q' \<noteq> []"
proof (induction m arbitrary: p n q j)
  case 0
  then show ?case by auto
next
  case (Suc m)
  show ?case
  proof (cases "n = 0 \<or> j = length (cstr b)")
    case True
    then show ?thesis using Suc.prems hwchr_plain [OF assms, of j] by auto
  next
    case False
    then have j: "j < length (cstr b)" using Suc.prems(3) by auto
    obtain k x q1 where k: "n = Suc k" "q = x # q1" "length q1 = k + 1"
      using False Suc.prems(2) by (cases n; cases q) auto
    let ?c = "cstr b ! j"
    have c: "?c \<noteq> 0" using nth_mem [OF j] zero_notin_cstr [of b] by metis
    have w: "wr (p @ x # q1) (int (length p)) ?c = Ret (p @ ?c # q1)"
      by (simp add: wr_def list_update_append)
    have d: "drop j (cstr b) = ?c # drop (Suc j) (cstr b)" using j by (simp add: Cons_nth_drop_Suc)
    obtain q' where "copy_chrs m b (int (Suc j)) (int (length (p @ [?c]))) (int W) ((p @ [?c]) @ q1)
        = Ret (int (length ((p @ [?c]) @ take (min m k) (drop (Suc j) (cstr b)))),
               ((p @ [?c]) @ take (min m k) (drop (Suc j) (cstr b))) @ q')" "q' \<noteq> []"
      using Suc.IH [of "p @ [?c]" k q1 "Suc j"] Suc.prems(1) k j by auto
    then show ?thesis
      using hwchr_plain [OF assms, of j] j c w k Suc.prems(1) d by (simp add: add.commute)
  qed
qed

text \<open>The line the terminal shows: the text, cut at the width, in the middle.\<close>

definition centred :: "nat \<Rightarrow> byte list \<Rightarrow> byte list" where
  "centred W t = replicate ((W - length t) div 2) 0x20 @ take W t"

lemma parseline_centred:
  assumes "0 \<in> set b" "plain (cstr b)" "13 \<le> W"
  shows "\<exists>line. lcd_hwparseline (int W) b = Ret line \<and> cstr line = centred W (cstr b)"
proof -
  let ?t = "cstr b" and ?pad = "(W - length (cstr b)) div 2"
  have len: "chr_count (Suc (length b)) b 0 = Ret (int (length ?t))"
    using chr_count_plain [OF assms(1,2), of 0 "Suc (length b)"] length_cstr_less [OF assms(1)] by simp
  have pad: "nat ((int W - int (length ?t)) sdiv 2) = ?pad"
  proof (cases "length ?t \<le> W")
    case True
    then have "(int W - int (length ?t)) sdiv 2 = int ?pad"
      by (cases "length ?t = W") (simp_all add: signed_divide_int_def zdiv_int of_nat_diff)
    then show ?thesis by simp
  next
    case False
    then have "(int W - int (length ?t)) sdiv 2 \<le> 0"
      by (simp add: signed_divide_int_def sgn_if)
    then show ?thesis using False by simp
  qed
  let ?p = "replicate ?pad (0x20 :: byte)" and ?q = "drop ?pad (replicate (W + 1) (0 :: byte))"
  have fit: "length ?p + (W - ?pad) = W" "length ?q = (W - ?pad) + 1" by auto
  have m: "min W (W - ?pad) = W - ?pad" by simp
  note cc = copy_chrs_plain [OF assms(1,2) fit le0, of W, unfolded m drop0]
  obtain q' where q': "copy_chrs W b (int 0) (int (length ?p)) (int W) (?p @ ?q)
      = Ret (int (length (?p @ take (W - ?pad) ?t)), (?p @ take (W - ?pad) ?t) @ q')" "q' \<noteq> []"
    using cc by blast
  obtain x r where x: "q' = x # r" using q'(2) by (cases q') auto
  let ?u = "?p @ take (W - ?pad) ?t"
  have w: "wr (?u @ x # r) (int (length ?u)) 0 = Ret (?u @ 0 # r)"
    by (rule wr_append)
  have u: "?u = centred W ?t"
    by (cases "length ?t \<le> W") (auto simp: centred_def)
  have n1: "nat (int W + 1) = W + 1" and c13: "(int W + 1 < 14) = False" using assms(3) by simp_all
  have q1: "copy_chrs W b 0 (int ?pad) (int W) (?p @ ?q) = Ret (int (length ?u), ?u @ x # r)"
    using q'(1) unfolding x length_replicate semiring_1_class.of_nat_0 .
  have "lcd_hwparseline (int W) b = Ret (?u @ 0 # r)"
    using c13 by (simp only: lcd_hwparseline_def Let_def n1 if_False len res_bind.simps pad nat_int
        q1 prod.case w)
  moreover have "0 \<notin> set ?u" by (auto dest: in_set_takeD)
  ultimately show ?thesis using u cstr_append_nul by metis
qed
lemma plain_simps [simp]: "plain []" "plain (take n t) \<or> \<not> plain t"
  by (auto simp: plain_def dest: in_set_takeD)

lemma centred_plain: "plain t \<Longrightarrow> 0x25 \<notin> set (centred W t)"
  by (auto simp: plain_def centred_def dest: in_set_takeD)

lemma draw_rows_plain:
  assumes "13 \<le> W" "length a = length t" "set a \<subseteq> {LCD_ARROW_NONE, LCD_ARROW_BOTH}"
    "\<forall>row\<in>set t. 0 \<in> set row \<and> plain (cstr row)"
  shows "k + n = length t \<Longrightarrow> draw_rows n (int W) (int k) t a
     = Ret (map (\<lambda>(row, x). (x = LCD_ARROW_BOTH, centred W (cstr row), x = LCD_ARROW_BOTH)) (drop k (zip t a)))"
proof (induction n arbitrary: k)
  case (Suc n)
  have k: "k < length t" "k < length a" using Suc.prems assms(2) by auto
  have row: "0 \<in> set (t ! k)" "plain (cstr (t ! k))" using assms(4) k by auto
  obtain line where line: "lcd_hwparseline (int W) (t ! k) = Ret line" "cstr line = centred W (cstr (t ! k))"
    using parseline_centred [OF row assms(1)] by blast
  have "a ! k \<in> {LCD_ARROW_NONE, LCD_ARROW_BOTH}" using assms(3) k by (meson nth_mem subsetD)
  then have arrow: "(a ! k = LCD_ARROW_LEFT \<or> a ! k = LCD_ARROW_BOTH) = (a ! k = LCD_ARROW_BOTH)"
      "(a ! k = LCD_ARROW_RIGHT \<or> a ! k = LCD_ARROW_BOTH) = (a ! k = LCD_ARROW_BOTH)"
    by (auto simp: LCD_ARROW_NONE_def LCD_ARROW_BOTH_def LCD_ARROW_LEFT_def LCD_ARROW_RIGHT_def)
  have "drop k (zip t a) = (t ! k, a ! k) # drop (Suc k) (zip t a)"
    using k by (metis Cons_nth_drop_Suc length_zip min_less_iff_conj nth_zip)
  moreover have "draw_rows n (int W) (int (Suc k)) t a
     = Ret (map (\<lambda>(row, x). (x = LCD_ARROW_BOTH, centred W (cstr row), x = LCD_ARROW_BOTH)) (drop (Suc k) (zip t a)))"
    using Suc.IH [of "Suc k"] Suc.prems by simp
  ultimately show ?case
    using k line centred_plain [OF row(2), of W] arrow by (simp add: rd_int add.commute)
qed (use assms(2) in simp)

section \<open>The terminal implements the interface\<close>

definition devel_ok :: "devel \<Rightarrow> bool" where
  "devel_ok l \<longleftrightarrow> scr_ok (d_wid l) (d_hei l) (d_scr l) \<and> 13 \<le> d_wid l \<and> 1 \<le> d_hei l
     \<and> (\<forall>x\<in>set (scr_lines (d_scr l)). plain (fst x))"

text \<open>The rows of the terminal for some lines: each centred between its arrows.\<close>

definition devel_picture :: "int \<Rightarrow> (byte list \<times> bool) list \<Rightarrow> (bool \<times> byte list \<times> bool) list" where
  "devel_picture width = map (\<lambda>(t, s). (s, centred (nat width) t, s))"

definition devel_shown :: "devel \<Rightarrow> (byte list \<times> bool) list" where
  "devel_shown l = scr_lines (d_scr l)"

lemmas devel_defs = devel_ops_def devel_ok_def devel_shown_def devel_width_def devel_height_def
  devel_hwputline_def devel_hwcursor_def devel_hwclearscr_def

lemma devel_refresh_draws:
  assumes "devel_ok l"
  shows "devel_hwrefresh l =
    Ret (l\<lparr>drawn := map (\<lambda>(t, s). (s, centred (nat (d_wid l)) t, s)) (devel_shown l)\<rparr>)"
proof -
  obtain t a where ta: "acText (d_scr l) = Some t" "piArrows (d_scr l) = Some a" "int (length t) = d_hei l"
      "int (length a) = d_hei l" "\<And>row. row \<in> set t \<Longrightarrow> int (length row) = 3 * d_wid l + 1 \<and> 0 \<in> set row"
      "set a \<subseteq> {LCD_ARROW_NONE, LCD_ARROW_BOTH}"
    using scr_okE assms unfolding devel_ok_def by metis
  have len: "length a = length t" "0 + nat (d_hei l) = length t" using ta(3,4) by auto
  have "\<forall>row\<in>set t. 0 \<in> set row \<and> plain (cstr row)"
  proof
    fix row assume row: "row \<in> set t"
    then obtain i where i: "i < length t" "row = t ! i" by (metis in_set_conv_nth)
    have "(row, a ! i) \<in> set (zip t a)" unfolding set_zip using i len(1) by auto
    then have "(cstr row, a ! i = LCD_ARROW_BOTH) \<in> set (scr_lines (d_scr l))"
      using ta(1,2) by (force simp: scr_lines_def)
    then show "0 \<in> set row \<and> plain (cstr row)"
      using assms ta(5) [OF row] by (fastforce simp: devel_ok_def)
  qed
  then have "draw_rows (nat (d_hei l)) (int (nat (d_wid l))) (int 0) t a
     = Ret (map (\<lambda>(row, x). (x = LCD_ARROW_BOTH, centred (nat (d_wid l)) (cstr row), x = LCD_ARROW_BOTH)) (drop 0 (zip t a)))"
    using assms len by (intro draw_rows_plain [OF _ len(1) ta(6)]) (auto simp: devel_ok_def)
  then show ?thesis
    using assms ta(1,2)
    by (simp add: devel_hwrefresh_def devel_ok_def ld_arr_def devel_shown_def scr_lines_def comp_def
          case_prod_beta)
qed

interpretation devel: lcd_backend devel_ops devel_ok devel_shown plain drawn devel_picture
proof
  fix d :: devel and n :: nat and b :: "byte list" and sel x y st
  show "plain []" by simp
  assume ok: "devel_ok d"
  then have s: "scr_ok (d_wid d) (d_hei d) (d_scr d)" "1 \<le> d_hei d" by (simp_all add: devel_ok_def)
  note len = length_scr_lines [OF s(1)]
  show "op_height devel_ops d = int (length (devel_shown d)) \<and> 1 \<le> length (devel_shown d)"
    using len s(2) by (simp add: devel_defs)
  show "\<exists>c d'. op_hwcursor devel_ops x y st d = Ret (c, d') \<and> devel_ok d'
      \<and> op_width devel_ops d' = op_width devel_ops d \<and> devel_shown d' = devel_shown d"
    using ok by (simp add: devel_defs Let_def case_prod_beta scr_cursor_lines)
  show "\<exists>d'. op_hwclearscr devel_ops d = Ret d' \<and> devel_ok d'
      \<and> op_width devel_ops d' = op_width devel_ops d
      \<and> devel_shown d' = replicate (length (devel_shown d)) ([], False)"
    using scr_clear_lines [OF s] ok len by (auto simp: devel_defs)
  show "\<exists>d'. op_hwrefresh devel_ops d = Ret d' \<and> devel_ok d'
      \<and> op_width devel_ops d' = op_width devel_ops d \<and> devel_shown d' = devel_shown d
      \<and> drawn d' = devel_picture (op_width devel_ops d) (devel_shown d)"
    using devel_refresh_draws [OF ok] ok by (simp add: devel_defs devel_picture_def)
  assume "n < length (devel_shown d)" "0 \<in> set b" and fit: "plain (cstr b)"
  then obtain x' where x': "scr_putline (d_wid d) (d_hei d) (int n) b sel (d_scr d) = Ret (True, x')"
      "scr_ok (d_wid d) (d_hei d) x'"
      "scr_lines x' = (scr_lines (d_scr d))[n := (take (nat (3 * d_wid d)) (cstr b), sel = SLCD_SEL_ARROWS)]"
    using scr_putline_line [OF s(1), of n b sel] len by (auto simp: devel_shown_def)
  have "plain (take (nat (3 * d_wid d)) (cstr b))" using fit plain_simps(2) by blast
  then have "\<forall>x\<in>set (scr_lines x'). plain (fst x)"
    unfolding x'(3) using ok set_update_subset_insert by (fastforce simp: devel_ok_def)
  then show "\<exists>d'. op_hwputline devel_ops (int n) b sel d = Ret (True, d') \<and> devel_ok d'
      \<and> op_width devel_ops d' = op_width devel_ops d
      \<and> devel_shown d' = (devel_shown d)[n := (take (nat (3 * op_width devel_ops d)) (cstr b),
                                             sel = SLCD_SEL_ARROWS)]"
    using x' ok by (simp add: devel_defs)
qed
text \<open>
  The terminal draws every line of a plain screen in the middle of its row, cut at the width,
  between its arrows, and drawing changes nothing else.
\<close>

theorem terminal_draws_centred:
  assumes "devel_ok l"
  shows "devel_hwrefresh l =
    Ret (l\<lparr>drawn := map (\<lambda>(t, s). (s, centred (nat (d_wid l)) t, s)) (devel_shown l)\<rparr>)"
  by (rule devel_refresh_draws [OF assms])

text \<open>
  \<^verbatim>\<open>lcd_init\<close> of the simulator leaves a blank screen of four lines of fourteen columns on which
  the interface holds, from any state.
\<close>

theorem devel_init_ready:
  "\<exists>l'. devel_init None l = Ret (True, l') \<and> devel_ok l' \<and> devel_width l' = 14 \<and> devel_height l' = 4
     \<and> devel_shown l' = replicate 4 ([], False)"
proof -
  let ?l0 = "l\<lparr>d_cap := 1, d_wid := 14, d_hei := 4, d_icons := 0, d_leds := 0\<rparr>"
  let ?l = "?l0\<lparr>d_scr := devel_alloc 14 4 (d_scr l)\<rparr>"
  have sok: "scr_ok 14 4 (devel_alloc 14 4 (d_scr l))" by (auto simp: scr_ok_def devel_alloc_def)
  obtain x where x: "scr_clear 14 4 (devel_alloc 14 4 (d_scr l)) = Ret x" "scr_ok 14 4 x"
      "scr_lines x = replicate 4 ([], False)"
    using scr_clear_lines [OF sok] by auto
  let ?la = "?l0\<lparr>d_scr := x\<rparr>"
  have ok: "devel_ok ?la" using x by (simp add: devel_ok_def)
  have "devel_init None l = res_bind (devel_hwrefresh ?la) (\<lambda>l. Ret (True, l))"
    using x(1) by (simp add: devel_init_def devel_hwclearscr_def Let_def)
  then show ?thesis
    using devel_refresh_draws [OF ok] ok x(3) by (simp add: devel_defs)
qed

text \<open>
  None of the special characters of the library can be read on the terminal: all of them are
  decoded to a code the table does not have, and shown as a question mark.
\<close>

theorem special_glyphs_unreadable:
  "map (\<lambda>u. lcd_hwchr (Some (zstr u)) 0)
     [SLCD_UCHR_END1, SLCD_UCHR_END2, SLCD_UCHR_END3, SLCD_UCHR_DEL1, SLCD_UCHR_DEL2, SLCD_UCHR_DEL3,
      SLCD_UCHR_VOL1, SLCD_UCHR_VOL2, SLCD_UCHR_LEFT, SLCD_UCHR_RIGHT, SLCD_UCHR_PAUSE, SLCD_UCHR_FF,
      SLCD_UCHR_REW, SLCD_UCHR_STOP] 
   = [Ret 0x3f, Ret 0x3f, Ret 0x3f, Ret 0x3f, Ret 0x3f, Ret 0x3f, Ret 0x3f, Ret 0x3f, Ret 0x3f, Ret 0x3f,
      Ret 0x3f, Ret 0x3f, Ret 0x3f, Ret 0x3f]"
  by (simp add: lcd_hwchr_def uchr_defs zstr_def find_chr.simps [of _ 0 0] rd_def decode_chr_def
        shift_or_def chr_of_def)

section \<open>Witnesses\<close>

definition demo_devel :: devel where
  "demo_devel = \<lparr>d_wid = 14, d_hei = 1, d_cap = 1, d_icons = 0, d_leds = 0,
     d_scr = \<lparr>acText = Some [[72, 105, 0] @ replicate 40 0], piArrows = Some [13], piLineContents = Some [0],
              iX = 0, iY = 0, iCursorType = 10\<rparr>, drawn = []\<rparr>"

theorem terminal_draws_centred_witness:
  "devel_hwrefresh demo_devel
     = Ret (demo_devel\<lparr>drawn := [(True, replicate 6 32 @ [72, 105], True)]\<rparr>)"
proof -
  have c: "cstr ([72, 105, 0] @ replicate 40 0) = [72, 105]" by (simp add: cstr_def)
  have lines: "scr_lines (d_scr demo_devel) = [([72, 105], True)]"
    using c by (simp add: scr_lines_def demo_devel_def LCD_ARROW_BOTH_def)
  have "devel_ok demo_devel"
    unfolding devel_ok_def lines
    by (simp add: demo_devel_def scr_ok_def plain_def LCD_ARROW_NONE_def LCD_ARROW_BOTH_def)
  from terminal_draws_centred [OF this] show ?thesis
    using lines by (simp add: devel_shown_def centred_def demo_devel_def)
qed

end
