(* ===== verification/Lcd_Show.thy ===== *)
theory Lcd_Show
  imports Lcd_Refresh Lcd_Reciva Lcd_Devel Menu_Props
begin

text \<open>
  What \<^verbatim>\<open>lcd_refresh\<close> makes of a menu on any implementation of the display interface, and on
  the two the library has.
\<close>

section \<open>The lines of a menu\<close>

text \<open>The line of the \<open>i\<close>-th entry, and the lines of the display for a menu.\<close>

definition entry_line :: "int \<Rightarrow> amenu \<Rightarrow> nat \<Rightarrow> byte list \<times> bool" where
  "entry_line width m i = (take (nat (3 * width)) (snd (m_items m ! i)), i = m_sel m)"

definition menu_view :: "int \<Rightarrow> nat \<Rightarrow> amenu \<Rightarrow> (byte list \<times> bool) list" where
  "menu_view width height m =
     map (\<lambda>j. entry_line width m ((m_top m + j) mod m_size m)) [0..<min (m_size m) height]
     @ replicate (height - m_size m) ([], False)"

lemma menu_rep_hw: "menu_rep (s\<lparr>hwst := d\<rparr>) hp as m = menu_rep s hp as m"
  by (simp add: menu_rep_def)

context lcd_backend
begin

lemma putline_line:
  assumes "ok (hwst s)" "n < length (shown (hwst s))" "0 \<in> set b" "fits (cstr b)"
  shows "\<exists>d. putline I (int n) b sel s = Ret (s\<lparr>hwst := d\<rparr>) \<and> ok d
    \<and> op_width I d = op_width I (hwst s)
    \<and> shown d = (shown (hwst s))[n := (take (nat (3 * op_width I (hwst s))) (cstr b), sel = SLCD_SEL_ARROWS)]"
  using putline_shows [OF assms, of sel] by (auto simp: putline_def)

lemma blank_lines_blank:
  assumes "ok (hwst s)" "r + k = length (shown (hwst s))"
  shows "\<exists>d. blank_lines I k (int r) s = Ret (s\<lparr>hwst := d\<rparr>) \<and> ok d
    \<and> op_width I d = op_width I (hwst s) \<and> shown d = take r (shown (hwst s)) @ replicate k ([], False)"
  using assms
proof (induction k arbitrary: r s)
  case 0
  then show ?case by (auto intro!: exI [of _ "hwst s"])
next
  case (Suc k)
  have z: "0 \<in> set (zstr [])" "fits (cstr (zstr []))" using blank_fits by simp_all
  obtain d where d: "putline I (int r) (zstr []) SLCD_SEL_NOARROWS s = Ret (s\<lparr>hwst := d\<rparr>)" "ok d"
      "op_width I d = op_width I (hwst s)" "shown d = (shown (hwst s))[r := ([], False)]"
    using putline_line [OF Suc.prems(1) _ z, of r SLCD_SEL_NOARROWS] Suc.prems(2) by auto
  obtain d' where d': "blank_lines I k (int (Suc r)) (s\<lparr>hwst := d\<rparr>) = Ret (s\<lparr>hwst := d'\<rparr>)" "ok d'"
      "op_width I d' = op_width I d" "shown d' = take (Suc r) (shown d) @ replicate k ([], False)"
    using Suc.IH [of "s\<lparr>hwst := d\<rparr>" "Suc r"] d Suc.prems(2) by auto
  have "take (Suc r) (shown d) = take r (shown (hwst s)) @ [([], False)]"
    using d(4) Suc.prems(2) by (simp add: take_Suc_conv_app_nth)
  then show ?case using d d' by (auto simp: add.commute)
qed

lemma menu_lines_entries:
  assumes rep: "menu_rep s hp as m" and n: "as \<noteq> []"
    and fit: "\<forall>i<length as. fits (snd (m_items m ! i))"
    and short: "row_len (the (rows s (as ! m_sel m))) \<le> op_width I (hwst s)"
      "length (snd (m_items m ! m_sel m)) < 128" "m_sel m < length as"
  shows "ok (hwst s) \<Longrightarrow> r + k \<le> length (shown (hwst s)) \<Longrightarrow> rows s0 = rows s \<Longrightarrow>
    s0 = s\<lparr>hwst := hwst s0\<rparr> \<Longrightarrow> ok (hwst s0) \<Longrightarrow> op_width I (hwst s0) = op_width I (hwst s) \<Longrightarrow>
    length (shown (hwst s0)) = length (shown (hwst s)) \<Longrightarrow>
    \<exists>d. menu_lines I k (int r) (as ! ((m_top m + r) mod length as)) (as ! m_sel m) s0 = Ret (s\<lparr>hwst := d\<rparr>)
      \<and> ok d \<and> op_width I d = op_width I (hwst s)
      \<and> shown d = take r (shown (hwst s0))
          @ map (\<lambda>j. entry_line (op_width I (hwst s)) m ((m_top m + j) mod length as)) [r..<r + k]
          @ drop (r + k) (shown (hwst s0))"
proof (induction k arbitrary: r s0)
  case 0
  then show ?case by (auto intro!: exI [of _ "hwst s0"])
next
  case (Suc k)
  let ?i = "(m_top m + r) mod length as" and ?w = "op_width I (hwst s)"
  have i: "?i < length as" using n by simp
  obtain row b where row: "rows s (as ! ?i) = Some row" "row_str row = Some b" "0 \<in> set b"
      "as ! ?i \<noteq> NULL" "row_next row = as ! (Suc ?i mod length as)" "m_items m ! ?i = row_item row"
    using menu_rep_row [OF rep i] by metis
  have t: "snd (m_items m ! ?i) = cstr b" using row(2,6) by (simp add: row_item_def)
  have R: "ring (rows s) as" using rep by (simp add: menu_rep_def)
  have eq: "as ! ?i = as ! m_sel m \<longleftrightarrow> ?i = m_sel m" by (rule ring_nth_eq_iff [OF R i short(3)])
  have r: "r < length (shown (hwst s0))" using Suc.prems(2,7) by simp
  have ff: "fits (cstr b)" using fit i t by metis
  have nxt: "Suc ?i mod length as = (m_top m + Suc r) mod length as" by (simp add: mod_simps)
  have line: "\<exists>d. (if as ! ?i = as ! m_sel m
               then res_bind (lcd_textbuildscrollingline I (as ! ?i) s0) (\<lambda>(b, s).
                    putline I (int r) b SLCD_SEL_ARROWS s)
               else res_bind (ld_row (as ! ?i) s0) (\<lambda>row.
                    res_bind (ld_str (row_str row)) (\<lambda>b.
                    putline I (int r) b SLCD_SEL_NOARROWS s0))) = Ret (s0\<lparr>hwst := d\<rparr>) \<and> ok d
        \<and> op_width I d = ?w \<and> shown d = (shown (hwst s0))[r := entry_line ?w m ?i]"
  proof (cases "?i = m_sel m")
    case True
    have "row_str row = Some b" "0 \<in> set b" by (rule row(2,3))+
    have bz: "strcpy linebuf0 b = strcpy linebuf0 (zstr (cstr b))"
      using row(3) by (simp add: strcpy_def)
    have len: "length (cstr b) < length linebuf0" using short(2) t True
      by (simp add: linebuf0_def SLCD_TEXTBUF_MAXLEN_def)
    obtain lb where lb: "strcpy linebuf0 b = Ret lb" "cstr lb = cstr b" "0 \<in> set lb"
      using strcpy_holds [OF zero_notin_cstr len] bz holds_cstr by (auto simp: holds_def)
    have build: "lcd_textbuildscrollingline I (as ! ?i) s0 = Ret (lb, s0)"
      using row short(1) True lb(1) Suc.prems(3,6)
      by (simp add: lcd_textbuildscrollingline_def heap_simps)
    obtain d where "putline I (int r) lb SLCD_SEL_ARROWS s0 = Ret (s0\<lparr>hwst := d\<rparr>)" "ok d"
        "op_width I d = op_width I (hwst s0)"
        "shown d = (shown (hwst s0))[r := (take (nat (3 * op_width I (hwst s0))) (cstr lb), True)]"
      using putline_line [OF Suc.prems(5) r lb(3), of SLCD_SEL_ARROWS] ff lb(2) by auto
    then show ?thesis using build True lb(2) t Suc.prems(6)
      by (intro exI [of _ d]) (simp add: entry_line_def)
  next
    case False
    obtain d where "putline I (int r) b SLCD_SEL_NOARROWS s0 = Ret (s0\<lparr>hwst := d\<rparr>)" "ok d"
        "op_width I d = op_width I (hwst s0)"
        "shown d = (shown (hwst s0))[r := (take (nat (3 * op_width I (hwst s0))) (cstr b), False)]"
      using putline_line [OF Suc.prems(5) r row(3) ff, of SLCD_SEL_NOARROWS] by auto
    then show ?thesis
      using False eq row(1,2) t Suc.prems(3,6)
      by (intro exI [of _ d]) (simp add: entry_line_def heap_simps)
  qed
  then obtain d where d: "(if as ! ?i = as ! m_sel m
               then res_bind (lcd_textbuildscrollingline I (as ! ?i) s0) (\<lambda>(b, s).
                    putline I (int r) b SLCD_SEL_ARROWS s)
               else res_bind (ld_row (as ! ?i) s0) (\<lambda>row.
                    res_bind (ld_str (row_str row)) (\<lambda>b.
                    putline I (int r) b SLCD_SEL_NOARROWS s0))) = Ret (s0\<lparr>hwst := d\<rparr>)" "ok d"
      "op_width I d = ?w" "shown d = (shown (hwst s0))[r := entry_line ?w m ?i]" by blast
  let ?s1 = "s0\<lparr>hwst := d\<rparr>"
  have s1: "?s1 = s\<lparr>hwst := hwst ?s1\<rparr>" using Suc.prems(4)
    by (metis lcdst.select_convs(8) lcdst.surjective lcdst.update_convs(8))
  obtain d' where d': "menu_lines I k (int (Suc r)) (as ! ((m_top m + Suc r) mod length as)) (as ! m_sel m) ?s1
        = Ret (s\<lparr>hwst := d'\<rparr>)" "ok d'" "op_width I d' = ?w"
      "shown d' = take (Suc r) (shown d)
          @ map (\<lambda>j. entry_line ?w m ((m_top m + j) mod length as)) [Suc r..<Suc r + k]
          @ drop (Suc r + k) (shown d)"
    using Suc.IH [of "Suc r" ?s1] Suc.prems d s1 by auto
  have "take (Suc r) (shown d) = take r (shown (hwst s0)) @ [entry_line ?w m ?i]"
    using d(4) r by (simp add: take_Suc_conv_app_nth)
  moreover have "drop (Suc r + k) (shown d) = drop (r + Suc k) (shown (hwst s0))"
    using d(4) by simp
  moreover have "[r..<r + Suc k] = r # [Suc r..<Suc r + k]" by (simp add: upt_conv_Cons)
  ultimately have sh: "shown d' = take r (shown (hwst s0))
          @ map (\<lambda>j. entry_line ?w m ((m_top m + j) mod length as)) [r..<r + Suc k]
          @ drop (r + Suc k) (shown (hwst s0))"
    using d'(4) by simp
  have ld: "ld_row (as ! ?i) ?s1 = Ret row" using row(1) Suc.prems(3) by (simp add: ld_row_def)
  have "menu_lines I (Suc k) (int r) (as ! ?i) (as ! m_sel m) s0 = Ret (s\<lparr>hwst := d'\<rparr>)"
    unfolding menu_lines.simps d(1)
    using ld d'(1) row(5) nxt by (simp add: add.commute)
  then show ?case using d'(2,3) sh by blast
qed

lemma refresh_menu_shows:
  assumes rep: "menu_rep s hp as m" and n: "as \<noteq> []" and ok: "ok (hwst s)"
    and ty: "h_type (the (handles s hp)) = SLCD_MENU"
    and fit: "\<forall>e\<in>set (m_items m). fits (snd e)"
    and short: "row_len (the (rows s (as ! m_sel m))) \<le> op_width I (hwst s)"
      "length (snd (m_items m ! m_sel m)) < 128"
  shows "\<exists>s'. lcd_refresh I now hp s = Ret s' \<and> ok (hwst s')
    \<and> shown (hwst s') = menu_view (op_width I (hwst s)) (length (shown (hwst s))) m
    \<and> handed (hwst s') = picture (op_width I (hwst s)) (shown (hwst s'))
    \<and> menu_rep s' hp as m \<and> currentscreen s' = hp"
proof -
  let ?H = "length (shown (hwst s))" and ?w = "op_width I (hwst s)"
  obtain h where h: "handles s hp = Some h" "h_points h as (m_sel m) (m_top m)" "hp \<noteq> NULL"
      "ring (rows s) as" "m_size m = length as" using rep by (rule menu_repE)
  have hp: "h_numrows h = int (length as)" "m_sel m < length as" "m_top m < length as"
      "h_curl h = as ! m_sel m" "h_tsc h = as ! m_top m"
    using h(2) n by (auto simp: h_points_def)
  have nn: "as ! m_top m \<noteq> NULL" using menu_rep_row [OF rep hp(3)] by blast
  obtain c d where d: "op_hwcursor I 0 0 False (hwst s) = Ret (c, d)" "ok d" "op_width I d = ?w"
      "shown d = shown (hwst s)" using cursor_keeps [OF ok] by blast
  let ?s1 = "s\<lparr>hwst := d\<rparr>" and ?k = "min (length as) ?H"
  have H: "op_height I d = int ?H" using height [OF d(2)] d(4) by simp
  have fits': "\<forall>i<length as. fits (snd (m_items m ! i))" using fit h(5) by simp
  have rep1: "menu_rep ?s1 hp as m" using rep by (simp add: menu_rep_hw)
  obtain d1 where d1: "menu_lines I ?k 0 (as ! m_top m) (as ! m_sel m) ?s1 = Ret (?s1\<lparr>hwst := d1\<rparr>)"
      "ok d1" "op_width I d1 = ?w"
      "shown d1 = map (\<lambda>j. entry_line ?w m ((m_top m + j) mod length as)) [0..<?k]
         @ drop ?k (shown (hwst s))"
    using menu_lines_entries [OF rep1 n fits' _ _ hp(2), of 0 ?k ?s1] d short hp(3) by auto
  have len1: "length (shown d1) = ?H" using d1(4) by simp
  obtain d2 where d2: "blank_lines I (?H - ?k) (int ?k) (s\<lparr>hwst := d1\<rparr>) = Ret (s\<lparr>hwst := d2\<rparr>)" "ok d2"
      "op_width I d2 = ?w"
      "shown d2 = take ?k (shown d1) @ replicate (?H - ?k) ([], False)"
    using blank_lines_blank [of "s\<lparr>hwst := d1\<rparr>" ?k "?H - ?k"] d1(2,3) len1 by auto
  obtain d3 where d3: "op_hwrefresh I d2 = Ret d3" "ok d3" "shown d3 = shown d2"
      "handed d3 = picture (op_width I d2) (shown d2)"
    using refresh_hands [OF d2(2)] by blast
  have k: "nat (min (h_numrows h) (op_height I d)) = ?k" "max 0 (min (h_numrows h) (op_height I d)) = int ?k"
      "nat (op_height I d - int ?k) = ?H - ?k" using hp(1) H by auto
  have "refresh_menu I h s = Ret (s\<lparr>hwst := d2\<rparr>)"
    unfolding refresh_menu_def cursor_def d(1) Let_def
    using d1(1) d2(1) hp(4,5) k by simp
  then have "lcd_refresh I now hp s = Ret (s\<lparr>hwst := d3, currentscreen := hp\<rparr>)"
    using h(1,3) hp(5) nn ty d3(1) by (simp add: lcd_refresh_def ld_h_def)
  moreover have "shown d3 = menu_view ?w ?H m"
    using d3(3) d2(4) d1(4) h(5) by (simp add: menu_view_def)
  moreover have "menu_rep (s\<lparr>hwst := d3, currentscreen := hp\<rparr>) hp as m"
    using rep by (simp add: menu_rep_def)
  ultimately show ?thesis using d3(2-4) d2(3) by auto
qed

end

section \<open>A menu on the two displays\<close>

text \<open>C1.
  A menu on the radio: when the entry selected has no more characters than the display has columns, so that it is not
  scrolled, and less than 128 bytes, the frame handed to the display driver has the visible entries from the
  first one on, round the list, with the arrows at the selected entry and at no other, and blank lines below
  a short menu.  Of each entry the frame has the first 3 * width bytes, as many as width characters can need; the
  rest of a longer entry is cut off there, by bytes and not by characters, and what does not fit the columns is left
  to the display driver.
\<close>

theorem reciva_menu_on_display:
  assumes "menu_rep s hp as m" "as \<noteq> []" "h_type (the (handles s hp)) = SLCD_MENU"
    and "reciva_ok D (hwst s)"
    and "row_len (the (rows s (as ! m_sel m))) \<le> lcd_width (hwst s)"
    and "length (snd (m_items m ! m_sel m)) < 128"
  shows "\<exists>s'. lcd_refresh (reciva_ops D) now hp s = Ret s' \<and> reciva_ok D (hwst s')
    \<and> reciva_handed (hwst s')
        = Some (menu_view (lcd_width (hwst s)) (length (reciva_shown (hwst s))) m)
    \<and> menu_rep s' hp as m \<and> currentscreen s' = hp"
  using reciva.refresh_menu_shows [OF assms(1,2,4,3), of now] assms(5,6)
  by (auto simp: reciva_ops_def)

text \<open>
  The same menu in the simulator: each visible entry of plain text is drawn in the middle of its
  row of the terminal, the selected one between arrows.
\<close>

theorem terminal_menu_on_display:
  assumes "menu_rep s hp as m" "as \<noteq> []" "h_type (the (handles s hp)) = SLCD_MENU"
    and "devel_ok (hwst s)" "\<forall>e\<in>set (m_items m). plain (snd e)"
    and "row_len (the (rows s (as ! m_sel m))) \<le> devel_width (hwst s)"
    and "length (snd (m_items m ! m_sel m)) < 128"
  shows "\<exists>s'. lcd_refresh devel_ops now hp s = Ret s' \<and> devel_ok (hwst s')
    \<and> drawn (hwst s') = map (\<lambda>(t, sel). (sel, centred (nat (devel_width (hwst s))) t, sel))
        (menu_view (devel_width (hwst s)) (length (devel_shown (hwst s))) m)
    \<and> menu_rep s' hp as m \<and> currentscreen s' = hp"
  using devel.refresh_menu_shows [OF assms(1,2,4,3,5), of now] assms(6,7)
  by (auto simp: devel_ops_def devel_picture_def)

lemma mod_add_inj:
  assumes "i < n" "j < n" "(t + i) mod n = (t + j) mod (n :: nat)" shows "i = j"
proof -
  have "i = j" if "i \<le> j" "j < n" "(t + i) mod n = (t + j) mod n" for i j
  proof -
    have "n dvd j - i" using that(1,3) mod_eq_dvd_iff_nat [of "t + i" "t + j" n] by simp
    then show ?thesis using that(1,2) by (auto dest: dvd_imp_le)
  qed
  then show ?thesis using assms by (metis nat_le_linear)
qed

text \<open>
  As long as the selected entry is one of the visible ones, which the keys keep so, exactly one
  line of the display has arrows, whatever the number of entries.
\<close>

theorem one_line_has_arrows:
  assumes "m_visible H m" "m_sel m < m_size m" "m_top m < m_size m" "0 < H"
  shows "\<exists>!j. j < H \<and> snd (menu_view width H m ! j)"
proof -
  let ?n = "m_size m" and ?k = "min (m_size m) H"
  have nth: "snd (menu_view width H m ! j) \<longleftrightarrow> j < ?k \<and> (m_top m + j) mod ?n = m_sel m" if "j < H" for j
    using that by (auto simp: menu_view_def nth_append entry_line_def)
  have "\<exists>j<?k. (m_top m + j) mod ?n = m_sel m"
  proof (cases "?n \<le> H")
    case True
    have "(m_top m + (m_sel m + ?n - m_top m) mod ?n) mod ?n = (m_top m + (m_sel m + ?n - m_top m)) mod ?n"
      by (simp add: mod_simps)
    also have "\<dots> = m_sel m" using assms(2,3) by simp
    finally show ?thesis using True assms(2) by (intro exI [of _ "(m_sel m + ?n - m_top m) mod ?n"]) (auto intro: mod_less_divisor)
  next
    case False
    then show ?thesis using assms(1) by (auto simp: m_visible_def)
  qed
  then obtain j where j: "j < ?k" "(m_top m + j) mod ?n = m_sel m" by blast
  have un: "i = j" if i: "i < ?k" "(m_top m + i) mod ?n = m_sel m" for i
  proof -
    have "(m_top m + i) mod ?n = (m_top m + j) mod ?n" using i(2) j(2) by simp
    then show "i = j" using i(1) j(1) by (intro mod_add_inj [of i ?n j]) auto
  qed
  have jH: "j < H" using j(1) by simp
  show ?thesis
  proof (rule ex1I [of _ j])
    show "j < H \<and> snd (menu_view width H m ! j)" using nth [OF jH] j jH by blast
    show "i = j" if "i < H \<and> snd (menu_view width H m ! i)" for i using that nth un by blast
  qed
qed

section \<open>Witnesses\<close>

definition demo_menu :: "'hw \<Rightarrow> 'hw lcdst" where
  "demo_menu d = \<lparr>rows = [3 \<mapsto> demo_row 5 7 [67] 1, 5 \<mapsto> demo_row 7 3 [65] 2, 7 \<mapsto> demo_row 3 5 [66] 3],
     handles = [1 \<mapsto> (init_handle 4)\<lparr>h_numrows := 3, h_top := 3, h_end := 7, h_tsc := 5, h_curl := 7, h_type := SLCD_MENU\<rparr>],
     bufs = Map.empty, nalloc = 8, oom = (\<lambda>_. False), currentscreen = NULL, lastmins = 60, hwst = d\<rparr>"

lemma demo_menu_rep: "menu_rep (demo_menu d) 1 [3, 5, 7] \<lparr>m_items = demo_items, m_sel = 2, m_top = 1\<rparr>"
  by (simp add: menu_rep_def demo_menu_def ring_def h_points_def init_handle_def
        demo_row_def row_ok_def row_item_def demo_items_def links_def nxt_def prv_def)

definition demo_screen :: "nat \<Rightarrow> lcd_draw_screen" where
  "demo_screen w = \<lparr>acText = Some [replicate (3 * w + 1) 0, replicate (3 * w + 1) 0],
     piArrows = Some [LCD_ARROW_NONE, LCD_ARROW_NONE], piLineContents = None, iX = 0, iY = 0, iCursorType = 0\<rparr>"

lemma demo_screen_ok: "scr_ok (int w) 2 (demo_screen w)"
  by (simp add: scr_ok_def demo_screen_def)

lemma demo_screen_lines: "scr_lines (demo_screen w) = [([], False), ([], False)]"
  by (simp add: scr_lines_def demo_screen_def cstr_def LCD_ARROW_NONE_def LCD_ARROW_BOTH_def)

lemma demo_view: "1 \<le> w \<Longrightarrow>
    menu_view w 2 \<lparr>m_items = demo_items, m_sel = 2, m_top = 1\<rparr> = [([65], False), ([66], True)]"
  by (simp add: menu_view_def demo_items_def entry_line_def upt_rec)

theorem reciva_menu_on_display_witness:
  "\<forall>now. \<exists>s'. lcd_refresh (reciva_ops demo_driver) now 1
      (demo_menu (demo_reciva\<lparr>wid := 16, hei := 2, scr := demo_screen 16\<rparr>)) = Ret s'
     \<and> reciva_handed (hwst s') = Some [([65], False), ([66], True)]"
  (is "\<forall>now. ?P now")
proof
  fix now
  let ?d = "demo_reciva\<lparr>wid := 16, hei := 2, scr := demo_screen 16\<rparr>"
  have "reciva_ok demo_driver (hwst (demo_menu ?d))" "length (reciva_shown ?d) = 2" "lcd_width ?d = 16"
    using demo_screen_ok [of 16]
    by (simp_all add: reciva_defs demo_menu_def demo_driver_def demo_screen_lines)
  with reciva_menu_on_display [OF demo_menu_rep [where d = ?d], where D = demo_driver and now = now] demo_view [of 16]
  show "?P now" by (auto simp: demo_menu_def demo_items_def demo_row_def)
qed

theorem terminal_menu_on_display_witness:
  "\<forall>now. \<exists>s'. lcd_refresh devel_ops now 1
      (demo_menu (demo_devel\<lparr>d_hei := 2, d_scr := demo_screen 14\<rparr>)) = Ret s'
     \<and> drawn (hwst s') = [(False, centred 14 [65], False), (True, centred 14 [66], True)]"
  (is "\<forall>now. ?P now")
proof
  fix now
  let ?d = "demo_devel\<lparr>d_hei := 2, d_scr := demo_screen 14\<rparr>"
  have "devel_ok (hwst (demo_menu ?d))" "length (devel_shown ?d) = 2" "devel_width ?d = 14"
    "\<forall>e\<in>set demo_items. plain (snd e)"
    using demo_screen_ok [of 14]
    by (simp_all add: devel_defs demo_menu_def demo_devel_def demo_screen_lines demo_items_def plain_def)
  with terminal_menu_on_display [OF demo_menu_rep [where d = ?d], where now = now] demo_view [of 14]
  show "?P now" by (auto simp: demo_menu_def demo_items_def demo_row_def)
qed

theorem one_line_has_arrows_witness:
  "\<exists>!j. j < 2 \<and> snd (menu_view 16 2 \<lparr>m_items = demo_items, m_sel = 2, m_top = 1\<rparr> ! j)"
proof -
  have "m_visible 2 \<lparr>m_items = demo_items, m_sel = 2, m_top = 1\<rparr>"
    by (auto simp: m_visible_def demo_items_def intro!: exI [of _ 1])
  then show ?thesis by (intro one_line_has_arrows) (simp_all add: demo_items_def)
qed

end
