(* ===== verification/Keys.thy ===== *)
theory Keys
  imports Prelude
begin

text \<open>
  The keys of the radio, \<^verbatim>\<open>key.h\<close> of libreciva, and its two implementations: the input devices of
  the kernel (\<^verbatim>\<open>key_reciva.c\<close>) and the keyboard of a terminal (\<^verbatim>\<open>key_devel.c\<close>).
\<close>

section \<open>Keys\<close>

text \<open>The names \<^verbatim>\<open>key.h\<close> gives twice are one constructor; \<open>KEY_ID_MENU\<close> is \<open>KEY_ID_5\<close>.\<close>

datatype key_id =
    KEY_ID_1 | KEY_ID_2 | KEY_ID_3 | KEY_ID_4 | KEY_ID_5
  | KEY_ID_SHIFT | KEY_ID_BACK | KEY_ID_SELECT | KEY_ID_REPLY | KEY_ID_POWER
  | KEY_ID_LEFT | KEY_ID_RIGHT | KEY_ID_VOLUP | KEY_ID_VOLDN | KEY_ID_BROWSE

abbreviation KEY_ID_MENU :: key_id where "KEY_ID_MENU \<equiv> KEY_ID_5"

text \<open>The state is a number: the code stores the value of an event, and flags, in it.\<close>

definition KEY_STATE_RELEASED :: int where "KEY_STATE_RELEASED = 0"
definition KEY_STATE_PRESSED :: int where "KEY_STATE_PRESSED = 1"

record key =
  k_state :: int
  k_id :: key_id

definition KEY_PRESSED :: "key \<Rightarrow> key_id \<Rightarrow> bool" where
  "KEY_PRESSED k i \<longleftrightarrow> k_id k = i \<and> k_state k = KEY_STATE_PRESSED"

definition KEY_RELEASED :: "key \<Rightarrow> key_id \<Rightarrow> bool" where
  "KEY_RELEASED k i \<longleftrightarrow> k_id k = i \<and> k_state k = KEY_STATE_RELEASED"

section \<open>The keys of the radio\<close>

definition EVENT_FD_COUNT :: nat where "EVENT_FD_COUNT = 4"

text \<open>\<open>opened i\<close> is what \<open>open\<close> returns for the device \<^verbatim>\<open>/dev/input/event\<close>\<open>i\<close>.\<close>

definition key_init :: "bool \<Rightarrow> (nat \<Rightarrow> int) \<Rightarrow> int list res" where
  "key_init calloc_ok opened =
     (if \<not> calloc_ok then Fault else Ret (map opened [0..<EVENT_FD_COUNT]))"

record input_event =
  ie_type :: nat
  ie_code :: nat
  ie_value :: int

definition button_id :: "nat \<Rightarrow> key_id option" where
  "button_id c =
     (if c = 309 then Some KEY_ID_SHIFT else if c = 265 then Some KEY_ID_BACK
      else if c = 263 then Some KEY_ID_SELECT else if c = 264 then Some KEY_ID_REPLY
      else if c = 256 then Some KEY_ID_POWER else if c = 257 then Some KEY_ID_1
      else if c = 258 then Some KEY_ID_2 else if c = 259 then Some KEY_ID_3
      else if c = 260 then Some KEY_ID_4 else if c = 261 then Some KEY_ID_5 else None)"

definition translate_key :: "input_event \<Rightarrow> key \<Rightarrow> int \<times> key" where
  "translate_key ie k =
     (if ie_type ie = 1
      then (case button_id (ie_code ie) of
              None \<Rightarrow> (0, k)
            | Some i \<Rightarrow> (1, k\<lparr>k_id := i, k_state := ie_value ie\<rparr>))
      else if ie_type ie = 2
      then (1, k\<lparr>k_id := (if ie_value ie = -1 then KEY_ID_LEFT else KEY_ID_RIGHT),
                 k_state := KEY_STATE_PRESSED\<rparr>)
      else (0, k))"

text \<open>
  What the kernel answers at one poll.  \<open>es_select n fds\<close> is the descriptors that \<open>select\<close> finds
  readable, \<open>None\<close> an error; \<open>es_read fd\<close> is what \<open>read\<close> returns and what is in the event
  structure afterwards, which is left as it was when \<open>read\<close> fails.
\<close>

record key_events =
  es_select :: "int \<Rightarrow> int list \<Rightarrow> int list option"
  es_read :: "int \<Rightarrow> int \<times> input_event"

text \<open>\<open>r<sizeof(ie)\<close> compares as unsigned numbers; the structure has 16 bytes on the radio.\<close>

definition short_read :: "int \<Rightarrow> bool" where
  "short_read r \<longleftrightarrow> (word_of_int r :: 32 word) < 16"

definition key_poll :: "key_events \<Rightarrow> int list \<Rightarrow> key \<Rightarrow> int \<times> key" where
  "key_poll E fds k =
     (let w = filter (\<lambda>fd. fd \<noteq> -1) fds
      in case es_select E (fold max w 0 + 1) w of
           None \<Rightarrow> (-1, k)
         | Some ready \<Rightarrow>
             if ready = [] then (0, k)
             else (case find (\<lambda>fd. fd \<noteq> -1 \<and> fd \<in> set ready) fds of
                     None \<Rightarrow> (0, k)
                   | Some fd \<Rightarrow>
                       let (r, ie) = es_read E fd
                       in if short_read r then (-1, k) else translate_key ie k))"

section \<open>The keys of the simulator\<close>

text \<open>What \<open>getch\<close> of the curses library returns.\<close>

datatype curses_key =
    ERR | Chr nat | KEY_F nat | KEY_ENTER | KEY_UP | KEY_DOWN | KEY_LEFT | KEY_RIGHT | KEY_BACKSPACE

datatype key_kind = KEYPRESSED | KEY6TO10PRESSED | KEYHELD | KEY6TO10HELD | BADKEY

definition HOLDME :: int where "HOLDME = 0x10000"

definition digit_key :: "nat \<Rightarrow> key_id" where
  "digit_key n = [KEY_ID_1, KEY_ID_2, KEY_ID_3, KEY_ID_4, KEY_ID_5] ! n"

definition devel_key_of :: "curses_key \<Rightarrow> (key_id \<times> key_kind) option" where
  "devel_key_of c =
     (case c of
        Chr n \<Rightarrow>
          if 0x31 \<le> n \<and> n \<le> 0x35 then Some (digit_key (n - 0x31), KEYPRESSED)
          else if 0x36 \<le> n \<and> n \<le> 0x39 then Some (digit_key (n - 0x36), KEY6TO10PRESSED)
          else if n = 0x30 then Some (KEY_ID_5, KEY6TO10PRESSED)
          else if n = 0x72 \<or> n = 0x52 then Some (KEY_ID_REPLY, KEYPRESSED)
          else if n = 0x6d \<or> n = 0x4d then Some (KEY_ID_MENU, KEYPRESSED)
          else if n = 0x62 \<or> n = 0x42 then Some (KEY_ID_BROWSE, KEYPRESSED)
          else if n = 10 \<or> n = 13 then Some (KEY_ID_SELECT, KEYPRESSED)
          else if n = 0x7f then Some (KEY_ID_BACK, KEYPRESSED)
          else if n = 27 then Some (KEY_ID_POWER, KEYPRESSED)
          else None
      | KEY_F n \<Rightarrow>
          if 1 \<le> n \<and> n \<le> 5 then Some (digit_key (n - 1), KEYHELD)
          else if 6 \<le> n \<and> n \<le> 10 then Some (digit_key (n - 6), KEY6TO10HELD)
          else None
      | KEY_ENTER \<Rightarrow> Some (KEY_ID_SELECT, KEYPRESSED)
      | KEY_UP \<Rightarrow> Some (KEY_ID_VOLUP, KEYPRESSED)
      | KEY_DOWN \<Rightarrow> Some (KEY_ID_VOLDN, KEYPRESSED)
      | KEY_LEFT \<Rightarrow> Some (KEY_ID_LEFT, KEYPRESSED)
      | KEY_RIGHT \<Rightarrow> Some (KEY_ID_RIGHT, KEYPRESSED)
      | KEY_BACKSPACE \<Rightarrow> Some (KEY_ID_BACK, KEYPRESSED)
      | ERR \<Rightarrow> None)"

definition devel_translate_key :: "curses_key \<Rightarrow> key \<Rightarrow> key_kind \<times> key" where
  "devel_translate_key c k =
     (let k = k\<lparr>k_state := KEY_STATE_PRESSED\<rparr>
      in case devel_key_of c of
           Some (i, kind) \<Rightarrow> (kind, k\<lparr>k_id := i\<rparr>)
         | None \<Rightarrow> (BADKEY, k))"

text \<open>The static variables of \<^verbatim>\<open>key_poll\<close>; \<open>sleepcount\<close> is not one, so it is 0 at every call.\<close>

record key_queue =
  queuesize :: nat
  queuepos :: nat
  qk :: "key list"

definition mk_key :: "int \<Rightarrow> key_id \<Rightarrow> key" where
  "mk_key st i = \<lparr>k_state = st, k_id = i\<rparr>"

definition devel_input :: "curses_key \<Rightarrow> key_queue \<Rightarrow> key \<Rightarrow> int \<times> key \<times> key_queue" where
  "devel_input c q k =
     (if c = ERR then (0, k, q)
      else
        let (kind, k) = devel_translate_key c k; i = k_id k
        in case kind of
             KEYPRESSED \<Rightarrow>
               (1, k, q\<lparr>queuesize := 1, qk := (qk q)[0 := mk_key KEY_STATE_RELEASED i]\<rparr>)
           | KEY6TO10PRESSED \<Rightarrow>
               (1, mk_key KEY_STATE_PRESSED KEY_ID_SHIFT,
                q\<lparr>queuesize := 3,
                  qk := (qk q)[0 := mk_key KEY_STATE_PRESSED i, 1 := mk_key KEY_STATE_RELEASED i,
                               2 := mk_key KEY_STATE_RELEASED KEY_ID_SHIFT]\<rparr>)
           | KEYHELD \<Rightarrow>
               (1, k, q\<lparr>qk := (qk q)[0 := mk_key (KEY_STATE_RELEASED AND HOLDME) i]\<rparr>)
           | KEY6TO10HELD \<Rightarrow>
               (1, mk_key KEY_STATE_PRESSED KEY_ID_SHIFT,
                q\<lparr>qk := (qk q)[0 := mk_key KEY_STATE_PRESSED i,
                               1 := mk_key (KEY_STATE_RELEASED AND HOLDME) i,
                               2 := mk_key KEY_STATE_RELEASED KEY_ID_SHIFT]\<rparr>)
           | BADKEY \<Rightarrow> (0, k, q))"

definition devel_key_poll :: "curses_key \<Rightarrow> key_queue \<Rightarrow> key \<Rightarrow> (int \<times> key \<times> key_queue) res" where
  "devel_key_poll c q k =
     (if queuesize q \<noteq> 0
      then res_bind (rd (qk q) (int (queuepos q))) (\<lambda>e.
           if k_state e AND HOLDME = HOLDME
           then Ret (0, k, q\<lparr>qk := (qk q)[queuepos q := e\<lparr>k_state := k_state e XOR HOLDME\<rparr>]\<rparr>)
           else
             let p = queuepos q + 1
             in Ret (1, e, if p = queuesize q then q\<lparr>queuepos := 0, queuesize := 0\<rparr>
                           else q\<lparr>queuepos := p\<rparr>))
      else Ret (devel_input c q k))"

text \<open>Polling once for each key of a list; the keys that are delivered.\<close>

fun devel_run :: "curses_key list \<Rightarrow> key_queue \<Rightarrow> key \<Rightarrow> (key list \<times> key_queue \<times> key) res" where
  "devel_run [] q k = Ret ([], q, k)"
| "devel_run (c # cs) q k =
     res_bind (devel_key_poll c q k) (\<lambda>(r, k, q).
     res_bind (devel_run cs q k) (\<lambda>(out, q', k').
     Ret ((if r = 1 then [k] else []) @ out, q', k')))"

section \<open>Presses and releases\<close>

text \<open>For each key, presses and releases alternate, beginning with a press and ending with a release.\<close>

definition paired :: "key list \<Rightarrow> bool" where
  "paired ks \<longleftrightarrow> (\<forall>i. \<exists>n. map k_state (filter (\<lambda>k. k_id k = i) ks)
                       = concat (replicate n [KEY_STATE_PRESSED, KEY_STATE_RELEASED]))"

definition pending :: "key_queue \<Rightarrow> key list" where
  "pending q = drop (queuepos q) (take (queuesize q) (qk q))"

definition queue_ok :: "key_queue \<Rightarrow> bool" where
  "queue_ok q \<longleftrightarrow> length (qk q) = 3 \<and> queuesize q \<le> 3
     \<and> (if queuesize q = 0 then queuepos q = 0 else queuepos q < queuesize q)
     \<and> (\<forall>e\<in>set (pending q). k_state e \<in> {KEY_STATE_PRESSED, KEY_STATE_RELEASED})"

definition function_key :: "curses_key \<Rightarrow> bool" where
  "function_key c \<longleftrightarrow> (\<exists>n. c = KEY_F n)"

lemmas key_defs = paired_def mk_key_def KEY_STATE_PRESSED_def KEY_STATE_RELEASED_def

lemma paired_Nil [simp]: "paired []"
  by (auto simp: paired_def intro: exI [of _ 0])

lemma paired_append: "paired xs \<Longrightarrow> paired ys \<Longrightarrow> paired (xs @ ys)"
  unfolding paired_def by (metis concat_append filter_append map_append replicate_add)

lemma paired_one: "paired [mk_key KEY_STATE_PRESSED i, mk_key KEY_STATE_RELEASED i]"
  unfolding paired_def
proof
  fix j
  show "\<exists>n. map k_state (filter (\<lambda>k. k_id k = j) [mk_key KEY_STATE_PRESSED i, mk_key KEY_STATE_RELEASED i])
      = concat (replicate n [KEY_STATE_PRESSED, KEY_STATE_RELEASED])"
    by (rule exI [of _ "if j = i then 1 else 0"]) (simp add: mk_key_def)
qed

lemma paired_shifted:
  assumes "i \<noteq> KEY_ID_SHIFT"
  shows "paired [mk_key KEY_STATE_PRESSED KEY_ID_SHIFT, mk_key KEY_STATE_PRESSED i,
                 mk_key KEY_STATE_RELEASED i, mk_key KEY_STATE_RELEASED KEY_ID_SHIFT]" (is "paired ?b")
  unfolding paired_def
proof
  fix j
  show "\<exists>n. map k_state (filter (\<lambda>k. k_id k = j) ?b)
      = concat (replicate n [KEY_STATE_PRESSED, KEY_STATE_RELEASED])"
    by (rule exI [of _ "if j = i \<or> j = KEY_ID_SHIFT then 1 else 0"]) (use assms in \<open>auto simp: mk_key_def\<close>)
qed

lemma digit_key_not_shift: "n < 5 \<Longrightarrow> digit_key n \<noteq> KEY_ID_SHIFT"
  by (auto simp: digit_key_def less_Suc_eq numeral_eq_Suc)

lemma devel_key_of_shifted: "devel_key_of c = Some (i, KEY6TO10PRESSED) \<Longrightarrow> i \<noteq> KEY_ID_SHIFT"
  by (auto simp: devel_key_of_def digit_key_not_shift split: curses_key.splits if_splits)

lemma devel_key_of_held: "devel_key_of c = Some (i, kind) \<Longrightarrow> \<not> function_key c \<Longrightarrow>
    kind \<in> {KEYPRESSED, KEY6TO10PRESSED}"
  by (auto simp: devel_key_of_def function_key_def split: curses_key.splits if_splits)

lemma not_HOLDME: "x \<in> {KEY_STATE_PRESSED, KEY_STATE_RELEASED} \<Longrightarrow> x AND HOLDME \<noteq> HOLDME"
  by (auto simp: KEY_STATE_PRESSED_def KEY_STATE_RELEASED_def HOLDME_def)

lemma poll_queued:
  assumes "queue_ok q" "queuesize q \<noteq> 0"
  shows "\<exists>q'. devel_key_poll c q k = Ret (1, hd (pending q), q') \<and> queue_ok q'
           \<and> hd (pending q) # pending q' = pending q"
proof -
  let ?p = "queuepos q"
  have l: "?p < queuesize q" "queuesize q \<le> length (qk q)" "length (qk q) = 3"
    using assms by (auto simp: queue_ok_def)
  then have dr: "pending q = qk q ! ?p # drop (Suc ?p) (take (queuesize q) (qk q))"
    unfolding pending_def by (subst Cons_nth_drop_Suc [symmetric]) auto
  then have e: "k_state (qk q ! ?p) AND HOLDME \<noteq> HOLDME"
    using assms(1) by (intro not_HOLDME) (simp add: queue_ok_def)
  let ?q = "if Suc ?p = queuesize q then q\<lparr>queuepos := 0, queuesize := 0\<rparr> else q\<lparr>queuepos := Suc ?p\<rparr>"
  have "devel_key_poll c q k = Ret (1, qk q ! ?p, ?q)"
    using assms(2) l e by (simp add: devel_key_poll_def buf_simps)
  moreover have pq: "pending ?q = drop (Suc ?p) (take (queuesize q) (qk q))"
    using l by (simp add: pending_def)
  moreover have "queue_ok ?q"
    using assms(1) l pq dr unfolding queue_ok_def by (auto simp: pending_def)
  ultimately show ?thesis using dr by auto
qed

lemma poll_input:
  assumes "queue_ok q" "queuesize q = 0" "\<not> function_key c"
  shows "\<exists>r k' q' b. devel_key_poll c q k = Ret (r, k', q') \<and> queue_ok q' \<and> paired b
           \<and> (if r = 1 then [k'] else []) @ pending q' = b"
proof -
  obtain a b d where q: "qk q = [a, b, d]"
    using assms(1) by (auto simp: queue_ok_def numeral_3_eq_3 length_Suc_conv)
  have pos: "queuepos q = 0" using assms(1,2) by (simp add: queue_ok_def)
  show ?thesis
  proof (cases "devel_key_of c")
    case None
    then show ?thesis
      using assms by (auto simp: devel_key_poll_def devel_input_def devel_translate_key_def pending_def Let_def)
  next
    case (Some x)
    obtain i kind where x: "x = (i, kind)" by (cases x)
    have c: "c \<noteq> ERR" using Some by (auto simp: devel_key_of_def)
    have kk: "k\<lparr>k_state := KEY_STATE_PRESSED, k_id := i\<rparr> = mk_key KEY_STATE_PRESSED i"
      by (simp add: mk_key_def)
    consider "kind = KEYPRESSED" | "kind = KEY6TO10PRESSED" using devel_key_of_held Some x assms(3) by blast
    then show ?thesis
    proof cases
      case 1
      then show ?thesis
        using Some x c assms q pos paired_one [of i]
        by (simp add: devel_key_poll_def devel_input_def devel_translate_key_def pending_def Let_def
              queue_ok_def kk) (simp add: mk_key_def)
    next
      case 2
      then show ?thesis
        using Some x c assms q pos paired_shifted [of i] devel_key_of_shifted [of c i]
        by (simp add: devel_key_poll_def devel_input_def devel_translate_key_def pending_def Let_def
              queue_ok_def) (simp add: mk_key_def)
    qed
  qed
qed

lemma devel_run_pairs:
  assumes "queue_ok q" "\<forall>c\<in>set cs. \<not> function_key c"
  shows "\<exists>out q' k' b. devel_run cs q k = Ret (out, q', k') \<and> queue_ok q' \<and> paired b
           \<and> out @ pending q' = pending q @ b"
  using assms
proof (induction cs arbitrary: q k)
  case Nil
  then show ?case by (intro exI [of _ "[]"]) auto
next
  case (Cons c cs)
  obtain r k1 q1 b1 where s: "devel_key_poll c q k = Ret (r, k1, q1)" "queue_ok q1" "paired b1"
      "(if r = 1 then [k1] else []) @ pending q1 = pending q @ b1"
  proof (cases "queuesize q = 0")
    case True
    then have "pending q = []" by (simp add: pending_def)
    then show ?thesis using poll_input [OF Cons.prems(1) True, of c k] Cons.prems(2) that by auto
  next
    case False
    then show ?thesis
      using poll_queued [OF Cons.prems(1) False, of c k] that [of 1 _ _ "[]"] by auto
  qed
  obtain out q' k' b where t: "devel_run cs q1 k1 = Ret (out, q', k')" "queue_ok q'" "paired b"
      "out @ pending q' = pending q1 @ b"
    using Cons.IH [OF s(2), of k1] Cons.prems(2) by auto
  have "((if r = 1 then [k1] else []) @ out) @ pending q' = pending q @ b1 @ b"
    using s(4) t(4) by (metis append.assoc)
  then show ?case
    using s(1) t(1,2) paired_append [OF s(3) t(3)] by auto
qed

section \<open>What the keys deliver\<close>

text \<open>
  Polling the simulator's keys any number of times never faults, and as long as no function key
  was used, the presses and releases delivered, with those still queued, are paired: each key is
  released after every press, in order, a shifted digit between press and release of the shift key.
\<close>

theorem keys_are_paired:
  assumes "length (qk q) = 3" "queuesize q = 0" "queuepos q = 0" "\<forall>c\<in>set cs. \<not> function_key c"
  shows "\<exists>out q' k'. devel_run cs q k = Ret (out, q', k') \<and> paired (out @ pending q')
           \<and> (queuesize q' = 0 \<longrightarrow> paired out)"
proof -
  have "queue_ok q" "pending q = []" using assms by (simp_all add: queue_ok_def pending_def)
  then show ?thesis using devel_run_pairs [OF _ assms(4), of q k] by (auto simp: pending_def)
qed

text \<open>
  A function key, which is to simulate a key held down, is never released: its press is delivered
  and nothing follows, however long the keyboard is polled without another key.
\<close>

theorem held_key_never_released:
  assumes "queuesize q = 0" "length (qk q) = 3" "1 \<le> n" "n \<le> 5"
  shows "\<exists>q'. devel_run (KEY_F n # replicate m ERR) q k
           = Ret ([mk_key KEY_STATE_PRESSED (digit_key (n - 1))], q', mk_key KEY_STATE_PRESSED (digit_key (n - 1)))"
proof -
  have idle: "devel_run (replicate m ERR) q k = Ret ([], q, k)" if "queuesize q = 0" for q k
    using that by (induction m) (simp_all add: devel_key_poll_def devel_input_def)
  have "devel_key_of (KEY_F n) = Some (digit_key (n - 1), KEYHELD)"
    using assms(3,4) by (simp add: devel_key_of_def)
  moreover have "k\<lparr>k_state := KEY_STATE_PRESSED, k_id := i\<rparr> = mk_key KEY_STATE_PRESSED i" for i
    by (simp add: mk_key_def)
  ultimately show ?thesis
    using assms(1) idle
    by (simp add: devel_key_poll_def devel_input_def devel_translate_key_def Let_def mk_key_def)
qed

text \<open>
  On the radio, a failing read is not reported: \<open>read\<close> returns -1, which compares as a large
  unsigned number, and whatever the event structure happens to hold is delivered as a key.
\<close>

theorem key_read_error_unnoticed:
  assumes "es_select E (fold max (filter (\<lambda>fd. fd \<noteq> -1) fds) 0 + 1) (filter (\<lambda>fd. fd \<noteq> -1) fds) = Some ready"
    and "find (\<lambda>fd. fd \<noteq> -1 \<and> fd \<in> set ready) fds = Some fd" "es_read E fd = (-1, stale)"
  shows "key_poll E fds k = translate_key stale k"
proof -
  have "ready \<noteq> []" using assms(2) by (auto simp: find_Some_iff)
  moreover have "\<not> short_read (-1)" by (simp add: short_read_def)
  ultimately show ?thesis using assms by (simp add: key_poll_def Let_def)
qed

section \<open>Witnesses\<close>

definition no_keys :: key_queue where
  "no_keys = \<lparr>queuesize = 0, queuepos = 0, qk = replicate 3 (mk_key 0 KEY_ID_1)\<rparr>"

theorem keys_are_paired_witness:
  "\<exists>out q' k'. devel_run [Chr 0x37, ERR, Chr 0x41, ERR, KEY_UP] no_keys (mk_key 0 KEY_ID_1) = Ret (out, q', k')
     \<and> paired (out @ pending q')"
  using keys_are_paired [of no_keys "[Chr 0x37, ERR, Chr 0x41, ERR, KEY_UP]" "mk_key 0 KEY_ID_1"]
  by (fastforce simp: no_keys_def function_key_def)

theorem held_key_never_released_witness:
  "\<exists>q'. devel_run (KEY_F 3 # replicate 100 ERR) no_keys (mk_key 0 KEY_ID_1)
     = Ret ([mk_key KEY_STATE_PRESSED KEY_ID_3], q', mk_key KEY_STATE_PRESSED KEY_ID_3)"
  using held_key_never_released [of no_keys 3 100 "mk_key 0 KEY_ID_1"]
  by (simp add: no_keys_def digit_key_def)

theorem key_read_error_unnoticed_witness:
  "key_poll \<lparr>es_select = (\<lambda>n fds. Some [5]), es_read = (\<lambda>fd. (-1, \<lparr>ie_type = 1, ie_code = 256, ie_value = 1\<rparr>))\<rparr>
     [-1, 5, 6, -1] (mk_key 0 KEY_ID_1) = (1, mk_key 1 KEY_ID_POWER)"
  using key_read_error_unnoticed [of "\<lparr>es_select = (\<lambda>n fds. Some [5]),
      es_read = (\<lambda>fd. (-1, \<lparr>ie_type = 1, ie_code = 256, ie_value = 1\<rparr>))\<rparr>" "[-1, 5, 6, -1]" "[5]" 5]
  by (simp add: translate_key_def button_id_def mk_key_def)

end
