(* ===== verification/Sys.thy ===== *)
theory Sys
  imports Prelude
begin

text \<open>
  The small services of libreciva: the mute switch, the watchdog and the log, each with its
  implementation for the radio and for the simulator, and the terminal windows of the simulator.
\<close>

section \<open>Mute\<close>

datatype smute_e_state = SMUTE_ON | SMUTE_OFF

text \<open>
  \<open>mute_calls\<close> is what the device was told, the last first; whether it can be opened is an
  argument.  Its answer to the request is only logged.
\<close>

record mute =
  stored_mute_state :: smute_e_state
  mute_calls :: "smute_e_state list"

definition smute_hwdoioctl :: "bool \<Rightarrow> bool \<Rightarrow> smute_e_state \<Rightarrow> mute \<Rightarrow> (bool \<times> mute) res" where
  "smute_hwdoioctl open_ok ioctl_ok arg m =
     (if \<not> open_ok then Exit
      else Ret (ioctl_ok, m\<lparr>mute_calls := arg # mute_calls m\<rparr>))"

definition mute_set :: "bool \<Rightarrow> bool \<Rightarrow> smute_e_state \<Rightarrow> mute \<Rightarrow> mute res" where
  "mute_set open_ok ioctl_ok state m =
     res_bind (smute_hwdoioctl open_ok ioctl_ok state (m\<lparr>stored_mute_state := state\<rparr>)) (\<lambda>(_, m). Ret m)"

definition mute_get :: "mute \<Rightarrow> smute_e_state" where
  "mute_get m = stored_mute_state m"

definition devel_mute_set :: "smute_e_state \<Rightarrow> smute_e_state \<Rightarrow> smute_e_state" where
  "devel_mute_set state saved_state = state"

definition devel_mute_get :: "smute_e_state \<Rightarrow> smute_e_state" where
  "devel_mute_get saved_state = saved_state"

section \<open>Watchdog\<close>

datatype dog_call = Dog_enable | Dog_disable | Dog_kick | Dog_close

record dog =
  wd_fd :: int
  wd_enabled :: bool
  dog_calls :: "(int \<times> dog_call) list"

definition dog_init :: "int \<Rightarrow> dog \<Rightarrow> (bool \<times> dog) res" where
  "dog_init fd w = (if fd = -1 then Exit else Ret (True, w\<lparr>wd_fd := fd\<rparr>))"

definition dog_request :: "dog_call \<Rightarrow> dog \<Rightarrow> dog" where
  "dog_request c w = w\<lparr>dog_calls := (wd_fd w, c) # dog_calls w\<rparr>"

definition dog_exit :: "dog \<Rightarrow> dog" where
  "dog_exit w = (if wd_fd w \<noteq> -1 then dog_request Dog_close w else w)"

text \<open>\<open>r\<close> is what the request to the device returns.\<close>

definition dog_enable :: "int \<Rightarrow> dog \<Rightarrow> int \<times> dog" where
  "dog_enable r w =
     (if wd_fd w = -1 then (-1, w)
      else (if r \<noteq> 0 then -1 else 0, dog_request Dog_enable (w\<lparr>wd_enabled := True\<rparr>)))"

definition dog_disable :: "int \<Rightarrow> dog \<Rightarrow> int \<times> dog" where
  "dog_disable r w =
     (if wd_fd w = -1 then (-1, w)
      else (if r \<noteq> 0 then -1 else 0, dog_request Dog_disable (w\<lparr>wd_enabled := False\<rparr>)))"

definition dog_isenabled :: "dog \<Rightarrow> bool" where
  "dog_isenabled w = wd_enabled w"

definition dog_kick :: "dog \<Rightarrow> int \<times> dog" where
  "dog_kick w = (if wd_fd w = -1 then (-1, w) else (0, dog_request Dog_kick w))"

definition devel_dog_init :: bool where "devel_dog_init = True"

definition devel_dog_exit :: "bool \<Rightarrow> bool" where "devel_dog_exit enabled = enabled"

definition devel_dog_enable :: "bool \<Rightarrow> int \<times> bool" where "devel_dog_enable enabled = (0, True)"

definition devel_dog_disable :: "bool \<Rightarrow> int \<times> bool" where "devel_dog_disable enabled = (0, False)"

definition devel_dog_isenabled :: "bool \<Rightarrow> bool" where "devel_dog_isenabled enabled = enabled"

definition devel_dog_kick :: "bool \<Rightarrow> int \<times> bool" where "devel_dog_kick enabled = (0, enabled)"

section \<open>Log\<close>

datatype log_level = LG_FTL | LG_ERR | LG_WRN | LG_INF | LG_DBG

primrec level_no :: "log_level \<Rightarrow> nat" where
  "level_no LG_FTL = 0" | "level_no LG_ERR = 1" | "level_no LG_WRN = 2" | "level_no LG_INF = 3"
| "level_no LG_DBG = 4"

definition levelstr :: "log_level \<Rightarrow> byte list" where
  "levelstr l = bytes ([''ftl'', ''err'', ''wrn'', ''inf'', ''dbg''] ! level_no l)"

definition ansistr :: "log_level \<Rightarrow> byte list" where
  "ansistr l = 27 # bytes ([''[7m'', ''[4m'', ''[1m'', ''[22m'', ''[22m''] ! level_no l)"

definition LOG_TO_STDERR :: "32 word" where "LOG_TO_STDERR = 1"
definition LOG_TO_SYSLOG :: "32 word" where "LOG_TO_SYSLOG = 2"

text \<open>The three outputs are what was written so far; \<open>syslog\<close> is its lines, the last first.\<close>

record logst =
  loglevel :: log_level
  log_to :: "32 word"
  log_ansicolors :: bool
  progname :: "byte list"
  syslog :: "byte list list"
  stderr :: "byte list"
  logw :: "byte list option"

definition log_init :: "byte list \<Rightarrow> 32 word \<Rightarrow> log_level \<Rightarrow> bool \<Rightarrow> logst \<Rightarrow> logst" where
  "log_init name to level color st =
     st\<lparr>progname := name, log_to := to, loglevel := level, log_ansicolors := color\<rparr>"

text \<open>
  \<open>[%s] %-10.10s \<close> of the level and the function's name, the caller's text behind it, what fits
  in the 511 bytes of the buffer, and the ends of lines replaced by blanks.
\<close>

definition blank_breaks :: "byte list \<Rightarrow> byte list" where
  "blank_breaks = map (\<lambda>c. if c = 10 \<or> c = 13 then 32 else c)"

definition log_line :: "log_level \<Rightarrow> byte list \<Rightarrow> byte list \<Rightarrow> byte list" where
  "log_line level func msg =
     (let f = take 10 func
      in blank_breaks (take 511 (bytes ''['' @ levelstr level @ bytes ''] '' @ f @ replicate (10 - length f) 32
                                 @ [32] @ msg)))"

definition log_outputs :: "log_level \<Rightarrow> byte list \<Rightarrow> logst \<Rightarrow> logst" where
  "log_outputs level buf st =
     (let st = (if log_to st AND LOG_TO_SYSLOG \<noteq> 0 then st\<lparr>syslog := buf # syslog st\<rparr> else st)
      in if log_to st AND LOG_TO_STDERR \<noteq> 0 \<or> level = LG_FTL
         then st\<lparr>stderr := stderr st @ (if log_ansicolors st then ansistr level else [])
                           @ buf @ [10] @ (if log_ansicolors st then 27 # bytes ''[0m'' else [])\<rparr>
         else st)"

text \<open>The first component tells that the process ends.\<close>

definition log_entry :: "log_level \<Rightarrow> byte list \<Rightarrow> byte list \<Rightarrow> logst \<Rightarrow> bool \<times> logst" where
  "log_entry level func msg st =
     (if level_no level > level_no (loglevel st) then (False, st)
      else (level = LG_FTL, log_outputs level (log_line level func msg) st))"

text \<open>
  The simulator also prints to its window, giving the text itself as the format: \<open>%%\<close> prints one
  percent sign, and any other directive reads an argument that is not there.
\<close>

fun print_format :: "byte list \<Rightarrow> byte list res" where
  "print_format [] = Ret []"
| "print_format (c # cs) =
     (if c \<noteq> 0x25 then res_map ((#) c) (print_format cs)
      else case cs of [] \<Rightarrow> Fault
           | d # ds \<Rightarrow> if d = 0x25 then res_map ((#) 0x25) (print_format ds) else Fault)"

definition devel_log_init :: "byte list \<Rightarrow> 32 word \<Rightarrow> log_level \<Rightarrow> bool \<Rightarrow> bool \<Rightarrow> logst \<Rightarrow> logst res" where
  "devel_log_init name to level color newwin_ok st =
     (if \<not> newwin_ok then Exit
      else Ret (log_init name to level color
                  (st\<lparr>logw := Some (bytes '' Welcome to the Sharpfin Radio Simulator ...'' @ [10])\<rparr>)))"

definition devel_log_entry :: "log_level \<Rightarrow> byte list \<Rightarrow> byte list \<Rightarrow> logst \<Rightarrow> (bool \<times> logst) res" where
  "devel_log_entry level func msg st =
     (if level_no level > level_no (loglevel st) then Ret (False, st)
      else
        let buf = log_line level func msg; st = log_outputs level buf st
        in case logw st of
             None \<Rightarrow> Ret (level = LG_FTL, st)
           | Some w \<Rightarrow>
               res_bind (print_format buf) (\<lambda>out.
               Ret (level = LG_FTL, st\<lparr>logw := Some (w @ out @ [10])\<rparr>)))"

subsection \<open>Hex dumps\<close>

definition hex2 :: "byte \<Rightarrow> byte list" where
  "hex2 b = pad_left 48 2 (hex_digits (unat b))"

text \<open>\<open>n\<close> more cells of a row from byte \<open>j\<close> on.\<close>

fun hex_cells :: "nat \<Rightarrow> byte list \<Rightarrow> int \<Rightarrow> int \<Rightarrow> byte list res" where
  "hex_cells 0 data len j = Ret []"
| "hex_cells (Suc n) data len j =
     res_bind (if j < len then res_map (\<lambda>b. hex2 b @ [32]) (rd data j) else Ret [32, 32, 32]) (\<lambda>s.
     res_map ((@) s) (hex_cells n data len (j + 1)))"

fun ascii_cells :: "nat \<Rightarrow> byte list \<Rightarrow> int \<Rightarrow> int \<Rightarrow> byte list res" where
  "ascii_cells 0 data len j = Ret []"
| "ascii_cells (Suc n) data len j =
     (if j < len
      then res_bind (rd data j) (\<lambda>b.
           res_map ((#) (if b \<ge> 32 \<and> b \<le> 127 then b else 0x2e)) (ascii_cells n data len (j + 1)))
      else Ret [])"

definition hex_row :: "byte list \<Rightarrow> int \<Rightarrow> int \<Rightarrow> byte list res" where
  "hex_row data len i =
     res_bind (hex_cells 16 data len i) (\<lambda>h.
     res_bind (ascii_cells 16 data len i) (\<lambda>a.
     Ret (bytes ''| '' @ pad_left 48 4 (hex_digits (nat i)) @ bytes ''  '' @ h @ bytes ''  '' @ a @ [10])))"

function hex_rows :: "byte list \<Rightarrow> int \<Rightarrow> int \<Rightarrow> byte list list res" where
  "hex_rows data len i =
     (if i < len
      then res_bind (hex_row data len i) (\<lambda>r. res_map ((#) r) (hex_rows data len (i + 16)))
      else Ret [])"
  by pat_completeness auto
termination by (relation "measure (\<lambda>(data, len, i). nat (len - i))") auto

declare hex_rows.simps [simp del]

definition log_hexdump :: "byte list \<Rightarrow> byte list \<Rightarrow> int \<Rightarrow> logst \<Rightarrow> logst res" where
  "log_hexdump txt data len st =
     (if len = 0 then Ret st
      else res_bind (hex_rows data len 0) (\<lambda>rs.
           Ret (st\<lparr>stderr := stderr st @ bytes ''+-------| '' @ txt @ bytes '' len='' @ dec_int len
                             @ bytes '' |-------'' @ [10] @ concat rs\<rparr>)))"

section \<open>Terminal windows\<close>

text \<open>
  The windows of the simulator, by their place and size (lines, columns, top, left), and whether
  curses can create each, which is an argument.  \<open>first\<close> is local to \<^verbatim>\<open>scr_init_common\<close>, so every
  call of it starts curses again; the calls are counted.
\<close>

type_synonym window = "int \<times> int \<times> int \<times> int"

record scr_windows =
  lcdw :: "window option"
  lcdl :: "window option"
  logwin :: "window option"
  helpw :: "window option"
  initscr_calls :: nat

definition scr_init_common :: "scr_windows \<Rightarrow> scr_windows" where
  "scr_init_common s = s\<lparr>initscr_calls := Suc (initscr_calls s)\<rparr>"

definition scr_init_lcd :: "(window \<Rightarrow> bool) \<Rightarrow> int \<Rightarrow> int \<Rightarrow> scr_windows \<Rightarrow> (bool \<times> scr_windows) res" where
  "scr_init_lcd newwin hei wid s =
     (let s = scr_init_common s; a = (hei, wid + 2, 1, 1); b = (4, 22, 1, 18)
      in if \<not> newwin a then Exit
         else if \<not> newwin b then Exit
         else Ret (True, s\<lparr>lcdw := Some a, lcdl := Some b\<rparr>))"

definition scr_init_log :: "(window \<Rightarrow> bool) \<Rightarrow> scr_windows \<Rightarrow> (bool \<times> scr_windows) res" where
  "scr_init_log newwin s =
     (let s = scr_init_common s; a = (15, 80, 6, 0)
      in if \<not> newwin a then Exit else Ret (True, s\<lparr>logwin := Some a\<rparr>))"

definition scr_init_key :: "(window \<Rightarrow> bool) \<Rightarrow> scr_windows \<Rightarrow> (bool \<times> scr_windows) res" where
  "scr_init_key newwin s =
     (let s = scr_init_common s; a = (4, 38, 1, 41)
      in if \<not> newwin a then Exit else Ret (True, s\<lparr>helpw := Some a\<rparr>))"

definition scr_get_lcdw :: "scr_windows \<Rightarrow> window option" where "scr_get_lcdw s = lcdw s"
definition scr_get_lcdl :: "scr_windows \<Rightarrow> window option" where "scr_get_lcdl s = lcdl s"
definition scr_get_logw :: "scr_windows \<Rightarrow> window option" where "scr_get_logw s = logwin s"
definition scr_get_helpw :: "scr_windows \<Rightarrow> window option" where "scr_get_helpw s = helpw s"

section \<open>The log\<close>

lemma blank_breaks_set: "10 \<notin> set (blank_breaks s)" "13 \<notin> set (blank_breaks s)"
  by (auto simp: blank_breaks_def split: if_splits)

text \<open>
  A message is logged exactly when its level is not above the level set, always as a single line
  of at most 511 bytes without line breaks, and the process ends exactly for a fatal one, which
  was then written to the standard error whatever the outputs chosen.
\<close>

theorem log_entry_writes_line:
  "\<exists>b. length b \<le> 511 \<and> 10 \<notin> set b \<and> 13 \<notin> set b
     \<and> fst (log_entry level func msg st) = (level = LG_FTL)
     \<and> syslog (snd (log_entry level func msg st))
         = (if level_no level \<le> level_no (loglevel st) \<and> log_to st AND LOG_TO_SYSLOG \<noteq> 0 then b # syslog st
            else syslog st)
     \<and> (level = LG_FTL \<longrightarrow>
          (\<exists>x y. stderr (snd (log_entry level func msg st)) = stderr st @ x @ b @ [10] @ y))"
proof -
  let ?b = "log_line level func msg"
  have "length ?b \<le> 511"
    by (simp only: log_line_def Let_def blank_breaks_def length_map length_take min.cobounded2)
  moreover have "10 \<notin> set ?b" "13 \<notin> set ?b"
    unfolding log_line_def Let_def by (rule blank_breaks_set)+
  moreover have "fst (log_entry level func msg st) = (level = LG_FTL)"
    by (cases level) (auto simp: log_entry_def)
  moreover have "syslog (snd (log_entry level func msg st))
         = (if level_no level \<le> level_no (loglevel st) \<and> log_to st AND LOG_TO_SYSLOG \<noteq> 0 then ?b # syslog st
            else syslog st)"
    by (simp add: log_entry_def log_outputs_def Let_def)
  moreover have "\<exists>x y. stderr (snd (log_entry LG_FTL func msg st))
      = stderr st @ x @ log_line LG_FTL func msg @ [10] @ y"
    by (cases "log_to st AND LOG_TO_SYSLOG = 0"; cases "log_ansicolors st")
       (fastforce simp: log_entry_def log_outputs_def Let_def)+
  ultimately show ?thesis by blast
qed

section \<open>Reading a hex dump back\<close>

definition hex_val :: "byte \<Rightarrow> nat" where
  "hex_val c = (if unat c < 58 then unat c - 48 else unat c - 55)"

fun dump_cells :: "byte list \<Rightarrow> byte list" where
  "dump_cells (a # b # c # r) =
     (if a = 32 then [] else of_nat (16 * hex_val a + hex_val b) # dump_cells r)"
| "dump_cells _ = []"

definition dump_row :: "byte list \<Rightarrow> byte list" where
  "dump_row r = dump_cells (take 48 (drop 8 r))"

lemma hex_digit_val: "n < 16 \<Longrightarrow> hex_val (hex_digit n) = n"
  by (simp add: hex_val_def unat_of_nat)

lemma hex_digit_not_blank: "n < 16 \<Longrightarrow> hex_digit n \<noteq> 32"
proof
  assume "n < 16" "hex_digit n = 32"
  then have "unat (hex_digit n) = 32" by simp
  then show False using \<open>n < 16\<close> by (simp add: unat_of_nat split: if_splits)
qed

lemma hex2_digits: "hex2 b = [hex_digit (unat b div 16), hex_digit (unat b mod 16)]"
proof (cases "unat b < 16")
  case True
  then show ?thesis by (simp add: hex2_def pad_left_def hex_digits.simps)
next
  case False
  have "unat b < 256" using unsigned_less [of b] by simp
  then have "unat b div 16 < 16" by simp
  then show ?thesis using False by (simp add: hex2_def pad_left_def hex_digits.simps)
qed

lemma dump_cells_hex2: "dump_cells (hex2 b @ [32] @ r) = b # dump_cells r"
proof -
  have u: "unat b < 256" using unsigned_less [of b] by simp
  then have d: "unat b div 16 < 16" "unat b mod 16 < 16" by auto
  have "of_nat (16 * hex_val (hex_digit (unat b div 16)) + hex_val (hex_digit (unat b mod 16))) = b"
    unfolding hex_digit_val [OF d(1)] hex_digit_val [OF d(2)] by simp
  then show ?thesis using hex_digit_not_blank [OF d(1)] by (simp add: hex2_digits del: hex_digit.simps)
qed

lemma hex_cells_blank: "len \<le> j \<Longrightarrow> hex_cells n data len j = Ret (replicate (3 * n) 32)"
proof (induction n arbitrary: j)
  case (Suc n)
  have "replicate (3 * Suc n) 32 = [32, 32, 32 :: byte] @ replicate (3 * n) 32"
    by (simp add: numeral_3_eq_3)
  then show ?case using Suc.IH [of "j + 1"] Suc.prems by simp
qed simp

lemma dump_cells_blank: "dump_cells (replicate (3 * n) 32) = []"
  by (cases n) (simp_all add: numeral_3_eq_3)

lemma hex_cells_dump:
  assumes "len = int (length data)" "j \<le> length data"
  shows "\<exists>h. hex_cells n data len (int j) = Ret h \<and> length h = 3 * n
    \<and> dump_cells h = take n (drop j data)"
  using assms(2)
proof (induction n arbitrary: j)
  case (Suc n)
  show ?case
  proof (cases "j < length data")
    case True
    then obtain h where h: "hex_cells n data len (int (Suc j)) = Ret h" "length h = 3 * n"
        "dump_cells h = take n (drop (Suc j) data)"
      using Suc.IH [of "Suc j"] by auto
    have "hex_cells (Suc n) data len (int j) = Ret (hex2 (data ! j) @ [32] @ h)"
      using True h(1) assms(1) by (simp add: buf_simps add.commute)
    moreover have "length (hex2 (data ! j) @ [32] @ h) = 3 * Suc n" using h(2) by (simp add: hex2_digits)
    moreover have "dump_cells (hex2 (data ! j) @ [32] @ h) = take (Suc n) (drop j data)"
      using True h(3) by (subst dump_cells_hex2) (simp add: Cons_nth_drop_Suc [symmetric])
    ultimately show ?thesis by blast
  next
    case False
    then show ?thesis
      using hex_cells_blank [of len "int j" "Suc n" data] assms(1) Suc.prems
      dump_cells_blank [of "Suc n"]
      by (simp del: hex_cells.simps)
  qed
qed simp

lemma ascii_cells_Ret:
  assumes "len = int (length data)" "j \<le> length data"
  shows "\<exists>a. ascii_cells n data len (int j) = Ret a"
  using assms(2)
proof (induction n arbitrary: j)
  case (Suc n)
  show ?case
    using Suc.IH [of "Suc j"] Suc.prems assms(1) by (cases "j < length data") (auto simp: buf_simps add.commute)
qed simp

lemma length_hex_digits: "n < 16 ^ Suc k \<Longrightarrow> length (hex_digits n) \<le> Suc k"
proof (induction k arbitrary: n)
  case (Suc k)
  have "n div 16 < 16 ^ Suc k" using Suc.prems by (simp add: less_mult_imp_div_less)
  then show ?case using Suc.IH [of "n div 16"] by (subst hex_digits.simps) simp
qed (simp add: hex_digits.simps)

lemma hex_digits_length: "i < 65536 \<Longrightarrow> length (pad_left 48 4 (hex_digits i)) = 4"
  using length_hex_digits [of i 3] by (simp add: pad_left_def)

lemma hex_row_dump:
  assumes "len = int (length data)" "j \<le> length data" "j < 65536"
  shows "\<exists>r. hex_row data len (int j) = Ret r \<and> dump_row r = take 16 (drop j data)"
proof -
  obtain h where h: "hex_cells 16 data len (int j) = Ret h" "length h = 48" "dump_cells h = take 16 (drop j data)"
    using hex_cells_dump [OF assms(1,2), of 16] by auto
  obtain a where a: "ascii_cells 16 data len (int j) = Ret a" using ascii_cells_Ret [OF assms(1,2)] by blast
  show ?thesis
    using h a hex_digits_length [OF assms(3)] by (simp add: hex_row_def dump_row_def bytes_def del: hex_cells.simps)
qed

lemma hex_rows_dump:
  assumes "len = int (length data)" "length data \<le> 65536"
  shows "\<exists>rs. hex_rows data len (int j) = Ret rs \<and> concat (map dump_row rs) = drop j data"
proof (induction "length data - j" arbitrary: j rule: less_induct)
  case less
  show ?case
  proof (cases "j < length data")
    case True
    obtain r where r: "hex_row data len (int j) = Ret r" "dump_row r = take 16 (drop j data)"
      using hex_row_dump [OF assms(1), of j] True assms(2) by auto
    have "length data - (j + 16) < length data - j" using True by linarith
    from less [OF this] obtain rs where
      rs: "hex_rows data len (int (j + 16)) = Ret rs" "concat (map dump_row rs) = drop (j + 16) data"
      by blast
    have "hex_rows data len (int j) = Ret (r # rs)"
      using True r(1) rs(1) assms(1) by (subst hex_rows.simps) simp
    then show ?thesis
      using r(2) rs(2) append_take_drop_id [of 16 "drop j data"] by (auto simp: add.commute)
  next
    case False
    then show ?thesis using assms(1) by (subst hex_rows.simps) simp
  qed
qed

text \<open>
  A hex dump of up to 64 KiB can be read back: decoding the cells of its rows gives the data.
\<close>

theorem hexdump_reads_back:
  assumes "data \<noteq> []" "length data \<le> 65536"
  shows "\<exists>head rows. log_hexdump txt data (int (length data)) st
           = Ret (st\<lparr>stderr := stderr st @ head @ concat rows\<rparr>)
         \<and> concat (map dump_row rows) = data"
proof -
  obtain rows where rows: "hex_rows data (int (length data)) 0 = Ret rows" "concat (map dump_row rows) = data"
    using hex_rows_dump [OF refl assms(2), of 0] by auto
  show ?thesis
    by (rule exI [of _ "bytes ''+-------| '' @ txt @ bytes '' len='' @ dec_int (int (length data))
                          @ bytes '' |-------'' @ [10]"], rule exI [of _ rows])
       (use rows assms(1) in \<open>simp add: log_hexdump_def\<close>)
qed

section \<open>The watchdog\<close>

text \<open>
  \<^verbatim>\<open>dog_isenabled\<close> tells what was last asked of the watchdog, not what it does: when the device
  refuses, \<^verbatim>\<open>dog_enable\<close> returns an error and the watchdog counts as enabled all the same.
\<close>

theorem dog_enabled_despite_error:
  assumes "wd_fd w \<noteq> -1" "r \<noteq> 0"
  shows "fst (dog_enable r w) = -1 \<and> dog_isenabled (snd (dog_enable r w))
       \<and> fst (dog_disable r w) = -1 \<and> \<not> dog_isenabled (snd (dog_disable r w))"
  using assms by (simp add: dog_enable_def dog_disable_def dog_isenabled_def dog_request_def)

section \<open>Witnesses\<close>

definition demo_log :: logst where
  "demo_log = \<lparr>loglevel = LG_WRN, log_to = 2, log_ansicolors = False, progname = [], syslog = [], stderr = [],
               logw = None\<rparr>"

theorem log_entry_writes_line_witness:
  "\<exists>b. syslog (snd (log_entry LG_ERR [109] [97, 10] demo_log)) = [b] \<and> 10 \<notin> set b \<and> length b \<le> 511"
proof -
  have s: "level_no LG_ERR \<le> level_no (loglevel demo_log) \<and> log_to demo_log AND LOG_TO_SYSLOG \<noteq> 0"
    "syslog demo_log = []"
    by (simp_all add: demo_log_def LOG_TO_SYSLOG_def)
  show ?thesis using log_entry_writes_line [of LG_ERR "[109]" "[97, 10]" demo_log] s by auto
qed

theorem hexdump_reads_back_witness:
  "\<exists>head rows. log_hexdump [107] (map word_of_nat [0..<40]) 40 demo_log
       = Ret (demo_log\<lparr>stderr := stderr demo_log @ head @ concat rows\<rparr>)
     \<and> concat (map dump_row rows) = map word_of_nat [0..<40]"
  using hexdump_reads_back [of "map word_of_nat [0..<40]" "[107]" demo_log] by simp

theorem dog_enabled_despite_error_witness:
  "fst (dog_enable 5 \<lparr>wd_fd = 3, wd_enabled = False, dog_calls = []\<rparr>) = -1
   \<and> dog_isenabled (snd (dog_enable 5 \<lparr>wd_fd = 3, wd_enabled = False, dog_calls = []\<rparr>))"
  using dog_enabled_despite_error [of "\<lparr>wd_fd = 3, wd_enabled = False, dog_calls = []\<rparr>" 5] by simp

end
