(* ===== verification/Nand_Ecc.thy ===== *)
theory Nand_Ecc
  imports Prelude
begin

text \<open>
  \<^verbatim>\<open>devtools/sharpflash/nand_ecc.c\<close>: the 3-byte error correcting code of a 512-byte NAND page
  that the S3C2410's flash controller computes in hardware, and its use by
  \<^verbatim>\<open>getpart.c\<close>.  The lemmas show that the code is linear, that a single flipped bit is
  located from the two codes, and that two flipped bits are always detected.
\<close>

type_synonym U8 = "8 word"
type_synonym U16 = "16 word"
type_synonym U32 = "32 word"

section \<open>The code\<close>

definition nand_ecc_precalc_table :: "U8 list" where
  "nand_ecc_precalc_table =
    [0x00, 0x55, 0x56, 0x03, 0x59, 0x0c, 0x0f, 0x5a, 0x5a, 0x0f, 0x0c, 0x59, 0x03, 0x56, 0x55, 0x00,
     0x65, 0x30, 0x33, 0x66, 0x3c, 0x69, 0x6a, 0x3f, 0x3f, 0x6a, 0x69, 0x3c, 0x66, 0x33, 0x30, 0x65,
     0x66, 0x33, 0x30, 0x65, 0x3f, 0x6a, 0x69, 0x3c, 0x3c, 0x69, 0x6a, 0x3f, 0x65, 0x30, 0x33, 0x66,
     0x03, 0x56, 0x55, 0x00, 0x5a, 0x0f, 0x0c, 0x59, 0x59, 0x0c, 0x0f, 0x5a, 0x00, 0x55, 0x56, 0x03,
     0x69, 0x3c, 0x3f, 0x6a, 0x30, 0x65, 0x66, 0x33, 0x33, 0x66, 0x65, 0x30, 0x6a, 0x3f, 0x3c, 0x69,
     0x0c, 0x59, 0x5a, 0x0f, 0x55, 0x00, 0x03, 0x56, 0x56, 0x03, 0x00, 0x55, 0x0f, 0x5a, 0x59, 0x0c,
     0x0f, 0x5a, 0x59, 0x0c, 0x56, 0x03, 0x00, 0x55, 0x55, 0x00, 0x03, 0x56, 0x0c, 0x59, 0x5a, 0x0f,
     0x6a, 0x3f, 0x3c, 0x69, 0x33, 0x66, 0x65, 0x30, 0x30, 0x65, 0x66, 0x33, 0x69, 0x3c, 0x3f, 0x6a,
     0x6a, 0x3f, 0x3c, 0x69, 0x33, 0x66, 0x65, 0x30, 0x30, 0x65, 0x66, 0x33, 0x69, 0x3c, 0x3f, 0x6a,
     0x0f, 0x5a, 0x59, 0x0c, 0x56, 0x03, 0x00, 0x55, 0x55, 0x00, 0x03, 0x56, 0x0c, 0x59, 0x5a, 0x0f,
     0x0c, 0x59, 0x5a, 0x0f, 0x55, 0x00, 0x03, 0x56, 0x56, 0x03, 0x00, 0x55, 0x0f, 0x5a, 0x59, 0x0c,
     0x69, 0x3c, 0x3f, 0x6a, 0x30, 0x65, 0x66, 0x33, 0x33, 0x66, 0x65, 0x30, 0x6a, 0x3f, 0x3c, 0x69,
     0x03, 0x56, 0x55, 0x00, 0x5a, 0x0f, 0x0c, 0x59, 0x59, 0x0c, 0x0f, 0x5a, 0x00, 0x55, 0x56, 0x03,
     0x66, 0x33, 0x30, 0x65, 0x3f, 0x6a, 0x69, 0x3c, 0x3c, 0x69, 0x6a, 0x3f, 0x65, 0x30, 0x33, 0x66,
     0x65, 0x30, 0x33, 0x66, 0x3c, 0x69, 0x6a, 0x3f, 0x3f, 0x6a, 0x69, 0x3c, 0x66, 0x33, 0x30, 0x65,
     0x00, 0x55, 0x56, 0x03, 0x59, 0x0c, 0x0f, 0x5a, 0x5a, 0x0f, 0x0c, 0x59, 0x03, 0x56, 0x55, 0x00]"

text \<open>One of the two loops that interleave four bits of \<open>reg3\<close> and \<open>reg2\<close>.\<close>

fun trans_loop :: "nat \<Rightarrow> U16 \<Rightarrow> U16 \<Rightarrow> U8 \<times> U8 \<times> U8 \<Rightarrow> U8 \<times> U8 \<times> U8" where
  "trans_loop 0 reg2 reg3 (a, b, t) = (a, b, t)"
| "trans_loop (Suc n) reg2 reg3 (a, b, t) =
     (let t = (if reg3 AND ucast a \<noteq> 0 then t OR b else t);
          b = drop_bit 1 b;
          t = (if reg2 AND ucast a \<noteq> 0 then t OR b else t);
          b = drop_bit 1 b;
          a = drop_bit 1 a
      in trans_loop n reg2 reg3 (a, b, t))"

definition nand_trans_result :: "U16 \<Rightarrow> U16 \<Rightarrow> U16 \<Rightarrow> U8 list" where
  "nand_trans_result reg1 reg2 reg3 =
     (let (a, b, tmp1) = trans_loop 4 reg2 reg3 (0x80, 0x80, 0);
          tmp1 = NOT tmp1;
          (a, b, tmp2) = trans_loop 4 reg2 reg3 (a, 0x80, 0);
          tmp2 = NOT tmp2;
          tmp3 = ucast (push_bit 2 (NOT reg1)) AND 0xFC;
          tmp3 = (if reg3 AND 0x100 = 0 then tmp3 OR 2 else tmp3);
          tmp3 = (if reg2 AND 0x100 = 0 then tmp3 OR 1 else tmp3)
      in [tmp2, tmp1, tmp3])"

text \<open>The body of the loop over the page, and the loop.\<close>

definition ecc_step :: "U16 \<times> U16 \<times> U16 \<Rightarrow> nat \<Rightarrow> U8 \<Rightarrow> U16 \<times> U16 \<times> U16" where
  "ecc_step r j d =
     (case r of (reg1, reg2, reg3) \<Rightarrow>
       (let idx = (ucast (nand_ecc_precalc_table ! unat d) :: U16);
            reg1 = reg1 XOR (idx AND 0x3f)
        in if idx AND 0x40 \<noteq> 0
           then (reg1, (reg2 XOR NOT (of_nat j)) AND 0x1FF, (reg3 XOR of_nat j) AND 0x1FF)
           else (reg1, reg2, reg3)))"

fun ecc_loop :: "nat \<Rightarrow> U8 list \<Rightarrow> U16 \<times> U16 \<times> U16 \<Rightarrow> U16 \<times> U16 \<times> U16" where
  "ecc_loop j [] r = r"
| "ecc_loop j (d # ds) r = ecc_loop (Suc j) ds (ecc_step r j d)"

declare trans_loop.simps [simp del]

text \<open>The function reads exactly 512 bytes and stores three.\<close>

definition nand_calculate_ecc :: "U8 list \<Rightarrow> U8 list res" where
  "nand_calculate_ecc dat =
     (if length dat < 512 then Fault
      else Ret (case ecc_loop 0 (take 512 dat) (0, 0, 0) of
                  (reg1, reg2, reg3) \<Rightarrow> nand_trans_result reg1 reg2 reg3))"

section \<open>Bits of the three code bytes\<close>

lemma and_pow2:
  "(w AND 0x100 = (0 :: U16)) = (\<not> bit w 8)" "(w AND 0x80 = (0 :: U16)) = (\<not> bit w 7)"
  "(w AND 0x40 = (0 :: U16)) = (\<not> bit w 6)" "(w AND 0x20 = (0 :: U16)) = (\<not> bit w 5)"
  "(w AND 0x10 = (0 :: U16)) = (\<not> bit w 4)" "(w AND 8 = (0 :: U16)) = (\<not> bit w 3)"
  "(w AND 4 = (0 :: U16)) = (\<not> bit w 2)" "(w AND 2 = (0 :: U16)) = (\<not> bit w 1)"
  "(w AND 1 = (0 :: U16)) = (\<not> bit w 0)"
  using and_exp_eq_0_iff_not_bit [of w 8] and_exp_eq_0_iff_not_bit [of w 7]
    and_exp_eq_0_iff_not_bit [of w 6] and_exp_eq_0_iff_not_bit [of w 5]
    and_exp_eq_0_iff_not_bit [of w 4] and_exp_eq_0_iff_not_bit [of w 3]
    and_exp_eq_0_iff_not_bit [of w 2] and_exp_eq_0_iff_not_bit [of w 1]
    and_exp_eq_0_iff_not_bit [of w 0]
  by simp_all

lemma trans_loop_step:
  "trans_loop (Suc n) reg2 reg3 (a, b, t) =
     trans_loop n reg2 reg3 (drop_bit 1 a, drop_bit 1 (drop_bit 1 b),
       (t OR (if reg3 AND ucast a \<noteq> 0 then b else 0)) OR (if reg2 AND ucast a \<noteq> 0 then drop_bit 1 b else 0))"
  by (simp add: trans_loop.simps Let_def)

lemma drop_bit_1_U8:
  "drop_bit 1 (0x80 :: U8) = 0x40" "drop_bit 1 (0x40 :: U8) = 0x20" "drop_bit 1 (0x20 :: U8) = 0x10"
  "drop_bit 1 (0x10 :: U8) = 8" "drop_bit 1 (8 :: U8) = 4" "drop_bit 1 (4 :: U8) = 2"
  "drop_bit 1 (2 :: U8) = 1" "drop_bit 1 (1 :: U8) = 0"
  by simp_all

lemma trans_loop_hi:
  "trans_loop (Suc (Suc (Suc (Suc 0)))) reg2 reg3 (0x80, 0x80, 0) =
     (0x08, 0,
      (if bit reg3 7 then 0x80 else 0) OR (if bit reg2 7 then 0x40 else 0)
   OR (if bit reg3 6 then 0x20 else 0) OR (if bit reg2 6 then 0x10 else 0)
   OR (if bit reg3 5 then 0x08 else 0) OR (if bit reg2 5 then 0x04 else 0)
   OR (if bit reg3 4 then 0x02 else 0) OR (if bit reg2 4 then 0x01 else 0))"
  by (simp only: trans_loop_step trans_loop.simps(1) drop_bit_1_U8)
     (simp add: and_pow2 or.assoc split del: if_split)

lemma trans_loop_lo:
  "trans_loop (Suc (Suc (Suc (Suc 0)))) reg2 reg3 (8, 0x80, 0) =
     (0, 0,
      (if bit reg3 3 then 0x80 else 0) OR (if bit reg2 3 then 0x40 else 0)
   OR (if bit reg3 2 then 0x20 else 0) OR (if bit reg2 2 then 0x10 else 0)
   OR (if bit reg3 1 then 0x08 else 0) OR (if bit reg2 1 then 0x04 else 0)
   OR (if bit reg3 0 then 0x02 else 0) OR (if bit reg2 0 then 0x01 else 0))"
  by (simp only: trans_loop_step trans_loop.simps(1) drop_bit_1_U8)
     (simp add: and_pow2 or.assoc split del: if_split)


lemma less_8_cases: "n < 8 \<Longrightarrow> n \<in> {0,1,2,3,4,5,6,7::nat}" by auto


lemma or_if: "(if c then t OR b else t) = t OR (if c then b else (0::U8))" by simp

definition ecc_byte3 :: "U16 \<Rightarrow> U16 \<Rightarrow> U16 \<Rightarrow> U8" where
 "ecc_byte3 reg1 reg2 reg3 = 
      ((ucast (push_bit 2 (NOT reg1)) AND 0xFC) OR (if \<not> bit reg3 8 then 2 else 0)) OR (if \<not> bit reg2 8 then 1 else 0)"

lemma four_Suc: "(4::nat) = Suc (Suc (Suc (Suc 0)))" by simp

lemma nand_trans_result_eq:
  "nand_trans_result reg1 reg2 reg3 =
    [NOT (snd (snd (trans_loop (Suc (Suc (Suc (Suc 0)))) reg2 reg3 (8, 0x80, 0)))),
     NOT (snd (snd (trans_loop (Suc (Suc (Suc (Suc 0)))) reg2 reg3 (0x80, 0x80, 0)))),
     ecc_byte3 reg1 reg2 reg3]"
  unfolding nand_trans_result_def four_Suc
  by (simp only: Let_def prod.case trans_loop_hi trans_loop_lo snd_conv or_if and_pow2 ecc_byte3_def)

lemma bit_if: "bit (if c then x else (0::'a::len word)) n = (c \<and> bit x n)" by simp

lemma nand_trans_bits_0:
  assumes "n < 8"
  shows "bit (nand_trans_result reg1 reg2 reg3 ! 0) n
         \<longleftrightarrow> \<not> bit (if odd n then reg3 else reg2) (n div 2)"
  using less_8_cases [OF assms] unfolding nand_trans_result_eq trans_loop_lo snd_conv nth_Cons_0
  by (elim insertE emptyE)
     (simp_all add: bit_not_iff bit_or_iff bit_and_iff bit_if split del: if_split)

lemma nand_trans_bits_1:
  assumes "n < 8"
  shows "bit (nand_trans_result reg1 reg2 reg3 ! 1) n
         \<longleftrightarrow> \<not> bit (if odd n then reg3 else reg2) (4 + n div 2)"
proof -
  have e: "nand_trans_result reg1 reg2 reg3 ! 1
      = NOT (snd (snd (trans_loop (Suc (Suc (Suc (Suc 0)))) reg2 reg3 (0x80, 0x80, 0))))"
    by (simp only: nand_trans_result_eq nth_Cons_0 nth_Cons_Suc One_nat_def)
  show ?thesis
    using less_8_cases [OF assms] unfolding e trans_loop_hi snd_conv
    by (elim insertE emptyE)
       (simp_all add: bit_not_iff bit_or_iff bit_and_iff bit_if split del: if_split)
qed

lemma nand_trans_bits_2:
  assumes "n < 8"
  shows "bit (nand_trans_result reg1 reg2 reg3 ! 2) n \<longleftrightarrow> 
      (if n = 0 then \<not> bit reg2 8 else if n = 1 then \<not> bit reg3 8 else \<not> bit reg1 (n - 2))"
proof -
  have e: "nand_trans_result reg1 reg2 reg3 ! 2 = ecc_byte3 reg1 reg2 reg3"
    by (simp only: nand_trans_result_eq numeral_2_eq_2 nth_Cons_Suc nth_Cons_0)
  show ?thesis
    using less_8_cases [OF assms] unfolding e ecc_byte3_def
    by (elim insertE emptyE) (simp_all add: bit_not_iff bit_or_iff bit_and_iff bit_unsigned_iff bit_push_bit_iff bit_if
       split del: if_split)
qed

section \<open>The parity table is linear\<close>

text \<open>
  The table is the closure under XOR of eight generators, one per bit of the byte; hence
  looking up the XOR of two bytes gives the XOR of the two entries.
\<close>

fun xor_closure :: "U8 list \<Rightarrow> U8 list" where
  "xor_closure [] = [0]"
| "xor_closure (k # ks) = xor_closure ks @ map (\<lambda>x. k XOR x) (xor_closure ks)"

fun xor_select :: "U8 list \<Rightarrow> nat \<Rightarrow> U8" where
  "xor_select [] n = 0"
| "xor_select (k # ks) n = (if bit n (length ks) then k else 0) XOR xor_select ks n"

definition column_gens :: "U8 list" where
  "column_gens = [0x6a, 0x69, 0x66, 0x65, 0x5a, 0x59, 0x56, 0x55]"

lemma table_closure: "nand_ecc_precalc_table = xor_closure column_gens"
  by code_simp

lemma length_xor_closure: "length (xor_closure ks) = 2 ^ length ks"
  by (induction ks) auto

lemma xor_select_take: "xor_select ks (take_bit (length ks) n) = xor_select ks n"
proof -
  have "length ks \<le> m \<Longrightarrow> xor_select ks (take_bit m n) = xor_select ks n" for m
    by (induction ks) (auto simp: bit_take_bit_iff)
  then show ?thesis by simp
qed

lemma xor_closure_nth: "n < 2 ^ length ks \<Longrightarrow> xor_closure ks ! n = xor_select ks n"
proof (induction ks arbitrary: n)
  case Nil
  then show ?case by simp
next
  case (Cons k ks)
  let ?p = "2 ^ length ks :: nat"
  show ?case
  proof (cases "n < ?p")
    case True
    then have "\<not> bit n (length ks)" by (simp add: bit_nat_def)
    with True Cons.IH show ?thesis by (simp add: nth_append length_xor_closure)
  next
    case False
    with Cons.prems have lt: "n - ?p < ?p" by simp
    have "n div ?p = 1"
      by (rule div_nat_eqI) (use False Cons.prems in auto)
    then have b: "bit n (length ks)"
      by (simp add: bit_nat_def)
    have "n - ?p = take_bit (length ks) n"
      using False Cons.prems
      by (simp add: take_bit_nat_def mod_if)
    then have "xor_select ks (n - ?p) = xor_select ks n"
      by (simp add: xor_select_take)
    with b False lt Cons.IH show ?thesis
      by (simp add: nth_append length_xor_closure)
  qed
qed

lemma xor_select_xor: "xor_select ks (a XOR b) = xor_select ks a XOR xor_select ks b"
proof (induction ks)
  case (Cons k ks)
  then show ?case
    by (cases "bit a (length ks)"; cases "bit b (length ks)")
       (simp_all add: bit_xor_iff xor.left_commute xor.assoc)
qed simp

lemma table_nth: "nand_ecc_precalc_table ! unat (d :: U8) = xor_select column_gens (unat d)"
proof -
  have "unat d < 2 ^ length column_gens"
    using unsigned_less [of d] by (simp add: column_gens_def)
  then show ?thesis by (simp add: table_closure xor_closure_nth)
qed

lemma table_xor:
  "nand_ecc_precalc_table ! unat (d XOR e :: U8)
   = nand_ecc_precalc_table ! unat d XOR nand_ecc_precalc_table ! unat e"
  unfolding table_nth by (simp only: unsigned_xor_eq xor_select_xor)

section \<open>The registers as an XOR over the page\<close>

type_synonym regs = "U16 \<times> U16 \<times> U16"

definition xor3 :: "regs \<Rightarrow> regs \<Rightarrow> regs" where
  "xor3 a b = (fst a XOR fst b, fst (snd a) XOR fst (snd b), snd (snd a) XOR snd (snd b))"

lemma xor3_ac:
  "xor3 (xor3 a b) c = xor3 a (xor3 b c)" "xor3 a b = xor3 b a"
  "xor3 a (xor3 b c) = xor3 b (xor3 a c)"
  by (simp_all add: xor3_def ac_simps)

lemma xor3_self [simp]: "xor3 a a = (0, 0, 0)" "xor3 a (xor3 a b) = b"
  by (simp_all add: xor3_def flip: xor.assoc)

lemma xor3_zero [simp]: "xor3 a (0, 0, 0) = a" "xor3 (0, 0, 0) a = a"
  by (simp_all add: xor3_def)

lemma xor_zero_iff: "a XOR b = 0 \<longleftrightarrow> a = (b :: 'a::len word)"
  by (metis xor.assoc xor.right_neutral xor.left_neutral xor_self_eq)

lemma xor3_zero_iff: "xor3 a b = (0, 0, 0) \<longleftrightarrow> a = b"
  by (cases a; cases b) (simp add: xor3_def xor_zero_iff)

text \<open>What one byte adds to the registers.\<close>

definition contrib :: "nat \<Rightarrow> U8 \<Rightarrow> regs" where
  "contrib j d =
     (let t = nand_ecc_precalc_table ! unat d
      in (ucast t AND 0x3f,
          if bit t 6 then NOT (of_nat j) AND 0x1FF else 0,
          if bit t 6 then of_nat j AND 0x1FF else 0))"

lemma contrib_xor: "contrib j (d XOR e) = xor3 (contrib j d) (contrib j e)"
  by (simp add: contrib_def xor3_def Let_def table_xor bit_xor_iff
      bit_eq_iff bit_and_iff bit_unsigned_iff) auto

fun page_regs :: "nat \<Rightarrow> U8 list \<Rightarrow> regs" where
  "page_regs j [] = (0, 0, 0)"
| "page_regs j (d # ds) = xor3 (contrib j d) (page_regs (Suc j) ds)"

lemma page_regs_flip:
  "i < length ds \<Longrightarrow>
   page_regs j (ds[i := ds ! i XOR e]) = xor3 (page_regs j ds) (contrib (j + i) e)"
proof (induction ds arbitrary: i j)
  case (Cons d ds)
  then show ?case by (cases i) (simp_all add: contrib_xor xor3_ac)
qed simp

text \<open>The loop of the code keeps the line registers masked to nine bits.\<close>

definition masked :: "regs \<Rightarrow> bool" where
  "masked r \<longleftrightarrow> fst r AND 0x3f = fst r \<and> fst (snd r) AND 0x1FF = fst (snd r)
                \<and> snd (snd r) AND 0x1FF = snd (snd r)"

lemma and_absorb: "(w AND m) AND m = w AND (m :: 'a::len word)"
  by (simp add: and.assoc)

lemma and_mask_xor:
  "a AND m = a \<Longrightarrow> b AND m = b \<Longrightarrow> (a XOR b) AND m = a XOR (b :: 'a::len word)"
  by (simp add: bit.conj_xor_distrib2)

lemma and_mask_xor_not:
  "b AND m = b \<Longrightarrow> NOT (b XOR n) AND m = b XOR (NOT n AND (m :: 'a::len word))"
  by (metis bit.conj_xor_distrib2 bit.xor_compl_right)

lemma masked_xor3: "masked a \<Longrightarrow> masked b \<Longrightarrow> masked (xor3 a b)"
  by (simp add: masked_def xor3_def and_mask_xor)

lemma masked_contrib: "masked (contrib j d)"
  by (simp add: masked_def contrib_def Let_def and_absorb)

lemma masked_page_regs: "masked (page_regs j ds)"
  by (induction j ds rule: page_regs.induct)
     (simp_all add: masked_xor3 masked_contrib, simp add: masked_def)

lemma and_0x40: "(ucast (t :: U8) AND 0x40 \<noteq> (0 :: U16)) = bit t 6"
  by (simp add: and_pow2 bit_unsigned_iff)

lemma ecc_step_contrib: "masked r \<Longrightarrow> ecc_step r j d = xor3 r (contrib j d)"
  by (cases r)
     (simp add: ecc_step_def contrib_def xor3_def masked_def Let_def and_0x40
       bit.conj_xor_distrib2 and_mask_xor_not)

lemma ecc_loop_page_regs: "masked r \<Longrightarrow> ecc_loop j ds r = xor3 r (page_regs j ds)"
  by (induction j ds r rule: ecc_loop.induct)
     (simp_all add: ecc_step_contrib masked_xor3 masked_contrib xor3_ac)

definition trans3 :: "regs \<Rightarrow> U8 list" where
  "trans3 r = (case r of (reg1, reg2, reg3) \<Rightarrow> nand_trans_result reg1 reg2 reg3)"

lemma nand_calculate_ecc_regs:
  "length dat = 512 \<Longrightarrow> nand_calculate_ecc dat = Ret (trans3 (page_regs 0 dat))"
  by (simp add: nand_calculate_ecc_def trans3_def ecc_loop_page_regs masked_def)

section \<open>Reading the registers back, and a reference decoder\<close>

text \<open>
  The decoder is the specification side: it is what the flash controller's user does with the
  stored and the recomputed code, and is not part of the sources.
\<close>

definition gather :: "(nat \<Rightarrow> bool) \<Rightarrow> nat \<Rightarrow> U16" where
  "gather f n = horner_sum of_bool 2 (map f [0..<n])"

lemma bit_gather: "bit (gather f n) m \<longleftrightarrow> m < 16 \<and> m < n \<and> f m"
  by (auto simp: gather_def bit_horner_sum_bit_word_iff)

definition ecc_unpack :: "U8 list \<Rightarrow> regs" where
  "ecc_unpack c =
     (let line = (\<lambda>odd m. if m < 4 then bit (c ! 0) (2 * m + odd)
                          else if m < 8 then bit (c ! 1) (2 * (m - 4) + odd)
                          else bit (c ! 2) odd)
      in (gather (\<lambda>m. \<not> bit (c ! 2) (m + 2)) 6,
          gather (\<lambda>m. \<not> line 0 m) 9,
          gather (\<lambda>m. \<not> line 1 m) 9))"

lemma mask_bits:
  "w AND 0x3f = (w :: U16) \<Longrightarrow> bit w m \<Longrightarrow> m < 6"
  "w AND 0x1FF = (w :: U16) \<Longrightarrow> bit w m \<Longrightarrow> m < 9"
proof -
  have m: "(0x3f :: U16) = mask 6" "(0x1FF :: U16) = mask 9"
    by (simp_all add: mask_eq_exp_minus_1)
  show "w AND 0x3f = w \<Longrightarrow> bit w m \<Longrightarrow> m < 6"
    unfolding m by (metis bit_and_iff bit_mask_iff)
  show "w AND 0x1FF = w \<Longrightarrow> bit w m \<Longrightarrow> m < 9"
    unfolding m by (metis bit_and_iff bit_mask_iff)
qed

lemma ecc_unpack_trans3:
  assumes "masked r"
  shows "ecc_unpack (trans3 r) = r"
proof -
  obtain a b c where r: "r = (a, b, c)" by (cases r) auto
  have ma: "\<And>m. bit a m \<Longrightarrow> m < 6" and mb: "\<And>m. bit b m \<Longrightarrow> m < 9"
    and mc: "\<And>m. bit c m \<Longrightarrow> m < 9"
    using assms unfolding masked_def r by (auto dest: mask_bits)
  have t: "trans3 r = nand_trans_result a b c" by (simp add: r trans3_def)
  have n2: "bit (trans3 r ! 2) (Suc (Suc m)) \<longleftrightarrow> \<not> bit a m" if "m < 6" for m
    using nand_trans_bits_2 [of "Suc (Suc m)"] that by (simp add: t)
  have line: "(if m < 4 then bit (trans3 r ! 0) (2 * m + (if q then 1 else 0))
       else if m < 8 then bit (trans3 r ! 1) (2 * (m - 4) + (if q then 1 else 0))
       else bit (trans3 r ! 2) (if q then 1 else 0)) \<longleftrightarrow> \<not> bit (if q then c else b) m"
    if lt: "m < 9" for m q
  proof -
    consider "m < 4" | "4 \<le> m" "m < 8" | "m = 8" using lt by linarith
    then show ?thesis
    proof cases
      case 1
      then show ?thesis using nand_trans_bits_0 [of "2 * m + (if q then 1 else 0)"] by (simp add: t)
    next
      case 2
      then have "2 * (m - 4) + (if q then 1 else 0) < 8" by (simp split: if_split) arith
      then show ?thesis
        using 2 nand_trans_bits_1 [of "2 * (m - 4) + (if q then 1 else 0)"] by (simp add: t)
    next
      case 3
      then show ?thesis using nand_trans_bits_2 [of "if q then 1 else 0"] by (simp add: t)
    qed
  qed
  have 1: "fst (ecc_unpack (trans3 r)) = a"
  proof (rule bit_word_eqI)
    show "bit (fst (ecc_unpack (trans3 r))) m = bit a m" for m
      using ma [of m] n2 [of m]
      by (cases "m < 6") (auto simp: ecc_unpack_def Let_def bit_gather)
  qed
  have 2: "fst (snd (ecc_unpack (trans3 r))) = b"
  proof (rule bit_word_eqI)
    show "bit (fst (snd (ecc_unpack (trans3 r)))) m = bit b m" for m
      using mb [of m] line [of m False]
      by (cases "m < 9") (auto simp: ecc_unpack_def Let_def bit_gather)
  qed
  have 3: "snd (snd (ecc_unpack (trans3 r))) = c"
  proof (rule bit_word_eqI)
    show "bit (snd (snd (ecc_unpack (trans3 r)))) m = bit c m" for m
      using mc [of m] line [of m True]
      by (cases "m < 9") (auto simp: ecc_unpack_def Let_def bit_gather)
  qed
  from 1 2 3 show ?thesis by (simp add: r prod_eq_iff)
qed

datatype ecc_verdict = Ecc_ok | Ecc_flip nat nat | Ecc_uncorrectable

text \<open>The column parity a flip of bit \<open>k\<close> of a byte toggles.\<close>

definition column_code :: "nat \<Rightarrow> U16" where
  "column_code k = ucast (nand_ecc_precalc_table ! (2 ^ k)) AND 0x3f"

definition ecc_decode :: "U8 list \<Rightarrow> U8 list \<Rightarrow> ecc_verdict" where
  "ecc_decode stored computed =
     (case xor3 (ecc_unpack stored) (ecc_unpack computed) of (d1, d2, d3) \<Rightarrow>
        if (d1, d2, d3) = (0, 0, 0) then Ecc_ok
        else if d2 XOR d3 = 0x1FF
        then (case find (\<lambda>k. d1 = column_code k) [0..<8] of
                Some k \<Rightarrow> Ecc_flip (unat d3) k | None \<Rightarrow> Ecc_uncorrectable)
        else Ecc_uncorrectable)"

definition flip_bit_at :: "nat \<Rightarrow> nat \<Rightarrow> U8 list \<Rightarrow> U8 list" where
  "flip_bit_at j k dat = dat[j := dat ! j XOR push_bit k 1]"

lemma length_flip_bit_at [simp]: "length (flip_bit_at j k dat) = length dat"
  by (simp add: flip_bit_at_def)

lemma column_codes:
  "map column_code [0..<8] = [0x15, 0x16, 0x19, 0x1a, 0x25, 0x26, 0x29, 0x2a]"
  by code_simp

lemma table_bit6: "list_all (\<lambda>k. bit (nand_ecc_precalc_table ! (2 ^ k)) 6) [0..<8]"
  by code_simp

lemma unat_pow2_U8: "k < 8 \<Longrightarrow> unat (2 ^ k :: U8) = 2 ^ k"
  by (auto dest!: less_8_cases)

lemma contrib_flip:
  assumes "k < 8"
  shows "contrib j (push_bit k 1) = (column_code k, NOT (of_nat j) AND 0x1FF, of_nat j AND 0x1FF)"
proof -
  have "bit (nand_ecc_precalc_table ! (2 ^ k)) 6"
    using table_bit6 assms by (simp add: list_all_iff)
  then show ?thesis
    by (simp add: contrib_def Let_def unat_pow2_U8 [OF assms] column_code_def)
qed

lemma column_code_inj: "k < 8 \<Longrightarrow> k' < 8 \<Longrightarrow> column_code k = column_code k' \<Longrightarrow> k = k'"
proof -
  have "distinct (map column_code [0..<8])" by (simp add: column_codes)
  then show "k < 8 \<Longrightarrow> k' < 8 \<Longrightarrow> column_code k = column_code k' \<Longrightarrow> k = k'"
    by (simp add: distinct_map inj_on_def)
qed

lemma find_column:
  assumes "k < 8"
  shows "find (\<lambda>i. column_code k = column_code i) [0..<8] = Some k"
proof -
  have "\<forall>i<8. (column_code k = column_code i) = (i = k)"
    using assms column_code_inj by blast
  then have "find (\<lambda>i. column_code k = column_code i) [0..<8] = find (\<lambda>i. i = k) [0..<8]"
    by (intro find_cong) auto
  also have "\<dots> = Some k"
    using less_8_cases [OF assms] by (auto simp: upt_rec)
  finally show ?thesis .
qed

lemma unat_low9: "j < 512 \<Longrightarrow> unat (of_nat j AND 0x1FF :: U16) = j"
proof -
  assume j: "j < 512"
  have "(of_nat j AND 0x1FF :: U16) = take_bit 9 (of_nat j)"
    by (simp add: take_bit_eq_mask mask_eq_exp_minus_1)
  then have "unat (of_nat j AND 0x1FF :: U16) = take_bit 9 (take_bit 16 j)"
    by (simp only: unsigned_take_bit_eq) (simp add: unsigned_of_nat)
  also have "\<dots> = j" using j by (simp add: take_bit_nat_eq_self)
  finally show ?thesis .
qed

lemma line_complement: "(NOT w AND 0x1FF) XOR (w AND 0x1FF) = (0x1FF :: U16)"
  by (rule bit_word_eqI) (auto simp: bit_xor_iff bit_and_iff bit_not_iff)

lemma page_regs_flip_bit:
  "j < length dat \<Longrightarrow>
   page_regs 0 (flip_bit_at j k dat) = xor3 (page_regs 0 dat) (contrib j (push_bit k 1))"
  using page_regs_flip [of j dat 0 "push_bit k 1"] by (simp add: flip_bit_at_def)

lemma ecc_decode_diff:
  assumes "masked r" "masked (d1, d2, d3)"
  shows "ecc_decode (trans3 r) (trans3 (xor3 r (d1, d2, d3))) =
     (if (d1, d2, d3) = (0, 0, 0) then Ecc_ok
      else if d2 XOR d3 = 0x1FF
      then (case find (\<lambda>k. d1 = column_code k) [0..<8] of
              Some k \<Rightarrow> Ecc_flip (unat d3) k | None \<Rightarrow> Ecc_uncorrectable)
      else Ecc_uncorrectable)"
  using assms by (simp add: ecc_decode_def ecc_unpack_trans3 masked_xor3)

lemma single_bit_located:
  assumes "length dat = 512" "j < 512" "k < 8"
  shows "\<exists>c c'. nand_calculate_ecc dat = Ret c
              \<and> nand_calculate_ecc (flip_bit_at j k dat) = Ret c'
              \<and> ecc_decode c c' = Ecc_flip j k"
proof -
  let ?r = "page_regs 0 dat" and ?d = "contrib j (push_bit k 1)"
  let ?j = "of_nat j :: U16"
  have d: "?d = (column_code k, NOT ?j AND 0x1FF, ?j AND 0x1FF)"
    using assms by (simp only: contrib_flip)
  have "NOT ?j AND 0x1FF \<noteq> 0 \<or> ?j AND 0x1FF \<noteq> 0"
    using line_complement [of ?j] by auto
  moreover have "masked (column_code k, NOT ?j AND 0x1FF, ?j AND 0x1FF)"
    using masked_contrib [of j "push_bit k 1"] by (simp only: d)
  ultimately have "ecc_decode (trans3 ?r) (trans3 (xor3 ?r ?d)) = Ecc_flip j k"
    unfolding d using assms
    by (subst ecc_decode_diff)
       (auto simp only: masked_page_regs line_complement find_column unat_low9 option.case prod.inject
          if_True if_False simp_thms)
  with assms show ?thesis
    by (simp add: page_regs_flip_bit nand_calculate_ecc_regs del: push_bit_of_1)
qed

section \<open>Properties\<close>

text \<open>
  C2. Single-bit correction.  For every 512-byte page, the code computed for the page and the
  code computed after any one bit of it was flipped together identify that bit: its byte
  position and its position in the byte.
\<close>

theorem ecc_single_bit_located:
  assumes "length dat = 512" "j < 512" "k < 8"
  shows "\<exists>c c'. nand_calculate_ecc dat = Ret c
              \<and> nand_calculate_ecc (flip_bit_at j k dat) = Ret c'
              \<and> ecc_decode c c' = Ecc_flip j k"
  by (rule single_bit_located [OF assms])

text \<open>
  C22. Double-bit detection.  Two different flipped bits are never mistaken for a clean page or
  for a single flipped bit.
\<close>

theorem ecc_double_bit_detected:
  assumes "length dat = 512" "j < 512" "k < 8" "j' < 512" "k' < 8" "(j, k) \<noteq> (j', k')"
  shows "\<exists>c c'. nand_calculate_ecc dat = Ret c
              \<and> nand_calculate_ecc (flip_bit_at j' k' (flip_bit_at j k dat)) = Ret c'
              \<and> ecc_decode c c' = Ecc_uncorrectable"
proof -
  let ?r = "page_regs 0 dat" and ?d = "contrib j (push_bit k 1)" and ?e = "contrib j' (push_bit k' 1)"
  have c': "nand_calculate_ecc (flip_bit_at j' k' (flip_bit_at j k dat))
      = Ret (trans3 (xor3 ?r (xor3 ?d ?e)))"
    using assms
    by (simp add: nand_calculate_ecc_regs page_regs_flip_bit xor3_ac(1) del: push_bit_of_1)
  have ne: "xor3 ?d ?e \<noteq> (0, 0, 0)"
  proof
    assume "xor3 ?d ?e = (0, 0, 0)"
    then have "column_code k = column_code k'"
      and "(of_nat j AND 0x1FF :: U16) = of_nat j' AND 0x1FF"
      using assms by (auto simp: xor3_zero_iff contrib_flip simp del: push_bit_of_1)
    then show False
      using assms column_code_inj unat_low9 by metis
  qed
  have "fst (snd (xor3 ?d ?e)) XOR snd (snd (xor3 ?d ?e)) \<noteq> 0x1FF"
  proof -
    have "fst (snd (xor3 ?d ?e)) XOR snd (snd (xor3 ?d ?e))
        = ((NOT (of_nat j) AND 0x1FF) XOR (of_nat j AND 0x1FF))
          XOR ((NOT (of_nat j') AND 0x1FF) XOR (of_nat j' AND (0x1FF :: U16)))"
      using assms by (simp add: xor3_def contrib_flip ac_simps del: push_bit_of_1)
    then show ?thesis by (simp only: line_complement) simp
  qed
  moreover have "masked (xor3 ?d ?e)" by (simp add: masked_xor3 masked_contrib)
  ultimately have "ecc_decode (trans3 ?r) (trans3 (xor3 ?r (xor3 ?d ?e))) = Ecc_uncorrectable"
    using ne by (cases "xor3 ?d ?e") (simp add: ecc_decode_diff masked_page_regs)
  with assms c' show ?thesis
    by (simp add: nand_calculate_ecc_regs)
qed

theorem ecc_single_bit_located_witness:
  "\<exists>c c'. nand_calculate_ecc (replicate 512 0xff) = Ret c
        \<and> nand_calculate_ecc (flip_bit_at 300 5 (replicate 512 0xff)) = Ret c'
        \<and> ecc_decode c c' = Ecc_flip 300 5"
  by (rule ecc_single_bit_located) simp_all

theorem ecc_double_bit_detected_witness:
  "\<exists>c c'. nand_calculate_ecc (replicate 512 0xff) = Ret c
        \<and> nand_calculate_ecc (flip_bit_at 300 6 (flip_bit_at 300 5 (replicate 512 0xff))) = Ret c'
        \<and> ecc_decode c c' = Ecc_uncorrectable"
  by (rule ecc_double_bit_detected) simp_all

end
