(* ===== verification/Flash_Image.thy ===== *)
theory Flash_Image
  imports Nand_Ecc
begin

text \<open>
  The two programs that make files of flash images: \<^verbatim>\<open>getpart\<close>, which cuts a partition out of an
  image and adds the code bytes the flash controller would store with each page, and
  \<^verbatim>\<open>nanddump\<close>, which reads a partition of the radio's flash with its out-of-band bytes.
\<close>

section \<open>getpart\<close>

text \<open>
  The loop over the pages: \<open>rest\<close> is the image from the position of the file on.  A page that
  is not complete, or behind the end of the file, keeps the bytes \<open>memset\<close> put there.
\<close>

fun getpart_loop :: "nat \<Rightarrow> U8 list \<Rightarrow> U8 list res" where
  "getpart_loop 0 rest = Ret []"
| "getpart_loop (Suc n) rest =
     (let buf = take 512 rest @ replicate (512 - length rest) 0xFF
      in res_bind (nand_calculate_ecc buf) (\<lambda>code.
         let crc = code @ replicate 13 0xFF
         in res_map ((@) (buf @ crc)) (getpart_loop n (drop 512 rest))))"

text \<open>
  \<open>source\<close> and \<open>dest_ok\<close> tell whether the files can be opened, \<open>start\<close> and \<open>len\<close> are what \<open>sscanf\<close>
  reads from the arguments.  The result is what the destination is given, \<open>None\<close> when the program
  ends with a message before.  A negative start is refused by \<open>lseek\<close>, and the file then read
  from its beginning.
\<close>

definition getpart :: "int \<Rightarrow> U8 list option \<Rightarrow> int \<Rightarrow> int \<Rightarrow> bool \<Rightarrow> U8 list option res" where
  "getpart argc source start len dest_ok =
     (if argc \<noteq> 5 then Ret None
      else case source of
             None \<Rightarrow> Ret None
           | Some img \<Rightarrow>
               if start mod 0x4000 \<noteq> 0 then Ret None
               else if len mod 0x4000 \<noteq> 0 then Ret None
               else if \<not> dest_ok then Ret None
               else res_map Some
                      (getpart_loop (nat (len div 512)) (if start < 0 then img else drop (nat start) img)))"

section \<open>nanddump\<close>

text \<open>
  The flash device: its size and page sizes, and for each offset the page \<open>pread\<close> reads (\<open>None\<close>
  when it does not read a whole one) and the sixteen bytes of the out-of-band buffer after the
  request that reads them (\<open>None\<close> when it fails).
\<close>

record mtd =
  mtd_size :: U32
  oobblock :: nat
  oobsize :: nat
  mtd_pread :: "U32 \<Rightarrow> U8 list option"
  mtd_oob :: "U32 \<Rightarrow> U8 list option"

text \<open>\<open>%02x\<close> and \<open>%08x\<close>.\<close>

definition hex_lower :: "nat \<Rightarrow> U8" where
  "hex_lower n = of_nat (if n < 10 then 48 + n else 87 + n)"

definition hex2_lower :: "U8 \<Rightarrow> U8 list" where
  "hex2_lower b = [hex_lower (unat b div 16), hex_lower (unat b mod 16)]"

definition hex8_lower :: "U32 \<Rightarrow> U8 list" where
  "hex8_lower w = map (\<lambda>i. hex_lower (unat (drop_bit (4 * i) w AND 15))) [7, 6, 5, 4, 3, 2, 1, 0]"

definition hex_list :: "U8 list \<Rightarrow> U8 list" where
  "hex_list cs = butlast (concat (map (\<lambda>c. hex2_lower c @ [32]) cs))"

definition row_text :: "U32 \<Rightarrow> U8 list \<Rightarrow> U8 list" where
  "row_text ofs cs = bytes ''0x'' @ hex8_lower ofs @ bytes '': '' @ hex_list cs @ [10]"

definition oob_text :: "U8 list \<Rightarrow> U8 list" where
  "oob_text cs = bytes ''  OOB Data: '' @ hex_list cs @ [10]"

text \<open>\<open>sprintf\<close> into \<open>pretty_buf\<close>: the text and its NUL, the rest stays.\<close>

definition sprintf :: "U8 list \<Rightarrow> U8 list \<Rightarrow> U8 list res" where
  "sprintf pbuf s = (if length s < length pbuf then Ret (s @ 0 # drop (Suc (length s)) pbuf) else Fault)"

text \<open>\<open>n\<close> more rows of a page from byte \<open>i\<close> on; the output and the buffer.\<close>

fun pretty_rows :: "nat \<Rightarrow> nat \<Rightarrow> U8 list \<Rightarrow> U32 \<Rightarrow> U8 list \<Rightarrow> U8 list \<Rightarrow> (U8 list \<times> U8 list) res" where
  "pretty_rows 0 i page ofs pbuf out = Ret (pbuf, out)"
| "pretty_rows (Suc n) i page ofs pbuf out =
     res_bind (sprintf pbuf (row_text (ofs + of_nat i) (take 16 (drop i page)))) (\<lambda>pbuf.
     pretty_rows n (i + 16) page ofs pbuf (out @ take 60 pbuf))"

definition dump_page :: "mtd \<Rightarrow> bool \<Rightarrow> U32 \<Rightarrow> U8 list \<Rightarrow> U8 list \<Rightarrow> U8 list \<Rightarrow> (U8 list \<times> U8 list) res" where
  "dump_page m pretty ofs page pbuf out =
     (if pretty then pretty_rows (oobblock m div 16) 0 page ofs pbuf out
      else Ret (pbuf, out @ page))"

definition dump_oob :: "mtd \<Rightarrow> bool \<Rightarrow> U8 list \<Rightarrow> U8 list \<Rightarrow> U8 list \<Rightarrow> (U8 list \<times> U8 list) res" where
  "dump_oob m pretty oob pbuf out =
     (if pretty
      then res_bind (sprintf pbuf (oob_text (take (oobsize m) oob))) (\<lambda>pbuf.
           Ret (pbuf, out @ take (if oobsize m = 16 then 60 else 48) pbuf))
      else Ret (pbuf, out @ take (oobsize m) oob))"

text \<open>The loop over the pages, with fuel; the exit status and the output.\<close>

fun dump_loop :: "nat \<Rightarrow> mtd \<Rightarrow> bool \<Rightarrow> U32 \<Rightarrow> U32 \<Rightarrow> U8 list \<Rightarrow> U8 list \<Rightarrow> (int \<times> U8 list) res" where
  "dump_loop 0 m pretty ofs end_addr pbuf out = Diverge"
| "dump_loop (Suc n) m pretty ofs end_addr pbuf out =
     (if \<not> ofs < end_addr then Ret (0, out)
      else case mtd_pread m ofs of
             None \<Rightarrow> Ret (1, out)
           | Some page \<Rightarrow>
               res_bind (dump_page m pretty ofs page pbuf out) (\<lambda>(pbuf, out).
               case mtd_oob m ofs of
                 None \<Rightarrow> Ret (1, out)
               | Some oob \<Rightarrow>
                   res_bind (dump_oob m pretty oob pbuf out) (\<lambda>(pbuf, out).
                   dump_loop n m pretty (ofs + of_nat (oobblock m)) end_addr pbuf out)))"

text \<open>
  The program on the radio, whose \<open>long\<close> has 32 bits.  \<open>dev\<close> is the device, if it can be opened
  and queried, \<open>out_ok\<close> whether the output can; \<open>a3\<close> and \<open>a4\<close> are what \<open>strtoul\<close> reads from the
  third and fourth argument, and \<open>pbuf\<close> what the uninitialised buffer of 80 bytes holds.
\<close>

definition nanddump ::
  "nat \<Rightarrow> int \<Rightarrow> mtd option \<Rightarrow> bool \<Rightarrow> U32 \<Rightarrow> U32 \<Rightarrow> bool \<Rightarrow> U8 list \<Rightarrow> (int \<times> U8 list) res" where
  "nanddump fuel argc dev out_ok a3 a4 pretty pbuf =
     (if argc < 3 then Ret (1, [])
      else case dev of
             None \<Rightarrow> Ret (1, [])
           | Some m \<Rightarrow>
               if \<not> (oobsize m = 16 \<and> oobblock m = 512) \<and> \<not> (oobsize m = 8 \<and> oobblock m = 256)
               then Ret (1, [])
               else if \<not> out_ok then Ret (1, [])
               else
                 let mask = NOT (of_nat (oobblock m) - 1);
                     start = (if argc = 4 \<or> argc = 5 then a3 AND mask else 0);
                     end_addr = (if argc = 5 then (a3 + a4) AND mask else mtd_size m)
                 in dump_loop fuel m pretty start end_addr pbuf [])"

section \<open>The pages of a partition\<close>

text \<open>Page \<open>k\<close> of what an image holds from some position on, padded with erased bytes.\<close>

definition image_page :: "U8 list \<Rightarrow> nat \<Rightarrow> U8 list" where
  "image_page rest k = take 512 (drop (512 * k) rest @ replicate 512 0xFF)"

text \<open>Page \<open>k\<close> of a file of pages with their out-of-band bytes, and those bytes.\<close>

definition dumped_page :: "U8 list \<Rightarrow> nat \<Rightarrow> U8 list" where
  "dumped_page out k = take 512 (drop (528 * k) out)"

definition dumped_oob :: "U8 list \<Rightarrow> nat \<Rightarrow> U8 list" where
  "dumped_oob out k = take 16 (drop (528 * k + 512) out)"

lemma length_image_page [simp]: "length (image_page rest k) = 512"
  by (simp add: image_page_def)

lemma image_page_0: "take 512 rest @ replicate (512 - length rest) 0xFF = image_page rest 0"
  by (cases "512 \<le> length rest") (simp_all add: image_page_def)

lemma image_page_Suc: "image_page (drop 512 rest) k = image_page rest (Suc k)"
  by (simp add: image_page_def add.commute)

lemma drop_add_length: "drop (length xs + n) (xs @ ys) = drop n ys"
  by simp

lemma nand_calculate_ecc_512:
  assumes "length p = 512" obtains c where "nand_calculate_ecc p = Ret c" "length c = 3"
  using assms by (auto simp: nand_calculate_ecc_def nand_trans_result_def Let_def split: prod.splits)

lemma getpart_loop_Suc:
  assumes "nand_calculate_ecc (image_page rest 0) = Ret c"
  shows "getpart_loop (Suc n) rest
    = res_map ((@) (image_page rest 0 @ c @ replicate 13 0xFF)) (getpart_loop n (drop 512 rest))"
  using assms unfolding getpart_loop.simps image_page_0 Let_def by simp

lemma getpart_loop_pages:
  "\<exists>out. getpart_loop n rest = Ret out \<and> length out = 528 * n
    \<and> (\<forall>k<n. dumped_page out k = image_page rest k
         \<and> (\<exists>c. nand_calculate_ecc (image_page rest k) = Ret c
               \<and> dumped_oob out k = c @ replicate 13 0xFF))"
proof (induction n arbitrary: rest)
  case 0
  then show ?case by simp
next
  case (Suc n)
  obtain c where c: "nand_calculate_ecc (image_page rest 0) = Ret c" "length c = 3"
    by (rule nand_calculate_ecc_512 [of "image_page rest 0"]) simp_all
  obtain out where out: "getpart_loop n (drop 512 rest) = Ret out" "length out = 528 * n"
      "\<forall>k<n. dumped_page out k = image_page (drop 512 rest) k
         \<and> (\<exists>c. nand_calculate_ecc (image_page (drop 512 rest) k) = Ret c
               \<and> dumped_oob out k = c @ replicate 13 0xFF)"
    using Suc.IH [of "drop 512 rest"] by blast
  let ?o = "(image_page rest 0 @ c @ replicate 13 0xFF) @ out"
  have l: "length (image_page rest 0 @ c @ replicate 13 0xFF) = 528" using c(2) by simp
  have z: "dumped_page ?o 0 = image_page rest 0" "dumped_oob ?o 0 = c @ replicate 13 0xFF"
    using c(2) by (simp_all add: dumped_page_def dumped_oob_def)
  have d: "drop (528 * Suc k + i) ?o = drop (528 * k + i) out" for k i
  proof -
    have "528 * Suc k + i = length (image_page rest 0 @ c @ replicate 13 0xFF) + (528 * k + i)" unfolding l by simp
    then show ?thesis by (simp only: drop_add_length)
  qed
  have s: "dumped_page ?o (Suc k) = dumped_page out k" "dumped_oob ?o (Suc k) = dumped_oob out k" for k
    by (simp_all only: dumped_page_def dumped_oob_def d d [of k 0, unfolded add_0_right])
  have "\<forall>k<Suc n. dumped_page ?o k = image_page rest k
         \<and> (\<exists>c. nand_calculate_ecc (image_page rest k) = Ret c \<and> dumped_oob ?o k = c @ replicate 13 0xFF)"
  proof (intro allI impI)
    fix k assume "k < Suc n"
    then consider "k = 0" | k' where "k = Suc k'" "k' < n" by (cases k) auto
    then show "dumped_page ?o k = image_page rest k
         \<and> (\<exists>c. nand_calculate_ecc (image_page rest k) = Ret c \<and> dumped_oob ?o k = c @ replicate 13 0xFF)"
    proof cases
      case 1
      then show ?thesis using z c(1) by (simp only:) blast
    next
      case 2
      then show ?thesis unfolding 2(1) s image_page_Suc [symmetric] using out(3) by blast
    qed
  qed
  moreover have "getpart_loop (Suc n) rest = Ret ?o" unfolding getpart_loop_Suc [OF c(1)] out(1) by simp
  ultimately show ?case using l out(2) by (intro exI [of _ ?o]) simp
qed

text \<open>C39.
  For an aligned partition, getpart writes 528 bytes for each of its pages: the page as it is in
  the image, erased bytes behind its end, and sixteen bytes from which any single bit of the page
  that flips later is located by comparing their code with that of the page read back.
\<close>

theorem getpart_pages_correctable:
  assumes "0 \<le> start" "start mod 0x4000 = 0" "0 \<le> len" "len mod 0x4000 = 0"
  shows "\<exists>out. getpart 5 (Some img) start len True = Ret (Some out)
    \<and> length out = 528 * nat (len div 512)
    \<and> (\<forall>k<nat (len div 512). dumped_page out k = image_page (drop (nat start) img) k
         \<and> (\<forall>j<512. \<forall>b<8. \<exists>c'. nand_calculate_ecc (flip_bit_at j b (dumped_page out k)) = Ret c'
               \<and> ecc_decode (take 3 (dumped_oob out k)) c' = Ecc_flip j b))"
proof -
  let ?rest = "drop (nat start) img" and ?n = "nat (len div 512)"
  obtain out where out: "getpart_loop ?n ?rest = Ret out" "length out = 528 * ?n"
      "\<forall>k<?n. dumped_page out k = image_page ?rest k
         \<and> (\<exists>c. nand_calculate_ecc (image_page ?rest k) = Ret c \<and> dumped_oob out k = c @ replicate 13 0xFF)"
    using getpart_loop_pages [of ?n ?rest] by blast
  have "\<exists>c'. nand_calculate_ecc (flip_bit_at j b (dumped_page out k)) = Ret c'
       \<and> ecc_decode (take 3 (dumped_oob out k)) c' = Ecc_flip j b" if k: "k < ?n" "j < 512" "b < 8" for k j b
  proof -
    obtain c where c: "nand_calculate_ecc (dumped_page out k) = Ret c" "dumped_oob out k = c @ replicate 13 0xFF"
      using out(3) k(1) by metis
    have p: "length (dumped_page out k) = 512" using out(3) k(1) by simp
    have "length c = 3" using nand_calculate_ecc_512 [OF p] c(1) by auto
    then show ?thesis using single_bit_located [OF p k(2,3)] c by auto
  qed
  then show ?thesis using assms out by (auto simp: getpart_def)
qed

section \<open>The dump of a flash device\<close>

lemma dump_loop_raw:
  assumes "unat ofs + n * oobblock m = unat end_addr" "0 < oobblock m"
    and "\<forall>k<n. mtd_pread m (ofs + of_nat (k * oobblock m)) = Some (pg k)
              \<and> mtd_oob m (ofs + of_nat (k * oobblock m)) = Some (ob k)"
    and "n < fuel"
  shows "dump_loop fuel m False ofs end_addr pbuf out
    = Ret (0, out @ concat (map (\<lambda>k. pg k @ take (oobsize m) (ob k)) [0..<n]))"
  using assms
proof (induction n arbitrary: ofs out fuel pg ob)
  case 0
  then obtain f where "fuel = Suc f" by (cases fuel) auto
  moreover have "\<not> ofs < end_addr" using 0(1) by (simp add: word_less_nat_alt)
  ultimately show ?case by simp
next
  case (Suc n)
  obtain f where f: "fuel = Suc f" "n < f" using Suc.prems(4) by (cases fuel) auto
  have lt: "ofs < end_addr" using Suc.prems(1,2) by (simp add: word_less_nat_alt)
  have r: "mtd_pread m ofs = Some (pg 0)" "mtd_oob m ofs = Some (ob 0)"
    using Suc.prems(3) [rule_format, of 0] by simp_all
  let ?o = "ofs + of_nat (oobblock m)"
  have ue: "unat end_addr < 2 ^ 32" using unsigned_less [where w = end_addr] by simp
  have b: "unat ofs + oobblock m < 2 ^ 32"
    using Suc.prems(1) ue by simp
  have u: "unat ?o = unat ofs + oobblock m"
  proof -
    have "unat (of_nat (oobblock m) :: U32) = oobblock m" using b by (simp add: unat_of_nat take_bit_nat_eq_self)
    then show ?thesis using b by (simp add: unat_word_ariths)
  qed
  have "\<forall>k<n. mtd_pread m (?o + of_nat (k * oobblock m)) = Some (pg (Suc k))
            \<and> mtd_oob m (?o + of_nat (k * oobblock m)) = Some (ob (Suc k))"
  proof (intro allI impI)
    fix k assume "k < n"
    then have "Suc k < Suc n" by simp
    from Suc.prems(3) [rule_format, OF this]
    show "mtd_pread m (?o + of_nat (k * oobblock m)) = Some (pg (Suc k))
        \<and> mtd_oob m (?o + of_nat (k * oobblock m)) = Some (ob (Suc k))" by (simp add: add.assoc)
  qed
  moreover have "unat ?o + n * oobblock m = unat end_addr" using Suc.prems(1) u by simp
  ultimately have "dump_loop f m False ?o end_addr pbuf (out @ pg 0 @ take (oobsize m) (ob 0))
      = Ret (0, (out @ pg 0 @ take (oobsize m) (ob 0))
           @ concat (map (\<lambda>k. pg (Suc k) @ take (oobsize m) (ob (Suc k))) [0..<n]))"
    using Suc.IH [of ?o "\<lambda>k. pg (Suc k)" "\<lambda>k. ob (Suc k)" f] Suc.prems(2) f(2) by blast
  moreover have "concat (map (\<lambda>k. pg k @ take (oobsize m) (ob k)) [0..<Suc n])
      = pg 0 @ take (oobsize m) (ob 0)
        @ concat (map (\<lambda>k. pg (Suc k) @ take (oobsize m) (ob (Suc k))) [0..<n])"
    by (subst upt_conv_Cons) (simp_all add: map_Suc_upt [symmetric] comp_def del: map_Suc_upt upt_Suc)
  ultimately show ?case using f(1) lt r by (simp add: dump_page_def dump_oob_def)
qed

text \<open>
  On a device of 512-byte pages of which every page and its out-of-band bytes can be read, the
  unformatted dump ends after one round for each page, and is the pages in order, each followed by
  its sixteen out-of-band bytes.
\<close>

theorem nanddump_raw_pages:
  assumes "oobblock m = 512" "oobsize m = 16" "unat (mtd_size m) = n * 512"
    and "\<forall>k<n. mtd_pread m (of_nat (k * 512)) = Some (pg k) \<and> mtd_oob m (of_nat (k * 512)) = Some (ob k)"
    and "n < fuel"
  shows "nanddump fuel 3 (Some m) True a3 a4 False pbuf
    = Ret (0, concat (map (\<lambda>k. pg k @ take 16 (ob k)) [0..<n]))"
  using dump_loop_raw [of 0 n m "mtd_size m" pg ob fuel pbuf "[]"] assms by (simp add: nanddump_def Let_def)

text \<open>
  The formatted dump of a device of 256-byte pages is not a text: behind the out-of-band bytes of
  each page it has the NUL that ends them, and stale bytes of the line before.
\<close>

theorem nanddump_pretty_has_nul:
  assumes "oobblock m = 256" "oobsize m = 8" "mtd_size m = 256"
    and "mtd_pread m 0 = Some pg" "mtd_oob m 0 = Some ob" "length pg = 256" "length ob = 16"
    and "length pbuf = 80" "1 < fuel"
  shows "\<exists>out. nanddump fuel 3 (Some m) True a3 a4 True pbuf = Ret (0, out) \<and> 0 \<in> set out"
proof -
  have len: "length (hex_list cs) = 3 * length cs - 1" for cs
    by (induction cs) (simp_all add: hex_list_def hex2_lower_def length_butlast length_concat comp_def)
  have row: "\<exists>q out'. pretty_rows k i pg 0 p out = Ret (q, out') \<and> length q = 80"
    if "length p = 80" "i + 16 * k \<le> 256" for k i p out
    using that
  proof (induction k arbitrary: i p out)
    case (Suc k)
    have "length (row_text (of_nat i) (take 16 (drop i pg))) = 60"
      using Suc.prems(2) assms(6) by (simp add: row_text_def len bytes_def hex8_lower_def)
    then show ?case using Suc.IH Suc.prems by (simp add: sprintf_def)
  qed simp
  obtain q out1 where q: "pretty_rows 16 0 pg 0 pbuf [] = Ret (q, out1)" "length q = 80"
    using row [of pbuf 0 16 "[]"] assms(8) by auto
  have ot: "length (oob_text (take 8 ob)) = 36"
    using assms(7) by (simp add: oob_text_def len bytes_def)
  obtain f where f: "fuel = Suc (Suc f)" using assms(9) by (cases fuel; cases "fuel - 1") auto
  have "nanddump fuel 3 (Some m) True a3 a4 True pbuf
      = Ret (0, out1 @ take 48 (oob_text (take 8 ob) @ 0 # drop (Suc 36) q))"
    using assms(1-5) q ot f
    by (simp add: nanddump_def Let_def dump_page_def dump_oob_def sprintf_def)
  moreover have "0 \<in> set (out1 @ take 48 (oob_text (take 8 ob) @ 0 # drop (Suc 36) q))"
    using ot by simp
  ultimately show ?thesis by blast
qed

section \<open>Witnesses\<close>

theorem getpart_pages_correctable_witness:
  "\<exists>out. getpart 5 (Some [1, 2, 3]) 0 16384 True = Ret (Some out) \<and> length out = 528 * 32
    \<and> dumped_page out 0 = [1, 2, 3] @ replicate 509 0xFF
    \<and> (\<exists>c'. nand_calculate_ecc (flip_bit_at 2 7 (dumped_page out 0)) = Ret c'
          \<and> ecc_decode (take 3 (dumped_oob out 0)) c' = Ecc_flip 2 7)"
proof -
  have p: "image_page (drop (nat 0) [1, 2, 3]) 0 = [1, 2, 3] @ replicate 509 0xFF"
    by (simp add: image_page_def)
  show ?thesis using getpart_pages_correctable [where start = 0 and len = 16384 and img = "[1, 2, 3]"]
    unfolding p [symmetric] by fastforce
qed

definition demo_mtd :: "nat \<Rightarrow> nat \<Rightarrow> U32 \<Rightarrow> mtd" where
  "demo_mtd bs os sz = \<lparr>mtd_size = sz, oobblock = bs, oobsize = os,
     mtd_pread = (\<lambda>ofs. Some (replicate bs (ucast (drop_bit 8 ofs)))), mtd_oob = (\<lambda>ofs. Some (replicate 16 0xFF))\<rparr>"

theorem nanddump_raw_pages_witness:
  "nanddump 3 3 (Some (demo_mtd 512 16 1024)) True 0 0 False []
    = Ret (0, replicate 512 0 @ replicate 16 0xFF @ replicate 512 2 @ replicate 16 0xFF)"
  using nanddump_raw_pages [where m = "demo_mtd 512 16 1024" and n = 2 and fuel = 3
      and pg = "\<lambda>k. replicate 512 (ucast (drop_bit 8 (of_nat (k * 512) :: U32)))"
      and ob = "\<lambda>k. replicate 16 0xFF" and pbuf = "[]" and ?a3.0 = 0 and ?a4.0 = 0]
  by (simp add: demo_mtd_def upt_rec)

theorem nanddump_pretty_has_nul_witness:
  "\<exists>out. nanddump 2 3 (Some (demo_mtd 256 8 256)) True 0 0 True (replicate 80 1) = Ret (0, out) \<and> 0 \<in> set out"
  using nanddump_pretty_has_nul [where m = "demo_mtd 256 8 256" and pbuf = "replicate 80 1" and fuel = 2] by (simp add: demo_mtd_def)

end
