(* ===== verification/Ftpd.thy ===== *)
theory Ftpd
  imports Prelude
begin

text \<open>
  The FTP server of the radio, \<^verbatim>\<open>ftpd.c\<close>: the parsing of command lines, login, the commands and the
  loop of a session.  The operating system is a parameter that answers each call from the calls made
  before it; the state keeps the list of calls, the last first.
\<close>

section \<open>The operating system\<close>

datatype ftp_call =
    Reply "byte list" | Send int "byte list"
  | Socket | Bind int int | Listen int int | Accept int | Close int
  | Chroot "byte list" | Setuid nat | Chdir "byte list" | Getcwd
  | Stat "byte list" | Opendir "byte list"
  | Open_read "byte list" | Open_write "byte list" | Write_file int "byte list"
  | Mkdir "byte list" | Rmdir "byte list" | Unlink "byte list" | Rename "byte list" "byte list"

datatype file_kind = Reg | Dir | Other

record stat =
  st_kind :: file_kind
  st_nlink :: int
  st_uid :: int
  st_gid :: int
  st_size :: int
  st_mtime :: int

text \<open>
  \<open>os_ret\<close> is the return value of a call.  \<open>os_stat\<close> and \<open>os_dir\<close> are \<open>None\<close> where \<open>stat\<close> or
  \<open>opendir\<close> fails; \<open>os_recv\<close> and \<open>os_file\<close> are what the successive reads of a data connection or a
  file return, and whether the last one is an error.  \<open>os_passwd\<close> is the encrypted password and
  the number of a user, and \<open>os_crypt\<close> the encryption, \<open>None\<close> where it returns a null pointer.
\<close>

record os =
  os_ret :: "ftp_call list \<Rightarrow> ftp_call \<Rightarrow> int"
  os_stat :: "ftp_call list \<Rightarrow> byte list \<Rightarrow> stat option"
  os_dir :: "ftp_call list \<Rightarrow> byte list \<Rightarrow> byte list list option"
  os_cwd :: "ftp_call list \<Rightarrow> byte list"
  os_recv :: "ftp_call list \<Rightarrow> int \<Rightarrow> byte list list \<times> bool"
  os_file :: "ftp_call list \<Rightarrow> int \<Rightarrow> byte list list"
  os_sockname :: "ftp_call list \<Rightarrow> int \<Rightarrow> (32 word \<times> nat) option"
  os_now :: int
  os_strftime :: "byte list \<Rightarrow> int \<Rightarrow> byte list"
  os_passwd :: "byte list \<Rightarrow> (byte list \<times> nat) option"
  os_crypt :: "byte list \<Rightarrow> byte list \<Rightarrow> byte list option"

text \<open>
  \<open>inp\<close> is what the control connection still delivers before it ends.  \<open>anon\<close> is the user and the
  root directory of anonymous logins.
\<close>

record ftpd =
  logged_in :: bool
  username :: "byte list"
  rnfr :: "byte list"
  datal :: int
  datap :: int
  anon :: "(byte list \<times> byte list) option"
  inp :: "byte list"
  trace :: "ftp_call list"

definition call :: "os \<Rightarrow> ftp_call \<Rightarrow> ftpd \<Rightarrow> int \<times> ftpd" where
  "call S c s = (os_ret S (trace s) c, s\<lparr>trace := c # trace s\<rparr>)"

definition run_call :: "os \<Rightarrow> ftp_call \<Rightarrow> ftpd \<Rightarrow> ftpd" where
  "run_call S c s = snd (call S c s)"

definition FTP_MAX :: nat where "FTP_MAX = 1024"

section \<open>Network I/O\<close>

text \<open>\<open>vsnprintf\<close> keeps at most \<open>MAX-2\<close> bytes of the text.\<close>

definition net_printf :: "os \<Rightarrow> byte list \<Rightarrow> ftpd \<Rightarrow> ftpd" where
  "net_printf S t s = run_call S (Reply (take (FTP_MAX - 2) t)) s"

definition msg :: "string \<Rightarrow> byte list" where
  "msg t = bytes t @ [10]"

text \<open>
  \<open>net_getline\<close>: \<open>buf\<close> is the bytes stored so far.  With none stored, the loop reads the byte before
  the buffer.  The result is the bytes stored, or \<open>None\<close> at the end of the connection, and what is
  left of the input.
\<close>

fun net_getline :: "byte list \<Rightarrow> nat \<Rightarrow> byte list \<Rightarrow> (byte list option \<times> byte list) res" where
  "net_getline [] maxlen buf = Ret (None, [])"
| "net_getline (c # cs) maxlen buf =
     (let buf = (if c \<noteq> 13 \<and> c \<noteq> 10 then buf @ [c]
                 else if c = 10 \<or> length buf = maxlen - 1 then buf @ [0] else buf)
      in if buf = [] then Fault
         else if last buf \<noteq> 0 \<and> length buf < maxlen then net_getline cs maxlen buf
         else Ret (Some buf, cs))"

section \<open>File transmission\<close>

fun stor_loop :: "os \<Rightarrow> int \<Rightarrow> byte list list \<Rightarrow> int \<Rightarrow> int \<Rightarrow> ftpd \<Rightarrow> int \<times> int \<times> ftpd" where
  "stor_loop S fh [] j tot s = (j, tot, s)"
| "stor_loop S fh (b # bs) j tot s =
     (let (j, s) = call S (Write_file fh b) s
      in if j \<ge> 0 then stor_loop S fh bs j (tot + j) s else (j, tot, s))"

definition ftpd_stor :: "os \<Rightarrow> int \<Rightarrow> byte list \<Rightarrow> ftpd \<Rightarrow> ftpd" where
  "ftpd_stor S dp filename s =
     (if dp < 0 then s
      else
        let sb = os_stat S (trace s) filename; s = run_call S (Stat filename) s
        in if sb \<noteq> None \<and> st_kind (the sb) \<noteq> Reg
           then net_printf S (msg ''523 Error Creating Destination File - does it already exist read-only?'') s
           else
             let s = net_printf S (bytes ''150 Ready to download '' @ filename @ [10]) s;
                 (fh, s) = call S (Open_write filename) s
             in if fh < 0
                then net_printf S (msg ''523 Error Creating Destination File - does it already exist read-only?'') s
                else
                  let (chunks, err) = os_recv S (trace s) dp;
                      (j, tot, s) = stor_loop S fh chunks 0 0 s;
                      s = run_call S (Close fh) s
                  in if j < 0 \<or> err
                     then net_printf S (msg ''524 Download interrupted, created file may be incomplete'') s
                     else net_printf S (bytes ''226 Transfer OK - '' @ dec_int tot @ bytes '' bytes sent'' @ [10]) s)"

text \<open>The size that is shown, and its unit.\<close>

definition list_size :: "int \<Rightarrow> int \<times> byte" where
  "list_size n =
     (if n < 99999 then (n mod 2 ^ 32, 32)
      else if n < 99999000 then ((n + 499) mod 2 ^ 32 div 1000, 0x4b)
      else ((n + 499999) mod 2 ^ 32 div 1000000, 0x4d))"

definition list_line :: "os \<Rightarrow> byte list \<Rightarrow> stat \<Rightarrow> byte list" where
  "list_line S name sb =
     (let (size, sizet) = list_size (st_size sb);
          fmt = (if (os_now S - st_mtime sb) mod 2 ^ 32 > 31449600 then bytes ''%b %d  %Y'' else bytes ''%b %d %H:%M'')
      in bytes (case st_kind sb of Reg \<Rightarrow> ''-'' | Dir \<Rightarrow> ''d'' | Other \<Rightarrow> ''?'') @ bytes ''rwxrwxrwx ''
         @ pad_left 32 5 (dec_int (st_nlink sb)) @ [32] @ pad_left 32 8 (dec_int (st_uid sb)) @ [32]
         @ pad_left 32 8 (dec_int (st_gid sb)) @ [32] @ pad_left 32 7 (dec_int size) @ [sizet, 32]
         @ os_strftime S fmt (st_mtime sb) @ [32] @ name @ [10])"

fun list_loop :: "os \<Rightarrow> int \<Rightarrow> byte list list \<Rightarrow> int \<Rightarrow> ftpd \<Rightarrow> int \<times> ftpd" where
  "list_loop S dp [] tot s = (tot, s)"
| "list_loop S dp (n # ns) tot s =
     (let sb = os_stat S (trace s) n; s = run_call S (Stat n) s
      in case sb of
           None \<Rightarrow> list_loop S dp ns tot s
         | Some sb \<Rightarrow>
             let (r, s) = call S (Send dp (take (FTP_MAX - 2) (list_line S n sb))) s
             in list_loop S dp ns (tot + r) s)"

definition ftpd_list :: "os \<Rightarrow> int \<Rightarrow> byte list \<Rightarrow> ftpd \<Rightarrow> ftpd" where
  "ftpd_list S dp dir s =
     (if dp < 0 then net_printf S (msg ''522 Data Connection Problem, did you use PASV?'') s
      else
        let s = net_printf S (msg ''150 Ready to download directory'') s;
            names = os_dir S (trace s) dir;
            s = run_call S (Opendir dir) s;
            (tot, s) = (case names of None \<Rightarrow> (0, s) | Some ns \<Rightarrow> list_loop S dp ns 0 s)
        in net_printf S (bytes ''226 Transfer OK - '' @ dec_int tot @ bytes '' bytes received'' @ [10]) s)"

fun retr_loop :: "os \<Rightarrow> int \<Rightarrow> byte list list \<Rightarrow> int \<Rightarrow> ftpd \<Rightarrow> int \<times> ftpd" where
  "retr_loop S dp [] tot s = (tot, s)"
| "retr_loop S dp (b # bs) tot s =
     retr_loop S dp bs (tot + int (length b)) (run_call S (Send dp b) s)"

definition ftpd_retr :: "os \<Rightarrow> int \<Rightarrow> byte list \<Rightarrow> ftpd \<Rightarrow> ftpd" where
  "ftpd_retr S dp filename s =
     (if dp < 0 then s
      else
        let sb = os_stat S (trace s) filename; s = run_call S (Stat filename) s
        in case sb of
             None \<Rightarrow> net_printf S (msg ''522 Data Connection Problem, did you use PASV?'') s
           | Some sb \<Rightarrow>
               if st_kind sb = Dir then ftpd_list S dp filename s
               else
                 let s = net_printf S (bytes ''150 Ready to download '' @ filename @ [10]) s;
                     (fh, s) = call S (Open_read filename) s
                 in if fh < 0 then net_printf S (msg ''522 Data Connection Problem, did you use PASV?'') s
                    else
                      let (tot, s) = retr_loop S dp (os_file S (trace s) fh) 0 s;
                          s = run_call S (Close fh) s
                      in net_printf S (bytes ''226 Transfer OK - '' @ dec_int tot
                                       @ bytes '' bytes received'' @ [10]) s)"

section \<open>Connections\<close>

definition ftpd_openlistener :: "os \<Rightarrow> int \<Rightarrow> int \<Rightarrow> ftpd \<Rightarrow> int \<times> ftpd" where
  "ftpd_openlistener S maxlisteners port s =
     (let (fd, s) = call S Socket s
      in if fd < 0 then (fd, s)
         else
           let (r, s) = call S (Bind fd port) s
           in if r < 0 then (-1, run_call S (Close fd) s)
              else
                let (r, s) = call S (Listen fd maxlisteners) s
                in if r < 0 then (-1, run_call S (Close fd) s) else (fd, s))"

definition ftpd_accept :: "os \<Rightarrow> int \<Rightarrow> ftpd \<Rightarrow> int \<times> ftpd" where
  "ftpd_accept S listener s = call S (Accept listener) s"

text \<open>The address is in network order, so its first byte is the low one on the radio.\<close>

definition ftpd_pasv :: "os \<Rightarrow> int \<Rightarrow> int \<Rightarrow> ftpd \<Rightarrow> ftpd" where
  "ftpd_pasv S cs dp s =
     (if dp < 0 \<or> cs < 0 then net_printf S (msg ''521 PASV Connection Failed'') s
      else case os_sockname S (trace s) cs of
             None \<Rightarrow> net_printf S (msg ''521 PASV Connection Failed'') s
           | Some (add, _) \<Rightarrow>
             (case os_sockname S (trace s) dp of
                None \<Rightarrow> net_printf S (msg ''521 PASV Connection Failed'') s
              | Some (_, port) \<Rightarrow>
                  let a = (\<lambda>i. dec_int (uint (drop_bit (8 * i) add AND 0xFF)))
                  in net_printf S (bytes ''227 PASV OK ('' @ a 0 @ bytes '','' @ a 1 @ bytes '','' @ a 2
                       @ bytes '','' @ a 3 @ bytes '','' @ dec_int (int (port div 256 mod 256)) @ bytes '',''
                       @ dec_int (int (port mod 256)) @ bytes '')'' @ [10]) s))"

section \<open>Commands\<close>

datatype ftp_cmd =
    CMD_NOOP | CMD_USER | CMD_PASS | CMD_QUIT | CMD_PASV | CMD_LIST | CMD_RETR | CMD_STOR | CMD_CWD
  | CMD_PWD | CMD_TYPE | CMD_PORT | CMD_DELE | CMD_RMD | CMD_FEAT | CMD_MKD | CMD_RNFR | CMD_RNTO | CMD_ERR

definition cmdlist :: "(string \<times> ftp_cmd) list" where
  "cmdlist =
     [(''noop'', CMD_NOOP), (''user'', CMD_USER), (''pass'', CMD_PASS), (''quit'', CMD_QUIT),
      (''pasv'', CMD_PASV), (''port'', CMD_PORT), (''list'', CMD_LIST), (''retr'', CMD_RETR),
      (''stor'', CMD_STOR), (''dele'', CMD_DELE), (''rmd'', CMD_RMD), (''feat'', CMD_FEAT),
      (''cwd'', CMD_CWD), (''pwd'', CMD_PWD), (''type'', CMD_TYPE), (''mkd'', CMD_MKD),
      (''rnfr'', CMD_RNFR), (''rnto'', CMD_RNTO)]"

definition to_lower :: "byte \<Rightarrow> byte" where
  "to_lower c = (if 65 \<le> c \<and> c \<le> 90 then c + 32 else c)"

definition decode_cmd :: "byte list \<Rightarrow> ftp_cmd" where
  "decode_cmd cmd =
     fold (\<lambda>(n, c) r. if cmd = bytes n then c else r) cmdlist CMD_ERR"

text \<open>The command and the argument of a line; without a NUL the scan runs off the buffer.\<close>

definition parse_line :: "byte list \<Rightarrow> (byte list \<times> byte list) res" where
  "parse_line line =
     (if 0 \<notin> set line then Fault
      else
        let l = cstr line
        in Ret (map to_lower (takeWhile (\<lambda>c. c \<noteq> 32) l),
                dropWhile (\<lambda>c. c = 32) (dropWhile (\<lambda>c. c \<noteq> 32) l)))"

definition anonymous_login :: "os \<Rightarrow> ftpd \<Rightarrow> ftpd" where
  "anonymous_login S s =
     (case anon s of
        None \<Rightarrow> net_printf S (msg ''506 Unable to change to anonymous home directory'') s
      | Some (user, root) \<Rightarrow>
          let pw = os_passwd S user; (r, s) = call S (Chroot root) s
          in if r \<noteq> 0
             then net_printf S (msg ''505 Unable to find anonymous 'user' account on system'') s
             else
               case pw of
                 None \<Rightarrow> net_printf S (msg ''506 Unable to change to anonymous home directory'') s
               | Some (_, uid) \<Rightarrow>
                   if uid < 100
                   then net_printf S (msg ''506 Unable to change to anonymous home directory'') s
                   else
                     let (r, s) = call S (Setuid uid) s
                     in if r \<noteq> 0
                        then net_printf S (msg ''506 Unable to change to anonymous home directory'') s
                        else
                          let s = run_call S (Chdir (bytes ''/'')) s;
                              s = net_printf S (msg ''230 Anonymous Login OK'') s
                          in s\<lparr>logged_in := True\<rparr>)"

definition user_login :: "os \<Rightarrow> byte list \<Rightarrow> ftpd \<Rightarrow> ftpd res" where
  "user_login S arg s =
     (case os_passwd S (username s) of
        None \<Rightarrow> Ret (net_printf S (msg ''503 Bad username or password'') s)
      | Some (pw, uid) \<Rightarrow>
          (case os_crypt S arg pw of
             None \<Rightarrow> Fault
           | Some e \<Rightarrow>
               if e \<noteq> pw then Ret (net_printf S (msg ''503 Bad username or password'') s)
               else
                 let (r, s) = call S (Setuid uid) s
                 in if r \<noteq> 0 then Ret (net_printf S (msg ''503 Bad username or password'') s)
                    else
                      let s = run_call S (Chdir (bytes ''/'')) s;
                          s = net_printf S (msg ''230 Login OK'') s
                      in Ret (s\<lparr>logged_in := True\<rparr>)))"

definition logout_cmd :: "os \<Rightarrow> ftp_cmd \<Rightarrow> byte list \<Rightarrow> ftpd \<Rightarrow> ftpd res" where
  "logout_cmd S c arg s =
     (case c of
        CMD_USER \<Rightarrow> Ret (net_printf S (msg ''331 Enter Password'') (s\<lparr>username := arg\<rparr>))
      | CMD_PASS \<Rightarrow>
          if username s = [] then Ret (net_printf S (msg ''503 Bad username or password'') s)
          else if username s = bytes ''anonymous'' \<or> username s = bytes ''ftp''
          then Ret (anonymous_login S s)
          else user_login S arg s
      | _ \<Rightarrow> Ret (net_printf S (msg ''500 Unknown Command'') s))"

definition close_datap :: "os \<Rightarrow> ftpd \<Rightarrow> ftpd" where
  "close_datap S s = (if datap s \<ge> 0 then (run_call S (Close (datap s)) s)\<lparr>datap := -1\<rparr> else s)"

text \<open>A call whose result decides between two replies.\<close>

definition try_call :: "os \<Rightarrow> ftp_call \<Rightarrow> (int \<Rightarrow> bool) \<Rightarrow> byte list \<Rightarrow> ftpd \<Rightarrow> ftpd" where
  "try_call S c good ok s =
     (let (r, s) = call S c s
      in net_printf S (if good r then ok else msg ''550 Permission Denied'') s)"

definition pasv_cmd :: "os \<Rightarrow> int \<Rightarrow> ftpd \<Rightarrow> ftpd" where
  "pasv_cmd S cs s =
     (let s = (if datal s > 0 then run_call S (Close (datal s)) s else s);
          s = (if datap s > 0 then run_call S (Close (datap s)) s else s);
          (fd, s) = ftpd_openlistener S 1 0 (s\<lparr>datap := -1\<rparr>)
      in ftpd_pasv S cs fd (s\<lparr>datal := fd\<rparr>))"

definition login_cmd :: "os \<Rightarrow> int \<Rightarrow> ftp_cmd \<Rightarrow> byte list \<Rightarrow> ftpd \<Rightarrow> ftpd" where
  "login_cmd S cs c arg s =
     (case c of
        CMD_PORT \<Rightarrow> net_printf S (msg ''500 PORT Command not supported, use PASV Mode'') s
      | CMD_PASV \<Rightarrow> pasv_cmd S cs s
      | CMD_LIST \<Rightarrow> close_datap S (ftpd_list S (datap s) (bytes ''.'') s)
      | CMD_RETR \<Rightarrow> close_datap S (ftpd_retr S (datap s) arg s)
      | CMD_STOR \<Rightarrow> close_datap S (ftpd_stor S (datap s) arg s)
      | CMD_PWD \<Rightarrow>
          let p = os_cwd S (trace s); s = run_call S Getcwd s
          in net_printf S (bytes ''257 '' @ [34] @ p @ [34, 10]) s
      | CMD_CWD \<Rightarrow>
          if arg = [] then net_printf S (msg ''504 Bad Argument'') s
          else try_call S (Chdir arg) (\<lambda>r. r = 0) (msg ''250 OK'') s
      | CMD_TYPE \<Rightarrow> net_printf S (msg ''200 OK'') s
      | CMD_MKD \<Rightarrow>
          if arg = [] then net_printf S (msg ''550 Permission Denied'') s
          else try_call S (Mkdir arg) (\<lambda>r. r \<ge> 0) (msg ''200 OK'') s
      | CMD_RMD \<Rightarrow>
          if arg = [] then net_printf S (msg ''550 Permission Denied'') s
          else try_call S (Rmdir arg) (\<lambda>r. r \<ge> 0) (msg ''200 OK'') s
      | CMD_RNFR \<Rightarrow>
          if arg = [] then net_printf S (msg ''550 Permission Denied'') s
          else net_printf S (msg ''350 RNFR OK'') (s\<lparr>rnfr := arg\<rparr>)
      | CMD_RNTO \<Rightarrow>
          if arg = [] \<or> rnfr s = [] then net_printf S (msg ''550 Permission Denied'') s
          else try_call S (Rename (rnfr s) arg) (\<lambda>r. r = 0) (msg ''250 OK'') s
      | CMD_DELE \<Rightarrow>
          if arg = [] then net_printf S (msg ''550 Permission Denied'') s
          else try_call S (Unlink arg) (\<lambda>r. r \<ge> 0) (msg ''200 OK'') s
      | _ \<Rightarrow> net_printf S (msg ''500 Unknown Command'') s)"

text \<open>One command; the result tells whether the session ends.\<close>

definition ftpd_exec :: "os \<Rightarrow> int \<Rightarrow> ftp_cmd \<Rightarrow> byte list \<Rightarrow> ftpd \<Rightarrow> (bool \<times> ftpd) res" where
  "ftpd_exec S cs c arg s =
     (case c of
        CMD_ERR \<Rightarrow> Ret (False, net_printf S (msg ''500 Unknown Command'') s)
      | CMD_QUIT \<Rightarrow> Ret (True, net_printf S (msg ''221 QUIT OK'') s)
      | CMD_NOOP \<Rightarrow> Ret (False, net_printf S (msg ''200 OK'') s)
      | CMD_FEAT \<Rightarrow> Ret (False, net_printf S (msg ''211-Features'' @ msg '' PASV'' @ msg ''211 End'') s)
      | _ \<Rightarrow> if \<not> logged_in s then res_map (Pair False) (logout_cmd S c arg s)
            else Ret (False, login_cmd S cs c arg s))"

definition ftpd_cmd :: "os \<Rightarrow> int \<Rightarrow> ftpd \<Rightarrow> (bool \<times> ftpd) res" where
  "ftpd_cmd S cs s =
     res_bind (net_getline (inp s) FTP_MAX []) (\<lambda>(line, rest).
     let s = s\<lparr>inp := rest\<rparr>
     in case line of
          None \<Rightarrow> Ret (True, net_printf S (msg ''520 Connection Problem'') s)
        | Some buf \<Rightarrow>
            res_bind (parse_line buf) (\<lambda>(cmd, arg). ftpd_exec S cs (decode_cmd cmd) arg s))"

section \<open>Sessions\<close>

text \<open>
  What \<open>select\<close> reports in a round of the loop: an error, that nothing came for 30 seconds, or which
  of the listener for data connections and the control connection can be read.
\<close>

datatype select_result = Sel_error | Sel_timeout | Sel_ready bool bool

definition session_start :: "os \<Rightarrow> (byte list \<times> byte list) option \<Rightarrow> byte list \<Rightarrow> ftpd" where
  "session_start S an input =
     net_printf S (msg ''220 Sharpfin FTP Server - $Id: ftpd.c 277 2008-05-09 23:40:08Z steve $'')
       \<lparr>logged_in = False, username = [], rnfr = [], datal = -1, datap = -1, anon = an, inp = input, trace = []\<rparr>"

definition session_step :: "os \<Rightarrow> int \<Rightarrow> select_result \<Rightarrow> ftpd \<Rightarrow> (bool \<times> ftpd) res" where
  "session_step S cs ev s =
     (case ev of
        Sel_error \<Rightarrow> Ret (True, s)
      | Sel_timeout \<Rightarrow> Ret (True, net_printf S (msg ''421 Timeout'') s)
      | Sel_ready dl c \<Rightarrow>
          if datal s > 0 \<and> dl
          then
            let s = (if datap s > 0 then run_call S (Close (datap s)) s else s);
                (fd, s) = ftpd_accept S (datal s) s
            in Ret (False, s\<lparr>datap := fd\<rparr>)
          else if c then ftpd_cmd S cs s
          else Ret (False, s))"

definition session_end :: "os \<Rightarrow> ftpd \<Rightarrow> ftpd" where
  "session_end S s =
     (let s = (if datal s > 0 then run_call S (Close (datal s)) s else s)
      in if datap s > 0 then run_call S (Close (datap s)) s else s)"

text \<open>
  The loop, for a list of what \<open>select\<close> reports; the first component tells that the session ended
  rather than that the list did.
\<close>

fun session_loop :: "os \<Rightarrow> int \<Rightarrow> select_result list \<Rightarrow> ftpd \<Rightarrow> (bool \<times> ftpd) res" where
  "session_loop S cs [] s = Ret (False, s)"
| "session_loop S cs (e # es) s =
     res_bind (session_step S cs e s) (\<lambda>(quit, s).
       if quit then Ret (True, session_end S s) else session_loop S cs es s)"

definition ftpd_session ::
  "os \<Rightarrow> int \<Rightarrow> (byte list \<times> byte list) option \<Rightarrow> byte list \<Rightarrow> select_result list \<Rightarrow> (bool \<times> ftpd) res" where
  "ftpd_session S cs an input evs = session_loop S cs evs (session_start S an input)"

text \<open>The arguments of the program: the anonymous user, if its directory exists.\<close>

definition ftpd_anon :: "byte list list \<Rightarrow> (byte list \<Rightarrow> int) \<Rightarrow> (byte list \<times> byte list) option" where
  "ftpd_anon argv chdir =
     (if length argv = 3 \<and> chdir (argv ! 2) = 0 then Some (argv ! 1, argv ! 2) else None)"

section \<open>What the building blocks do\<close>

named_theorems ftp_simps \<open>what the building blocks do to the state\<close>

lemma call_simps [ftp_simps]:
  "fst (call S c s) = os_ret S (trace s) c" "snd (call S c s) = run_call S c s"
  "trace (run_call S c s) = c # trace s" "logged_in (run_call S c s) = logged_in s"
  "anon (run_call S c s) = anon s" "datal (run_call S c s) = datal s" "datap (run_call S c s) = datap s"
  "username (run_call S c s) = username s" "rnfr (run_call S c s) = rnfr s" "inp (run_call S c s) = inp s"
  by (simp_all add: call_def run_call_def)

lemma printf_simps [ftp_simps]:
  "trace (net_printf S t s) = Reply (take (FTP_MAX - 2) t) # trace s" "logged_in (net_printf S t s) = logged_in s"
  "anon (net_printf S t s) = anon s" "datal (net_printf S t s) = datal s" "datap (net_printf S t s) = datap s"
  "username (net_printf S t s) = username s" "inp (net_printf S t s) = inp s"
  by (simp_all add: net_printf_def ftp_simps)

section \<open>The length of a line\<close>

lemma getline_collects:
  assumes "\<forall>c\<in>set cs. c \<notin> {0, 10, 13}" "length buf + length cs \<le> n"
  shows "cs \<noteq> [] \<Longrightarrow> net_getline (cs @ rest) n buf
    = (if length buf + length cs < n then net_getline rest n (buf @ cs) else Ret (Some (buf @ cs), rest))"
  using assms
proof (induction cs arbitrary: buf)
  case (Cons c cs)
  show ?case
  proof (cases "cs = []")
    case True
    then show ?thesis using Cons.prems by (auto simp: Let_def)
  next
    case False
    then have "length buf + 1 < n" using Cons.prems(3) by (cases cs) auto
    then show ?thesis using Cons.IH [of "buf @ [c]"] Cons.prems False by (simp add: Let_def)
  qed
qed simp

text \<open>
  A command line is safe if it has less than 1024 bytes before its line feed; a client, logged in or
  not, that sends 1024 bytes without one makes the server run over its buffers, because
  \<^verbatim>\<open>net_getline\<close> then returns a line that is not terminated.
\<close>

theorem ftpd_line_length:
  assumes "\<forall>c\<in>set cs. c \<notin> {0, 10, 13}" "cs \<noteq> []"
  shows "(length cs < 1024 \<longrightarrow> ftpd_cmd S fd (s\<lparr>inp := cs @ 10 # rest\<rparr>)
      = ftpd_exec S fd (decode_cmd (map to_lower (takeWhile (\<lambda>c. c \<noteq> 32) cs)))
          (dropWhile (\<lambda>c. c = 32) (dropWhile (\<lambda>c. c \<noteq> 32) cs)) (s\<lparr>inp := rest\<rparr>))
    \<and> (length cs = 1024 \<longrightarrow> ftpd_cmd S fd (s\<lparr>inp := cs @ rest\<rparr>) = Fault)"
proof (intro conjI impI)
  have z: "0 \<notin> set cs" using assms(1) by auto
  show "ftpd_cmd S fd (s\<lparr>inp := cs @ 10 # rest\<rparr>)
      = ftpd_exec S fd (decode_cmd (map to_lower (takeWhile (\<lambda>c. c \<noteq> 32) cs)))
          (dropWhile (\<lambda>c. c = 32) (dropWhile (\<lambda>c. c \<noteq> 32) cs)) (s\<lparr>inp := rest\<rparr>)"
    if "length cs < 1024"
  proof -
    have "net_getline (cs @ 10 # rest) FTP_MAX [] = Ret (Some (cs @ [0]), rest)"
      using getline_collects [of cs "[]" FTP_MAX "10 # rest"] assms that by (simp add: FTP_MAX_def)
    then show ?thesis using z by (simp add: ftpd_cmd_def parse_line_def Let_def)
  qed
  show "ftpd_cmd S fd (s\<lparr>inp := cs @ rest\<rparr>) = Fault" if "length cs = 1024"
    using getline_collects [of cs "[]" FTP_MAX rest] assms that z
    by (simp add: FTP_MAX_def ftpd_cmd_def parse_line_def)
qed

end
