(* ===== verification/Ftpd_Login.thy ===== *)
theory Ftpd_Login
  imports Ftpd
begin

text \<open>
  What a session of the FTP server does with files and connections: nothing before a client has
  logged in, as an invariant of the steps of a session over the list of calls it made.
\<close>

section \<open>Nothing before login\<close>

text \<open>
  The calls a client that is not logged in must not cause, whether the process has changed to a
  user, and which users it may change to: the anonymous one, if that is not a system account, or
  one whose password was given.
\<close>

fun needs_login :: "ftp_call \<Rightarrow> bool" where
  "needs_login (Reply _) = False"
| "needs_login (Chroot _) = False"
| "needs_login (Setuid _) = False"
| "needs_login _ = True"

fun is_setuid :: "ftp_call \<Rightarrow> bool" where
  "is_setuid (Setuid _) = True"
| "is_setuid _ = False"

fun granted :: "os \<Rightarrow> ftp_call list \<Rightarrow> bool" where
  "granted S [] = False"
| "granted S (c # tr) = (is_setuid c \<and> os_ret S tr c = 0 \<or> granted S tr)"

text \<open>
  The commands a session has read from what the client sent, and what is left of it.  The user of a login is the one
  the client named last.
\<close>

inductive has_read :: "byte list \<Rightarrow> (ftp_cmd \<times> byte list) list \<Rightarrow> byte list \<Rightarrow> bool" for input where
  start: "has_read input [] input"
| command: "has_read input cs r \<Longrightarrow> net_getline r FTP_MAX [] = Ret (Some buf, r') \<Longrightarrow> parse_line buf = Ret (cmd, arg) \<Longrightarrow>
    has_read input (cs @ [(decode_cmd cmd, arg)]) r'"
| closed: "has_read input cs r \<Longrightarrow> net_getline r FTP_MAX [] = Ret (None, r') \<Longrightarrow> has_read input cs r'"

definition last_user :: "(ftp_cmd \<times> byte list) list \<Rightarrow> byte list" where
  "last_user cs = foldl (\<lambda>u (c, arg). if c = CMD_USER then arg else u) [] cs"

lemma last_user_snoc [simp]: "last_user (cs @ [(c, arg)]) = (if c = CMD_USER then arg else last_user cs)"
  by (simp add: last_user_def)

text \<open>
  A user the process may change to: the client sent a password after the name of a user; the name is that of the
  anonymous user, whose account is not a system account, or the password is the one of the user.
\<close>

definition authorised :: "os \<Rightarrow> (byte list \<times> byte list) option \<Rightarrow> (ftp_cmd \<times> byte list) list \<Rightarrow> nat \<Rightarrow> bool" where
  "authorised S an cs uid \<longleftrightarrow>
     (\<exists>ps arg rest. cs = ps @ (CMD_PASS, arg) # rest \<and>
        (if last_user ps \<in> {bytes ''anonymous'', bytes ''ftp''}
         then \<exists>u root pw. an = Some (u, root) \<and> os_passwd S u = Some (pw, uid) \<and> 100 \<le> uid
         else last_user ps \<noteq> [] \<and> (\<exists>pw. os_passwd S (last_user ps) = Some (pw, uid) \<and> os_crypt S arg pw = Some pw)))"

fun guarded :: "os \<Rightarrow> (byte list \<times> byte list) option \<Rightarrow> (ftp_cmd \<times> byte list) list \<Rightarrow> ftp_call list \<Rightarrow> bool" where
  "guarded S an cs [] = True"
| "guarded S an cs (c # tr) =
     (guarded S an cs tr \<and> (needs_login c \<longrightarrow> granted S tr)
      \<and> (case c of Setuid uid \<Rightarrow> authorised S an cs uid | _ \<Rightarrow> True))"

lemma authorised_more: "authorised S an cs uid \<Longrightarrow> authorised S an (cs @ [x]) uid"
  unfolding authorised_def by (metis append_Cons append_assoc)

lemma guarded_more: "guarded S an cs tr \<Longrightarrow> guarded S an (cs @ [x]) tr"
  by (induction tr) (auto simp: authorised_more split: ftp_call.splits)

text \<open>
  A session that is logged in, and one that may not be, with the commands it has read and what is left to read.
\<close>

definition named :: "(ftp_cmd \<times> byte list) list \<Rightarrow> byte list \<Rightarrow> ftpd \<Rightarrow> bool" where
  "named cs r s \<longleftrightarrow> inp s = r \<and> (\<not> logged_in s \<longrightarrow> username s = last_user cs)"

definition in_session ::
  "os \<Rightarrow> (byte list \<times> byte list) option \<Rightarrow> (ftp_cmd \<times> byte list) list \<Rightarrow> byte list \<Rightarrow> ftpd \<Rightarrow> bool" where
  "in_session S an cs r s \<longleftrightarrow> anon s = an \<and> named cs r s \<and> guarded S an cs (trace s) \<and> granted S (trace s)"

definition session_ok ::
  "os \<Rightarrow> (byte list \<times> byte list) option \<Rightarrow> (ftp_cmd \<times> byte list) list \<Rightarrow> byte list \<Rightarrow> ftpd \<Rightarrow> bool" where
  "session_ok S an cs r s \<longleftrightarrow> anon s = an \<and> named cs r s \<and> guarded S an cs (trace s)
     \<and> (logged_in s \<or> datal s > 0 \<or> datap s \<ge> 0 \<longrightarrow> granted S (trace s))"

lemma in_session_ok: "in_session S an cs r s \<Longrightarrow> session_ok S an cs r s"
  by (simp add: in_session_def session_ok_def)

named_theorems ftp_keeps \<open>operations of a session that is logged in keep it so\<close>

lemma run_call_keeps [ftp_keeps]: "in_session S an cs r s \<Longrightarrow> \<not> is_setuid c \<Longrightarrow> in_session S an cs r (run_call S c s)"
  by (cases c) (simp_all add: in_session_def named_def ftp_simps)

lemma net_printf_keeps [ftp_keeps]: "in_session S an cs r s \<Longrightarrow> in_session S an cs r (net_printf S t s)"
  by (simp add: net_printf_def run_call_keeps)

lemma stor_loop_keeps [ftp_keeps]:
  "in_session S an cs r s \<Longrightarrow> in_session S an cs r (snd (snd (stor_loop S fh bs j tot s)))"
  by (induction bs arbitrary: j tot s) (simp_all add: Let_def case_prod_beta ftp_simps ftp_keeps)

lemma list_loop_keeps [ftp_keeps]:
  "in_session S an cs r s \<Longrightarrow> in_session S an cs r (snd (list_loop S dp ns tot s))"
  by (induction ns arbitrary: tot s)
     (simp_all add: Let_def case_prod_beta ftp_simps ftp_keeps split: option.split)

lemma retr_loop_keeps [ftp_keeps]:
  "in_session S an cs r s \<Longrightarrow> in_session S an cs r (snd (retr_loop S dp bs tot s))"
  by (induction bs arbitrary: tot s) (simp_all add: ftp_keeps)

lemma ftpd_stor_keeps [ftp_keeps]: "in_session S an cs r s \<Longrightarrow> in_session S an cs r (ftpd_stor S dp f s)"
  by (simp add: ftpd_stor_def Let_def case_prod_beta ftp_simps ftp_keeps)

lemma ftpd_list_keeps [ftp_keeps]: "in_session S an cs r s \<Longrightarrow> in_session S an cs r (ftpd_list S dp f s)"
  by (simp add: ftpd_list_def Let_def case_prod_beta ftp_simps ftp_keeps split: option.split)

lemma ftpd_retr_keeps [ftp_keeps]: "in_session S an cs r s \<Longrightarrow> in_session S an cs r (ftpd_retr S dp f s)"
  by (simp add: ftpd_retr_def Let_def case_prod_beta ftp_simps ftp_keeps split: option.split)

lemma update_keeps [ftp_keeps]:
  "in_session S an cs r (s\<lparr>datap := d\<rparr>) = in_session S an cs r s" "in_session S an cs r (s\<lparr>datal := d\<rparr>) = in_session S an cs r s"
  "in_session S an cs r (s\<lparr>rnfr := x\<rparr>) = in_session S an cs r s"
  by (simp_all add: in_session_def named_def)

lemma openlistener_keeps [ftp_keeps]:
  "in_session S an cs r s \<Longrightarrow> in_session S an cs r (snd (ftpd_openlistener S n p s))"
  by (simp add: ftpd_openlistener_def Let_def case_prod_beta ftp_simps ftp_keeps)

lemma ftpd_pasv_keeps [ftp_keeps]: "in_session S an cs r s \<Longrightarrow> in_session S an cs r (ftpd_pasv S fd dp s)"
  by (simp add: ftpd_pasv_def Let_def ftp_keeps split: option.split)

lemma close_datap_keeps [ftp_keeps]: "in_session S an cs r s \<Longrightarrow> in_session S an cs r (close_datap S s)"
  by (simp add: close_datap_def ftp_keeps)

lemma login_cmd_keeps [ftp_keeps]: "in_session S an cs r s \<Longrightarrow> in_session S an cs r (login_cmd S fd c arg s)"
  by (simp add: login_cmd_def pasv_cmd_def try_call_def Let_def case_prod_beta ftp_simps ftp_keeps
        split: ftp_cmd.split)

lemma session_ok_more: "session_ok S an cs r s \<Longrightarrow> logged_in s \<or> c \<noteq> CMD_USER \<Longrightarrow> session_ok S an (cs @ [(c, arg)]) r s"
  by (auto simp: session_ok_def named_def guarded_more)

lemma logout_cmd_ok:
  assumes "session_ok S an cs r s" "\<not> logged_in s" "logout_cmd S c arg s = Ret s'"
  shows "session_ok S an (cs @ [(c, arg)]) r s'"
proof -
  let ?cs = "cs @ [(c, arg)]"
  have p: "session_ok S an ?cs r (net_printf S t s)" if "c \<noteq> CMD_USER" for t
    using session_ok_more [OF assms(1), of c arg] that by (simp add: session_ok_def named_def ftp_simps)
  have u: "session_ok S an ?cs r (net_printf S t (s\<lparr>username := arg\<rparr>))" if "c = CMD_USER" for t
    using assms(1) that by (simp add: session_ok_def named_def guarded_more ftp_simps)
  have n: "username s = last_user cs" using assms(1,2) by (simp add: session_ok_def named_def)
  have ok: "session_ok S an ?cs r s" if "c = CMD_PASS" using session_ok_more [OF assms(1), of c arg] that by simp
  have a: "session_ok S an ?cs r (anonymous_login S s)"
    if "c = CMD_PASS" "username s = bytes ''anonymous'' \<or> username s = bytes ''ftp''"
  proof -
    have "authorised S an ?cs uid" if "an = Some (user, root)" "os_passwd S user = Some (pw, uid)" "\<not> uid < 100" for user root pw uid
      unfolding authorised_def using that n \<open>c = CMD_PASS\<close> \<open>username s = _ \<or> _\<close>
      by (intro exI [of _ cs] exI [of _ arg] exI [of _ "[]"]) auto
    then show ?thesis
      using ok [OF that(1)]
      by (auto simp: anonymous_login_def session_ok_def named_def Let_def case_prod_beta ftp_simps split: option.split)
  qed
  have l: "session_ok S an ?cs r s'"
    if "c = CMD_PASS" "username s \<noteq> []" "username s \<notin> {bytes ''anonymous'', bytes ''ftp''}" "user_login S arg s = Ret s'"
  proof -
    have "authorised S an ?cs uid" if "os_passwd S (username s) = Some (pw, uid)" "os_crypt S arg pw = Some pw" for pw uid
      unfolding authorised_def using that n \<open>c = CMD_PASS\<close> \<open>username s \<noteq> []\<close> \<open>username s \<notin> _\<close>
      by (intro exI [of _ cs] exI [of _ arg] exI [of _ "[]"]) auto
    note auth = this
    show ?thesis
    proof (cases "\<exists>pw uid. os_passwd S (username s) = Some (pw, uid) \<and> os_crypt S arg pw = Some pw")
      case True
      then obtain pw uid where pw: "os_passwd S (username s) = Some (pw, uid)" "os_crypt S arg pw = Some pw" by blast
      have "s' = (if os_ret S (trace s) (Setuid uid) \<noteq> 0
          then net_printf S (msg ''503 Bad username or password'') (run_call S (Setuid uid) s)
          else (net_printf S (msg ''230 Login OK'') (run_call S (Chdir (bytes ''/'')) (run_call S (Setuid uid) s)))\<lparr>logged_in := True\<rparr>)"
        using that(4) pw by (simp add: user_login_def case_prod_beta ftp_simps split: if_splits)
      then show ?thesis
        using ok [OF that(1)] auth [OF pw] by (simp add: session_ok_def named_def ftp_simps)
    next
      case False
      then have "s' = net_printf S (msg ''503 Bad username or password'') s"
        using that(4) by (auto simp: user_login_def split: option.split_asm if_splits)
      then show ?thesis using p that(1) by simp
    qed
  qed
  consider "c = CMD_USER" | "c = CMD_PASS" | "c \<noteq> CMD_USER" "c \<noteq> CMD_PASS" by blast
  then show ?thesis
  proof cases
    case 1
    then show ?thesis using assms(3) u [OF 1] by (auto simp: logout_cmd_def)
  next
    case 2
    then have "logout_cmd S c arg s =
        (if username s = [] then Ret (net_printf S (msg ''503 Bad username or password'') s)
         else if username s \<in> {bytes ''anonymous'', bytes ''ftp''} then Ret (anonymous_login S s) else user_login S arg s)"
      by (simp add: logout_cmd_def)
    then show ?thesis using assms(3) p a [OF 2] l [OF 2] 2 by (simp only: split: if_splits) auto
  next
    case 3
    then have "logout_cmd S c arg s = Ret (net_printf S (msg ''500 Unknown Command'') s)"
      by (cases c) (simp_all add: logout_cmd_def)
    then show ?thesis using assms(3) p [OF 3(1)] by auto
  qed
qed

lemma session_ok_cases:
  assumes "session_ok S an cs r s" "logged_in s \<or> datal s > 0 \<or> datap s \<ge> 0"
  shows "in_session S an cs r s"
  using assms by (simp add: session_ok_def in_session_def)

lemma ftpd_exec_ok:
  assumes "session_ok S an cs r s" "ftpd_exec S fd c arg s = Ret (q, s')"
  shows "session_ok S an (cs @ [(c, arg)]) r s'"
proof -
  let ?cs = "cs @ [(c, arg)]"
  have p: "session_ok S an ?cs r (net_printf S t s)" if "c \<noteq> CMD_USER" for t
    using session_ok_more [OF assms(1), of c arg] that by (simp add: session_ok_def named_def ftp_simps)
  have l: "session_ok S an ?cs r (login_cmd S fd c arg s)" if "logged_in s"
    using in_session_ok [OF login_cmd_keeps [OF session_ok_cases [OF session_ok_more [OF assms(1)]]]] that by blast
  have o: "session_ok S an ?cs r s'"
    if "(if \<not> logged_in s then res_map (Pair False) (logout_cmd S c arg s)
         else Ret (False, login_cmd S fd c arg s)) = Ret (q, s')"
  proof (cases "logged_in s")
    case True
    then show ?thesis using that l by auto
  next
    case False
    then show ?thesis using that logout_cmd_ok [OF assms(1) False, of c arg s'] by (auto simp: res_map_Ret_iff)
  qed
  show ?thesis
  proof (cases "c \<in> {CMD_ERR, CMD_QUIT, CMD_NOOP, CMD_FEAT}")
    case True
    then show ?thesis using assms(2) p by (auto simp: ftpd_exec_def)
  next
    case False
    then have "ftpd_exec S fd c arg s = (if \<not> logged_in s then res_map (Pair False) (logout_cmd S c arg s)
         else Ret (False, login_cmd S fd c arg s))"
      by (cases c) (simp_all add: ftpd_exec_def)
    then show ?thesis using assms(2) o by (simp only:)
  qed
qed

lemma ftpd_cmd_ok:
  assumes "has_read input cs (inp s)" "session_ok S an cs (inp s) s" "ftpd_cmd S fd s = Ret (q, s')"
  shows "\<exists>cs. has_read input cs (inp s') \<and> session_ok S an cs (inp s') s'"
proof -
  have r: "session_ok S an cs x (s\<lparr>inp := x\<rparr>)" "session_ok S an cs x (net_printf S t (s\<lparr>inp := x\<rparr>))" for x t
    using assms(2) by (simp_all add: session_ok_def named_def ftp_simps)
  obtain line rest where l: "net_getline (inp s) FTP_MAX [] = Ret (line, rest)"
      "(case line of None \<Rightarrow> Ret (True, net_printf S (msg ''520 Connection Problem'') (s\<lparr>inp := rest\<rparr>))
        | Some buf \<Rightarrow> res_bind (parse_line buf)
            (\<lambda>(cmd, arg). ftpd_exec S fd (decode_cmd cmd) arg (s\<lparr>inp := rest\<rparr>))) = Ret (q, s')"
    using assms(3) unfolding ftpd_cmd_def res_bind_Ret_iff Let_def by auto
  show ?thesis
  proof (cases line)
    case None
    then have "s' = net_printf S (msg ''520 Connection Problem'') (s\<lparr>inp := rest\<rparr>)" using l by auto
    then show ?thesis using r(2) has_read.closed [OF assms(1)] l(1) None by (auto simp: ftp_simps)
  next
    case (Some buf)
    then obtain cmd arg where c: "parse_line buf = Ret (cmd, arg)"
      "ftpd_exec S fd (decode_cmd cmd) arg (s\<lparr>inp := rest\<rparr>) = Ret (q, s')"
      using l by (cases "parse_line buf") auto
    have "session_ok S an (cs @ [(decode_cmd cmd, arg)]) rest s'" by (rule ftpd_exec_ok [OF r(1) c(2)])
    moreover from this have "inp s' = rest" by (simp add: session_ok_def named_def)
    ultimately show ?thesis using has_read.command [OF assms(1) l(1) [unfolded Some] c(1)] by blast
  qed
qed

lemma session_step_ok:
  assumes "has_read input cs (inp s)" "session_ok S an cs (inp s) s" "session_step S fd e s = Ret (q, s')"
  shows "\<exists>cs. has_read input cs (inp s') \<and> session_ok S an cs (inp s') s'"
proof (cases "\<exists>dl c. e = Sel_ready dl c \<and> datal s > 0 \<and> dl")
  case True
  then have "in_session S an cs (inp s) s" using session_ok_cases [OF assms(2)] by blast
  then have i: "in_session S an cs (inp s) s'"
    using True assms(3)
    by (auto simp: session_step_def ftpd_accept_def Let_def case_prod_beta ftp_simps ftp_keeps)
  moreover from i have "inp s' = inp s" by (simp add: in_session_def named_def)
  ultimately show ?thesis using in_session_ok assms(1) by metis
next
  case False
  have "session_ok S an cs (inp s) (net_printf S t s)" for t
    using assms(2) by (simp add: session_ok_def named_def ftp_simps)
  then show ?thesis
    using False assms ftpd_cmd_ok [OF assms(1,2)]
    by (fastforce simp: session_step_def ftp_simps split: select_result.split_asm if_splits)
qed

lemma session_end_ok: "session_ok S an cs r s \<Longrightarrow> guarded S an cs (trace (session_end S s)) \<and> inp (session_end S s) = r"
  using run_call_keeps [of S an cs r s "Close (datal s)"]
  by (auto simp: session_end_def Let_def session_ok_def in_session_def named_def ftp_simps)

lemma session_loop_guarded:
  "has_read input cs (inp s) \<Longrightarrow> session_ok S an cs (inp s) s \<Longrightarrow> session_loop S fd evs s = Ret (q, s') \<Longrightarrow>
   \<exists>cs. has_read input cs (inp s') \<and> guarded S an cs (trace s')"
proof (induction evs arbitrary: s cs)
  case Nil
  then show ?case by (auto simp: session_ok_def)
next
  case (Cons e es)
  obtain q1 s1 where s1: "session_step S fd e s = Ret (q1, s1)"
      "(if q1 then Ret (True, session_end S s1) else session_loop S fd es s1) = Ret (q, s')"
    using Cons.prems(3) by (auto simp: res_bind_Ret_iff)
  obtain ds where ds: "has_read input ds (inp s1)" "session_ok S an ds (inp s1) s1"
    using session_step_ok [OF Cons.prems(1,2) s1(1)] by blast
  show ?case
  proof (cases q1)
    case True
    then show ?thesis using session_end_ok [OF ds(2)] ds(1) s1(2) by auto
  next
    case False
    then show ?thesis using Cons.IH [OF ds] s1(2) by simp
  qed
qed

text \<open>C8.
  However the system answers, a session touches no file or directory and opens no data connection before it has
  changed to a user; and it only ever changes to a user to whom the client has logged in by the commands it sent up
  to then: with a password after the name \<open>anonymous\<close> or \<open>ftp\<close>, to the anonymous user, never one of the system
  accounts below 100, or with the name of a user and a password that encrypts to the one of that user.  This
  holds at every point of a session that the server reaches without running over a buffer: no line of the client
  has 1024 bytes or more, or starts with a carriage return, and the encryption gives a result.
\<close>

theorem ftpd_nothing_before_login:
  assumes "ftpd_session S fd an input evs = Ret (q, s)"
  shows "\<exists>cs. has_read input cs (inp s) \<and> guarded S an cs (trace s)"
proof (rule session_loop_guarded)
  let ?s = "session_start S an input"
  show "has_read input [] (inp ?s)" by (simp add: session_start_def has_read.start ftp_simps)
  show "session_ok S an [] (inp ?s) ?s"
    by (simp add: session_start_def session_ok_def named_def last_user_def ftp_simps)
  show "session_loop S fd evs ?s = Ret (q, s)"
    using assms by (simp add: ftpd_session_def)
qed

end
