(* ===== verification/Ftpd_Descriptors.thy ===== *)
theory Ftpd_Descriptors
  imports Ftpd_Login
begin

text \<open>
  The descriptors a session of the FTP server opens and closes, and the theorems on sessions at a
  concrete one.
\<close>

section \<open>Descriptors\<close>

text \<open>
  The descriptors that the calls so far opened and did not close, and that only open ones were
  closed.  The system gives a new descriptor a number that is not in use, and never one of the
  standard ones.
\<close>

fun opens :: "ftp_call \<Rightarrow> bool" where
  "opens Socket = True"
| "opens (Accept _) = True"
| "opens (Open_read _) = True"
| "opens (Open_write _) = True"
| "opens _ = False"

fun open_fds :: "os \<Rightarrow> ftp_call list \<Rightarrow> int set" where
  "open_fds S [] = {}"
| "open_fds S (c # tr) =
     (if opens c \<and> os_ret S tr c \<ge> 0 then insert (os_ret S tr c) (open_fds S tr)
      else case c of Close fd \<Rightarrow> open_fds S tr - {fd} | _ \<Rightarrow> open_fds S tr)"

fun closes_open :: "os \<Rightarrow> ftp_call list \<Rightarrow> bool" where
  "closes_open S [] = True"
| "closes_open S (c # tr) =
     (closes_open S tr \<and> (case c of Close fd \<Rightarrow> fd \<in> open_fds S tr | _ \<Rightarrow> True))"

definition fresh_fds :: "os \<Rightarrow> bool" where
  "fresh_fds S \<longleftrightarrow> (\<forall>tr c. opens c \<and> os_ret S tr c \<ge> 0 \<longrightarrow> os_ret S tr c > 0 \<and> os_ret S tr c \<notin> open_fds S tr)"

definition fds_ok :: "os \<Rightarrow> int \<Rightarrow> int \<Rightarrow> int set \<Rightarrow> ftpd \<Rightarrow> bool" where
  "fds_ok S l p F s \<longleftrightarrow> datal s = l \<and> datap s = p \<and> open_fds S (trace s) = F \<and> closes_open S (trace s)"

named_theorems fds_keeps \<open>operations that close what they open\<close>

lemma run_call_fds [fds_keeps]:
  "fds_ok S l p F s \<Longrightarrow> \<not> opens c \<Longrightarrow> \<forall>fd. c \<noteq> Close fd \<Longrightarrow> fds_ok S l p F (run_call S c s)"
  by (cases c) (simp_all add: fds_ok_def ftp_simps)

lemma close_fds: "fds_ok S l p F s \<Longrightarrow> fd \<in> F \<Longrightarrow> fds_ok S l p (F - {fd}) (run_call S (Close fd) s)"
  by (simp add: fds_ok_def ftp_simps)

lemma open_fds_new:
  assumes "fresh_fds S" "fds_ok S l p F s" "opens c" "os_ret S (trace s) c \<ge> 0"
  shows "fds_ok S l p (insert (os_ret S (trace s) c) F) (run_call S c s)"
    "os_ret S (trace s) c \<notin> F" "os_ret S (trace s) c > 0"
  using assms by (cases c; auto simp: fds_ok_def fresh_fds_def ftp_simps)+

lemma open_fds_fail: "fds_ok S l p F s \<Longrightarrow> opens c \<Longrightarrow> os_ret S (trace s) c < 0 \<Longrightarrow> fds_ok S l p F (run_call S c s)"
  by (cases c) (simp_all add: fds_ok_def ftp_simps)

lemma net_printf_fds [fds_keeps]: "fds_ok S l p F s \<Longrightarrow> fds_ok S l p F (net_printf S t s)"
  by (simp add: net_printf_def run_call_fds)

lemma update_fds [fds_keeps]:
  "fds_ok S l p F s \<Longrightarrow> fds_ok S l d F (s\<lparr>datap := d\<rparr>)"
  "fds_ok S l p F s \<Longrightarrow> fds_ok S d p F (s\<lparr>datal := d\<rparr>)"
  "fds_ok S l p F (s\<lparr>rnfr := x\<rparr>) = fds_ok S l p F s" "fds_ok S l p F (s\<lparr>inp := y\<rparr>) = fds_ok S l p F s"
  "fds_ok S l p F (s\<lparr>username := x\<rparr>) = fds_ok S l p F s"
  "fds_ok S l p F (s\<lparr>logged_in := b\<rparr>) = fds_ok S l p F s"
  by (simp_all add: fds_ok_def)

lemma stor_loop_fds [fds_keeps]: "fds_ok S l p F s \<Longrightarrow> fds_ok S l p F (snd (snd (stor_loop S fh bs j tot s)))"
  by (induction bs arbitrary: j tot s) (simp_all add: Let_def case_prod_beta ftp_simps fds_keeps)

lemma list_loop_fds [fds_keeps]: "fds_ok S l p F s \<Longrightarrow> fds_ok S l p F (snd (list_loop S dp ns tot s))"
  by (induction ns arbitrary: tot s)
     (simp_all add: Let_def case_prod_beta ftp_simps fds_keeps split: option.split)

lemma retr_loop_fds [fds_keeps]: "fds_ok S l p F s \<Longrightarrow> fds_ok S l p F (snd (retr_loop S dp bs tot s))"
  by (induction bs arbitrary: tot s) (simp_all add: fds_keeps)

lemma ftpd_list_fds [fds_keeps]: "fds_ok S l p F s \<Longrightarrow> fds_ok S l p F (ftpd_list S dp f s)"
  by (simp add: ftpd_list_def Let_def case_prod_beta ftp_simps fds_keeps split: option.split)

lemma ftpd_pasv_fds [fds_keeps]: "fds_ok S l p F s \<Longrightarrow> fds_ok S l p F (ftpd_pasv S cs dp s)"
  by (simp add: ftpd_pasv_def Let_def fds_keeps split: option.split)

text \<open>Opening a file, working with it and closing it.\<close>

lemma with_file_fds:
  assumes "fresh_fds S" "fds_ok S l p F s" "opens c" "os_ret S (trace s) c \<ge> 0"
    and "\<And>G. fds_ok S l p G (run_call S c s) \<Longrightarrow> fds_ok S l p G s'"
  shows "fds_ok S l p F (run_call S (Close (os_ret S (trace s) c)) s')"
proof -
  note n = open_fds_new [OF assms(1-4)]
  have "fds_ok S l p (insert (os_ret S (trace s) c) F - {os_ret S (trace s) c})
          (run_call S (Close (os_ret S (trace s) c)) s')"
    using assms(5) [OF n(1)] by (intro close_fds) simp_all
  then show ?thesis using n(2) by simp
qed

lemma ftpd_stor_fds [fds_keeps]:
  assumes "fresh_fds S" "fds_ok S l p F s" shows "fds_ok S l p F (ftpd_stor S dp f s)"
proof -
  let ?s1 = "run_call S (Stat f) s"
  let ?s2 = "net_printf S (bytes ''150 Ready to download '' @ f @ [10]) ?s1"
  let ?r = "os_ret S (trace ?s2) (Open_write f)" and ?s3 = "run_call S (Open_write f) ?s2"
  have 1: "fds_ok S l p F ?s1" and 2: "fds_ok S l p F ?s2" using assms(2) by (simp_all add: fds_keeps)
  have 3: "?r < 0 \<Longrightarrow> fds_ok S l p F (net_printf S t ?s3)" for t
    by (intro net_printf_fds open_fds_fail 2) simp_all
  have 4: "\<not> ?r < 0 \<Longrightarrow> fds_ok S l p F (net_printf S t (run_call S (Close ?r)
      (snd (snd (stor_loop S ?r (fst (os_recv S (trace ?s3) dp)) 0 0 ?s3)))))" for t
    by (intro net_printf_fds with_file_fds [OF assms(1) 2] stor_loop_fds) simp_all
  show ?thesis
    using assms(2) net_printf_fds [OF 1] 3 4 unfolding ftpd_stor_def Let_def case_prod_beta call_simps by auto
qed

lemma ftpd_retr_fds [fds_keeps]:
  assumes "fresh_fds S" "fds_ok S l p F s" shows "fds_ok S l p F (ftpd_retr S dp f s)"
proof -
  let ?s1 = "run_call S (Stat f) s"
  let ?s2 = "net_printf S (bytes ''150 Ready to download '' @ f @ [10]) ?s1"
  let ?r = "os_ret S (trace ?s2) (Open_read f)" and ?s3 = "run_call S (Open_read f) ?s2"
  have 1: "fds_ok S l p F ?s1" and 2: "fds_ok S l p F ?s2" using assms(2) by (simp_all add: fds_keeps)
  have 3: "?r < 0 \<Longrightarrow> fds_ok S l p F (net_printf S t ?s3)" for t
    by (intro net_printf_fds open_fds_fail 2) simp_all
  have 4: "\<not> ?r < 0 \<Longrightarrow> fds_ok S l p F (net_printf S t (run_call S (Close ?r)
      (snd (retr_loop S dp (os_file S (trace ?s3) ?r) 0 ?s3))))" for t
    by (intro net_printf_fds with_file_fds [OF assms(1) 2] retr_loop_fds) simp_all
  show ?thesis
    using assms(2) net_printf_fds [OF 1] ftpd_list_fds [OF 1] 3 4
    unfolding ftpd_retr_def Let_def case_prod_beta call_simps by (auto split: option.split)
qed

text \<open>The descriptors of a session between its steps: the listener and the data connection.\<close>

definition conns :: "int \<Rightarrow> int \<Rightarrow> int set" where
  "conns l p = {d \<in> {l, p}. d > 0}"

definition conns_ok :: "os \<Rightarrow> ftpd \<Rightarrow> bool" where
  "conns_ok S s \<longleftrightarrow> fds_ok S (datal s) (datap s) (conns (datal s) (datap s)) s
     \<and> (datal s > 0 \<longrightarrow> datal s \<noteq> datap s) \<and> datap s \<noteq> 0"

lemma conns_okI: "fds_ok S l p (conns l p) s \<Longrightarrow> (l > 0 \<longrightarrow> l \<noteq> p) \<Longrightarrow> p \<noteq> 0 \<Longrightarrow> conns_ok S s"
  by (auto simp: conns_ok_def fds_ok_def)

lemma conns_okE:
  assumes "conns_ok S s"
  obtains l p where "datal s = l" "datap s = p" "fds_ok S l p (conns l p) s" "l > 0 \<longrightarrow> l \<noteq> p" "p \<noteq> 0"
  using assms by (simp add: conns_ok_def)

lemma conns_minus:
  assumes "l > 0 \<longrightarrow> l \<noteq> p"
  shows "conns l p - {p} = conns l (-1)" "conns l p - {l} = conns (-1) p" "conns (-1) p - {p} = {}"
  using assms unfolding conns_def by auto

lemma close_if:
  assumes "fds_ok S l p F s" "d > 0 \<longleftrightarrow> d \<in> F"
  shows "fds_ok S l p (F - {d}) (if d > 0 then run_call S (Close d) s else s)"
  using assms close_fds [OF assms(1), of d] by (cases "d > 0") simp_all

lemma drop_datap:
  assumes "fds_ok S l p (conns l p) s" "l > 0 \<longrightarrow> l \<noteq> p"
  shows "fds_ok S l p (conns l (-1)) (if p > 0 then run_call S (Close p) s else s)"
  using close_if [OF assms(1), of p] unfolding conns_minus(1) [OF assms(2)] by (simp add: conns_def)

lemma drop_datal:
  assumes "fds_ok S l p (conns l p) s" "l > 0 \<longrightarrow> l \<noteq> p"
  shows "fds_ok S l p (conns (-1) p) (if l > 0 then run_call S (Close l) s else s)"
  using close_if [OF assms(1), of l] unfolding conns_minus(2) [OF assms(2)] by (simp add: conns_def)

lemma drop_both:
  assumes "fds_ok S l p (conns l p) s" "l > 0 \<longrightarrow> l \<noteq> p"
  shows "fds_ok S l p {} (if p > 0 then run_call S (Close p) (if l > 0 then run_call S (Close l) s else s)
                          else if l > 0 then run_call S (Close l) s else s)"
  using close_if [OF drop_datal [OF assms], of p] unfolding conns_minus(3) [OF assms(2)]
  by (simp add: conns_def)

lemma close_datap_conns:
  assumes "fds_ok S l p (conns l p) s" "l > 0 \<longrightarrow> l \<noteq> p" "p \<noteq> 0"
  shows "conns_ok S (close_datap S s)"
proof -
  have p: "datap s = p" "(p \<ge> 0) = (p > 0)" using assms by (auto simp: fds_ok_def)
  have "fds_ok S l (-1) (conns l (-1)) (close_datap S s)" if "p > 0"
    using update_fds(1) [OF drop_datap [OF assms(1,2)]] that p by (simp add: close_datap_def)
  then show ?thesis
    using assms p by (cases "p > 0") (auto intro: conns_okI simp: close_datap_def)
qed

lemma openlistener_conns:
  assumes "fresh_fds S" "fds_ok S l p F s"
  shows "\<exists>fd s'. ftpd_openlistener S n port s = (fd, s') \<and> (if fd < 0 then fds_ok S l p F s'
           else fd > 0 \<and> fd \<notin> F \<and> fds_ok S l p (insert fd F) s')"
proof (cases "os_ret S (trace s) Socket < 0")
  case True
  then show ?thesis
    using open_fds_fail [OF assms(2), of Socket] by (simp add: ftpd_openlistener_def call_def run_call_def)
next
  case False
  let ?fd = "os_ret S (trace s) Socket" and ?s1 = "run_call S Socket s"
  have n: "fds_ok S l p (insert ?fd F) ?s1" "?fd \<notin> F" "?fd > 0"
    using open_fds_new [OF assms, of Socket] False by simp_all
  have c: "fds_ok S l p (insert ?fd F) s' \<Longrightarrow> fds_ok S l p F (run_call S (Close ?fd) s')" for s'
    using close_fds [of S l p "insert ?fd F" s' ?fd] n(2) by simp
  let ?s2 = "run_call S (Bind ?fd port) ?s1" and ?s3 = "run_call S (Listen ?fd n) (run_call S (Bind ?fd port) ?s1)"
  have "fds_ok S l p (insert ?fd F) ?s2" "fds_ok S l p (insert ?fd F) ?s3" using n(1) by (simp_all add: fds_keeps)
  then show ?thesis
    using False n c by (simp add: ftpd_openlistener_def Let_def case_prod_beta call_simps)
qed

lemma pasv_conns:
  assumes "fresh_fds S" "fds_ok S l p (conns l p) s" "l > 0 \<longrightarrow> l \<noteq> p"
  shows "conns_ok S (pasv_cmd S cs s)"
proof -
  have lp: "datal s = l" "datap s = p" using assms(2) by (simp_all add: fds_ok_def)
  let ?s1 = "if l > 0 then run_call S (Close l) s else s"
  let ?s2 = "if p > 0 then run_call S (Close p) ?s1 else ?s1"
  have 2: "fds_ok S l p {} ?s2" by (rule drop_both [OF assms(2,3)])
  have 3: "fds_ok S l (-1) {} (?s2\<lparr>datap := -1\<rparr>)" by (rule update_fds(1) [OF 2])
  obtain fd s3 where s3: "ftpd_openlistener S 1 0 (?s2\<lparr>datap := -1\<rparr>) = (fd, s3)"
      "if fd < 0 then fds_ok S l (-1) {} s3 else fd > 0 \<and> fds_ok S l (-1) {fd} s3"
    using openlistener_conns [OF assms(1) 3, of 1 0] by auto
  have "fds_ok S fd (-1) (conns fd (-1)) (s3\<lparr>datal := fd\<rparr>)"
  proof -
    have "conns fd (-1) = (if fd < 0 then {} else {fd})" if "fd < 0 \<or> fd > 0" using that by (auto simp: conns_def)
    then show ?thesis using s3(2) by (intro update_fds(2) [where l = l]) (auto split: if_splits)
  qed
  then have "fds_ok S fd (-1) (conns fd (-1)) (ftpd_pasv S cs fd (s3\<lparr>datal := fd\<rparr>))" by (simp add: fds_keeps)
  moreover have "pasv_cmd S cs s = ftpd_pasv S cs fd (s3\<lparr>datal := fd\<rparr>)"
    using s3(1) lp by (cases "l > 0"; cases "p > 0") (simp_all add: pasv_cmd_def Let_def ftp_simps)
  ultimately show ?thesis by (auto intro!: conns_okI [where l = fd and p = "-1"])
qed

lemma session_conns:
  assumes "fresh_fds S" "conns_ok S s"
  shows "conns_ok S (login_cmd S cs c arg s)"
    "logout_cmd S c arg s = Ret s' \<Longrightarrow> conns_ok S s'"
proof -
  obtain l p where lp: "datal s = l" "datap s = p" "fds_ok S l p (conns l p) s" "l > 0 \<longrightarrow> l \<noteq> p" "p \<noteq> 0"
    using assms(2) by (rule conns_okE)
  have P: "conns_ok S s'" if "fds_ok S l p (conns l p) s'" for s'
    using that lp(4,5) by (rule conns_okI)
  have C: "conns_ok S (close_datap S s')" if "fds_ok S l p (conns l p) s'" for s'
    by (rule close_datap_conns [OF that lp(4,5)])
  have T: "conns_ok S (try_call S x good ok s)" if "\<not> opens x" "\<forall>fd. x \<noteq> Close fd" for x good ok
    unfolding try_call_def Let_def case_prod_beta call_simps
    by (intro P net_printf_fds run_call_fds lp(3) that)
  have R: "conns_ok S (net_printf S t s)" "conns_ok S (net_printf S t (s\<lparr>rnfr := x\<rparr>))"
    "conns_ok S (net_printf S t (s\<lparr>username := x\<rparr>))" "conns_ok S (net_printf S t (run_call S Getcwd s))" for t x
    by (intro P net_printf_fds; simp add: lp(3) fds_keeps)+
  show "conns_ok S (login_cmd S cs c arg s)"
    using R T pasv_conns [OF assms(1) lp(3,4)]
      C [OF ftpd_list_fds [OF lp(3)]] C [OF ftpd_retr_fds [OF assms(1) lp(3)]] C [OF ftpd_stor_fds [OF assms(1) lp(3)]]
    by (cases c) (simp_all add: login_cmd_def Let_def)
  have A: "conns_ok S (anonymous_login S s)"
    unfolding anonymous_login_def Let_def case_prod_beta call_simps
    using lp(3) by (auto split: option.split intro!: P fds_keeps simp: update_fds)
  have U: "conns_ok S s'" if "user_login S arg s = Ret s'" for s'
    using that lp(3) unfolding user_login_def Let_def case_prod_beta call_simps
    by (auto split: option.split_asm if_splits intro!: P fds_keeps simp: update_fds)
  show "logout_cmd S c arg s = Ret s' \<Longrightarrow> conns_ok S s'"
    using R A U by (cases c) (auto simp: logout_cmd_def split: if_splits)
qed

lemma ftpd_exec_conns:
  assumes "fresh_fds S" "conns_ok S s" "ftpd_exec S cs c arg s = Ret (q, s')"
  shows "conns_ok S s'"
proof -
  have p: "conns_ok S (net_printf S t s)" for t
    using assms(2) by (auto elim!: conns_okE intro!: conns_okI fds_keeps)
  show ?thesis
  proof (cases "c \<in> {CMD_ERR, CMD_QUIT, CMD_NOOP, CMD_FEAT}")
    case True
    then show ?thesis using assms(3) p by (auto simp: ftpd_exec_def)
  next
    case False
    then have "ftpd_exec S cs c arg s = (if \<not> logged_in s then res_map (Pair False) (logout_cmd S c arg s)
         else Ret (False, login_cmd S cs c arg s))"
      by (cases c) (simp_all add: ftpd_exec_def)
    then show ?thesis
      using assms(3) session_conns(1) [OF assms(1,2), of cs c arg] session_conns(2) [OF assms(1,2), of c arg s']
      by (cases "logged_in s"; cases "logout_cmd S c arg s") auto
  qed
qed

lemma ftpd_cmd_conns:
  assumes "fresh_fds S" "conns_ok S s" "ftpd_cmd S cs s = Ret (q, s')"
  shows "conns_ok S s'"
proof -
  obtain line rest where l: "net_getline (inp s) FTP_MAX [] = Ret (line, rest)"
      "(case line of None \<Rightarrow> Ret (True, net_printf S (msg ''520 Connection Problem'') (s\<lparr>inp := rest\<rparr>))
        | Some buf \<Rightarrow> res_bind (parse_line buf)
            (\<lambda>(cmd, arg). ftpd_exec S cs (decode_cmd cmd) arg (s\<lparr>inp := rest\<rparr>))) = Ret (q, s')"
    using assms(3) unfolding ftpd_cmd_def res_bind_Ret_iff Let_def by auto
  have i: "conns_ok S (s\<lparr>inp := rest\<rparr>)" using assms(2) by (simp add: conns_ok_def fds_ok_def)
  show ?thesis
  proof (cases line)
    case None
    then show ?thesis using l(2) i by (auto elim!: conns_okE intro!: conns_okI fds_keeps)
  next
    case (Some buf)
    then obtain cmd arg where "ftpd_exec S cs (decode_cmd cmd) arg (s\<lparr>inp := rest\<rparr>) = Ret (q, s')"
      using l(2) by (cases "parse_line buf") auto
    then show ?thesis by (rule ftpd_exec_conns [OF assms(1) i])
  qed
qed

lemma session_step_conns:
  assumes "fresh_fds S" "conns_ok S s" "session_step S cs e s = Ret (q, s')"
  shows "conns_ok S s'"
proof -
  obtain l p where lp: "datal s = l" "datap s = p" "fds_ok S l p (conns l p) s" "l > 0 \<longrightarrow> l \<noteq> p" "p \<noteq> 0"
    using assms(2) by (rule conns_okE)
  show ?thesis
  proof (cases "\<exists>dl c. e = Sel_ready dl c \<and> l > 0 \<and> dl")
    case True
    let ?s1 = "if p > 0 then run_call S (Close p) s else s" and ?a = "Accept l"
    let ?fd = "os_ret S (trace ?s1) ?a"
    have 1: "fds_ok S l p (conns l (-1)) ?s1" by (rule drop_datap [OF lp(3,4)])
    have s': "s' = (run_call S ?a ?s1)\<lparr>datap := ?fd\<rparr>"
      using True assms(3) lp(1,2)
      by (auto simp: session_step_def ftpd_accept_def Let_def case_prod_beta call_simps)
    show ?thesis
    proof (cases "?fd < 0")
      case t: True
      have "fds_ok S l p (conns l (-1)) (run_call S ?a ?s1)" by (rule open_fds_fail [OF 1]) (use t in simp_all)
      moreover have "conns l (-1) = conns l ?fd" using t unfolding conns_def by auto
      ultimately show ?thesis
        unfolding s' using True t by (intro conns_okI [where l = l and p = ?fd]) (auto intro: update_fds(1))
    next
      case f: False
      then have n: "fds_ok S l p (insert ?fd (conns l (-1))) (run_call S ?a ?s1)" "?fd \<notin> conns l (-1)" "?fd > 0"
        using open_fds_new [OF assms(1) 1, of ?a] by simp_all
      have "insert ?fd (conns l (-1)) = conns l ?fd" using n(3) unfolding conns_def by auto
      then show ?thesis
        unfolding s' using True n by (intro conns_okI [where l = l and p = ?fd])
          (auto simp: conns_def intro: update_fds(1))
    qed
  next
    case False
    then show ?thesis
      using assms lp ftpd_cmd_conns [OF assms(1,2)]
      by (auto simp: session_step_def split: select_result.split_asm if_splits
          intro!: conns_okI [where l = l and p = p] fds_keeps)
  qed
qed

lemma session_loop_conns:
  assumes "fresh_fds S"
  shows "conns_ok S s \<Longrightarrow> session_loop S cs evs s = Ret (q, s') \<Longrightarrow>
    closes_open S (trace s') \<and> (q \<longrightarrow> open_fds S (trace s') = {})"
proof (induction evs arbitrary: s)
  case Nil
  then show ?case by (simp add: conns_ok_def fds_ok_def)
next
  case (Cons e es)
  obtain q1 s1 where s1: "session_step S cs e s = Ret (q1, s1)"
      "(if q1 then Ret (True, session_end S s1) else session_loop S cs es s1) = Ret (q, s')"
    using Cons.prems(2) by (auto simp: res_bind_Ret_iff)
  have ok: "conns_ok S s1" by (rule session_step_conns [OF assms Cons.prems(1) s1(1)])
  show ?case
  proof (cases q1)
    case True
    obtain l p where lp: "datal s1 = l" "datap s1 = p" "fds_ok S l p (conns l p) s1" "l > 0 \<longrightarrow> l \<noteq> p"
      using ok by (rule conns_okE)
    then show ?thesis
      using drop_both [OF lp(3,4)] s1(2) True lp(1,2)
      by (cases "l > 0"; cases "p > 0") (simp_all add: session_end_def Let_def fds_ok_def ftp_simps)
  next
    case False
    then show ?thesis using Cons.IH [OF ok] s1(2) by simp
  qed
qed

text \<open>C40.
  A session closes every file and connection it opened, whether the client quits, goes silent or
  breaks off in a transfer, and never closes a descriptor it does not have.
\<close>

theorem ftpd_descriptors_balanced:
  assumes "fresh_fds S" "ftpd_session S cs an input evs = Ret (q, s)"
  shows "closes_open S (trace s) \<and> (q \<longrightarrow> open_fds S (trace s) = {})"
proof (rule session_loop_conns [OF assms(1)])
  show "conns_ok S (session_start S an input)"
    by (simp add: session_start_def conns_ok_def fds_ok_def conns_def ftp_simps)
  show "session_loop S cs evs (session_start S an input) = Ret (q, s)"
    using assms(2) by (simp add: ftpd_session_def)
qed

section \<open>Witnesses\<close>

text \<open>
  A system on which every call succeeds, a new descriptor is one above those in use, and user \<open>u\<close>
  has the encrypted password \<open>x\<close>, which is that of every password.
\<close>

fun next_fd :: "ftp_call list \<Rightarrow> int" where
  "next_fd [] = 3"
| "next_fd (c # tr) = next_fd tr + 1"

definition demo_os :: os where
  "demo_os = \<lparr>os_ret = (\<lambda>tr c. if opens c then next_fd tr else 0), os_stat = (\<lambda>_ _. None), os_dir = (\<lambda>_ _. None),
     os_cwd = (\<lambda>_. bytes ''/''), os_recv = (\<lambda>_ _. ([[1, 2]], False)), os_file = (\<lambda>_ _. []), os_sockname = (\<lambda>_ _. Some (0x0100007f, 1234)),
     os_now = 0, os_strftime = (\<lambda>_ _. []), os_passwd = (\<lambda>n. if n = [117] then Some ([120], 1000) else None),
     os_crypt = (\<lambda>_ _. Some [120])\<rparr>"

definition demo_input :: "byte list" where
  "demo_input = msg ''USER u'' @ msg ''PASS p'' @ msg ''PASV'' @ msg ''STOR f'' @ msg ''QUIT''"

definition demo_events :: "select_result list" where
  "demo_events = [Sel_ready False True, Sel_ready False True, Sel_ready False True, Sel_ready True False,
                  Sel_ready False True, Sel_ready False True]"

lemma demo_fds_fresh: "fresh_fds demo_os"
proof -
  have "\<forall>fd\<in>open_fds demo_os tr. fd < next_fd tr" for tr
    by (induction tr) (auto simp: demo_os_def split: ftp_call.splits)
  moreover have "next_fd tr > 0" for tr by (induction tr) auto
  ultimately show ?thesis by (force simp: fresh_fds_def demo_os_def)
qed

lemma demo_session_runs:
  "res_map (\<lambda>(q, s). (q, length (trace s), logged_in s))
     (ftpd_session demo_os 4 None demo_input demo_events) = Ret (True, 19, True)"
  by code_simp

lemma demo_session_returns:
  obtains s where "ftpd_session demo_os 4 None demo_input demo_events = Ret (True, s)" "length (trace s) = 19"
    "logged_in s"
  using demo_session_runs by (auto simp: res_map_Ret_iff)

theorem ftpd_nothing_before_login_witness:
  "\<exists>s. ftpd_session demo_os 4 None demo_input demo_events = Ret (True, s) \<and> logged_in s
     \<and> length (trace s) = 19 \<and> (\<exists>cs. has_read demo_input cs (inp s) \<and> guarded demo_os None cs (trace s))"
  using demo_session_returns ftpd_nothing_before_login by metis

theorem ftpd_descriptors_balanced_witness:
  "\<exists>s. ftpd_session demo_os 4 None demo_input demo_events = Ret (True, s)
     \<and> closes_open demo_os (trace s) \<and> open_fds demo_os (trace s) = {}"
  using demo_session_returns ftpd_descriptors_balanced [OF demo_fds_fresh] by metis

theorem ftpd_line_length_witness:
  "ftpd_cmd demo_os 4 ((session_start demo_os None [])\<lparr>inp := replicate 1024 97 @ [10]\<rparr>) = Fault"
  using ftpd_line_length [where cs = "replicate 1024 97" and S = demo_os and fd = 4
      and s = "session_start demo_os None []" and rest = "[10]"] by simp

end
