(* ===== verification/Jtag.thy ===== *)
theory Jtag
  imports Prelude
begin

text \<open>
  The lowest layers of the flash programmer of \<^verbatim>\<open>devtools/sharpflash\<close>: the parallel port
  (\<^verbatim>\<open>ppt.c\<close>, as built on Linux with \<^verbatim>\<open>LINUX_PPDEV\<close>) and the JTAG cable on it (\<^verbatim>\<open>jtag.c\<close>, in its
  default pinout).  The port driver and whatever hangs on the cable are a parameter.
\<close>

section \<open>The parallel port\<close>

datatype pp_request = PPCLAIM | PPSETMODE | PPNEGOT

text \<open>
  \<open>'w\<close> is the state of the world behind the port.  \<open>validPpt\<close> is the descriptor of the opened
  port; the other fields are what the calls of the driver do: \<open>pp_data\<close> is \<open>ioctl(fd, PPWDATA, \<dots>)\<close>,
  \<open>pp_status\<close> is \<open>ioctl(fd, PPRSTATUS, \<dots>)\<close>, which only reads.
\<close>

record 'w port =
  validPpt :: int
  pp_open :: "byte list \<Rightarrow> 'w \<Rightarrow> int \<times> 'w"
  pp_ioctl :: "int \<Rightarrow> pp_request \<Rightarrow> 'w \<Rightarrow> int \<times> 'w"
  pp_data :: "int \<Rightarrow> int \<Rightarrow> 'w \<Rightarrow> 'w"
  pp_status :: "int \<Rightarrow> 'w \<Rightarrow> int"

definition OutputPpt :: "'w port \<Rightarrow> byte \<Rightarrow> 'w \<Rightarrow> 'w" where
  "OutputPpt P v w = pp_data P (validPpt P) (uint v) w"

definition InputPpt :: "'w port \<Rightarrow> 'w \<Rightarrow> byte" where
  "InputPpt P w = word_of_int (pp_status P (validPpt P) w AND 0xff)"

definition printer_ports :: "int list" where
  "printer_ports = [0x378, 0x278, 0x3bc]"

text \<open>The number that is returned, and the new base address.\<close>

definition SetPrinterNumber :: "int \<Rightarrow> int \<Rightarrow> int \<times> int" where
  "SetPrinterNumber num base =
     (if num < 1 \<or> num > 3 then (0, base) else (1, printer_ports ! nat (num - 1)))"

fun port_index :: "int list \<Rightarrow> int \<Rightarrow> int \<Rightarrow> int" where
  "port_index [] i base = -1"
| "port_index (p # ps) i base = (if p = base then i else port_index ps (i + 1) base)"

definition GetPrinterIndex :: "int \<Rightarrow> int" where
  "GetPrinterIndex base = port_index printer_ports 0 base"

definition ConfigureParallelPort :: "'w port \<Rightarrow> int \<Rightarrow> 'w \<Rightarrow> ('w port \<times> 'w) res" where
  "ConfigureParallelPort P base w =
     (let k = GetPrinterIndex base
      in if k < 0 then Exit
         else
           let (ppt, w) = pp_open P (bytes ''/dev/parport'' @ dec_int k) w
           in if ppt < 0 then Exit
              else
                let (j, w) = pp_ioctl P ppt PPCLAIM w
                in if j < 0 then Exit
                   else
                     let (i, w) = pp_ioctl P ppt PPSETMODE w
                     in if i < 0 then Exit
                        else
                          let (i, w) = pp_ioctl P ppt PPNEGOT w
                          in if i < 0 then Exit else Ret (P\<lparr>validPpt := ppt\<rparr>, w))"

section \<open>The pins of the cable\<close>

definition TMS_H :: "32 word" where "TMS_H = push_bit 1 1"
definition TCK_H :: "32 word" where "TCK_H = push_bit 2 1"
definition TDI_H :: "32 word" where "TDI_H = push_bit 3 1"
definition TMS_L :: "32 word" where "TMS_L = 0"
definition TCK_L :: "32 word" where "TCK_L = 0"
definition TDI_L :: "32 word" where "TDI_L = 0"

definition LOW :: byte where "LOW = 48"
definition HIGH :: byte where "HIGH = 49"

definition JTAG_SET :: "'w port \<Rightarrow> 32 word \<Rightarrow> 'w \<Rightarrow> 'w" where
  "JTAG_SET P v w = OutputPpt P (ucast v) w"

definition JTAG_GET_TDO :: "'w port \<Rightarrow> 'w \<Rightarrow> byte" where
  "JTAG_GET_TDO P w = (if InputPpt P w AND push_bit 7 1 \<noteq> 0 then LOW else HIGH)"

text \<open>
  Every function of \<^verbatim>\<open>jtag.c\<close> is a sequence of such pairs of \<^verbatim>\<open>JTAG_SET\<close>: the clock low, then high,
  with the same values of TDI and TMS.
\<close>

definition jtag_clk :: "'w port \<Rightarrow> 32 word \<Rightarrow> 32 word \<Rightarrow> 'w \<Rightarrow> 'w" where
  "jtag_clk P tdi tms w = JTAG_SET P (tdi OR tms OR TCK_H) (JTAG_SET P (tdi OR tms OR TCK_L) w)"

fun jtag_clks :: "'w port \<Rightarrow> (32 word \<times> 32 word) list \<Rightarrow> 'w \<Rightarrow> 'w" where
  "jtag_clks P [] w = w"
| "jtag_clks P ((tdi, tms) # ts) w = jtag_clks P ts (jtag_clk P tdi tms w)"

definition tdi_of :: "byte \<Rightarrow> 32 word" where
  "tdi_of c = (if c = HIGH then TDI_H else TDI_L)"

section \<open>JTAG operations\<close>

definition JTAG_Reset :: "'w port \<Rightarrow> 'w \<Rightarrow> 'w" where
  "JTAG_Reset P w = jtag_clks P
     [(TDI_H, TMS_H), (TDI_H, TMS_H), (TDI_H, TMS_H), (TDI_H, TMS_H), (TDI_H, TMS_H), (TDI_H, TMS_H)] w"

definition JTAG_RunTestldleState :: "'w port \<Rightarrow> 'w \<Rightarrow> 'w" where
  "JTAG_RunTestldleState P w =
     jtag_clks P [(TDI_H, TMS_L), (TDI_H, TMS_L), (TDI_H, TMS_L)] (JTAG_Reset P w)"

text \<open>
  The loops over the characters but the last: \<open>shift_out\<close> only writes, \<open>shift_inout\<close> samples TDO
  after each clock.
\<close>

fun shift_out :: "'w port \<Rightarrow> byte list \<Rightarrow> 'w \<Rightarrow> 'w" where
  "shift_out P [] w = w"
| "shift_out P (c # cs) w = shift_out P cs (jtag_clk P (tdi_of c) TMS_L w)"

fun shift_inout :: "'w port \<Rightarrow> byte list \<Rightarrow> 'w \<Rightarrow> byte list \<times> 'w" where
  "shift_inout P [] w = ([], w)"
| "shift_inout P (c # cs) w =
     (let w = jtag_clk P (tdi_of c) TMS_L w; r = JTAG_GET_TDO P w; (rs, w) = shift_inout P cs w
      in (r # rs, w))"

text \<open>
  The last character, \<open>wr[i]\<close> after the loop, is shifted with TMS high.  Of an empty string it is the
  NUL.
\<close>

definition JTAG_ShiftIRState :: "'w port \<Rightarrow> byte list \<Rightarrow> 'w \<Rightarrow> 'w res" where
  "JTAG_ShiftIRState P wrIR w =
     (let w = jtag_clks P [(TDI_H, TMS_H), (TDI_H, TMS_H), (TDI_H, TMS_L), (TDI_H, TMS_L)] w
      in res_bind (strlen wrIR) (\<lambda>size.
         let i = nat (size - 1); w = shift_out P (take i wrIR) w
         in res_bind (rd wrIR (int i)) (\<lambda>c.
            Ret (jtag_clks P [(tdi_of c, TMS_H), (TDI_H, TMS_H), (TDI_H, TMS_L)] w))))"

definition JTAG_ShiftDRState ::
  "'w port \<Rightarrow> byte list \<Rightarrow> byte list \<Rightarrow> 'w \<Rightarrow> (byte list \<times> 'w) res" where
  "JTAG_ShiftDRState P wrDR rdDR w =
     (let w = jtag_clks P [(TDI_H, TMS_H), (TDI_H, TMS_L), (TDI_H, TMS_L)] w
      in res_bind (strlen wrDR) (\<lambda>size.
         let i = nat (size - 1); (rs, w) = shift_inout P (take i wrDR) w
         in if length rdDR \<le> i then Fault
            else res_bind (rd wrDR (int i)) (\<lambda>c.
                 let w = jtag_clk P (tdi_of c) TMS_H w; r = JTAG_GET_TDO P w
                 in Ret (rs @ r # drop (Suc i) rdDR,
                         jtag_clks P [(TDI_H, TMS_H), (TDI_H, TMS_L)] w))))"

definition JTAG_ShiftDRStateNoTDO :: "'w port \<Rightarrow> byte list \<Rightarrow> 'w \<Rightarrow> 'w res" where
  "JTAG_ShiftDRStateNoTDO P wrDR w =
     (let w = jtag_clks P [(TDI_H, TMS_H), (TDI_H, TMS_L), (TDI_H, TMS_L)] w
      in res_bind (strlen wrDR) (\<lambda>size.
         let i = nat (size - 1); w = shift_out P (take i wrDR) w
         in res_bind (rd wrDR (int i)) (\<lambda>c.
            Ret (jtag_clks P [(tdi_of c, TMS_H), (TDI_H, TMS_H), (TDI_H, TMS_L)] w))))"

text \<open>The loop that puts the bits together, from \<open>id[31]\<close> down to \<open>id[0]\<close>.\<close>

fun id_bits :: "nat \<Rightarrow> byte list \<Rightarrow> 32 word \<Rightarrow> 32 word" where
  "id_bits 0 ds id32 = id32"
| "id_bits (Suc i) ds id32 = id_bits i ds (if ds ! i = HIGH then id32 OR push_bit i 1 else id32)"

definition JTAG_ReadId :: "'w port \<Rightarrow> 'w \<Rightarrow> 32 word \<times> 'w" where
  "JTAG_ReadId P w =
     (let w = JTAG_Reset P w;
          w = jtag_clks P [(TDI_H, TMS_L), (TDI_H, TMS_L), (TDI_H, TMS_L), (TDI_H, TMS_L),
                (TDI_H, TMS_H), (TDI_H, TMS_H), (TDI_H, TMS_L), (TDI_H, TMS_L)] w;
          w = jtag_clks P [(TDI_L, TMS_L), (TDI_H, TMS_L), (TDI_H, TMS_L), (TDI_H, TMS_H)] w;
          w = jtag_clks P [(TDI_H, TMS_H), (TDI_H, TMS_H), (TDI_H, TMS_L), (TDI_H, TMS_L)] w;
          (ds, w) = shift_inout P (replicate 31 HIGH) w;
          w = jtag_clk P TDI_H TMS_H w;
          d = JTAG_GET_TDO P w;
          w = jtag_clks P [(TDI_H, TMS_H), (TDI_H, TMS_L), (TDI_H, TMS_L), (TDI_H, TMS_L)] w
      in (id_bits 32 (ds @ [d]) 0, w))"

end
