(* ===== verification/Jtag_Tap.thy ===== *)
theory Jtag_Tap
  imports Jtag
begin

text \<open>
  What \<^verbatim>\<open>jtag.c\<close> relies on, and what it achieves: a processor with a test access port as IEEE 1149.1
  describes it at the end of the cable, and the effect of the operations on its registers.
\<close>

section \<open>The test access port\<close>

datatype tap =
    Test_Logic_Reset | Run_Test_Idle
  | Select_DR | Capture_DR | Shift_DR | Exit1_DR | Pause_DR | Exit2_DR | Update_DR
  | Select_IR | Capture_IR | Shift_IR | Exit1_IR | Pause_IR | Exit2_IR | Update_IR

text \<open>The state after a rising edge of the clock, by the level of TMS.\<close>

fun tap_next :: "tap \<Rightarrow> bool \<Rightarrow> tap" where
  "tap_next Test_Logic_Reset tms = (if tms then Test_Logic_Reset else Run_Test_Idle)"
| "tap_next Run_Test_Idle tms = (if tms then Select_DR else Run_Test_Idle)"
| "tap_next Select_DR tms = (if tms then Select_IR else Capture_DR)"
| "tap_next Capture_DR tms = (if tms then Exit1_DR else Shift_DR)"
| "tap_next Shift_DR tms = (if tms then Exit1_DR else Shift_DR)"
| "tap_next Exit1_DR tms = (if tms then Update_DR else Pause_DR)"
| "tap_next Pause_DR tms = (if tms then Exit2_DR else Pause_DR)"
| "tap_next Exit2_DR tms = (if tms then Update_DR else Shift_DR)"
| "tap_next Update_DR tms = (if tms then Select_DR else Run_Test_Idle)"
| "tap_next Select_IR tms = (if tms then Test_Logic_Reset else Capture_IR)"
| "tap_next Capture_IR tms = (if tms then Exit1_IR else Shift_IR)"
| "tap_next Shift_IR tms = (if tms then Exit1_IR else Shift_IR)"
| "tap_next Exit1_IR tms = (if tms then Update_IR else Pause_IR)"
| "tap_next Pause_IR tms = (if tms then Exit2_IR else Pause_IR)"
| "tap_next Exit2_IR tms = (if tms then Update_IR else Shift_IR)"
| "tap_next Update_IR tms = (if tms then Select_DR else Run_Test_Idle)"

text \<open>
  The instructions, first bit shifted first, by what they select: \<open>EXTEST\<close> and \<open>SAMPLE\<close> the boundary
  cells, \<open>IDCODE\<close> the identification, all others the bypass bit.
\<close>

datatype instr = Extest | Sample | Idcode | Bypass

definition decode_instr :: "bool list \<Rightarrow> instr" where
  "decode_instr bs =
     (if bs = [False, False, False, False] then Extest
      else if bs = [True, True, False, False] then Sample
      else if bs = [False, True, True, True] then Idcode else Bypass)"

text \<open>
  The board around the processor: the levels that can be captured in its cells, what driving the
  cells does, and the identification of the processor.
\<close>

record 'e board =
  pins :: "'e \<Rightarrow> bool list"
  drive :: "bool list \<Rightarrow> 'e \<Rightarrow> 'e"
  idcode :: "32 word"

text \<open>
  \<open>c_shift\<close> is the register between TDI and TDO, the bit at TDO first; \<open>c_latch\<close> are the levels last
  updated into the boundary cells.
\<close>

record 'e chip =
  c_tck :: bool
  c_tap :: tap
  c_tdo :: bool
  c_shift :: "bool list"
  c_instr :: instr
  c_latch :: "bool list"
  c_env :: 'e

definition id_list :: "32 word \<Rightarrow> bool list" where
  "id_list v = map (bit v) [0..<32]"

definition captured :: "'e board \<Rightarrow> 'e chip \<Rightarrow> bool list" where
  "captured B c =
     (case c_instr c of Extest \<Rightarrow> pins B (c_env c) | Sample \<Rightarrow> pins B (c_env c)
      | Idcode \<Rightarrow> id_list (idcode B) | Bypass \<Rightarrow> [False])"

text \<open>
  The rising edge captures, shifts and moves to the next state; the falling edge brings the next bit
  to TDO and updates the instruction or the boundary cells.
\<close>

definition tap_rise :: "'e board \<Rightarrow> bool \<Rightarrow> bool \<Rightarrow> 'e chip \<Rightarrow> 'e chip" where
  "tap_rise B tdi tms c =
     c\<lparr>c_tck := True, c_tap := tap_next (c_tap c) tms,
       c_shift :=
         (case c_tap c of
            Capture_DR \<Rightarrow> captured B c
          | Capture_IR \<Rightarrow> [True, False, False, False]
          | Shift_DR \<Rightarrow> tl (c_shift c) @ [tdi]
          | Shift_IR \<Rightarrow> tl (c_shift c) @ [tdi]
          | _ \<Rightarrow> c_shift c)\<rparr>"

definition drive_pins :: "'e board \<Rightarrow> 'e chip \<Rightarrow> 'e chip" where
  "drive_pins B c =
     (if c_instr c = Extest then c\<lparr>c_env := drive B (c_latch c) (c_env c)\<rparr> else c)"

definition tap_fall :: "'e board \<Rightarrow> 'e chip \<Rightarrow> 'e chip" where
  "tap_fall B c =
     (let c = c\<lparr>c_tck := False\<rparr>
      in case c_tap c of
           Shift_DR \<Rightarrow> c\<lparr>c_tdo := hd (c_shift c)\<rparr>
         | Shift_IR \<Rightarrow> c\<lparr>c_tdo := hd (c_shift c)\<rparr>
         | Update_DR \<Rightarrow>
             if c_instr c = Extest \<or> c_instr c = Sample
             then drive_pins B (c\<lparr>c_latch := c_shift c\<rparr>) else c
         | Update_IR \<Rightarrow> drive_pins B (c\<lparr>c_instr := decode_instr (c_shift c)\<rparr>)
         | Test_Logic_Reset \<Rightarrow> c\<lparr>c_instr := Idcode\<rparr>
         | _ \<Rightarrow> c)"

definition tap_write :: "'e board \<Rightarrow> int \<Rightarrow> 'e chip \<Rightarrow> 'e chip" where
  "tap_write B v c =
     (if bit v 2 \<and> \<not> c_tck c then tap_rise B (bit v 3) (bit v 1) c
      else if \<not> bit v 2 \<and> c_tck c then tap_fall B c else c)"

section \<open>Clock cycles\<close>

text \<open>One pair of writes of \<^verbatim>\<open>jtag.c\<close>, seen from the port: a falling edge, unless the clock is low already,
  and a rising one.\<close>

definition tap_clk :: "'e board \<Rightarrow> bool \<Rightarrow> bool \<Rightarrow> 'e chip \<Rightarrow> 'e chip" where
  "tap_clk B tdi tms c = tap_rise B tdi tms (if c_tck c then tap_fall B c else c)"

fun tap_clks :: "'e board \<Rightarrow> (bool \<times> bool) list \<Rightarrow> 'e chip \<Rightarrow> 'e chip" where
  "tap_clks B [] c = c"
| "tap_clks B ((tdi, tms) # ts) c = tap_clks B ts (tap_clk B tdi tms c)"

lemmas tap_defs = tap_clk_def tap_rise_def tap_fall_def Let_def

lemma tap_rise_tck [simp]: "c_tck (tap_rise B d m c)"
  by (simp add: tap_rise_def)

lemma tap_fall_tck [simp]: "\<not> c_tck (tap_fall B c)"
  by (auto simp: tap_fall_def drive_pins_def Let_def split: tap.splits)

lemma tap_rise_tap [simp]: "c_tap (tap_rise B d m c) = tap_next (c_tap c) m"
  by (simp add: tap_rise_def)

lemma tap_fall_tap [simp]: "c_tap (tap_fall B c) = c_tap c"
  by (auto simp: tap_fall_def drive_pins_def Let_def split: tap.splits)

lemma tap_clk_tck [simp]: "c_tck (tap_clk B d m c)"
  by (simp add: tap_clk_def)

lemma tap_clk_tap [simp]: "c_tap (tap_clk B d m c) = tap_next (c_tap c) m"
  by (simp add: tap_clk_def)

lemma tap_next_reset:
  "tap_next (tap_next (tap_next (tap_next (tap_next t True) True) True) True) True = Test_Logic_Reset"
  by (cases t) simp_all

lemma tap_fall_reset: "c_tap c = Test_Logic_Reset \<Longrightarrow> tap_fall B c = c\<lparr>c_tck := False, c_instr := Idcode\<rparr>"
  by (simp add: tap_fall_def Let_def)

text \<open>
  In a shift state each clock takes the next bit of the register to TDO, where it is read, and the
  bit at TDI behind the last one.
\<close>

definition shifting :: "'e chip \<Rightarrow> bool" where
  "shifting c \<longleftrightarrow> c_tck c \<and> (c_tap c = Shift_DR \<or> c_tap c = Shift_IR)"

lemma clk_shifting:
  "shifting c \<Longrightarrow> tap_clk B d m c =
     c\<lparr>c_tap := tap_next (c_tap c) m, c_tdo := hd (c_shift c), c_shift := tl (c_shift c) @ [d]\<rparr>"
  by (auto simp: shifting_def tap_defs)

lemma shifting_keeps: "shifting c \<Longrightarrow> tap_next (c_tap c) False = c_tap c"
  by (auto simp: shifting_def)

text \<open>The scan of the boundary cells on the chip: capture, exchange, update.\<close>

definition boundary :: "'e chip \<Rightarrow> bool" where
  "boundary c \<longleftrightarrow> c_instr c = Extest \<or> c_instr c = Sample"

definition idle :: "'e chip \<Rightarrow> bool" where
  "idle c \<longleftrightarrow> c_tck c \<and> c_tap c = Run_Test_Idle"

lemma idle_update:
  "idle c \<Longrightarrow> c\<lparr>c_tdo := t, c_shift := bs, c_tap := Run_Test_Idle, c_latch := l\<rparr>
     = c\<lparr>c_tdo := t, c_shift := bs, c_latch := l\<rparr>"
  by (cases c) (simp add: idle_def)

lemma enter_shift_dr:
  "idle c \<Longrightarrow> tap_clks B [(True, True), (True, False), (True, False)] c
     = c\<lparr>c_tap := Shift_DR, c_shift := captured B c\<rparr>"
  by (simp add: idle_def tap_defs captured_def split: instr.split)

lemma leave_shift_dr:
  "c_tck c \<Longrightarrow> c_tap c = Exit1_DR \<Longrightarrow> boundary c \<Longrightarrow>
     tap_clks B [(True, True), (True, False)] c
     = drive_pins B (c\<lparr>c_tap := Run_Test_Idle, c_latch := c_shift c\<rparr>)"
  by (auto simp: boundary_def tap_defs drive_pins_def)

lemma enter_shift_ir:
  "idle c \<Longrightarrow> tap_clks B [(True, True), (True, True), (True, False), (True, False)] c
     = c\<lparr>c_tap := Shift_IR, c_shift := [True, False, False, False]\<rparr>"
  by (simp add: idle_def tap_defs)

lemma leave_shift_ir:
  "c_tck c \<Longrightarrow> c_tap c = Shift_IR \<Longrightarrow> bs = tl (c_shift c) @ [d] \<Longrightarrow>
     tap_clks B [(d, True), (True, True), (True, False)] c
     = drive_pins B (c\<lparr>c_tap := Run_Test_Idle, c_tdo := hd (c_shift c), c_shift := bs,
         c_instr := decode_instr bs\<rparr>)"
  by (auto simp: tap_defs drive_pins_def)

lemma enter_read_id:
  assumes "c_tck c" "c_tap c = Test_Logic_Reset"
  shows "tap_clks B [(True, True), (True, True), (True, False), (True, False)]
       (tap_clks B [(False, False), (True, False), (True, False), (True, True)]
         (tap_clks B [(True, False), (True, False), (True, False), (True, False),
                      (True, True), (True, True), (True, False), (True, False)] c))
     = c\<lparr>c_tap := Shift_DR, c_instr := Idcode, c_tdo := False, c_shift := id_list (idcode B)\<rparr>"
  using assms by (cases c) (simp add: tap_defs drive_pins_def decode_instr_def captured_def)

lemma reset_idle:
  "idle c \<Longrightarrow> tap_clk B True True (tap_clk B True True (tap_clk B True True
     (tap_clk B True True (tap_clk B True True (tap_clk B True True c)))))
     = c\<lparr>c_tap := Test_Logic_Reset, c_instr := Idcode\<rparr>"
  by (simp add: idle_def tap_defs)

lemma clk_reset: "c_tap c = Test_Logic_Reset \<Longrightarrow>
    tap_clk B True True c = c\<lparr>c_tck := True, c_instr := (if c_tck c then Idcode else c_instr c)\<rparr>"
  by (cases c) (simp add: tap_defs)

lemma reset_again:
  "c_tap c = Test_Logic_Reset \<Longrightarrow> tap_clk B True True (tap_clk B True True (tap_clk B True True
     (tap_clk B True True (tap_clk B True True (tap_clk B True True c)))))
     = c\<lparr>c_tck := True, c_instr := Idcode\<rparr>"
  by (simp add: clk_reset)

lemma exchanged:
  assumes "length ps = Suc n" "length bs = Suc n"
  shows "tl (drop n ps @ butlast bs) @ [last bs] = bs"
    and "hd (drop n ps @ xs) = last ps" "take n ps @ [last ps] = ps"
proof -
  obtain qs q where "ps = qs @ [q]"
    using assms(1) by (cases ps rule: rev_cases) auto
  moreover obtain cs c where "bs = cs @ [c]"
    using assms(2) by (cases bs rule: rev_cases) auto
  ultimately show "tl (drop n ps @ butlast bs) @ [last bs] = bs"
      "hd (drop n ps @ xs) = last ps" "take n ps @ [last ps] = ps"
    using assms by auto
qed

lemma string_last:
  assumes "0 \<in> set ws" "length (cstr ws) = Suc n"
  shows "take n ws = butlast (cstr ws)" "rd ws (int n) = Ret (last (cstr ws))"
proof -
  obtain t where "ws = cstr ws @ 0 # t"
    using cstr_cases [OF assms(1)] by blast
  moreover obtain cs c where "cstr ws = cs @ [c]"
    using assms(2) by (cases "cstr ws" rule: rev_cases) auto
  ultimately obtain cs c where "ws = cs @ c # 0 # t" "cstr ws = cs @ [c]"
    by (metis append.assoc append_Cons append_Nil)
  with assms(2) show "take n ws = butlast (cstr ws)" "rd ws (int n) = Ret (last (cstr ws))"
    by (simp_all add: rd_def nth_append)
qed

section \<open>A port with a processor on its cable\<close>

definition tdi_w :: "bool \<Rightarrow> 32 word" where "tdi_w b = (if b then TDI_H else TDI_L)"
definition tms_w :: "bool \<Rightarrow> 32 word" where "tms_w b = (if b then TMS_H else TMS_L)"

definition level :: "bool \<Rightarrow> byte" where "level b = (if b then HIGH else LOW)"

lemma bit_mask: "k < 32 \<Longrightarrow> bit (push_bit k 1 :: 32 word) n \<longleftrightarrow> n = k"
  by (auto simp: bit_exp_iff possible_bit_word)

lemma bit_pins [simp]:
  "bit (tdi_w d) n \<longleftrightarrow> n = 3 \<and> d"
  "bit (tms_w m) n \<longleftrightarrow> n = 1 \<and> m"
  "bit TCK_H n \<longleftrightarrow> n = 2"
  "bit TCK_L n \<longleftrightarrow> False"
  unfolding tdi_w_def TDI_H_def TDI_L_def tms_w_def TMS_H_def TMS_L_def TCK_H_def TCK_L_def
  using bit_mask [of 3 n] bit_mask [of 1 n] bit_mask [of 2 n] by (simp_all del: push_bit_of_1)

lemma pin_words [simp]:
  "TDI_H = tdi_w True" "TDI_L = tdi_w False" "TMS_H = tms_w True" "TMS_L = tms_w False"
  "tdi_of ch = tdi_w (ch = HIGH)"
  by (simp_all add: tdi_w_def tms_w_def tdi_of_def)

lemma bit_port_byte: "bit (uint (ucast (v :: 32 word) :: byte)) n \<longleftrightarrow> n < 8 \<and> bit v n"
  by (auto simp: bit_uint_iff bit_ucast_iff)

lemma pin_bits:
  "bit (uint (ucast (tdi_w d OR tms_w m OR TCK_L) :: byte)) n
     = (n = 1 \<and> m \<or> n = 3 \<and> d)"
  "bit (uint (ucast (tdi_w d OR tms_w m OR TCK_H) :: byte)) n
     = (n = 1 \<and> m \<or> n = 3 \<and> d \<or> n = 2)"
  unfolding bit_port_byte bit_or_iff bit_pins by auto

lemma bit_id_bits:
  "n \<le> 32 \<Longrightarrow> bit (id_bits n ds a) i \<longleftrightarrow> bit a i \<or> i < n \<and> ds ! i = HIGH"
  by (induction n arbitrary: a)
     (auto simp: bit_or_iff bit_mask less_Suc_eq simp del: push_bit_of_1)

lemma id_bits_id_list: "id_bits 32 (map level (id_list v)) 0 = v"
  by (rule bit_word_eqI) (simp add: bit_id_bits id_list_def level_def HIGH_def LOW_def)

text \<open>
  The data lines are the pins of the cable, and its TDO is the inverted BUSY line of the status.
\<close>

locale jtag_cable =
  fixes P :: "'w port"
    and B :: "'e board"
    and chip :: "'w \<Rightarrow> 'e chip"
  assumes data_lines: "chip (pp_data P (validPpt P) v w) = tap_write B v (chip w)"
    and tdo_line: "bit (pp_status P (validPpt P) w) 7 \<longleftrightarrow> \<not> c_tdo (chip w)"
begin

lemma chip_clk [simp]:
  "chip (jtag_clk P (tdi_w d) (tms_w m) w) = tap_clk B d m (chip w)"
  by (simp add: jtag_clk_def JTAG_SET_def OutputPpt_def data_lines tap_write_def tap_clk_def pin_bits)

lemma get_tdo [simp]: "JTAG_GET_TDO P w = level (c_tdo (chip w))"
proof -
  have "bit (InputPpt P w) 7 \<longleftrightarrow> \<not> c_tdo (chip w)"
    by (simp add: InputPpt_def tdo_line bit_and_iff bit_word_of_int_iff)
  then show ?thesis
    by (simp add: JTAG_GET_TDO_def level_def bit_iff_and_push_bit_not_eq_0)
qed

lemma chip_clks [simp]:
  "chip (jtag_clks P ts w) = tap_clks B (map (\<lambda>(d, m). (bit d 3, bit m 1)) ts) (chip w)"
  if "\<forall>(d, m) \<in> set ts. d \<in> range tdi_w \<and> m \<in> range tms_w"
  using that by (induction ts arbitrary: w) auto

lemma shift_inout_reads:
  assumes "shifting (chip w)" "length cs \<le> length (c_shift (chip w))" "shift_inout P cs w = (rs, w')"
  shows "rs = map level (take (length cs) (c_shift (chip w)))
    \<and> chip w' = (chip w)\<lparr>c_tdo := last (c_tdo (chip w) # take (length cs) (c_shift (chip w))),
           c_shift := drop (length cs) (c_shift (chip w)) @ map (\<lambda>c. c = HIGH) cs\<rparr>"
  using assms
proof (induction cs arbitrary: w rs)
  case (Cons c cs)
  define v where "v = jtag_clk P (tdi_w (c = HIGH)) (tms_w False) w"
  obtain rs' where rs: "shift_inout P cs v = (rs', w')" "rs = level (c_tdo (chip v)) # rs'"
    using Cons.prems(3) by (auto simp: v_def Let_def split: prod.splits)
  obtain b bs where bs: "c_shift (chip w) = b # bs" "length cs \<le> length bs"
    using Cons.prems(2) by (cases "c_shift (chip w)") auto
  have v: "chip v = (chip w)\<lparr>c_tdo := b, c_shift := bs @ [c = HIGH]\<rparr>"
    using Cons.prems(1) by (simp add: v_def clk_shifting shifting_keeps bs)
  then have "shifting (chip v)" "length cs \<le> length (c_shift (chip v))"
    using Cons.prems(1) bs by (auto simp: shifting_def)
  from Cons.IH [OF this rs(1)] show ?case
    using bs rs(2) v by simp
qed simp

lemma snd_shift_inout: "snd (shift_inout P cs w) = shift_out P cs w"
proof (induction cs arbitrary: w)
  case (Cons c cs)
  show ?case
    using Cons.IH [of "jtag_clk P (tdi_of c) TMS_L w"] by (auto simp: Let_def split: prod.splits)
qed simp

lemma shift_dr:
  assumes w: "idle (chip w)" "boundary (chip w)" and ws: "0 \<in> set ws" "cstr ws \<noteq> []"
    and ps: "ps = pins B (c_env (chip w))" "length ps = length (cstr ws)" "length ps \<le> length rdDR"
    and bs: "bs = map (\<lambda>c. c = HIGH) (cstr ws)"
  obtains w' where
    "JTAG_ShiftDRState P ws rdDR w = Ret (map level ps @ drop (length ps) rdDR, w')"
    "chip w' = drive_pins B ((chip w)\<lparr>c_tdo := last ps, c_shift := bs, c_latch := bs\<rparr>)"
proof -
  obtain n where n: "length (cstr ws) = Suc n"
    using ws(2) by (cases "cstr ws") auto
  note str = string_last [OF ws(1) n]
  define w1 where "w1 = jtag_clks P [(TDI_H, TMS_H), (TDI_H, TMS_L), (TDI_H, TMS_L)] w"
  obtain rs w2 where sh: "shift_inout P (take n ws) w1 = (rs, w2)"
    by fastforce
  have c1: "chip w1 = (chip w)\<lparr>c_tap := Shift_DR, c_shift := ps\<rparr>"
    using w enter_shift_dr [OF w(1), of B] by (auto simp: w1_def ps captured_def boundary_def)
  have "shifting (chip w1)" "length (take n ws) \<le> length (c_shift (chip w1))"
    using w(1) n ps by (auto simp: c1 shifting_def idle_def)
  note s = shift_inout_reads [OF this sh]
  have taken: "length (take n ws) = n" and bsn: "length bs = Suc n" and psn: "length ps = Suc n"
    and bl: "map (\<lambda>c. c = HIGH) (butlast (cstr ws)) = butlast bs" "(last (cstr ws) = HIGH) = last bs"
    using n ps(2) ws(2) by (simp_all add: str bs map_butlast last_map)
  have c2: "chip w2 = (chip w)\<lparr>c_tap := Shift_DR, c_tdo := last (c_tdo (chip w) # take n ps),
      c_shift := drop n ps @ butlast bs\<rparr>"
    using s unfolding taken c1 by (simp add: str bl)
  define w3 where "w3 = jtag_clk P (tdi_of (last (cstr ws))) TMS_H w2"
  have "shifting (chip w2)"
    using w(1) by (simp add: c2 shifting_def idle_def)
  then have c3: "chip w3 = (chip w)\<lparr>c_tap := Exit1_DR, c_tdo := last ps, c_shift := bs\<rparr>"
    using exchanged [OF psn bsn]
    by (simp add: w3_def bl clk_shifting c2)
  define w4 where "w4 = jtag_clks P [(TDI_H, TMS_H), (TDI_H, TMS_L)] w3"
  have "chip w4 = drive_pins B ((chip w)\<lparr>c_tdo := last ps, c_shift := bs, c_latch := bs\<rparr>)"
    using leave_shift_dr [of "chip w3" B] w
    by (simp add: w4_def c3 idle_update) (simp add: idle_def boundary_def)
  moreover have "JTAG_ShiftDRState P ws rdDR w = Ret (map level ps @ drop (length ps) rdDR, w4)"
  proof -
    have "map level (take n ps) @ level (last ps) # X = map level ps @ X" for X
      using arg_cong [OF exchanged(3) [OF psn bsn], of "map level"] by simp
    then show ?thesis
      using ps(3) ws(1) n psn s [unfolded taken c1] sh
      by (simp add: JTAG_ShiftDRState_def Let_def strlen_def str w1_def [symmetric] w3_def [symmetric]
          w4_def [symmetric] c1 c3 del: pin_words jtag_clks.simps)
  qed
  ultimately show thesis
    by (rule that [rotated])
qed

lemma shift_dr_no_tdo:
  assumes "0 \<in> set ws" "cstr ws \<noteq> []" "length (cstr ws) \<le> length rdDR"
  shows "JTAG_ShiftDRStateNoTDO P ws w = res_map snd (JTAG_ShiftDRState P ws rdDR w)"
proof -
  obtain n where n: "length (cstr ws) = Suc n"
    using assms(2) by (cases "cstr ws") auto
  then show ?thesis
    using assms by (simp add: JTAG_ShiftDRStateNoTDO_def JTAG_ShiftDRState_def Let_def strlen_def
        string_last [OF assms(1) n] case_prod_unfold snd_shift_inout)
qed

lemma shift_ir:
  assumes w: "idle (chip w)" and ws: "0 \<in> set ws" "length (cstr ws) = 4"
    and bs: "bs = map (\<lambda>c. c = HIGH) (cstr ws)"
  obtains w' where
    "JTAG_ShiftIRState P ws w = Ret w'"
    "chip w' = drive_pins B ((chip w)\<lparr>c_tdo := False, c_shift := bs, c_instr := decode_instr bs\<rparr>)"
proof -
  have n: "length (cstr ws) = Suc 3" using ws(2) by simp
  note str = string_last [OF ws(1) n]
  define w1 where "w1 = jtag_clks P [(TDI_H, TMS_H), (TDI_H, TMS_H), (TDI_H, TMS_L), (TDI_H, TMS_L)] w"
  obtain rs w2 where sh: "shift_inout P (take 3 ws) w1 = (rs, w2)"
    by fastforce
  have c1: "chip w1 = (chip w)\<lparr>c_tap := Shift_IR, c_shift := [True, False, False, False]\<rparr>"
    using w enter_shift_ir [OF w(1), of B] by (auto simp: w1_def)
  have taken: "length (take 3 ws) = 3" and bsn: "length bs = Suc 3"
    and bl: "map (\<lambda>c. c = HIGH) (butlast (cstr ws)) = butlast bs" "(last (cstr ws) = HIGH) = last bs"
    using n by (simp_all add: str bs map_butlast) (subst last_map; auto)
  have "shifting (chip w1)" "length (take 3 ws) \<le> length (c_shift (chip w1))"
    using w(1) by (auto simp: c1 shifting_def idle_def)
  note s = shift_inout_reads [OF this sh]
  have c2: "chip w2 = (chip w)\<lparr>c_tap := Shift_IR, c_tdo := False, c_shift := False # butlast bs\<rparr>"
    using s unfolding taken c1 by (simp add: str bl)
  define w3 where "w3 = jtag_clks P [(tdi_of (last (cstr ws)), TMS_H), (TDI_H, TMS_H), (TDI_H, TMS_L)] w2"
  have "butlast bs @ [last bs] = bs"
    using bsn by (intro append_butlast_last_id) auto
  then have "chip w3 = drive_pins B ((chip w)\<lparr>c_tdo := False, c_shift := bs, c_instr := decode_instr bs\<rparr>)"
    using leave_shift_ir [of "chip w2" bs "last bs" B] w
    by (simp add: w3_def bl c2 idle_def) (cases "chip w"; simp)
  moreover have "JTAG_ShiftIRState P ws w = Ret w3"
    using sh snd_shift_inout [of "take 3 ws" w1] ws(1) n str(2)
    by (simp add: JTAG_ShiftIRState_def Let_def strlen_def str(1) w1_def [symmetric] w3_def
        del: pin_words jtag_clks.simps)
  ultimately show thesis
    by (rule that [rotated])
qed

text \<open>A reset leaves the port in its reset state from wherever it was.\<close>

lemma reset:
  "c_tck (chip (JTAG_Reset P w)) \<and> c_tap (chip (JTAG_Reset P w)) = Test_Logic_Reset
   \<and> c_instr (chip (JTAG_Reset P w)) = Idcode"
proof -
  define v where "v = jtag_clks P (replicate 5 (TDI_H, TMS_H)) w"
  have v: "c_tck (chip v)" "c_tap (chip v) = Test_Logic_Reset"
    by (simp_all add: v_def eval_nat_numeral tap_next_reset)
  have "JTAG_Reset P w = jtag_clk P TDI_H TMS_H v"
    by (simp add: JTAG_Reset_def v_def eval_nat_numeral)
  then show ?thesis
    using v by (simp add: tap_clk_def tap_fall_reset) (simp add: tap_rise_def)
qed

lemma run_test_idle:
  "idle (chip (JTAG_RunTestldleState P w))"
  using reset [of w] by (simp add: JTAG_RunTestldleState_def idle_def)

text \<open>From a state in which nothing is pending, a reset does not touch the pins.\<close>

lemma reset_keeps:
  assumes "idle (chip w) \<or> c_tap (chip w) = Test_Logic_Reset"
  shows "c_env (chip (JTAG_Reset P w)) = c_env (chip w) \<and> c_latch (chip (JTAG_Reset P w)) = c_latch (chip w)"
  using assms
proof
  assume "idle (chip w)"
  then show ?thesis
    by (simp add: JTAG_Reset_def reset_idle)
next
  assume "c_tap (chip w) = Test_Logic_Reset"
  then show ?thesis
    by (simp add: JTAG_Reset_def reset_again)
qed

lemma run_test_keeps:
  assumes "idle (chip w) \<or> c_tap (chip w) = Test_Logic_Reset"
  shows "c_env (chip (JTAG_RunTestldleState P w)) = c_env (chip w)
    \<and> c_latch (chip (JTAG_RunTestldleState P w)) = c_latch (chip w)"
  using reset_keeps [OF assms] reset [of w] by (simp add: JTAG_RunTestldleState_def tap_defs)

lemma read_id: "fst (JTAG_ReadId P w) = idcode B \<and> idle (chip (snd (JTAG_ReadId P w)))
  \<and> c_env (chip (snd (JTAG_ReadId P w))) = c_env (chip (JTAG_Reset P w))"
proof -
  define w0 where "w0 = JTAG_Reset P w"
  define w1 where "w1 =
    jtag_clks P [(TDI_H, TMS_H), (TDI_H, TMS_H), (TDI_H, TMS_L), (TDI_H, TMS_L)]
      (jtag_clks P [(TDI_L, TMS_L), (TDI_H, TMS_L), (TDI_H, TMS_L), (TDI_H, TMS_H)]
        (jtag_clks P [(TDI_H, TMS_L), (TDI_H, TMS_L), (TDI_H, TMS_L), (TDI_H, TMS_L),
           (TDI_H, TMS_H), (TDI_H, TMS_H), (TDI_H, TMS_L), (TDI_H, TMS_L)] w0))"
  define ids where "ids = id_list (idcode B)"
  have len: "length ids = Suc 31" by (simp add: ids_def id_list_def)
  have r: "c_tck (chip w0)" "c_tap (chip w0) = Test_Logic_Reset"
    using reset by (simp_all add: w0_def)
  have c1: "chip w1 = (chip w0)\<lparr>c_tap := Shift_DR, c_instr := Idcode, c_tdo := False, c_shift := ids\<rparr>"
    using enter_read_id [OF r, of B] by (simp add: w1_def ids_def)
  obtain rs w2 where sh: "shift_inout P (replicate 31 HIGH) w1 = (rs, w2)"
    by fastforce
  have "shifting (chip w1)" "length (replicate 31 HIGH) \<le> length (c_shift (chip w1))"
    using r len by (simp_all add: c1 shifting_def)
  note s = shift_inout_reads [OF this sh, unfolded length_replicate]
  define w3 where "w3 = jtag_clk P TDI_H TMS_H w2"
  have "shifting (chip w2)"
    using s r by (simp add: c1 shifting_def)
  then have c3: "c_tck (chip w3)" "c_tap (chip w3) = Exit1_DR" "c_tdo (chip w3) = last ids"
      "c_instr (chip w3) = Idcode" "c_env (chip w3) = c_env (chip w0)"
    using s r exchanged(2) [OF len len] by (simp_all add: w3_def clk_shifting c1)
  have ds: "rs @ [level (c_tdo (chip w3))] = map level ids"
    using s c3 arg_cong [OF exchanged(3) [OF len len], of "map level"] by (simp add: c1)
  define w4 where "w4 = jtag_clks P [(TDI_H, TMS_H), (TDI_H, TMS_L), (TDI_H, TMS_L), (TDI_H, TMS_L)] w3"
  have "JTAG_ReadId P w = (id_bits 32 (map level ids) 0, w4)"
    unfolding JTAG_ReadId_def Let_def w0_def [symmetric] w1_def [symmetric] sh prod.case
      w3_def [symmetric] w4_def [symmetric] get_tdo ds ..
  moreover have "idle (chip w4)"
    using c3 by (simp add: w4_def idle_def)
  moreover have "c_env (chip w4) = c_env (chip w0)"
    using c3 by (simp add: w4_def tap_defs)
  ultimately show ?thesis
    by (simp add: ids_def id_bits_id_list w0_def)
qed

end

section \<open>The processor by itself\<close>

text \<open>The cable with nothing but the processor behind the port.\<close>

definition tap_port :: "'e board \<Rightarrow> 'e chip port" where
  "tap_port B =
     \<lparr>validPpt = 3, pp_open = (\<lambda>path c. (3, c)), pp_ioctl = (\<lambda>fd r c. (0, c)),
      pp_data = (\<lambda>fd v c. tap_write B v c), pp_status = (\<lambda>fd c. if c_tdo c then 0 else 128)\<rparr>"

lemma bit_128 [simp]: "bit (128 :: int) 7"
  by (simp add: bit_iff_odd)

interpretation tap: jtag_cable "tap_port B" B "\<lambda>c. c" for B
  by unfold_locales (simp_all add: tap_port_def)

section \<open>What the operations achieve\<close>

text \<open>
  Whatever state the test access port was left in, \<open>JTAG_ReadId\<close> returns the identification of the
  processor on the cable, and leaves the port in Run-Test/Idle, where the other operations start.
\<close>

theorem jtag_reads_idcode:
  assumes "jtag_cable P B chip"
  shows "fst (JTAG_ReadId P w) = idcode B \<and> idle (chip (snd (JTAG_ReadId P w)))"
  using jtag_cable.read_id [OF assms] by blast

definition demo_board :: "bool list list board" where
  "demo_board = \<lparr>pins = (\<lambda>h. [True, False, h = []]), drive = (\<lambda>v h. v # h), idcode = 0x0032409d\<rparr>"

definition demo_chip :: "bool list list chip" where
  "demo_chip = \<lparr>c_tck = False, c_tap = Pause_DR, c_tdo = True, c_shift = [], c_instr = Bypass,
     c_latch = [], c_env = []\<rparr>"

theorem jtag_reads_idcode_witness:
  "fst (JTAG_ReadId (tap_port demo_board) demo_chip) = 0x0032409d"
  using jtag_reads_idcode [OF tap.jtag_cable_axioms, of demo_board demo_chip]
  by (simp add: demo_board_def)

text \<open>C21.
  A scan of the boundary cells exchanges them: the array that is read gets the levels the cells
  captured, cell by cell, and the cells are loaded with the characters of the array that is written,
  which drives the pins when the instruction is EXTEST.  It takes one update of the pins, ends where
  it started, and scanning without reading does the same to the processor.
\<close>

theorem jtag_scan_exchanges:
  assumes cable: "jtag_cable P B chip"
    and start: "idle (chip w)" "boundary (chip w)"
    and str: "0 \<in> set ws" "cstr ws \<noteq> []"
    and len: "length (pins B (c_env (chip w))) = length (cstr ws)" "length (cstr ws) \<le> length rdDR"
  shows "\<exists>w'. JTAG_ShiftDRState P ws rdDR w
        = Ret (map level (pins B (c_env (chip w))) @ drop (length (cstr ws)) rdDR, w')
      \<and> JTAG_ShiftDRStateNoTDO P ws w = Ret w'
      \<and> idle (chip w')
      \<and> c_latch (chip w') = map (\<lambda>c. c = HIGH) (cstr ws)
      \<and> c_env (chip w') = (if c_instr (chip w) = Extest
           then drive B (map (\<lambda>c. c = HIGH) (cstr ws)) (c_env (chip w)) else c_env (chip w))"
proof -
  obtain w' where w': "JTAG_ShiftDRState P ws rdDR w
        = Ret (map level (pins B (c_env (chip w))) @ drop (length (cstr ws)) rdDR, w')"
    "chip w' = drive_pins B ((chip w)\<lparr>c_tdo := last (pins B (c_env (chip w))),
       c_shift := map (\<lambda>c. c = HIGH) (cstr ws), c_latch := map (\<lambda>c. c = HIGH) (cstr ws)\<rparr>)"
    using jtag_cable.shift_dr [OF cable start str refl len(1)] len by (metis)
  moreover have "JTAG_ShiftDRStateNoTDO P ws w = Ret w'"
    using jtag_cable.shift_dr_no_tdo [OF cable str len(2), of w] w'(1) by simp
  ultimately show ?thesis
    using start by (auto simp: drive_pins_def idle_def)
qed

definition demo_extest :: "bool list list chip" where
  "demo_extest = demo_chip\<lparr>c_tck := True, c_tap := Run_Test_Idle, c_instr := Extest\<rparr>"

theorem jtag_scan_exchanges_witness:
  "\<exists>w'. JTAG_ShiftDRState (tap_port demo_board) [HIGH, LOW, LOW, 0] (replicate 4 0) demo_extest
      = Ret ([HIGH, LOW, HIGH, 0], w') \<and> c_env w' = [[True, False, False]]"
proof -
  have "cstr [HIGH, LOW, LOW, 0] = [HIGH, LOW, LOW]"
    by (simp add: cstr_def HIGH_def LOW_def)
  moreover have "(0 :: byte) \<in> set [HIGH, LOW, LOW, 0]"
    by simp
  ultimately show ?thesis
    using jtag_scan_exchanges [OF tap.jtag_cable_axioms, of demo_extest "[HIGH, LOW, LOW, 0]"
        demo_board "replicate 4 0"]
    by (auto simp: demo_extest_def demo_chip_def demo_board_def idle_def boundary_def level_def
        HIGH_def LOW_def)
qed

end
