(* ===== verification/Pin2410.thy ===== *)
theory Pin2410
  imports Jtag_Tap
begin

text \<open>
  The boundary cells of the S3C2410 processor as \<^verbatim>\<open>pin2410.c\<close> keeps them: one character for each
  cell, '0' or '1', in an array that is shifted out and an array that was captured, and the cells of
  the data and address lines.
\<close>

section \<open>Cells\<close>

definition S2410_MAX_CELL_INDEX :: nat where "S2410_MAX_CELL_INDEX = 426"

definition DATA24_31_CON :: int where "DATA24_31_CON = 48"
definition DATA16_23_CON :: int where "DATA16_23_CON = 65"
definition DATA8_15_CON :: int where "DATA8_15_CON = 82"
definition DATA0_7_CON :: int where "DATA0_7_CON = 99"
definition ADDR26_CON :: int where "ADDR26_CON = 102"
definition ADDR25_CON :: int where "ADDR25_CON = 104"
definition ADDR24_CON :: int where "ADDR24_CON = 106"
definition ADDR23_CON :: int where "ADDR23_CON = 108"
definition ADDR22_CON :: int where "ADDR22_CON = 110"
definition ADDR21_CON :: int where "ADDR21_CON = 112"
definition ADDR20_CON :: int where "ADDR20_CON = 114"
definition ADDR19_CON :: int where "ADDR19_CON = 116"
definition ADDR18_CON :: int where "ADDR18_CON = 118"
definition ADDR17_CON :: int where "ADDR17_CON = 120"
definition ADDR16_CON :: int where "ADDR16_CON = 122"
definition ADDR1_15_CON :: int where "ADDR1_15_CON = 138"
definition ADDR0_CON :: int where "ADDR0_CON = 140"
definition nBE3 :: int where "nBE3 = 143"
definition nBE2 :: int where "nBE2 = 144"
definition nBE1 :: int where "nBE1 = 145"
definition nBE0 :: int where "nBE0 = 146"
definition nOE :: int where "nOE = 147"
definition nWE :: int where "nWE = 148"
definition nGCS0 :: int where "nGCS0 = 152"
definition nGCS0_ETC_CON :: int where "nGCS0_ETC_CON = 153"
definition nGCS1 :: int where "nGCS1 = 154"
definition nGCS1_CON :: int where "nGCS1_CON = 155"
definition nGCS2 :: int where "nGCS2 = 156"
definition nGCS2_CON :: int where "nGCS2_CON = 157"
definition nGCS3 :: int where "nGCS3 = 158"
definition nGCS3_CON :: int where "nGCS3_CON = 159"
definition nGCS4 :: int where "nGCS4 = 160"
definition nGCS4_CON :: int where "nGCS4_CON = 161"
definition nGCS5 :: int where "nGCS5 = 162"
definition nGCS5_CON :: int where "nGCS5_CON = 163"
definition nGCS6 :: int where "nGCS6 = 164"
definition nGCS7 :: int where "nGCS7 = 165"
definition nGCS67_CON :: int where "nGCS67_CON = 166"
definition nWAIT :: int where "nWAIT = 167"
definition CLE :: int where "CLE = 168"
definition ALE :: int where "ALE = 169"
definition nFWE :: int where "nFWE = 170"
definition nFRE :: int where "nFRE = 171"
definition nFCE :: int where "nFCE = 172"
definition NCON0 :: int where "NCON0 = 229"

definition dataOut_cells :: "int list" where
  "dataOut_cells =
     [98, 96, 94, 92, 90, 88, 86, 84, 81, 79, 77, 75, 73, 71, 69, 67, 64, 62, 60, 58, 56, 54,
      52, 50, 47, 45, 43, 41, 39, 37, 35, 33]"

definition dataIn_cells :: "int list" where
  "dataIn_cells =
     [100, 97, 95, 93, 91, 89, 87, 85, 83, 80, 78, 76, 74, 72, 70, 68, 66, 63, 61, 59, 57, 55,
      53, 51, 49, 46, 44, 42, 40, 38, 36, 34]"

definition addr_cells :: "int list" where
  "addr_cells =
     [139, 137, 136, 135, 134, 133, 132, 131, 130, 129, 128, 127, 126, 125, 124, 123, 121, 119,
      117, 115, 113, 111, 109, 107, 105, 103, 101]"

definition EXTEST :: "byte list" where "EXTEST = lit ''0000''"
definition SAMPLE_PRELOAD :: "byte list" where "SAMPLE_PRELOAD = lit ''1100''"

text \<open>The global variables, and the world behind the port.\<close>

record 'w cells =
  outCellValue :: "byte list"
  inCellValue :: "byte list"
  dataOutCellIndex :: "int list"
  dataInCellIndex :: "int list"
  addrCellIndex :: "int list"
  world :: 'w

section \<open>Operations\<close>

definition S2410_SetPin :: "int \<Rightarrow> byte \<Rightarrow> ('w, 'z) cells_scheme \<Rightarrow> ('w, 'z) cells_scheme res" where
  "S2410_SetPin i v s = res_map (\<lambda>b. s\<lparr>outCellValue := b\<rparr>) (wr (outCellValue s) i v)"

fun set_pins :: "(int \<times> byte) list \<Rightarrow> ('w, 'z) cells_scheme \<Rightarrow> ('w, 'z) cells_scheme res" where
  "set_pins [] s = Ret s"
| "set_pins ((i, v) # ps) s = res_bind (S2410_SetPin i v s) (set_pins ps)"

definition S2410_GetPin :: "int \<Rightarrow> ('w, 'z) cells_scheme \<Rightarrow> byte res" where
  "S2410_GetPin i s = rd (inCellValue s) i"

text \<open>The loops that spread a value over cells, and collect one from them, from bit \<open>i\<close> on.\<close>

fun put_bits :: "int list \<Rightarrow> nat \<Rightarrow> nat \<Rightarrow> 32 word \<Rightarrow> byte list \<Rightarrow> byte list res" where
  "put_bits idx i 0 data b = Ret b"
| "put_bits idx i (Suc n) data b =
     res_bind (rd idx (int i)) (\<lambda>k.
     res_bind (wr b k (if data AND push_bit i 1 \<noteq> 0 then HIGH else LOW)) (\<lambda>b.
     put_bits idx (Suc i) n data b))"

fun get_bits :: "int list \<Rightarrow> nat \<Rightarrow> nat \<Rightarrow> byte list \<Rightarrow> 32 word \<Rightarrow> 32 word res" where
  "get_bits idx i 0 b data = Ret data"
| "get_bits idx i (Suc n) b data =
     res_bind (rd idx (int i)) (\<lambda>k.
     res_bind (rd b k) (\<lambda>c.
     get_bits idx (Suc i) n b (if c = HIGH then data OR push_bit i 1 else data)))"

definition S2410_SetAddr :: "32 word \<Rightarrow> ('w, 'z) cells_scheme \<Rightarrow> ('w, 'z) cells_scheme res" where
  "S2410_SetAddr a s = res_map (\<lambda>b. s\<lparr>outCellValue := b\<rparr>) (put_bits (addrCellIndex s) 0 27 a (outCellValue s))"

definition S2410_SetDataByte :: "byte \<Rightarrow> ('w, 'z) cells_scheme \<Rightarrow> ('w, 'z) cells_scheme res" where
  "S2410_SetDataByte v s =
     res_map (\<lambda>b. s\<lparr>outCellValue := b\<rparr>) (put_bits (dataOutCellIndex s) 0 8 (ucast v) (outCellValue s))"

definition S2410_SetDataHW :: "16 word \<Rightarrow> ('w, 'z) cells_scheme \<Rightarrow> ('w, 'z) cells_scheme res" where
  "S2410_SetDataHW v s =
     res_map (\<lambda>b. s\<lparr>outCellValue := b\<rparr>) (put_bits (dataOutCellIndex s) 0 16 (ucast v) (outCellValue s))"

definition S2410_SetDataWord :: "32 word \<Rightarrow> ('w, 'z) cells_scheme \<Rightarrow> ('w, 'z) cells_scheme res" where
  "S2410_SetDataWord v s =
     res_map (\<lambda>b. s\<lparr>outCellValue := b\<rparr>) (put_bits (dataOutCellIndex s) 0 32 v (outCellValue s))"

definition S2410_GetDataByte :: "('w, 'z) cells_scheme \<Rightarrow> byte res" where
  "S2410_GetDataByte s = res_map ucast (get_bits (dataInCellIndex s) 0 8 (inCellValue s) 0)"

definition S2410_GetDataHW :: "('w, 'z) cells_scheme \<Rightarrow> 16 word res" where
  "S2410_GetDataHW s = res_map ucast (get_bits (dataInCellIndex s) 0 16 (inCellValue s) 0)"

definition S2410_GetDataWord :: "('w, 'z) cells_scheme \<Rightarrow> 32 word res" where
  "S2410_GetDataWord s = get_bits (dataInCellIndex s) 0 32 (inCellValue s) 0"

text \<open>
  \<open>JTAG_ShiftDRStateNoTDO(outCellValue)\<close> and \<open>JTAG_ShiftDRState(outCellValue, inCellValue)\<close>, the
  only ways the operations of the flash reach the pins.
\<close>

definition scan_out :: "'w port \<Rightarrow> ('w, 'z) cells_scheme \<Rightarrow> ('w, 'z) cells_scheme res" where
  "scan_out P s =
     res_map (\<lambda>w. s\<lparr>world := w\<rparr>) (JTAG_ShiftDRStateNoTDO P (outCellValue s) (world s))"

definition scan_inout :: "'w port \<Rightarrow> ('w, 'z) cells_scheme \<Rightarrow> ('w, 'z) cells_scheme res" where
  "scan_inout P s =
     res_map (\<lambda>(b, w). s\<lparr>inCellValue := b, world := w\<rparr>)
       (JTAG_ShiftDRState P (outCellValue s) (inCellValue s) (world s))"

text \<open>The settings of \<^verbatim>\<open>S2410_InitCell\<close>, in its order.\<close>

definition init_pins :: "(int \<times> byte) list" where
  "init_pins =
     [(DATA0_7_CON, HIGH), (DATA8_15_CON, HIGH), (DATA16_23_CON, HIGH),
      (DATA24_31_CON, HIGH), (nGCS67_CON, LOW), (nGCS7, HIGH), (nGCS6, HIGH),
      (nGCS5_CON, LOW), (nGCS5, HIGH), (nGCS4_CON, LOW), (nGCS4, HIGH), (nGCS3_CON, LOW),
      (nGCS3, HIGH), (nGCS2_CON, LOW), (nGCS2, HIGH), (nGCS1_CON, LOW), (nGCS1, HIGH),
      (nGCS0_ETC_CON, LOW), (nGCS0, HIGH), (nWE, HIGH), (nOE, HIGH), (nBE0, HIGH),
      (nBE1, HIGH), (nBE2, HIGH), (nBE3, HIGH), (ADDR0_CON, LOW), (ADDR1_15_CON, LOW),
      (ADDR16_CON, LOW), (ADDR17_CON, LOW), (ADDR18_CON, LOW), (ADDR19_CON, LOW),
      (ADDR20_CON, LOW), (ADDR21_CON, LOW), (ADDR22_CON, LOW), (ADDR23_CON, LOW),
      (ADDR24_CON, LOW), (ADDR25_CON, LOW), (ADDR26_CON, LOW), (nFRE, HIGH), (nFWE, HIGH),
      (nFCE, HIGH)]"

definition S2410_InitCell :: "'w port \<Rightarrow> ('w, 'z) cells_scheme \<Rightarrow> ('w, 'z) cells_scheme res" where
  "S2410_InitCell P s =
     (let n = Suc S2410_MAX_CELL_INDEX;
          s = s\<lparr>dataOutCellIndex := dataOut_cells, dataInCellIndex := dataIn_cells,
                addrCellIndex := addr_cells,
                outCellValue := replicate n HIGH @ [0], inCellValue := replicate n 117 @ [0],
                world := JTAG_RunTestldleState P (world s)\<rparr>
      in res_bind (JTAG_ShiftIRState P SAMPLE_PRELOAD (world s)) (\<lambda>w.
         res_bind (scan_inout P (s\<lparr>world := w\<rparr>)) (\<lambda>s.
         set_pins init_pins
           (s\<lparr>outCellValue := take n (inCellValue s) @ drop n (outCellValue s)\<rparr>))))"

end
