(* ===== verification/K9fxx08.thy ===== *)
theory K9fxx08
  imports Pin2410
begin

text \<open>
  The operations on the NAND flash, \<^verbatim>\<open>k9fxx08.c\<close>: commands, addresses and data are put on the pins of
  the processor one scan of the boundary cells at a time.
\<close>

section \<open>Primitive operations\<close>

text \<open>
  \<open>seBuf\<close> is the static spare area of a bad block, \<open>console\<close> what was printed.  \<open>NF_WAITRB\<close> polls
  for ever; \<open>polls\<close> bounds the number of polls of the model.
\<close>

record 'w flash = "'w cells" +
  seBuf :: "byte list"
  console :: "byte list"

definition print :: "byte list \<Rightarrow> 'w flash \<Rightarrow> 'w flash" where
  "print t s = s\<lparr>console := console s @ t\<rparr>"

definition NF_nFCE_L :: "'w port \<Rightarrow> 'w flash \<Rightarrow> 'w flash res" where
  "NF_nFCE_L P = steps [S2410_SetPin nFCE LOW, scan_out P]"

definition NF_nFCE_H :: "'w port \<Rightarrow> 'w flash \<Rightarrow> 'w flash res" where
  "NF_nFCE_H P = steps [S2410_SetPin nFCE HIGH, scan_out P]"

definition NF_CMD :: "'w port \<Rightarrow> byte \<Rightarrow> 'w flash \<Rightarrow> 'w flash res" where
  "NF_CMD P cmd = steps
     [set_pins [(DATA0_7_CON, LOW), (nFCE, LOW), (nFRE, HIGH), (nFWE, LOW), (ALE, LOW), (CLE, HIGH)],
      S2410_SetDataByte cmd, scan_out P,
      S2410_SetPin nFWE HIGH, scan_out P,
      set_pins [(CLE, LOW), (DATA0_7_CON, HIGH)], scan_out P]"

definition NF_ADDR :: "'w port \<Rightarrow> 32 word \<Rightarrow> 'w flash \<Rightarrow> 'w flash res" where
  "NF_ADDR P addr = steps
     [set_pins [(DATA0_7_CON, LOW), (nFCE, LOW), (nFRE, HIGH), (nFWE, LOW), (ALE, HIGH), (CLE, LOW)],
      S2410_SetDataByte (ucast addr AND 0xff), scan_out P,
      S2410_SetPin nFWE HIGH, scan_out P,
      set_pins [(ALE, LOW), (DATA0_7_CON, HIGH)], scan_out P]"

definition NF_RDDATA :: "'w port \<Rightarrow> 'w flash \<Rightarrow> (byte \<times> 'w flash) res" where
  "NF_RDDATA P s =
     res_bind (steps [S2410_SetPin DATA0_7_CON HIGH, S2410_SetPin nFRE LOW, scan_out P,
                      S2410_SetPin nFRE HIGH, scan_inout P] s) (\<lambda>s.
     res_map (\<lambda>d. (d, s)) (S2410_GetDataByte s))"

definition NF_WRDATA :: "'w port \<Rightarrow> byte \<Rightarrow> 'w flash \<Rightarrow> 'w flash res" where
  "NF_WRDATA P v = steps
     [S2410_SetPin DATA0_7_CON LOW, S2410_SetPin nFWE LOW, S2410_SetDataByte v, scan_out P,
      S2410_SetPin nFWE HIGH, scan_out P]"

fun NF_WAITRB :: "'w port \<Rightarrow> nat \<Rightarrow> 'w flash \<Rightarrow> 'w flash res" where
  "NF_WAITRB P 0 s = Diverge"
| "NF_WAITRB P (Suc polls) s =
     res_bind (scan_inout P s) (\<lambda>s.
     res_bind (S2410_GetPin nWAIT s) (\<lambda>a.
     res_bind (S2410_GetPin NCON0 s) (\<lambda>b.
     if a = HIGH \<and> b = HIGH then Ret s else NF_WAITRB P polls s)))"

definition K9Fxx08_JtagInit :: "'w port \<Rightarrow> 'w flash \<Rightarrow> 'w flash res" where
  "K9Fxx08_JtagInit P s =
     (let s = s\<lparr>world := JTAG_RunTestldleState P (world s)\<rparr>
      in res_bind (JTAG_ShiftIRState P EXTEST (world s)) (\<lambda>w.
         set_pins [(CLE, LOW), (ALE, LOW)] (s\<lparr>world := w\<rparr>)))"

section \<open>Operations on blocks and pages\<close>

datatype block_status = BAD_BLOCK_OK | BAD_BLOCK_ERASE | BAD_BLOCK_FACTORY | BAD_BLOCK_WRITE

definition READ_1_1 :: byte where "READ_1_1 = 0x00"

definition NF_Reset :: "'w port \<Rightarrow> nat \<Rightarrow> 'w flash \<Rightarrow> 'w flash res" where
  "NF_Reset P polls = steps [NF_nFCE_L P, NF_CMD P 0xFF, NF_WAITRB P polls, NF_nFCE_H P]"

definition NF_Init :: "'w port \<Rightarrow> nat \<Rightarrow> 'w flash \<Rightarrow> 'w flash res" where
  "NF_Init P polls = steps [NF_Reset P polls, NF_CMD P READ_1_1]"

definition K9Fxx08_init :: "'w port \<Rightarrow> nat \<Rightarrow> 'w flash \<Rightarrow> 'w flash res" where
  "K9Fxx08_init P polls = NF_Init P polls"

definition NF_CheckId :: "'w port \<Rightarrow> 'w flash \<Rightarrow> (16 word \<times> 'w flash) res" where
  "NF_CheckId P s =
     res_bind (steps [NF_nFCE_L P, NF_CMD P 0x90, NF_ADDR P 0x0] s) (\<lambda>s.
     res_bind (NF_RDDATA P s) (\<lambda>(a, s).
     res_bind (NF_RDDATA P s) (\<lambda>(b, s).
     res_map (\<lambda>s. (push_bit 8 (ucast a) OR ucast b, s)) (NF_nFCE_H P s))))"

definition K9Fxx08_checkid :: "'w port \<Rightarrow> 'w flash \<Rightarrow> (16 word \<times> 'w flash) res" where
  "K9Fxx08_checkid P s = NF_CheckId P s"

text \<open>The two address cycles that choose a page.\<close>

definition page_addr :: "'w port \<Rightarrow> 32 word \<Rightarrow> 'w flash \<Rightarrow> 'w flash res" where
  "page_addr P blockPage =
     steps [NF_ADDR P (blockPage AND 0xff), NF_ADDR P (drop_bit 8 blockPage AND 0x7f)]"

text \<open>The mark of a page; in the second one the page number is one more within its cycle.\<close>

definition read_mark :: "'w port \<Rightarrow> nat \<Rightarrow> 32 word \<Rightarrow> 32 word \<Rightarrow> 'w flash \<Rightarrow> (byte \<times> 'w flash) res" where
  "read_mark P polls lo hi s =
     res_bind (steps [NF_nFCE_L P, NF_CMD P 0x50, NF_ADDR P (517 AND 0xf), NF_ADDR P lo, NF_ADDR P hi,
                      NF_WAITRB P polls] s) (\<lambda>s.
     res_bind (NF_RDDATA P s) (\<lambda>(d, s).
     res_map (\<lambda>s. (d, s)) (NF_nFCE_H P s)))"

definition NF_IsBadBlock :: "'w port \<Rightarrow> nat \<Rightarrow> 32 word \<Rightarrow> 'w flash \<Rightarrow> (byte \<times> 'w flash) res" where
  "NF_IsBadBlock P polls block s =
     (let blockPage = push_bit 5 block; hi = drop_bit 8 blockPage AND 0x7f
      in res_bind (read_mark P polls (blockPage AND 0xff) hi s) (\<lambda>(data1, s).
         res_bind (read_mark P polls ((blockPage AND 0xff) + 1) hi s) (\<lambda>(data2, s).
         Ret (if data1 \<noteq> 0xFF then data1 else data2, s))))"

definition NF_MarkBadBlock :: "'w port \<Rightarrow> nat \<Rightarrow> 32 word \<Rightarrow> 'w flash \<Rightarrow> 'w flash res" where
  "NF_MarkBadBlock P polls block s =
     (let blockPage = push_bit 5 block;
          s = s\<lparr>seBuf := (seBuf s)[0 := 0xff, 1 := 0xff, 2 := 0xff, 5 := 0x44]\<rparr>
      in steps ([NF_nFCE_L P, NF_CMD P 0x50, NF_CMD P 0x80, NF_ADDR P 0x0, page_addr P blockPage]
                @ map (NF_WRDATA P) (seBuf s)
                @ [NF_CMD P 0x10, NF_WAITRB P polls, NF_CMD P 0x70, NF_nFCE_H P]) s)"

definition NF_EraseBlock :: "'w port \<Rightarrow> nat \<Rightarrow> 32 word \<Rightarrow> 'w flash \<Rightarrow> (block_status \<times> 'w flash) res" where
  "NF_EraseBlock P polls block s =
     (let blockPage = push_bit 5 block
      in res_bind (NF_IsBadBlock P polls block s) (\<lambda>(bad, s).
         if block \<noteq> 0 \<and> bad \<noteq> 0xFF then Ret (BAD_BLOCK_FACTORY, s)
         else
           res_bind (steps [NF_nFCE_L P, NF_CMD P 0x60, page_addr P blockPage, NF_CMD P 0xd0,
                            NF_WAITRB P polls, NF_CMD P 0x70] s) (\<lambda>s.
           res_bind (NF_RDDATA P s) (\<lambda>(d, s).
           if d AND 1 \<noteq> 0
           then res_map (\<lambda>s. (BAD_BLOCK_ERASE, s)) (steps [NF_nFCE_H P, NF_MarkBadBlock P polls block] s)
           else res_map (\<lambda>s. (BAD_BLOCK_OK, s)) (NF_nFCE_H P s)))))"

fun read_bytes :: "'w port \<Rightarrow> nat \<Rightarrow> 'w flash \<Rightarrow> (byte list \<times> 'w flash) res" where
  "read_bytes P 0 s = Ret ([], s)"
| "read_bytes P (Suc n) s =
     res_bind (NF_RDDATA P s) (\<lambda>(d, s). res_map (\<lambda>(ds, s). (d # ds, s)) (read_bytes P n s))"

text \<open>
  The value returned, the 512 bytes of the page and, if there is a buffer for them, the 16 of its
  spare area.
\<close>

definition NF_ReadPage ::
  "'w port \<Rightarrow> nat \<Rightarrow> 32 word \<Rightarrow> 32 word \<Rightarrow> bool \<Rightarrow> 'w flash \<Rightarrow> (byte \<times> byte list \<times> byte list \<times> 'w flash) res"
where
  "NF_ReadPage P polls block page spare s =
     (let page = page AND 0x1f; blockPage = push_bit 5 block + page
      in res_bind (steps [NF_nFCE_L P, NF_CMD P 0x00, NF_ADDR P 0, page_addr P blockPage,
                          NF_WAITRB P polls] s) (\<lambda>s.
         res_bind (read_bytes P 512 s) (\<lambda>(buffer, s).
         if spare
         then res_bind (read_bytes P 16 s) (\<lambda>(spareBuf, s).
              res_map (\<lambda>s. (spareBuf ! 5, buffer, spareBuf, s)) (NF_nFCE_H P s))
         else res_bind (steps [NF_CMD P 0x50, NF_ADDR P 5, page_addr P blockPage, NF_WAITRB P polls] s) (\<lambda>s.
              res_bind (NF_RDDATA P s) (\<lambda>(ret, s).
              res_map (\<lambda>s. (ret, buffer, [], s)) (NF_nFCE_H P s))))))"

definition NF_WritePage ::
  "'w port \<Rightarrow> nat \<Rightarrow> 32 word \<Rightarrow> 32 word \<Rightarrow> byte list \<Rightarrow> byte list option \<Rightarrow> 'w flash \<Rightarrow> (block_status \<times> 'w flash) res"
where
  "NF_WritePage P polls block page buffer spareBuf s =
     (let blockPage = push_bit 5 block + page
      in res_bind (steps ([NF_nFCE_L P, NF_CMD P 0x0, NF_CMD P 0x80, NF_ADDR P 0, page_addr P blockPage]
                          @ map (NF_WRDATA P) (take 512 buffer)
                          @ (case spareBuf of None \<Rightarrow> [] | Some b \<Rightarrow> map (NF_WRDATA P) (take 16 b))
                          @ [NF_CMD P 0x10, NF_WAITRB P polls, NF_CMD P 0x70]) s) (\<lambda>s.
         res_bind (NF_RDDATA P s) (\<lambda>(d, s).
         if d AND 1 \<noteq> 0
         then res_map (\<lambda>s. (BAD_BLOCK_WRITE, s)) (steps [NF_nFCE_H P, NF_MarkBadBlock P polls block] s)
         else res_map (\<lambda>s. (BAD_BLOCK_OK, s)) (NF_nFCE_H P s))))"

section \<open>Reading, writing and checking the flash\<close>

text \<open>
  The estimate of the time that remains, computed from the clock in floating point, is an argument
  that gives its text after each block.
\<close>

definition JTAG_ID_K9F2808U0C :: "16 word" where "JTAG_ID_K9F2808U0C = 0xec73"
definition JTAG_ID_K9F5608U0B :: "16 word" where "JTAG_ID_K9F5608U0B = 0xec75"

definition hexn :: "nat \<Rightarrow> 32 word \<Rightarrow> byte list" where
  "hexn n v = pad_left 48 n (hex_digits (unat v))"

definition show_block :: "32 word \<Rightarrow> byte list" where
  "show_block block = hexn 7 (block * 0x4000) @ bytes ''  ''"

definition progress_head :: "byte list" where
  "progress_head =
     [10] @ bytes ''Address  Progress'' @ [9, 9, 9] @ bytes ''   Remaining'' @ [10]
     @ bytes ''-------  --------------------------------  ---------'' @ [10]"

fun badcheck_loop :: "'w port \<Rightarrow> nat \<Rightarrow> nat \<Rightarrow> nat \<Rightarrow> nat \<Rightarrow> 'w flash \<Rightarrow> (nat \<times> 'w flash) res" where
  "badcheck_loop P polls i 0 badcount s = Ret (badcount, s)"
| "badcheck_loop P polls i (Suc n) badcount s =
     (let s = (if i mod 64 = 0 then print ([10, 32] @ hexn 8 (of_nat i * 0x4000) @ bytes '': '') s else s)
      in res_bind (NF_IsBadBlock P polls (of_nat i) s) (\<lambda>(bad, s).
         if bad \<noteq> 0xFF
         then badcheck_loop P polls (Suc i) n (Suc badcount) (print (bytes ''b'') s)
         else badcheck_loop P polls (Suc i) n badcount (print (bytes ''.'') s)))"

definition K9Fxx08_badcheck :: "'w port \<Rightarrow> nat \<Rightarrow> 16 word \<Rightarrow> 'w flash \<Rightarrow> 'w flash res" where
  "K9Fxx08_badcheck P polls type s =
     (let s = print (bytes ''Checking NAND Blocks'') s;
          numBlocks = (if type = JTAG_ID_K9F5608U0B then Ret 2048
                       else if type = JTAG_ID_K9F2808U0C then Ret 1024 else Fault)
      in res_bind numBlocks (\<lambda>n.
         res_map (\<lambda>(bad, s). print ([10] @ bytes ''Total Bad Blocks: '' @ dec_digits bad @ [10]) s)
           (badcheck_loop P polls 0 n 0 s)))"

text \<open>The pages of one block are written even after one of them failed.\<close>

fun write_pages :: "'w port \<Rightarrow> nat \<Rightarrow> 32 word \<Rightarrow> nat \<Rightarrow> nat \<Rightarrow> byte list \<Rightarrow> bool \<Rightarrow> 'w flash \<Rightarrow> (bool \<times> 'w flash) res"
where
  "write_pages P polls block i 0 src err s = Ret (err, s)"
| "write_pages P polls block i (Suc n) src err s =
     res_bind (NF_WritePage P polls block (of_nat i) (drop (i * 528) src)
                 (Some (drop (i * 528 + 512) src)) s) (\<lambda>(st, s).
     if st \<noteq> BAD_BLOCK_OK
     then write_pages P polls block (Suc i) n src True (print (bytes ''B'') s)
     else write_pages P polls block (Suc i) n src err (print (bytes ''w'') s))"

text \<open>\<open>fuel\<close> bounds the blocks tried, \<open>rest\<close> is what is left of the file.\<close>

fun write_loop ::
  "'w port \<Rightarrow> nat \<Rightarrow> (nat \<Rightarrow> byte list) \<Rightarrow> nat \<Rightarrow> 32 word \<Rightarrow> nat \<Rightarrow> byte list \<Rightarrow> 'w flash \<Rightarrow> (byte list \<times> 'w flash) res"
where
  "write_loop P polls left fuel block 0 rest s = Ret (rest, s)"
| "write_loop P polls left 0 block (Suc todo) rest s = Diverge"
| "write_loop P polls left (Suc fuel) block (Suc todo) rest s =
     (let s = print (show_block block) s
      in res_bind (NF_EraseBlock P polls block s) (\<lambda>(bad, s).
         res_bind
           (case bad of
              BAD_BLOCK_OK \<Rightarrow>
                (let src = take 0x4200 rest @ replicate (0x4200 - length rest) 0;
                     s = (if length rest < 0x4200 then print (bytes ''fread() error'' @ [10]) s else s)
                 in res_map (\<lambda>(err, s). (if err then Suc todo else todo, drop 0x4200 rest, s))
                      (write_pages P polls block 0 32 src False s))
            | BAD_BLOCK_FACTORY \<Rightarrow> Ret (Suc todo, rest, print (replicate 32 98) s)
            | BAD_BLOCK_ERASE \<Rightarrow> Ret (Suc todo, rest, print (replicate 32 66) s)
            | BAD_BLOCK_WRITE \<Rightarrow> Ret (Suc todo, rest, s))
           (\<lambda>(todo, rest, s).
              write_loop P polls left fuel (block + 1) todo rest (print (left fuel) s))))"

definition K9Fxx08_write ::
  "'w port \<Rightarrow> nat \<Rightarrow> (nat \<Rightarrow> byte list) \<Rightarrow> nat \<Rightarrow> byte list option \<Rightarrow> byte list \<Rightarrow> 32 word \<Rightarrow> 32 word
   \<Rightarrow> 'w flash \<Rightarrow> 'w flash res"
where
  "K9Fxx08_write P polls left fuel fi filename start len s =
     (let sourceBlock = start div 0x4000; numBlocks = len div 0x4000;
          s = print (bytes ''Writing NAND Flash:'' @ [10] @ bytes '' source'' @ [9] @ bytes ''     = '' @ filename
                     @ [10] @ bytes '' start addr  = 0x'' @ hex_digits (unat start)
                     @ [10] @ bytes '' length'' @ [9] @ bytes ''     = 0x'' @ hex_digits (unat len) @ [10, 10]) s
      in case fi of
           None \<Rightarrow> Ret (print (bytes ''error opening file '' @ filename @ [10]) s)
         | Some data \<Rightarrow>
             res_map snd (write_loop P polls left fuel sourceBlock (unat numBlocks) data
                            (print progress_head s)))"

text \<open>The pages of one block: what goes to the raw file, and to the file of good pages.\<close>

fun read_pages :: "'w port \<Rightarrow> nat \<Rightarrow> 32 word \<Rightarrow> nat \<Rightarrow> nat \<Rightarrow> 'w flash \<Rightarrow> (byte list \<times> byte list \<times> 'w flash) res"
where
  "read_pages P polls block page 0 s = Ret ([], [], s)"
| "read_pages P polls block page (Suc n) s =
     res_bind (NF_ReadPage P polls block (of_nat page) True s) (\<lambda>(ret, buffer, extra, s).
     let s = print (if extra ! 5 = 0xFF then bytes ''r'' else bytes ''b'') s
     in res_map (\<lambda>(raw, good, s).
          (buffer @ extra @ raw, (if extra ! 5 = 0xFF then buffer @ extra else []) @ good, s))
          (read_pages P polls block (Suc page) n s))"

text \<open>\<open>block\<close> is counted up at the end of the body, and again by the loop.\<close>

fun read_loop ::
  "'w port \<Rightarrow> nat \<Rightarrow> (nat \<Rightarrow> byte list) \<Rightarrow> 32 word \<Rightarrow> nat \<Rightarrow> 'w flash \<Rightarrow> (byte list \<times> byte list \<times> 'w flash) res"
where
  "read_loop P polls left block 0 s = Ret ([], [], s)"
| "read_loop P polls left block (Suc n) s =
     (let s = print (show_block block) s
      in res_bind (read_pages P polls block 0 32 s) (\<lambda>(raw, good, s).
         let s = print (left n) s; block = block + 1
         in res_map (\<lambda>(raw', good', s). (raw @ raw', good @ good', s))
              (read_loop P polls left (block + 1) n s)))"

definition K9Fxx08_read ::
  "'w port \<Rightarrow> nat \<Rightarrow> (nat \<Rightarrow> byte list) \<Rightarrow> bool \<Rightarrow> byte list \<Rightarrow> 32 word \<Rightarrow> 32 word \<Rightarrow> 'w flash
   \<Rightarrow> ((byte list \<times> byte list) option \<times> 'w flash) res"
where
  "K9Fxx08_read P polls left opened file start len s =
     (let sourceBlock = start div 0x4000; numBlocks = len div 0x4000;
          s = print (bytes ''Reading NAND Flash:'' @ [10] @ bytes '' destination   = '' @ file
                     @ [10] @ bytes '' raw data      = rawdata.bin''
                     @ [10] @ bytes '' start addr    = 0x'' @ hexn 8 start
                     @ [10] @ bytes '' length'' @ [9] @ bytes ''       = 0x'' @ hexn 8 len
                     @ [10] @ bytes '' num blocks    = 0x'' @ hexn 4 numBlocks @ [10, 10]) s
      in if \<not> opened then Ret (None, print (bytes ''error opening output file(s)'') s)
         else res_map (\<lambda>(raw, good, s). (Some (raw, good), print [10] s))
                (read_loop P polls left sourceBlock (unat numBlocks) (print progress_head s)))"

end
