(* ===== verification/Nand_Bus.thy ===== *)
theory Nand_Bus
  imports K9fxx08
begin

text \<open>
  What reaches the NAND flash: the scans of the boundary cells are read as the bus cycles of the
  flash, and every operation of \<^verbatim>\<open>k9fxx08.c\<close> is refined to the cycles it performs.
\<close>

section \<open>Bus cycles\<close>

text \<open>
  A command, address or data byte is latched by the rising edge of \<open>nFWE\<close>, a byte is asked for by
  the falling edge of \<open>nFRE\<close>, while the chip is selected.  \<open>Glitch\<close> is a byte that is latched while
  the processor does not drive the bus, or with both latch enables.
\<close>

datatype bus_event = Cmd byte | Addr byte | Data byte | Read | Glitch

definition pin :: "bool list \<Rightarrow> int \<Rightarrow> bool" where
  "pin v i = v ! nat i"

definition pin_byte :: "int list \<Rightarrow> bool list \<Rightarrow> byte" where
  "pin_byte idx v = horner_sum of_bool 2 (map (\<lambda>k. pin v (idx ! k)) [0..<8])"

definition latched :: "bool list \<Rightarrow> bus_event" where
  "latched v =
     (let d = pin_byte dataOut_cells v
      in if pin v DATA0_7_CON \<or> pin v CLE \<and> pin v ALE then Glitch
         else if pin v CLE then Cmd d else if pin v ALE then Addr d else Data d)"

definition bus_edge :: "bool list \<Rightarrow> bool list \<Rightarrow> bus_event list" where
  "bus_edge u v =
     (if pin u nFCE \<or> pin v nFCE then []
      else (if \<not> pin u nFWE \<and> pin v nFWE then [latched u] else [])
           @ (if pin u nFRE \<and> \<not> pin v nFRE then [Read] else []))"

text \<open>The levels driven, the last ones first, as the cycles they are.\<close>

fun bus_events :: "bool list list \<Rightarrow> bus_event list" where
  "bus_events (v # u # h) = bus_events (u # h) @ bus_edge u v"
| "bus_events h = []"

lemma bus_edge_same [simp]: "bus_edge v v = []"
  by (simp add: bus_edge_def)

lemma bus_events_replicate [simp]: "bus_events (replicate n v @ v # h) = bus_events (v # h)"
proof (induction n)
  case (Suc n)
  then show ?case by (cases n) simp_all
qed simp

section \<open>The cells as a vector of levels\<close>

definition vec :: "('w, 'z) cells_scheme \<Rightarrow> bool list" where
  "vec s = map (\<lambda>c. c = HIGH) (butlast (outCellValue s))"

definition put_vec :: "bool list \<Rightarrow> ('w, 'z) cells_scheme \<Rightarrow> ('w, 'z) cells_scheme" where
  "put_vec v s = s\<lparr>outCellValue := map level v @ [0]\<rparr>"

definition cells_ok :: "('w, 'z) cells_scheme \<Rightarrow> bool" where
  "cells_ok s \<longleftrightarrow>
     outCellValue s = map level (vec s) @ [0] \<and> length (vec s) = 427 \<and> length (inCellValue s) = 428
     \<and> dataOutCellIndex s = dataOut_cells \<and> dataInCellIndex s = dataIn_cells"

lemma level_HIGH [simp]: "level b = HIGH \<longleftrightarrow> b"
  by (simp add: level_def HIGH_def LOW_def)

lemma level_levels [simp]: "(\<lambda>b. level b = HIGH) = id"
  by auto

lemma levels: "HIGH = level True" "LOW = level False"
  by (simp_all add: level_def)

lemma vec_put_vec [simp]: "vec (put_vec v s) = v"
  by (simp add: vec_def put_vec_def comp_def)

lemma put_vec_put_vec [simp]: "put_vec v (put_vec u s) = put_vec v s"
  by (simp add: put_vec_def)

lemma cells_ok_put_vec [simp]:
  "cells_ok s \<Longrightarrow> cells_ok (put_vec v s) \<longleftrightarrow> length v = 427"
  by (simp add: cells_ok_def) (simp add: put_vec_def)

lemma cells_ok_length [simp]: "cells_ok s \<Longrightarrow> length (vec s) = 427"
  by (simp add: cells_ok_def)

lemma wr_levels:
  "0 \<le> i \<Longrightarrow> i < int (length v) \<Longrightarrow> wr (map level v @ [0]) i (level b) = Ret (map level (v[nat i := b]) @ [0])"
  by (simp add: wr_def list_update_append map_update nat_less_iff)

lemma set_pin:
  assumes "cells_ok s" "0 \<le> i" "i < 427"
  shows "S2410_SetPin i (level b) s = Ret (put_vec ((vec s)[nat i := b]) s)"
proof -
  have "outCellValue s = map level (vec s) @ [0]" "length (vec s) = 427"
    using assms(1) by (simp_all add: cells_ok_def)
  then show ?thesis
    using assms wr_levels [of i "vec s" b] by (simp add: S2410_SetPin_def put_vec_def)
qed

text \<open>The loop that spreads a byte over the data cells.\<close>

fun spread :: "int list \<Rightarrow> nat \<Rightarrow> nat \<Rightarrow> 32 word \<Rightarrow> bool list \<Rightarrow> bool list" where
  "spread idx i 0 d v = v"
| "spread idx i (Suc n) d v = spread idx (Suc i) n d (v[nat (idx ! i) := bit d i])"

lemma length_spread [simp]: "length (spread idx i n d v) = length v"
  by (induction n arbitrary: i v) auto

lemma put_bits_spread:
  "i + n \<le> length idx \<Longrightarrow> \<forall>k \<in> set idx. 0 \<le> k \<and> k < int (length v) \<Longrightarrow>
     put_bits idx i n d (map level v @ [0]) = Ret (map level (spread idx i n d v) @ [0])"
proof (induction n arbitrary: i v)
  case (Suc n)
  have bit: "(if d AND push_bit i 1 \<noteq> 0 then HIGH else LOW) = level (bit d i)"
    by (simp add: level_def bit_iff_and_push_bit_not_eq_0)
  have "idx ! i \<in> set idx"
    using Suc.prems by simp
  then have "0 \<le> idx ! i" "idx ! i < int (length v)" "i < length idx"
    using Suc.prems by auto
  then show ?case
    using Suc.prems by (simp only: put_bits.simps rd_int res_bind.simps bit wr_levels) (simp add: Suc.IH)
qed simp

definition set_data :: "byte \<Rightarrow> bool list \<Rightarrow> bool list" where
  "set_data d v = spread dataOut_cells 0 8 (ucast d) v"

lemma length_set_data [simp]: "length (set_data d v) = length v"
  by (simp add: set_data_def)

lemma dataOut_cells_range: "\<forall>k \<in> set dataOut_cells. 0 \<le> k \<and> k < 427"
  by (simp add: dataOut_cells_def)

lemma set_data_byte:
  assumes "cells_ok s"
  shows "S2410_SetDataByte d s = Ret (put_vec (set_data d (vec s)) s)"
proof -
  have "outCellValue s = map level (vec s) @ [0]" "length (vec s) = 427"
    "dataOutCellIndex s = dataOut_cells"
    using assms by (simp_all add: cells_ok_def)
  then show ?thesis
    using put_bits_spread [of 0 8 dataOut_cells "vec s" "ucast d"] dataOut_cells_range
    by (simp add: S2410_SetDataByte_def put_vec_def set_data_def) (simp add: dataOut_cells_def)
qed

lemma bit_ucast_byte [simp]: "k < 8 \<Longrightarrow> bit (ucast (d :: byte) :: 32 word) k = bit d k"
  by (simp add: bit_ucast_iff)

lemma set_data_updates:
  "set_data d v = v[98 := bit d 0, 96 := bit d 1, 94 := bit d 2, 92 := bit d 3,
     90 := bit d 4, 88 := bit d 5, 86 := bit d 6, 84 := bit d 7]"
  by (simp add: set_data_def dataOut_cells_def numeral_eq_Suc bit_ucast_iff)

lemma upt_0_8: "[0..<8] = [0, 1, 2, 3, 4, 5, 6, 7::nat]"
  by (simp add: upt_rec)

lemma byte_of_bits: "horner_sum of_bool 2 (map (bit d) [0..<8]) = (d :: byte)"
  by (simp add: horner_sum_bit_eq_take_bit take_bit_word_eq_self)

lemma nth_set_data:
  "length v = 427 \<Longrightarrow> j < 427 \<Longrightarrow> set_data d v ! j =
     (if j = 84 then bit d 7 else if j = 86 then bit d 6 else if j = 88 then bit d 5
      else if j = 90 then bit d 4 else if j = 92 then bit d 3 else if j = 94 then bit d 2
      else if j = 96 then bit d 1 else if j = 98 then bit d 0 else v ! j)"
  by (simp add: set_data_updates nth_list_update)

lemma pin_byte_set_data [simp]:
  assumes "length v = 427"
  shows "pin_byte dataOut_cells (set_data d v) = d"
proof -
  have "map (\<lambda>k. pin (set_data d v) (dataOut_cells ! k)) [0..<8] = map (bit d) [0..<8]"
    by (simp add: upt_0_8 pin_def nth_set_data [OF assms] dataOut_cells_def)
  then show ?thesis
    unfolding pin_byte_def by (simp only: byte_of_bits)
qed

lemma get_bits_levels:
  "i + n \<le> length idx \<Longrightarrow> \<forall>k \<in> set idx. 0 \<le> k \<and> k < int (length v) \<Longrightarrow> i + n \<le> 32 \<Longrightarrow>
     \<exists>x. get_bits idx i n (map level v @ r) d = Ret x
       \<and> (\<forall>j. bit x j \<longleftrightarrow> bit d j \<or> i \<le> j \<and> j < i + n \<and> pin v (idx ! j))"
proof (induction n arbitrary: i d)
  case (Suc n)
  have "idx ! i \<in> set idx"
    using Suc.prems by simp
  then have k: "0 \<le> idx ! i" "idx ! i < int (length v)" "i < length idx"
    using Suc.prems by auto
  then have "rd (map level v @ r) (idx ! i) = Ret (level (pin v (idx ! i)))"
    by (simp add: rd_def pin_def nth_append nat_less_iff)
  moreover define d' where "d' = (if pin v (idx ! i) then d OR push_bit i 1 else d)"
  obtain x where x: "get_bits idx (Suc i) n (map level v @ r) d' = Ret x"
      "bit x j \<longleftrightarrow> bit d' j \<or> Suc i \<le> j \<and> j < Suc i + n \<and> pin v (idx ! j)" for j
    using Suc.IH [of "Suc i" d'] Suc.prems by fastforce
  moreover have d': "bit d' j \<longleftrightarrow> bit d j \<or> j = i \<and> pin v (idx ! j)" for j
    using Suc.prems by (auto simp: d'_def bit_or_iff bit_mask simp del: push_bit_of_1)
  ultimately have "get_bits idx i (Suc n) (map level v @ r) d = Ret x"
    using k by (simp add: rd_int d'_def)
  moreover have "bit x j \<longleftrightarrow> bit d j \<or> i \<le> j \<and> j < i + Suc n \<and> pin v (idx ! j)" for j
    unfolding x(2) d' by (cases "j = i") auto
  ultimately show ?case
    by blast
qed auto

lemma dataIn_cells_range: "\<forall>k \<in> set dataIn_cells. 0 \<le> k \<and> k < 427"
  by (simp add: dataIn_cells_def)

lemma get_data_byte:
  assumes "inCellValue s = map level v @ r" "length v = 427" "dataInCellIndex s = dataIn_cells"
  shows "S2410_GetDataByte s = Ret (pin_byte dataIn_cells v)"
proof -
  have "length dataIn_cells = 32"
    by (simp add: dataIn_cells_def)
  then obtain x where x: "get_bits dataIn_cells 0 8 (map level v @ r) 0 = Ret x"
      "\<forall>j. bit x j \<longleftrightarrow> bit (0 :: 32 word) j \<or> j < 8 \<and> pin v (dataIn_cells ! j)"
    using get_bits_levels [of 0 8 dataIn_cells v r 0] dataIn_cells_range assms(2) by auto
  have "ucast x = pin_byte dataIn_cells v"
    by (rule bit_word_eqI) (simp add: pin_byte_def bit_horner_sum_bit_word_iff bit_ucast_iff x(2))
  then show ?thesis
    using assms x(1) by (simp add: S2410_GetDataByte_def)
qed

section \<open>A processor with a flash on its bus\<close>

text \<open>
  The board keeps what was driven.  The flash answers by the bus cycles it has seen: \<open>answer\<close> is the
  byte it puts on the bus when it is selected and asked for one.  It is ready again, whatever it was
  told, after fewer than \<open>polls\<close> scans.
\<close>

definition ready_pins :: "bool list \<Rightarrow> bool" where
  "ready_pins v \<longleftrightarrow> pin v nWAIT \<and> pin v NCON0"

locale nand_cable = jtag_cable P B chip
  for P :: "'w port" and B :: "bool list list board" and chip :: "'w \<Rightarrow> bool list list chip" +
  fixes answer :: "bus_event list \<Rightarrow> byte"
    and polls :: nat
  assumes drive: "drive B v h = v # h"
    and pins_length: "length (pins B h) = 427"
    and answers: "\<not> pin v nFCE \<Longrightarrow> \<not> pin v nFRE \<Longrightarrow> pin v DATA0_7_CON \<Longrightarrow>
      pin_byte dataIn_cells (pins B (v # h)) = answer (bus_events (v # h))"
    and becomes_ready: "\<exists>n < polls. ready_pins (pins B (replicate n v @ h))"
begin

definition hist :: "('w, 'z) cells_scheme \<Rightarrow> bool list list" where
  "hist s = c_env (chip (world s))"

definition ok :: "('w, 'z) cells_scheme \<Rightarrow> bool" where
  "ok s \<longleftrightarrow> cells_ok s \<and> idle (chip (world s)) \<and> c_instr (chip (world s)) = Extest"

lemma ok_put_vec [simp]: "ok s \<Longrightarrow> ok (put_vec v s) \<longleftrightarrow> length v = 427"
  by (simp add: ok_def) (simp add: put_vec_def)

lemma hist_put_vec [simp]: "hist (put_vec v s) = hist s"
  by (simp add: hist_def put_vec_def)

text \<open>A scan captures the pins, then drives the cells.\<close>

lemma scan:
  assumes "ok s"
  obtains w' where
    "scan_inout P s = Ret (s\<lparr>inCellValue := map level (pins B (hist s)) @ [inCellValue s ! 427], world := w'\<rparr>)"
    "scan_out P s = Ret (s\<lparr>world := w'\<rparr>)"
    "idle (chip w')" "c_instr (chip w') = Extest" "c_env (chip w') = vec s # hist s"
proof -
  have s: "outCellValue s = map level (vec s) @ [0]" "length (vec s) = 427" "length (inCellValue s) = 428"
    "idle (chip (world s))" "c_instr (chip (world s)) = Extest"
    using assms by (simp_all add: ok_def cells_ok_def)
  have cs: "cstr (outCellValue s) = map level (vec s)"
    unfolding s(1) by (rule cstr_append_nul) (auto simp: level_def HIGH_def LOW_def)
  then have ne: "cstr (outCellValue s) \<noteq> []" "0 \<in> set (outCellValue s)"
    using s(1,2) by (auto) 
  have bs: "map (\<lambda>c. c = HIGH) (cstr (outCellValue s)) = vec s"
    by (simp add: cs comp_def)
  have d: "drop 427 (inCellValue s) = [inCellValue s ! 427]"
    using s(3) by (simp add: Cons_nth_drop_Suc [symmetric])
  obtain w' where w': "JTAG_ShiftDRState P (outCellValue s) (inCellValue s) (world s)
        = Ret (map level (pins B (hist s)) @ [inCellValue s ! 427], w')"
      "chip w' = drive_pins B ((chip (world s))\<lparr>c_tdo := last (pins B (hist s)),
         c_shift := vec s, c_latch := vec s\<rparr>)"
  proof (rule shift_dr [of "world s" "outCellValue s" "pins B (hist s)" "inCellValue s" "vec s"])
    show "boundary (chip (world s))" "pins B (hist s) = pins B (c_env (chip (world s)))"
      by (simp_all add: boundary_def s(5) hist_def)
    show "length (pins B (hist s)) = length (cstr (outCellValue s))"
      "length (pins B (hist s)) \<le> length (inCellValue s)"
      unfolding cs pins_length length_map s(2,3) by simp_all
  qed (use s(4) ne bs pins_length d in simp_all)
  show thesis
  proof (rule that)
    show "scan_inout P s = Ret (s\<lparr>inCellValue := map level (pins B (hist s)) @ [inCellValue s ! 427], world := w'\<rparr>)"
      by (simp add: scan_inout_def w'(1))
    have "length (cstr (outCellValue s)) \<le> length (inCellValue s)"
      unfolding cs length_map s(2,3) by simp
    then show "scan_out P s = Ret (s\<lparr>world := w'\<rparr>)"
      unfolding scan_out_def by (simp only: shift_dr_no_tdo [OF ne(2,1)] w'(1) res_map.simps snd_conv)
  qed (use s w'(2) in \<open>simp_all add: drive_pins_def drive idle_def hist_def\<close>)
qed

end

section \<open>Sequences of settings and scans\<close>

text \<open>The spare area that \<^verbatim>\<open>NF_MarkBadBlock\<close> writes.\<close>

definition marked :: "byte list" where
  "marked = [0xff, 0xff, 0xff, 0xff, 0xff, 0x44] @ replicate 10 0xff"

lemmas pin_numbers = CLE_def ALE_def nFWE_def nFRE_def nFCE_def DATA0_7_CON_def

lemma pin_update [simp]: "n < length v \<Longrightarrow> pin (v[n := b]) i = (if nat i = n then b else pin v i)"
  by (simp add: pin_def)

lemma pin_set_data [simp]:
  "length v = 427 \<Longrightarrow> 98 < i \<Longrightarrow> i < 427 \<Longrightarrow> pin (set_data d v) i = pin v i"
  by (cases i) (auto simp: pin_def nth_set_data)

lemma vec_world [simp]:
  "vec (s\<lparr>world := w\<rparr>) = vec s" "vec (s\<lparr>inCellValue := b\<rparr>) = vec s"
  by (simp_all add: vec_def)

lemma cells_ok_world [simp]:
  "cells_ok (s\<lparr>world := w\<rparr>) = cells_ok s"
  "cells_ok s \<Longrightarrow> cells_ok (s\<lparr>inCellValue := b\<rparr>) \<longleftrightarrow> length b = 428"
  by (simp_all add: cells_ok_def)

lemma unchanged_put_vec [simp]: "seBuf (put_vec v s) = seBuf s" "console (put_vec v s) = console s"
  by (simp_all add: put_vec_def)

context nand_cable
begin

text \<open>\<open>runs f g\<close>: the step \<open>f\<close> does \<open>g\<close> to the cells and to what was driven.\<close>

definition runs ::
  "('w flash \<Rightarrow> 'w flash res) \<Rightarrow> (bool list \<times> bool list list \<Rightarrow> bool list \<times> bool list list) \<Rightarrow> bool"
where
  "runs f g \<longleftrightarrow> (\<forall>s. ok s \<longrightarrow> (\<exists>s'. f s = Ret s' \<and> ok s' \<and> (vec s', hist s') = g (vec s, hist s)
     \<and> seBuf s' = seBuf s \<and> console s' = console s))"

lemma ok_cells: "ok s \<Longrightarrow> cells_ok s"
  by (simp add: ok_def)

lemma ok_length [simp]: "ok s \<Longrightarrow> length (vec s) = 427"
  by (simp add: ok_def)

lemma runs_pin: "0 \<le> i \<Longrightarrow> i < 427 \<Longrightarrow> runs (S2410_SetPin i (level b)) (\<lambda>(v, h). (v[nat i := b], h))"
  by (auto simp: runs_def set_pin [OF ok_cells])

lemma runs_data: "runs (S2410_SetDataByte d) (\<lambda>(v, h). (set_data d v, h))"
  by (auto simp: runs_def set_data_byte [OF ok_cells])

lemma runs_scan: "runs (scan_out P) (\<lambda>(v, h). (v, v # h))" "runs (scan_inout P) (\<lambda>(v, h). (v, v # h))"
proof -
  have "(\<exists>s'. scan_out P s = Ret s' \<and> ok s' \<and> (vec s', hist s') = (vec s, vec s # hist s)
      \<and> seBuf s' = seBuf s \<and> console s' = console s)
    \<and> (\<exists>s'. scan_inout P s = Ret s' \<and> ok s' \<and> (vec s', hist s') = (vec s, vec s # hist s)
      \<and> seBuf s' = seBuf s \<and> console s' = console s)" if s: "ok s" for s :: "'w flash"
  proof -
    obtain w' where
      "scan_inout P s = Ret (s\<lparr>inCellValue := map level (pins B (hist s)) @ [inCellValue s ! 427], world := w'\<rparr>)"
      "scan_out P s = Ret (s\<lparr>world := w'\<rparr>)"
      "idle (chip w')" "c_instr (chip w') = Extest" "c_env (chip w') = vec s # hist s"
      using scan [OF s] .
    then show ?thesis
      using ok_cells [OF s] pins_length by (simp add: ok_def hist_def)
  qed
  then show "runs (scan_out P) (\<lambda>(v, h). (v, v # h))" "runs (scan_inout P) (\<lambda>(v, h). (v, v # h))"
    unfolding runs_def by auto
qed

lemma runs_steps:
  "runs (steps []) (\<lambda>a. a)"
  "runs f g \<Longrightarrow> runs (steps fs) gs \<Longrightarrow> runs (steps (f # fs)) (\<lambda>a. gs (g a))"
  by (simp add: runs_def) (fastforce simp: runs_def)

lemma runs_set_pins:
  "runs (set_pins []) (\<lambda>a. a)"
  "runs (S2410_SetPin i x) g \<Longrightarrow> runs (set_pins ps) gs \<Longrightarrow> runs (set_pins ((i, x) # ps)) (\<lambda>a. gs (g a))"
  by (simp add: runs_def) (fastforce simp: runs_def)

text \<open>
  Between two operations the strobes are high, and the cells do not enable a latch; the chip is
  selected on the pins and in the cells, or in neither.
\<close>

definition bus_idle :: "bool list \<times> bool list list \<Rightarrow> bool" where
  "bus_idle = (\<lambda>(v, h). h \<noteq> [] \<and> pin (hd h) nFWE \<and> pin (hd h) nFRE \<and> pin v nFWE \<and> pin v nFRE
     \<and> \<not> pin v CLE \<and> \<not> pin v ALE)"

definition bus_sel :: "bool list \<times> bool list list \<Rightarrow> bool" where
  "bus_sel = (\<lambda>(v, h). \<not> pin v nFCE \<and> \<not> pin (hd h) nFCE)"

definition calm :: "'w flash \<Rightarrow> bool" where
  "calm s \<longleftrightarrow> ok s \<and> bus_idle (vec s, hist s) \<and> length (seBuf s) = 16
     \<and> (seBuf s)[0 := 0xff, 1 := 0xff, 2 := 0xff, 5 := 0x44] = marked"

definition sel :: "'w flash \<Rightarrow> bool" where
  "sel s \<longleftrightarrow> bus_sel (vec s, hist s)"

definition events :: "'w flash \<Rightarrow> bus_event list" where
  "events s = bus_events (hist s)"

text \<open>
  \<open>does p f q es\<close>: from a calm state, selected if \<open>p\<close>, the step \<open>f\<close> returns after the bus cycles
  \<open>es\<close> in a calm state, selected if \<open>q\<close>.
\<close>

definition does :: "bool \<Rightarrow> ('w flash \<Rightarrow> 'w flash res) \<Rightarrow> bool \<Rightarrow> bus_event list \<Rightarrow> bool" where
  "does p f q es \<longleftrightarrow> (\<forall>s. calm s \<and> (p \<longrightarrow> sel s) \<longrightarrow>
     (\<exists>s'. f s = Ret s' \<and> calm s' \<and> (q \<longrightarrow> sel s') \<and> events s' = events s @ es \<and> console s' = console s))"

lemma doesI:
  assumes "runs f g"
    and "\<And>v h. length v = 427 \<Longrightarrow> bus_idle (v, h) \<Longrightarrow> (p \<Longrightarrow> bus_sel (v, h)) \<Longrightarrow>
      bus_idle (g (v, h)) \<and> (q \<longrightarrow> bus_sel (g (v, h)))
      \<and> bus_events (snd (g (v, h))) = bus_events h @ es"
  shows "does p f q es"
  unfolding does_def
proof (intro allI impI)
  fix s assume s: "calm s \<and> (p \<longrightarrow> sel s)"
  then obtain s' where "f s = Ret s'" "ok s'" "(vec s', hist s') = g (vec s, hist s)"
      "seBuf s' = seBuf s" "console s' = console s"
    using assms(1) unfolding runs_def calm_def by blast
  moreover have "ok s" "bus_idle (vec s, hist s)" "p \<Longrightarrow> bus_sel (vec s, hist s)"
    using s by (auto simp: calm_def sel_def)
  ultimately show "\<exists>s'. f s = Ret s' \<and> calm s' \<and> (q \<longrightarrow> sel s') \<and> events s' = events s @ es
      \<and> console s' = console s"
    using s assms(2) [of "vec s" "hist s"] unfolding calm_def sel_def events_def
    by (metis ok_length snd_conv)
qed

lemmas runs_rules = runs_steps runs_set_pins runs_pin runs_data runs_scan

lemmas bus_defs = bus_idle_def bus_sel_def bus_edge_def latched_def pin_numbers

lemma bus_events_Cons: "h \<noteq> [] \<Longrightarrow> bus_events (v # h) = bus_events h @ bus_edge (hd h) v"
  by (cases h) auto

lemma byte_255 [simp]: "(x :: byte) AND 255 = x"
proof -
  have "(255 :: byte) = - 1" by simp
  then show ?thesis by (simp only: and.right_neutral)
qed

lemma does_cycles:
  "does False (NF_CMD P c) True [Cmd c]"
  "does False (NF_ADDR P a) True [Addr (ucast a)]"
  "does True (NF_WRDATA P d) True [Data d]"
  "does False (NF_nFCE_L P) True []"
  "does False (NF_nFCE_H P) False []"
  unfolding NF_CMD_def NF_ADDR_def NF_WRDATA_def NF_nFCE_L_def NF_nFCE_H_def levels
  by (rule doesI, ((rule runs_rules | simp add: pin_numbers)+)[1], simp add: bus_defs bus_events_Cons)+

text \<open>Reading a byte returns what the flash answers to the read cycle.\<close>

definition gives ::
  "bool \<Rightarrow> ('w flash \<Rightarrow> ('a \<times> 'w flash) res) \<Rightarrow> bool \<Rightarrow> (bus_event list \<Rightarrow> 'a \<times> bus_event list) \<Rightarrow> bool"
where
  "gives p f q F \<longleftrightarrow> (\<forall>s. calm s \<and> (p \<longrightarrow> sel s) \<longrightarrow>
     (\<exists>s'. f s = Ret (fst (F (events s)), s') \<and> calm s' \<and> (q \<longrightarrow> sel s')
        \<and> events s' = snd (F (events s)) \<and> console s' = console s))"

lemma get_pin:
  "inCellValue s = map level v @ r \<Longrightarrow> 0 \<le> i \<Longrightarrow> nat i < length v \<Longrightarrow>
     S2410_GetPin i s = Ret (level (pin v i))"
  by (simp add: S2410_GetPin_def rd_def pin_def nth_append nat_less_iff)

lemma WAITRB_returns:
  assumes "ok s" "ready_pins (pins B (replicate n (vec s) @ hist s))" "n < k"
  shows "\<exists>j s'. NF_WAITRB P k s = Ret s' \<and> ok s' \<and> vec s' = vec s
    \<and> hist s' = replicate j (vec s) @ vec s # hist s \<and> seBuf s' = seBuf s \<and> console s' = console s"
  using assms
proof (induction k arbitrary: s n)
  case (Suc k)
  obtain w' where w':
    "scan_inout P s = Ret (s\<lparr>inCellValue := map level (pins B (hist s)) @ [inCellValue s ! 427], world := w'\<rparr>)"
    "idle (chip w')" "c_instr (chip w') = Extest" "c_env (chip w') = vec s # hist s"
    using scan [OF Suc.prems(1)] by metis
  define t where "t = s\<lparr>inCellValue := map level (pins B (hist s)) @ [inCellValue s ! 427], world := w'\<rparr>"
  have t: "ok t" "vec t = vec s" "hist t = vec s # hist s" "seBuf t = seBuf s" "console t = console s"
    using w' pins_length ok_cells [OF Suc.prems(1)] by (simp_all add: t_def ok_def hist_def)
  have pins: "S2410_GetPin nWAIT t = Ret (level (pin (pins B (hist s)) nWAIT))"
    "S2410_GetPin NCON0 t = Ret (level (pin (pins B (hist s)) NCON0))"
    by (rule get_pin; simp add: t_def pins_length nWAIT_def NCON0_def)+
  have step: "NF_WAITRB P (Suc k) s
      = (if ready_pins (pins B (hist s)) then Ret t else NF_WAITRB P k t)"
    by (simp add: w'(1) t_def [symmetric] pins ready_pins_def)
  show ?case
  proof (cases "ready_pins (pins B (hist s))")
    case True
    then show ?thesis
      using t step by (intro exI [of _ 0] exI [of _ t]) simp
  next
    case False
    then obtain m where m: "n = Suc m"
      using Suc.prems(2) by (cases n) auto
    then have "ready_pins (pins B (replicate m (vec t) @ hist t))" "m < k"
      using Suc.prems(2,3) t by (simp_all add: replicate_app_Cons_same)
    from Suc.IH [OF t(1) this] obtain j s' where "NF_WAITRB P k t = Ret s'" "ok s'" "vec s' = vec s"
      "hist s' = replicate (Suc j) (vec s) @ vec s # hist s" "seBuf s' = seBuf s" "console s' = console s"
      using t by (auto simp: replicate_app_Cons_same)
    then show ?thesis
      using False step by metis
  qed
qed simp

lemma does_WAITRB: "does p (NF_WAITRB P polls) p []"
  unfolding does_def
proof (intro allI impI)
  fix s assume s: "calm s \<and> (p \<longrightarrow> sel s)"
  obtain n where "n < polls" "ready_pins (pins B (replicate n (vec s) @ hist s))"
    using becomes_ready by blast
  with s obtain j s' where s': "NF_WAITRB P polls s = Ret s'" "ok s'" "vec s' = vec s"
    "hist s' = replicate j (vec s) @ vec s # hist s" "seBuf s' = seBuf s" "console s' = console s"
    using WAITRB_returns [of s n polls] by (auto simp: calm_def)
  have "hd (hist s') = vec s"
    using s'(4) by (cases j) auto
  then show "\<exists>s'. NF_WAITRB P polls s = Ret s' \<and> calm s' \<and> (p \<longrightarrow> sel s') \<and> events s' = events s @ []
      \<and> console s' = console s"
    using s s' by (auto simp: calm_def sel_def events_def bus_defs bus_events_Cons)
qed

lemma gives_RDDATA: "gives True (NF_RDDATA P) True (\<lambda>es. (answer (es @ [Read]), es @ [Read]))"
  unfolding gives_def
proof (intro allI impI)
  fix s assume s: "calm s \<and> (True \<longrightarrow> sel s)"
  define v1 v2 where "v1 = (vec s)[99 := True, 171 := False]" and "v2 = (vec s)[99 := True, 171 := True]"
  have "runs (steps [S2410_SetPin DATA0_7_CON HIGH, S2410_SetPin nFRE LOW, scan_out P,
          S2410_SetPin nFRE HIGH])
        (\<lambda>(v, h). (v[99 := True, 171 := True], v[99 := True, 171 := False] # h))"
  proof -
    have "(\<lambda>(v, h). (v[99 := True, 171 := True], v[99 := True, 171 := False] # h))
      = (\<lambda>a. (\<lambda>(v, h). (v[nat nFRE := True], h)) ((\<lambda>(v, h). (v, v # h))
          ((\<lambda>(v, h). (v[nat nFRE := False], h)) ((\<lambda>(v, h). (v[nat DATA0_7_CON := True], h)) a))))"
      by (auto simp: fun_eq_iff pin_numbers list_update_swap)
    then show ?thesis
      unfolding levels by (simp only:) ((rule runs_rules | simp add: pin_numbers)+)
  qed
  then obtain s1 where s1: "steps [S2410_SetPin DATA0_7_CON HIGH, S2410_SetPin nFRE LOW, scan_out P,
          S2410_SetPin nFRE HIGH] s = Ret s1" "ok s1" "vec s1 = v2" "hist s1 = v1 # hist s"
      "seBuf s1 = seBuf s" "console s1 = console s"
    using s by (auto simp: runs_def calm_def v1_def v2_def)
  obtain w' where w':
    "scan_inout P s1 = Ret (s1\<lparr>inCellValue := map level (pins B (hist s1)) @ [inCellValue s1 ! 427], world := w'\<rparr>)"
    "idle (chip w')" "c_instr (chip w') = Extest" "c_env (chip w') = vec s1 # hist s1"
    using scan [OF s1(2)] by metis
  define t where "t = s1\<lparr>inCellValue := map level (pins B (hist s1)) @ [inCellValue s1 ! 427], world := w'\<rparr>"
  have t: "ok t" "vec t = v2" "hist t = v2 # v1 # hist s" "seBuf t = seBuf s" "console t = console s"
    using w' pins_length ok_cells [OF s1(2)] s1 by (simp_all add: t_def ok_def hist_def)
  have v: "length (vec s) = 427" "bus_idle (vec s, hist s)" "bus_sel (vec s, hist s)"
    using s by (auto simp: calm_def sel_def)
  have ev: "bus_events (v1 # hist s) = events s @ [Read]"
    using v by (simp add: events_def bus_events_Cons bus_defs v1_def)
  have "\<not> pin v1 nFCE" "\<not> pin v1 nFRE" "pin v1 DATA0_7_CON"
    using v by (simp_all add: bus_defs v1_def)
  from answers [OF this, of "hist s"]
  have "pin_byte dataIn_cells (pins B (v1 # hist s)) = answer (events s @ [Read])"
    unfolding ev .
  moreover have "inCellValue t = map level (pins B (v1 # hist s)) @ [inCellValue s1 ! 427]"
    by (simp add: t_def s1(4))
  moreover have "dataInCellIndex t = dataIn_cells"
    using ok_cells [OF t(1)] by (simp add: cells_ok_def)
  ultimately have "S2410_GetDataByte t = Ret (answer (events s @ [Read]))"
    using get_data_byte [OF _ pins_length] by metis
  then have "NF_RDDATA P s = Ret (answer (events s @ [Read]), t)"
    using s1(1) w'(1) steps_append [of "[S2410_SetPin DATA0_7_CON HIGH, S2410_SetPin nFRE LOW, scan_out P,
          S2410_SetPin nFRE HIGH]" "[scan_inout P]" s]
    by (simp add: NF_RDDATA_def t_def)
  moreover have "bus_idle (vec t, hist t)" "bus_sel (vec t, hist t)" "bus_edge v1 v2 = []"
    using v by (simp_all add: t bus_defs v1_def v2_def)
  moreover have "events t = events s @ [Read]"
    using ev calculation(4) by (simp add: events_def t)
  ultimately show "\<exists>s'. NF_RDDATA P s = Ret (fst ((\<lambda>es. (answer (es @ [Read]), es @ [Read])) (events s)), s')
      \<and> calm s' \<and> (True \<longrightarrow> sel s') \<and> events s' = snd ((\<lambda>es. (answer (es @ [Read]), es @ [Read])) (events s))
      \<and> console s' = console s"
    using s t by (simp add: calm_def sel_def)
qed

end

section \<open>Operations as bus cycles\<close>

definition addr_cycles :: "32 word \<Rightarrow> bus_event list" where
  "addr_cycles blockPage =
     [Addr (ucast (blockPage AND 0xff)), Addr (ucast (drop_bit 8 blockPage AND 0x7f))]"

definition mark_cycles :: "32 word \<Rightarrow> 32 word \<Rightarrow> bus_event list" where
  "mark_cycles lo hi = [Cmd 0x50, Addr 5, Addr (ucast lo), Addr (ucast hi), Read]"

definition mark_bad_cycles :: "32 word \<Rightarrow> bus_event list" where
  "mark_bad_cycles block =
     [Cmd 0x50, Cmd 0x80, Addr 0] @ addr_cycles (push_bit 5 block) @ map Data marked @ [Cmd 0x10, Cmd 0x70]"

definition program_cycles :: "32 word \<Rightarrow> byte list \<Rightarrow> byte list \<Rightarrow> bus_event list" where
  "program_cycles blockPage buffer spare =
     [Cmd 0x00, Cmd 0x80, Addr 0] @ addr_cycles blockPage @ map Data buffer @ map Data spare
     @ [Cmd 0x10, Cmd 0x70, Read]"

definition bad_mark :: "(bus_event list \<Rightarrow> byte) \<Rightarrow> 32 word \<Rightarrow> bus_event list \<Rightarrow> byte \<times> bus_event list" where
  "bad_mark ans block e =
     (let bp = push_bit 5 block; hi = drop_bit 8 bp AND 0x7f;
          e1 = e @ mark_cycles (bp AND 0xff) hi; e2 = e1 @ mark_cycles ((bp AND 0xff) + 1) hi
      in (if ans e1 \<noteq> 0xff then ans e1 else ans e2, e2))"

context nand_cable
begin

lemma does_any: "does False f q es \<Longrightarrow> does p f q es"
  by (auto simp: does_def)

lemma does_forget: "does p f True es \<Longrightarrow> does p f q es"
  by (fastforce simp: does_def)

lemma does_nil: "does p (steps []) p []"
  by (auto simp: does_def)

lemma does_cons:
  assumes "does p f q es" "does q (steps fs) r es'"
  shows "does p (steps (f # fs)) r (es @ es')"
  unfolding does_def
proof (intro allI impI)
  fix s assume "calm s \<and> (p \<longrightarrow> sel s)"
  then obtain s1 where "f s = Ret s1" "calm s1" "q \<longrightarrow> sel s1" "events s1 = events s @ es" "console s1 = console s"
    using assms(1) unfolding does_def by blast
  moreover from this obtain s2 where "steps fs s1 = Ret s2" "calm s2" "r \<longrightarrow> sel s2"
      "events s2 = events s1 @ es'" "console s2 = console s1"
    using assms(2) unfolding does_def by blast
  ultimately show "\<exists>s'. steps (f # fs) s = Ret s' \<and> calm s' \<and> (r \<longrightarrow> sel s')
      \<and> events s' = events s @ es @ es' \<and> console s' = console s"
    by simp
qed

lemma does_append:
  "does p (steps fs) q es \<Longrightarrow> does q (steps gs) r es' \<Longrightarrow> does p (steps (fs @ gs)) r (es @ es')"
proof -
  have "steps (fs @ gs) = steps (steps fs # gs)"
    by (rule ext) (simp add: steps_append)
  then show "does p (steps fs) q es \<Longrightarrow> does q (steps gs) r es' \<Longrightarrow> ?thesis"
    by (simp only: does_cons)
qed

lemma does_data: "does True (steps (map (NF_WRDATA P) ds)) True (map Data ds)"
proof (induction ds)
  case (Cons d ds)
  then show ?case
    using does_cons [OF does_cycles(3), of "map (NF_WRDATA P) ds" True "map Data ds" d]
    by (simp del: steps.simps)
qed (simp add: does_nil del: steps.simps)

text \<open>The rules for operations that return a value.\<close>

lemma gives_after:
  assumes "does p f q es" "gives q g r F"
  shows "gives p (\<lambda>s. res_bind (f s) g) r (\<lambda>e. F (e @ es))"
  using assms unfolding does_def gives_def by (metis res_bind.simps(1))

lemma gives_bind:
  assumes "gives p f q F" "\<And>x. gives q (\<lambda>s. g (x, s)) r (G x)"
  shows "gives p (\<lambda>s. res_bind (f s) g) r (\<lambda>e. G (fst (F e)) (snd (F e)))"
  unfolding gives_def
proof (intro allI impI)
  fix s assume "calm s \<and> (p \<longrightarrow> sel s)"
  then obtain s1 where s1: "f s = Ret (fst (F (events s)), s1)" "calm s1" "q \<longrightarrow> sel s1"
      "events s1 = snd (F (events s))" "console s1 = console s"
    using assms(1) unfolding gives_def by blast
  then show "\<exists>s'. res_bind (f s) g = Ret (fst (G (fst (F (events s))) (snd (F (events s)))), s')
      \<and> calm s' \<and> (r \<longrightarrow> sel s') \<and> events s' = snd (G (fst (F (events s))) (snd (F (events s))))
      \<and> console s' = console s"
    using assms(2) [of "fst (F (events s))"] unfolding gives_def by fastforce
qed

lemma gives_does: "does p f q es \<Longrightarrow> gives p (\<lambda>s. res_map (\<lambda>s. (x, s)) (f s)) q (\<lambda>e. (x, e @ es))"
  unfolding does_def gives_def by (metis res_map.simps(1) fst_conv snd_conv)

lemma gives_ret: "gives p (\<lambda>s. Ret (x, s)) p (\<lambda>e. (x, e))"
  by (simp add: gives_def)

lemma gives_if:
  "(b \<Longrightarrow> gives p f q F) \<Longrightarrow> (\<not> b \<Longrightarrow> gives p g q G) \<Longrightarrow>
     gives p (\<lambda>s. if b then f s else g s) q (\<lambda>e. if b then F e else G e)"
  by (cases b) simp_all

lemma gives_any: "gives False f q F \<Longrightarrow> gives p f q F"
  by (auto simp: gives_def)

lemma does_page_addr: "does p (page_addr P bp) True (addr_cycles bp)"
  unfolding page_addr_def addr_cycles_def
  using does_any [OF does_cons [OF does_cycles(2) does_any [OF does_cons [OF does_cycles(2) does_nil]]]] by simp

lemma gives_eq: "gives p f q F \<Longrightarrow> (\<And>e. F e = G e) \<Longrightarrow> gives p f q G"
  by (simp add: gives_def)

lemmas does_seq = does_cons [OF does_any [OF does_cycles(1)]] does_cons [OF does_any [OF does_cycles(2)]]
  does_cons [OF does_cycles(3)] does_cons [OF does_any [OF does_cycles(4)]] does_cons [OF does_any [OF does_cycles(5)]]
  does_cons [OF does_page_addr] does_cons [OF does_WAITRB] does_nil

text \<open>The end of an operation that deselects the flash and returns.\<close>

lemmas gives_end = gives_does [OF does_any [OF does_cycles(5)]]

lemma read_mark:
  "gives p (read_mark P polls lo hi) False (\<lambda>e. (answer (e @ mark_cycles lo hi), e @ mark_cycles lo hi))"
  unfolding read_mark_def split_def
  by (rule gives_eq, rule gives_after, (rule does_seq)+, rule gives_bind [OF gives_RDDATA],
      simp only: fst_conv snd_conv, rule gives_end)
     (simp add: mark_cycles_def)

lemma IsBadBlock: "gives p (NF_IsBadBlock P polls block) False (bad_mark answer block)"
  unfolding NF_IsBadBlock_def split_def Let_def
  by (rule gives_eq, rule gives_bind [OF read_mark], simp only: fst_conv snd_conv,
      rule gives_bind [OF read_mark], simp only: fst_conv snd_conv, rule gives_ret)
     (simp add: bad_mark_def Let_def)

end

definition erase_cycles :: "32 word \<Rightarrow> bus_event list" where
  "erase_cycles block = [Cmd 0x60] @ addr_cycles (push_bit 5 block) @ [Cmd 0xd0, Cmd 0x70, Read]"

definition reply_bytes :: "(bus_event list \<Rightarrow> byte) \<Rightarrow> nat \<Rightarrow> bus_event list \<Rightarrow> byte list" where
  "reply_bytes ans n e = map (\<lambda>k. ans (e @ replicate (Suc k) Read)) [0..<n]"

definition erase_block ::
  "(bus_event list \<Rightarrow> byte) \<Rightarrow> 32 word \<Rightarrow> bus_event list \<Rightarrow> block_status \<times> bus_event list"
where
  "erase_block ans block e =
     (let (bad, e) = bad_mark ans block e
      in if block \<noteq> 0 \<and> bad \<noteq> 0xFF then (BAD_BLOCK_FACTORY, e)
         else let e = e @ erase_cycles block
              in if ans e AND 1 \<noteq> 0 then (BAD_BLOCK_ERASE, e @ mark_bad_cycles block)
                 else (BAD_BLOCK_OK, e))"

definition program_page ::
  "(bus_event list \<Rightarrow> byte) \<Rightarrow> 32 word \<Rightarrow> 32 word \<Rightarrow> byte list \<Rightarrow> byte list \<Rightarrow> bus_event list
   \<Rightarrow> block_status \<times> bus_event list"
where
  "program_page ans block page buffer spare e =
     (let e = e @ program_cycles (push_bit 5 block + page) (take 512 buffer) (take 16 spare)
      in if ans e AND 1 \<noteq> 0 then (BAD_BLOCK_WRITE, e @ mark_bad_cycles block) else (BAD_BLOCK_OK, e))"

definition fetch_page ::
  "(bus_event list \<Rightarrow> byte) \<Rightarrow> 32 word \<Rightarrow> 32 word \<Rightarrow> bus_event list
   \<Rightarrow> (byte \<times> byte list \<times> byte list) \<times> bus_event list"
where
  "fetch_page ans block page e =
     (let e = e @ [Cmd 0x00, Addr 0] @ addr_cycles (push_bit 5 block + (page AND 0x1f));
          bs = reply_bytes ans 528 e
      in ((bs ! 517, take 512 bs, drop 512 bs), e @ replicate 528 Read))"

lemma res_map_bind: "res_map h (res_bind m f) = res_bind m (\<lambda>x. res_map h (f x))"
  by (cases m) auto

lemma res_map_map: "res_map h (res_map g m) = res_map (\<lambda>x. h (g x)) m"
  by (cases m) auto

lemma length_reply_bytes [simp]: "length (reply_bytes ans n e) = n"
  by (simp add: reply_bytes_def)

lemma reply_bytes_add:
  "reply_bytes ans (m + n) e = reply_bytes ans m e @ reply_bytes ans n (e @ replicate m Read)"
proof (rule nth_equalityI)
  fix k assume "k < length (reply_bytes ans (m + n) e)"
  then have "k < m + n" "k < m \<or> k - m < n"
    by (auto simp: reply_bytes_def)
  then show "reply_bytes ans (m + n) e ! k = (reply_bytes ans m e @ reply_bytes ans n (e @ replicate m Read)) ! k"
    by (cases "k < m")
       (simp_all add: reply_bytes_def nth_append replicate_add [symmetric] del: replicate_Suc)
qed simp

lemma reads_528: "replicate 512 Read @ replicate 16 Read = replicate 528 Read"
  by (simp flip: replicate_add)

context nand_cable
begin

lemma MarkBadBlock: "does p (NF_MarkBadBlock P polls block) False (mark_bad_cycles block)"
proof -
  define L where "L = [NF_nFCE_L P, NF_CMD P 0x50, NF_CMD P 0x80, NF_ADDR P 0x0, page_addr P (push_bit 5 block)]
      @ map (NF_WRDATA P) marked @ [NF_CMD P 0x10, NF_WAITRB P polls, NF_CMD P 0x70, NF_nFCE_H P]"
  have L: "does p (steps L) False (([] @ [Cmd 0x50] @ [Cmd 0x80] @ [Addr (ucast (0 :: 32 word))]
      @ addr_cycles (push_bit 5 block) @ []) @ map Data marked @ [Cmd 0x10] @ [] @ [Cmd 0x70] @ [] @ [])"
    unfolding L_def by (rule does_append, (rule does_seq)+, rule does_append [OF does_data], (rule does_seq)+)
  show ?thesis
    unfolding does_def
  proof (intro allI impI)
    fix s assume s: "calm s \<and> (p \<longrightarrow> sel s)"
    define t where "t = s\<lparr>seBuf := marked\<rparr>"
    have t: "calm t \<and> (p \<longrightarrow> sel t)" "events t = events s" "console t = console s"
      using s by (simp_all add: t_def calm_def sel_def events_def ok_def hist_def vec_def cells_ok_def)
        (simp add: marked_def)
    have "NF_MarkBadBlock P polls block s = steps L t"
      using s by (simp add: NF_MarkBadBlock_def Let_def L_def t_def calm_def)
    then show "\<exists>s'. NF_MarkBadBlock P polls block s = Ret s' \<and> calm s' \<and> (False \<longrightarrow> sel s')
        \<and> events s' = events s @ mark_bad_cycles block \<and> console s' = console s"
      using L [unfolded does_def, rule_format, OF t(1)] t(2,3) by (simp add: mark_bad_cycles_def)
  qed
qed

lemma gives_map: "gives p f q F \<Longrightarrow> gives p (\<lambda>s. res_map (\<lambda>x. (h (fst x), snd x)) (f s)) q (\<lambda>e. (h (fst (F e)), snd (F e)))"
  unfolding gives_def by fastforce

lemma read_bytes: "gives True (read_bytes P n) True (\<lambda>e. (reply_bytes answer n e, e @ replicate n Read))"
proof (induction n)
  case 0
  show ?case
    by (simp add: gives_def reply_bytes_def)
next
  case (Suc n)
  have "gives True (read_bytes P (Suc n)) True
      (\<lambda>e. (answer (e @ [Read]) # reply_bytes answer n (e @ [Read]), (e @ [Read]) @ replicate n Read))"
    unfolding read_bytes.simps split_def
    by (rule gives_eq, rule gives_bind [OF gives_RDDATA], simp only: fst_conv snd_conv,
        rule gives_map [OF Suc.IH]) simp
  then show ?case
    by (rule gives_eq) (simp add: reply_bytes_def map_upt_Suc del: upt_Suc)
qed

lemmas does_seq_bad = does_seq does_cons [OF MarkBadBlock]

lemma EraseBlock: "gives p (NF_EraseBlock P polls block) False (erase_block answer block)"
  unfolding NF_EraseBlock_def split_def Let_def
  by (rule gives_eq, rule gives_bind [OF IsBadBlock], simp only: fst_conv snd_conv, rule gives_if,
      rule gives_ret, rule gives_after, (rule does_seq)+, rule gives_bind [OF gives_RDDATA],
      simp only: fst_conv snd_conv, rule gives_if, rule gives_does, (rule does_seq_bad)+, rule gives_end)
     (simp add: erase_block_def erase_cycles_def split_def Let_def)

lemma WritePage:
  "gives p (NF_WritePage P polls block page buffer (Some spare)) False
     (program_page answer block page buffer spare)"
  unfolding NF_WritePage_def split_def Let_def option.case
  by (rule gives_eq, rule gives_after, rule does_append, (rule does_seq)+,
      rule does_append [OF does_data], rule does_append [OF does_data], (rule does_seq)+,
      rule gives_bind [OF gives_RDDATA], simp only: fst_conv snd_conv,
      rule gives_if, rule gives_does, (rule does_seq_bad)+, rule gives_end)
     (simp add: program_page_def program_cycles_def Let_def)

lemma CheckId:
  "gives p (NF_CheckId P) False (\<lambda>e. let e = e @ [Cmd 0x90, Addr 0, Read] in
     (push_bit 8 (ucast (answer e)) OR ucast (answer (e @ [Read])), e @ [Read]))"
  unfolding NF_CheckId_def split_def Let_def
  by (rule gives_eq, rule gives_after, (rule does_seq)+, rule gives_bind [OF gives_RDDATA],
      simp only: fst_conv snd_conv, rule gives_bind [OF gives_RDDATA], simp only: fst_conv snd_conv,
      rule gives_end) simp

lemma does_eq: "does p f q es \<Longrightarrow> es = es' \<Longrightarrow> does p f q es'"
  by simp

lemma Reset: "does p (NF_Reset P polls) False [Cmd 0xFF]"
  unfolding NF_Reset_def by (rule does_eq, (rule does_seq)+) simp

lemma Init: "does p (K9Fxx08_init P polls) True [Cmd 0xFF, Cmd 0x00]"
  unfolding K9Fxx08_init_def NF_Init_def READ_1_1_def
  by (rule does_eq, rule does_cons [OF Reset], (rule does_seq)+) simp

lemma ReadPage:
  "gives p (\<lambda>s. res_map (\<lambda>(r, b, x, s). ((r, b, x), s)) (NF_ReadPage P polls block page True s)) False
     (fetch_page answer block page)"
  unfolding NF_ReadPage_def split_def Let_def if_True res_map_bind res_map_map fst_conv snd_conv
  by (rule gives_eq, rule gives_after, (rule does_seq)+, rule gives_bind [OF read_bytes],
      simp only: fst_conv snd_conv, rule gives_bind [OF read_bytes], simp only: fst_conv snd_conv, rule gives_end)
     (simp add: fetch_page_def reply_bytes_add [of _ 512 16, simplified] reads_528 nth_append Let_def)

end

end
