(* ===== verification/Sharpflash.thy ===== *)
theory Sharpflash
  imports Nand_Bus
begin

text \<open>
  The flash programmer itself, \<^verbatim>\<open>sharpflash.c\<close>: its command line and its main function, and what a
  whole run of it does to the flash.
\<close>

section \<open>Command line\<close>

datatype eCommandMode = GET_JTAG_IDS | FLASH_READ_MODE | FLASH_WRITE_MODE | BLOCK_CHECK_MODE

record opts =
  mode :: eCommandMode
  start_address :: "32 word"
  flash_length :: "32 word"
  filename :: "byte list"
  base_address :: int

definition opts0 :: opts where
  "opts0 = \<lparr>mode = GET_JTAG_IDS, start_address = 0, flash_length = 0, filename = [], base_address = 0x378\<rparr>"

definition isspace :: "byte \<Rightarrow> bool" where
  "isspace c \<longleftrightarrow> c = 32 \<or> 9 \<le> c \<and> c \<le> 13"

text \<open>
  What \<open>sscanf\<close> and \<open>atoi\<close> find: a word, a number in base 16 with its sign and \<open>0x\<close>, clamped to 64
  bits and cut to 32, and a decimal number.
\<close>

definition scan_word :: "byte list \<Rightarrow> byte list option" where
  "scan_word s =
     (let t = takeWhile (\<lambda>c. \<not> isspace c) (dropWhile isspace s) in if t = [] then None else Some t)"

definition digit_val :: "byte \<Rightarrow> nat option" where
  "digit_val c =
     (let n = unat c
      in if 48 \<le> n \<and> n \<le> 57 then Some (n - 48)
         else if 65 \<le> n \<and> n \<le> 70 then Some (n - 55)
         else if 97 \<le> n \<and> n \<le> 102 then Some (n - 87) else None)"

fun num_val :: "nat \<Rightarrow> nat \<Rightarrow> byte list \<Rightarrow> nat" where
  "num_val b acc [] = acc"
| "num_val b acc (c # cs) =
     (case digit_val c of
        None \<Rightarrow> acc
      | Some d \<Rightarrow> if d < b then num_val b (acc * b + d) cs else acc)"

definition scan_sign :: "byte list \<Rightarrow> bool \<times> byte list" where
  "scan_sign s =
     (case dropWhile isspace s of
        [] \<Rightarrow> (False, [])
      | c # cs \<Rightarrow> if c = 45 then (True, cs) else if c = 43 then (False, cs) else (False, c # cs))"

definition scan_hex :: "byte list \<Rightarrow> 32 word option" where
  "scan_hex s =
     (let (neg, t) = scan_sign s;
          t = (case t of c # d # r \<Rightarrow> if c = 48 \<and> (d = 88 \<or> d = 120) then r else t | _ \<Rightarrow> t)
      in case t of
           [] \<Rightarrow> None
         | c # r \<Rightarrow>
             if digit_val c = None then None
             else
               let n = num_val 16 0 t
               in Some (if n \<ge> 2 ^ 64 then - 1 else if neg then - of_nat n else of_nat n))"

definition atoi :: "byte list \<Rightarrow> int" where
  "atoi s =
     (let (neg, t) = scan_sign s; n = num_val 10 0 t
      in sint (word_of_int (if neg then - int (min n (2 ^ 63)) else int (min n (2 ^ 63 - 1))) :: 32 word))"

text \<open>The three arguments of \<open>-r\<close> and \<open>-w\<close>; \<open>filename\<close> has 256 bytes.\<close>

definition parse_range :: "eCommandMode \<Rightarrow> byte list \<Rightarrow> byte list \<Rightarrow> byte list \<Rightarrow> opts \<Rightarrow> opts res" where
  "parse_range m f a n opt =
     (case scan_word f of
        None \<Rightarrow> Exit
      | Some w \<Rightarrow>
          if length w \<ge> 256 then Fault
          else case scan_hex a of
                 None \<Rightarrow> Exit
               | Some start \<Rightarrow>
                   case scan_hex n of
                     None \<Rightarrow> Exit
                   | Some len \<Rightarrow>
                       Ret (opt\<lparr>mode := m, filename := w, start_address := start, flash_length := len\<rparr>))"

text \<open>The arguments behind the name of the program; every error, and \<open>-h\<close>, ends the program.\<close>

fun ParseCommandLine :: "byte list list \<Rightarrow> opts \<Rightarrow> opts res" where
  "ParseCommandLine [] opt = Ret opt"
| "ParseCommandLine (a # as) opt =
     (if a = bytes ''-p''
      then (case as of
              [] \<Rightarrow> Exit
            | p # as' \<Rightarrow>
                let (r, base) = SetPrinterNumber (atoi p) (base_address opt)
                in if r = 0 then Exit else ParseCommandLine as' (opt\<lparr>base_address := base\<rparr>))
      else if a = bytes ''-b'' then ParseCommandLine as (opt\<lparr>mode := BLOCK_CHECK_MODE\<rparr>)
      else if a = bytes ''-r''
      then (case as of
              f # s # n # as' \<Rightarrow> res_bind (parse_range FLASH_READ_MODE f s n opt) (ParseCommandLine as')
            | _ \<Rightarrow> Exit)
      else if a = bytes ''-w''
      then (case as of
              f # s # n # as' \<Rightarrow> res_bind (parse_range FLASH_WRITE_MODE f s n opt) (ParseCommandLine as')
            | _ \<Rightarrow> Exit)
      else Exit)"

section \<open>Main\<close>

definition JTAG_ID_CPU :: "32 word" where "JTAG_ID_CPU = 0x0032409d"

text \<open>
  \<open>left\<close> and \<open>fuel\<close> are the arguments of \<open>K9Fxx08_write\<close>; \<open>iopl_ok\<close>, \<open>opened\<close> and \<open>fi\<close> are whether
  the ports can be accessed, whether the output files can be opened, and the contents of the input
  file.  The result is the exit status, the files written, and the state; \<open>exit(0)\<close> at the end of the
  identification is a status too.
\<close>

definition flash0 :: "'w \<Rightarrow> 'w flash" where
  "flash0 w =
     \<lparr>outCellValue = replicate 428 0, inCellValue = replicate 428 0,
      dataOutCellIndex = replicate 32 0, dataInCellIndex = replicate 32 0,
      addrCellIndex = replicate 27 0, world = w, seBuf = replicate 16 0xff, console = []\<rparr>"

definition flash_command ::
  "'w port \<Rightarrow> nat \<Rightarrow> (nat \<Rightarrow> byte list) \<Rightarrow> nat \<Rightarrow> bool \<Rightarrow> byte list option \<Rightarrow> opts \<Rightarrow> 16 word \<Rightarrow> 'w flash
   \<Rightarrow> (int \<times> (byte list \<times> byte list) option \<times> 'w flash) res"
where
  "flash_command P polls left fuel opened fi opt flash_id s =
     (case mode opt of
        GET_JTAG_IDS \<Rightarrow> Ret (0, None, s)
      | FLASH_READ_MODE \<Rightarrow>
          res_map (\<lambda>(out, s). (0, out, print [10] s))
            (K9Fxx08_read P polls left opened (filename opt) (start_address opt) (flash_length opt) s)
      | FLASH_WRITE_MODE \<Rightarrow>
          res_map (\<lambda>s. (0, None, print [10] s))
            (K9Fxx08_write P polls left fuel fi (filename opt) (start_address opt) (flash_length opt) s)
      | BLOCK_CHECK_MODE \<Rightarrow>
          res_map (\<lambda>s. (0, None, print [10] s)) (K9Fxx08_badcheck P polls flash_id s))"

definition flash_session ::
  "'w port \<Rightarrow> nat \<Rightarrow> (nat \<Rightarrow> byte list) \<Rightarrow> nat \<Rightarrow> bool \<Rightarrow> byte list option \<Rightarrow> opts \<Rightarrow> 'w flash
   \<Rightarrow> (int \<times> (byte list \<times> byte list) option \<times> 'w flash) res"
where
  "flash_session P polls left fuel opened fi opt s =
     (let (cpu_id, w) = JTAG_ReadId P (world s); s = s\<lparr>world := w\<rparr>
      in if cpu_id \<noteq> JTAG_ID_CPU
         then Ret (0, None, print (bytes ''Unable to find S3C2410 processor on JTAG Cable, found ''
                                   @ hexn 8 cpu_id @ [10]) s)
         else
           let s = print (bytes ''Detected S3C2410 processor on JTAG Cable'' @ [10]) s
           in res_bind (steps [S2410_InitCell P, K9Fxx08_JtagInit P, K9Fxx08_init P polls] s) (\<lambda>s.
              res_bind (K9Fxx08_checkid P s) (\<lambda>(flash_id, s).
              if flash_id = JTAG_ID_K9F2808U0C
              then flash_command P polls left fuel opened fi opt flash_id
                     (print (bytes ''Found K9F2808UOC flash on processor, id=0x'' @ hexn 4 (ucast flash_id) @ [10]) s)
              else if flash_id = JTAG_ID_K9F5608U0B
              then flash_command P polls left fuel opened fi opt flash_id
                     (print (bytes ''Found K9F5608UOC flash on processor, id=0x'' @ hexn 4 (ucast flash_id) @ [10]) s)
              else Ret (1, None, print (bytes ''Unknown flash id on processor bus, found 0x''
                                        @ hexn 4 (ucast flash_id) @ [10]) s))))"

definition sharpflash_main ::
  "'w port \<Rightarrow> nat \<Rightarrow> (nat \<Rightarrow> byte list) \<Rightarrow> nat \<Rightarrow> bool \<Rightarrow> bool \<Rightarrow> byte list option \<Rightarrow> byte list list \<Rightarrow> 'w
   \<Rightarrow> (int \<times> (byte list \<times> byte list) option \<times> 'w flash) res"
where
  "sharpflash_main P polls left fuel iopl_ok opened fi argv w =
     (let s = print ([10] @ bytes ''Sharpfin Flash Programmer. http://www.sharpfin.org/'' @ [10, 10]) (flash0 w)
      in res_bind (ParseCommandLine argv opts0) (\<lambda>opt.
         if start_address opt div 0x4000 * 0x4000 \<noteq> start_address opt
         then Ret (1, None, print (bytes ''Start address must be a multiple of 0x4000'' @ [10]) s)
         else if flash_length opt div 0x4000 * 0x4000 \<noteq> flash_length opt
         then Ret (1, None, print (bytes ''length must be a multiple of 0x4000'' @ [10]) s)
         else if \<not> iopl_ok then Ret (1, None, print (bytes ''Unable to access I/O ports.'' @ [10]) s)
         else res_bind (ConfigureParallelPort P (base_address opt) (world s)) (\<lambda>(P, w).
              flash_session P polls left fuel opened fi opt (s\<lparr>world := w\<rparr>))))"

section \<open>A run of the programmer on the bus\<close>

text \<open>The cycles of reading and identifying: no byte is ever stored, nothing is erased.\<close>

definition harmless :: "bus_event \<Rightarrow> bool" where
  "harmless e =
     (case e of Cmd c \<Rightarrow> c \<in> {0x00, 0x50, 0x90, 0xFF} | Addr a \<Rightarrow> True | Read \<Rightarrow> True
      | Data d \<Rightarrow> False | Glitch \<Rightarrow> False)"

lemma harmless_simps [simp]:
  "harmless (Cmd c) \<longleftrightarrow> c \<in> {0x00, 0x50, 0x90, 0xFF}" "harmless (Addr a)" "harmless Read"
  "\<not> harmless (Data d)" "\<not> harmless Glitch"
  by (simp_all add: harmless_def)

lemma harmless_cycles [simp]:
  "list_all harmless (addr_cycles bp)" "list_all harmless (mark_cycles lo hi)"
  "list_all harmless (replicate n Read)"
  by (simp_all add: addr_cycles_def mark_cycles_def) (simp add: list_all_iff)

lemma print_simps [simp]:
  "vec (print t s) = vec s" "world (print t s) = world s" "seBuf (print t s) = seBuf s"
  "cells_ok (print t s) = cells_ok s"
  by (simp_all add: print_def vec_def cells_ok_def)

context nand_cable
begin

lemma print_bus [simp]: "hist (print t s) = hist s" "ok (print t s) = ok s" "calm (print t s) = calm s"
  "events (print t s) = events s"
  by (simp_all add: hist_def ok_def calm_def events_def)

text \<open>\<open>reads s f r\<close>: \<open>r\<close> is a result whose state, by \<open>f\<close>, was reached from \<open>s\<close> by reading.\<close>

definition reads :: "'w flash \<Rightarrow> ('a \<Rightarrow> 'w flash) \<Rightarrow> 'a res \<Rightarrow> bool" where
  "reads s f r \<longleftrightarrow> (\<exists>x es. r = Ret x \<and> calm (f x) \<and> events (f x) = events s @ es \<and> list_all harmless es)"

lemma reads_Ret: "calm (f x) \<Longrightarrow> events (f x) = events s \<Longrightarrow> reads s f (Ret x)"
  by (simp add: reads_def)

lemma reads_bind:
  assumes "reads s f m" "\<And>x. calm (f x) \<Longrightarrow> reads (f x) g (k x)"
  shows "reads s g (res_bind m k)"
  using assms unfolding reads_def by fastforce

lemma reads_map: "reads s (\<lambda>x. g (h x)) m \<Longrightarrow> reads s g (res_map h m)"
  unfolding reads_def by auto

lemma reads_at: "reads s' f r \<Longrightarrow> events s' = events s \<Longrightarrow> reads s f r"
  by (simp add: reads_def)

lemma reads_gives:
  assumes "gives False m q F" "calm s" "\<exists>es. snd (F (events s)) = events s @ es \<and> list_all harmless es"
  shows "reads s snd (m s)"
  using assms unfolding gives_def reads_def by fastforce

lemma reads_does:
  assumes "does False m q es" "calm s" "list_all harmless es"
  shows "reads s (\<lambda>x. x) (m s)"
  using assms unfolding does_def reads_def by fastforce

lemma reads_IsBadBlock: "calm s \<Longrightarrow> reads s snd (NF_IsBadBlock P polls block s)"
  by (rule reads_gives [OF IsBadBlock]) (auto simp: bad_mark_def Let_def)

lemma reads_badcheck: "calm s \<Longrightarrow> reads s snd (badcheck_loop P polls i n bad s)"
proof (induction n arbitrary: i bad s)
  case (Suc n)
  define s1 where
    "s1 = (if i mod 64 = 0 then print ([10, 32] @ hexn 8 (of_nat i * 0x4000) @ bytes '': '') s else s)"
  have s1: "calm s1" "events s1 = events s"
    using Suc.prems by (simp_all add: s1_def)
  have "reads s1 snd (badcheck_loop P polls i (Suc n) bad s)"
    unfolding badcheck_loop.simps Let_def s1_def [symmetric] split_def
    by (rule reads_bind [OF reads_IsBadBlock [OF s1(1)]]) (auto intro!: reads_at [OF Suc.IH])
  then show ?case
    using s1(2) by (rule reads_at)
qed (simp add: reads_Ret)

lemma reads_ReadPage:
  assumes "calm s"
  shows "reads s (\<lambda>x. snd (snd (snd x))) (NF_ReadPage P polls block page True s)"
proof -
  have "reads s snd (res_map (\<lambda>(r, b, x, s). ((r, b, x), s)) (NF_ReadPage P polls block page True s))"
    by (rule reads_gives [OF ReadPage assms]) (simp add: fetch_page_def Let_def)
  then show ?thesis
    by (fastforce simp: reads_def res_map_Ret_iff)
qed

text \<open>The state of a result of several parts.\<close>

abbreviation st3 :: "'a \<times> 'b \<times> 'w flash \<Rightarrow> 'w flash" where "st3 \<equiv> \<lambda>x. snd (snd x)"
abbreviation st4 :: "'a \<times> 'b \<times> 'c \<times> 'w flash \<Rightarrow> 'w flash" where "st4 \<equiv> \<lambda>x. snd (snd (snd x))"

lemma reads_read_pages: "calm s \<Longrightarrow> reads s st3 (read_pages P polls block page n s)"
proof (induction n arbitrary: page s)
  case (Suc n)
  show ?case
    unfolding read_pages.simps Let_def split_def
    by (rule reads_bind [OF reads_ReadPage [OF Suc.prems]], rule reads_map)
       (auto intro!: reads_at [OF Suc.IH])
qed (simp add: reads_Ret)

lemma reads_read_loop: "calm s \<Longrightarrow> reads s st3 (read_loop P polls left block n s)"
proof (induction n arbitrary: block s)
  case (Suc n)
  have "calm (print (show_block block) s)"
    using Suc.prems by simp
  then have "reads (print (show_block block) s) st3 (read_loop P polls left block (Suc n) s)"
    unfolding read_loop.simps Let_def split_def
    by (rule reads_bind [OF reads_read_pages], intro reads_map)
       (auto intro!: reads_at [OF Suc.IH])
  then show ?case
    by (rule reads_at) simp
qed (simp add: reads_Ret)

lemma reads_read:
  assumes "calm s"
  shows "reads s snd (K9Fxx08_read P polls left opened file start len s)"
proof -
  have *: "reads t snd (if \<not> opened then Ret (None, print a t)
      else res_map (\<lambda>(raw, good, s). (Some (raw, good), print [10] s))
        (read_loop P polls left b n (print progress_head t)))" if "calm t" for t a b n
  proof (cases opened)
    case True
    have "reads (print progress_head t) st3 (read_loop P polls left b n (print progress_head t))"
      using that by (intro reads_read_loop) simp
    then show ?thesis
      using True by (auto simp: reads_def res_map_Ret_iff split_def)
  qed (use that in \<open>simp add: reads_Ret\<close>)
  show ?thesis
    unfolding K9Fxx08_read_def Let_def by (rule reads_at, rule *) (simp_all add: assms)
qed

lemma reads_check:
  assumes "calm s" "type = JTAG_ID_K9F2808U0C \<or> type = JTAG_ID_K9F5608U0B"
  shows "reads s (\<lambda>x. x) (K9Fxx08_badcheck P polls type s)"
proof -
  have "reads (print t s) (\<lambda>x. x) (res_map (\<lambda>(bad, s). print (h bad) s) (badcheck_loop P polls 0 n 0 (print t s)))"
    for t h n
    using reads_badcheck [of "print t s" 0 n 0] assms(1) by (auto simp: reads_def)
  then have "reads s (\<lambda>x. x) (res_map (\<lambda>(bad, s). print (h bad) s) (badcheck_loop P polls 0 n 0 (print t s)))"
    for t h n
    by (rule reads_at) simp
  then show ?thesis
    using assms(2) by (auto simp: K9Fxx08_badcheck_def Let_def)
qed

end

text \<open>The settings of a list of pins, as a vector.\<close>

definition put_pins :: "(int \<times> byte) list \<Rightarrow> bool list \<Rightarrow> bool list" where
  "put_pins ps v = fold (\<lambda>(i, x) v. v[nat i := (x = HIGH)]) ps v"

lemma length_put_pins [simp]: "length (put_pins ps v) = length v"
  by (induction ps arbitrary: v) (auto simp: put_pins_def)

lemma set_pins_put:
  "cells_ok s \<Longrightarrow> list_all (\<lambda>(i, x). 0 \<le> i \<and> i < 427 \<and> (x = HIGH \<or> x = LOW)) ps \<Longrightarrow>
     set_pins ps s = Ret (put_vec (put_pins ps (vec s)) s)"
proof (induction ps arbitrary: s)
  case Nil
  then show ?case
    by (simp add: put_pins_def put_vec_def cells_ok_def)
next
  case (Cons p ps)
  obtain i x where p: "p = (i, x)" by fastforce
  have x: "x = level (x = HIGH)"
    using Cons.prems(2) p by (auto simp: level_def)
  have "S2410_SetPin i (level (x = HIGH)) s = Ret (put_vec ((vec s)[nat i := (x = HIGH)]) s)"
    using Cons.prems p by (intro set_pin) auto
  then have "S2410_SetPin i x s = Ret (put_vec ((vec s)[nat i := (x = HIGH)]) s)"
    by (simp only: x [symmetric])
  then show ?case
    using Cons.prems Cons.IH [of "put_vec ((vec s)[nat i := (x = HIGH)]) s"] p
    by (simp add: put_pins_def)
qed

lemma pin_put_pins:
  "list_all (\<lambda>(i, x). 0 \<le> i \<and> i < 427) ps \<Longrightarrow> length v = 427 \<Longrightarrow> 0 \<le> j \<Longrightarrow>
     pin (put_pins ps v) j = (case map_of (rev ps) j of None \<Rightarrow> pin v j | Some x \<Rightarrow> x = HIGH)"
proof (induction ps arbitrary: v)
  case (Cons p ps)
  obtain i x where p: "p = (i, x)" by fastforce
  have "pin (put_pins (p # ps) v) j = pin (put_pins ps (v[nat i := (x = HIGH)])) j"
    by (simp add: put_pins_def p)
  then show ?case
    using Cons p by (auto simp: map_add_def split: option.splits)
qed (simp add: put_pins_def)

lemma world_put_vec [simp]: "world (put_vec v s) = world s"
  by (simp add: put_vec_def)

lemma cstr_codes: "cstr SAMPLE_PRELOAD = [HIGH, HIGH, LOW, LOW]" "cstr EXTEST = [LOW, LOW, LOW, LOW]"
  "0 \<in> set SAMPLE_PRELOAD" "0 \<in> set EXTEST"
  by (simp_all add: SAMPLE_PRELOAD_def EXTEST_def lit_def cstr_def zstr_def HIGH_def LOW_def)

lemma decode_codes: "decode_instr [True, True, False, False] = Sample"
  "decode_instr [False, False, False, False] = Extest"
  by (simp_all add: decode_instr_def)

lemmas init_pin_numbers =
  DATA24_31_CON_def DATA16_23_CON_def DATA8_15_CON_def DATA0_7_CON_def ADDR26_CON_def
  ADDR25_CON_def ADDR24_CON_def ADDR23_CON_def ADDR22_CON_def ADDR21_CON_def ADDR20_CON_def
  ADDR19_CON_def ADDR18_CON_def ADDR17_CON_def ADDR16_CON_def ADDR1_15_CON_def ADDR0_CON_def
  nBE3_def nBE2_def nBE1_def nBE0_def nOE_def nWE_def nGCS0_def nGCS0_ETC_CON_def nGCS1_def
  nGCS1_CON_def nGCS2_def nGCS2_CON_def nGCS3_def nGCS3_CON_def nGCS4_def nGCS4_CON_def nGCS5_def
  nGCS5_CON_def nGCS6_def nGCS7_def nGCS67_CON_def nWAIT_def CLE_def ALE_def nFWE_def nFRE_def
  nFCE_def NCON0_def

lemma init_pins_ok:
  "list_all (\<lambda>(i, x). 0 \<le> i \<and> i < 427 \<and> (x = HIGH \<or> x = LOW)) init_pins"
  "list_all (\<lambda>(i, x). 0 \<le> i \<and> i < 427) init_pins"
  "map_of (rev init_pins) nFWE = Some HIGH" "map_of (rev init_pins) nFRE = Some HIGH"
  by (simp_all add: init_pins_def init_pin_numbers)

context nand_cable
begin

text \<open>\<open>S2410_InitCell\<close> preloads all cells with a high level, without driving the pins.\<close>

lemma InitCell:
  assumes "idle (chip (world s))" "length (seBuf s) = 16" "length (inCellValue s) = 428"
  obtains s' where "S2410_InitCell P s = Ret s'" "cells_ok s'" "idle (chip (world s'))"
    "c_latch (chip (world s')) = replicate 427 True" "hist s' = hist s"
    "pin (vec s') nFWE" "pin (vec s') nFRE" "seBuf s' = seBuf s" "console s' = console s"
proof -
  define w1 where "w1 = JTAG_RunTestldleState P (world s)"
  have w1: "idle (chip w1)" "c_env (chip w1) = hist s"
    using run_test_idle run_test_keeps [of "world s"] assms(1) by (simp_all add: w1_def hist_def)
  obtain w2 where w2: "JTAG_ShiftIRState P SAMPLE_PRELOAD w1 = Ret w2"
    "chip w2 = drive_pins B ((chip w1)\<lparr>c_tdo := False, c_shift := [True, True, False, False],
       c_instr := decode_instr [True, True, False, False]\<rparr>)"
    using shift_ir [of w1 SAMPLE_PRELOAD "[True, True, False, False]"] w1(1) cstr_codes
    by (auto simp: HIGH_def LOW_def)
  have c2: "idle (chip w2)" "c_instr (chip w2) = Sample" "c_env (chip w2) = hist s"
    using w1 by (simp_all add: w2(2) drive_pins_def idle_def decode_codes)
  define ws :: "byte list" where "ws = replicate 427 HIGH @ [0]"
  define rs :: "byte list" where "rs = replicate 427 117 @ [0]"
  have ws: "cstr ws = replicate 427 HIGH" "0 \<in> set ws"
    unfolding ws_def by (rule cstr_append_nul) (auto simp: HIGH_def)
  obtain w3 where w3: "JTAG_ShiftDRState P ws rs w2
        = Ret (map level (pins B (hist s)) @ drop (length (pins B (hist s))) rs, w3)"
    "chip w3 = drive_pins B ((chip w2)\<lparr>c_tdo := last (pins B (hist s)), c_shift := replicate 427 True,
       c_latch := replicate 427 True\<rparr>)"
  proof (rule shift_dr [of w2 ws "pins B (hist s)" rs "replicate 427 True"])
    show "length (pins B (hist s)) = length (cstr ws)" "length (pins B (hist s)) \<le> length rs"
      unfolding ws pins_length by (simp_all add: rs_def)
  qed (use c2 ws in \<open>simp_all add: boundary_def\<close>)
  define t where "t = s\<lparr>dataOutCellIndex := dataOut_cells, dataInCellIndex := dataIn_cells,
      addrCellIndex := addr_cells, inCellValue := map level (pins B (hist s)) @ [0], world := w3,
      outCellValue := map level (pins B (hist s)) @ [0]\<rparr>"
  have vt: "vec t = pins B (hist s)"
    by (simp add: t_def vec_def comp_def)
  have wt: "world t = w3" "seBuf t = seBuf s" "console t = console s"
    by (simp_all add: t_def)
  have c3: "idle (chip w3)" "c_latch (chip w3) = replicate 427 True" "c_env (chip w3) = hist s"
    using c2 by (simp_all add: w3(2) drive_pins_def idle_def)
  have t: "cells_ok t"
    unfolding cells_ok_def vt using pins_length by (simp add: t_def)
  have drops: "drop 427 rs = [0]" "drop 427 ws = [0]"
    by (simp_all add: rs_def ws_def)
  have "S2410_InitCell P s = Ret (put_vec (put_pins init_pins (vec t)) t)"
    using set_pins_put [OF t init_pins_ok(1)] w2(1) w3(1) pins_length
    by (simp add: S2410_InitCell_def S2410_MAX_CELL_INDEX_def Let_def w1_def [symmetric] scan_inout_def
        ws_def [symmetric] rs_def [symmetric] drops t_def [symmetric])
  then show thesis
  proof (rule that)
    show "pin (vec (put_vec (put_pins init_pins (vec t)) t)) nFWE"
      "pin (vec (put_vec (put_pins init_pins (vec t)) t)) nFRE"
      using pin_put_pins [OF init_pins_ok(2), of "vec t"] init_pins_ok(3,4) pins_length
      by (simp_all add: vt nFWE_def nFRE_def)
    show "hist (put_vec (put_pins init_pins (vec t)) t) = hist s"
      using c3(3) by (simp add: hist_def wt)
  qed (use t c3 wt in \<open>simp_all add: vt pins_length\<close>)
qed

text \<open>
  From there on the operations apply: \<open>K9Fxx08_JtagInit\<close> drives the preloaded levels, with which
  nothing is selected.
\<close>

lemma initialised:
  assumes "idle (chip (world s))" "seBuf s = replicate 16 0xff" "length (inCellValue s) = 428"
  obtains s' where "steps [S2410_InitCell P, K9Fxx08_JtagInit P] s = Ret s'" "calm s'"
    "events s' = events s" "console s' = console s"
proof -
  obtain a where a: "S2410_InitCell P s = Ret a" "cells_ok a" "idle (chip (world a))"
    "c_latch (chip (world a)) = replicate 427 True" "hist a = hist s"
    "pin (vec a) nFWE" "pin (vec a) nFRE" "seBuf a = seBuf s" "console a = console s"
    using InitCell [of s] assms by auto
  define w1 where "w1 = JTAG_RunTestldleState P (world a)"
  have w1: "idle (chip w1)" "c_env (chip w1) = hist s" "c_latch (chip w1) = replicate 427 True"
    using run_test_idle run_test_keeps [of "world a"] a by (simp_all add: w1_def hist_def)
  obtain w2 where w2: "JTAG_ShiftIRState P EXTEST w1 = Ret w2"
    "chip w2 = drive_pins B ((chip w1)\<lparr>c_tdo := False, c_shift := [False, False, False, False],
       c_instr := decode_instr [False, False, False, False]\<rparr>)"
    using shift_ir [of w1 EXTEST "[False, False, False, False]"] w1(1) cstr_codes
    by (auto simp: HIGH_def LOW_def)
  have c2: "idle (chip w2)" "c_instr (chip w2) = Extest" "c_env (chip w2) = replicate 427 True # hist s"
    using w1 by (simp_all add: w2(2) drive_pins_def drive idle_def decode_codes)
  define b where "b = a\<lparr>world := w2\<rparr>"
  define c where "c = put_vec (put_pins [(CLE, LOW), (ALE, LOW)] (vec b)) b"
  have b: "cells_ok b" "vec b = vec a"
    using a(2) by (simp_all add: b_def)
  have pn: "list_all (\<lambda>(i, x). 0 \<le> i \<and> i < 427 \<and> (x = HIGH \<or> x = LOW)) [(CLE, LOW), (ALE, LOW)]"
    by (simp add: CLE_def ALE_def)
  have "set_pins [(CLE, LOW), (ALE, LOW)] b = Ret c"
    unfolding c_def using set_pins_put [OF b(1) pn] .
  then have "steps [S2410_InitCell P, K9Fxx08_JtagInit P] s = Ret c"
    using a(1) w2(1) by (simp add: K9Fxx08_JtagInit_def Let_def w1_def [symmetric] b_def [symmetric])
  moreover have h: "hist c = replicate 427 True # hist s"
    using c2(3) by (simp add: c_def b_def hist_def)
  moreover have high: "pin (replicate 427 True) nFWE" "pin (replicate 427 True) nFRE"
      "pin (replicate 427 True) nFCE"
    by (simp_all add: pin_def pin_numbers)
  moreover have "ok c" "seBuf c = replicate 16 0xff"
    using b c2(1,2) a(8) assms(2) by (simp_all add: ok_def c_def) (simp_all add: b_def)
  moreover have "pin (vec c) nFWE" "pin (vec c) nFRE" "\<not> pin (vec c) CLE" "\<not> pin (vec c) ALE"
    using a(6,7) b cells_ok_length [OF a(2)]
    by (simp_all add: c_def put_pins_def pin_numbers HIGH_def LOW_def)
  ultimately show thesis
  proof (intro that)
    show "calm c"
      using h high \<open>ok c\<close> \<open>seBuf c = replicate 16 0xff\<close> \<open>pin (vec c) nFWE\<close> \<open>pin (vec c) nFRE\<close>
        \<open>\<not> pin (vec c) CLE\<close> \<open>\<not> pin (vec c) ALE\<close>
      by (simp add: calm_def bus_idle_def marked_def numeral_eq_Suc)
    show "events c = events s"
      using high by (cases "hist s") (simp_all add: events_def h bus_edge_def)
  qed (auto simp: c_def b_def a(9))
qed

lemma reads_command:
  assumes "calm s" "mode opt \<noteq> FLASH_WRITE_MODE"
    and "type = JTAG_ID_K9F2808U0C \<or> type = JTAG_ID_K9F5608U0B"
  shows "reads s st3 (flash_command P polls left fuel opened fi opt type s)"
proof (cases "mode opt")
  case FLASH_READ_MODE
  have "reads s snd (K9Fxx08_read P polls left opened (filename opt) (start_address opt) (flash_length opt) s)"
    using assms(1) by (rule reads_read)
  then show ?thesis
    using FLASH_READ_MODE by (fastforce simp: flash_command_def reads_def)
next
  case BLOCK_CHECK_MODE
  then show ?thesis
    using reads_check [OF assms(1,3)] by (fastforce simp: flash_command_def reads_def)
qed (use assms in \<open>simp_all add: flash_command_def reads_Ret\<close>)

lemma reads_session:
  assumes "c_tap (chip (world s)) = Test_Logic_Reset" "seBuf s = replicate 16 0xff"
    and "length (inCellValue s) = 428" "mode opt \<noteq> FLASH_WRITE_MODE"
  shows "\<exists>x es. flash_session P polls left fuel opened fi opt s = Ret x
    \<and> events (st3 x) = events s @ es \<and> list_all harmless es"
proof -
  define w where "w = snd (JTAG_ReadId P (world s))"
  define s1 where "s1 = print (bytes ''Detected S3C2410 processor on JTAG Cable'' @ [10]) (s\<lparr>world := w\<rparr>)"
  have w: "idle (chip w)" "c_env (chip w) = hist s"
    using read_id [of "world s"] reset_keeps [of "world s"] assms(1) by (simp_all add: w_def hist_def)
  have ev: "events (s\<lparr>world := w\<rparr>) = events s" "events s1 = events s"
    using w by (simp_all add: events_def hist_def s1_def)
  show ?thesis
  proof (cases "fst (JTAG_ReadId P (world s)) = JTAG_ID_CPU")
    case False
    then show ?thesis
      using ev by (simp add: flash_session_def Let_def split_def w_def [symmetric])
  next
    case True
    have "idle (chip (world s1))" "seBuf s1 = replicate 16 0xff" "length (inCellValue s1) = 428"
      using w(1) assms(2,3) by (simp_all add: s1_def) (simp add: print_def)
    then obtain a where a: "steps [S2410_InitCell P, K9Fxx08_JtagInit P] s1 = Ret a" "calm a"
        "events a = events s1"
      using initialised [of s1] by blast
    have "reads a (\<lambda>x. x) (K9Fxx08_init P polls a)"
      by (rule reads_does [OF Init a(2)]) simp
    then obtain b es1 where b: "K9Fxx08_init P polls a = Ret b" "calm b" "events b = events a @ es1"
      "list_all harmless es1"
      by (auto simp: reads_def)
    have st: "steps [S2410_InitCell P, K9Fxx08_JtagInit P, K9Fxx08_init P polls] s1 = Ret b"
      using a(1) b(1) steps_append [of "[S2410_InitCell P, K9Fxx08_JtagInit P]" "[K9Fxx08_init P polls]" s1]
      by simp
    have "reads b st3 (res_bind (K9Fxx08_checkid P b) (\<lambda>(flash_id, s).
        if flash_id = JTAG_ID_K9F2808U0C
        then flash_command P polls left fuel opened fi opt flash_id
               (print (bytes ''Found K9F2808UOC flash on processor, id=0x'' @ hexn 4 (ucast flash_id) @ [10]) s)
        else if flash_id = JTAG_ID_K9F5608U0B
        then flash_command P polls left fuel opened fi opt flash_id
               (print (bytes ''Found K9F5608UOC flash on processor, id=0x'' @ hexn 4 (ucast flash_id) @ [10]) s)
        else Ret (1, None, print (bytes ''Unknown flash id on processor bus, found 0x''
                                  @ hexn 4 (ucast flash_id) @ [10]) s)))"
      unfolding K9Fxx08_checkid_def
      by (rule reads_bind [OF reads_gives [OF CheckId b(2)]])
         (auto simp: Let_def split_def reads_Ret assms(4) intro!: reads_at [OF reads_command])
    then obtain x es2 where "flash_session P polls left fuel opened fi opt s = Ret x"
      "events (st3 x) = events b @ es2" "list_all harmless es2"
      using True st by (auto simp: flash_session_def Let_def split_def w_def [symmetric] s1_def [symmetric] reads_def)
    then show ?thesis
      using b(3,4) a(3) ev(2) by auto
  qed
qed

end

section \<open>A processor with a flash and nothing else\<close>

text \<open>The board that puts the answers of the flash on the data pins, and holds all others high.\<close>

definition flash_board :: "(bus_event list \<Rightarrow> byte) \<Rightarrow> 32 word \<Rightarrow> bool list list board" where
  "flash_board ans v =
     \<lparr>pins = (\<lambda>h. spread dataIn_cells 0 8 (ucast (ans (bus_events h))) (replicate 427 True)),
      drive = (\<lambda>v h. v # h), idcode = v\<rparr>"

lemma spread_in_updates:
  "spread dataIn_cells 0 8 (ucast (d :: byte)) v = v[100 := bit d 0, 97 := bit d 1, 95 := bit d 2, 93 := bit d 3,
     91 := bit d 4, 89 := bit d 5, 87 := bit d 6, 85 := bit d 7]"
  by (simp add: dataIn_cells_def numeral_eq_Suc bit_ucast_iff)

lemma pin_flash_board:
  assumes "0 \<le> i" "i < 427"
  shows "pin (pins (flash_board ans v) h) i = (let d = ans (bus_events h) in
     if i = 85 then bit d 7 else if i = 87 then bit d 6 else if i = 89 then bit d 5
     else if i = 91 then bit d 4 else if i = 93 then bit d 3 else if i = 95 then bit d 2
     else if i = 97 then bit d 1 else if i = 100 then bit d 0 else True)"
  using assms by (simp add: flash_board_def spread_in_updates Let_def pin_def nth_list_update nat_eq_iff nat_less_iff)

lemma byte_flash_board: "pin_byte dataIn_cells (pins (flash_board ans v) h) = ans (bus_events h)"
proof -
  have "map (\<lambda>k. pin (pins (flash_board ans v) h) (dataIn_cells ! k)) [0..<8] = map (bit (ans (bus_events h))) [0..<8]"
    by (simp add: upt_0_8 pin_flash_board dataIn_cells_def)
  then show ?thesis
    unfolding pin_byte_def by (simp only: byte_of_bits)
qed

interpretation fl: nand_cable "tap_port (flash_board ans v)" "flash_board ans v" "\<lambda>c. c" ans 1 for ans v
proof unfold_locales
  show "drive (flash_board ans v) u h = u # h" "length (pins (flash_board ans v) h) = 427" for u h
    by (simp_all add: flash_board_def)
  show "\<exists>n<1. ready_pins (pins (flash_board ans v) (replicate n u @ h))" for u h
    by (simp add: ready_pins_def pin_flash_board nWAIT_def NCON0_def)
qed (simp add: byte_flash_board)

text \<open>C9.
  Without \<open>-w\<close> the programmer never changes the flash.  When the command line is parsed (its file names have less than
  256 characters, as a longer one overruns its buffer; its options and numbers are accepted, and it does not ask for
  help) and does not end in the mode that writes, and the port is opened, then on a processor and a flash
  that have just been reset the program comes to its end, and every bus cycle it performs on the flash is a reset,
  an identification or a read, in which no byte is stored and none is latched while the bus floats.
\<close>

theorem sharpflash_reads_only:
  assumes args: "ParseCommandLine argv opts0 = Ret opt" "mode opt \<noteq> FLASH_WRITE_MODE"
    and port: "ConfigureParallelPort P (base_address opt) w = Ret (P', w')" "chip w' = chip w"
    and cable: "nand_cable P' B chip answer polls" "c_tap (chip w) = Test_Logic_Reset"
  shows "\<exists>code out s es. sharpflash_main P polls left fuel iopl_ok opened fi argv w = Ret (code, out, s)
    \<and> bus_events (c_env (chip (world s))) = bus_events (c_env (chip w)) @ es \<and> list_all harmless es"
proof -
  define s where "s = print ([10] @ bytes ''Sharpfin Flash Programmer. http://www.sharpfin.org/'' @ [10, 10]) (flash0 w)"
  have s: "world s = w" "seBuf s = replicate 16 0xff" "length (inCellValue s) = 428"
    by (simp_all add: s_def flash0_def print_def)
  have "\<exists>x es. flash_session P' polls left fuel opened fi opt (s\<lparr>world := w'\<rparr>) = Ret x
    \<and> bus_events (c_env (chip (world (snd (snd x))))) = bus_events (c_env (chip w)) @ es \<and> list_all harmless es"
    using nand_cable.reads_session [OF cable(1), of "s\<lparr>world := w'\<rparr>" opt left fuel opened fi] s args(2)
      port(2) cable(2) by (simp add: nand_cable.events_def [OF cable(1)] nand_cable.hist_def [OF cable(1)])
  moreover have "world (flash0 w) = w"
    by (simp add: flash0_def)
  ultimately show ?thesis
    using args(1) port(1) s unfolding sharpflash_main_def Let_def s_def [symmetric] by auto
qed

definition reset_chip :: "bool list list chip" where
  "reset_chip = \<lparr>c_tck = False, c_tap = Test_Logic_Reset, c_tdo = False, c_shift = [], c_instr = Idcode,
     c_latch = [], c_env = []\<rparr>"

definition demo_flash :: "bus_event list \<Rightarrow> byte" where
  "demo_flash es = (if last es = Read \<and> Cmd 0x90 \<in> set es
     then (if butlast es ! (length es - 2) = Read then 0x73 else 0xec) else 0xff)"

theorem sharpflash_reads_only_witness:
  "\<exists>code out s. sharpflash_main (tap_port (flash_board demo_flash JTAG_ID_CPU)) 1 (\<lambda>_. []) 0 True True None
      [bytes ''-p'', bytes ''1'', bytes ''-b''] reset_chip = Ret (code, out, s)
    \<and> list_all harmless (bus_events (c_env (world s)))"
proof -
  let ?P = "tap_port (flash_board demo_flash JTAG_ID_CPU)"
  have args: "ParseCommandLine [bytes ''-p'', bytes ''1'', bytes ''-b''] opts0
      = Ret (opts0\<lparr>base_address := 0x378, mode := BLOCK_CHECK_MODE\<rparr>)"
    by (simp add: bytes_def SetPrinterNumber_def printer_ports_def atoi_def scan_sign_def isspace_def digit_val_def
        opts0_def Let_def)
  have port: "ConfigureParallelPort ?P 0x378 reset_chip = Ret (?P, reset_chip)"
    by (simp add: ConfigureParallelPort_def tap_port_def GetPrinterIndex_def printer_ports_def Let_def)
  show ?thesis
    using sharpflash_reads_only [where P = ?P and P' = ?P and w = reset_chip and w' = reset_chip
        and chip = "\<lambda>c. c" and left = "\<lambda>_. []" and fuel = 0 and iopl_ok = True and opened = True
        and fi = None, OF args _ _ _ fl.nand_cable_axioms] port
    by (simp add: opts0_def) (simp add: reset_chip_def)
qed

end
