(* ===== verification/Flash_Write.thy ===== *)
theory Flash_Write
  imports Sharpflash
begin

text \<open>
  What reading and writing of the flash programmer do block by block: the cycles of writing an image,
  and the two ways in which blocks are confused.
\<close>

section \<open>Writing an image\<close>

text \<open>
  A flash without bad blocks: the marks read as erased, and no status reports a failure.
\<close>

definition healthy :: "(bus_event list \<Rightarrow> byte) \<Rightarrow> bool" where
  "healthy ans \<longleftrightarrow>
     (\<forall>e lo hi. ans (e @ mark_cycles lo hi) = 0xFF) \<and> (\<forall>e. ans (e @ [Cmd 0x70, Read]) AND 1 = 0)"

definition test_cycles :: "32 word \<Rightarrow> bus_event list" where
  "test_cycles block =
     (let bp = push_bit 5 block; hi = drop_bit 8 bp AND 0x7f
      in mark_cycles (bp AND 0xff) hi @ mark_cycles ((bp AND 0xff) + 1) hi)"

definition page_cycles :: "32 word \<Rightarrow> byte list \<Rightarrow> nat \<Rightarrow> bus_event list" where
  "page_cycles block src i =
     program_cycles (push_bit 5 block + of_nat i) (take 512 (drop (i * 528) src)) (take 16 (drop (i * 528 + 512) src))"

text \<open>The cycles for one block of the image: test, erase, and program its 32 pages.\<close>

definition block_cycles :: "32 word \<Rightarrow> byte list \<Rightarrow> bus_event list" where
  "block_cycles block src =
     test_cycles block @ erase_cycles block @ concat (map (page_cycles block src) [0..<32])"

text \<open>Block \<open>k\<close> of the image: 32 pages with their spare areas, filled up with zeros.\<close>

definition image_block :: "byte list \<Rightarrow> nat \<Rightarrow> byte list" where
  "image_block img k = (let r = drop (k * 0x4200) img in take 0x4200 r @ replicate (0x4200 - length r) 0)"

lemma image_block_whole: "Suc k * 16896 \<le> length img \<Longrightarrow> image_block img k = take 16896 (drop (16896 * k) img)"
  by (simp add: image_block_def mult.commute)

lemma healthy_erase:
  assumes "healthy ans"
  shows "erase_block ans block e = (BAD_BLOCK_OK, e @ test_cycles block @ erase_cycles block)"
proof -
  have "bad_mark ans block e = (0xFF, e @ test_cycles block)"
    using assms unfolding bad_mark_def test_cycles_def healthy_def Let_def by (simp flip: append_assoc)
  moreover have "ans ((e @ test_cycles block) @ erase_cycles block) AND 1 = 0"
    using assms unfolding healthy_def erase_cycles_def
    by (metis append.assoc append_Cons append_Nil)
  ultimately show ?thesis
    by (simp add: erase_block_def)
qed

lemma healthy_program:
  assumes "healthy ans"
  shows "program_page ans block (of_nat i) (drop (i * 528) src) (drop (i * 528 + 512) src) e
    = (BAD_BLOCK_OK, e @ page_cycles block src i)"
proof -
  have "ans (e @ page_cycles block src i) AND 1 = 0"
    using assms unfolding healthy_def page_cycles_def program_cycles_def
    by (metis append.assoc append_Cons append_Nil)
  then show ?thesis
    by (simp add: program_page_def page_cycles_def Let_def)
qed

context nand_cable
begin

lemma gives_at:
  "gives False f q F \<Longrightarrow> calm s \<Longrightarrow> F (events s) = (x, e) \<Longrightarrow>
     \<exists>s'. f s = Ret (x, s') \<and> calm s' \<and> events s' = e"
  unfolding gives_def by fastforce

lemma write_pages:
  assumes "healthy answer" "calm s"
  shows "\<exists>s'. write_pages P polls block i n src err s = Ret (err, s') \<and> calm s'
    \<and> events s' = events s @ concat (map (page_cycles block src) [i..<i + n])"
  using assms(2)
proof (induction n arbitrary: i s)
  case (Suc n)
  obtain t where t: "NF_WritePage P polls block (of_nat i) (drop (i * 528) src)
      (Some (drop (i * 528 + 512) src)) s = Ret (BAD_BLOCK_OK, t)" "calm t"
      "events t = events s @ page_cycles block src i"
    using gives_at [OF WritePage Suc.prems healthy_program [OF assms(1)]] by blast
  have "[i..<i + Suc n] = i # [Suc i..<Suc i + n]"
    by (simp add: upt_rec)
  moreover obtain s' where "write_pages P polls block (Suc i) n src err (print (bytes ''w'') t) = Ret (err, s')"
    "calm s'" "events s' = events t @ concat (map (page_cycles block src) [Suc i..<Suc i + n])"
    using Suc.IH [of "print (bytes ''w'') t" "Suc i"] t(2) by auto
  ultimately show ?case
    using t by (auto simp del: upt_Suc)
qed simp

lemma write_loop:
  assumes "healthy answer" "calm s" "n \<le> fuel"
  shows "\<exists>s'. write_loop P polls left fuel block n img s = Ret (drop (n * 0x4200) img, s') \<and> calm s'
    \<and> events s' = events s @ concat (map (\<lambda>k. block_cycles (block + of_nat k) (image_block img k)) [0..<n])"
  using assms(2,3)
proof (induction n arbitrary: fuel block img s)
  case (Suc n)
  obtain f where f: "fuel = Suc f" "n \<le> f"
    using Suc.prems(2) by (cases fuel) auto
  define s1 where "s1 = print (show_block block) s"
  obtain t where t: "NF_EraseBlock P polls block s1 = Ret (BAD_BLOCK_OK, t)" "calm t"
      "events t = events s @ test_cycles block @ erase_cycles block"
    using gives_at [OF EraseBlock _ healthy_erase [OF assms(1)], of s1 block] Suc.prems(1)
    by (auto simp: s1_def)
  define t1 where "t1 = (if length img < 0x4200 then print (bytes ''fread() error'' @ [10]) t else t)"
  have t1: "calm t1" "events t1 = events t"
    using t(2) by (simp_all add: t1_def)
  define src where "src = take 0x4200 img @ replicate (0x4200 - length img) 0"
  have src: "src = image_block img 0"
    by (simp add: src_def image_block_def)
  obtain u where u: "write_pages P polls block 0 32 src False t1 = Ret (False, u)" "calm u"
      "events u = events t1 @ concat (map (page_cycles block src) [0..<32])"
    using write_pages [OF assms(1) t1(1), of block 0 32 src False] by auto
  obtain s' where s': "write_loop P polls left f (block + 1) n (drop 0x4200 img) (print (left f) u)
        = Ret (drop (n * 0x4200) (drop 0x4200 img), s')" "calm s'"
      "events s' = events u @ concat (map (\<lambda>k. block_cycles ((block + 1) + of_nat k)
         (image_block (drop 0x4200 img) k)) [0..<n])"
    using Suc.IH [of "print (left f) u" f "block + 1" "drop 0x4200 img"] u(2) f(2) by auto
  have shift: "image_block (drop 0x4200 img) k = image_block img (Suc k)" for k
    by (simp add: image_block_def add.commute)
  have "events s' = events s @ concat (map (\<lambda>k. block_cycles (block + of_nat k) (image_block img k)) [0..<Suc n])"
    using s'(3) u(3) t1(2) t(3)
    by (simp add: map_upt_Suc block_cycles_def src shift algebra_simps del: upt_Suc)
  moreover have "write_loop P polls left fuel block (Suc n) img s = Ret (drop (Suc n * 0x4200) img, s')"
    using s'(1) by (simp add: f(1) s1_def [symmetric] t(1) t1_def [symmetric] src_def [symmetric] u(1) Let_def add.commute)
  ultimately show ?case
    using s'(2) by blast
qed simp

lemma write_image:
  assumes "healthy answer" "calm s" "unat (len div 0x4000) \<le> fuel"
  shows "\<exists>s'. K9Fxx08_write P polls left fuel (Some img) name start len s = Ret s'
    \<and> events s' = events s @ concat (map (\<lambda>k. block_cycles (start div 0x4000 + of_nat k) (image_block img k))
        [0..<unat (len div 0x4000)])"
proof -
  have "\<exists>s'. res_map snd (write_loop P polls left fuel (start div 0x4000) (unat (len div 0x4000)) img
        (print progress_head (print t s))) = Ret s'
    \<and> events s' = events s @ concat (map (\<lambda>k. block_cycles (start div 0x4000 + of_nat k) (image_block img k))
        [0..<unat (len div 0x4000)])" for t
    using write_loop [OF assms(1) _ assms(3), of "print progress_head (print t s)" left "start div 0x4000" img]
      assms(2) by auto
  then show ?thesis
    unfolding K9Fxx08_write_def Let_def option.case .
qed

end

text \<open>C10.
  Writing an image to a flash without bad blocks, where the range lies in the first 1024 blocks and the image is long
  enough for it (32 pages of 512 bytes and 16 spare bytes for every block of the range), comes to its end, and
  does to the flash exactly this, block by block of the range: the block is tested and erased, and its 32 pages
  are programmed with the bytes and the spare bytes they have in the image.  Nothing else is sent, and nothing
  outside the range is touched.
\<close>

theorem flash_image_written:
  assumes cable: "nand_cable P B chip answer polls"
    and flash: "healthy answer" "nand_cable.calm chip s"
    and range: "unat (start div 0x4000) + unat (len div 0x4000) \<le> 1024" "unat (len div 0x4000) * 16896 \<le> length img"
    and fuel: "unat (len div 0x4000) \<le> fuel"
  shows "\<exists>s'. K9Fxx08_write P polls left fuel (Some img) name start len s = Ret s'
    \<and> nand_cable.events chip s' = nand_cable.events chip s
        @ concat (map (\<lambda>k. block_cycles (start div 0x4000 + of_nat k) (take 16896 (drop (16896 * k) img)))
            [0..<unat (len div 0x4000)])"
proof -
  have "image_block img k = take 16896 (drop (16896 * k) img)" if "k < unat (len div 0x4000)" for k
    using range(2) that by (intro image_block_whole) (simp add: less_eq_Suc_le order_trans [OF mult_le_mono1])
  then have "map (\<lambda>k. block_cycles (start div 0x4000 + of_nat k) (image_block img k)) [0..<unat (len div 0x4000)] =
      map (\<lambda>k. block_cycles (start div 0x4000 + of_nat k) (take 16896 (drop (16896 * k) img))) [0..<unat (len div 0x4000)]" by simp
  then show ?thesis using nand_cable.write_image [OF cable flash fuel, of left img name start] by (simp only:)
qed

definition demo_healthy :: "bus_event list \<Rightarrow> byte" where
  "demo_healthy es = (case rev es of Read # Cmd c # r \<Rightarrow> if c = 0x70 then 0 else 0xFF | _ \<Rightarrow> 0xFF)"

lemma healthy_demo: "healthy demo_healthy"
  by (simp add: healthy_def demo_healthy_def mark_cycles_def)

theorem flash_image_written_witness:
  "\<exists>s s'. steps [S2410_InitCell (tap_port (flash_board demo_healthy 0)),
       K9Fxx08_JtagInit (tap_port (flash_board demo_healthy 0))]
       (flash0 (reset_chip\<lparr>c_tck := True, c_tap := Run_Test_Idle\<rparr>)) = Ret s
    \<and> K9Fxx08_write (tap_port (flash_board demo_healthy 0)) 1 (\<lambda>_. []) 1 (Some (replicate 16896 7)) [] 0x8000 0x4000 s
      = Ret s'
    \<and> bus_events (c_env (world s')) = block_cycles 2 (replicate 16896 7)"
proof -
  let ?P = "tap_port (flash_board demo_healthy 0)"
  define s0 where "s0 = flash0 (reset_chip\<lparr>c_tck := True, c_tap := Run_Test_Idle\<rparr>)"
  have s0: "idle (world s0)" "seBuf s0 = replicate 16 0xff" "length (inCellValue s0) = 428"
    by (simp_all add: s0_def flash0_def reset_chip_def idle_def)
  have "nand_cable.events (\<lambda>c. c) s0 = []"
    by (simp add: fl.events_def fl.hist_def s0_def flash0_def reset_chip_def)
  then obtain s where s: "steps [S2410_InitCell ?P, K9Fxx08_JtagInit ?P] s0 = Ret s"
      "nand_cable.calm (\<lambda>c. c) s" "nand_cable.events (\<lambda>c. c) s = []"
    using fl.initialised [OF s0] by metis
  then obtain s' where
      "K9Fxx08_write ?P 1 (\<lambda>_. []) 1 (Some (replicate 16896 7)) [] 0x8000 0x4000 s = Ret s'"
      "nand_cable.events (\<lambda>c. c) s' = block_cycles 2 (replicate 16896 7)"
    using flash_image_written [OF fl.nand_cable_axioms healthy_demo s(2), where len = "0x4000" and fuel = 1
        and left = "\<lambda>_. []" and img = "replicate 16896 7" and name = "[]" and start = "0x8000"] s(3)
    by auto
  then show ?thesis
    using s(1) unfolding s0_def by (auto simp: fl.events_def fl.hist_def)
qed

section \<open>Confused blocks\<close>

lemma take_bit_upper: "n = 8 \<or> n = 15 \<Longrightarrow> take_bit n ((v :: 32 word) + 0x8000) = take_bit n v"
proof (transfer, goal_cases)
  case (1 n v)
  have "take_bit n (v + 0x8000) = take_bit n v"
    using 1 take_bit_add [of n v "0x8000"] by auto
  then show ?case
    using 1 by (auto simp: take_bit_take_bit min_def)
qed

lemma page_number_wraps:
  fixes v :: "32 word"
  shows "(v + 0x8000) AND 0xff = v AND 0xff" "drop_bit 8 (v + 0x8000) AND 0x7f = drop_bit 8 v AND 0x7f"
proof -
  have mask: "x AND 0xff = take_bit 8 x" "drop_bit 8 x AND 0x7f = drop_bit 8 (take_bit 15 x)" for x :: "32 word"
    by (simp_all add: take_bit_eq_mask [of 8] take_bit_eq_mask [of 7] drop_bit_take_bit mask_eq_exp_minus_1)
  show "(v + 0x8000) AND 0xff = v AND 0xff" "drop_bit 8 (v + 0x8000) AND 0x7f = drop_bit 8 v AND 0x7f"
    unfolding mask by (simp_all add: take_bit_upper)
qed

lemma upper_block: "push_bit 5 (block + 1024) = push_bit 5 block + (0x8000 :: 32 word)"
  by (simp add: push_bit_eq_mult algebra_simps)

text \<open>
  Blocks 1024 apart are the same block to the programmer: it sends 15 bits of the page number, so on
  the 32 MB flash, whose blocks go up to 2047, testing, reading, writing and marking a block of the
  upper half work on the one in the lower half, and so does erasing it, which sends the same address.
\<close>

theorem flash_blocks_alias:
  "NF_IsBadBlock P polls (block + 1024) = NF_IsBadBlock P polls block
   \<and> NF_ReadPage P polls (block + 1024) page spare = NF_ReadPage P polls block page spare
   \<and> NF_MarkBadBlock P polls (block + 1024) = NF_MarkBadBlock P polls block
   \<and> NF_WritePage P polls (block + 1024) page buffer sp = NF_WritePage P polls block page buffer sp
   \<and> page_addr P (push_bit 5 (block + 1024)) = page_addr P (push_bit 5 block)"
proof -
  have pages: "page_addr P (push_bit 5 (block + 1024) + k) = page_addr P (push_bit 5 block + k)" for k
  proof -
    have "push_bit 5 (block + 1024) + k = (push_bit 5 block + k) + 0x8000"
      by (simp add: upper_block)
    then show ?thesis
      by (simp only: page_addr_def page_number_wraps)
  qed
  have mark: "NF_MarkBadBlock P polls (block + 1024) = NF_MarkBadBlock P polls block"
    by (rule ext) (simp only: NF_MarkBadBlock_def Let_def pages [of 0, simplified])
  show ?thesis
    unfolding NF_ReadPage_def NF_WritePage_def mark pages [of 0, simplified] pages Let_def
    by (simp add: NF_IsBadBlock_def [abs_def] page_number_wraps upper_block Let_def)
qed

text \<open>The blocks of a list, one after the other.\<close>

fun read_blocks ::
  "'w port \<Rightarrow> nat \<Rightarrow> (nat \<Rightarrow> byte list) \<Rightarrow> 32 word list \<Rightarrow> 'w flash \<Rightarrow> (byte list \<times> byte list \<times> 'w flash) res"
where
  "read_blocks P polls left [] s = Ret ([], [], s)"
| "read_blocks P polls left (block # bs) s =
     res_bind (read_pages P polls block 0 32 (print (show_block block) s)) (\<lambda>(raw, good, s).
     res_map (\<lambda>(raw', good', s). (raw @ raw', good @ good', s))
       (read_blocks P polls left bs (print (left (length bs)) s)))"

text \<open>
  Reading \<open>n\<close> blocks reads only every second block of the range, and as many behind its end: the
  loop counts the block up twice.
\<close>

theorem flash_read_skips_blocks:
  "read_loop P polls left block n s = read_blocks P polls left (map (\<lambda>k. block + 2 * of_nat k) [0..<n]) s"
proof (induction n arbitrary: block s)
  case (Suc n)
  have "map (\<lambda>k. block + 2 * of_nat k) [0..<Suc n] = block # map (\<lambda>k. (block + 2) + 2 * of_nat k) [0..<n]"
    by (simp add: map_upt_Suc algebra_simps del: upt_Suc)
  then show ?case
    by (simp add: Suc.IH Let_def algebra_simps split_def del: upt_Suc)
qed simp

end
