(* ===== verification/Xmlparse.thy ===== *)
theory Xmlparse
  imports Prelude
begin

text \<open>
  The scraper \<^verbatim>\<open>xmlparse.c\<close>: a file of XML or HTML is read thing by thing, a tag or a word at a time,
  under the control of a little program of commands read from a configuration file.
\<close>

section \<open>State\<close>

datatype cfg_cmd =
    CFG_NOCMD | CFG_LABEL | CFG_SEARCHFORTAG | CFG_PRINTUNTILTAG | CFG_PRINTATTRIBUTE
  | CFG_PRINT | CFG_SEARCHFORSTR | CFG_PRINTUNTILSTR | CFG_LOOPUNTILEOF | CFG_END

definition THINGLEN :: nat where "THINGLEN = 1024"
definition CFGLEN :: nat where "CFGLEN = 128"
definition CFGLINES :: nat where "CFGLINES = 256"

text \<open>
  \<open>src\<close> is what is left of the file and \<open>src_eof\<close> whether a read has found its end; \<open>outp\<close> is what
  was printed.  The other fields are the global variables.
\<close>

record xml =
  src :: "byte list"
  src_eof :: bool
  outp :: "byte list"
  lastthing :: "byte list"
  enddetected :: bool
  cfgcmd :: "cfg_cmd list"
  cfgdata :: "byte list list"
  currline :: nat

definition iswhite :: "byte \<Rightarrow> bool" where
  "iswhite c \<longleftrightarrow> c = 32 \<or> c = 10 \<or> c = 9 \<or> c = 13"

definition out :: "byte list \<Rightarrow> xml \<Rightarrow> xml" where
  "out t s = s\<lparr>outp := outp s @ t\<rparr>"

section \<open>Things\<close>

text \<open>
  The loop that collects the characters of a thing: what was collected, the character it stopped at
  if it was not the end of the file, and what is left.
\<close>

fun collect :: "byte \<Rightarrow> byte \<Rightarrow> byte \<Rightarrow> bool \<Rightarrow> byte list \<Rightarrow> byte list \<times> byte option \<times> byte list" where
  "collect endchar endchar2 ch inquotes [] = ([ch], None, [])"
| "collect endchar endchar2 ch inquotes (c # cs) =
     (let inquotes = (if ch = 34 then \<not> inquotes else inquotes); c = (if iswhite c then 32 else c)
      in if inquotes \<or> c \<noteq> endchar \<and> c \<noteq> endchar2
         then let (t, r) = collect endchar endchar2 c inquotes cs in (ch # t, r)
         else ([ch], Some c, cs))"

text \<open>
  The collected characters and a NUL go to \<open>lastthing\<close>, an array of \<open>THINGLEN+1\<close>; nothing checks
  that they fit.
\<close>

definition getthing :: "xml \<Rightarrow> xml res" where
  "getthing s =
     (if src_eof s
      then res_map (\<lambda>b. s\<lparr>enddetected := True, lastthing := b\<rparr>) (wr (lastthing s) 0 0)
      else
        let s = s\<lparr>enddetected := False\<rparr>
        in case dropWhile iswhite (src s) of
             [] \<Rightarrow>
               res_map (\<lambda>b. s\<lparr>src := [], src_eof := True, lastthing := b\<rparr>) (wr (lastthing s) 0 0)
           | ch # cs \<Rightarrow>
               let (endchar, endchar2) = (if ch = 60 then (62, 62) else (32, 60));
                   (t, stop, rest) = collect endchar endchar2 ch False cs
               in if length (lastthing s) \<le> length t then Fault
                  else Ret (s\<lparr>lastthing := t @ 0 # drop (Suc (length t)) (lastthing s),
                              src := (if stop = Some 60 then 60 # rest else rest),
                              src_eof := (stop = None)\<rparr>))"

definition istag :: "xml \<Rightarrow> bool" where
  "istag s \<longleftrightarrow> lastthing s ! 0 = 60"

text \<open>The string that is returned; the static buffer that holds it has room for every thing.\<close>

definition thing :: "xml \<Rightarrow> byte list" where
  "thing s =
     (if istag s then takeWhile (\<lambda>c. c \<noteq> 62 \<and> \<not> iswhite c) (cstr (drop 1 (lastthing s)))
      else cstr (lastthing s))"

text \<open>
  The inner loop of \<open>thingattribute\<close>: the thing and the name of the attribute, as far as they agree,
  are skipped together.
\<close>

fun agree :: "byte list \<Rightarrow> byte list \<Rightarrow> byte list \<times> byte list" where
  "agree (c # s) (a # as) = (if c = a then agree s as else (c # s, a # as))"
| "agree s as = (s, as)"

lemma length_agree: "length (fst (agree s as)) \<le> length s"
  by (induction s as rule: agree.induct) auto

lemma agree_less: "(t, bs) = agree s as \<Longrightarrow> t = c # r \<Longrightarrow> length r < length s"
  using length_agree [of s as] by (cases "agree s as") auto

text \<open>
  \<open>s\<close> is the thing from \<open>i\<close> on, \<open>as\<close> the name from \<open>j\<close> on: \<open>j\<close> is not reset when a match breaks
  off.  An empty value leaves \<open>j\<close> at 0 and the search goes on.
\<close>

function find_attribute :: "byte list \<Rightarrow> byte list \<Rightarrow> byte list \<Rightarrow> byte list" where
  "find_attribute attribute as s =
     (if s = [] then []
      else
        let (s, as) = agree s as
        in case s of
             [] \<Rightarrow> []
           | c # s \<Rightarrow>
               if as = [] \<and> c = 61
               then (case s of
                       [] \<Rightarrow> []
                     | q # t \<Rightarrow>
                         if q = 34
                         then let v = takeWhile (\<lambda>c. c \<noteq> 34) t
                              in if v = [] then find_attribute attribute attribute t else v
                         else let v = takeWhile (\<lambda>c. \<not> iswhite c) s
                              in if v = [] then find_attribute attribute attribute s else v)
               else find_attribute attribute as s)"
  by pat_completeness auto

termination
  by (relation "measure (\<lambda>(a, as, s). length s)") (auto dest!: agree_less)

declare find_attribute.simps [simp del]

definition thingattribute :: "byte list \<Rightarrow> xml \<Rightarrow> byte list" where
  "thingattribute attribute s =
     (if istag s then find_attribute attribute attribute (cstr (lastthing s)) else [])"

section \<open>The configuration file\<close>

text \<open>
  \<open>fgets\<close> with room for \<open>n\<close> characters: the line, what is left, and whether the end of the file was
  found.
\<close>

fun fgets :: "nat \<Rightarrow> byte list \<Rightarrow> byte list \<times> byte list \<times> bool" where
  "fgets 0 f = ([], f, False)"
| "fgets (Suc n) [] = ([], [], True)"
| "fgets (Suc n) (c # cs) =
     (if c = 10 then ([c], cs, False) else let (l, r, e) = fgets n cs in (c # l, r, e))"

text \<open>Blanks and line feeds at the end are removed, but never the first character.\<close>

fun trim_end :: "nat \<Rightarrow> byte list \<Rightarrow> byte list" where
  "trim_end 0 b = b"
| "trim_end (Suc n) b =
     (if length b > 1 \<and> (last b = 32 \<or> last b = 10) then trim_end n (butlast b) else b)"

definition cfg_command :: "byte list \<Rightarrow> cfg_cmd option" where
  "cfg_command w =
     (if w = bytes ''searchfortag'' then Some CFG_SEARCHFORTAG
      else if w = bytes ''printuntiltag'' then Some CFG_PRINTUNTILTAG
      else if w = bytes ''printattribute'' then Some CFG_PRINTATTRIBUTE
      else if w = bytes ''print'' then Some CFG_PRINT
      else if w = bytes ''printuntilstring'' then Some CFG_PRINTUNTILSTR
      else if w = bytes ''searchforstring'' then Some CFG_SEARCHFORSTR
      else if w = bytes ''loopuntileof'' then Some CFG_LOOPUNTILEOF
      else if w = bytes ''end'' then Some CFG_END else None)"

text \<open>One line: its command, its argument, and the string that is left in \<open>buf\<close>.\<close>

definition cfg_line :: "byte list \<Rightarrow> (cfg_cmd \<times> byte list \<times> byte list) res" where
  "cfg_line b =
     (let t = trim_end (length b) b; w = takeWhile iswhite t; u = dropWhile iswhite t
      in if u \<noteq> [] \<and> hd u = 58
         then if length u > CFGLEN then Fault else Ret (CFG_LABEL, tl u, t)
         else
           let cmd = takeWhile (\<lambda>c. c \<noteq> 32) u; r = dropWhile (\<lambda>c. c \<noteq> 32) u;
               arg = dropWhile (\<lambda>c. c = 32) r
           in if r \<noteq> [] \<and> length arg \<ge> CFGLEN then Fault
              else case cfg_command cmd of
                     None \<Rightarrow> Exit
                   | Some c \<Rightarrow> Ret (c, arg, if r \<noteq> [] then w @ cmd else t))"

text \<open>
  The lines, at most \<open>n\<close> of them.  At the end of the file \<open>fgets\<close> leaves \<open>buf\<close> as the line before
  left it, and it is taken for a line once more; before the first line it holds nothing.
\<close>

fun cfg_lines :: "nat \<Rightarrow> byte list option \<Rightarrow> bool \<Rightarrow> byte list \<Rightarrow> (cfg_cmd \<times> byte list) list res" where
  "cfg_lines 0 buf eof f = Ret []"
| "cfg_lines (Suc n) buf eof f =
     (if eof then Ret []
      else
        let (l, r, e) = fgets (CFGLEN * 2 - 1) f
        in case (if l = [] then buf else Some (cstr l)) of
             None \<Rightarrow> Fault
           | Some b \<Rightarrow>
               res_bind (cfg_line b) (\<lambda>(c, d, b). res_map ((#) (c, d)) (cfg_lines n (Some b) e r)))"

definition readcfg :: "byte list \<Rightarrow> xml \<Rightarrow> xml res" where
  "readcfg f s =
     res_map (\<lambda>ls. s\<lparr>cfgcmd := map fst ls @ drop (length ls) (cfgcmd s),
                     cfgdata := map snd ls @ replicate (CFGLINES - length ls) [],
                     currline := 0\<rparr>)
       (cfg_lines CFGLINES None False f)"

definition getcommand :: "xml \<Rightarrow> cfg_cmd" where
  "getcommand s = (if currline s \<ge> CFGLINES - 1 then CFG_END else cfgcmd s ! currline s)"

definition getdata :: "xml \<Rightarrow> byte list" where
  "getdata s = (if currline s \<ge> CFGLINES - 1 then [] else cfgdata s ! currline s)"

fun find_label :: "byte list \<Rightarrow> nat \<Rightarrow> (cfg_cmd \<times> byte list) list \<Rightarrow> nat" where
  "find_label d i [] = CFGLINES - 1"
| "find_label d i ((c, e) # ls) = (if c = CFG_LABEL \<and> e = d then i + 1 else find_label d (i + 1) ls)"

definition gotoline :: "xml \<Rightarrow> xml" where
  "gotoline s = s\<lparr>currline := find_label (cfgdata s ! currline s) 0 (zip (cfgcmd s) (cfgdata s))\<rparr>"

definition nextline :: "xml \<Rightarrow> xml" where
  "nextline s = (if currline s < CFGLINES then s\<lparr>currline := currline s + 1\<rparr> else s)"

section \<open>Commands\<close>

text \<open>The arguments are printed as formats: a conversion has no value to convert.\<close>

fun print_format :: "byte list \<Rightarrow> byte list res" where
  "print_format [] = Ret []"
| "print_format (c # cs) =
     (if c = 37
      then (case cs of d # ds \<Rightarrow> if d = 37 then res_map ((#) 37) (print_format ds) else Fault | [] \<Rightarrow> Fault)
      else res_map ((#) c) (print_format cs))"

text \<open>\<open>argv\<close> has \<open>argc\<close> strings and a null pointer.\<close>

definition print_arg :: "byte list list \<Rightarrow> nat \<Rightarrow> xml \<Rightarrow> xml res" where
  "print_arg argv k s =
     (if length argv \<ge> 3 + k
      then if length argv = 3 + k then Fault
           else res_map (\<lambda>t. out t s) (print_format (argv ! (3 + k)))
      else Ret s)"

definition print_var :: "byte list list \<Rightarrow> byte \<Rightarrow> xml \<Rightarrow> xml res" where
  "print_var argv d s =
     (if d = 36 then Ret (out [36] s)
      else if 48 \<le> d \<and> d \<le> 57 then print_arg argv (unat d - 48) s
      else if d = 110 then Ret (out [10] s)
      else if d = 46 then Ret (out [32] s)
      else Ret s)"

fun print_data :: "byte list list \<Rightarrow> byte list \<Rightarrow> xml \<Rightarrow> xml res" where
  "print_data argv [] s = Ret s"
| "print_data argv (c # cs) s =
     (if c = 36
      then (case cs of
              [] \<Rightarrow> print_var argv 36 s
            | d # ds \<Rightarrow> res_bind (print_var argv d s) (print_data argv ds))
      else print_data argv cs (out [c] s))"

text \<open>The loops over the things of the file; \<open>fuel\<close> bounds their rounds.\<close>

fun searchfortag :: "nat \<Rightarrow> xml \<Rightarrow> xml res" where
  "searchfortag 0 s = Diverge"
| "searchfortag (Suc fuel) s =
     res_bind (getthing s) (\<lambda>s.
       if (\<not> istag s \<or> thing s \<noteq> getdata s) \<and> \<not> enddetected s then searchfortag fuel s else Ret s)"

fun printuntiltag :: "nat \<Rightarrow> xml \<Rightarrow> xml res" where
  "printuntiltag 0 s = Diverge"
| "printuntiltag (Suc fuel) s =
     (if \<not> enddetected s \<and> \<not> (istag s \<and> thing s = getdata s)
      then res_bind (getthing s) (\<lambda>s.
           printuntiltag fuel (if \<not> istag s then out (32 # thing s) s else s))
      else Ret s)"

fun searchforstr :: "nat \<Rightarrow> xml \<Rightarrow> xml res" where
  "searchforstr 0 s = Diverge"
| "searchforstr (Suc fuel) s =
     res_bind (getthing s) (\<lambda>s.
       if thing s = getdata s \<and> \<not> enddetected s then searchforstr fuel s else Ret s)"

fun printuntilstr :: "nat \<Rightarrow> xml \<Rightarrow> xml res" where
  "printuntilstr 0 s = Diverge"
| "printuntilstr (Suc fuel) s =
     (if \<not> enddetected s \<and> thing s \<noteq> getdata s
      then res_bind (getthing (out (32 # thing s) s)) (printuntilstr fuel)
      else Ret s)"

text \<open>One round of the main loop: whether it is finished, and the new state.\<close>

definition xml_step :: "nat \<Rightarrow> byte list list \<Rightarrow> xml \<Rightarrow> (bool \<times> xml) res" where
  "xml_step fuel argv s =
     (let next = (\<lambda>s. (False, nextline s))
      in case getcommand s of
           CFG_LABEL \<Rightarrow> Ret (next s)
         | CFG_NOCMD \<Rightarrow> Ret (next s)
         | CFG_SEARCHFORTAG \<Rightarrow> res_map next (searchfortag fuel s)
         | CFG_PRINTUNTILTAG \<Rightarrow>
             res_bind (getthing s) (\<lambda>s.
             res_map next (printuntiltag fuel (if \<not> enddetected s \<and> \<not> istag s then out (thing s) s else s)))
         | CFG_PRINTATTRIBUTE \<Rightarrow> Ret (next (out (thingattribute (getdata s) s) s))
         | CFG_PRINT \<Rightarrow> res_map next (print_data argv (getdata s) s)
         | CFG_SEARCHFORSTR \<Rightarrow> res_map next (searchforstr fuel s)
         | CFG_PRINTUNTILSTR \<Rightarrow> res_bind (getthing s) (\<lambda>s. res_map next (printuntilstr fuel s))
         | CFG_LOOPUNTILEOF \<Rightarrow> Ret (if \<not> enddetected s then (False, gotoline s) else next s)
         | CFG_END \<Rightarrow> Ret (True, s))"

fun xml_loop :: "nat \<Rightarrow> byte list list \<Rightarrow> xml \<Rightarrow> xml res" where
  "xml_loop 0 argv s = Diverge"
| "xml_loop (Suc fuel) argv s =
     res_bind (xml_step fuel argv s) (\<lambda>(finished, s).
       if \<not> enddetected s \<and> \<not> finished then xml_loop fuel argv s else Ret s)"

definition xml0 :: "byte list \<Rightarrow> xml" where
  "xml0 f =
     \<lparr>src = f, src_eof = False, outp = [], lastthing = replicate (THINGLEN + 1) 0, enddetected = False,
      cfgcmd = replicate CFGLINES CFG_NOCMD, cfgdata = replicate CFGLINES [], currline = 0\<rparr>"

text \<open>
  \<open>cfg\<close> and \<open>f\<close> are the contents of the files, if they can be opened.  The result is the exit status
  and what was printed; the usage message is left out.
\<close>

definition xmlparse_main ::
  "nat \<Rightarrow> byte list list \<Rightarrow> byte list option \<Rightarrow> byte list option \<Rightarrow> (int \<times> byte list) res"
where
  "xmlparse_main fuel argv cfg f =
     (if length argv < 3 then Ret (1, [])
      else case (cfg, f) of
             (Some c, Some d) \<Rightarrow>
               res_bind (readcfg c (xml0 d)) (\<lambda>s. res_map (\<lambda>s. (0, outp s)) (xml_loop fuel argv s))
           | _ \<Rightarrow> Ret (1, []))"

section \<open>Reading a page back\<close>

text \<open>
  Tags and words as they are written, and as \<open>lastthing\<close> holds them: white space in a tag or in quotes becomes a
  blank.
\<close>

datatype token = Tag "byte list" | Word "byte list"

definition blank :: "byte \<Rightarrow> byte" where
  "blank c = (if iswhite c then 32 else c)"

fun show_token :: "token \<Rightarrow> byte list" where
  "show_token (Tag t) = 60 # t @ [62]"
| "show_token (Word w) = w"

fun token_string :: "token \<Rightarrow> byte list" where
  "token_string (Tag t) = 60 # map blank t"
| "token_string (Word w) = map blank w"

text \<open>A text in which the characters \<open>ends\<close> are only between quotes, and in which the quotes are closed.\<close>

fun closed :: "byte set \<Rightarrow> bool \<Rightarrow> byte list \<Rightarrow> bool" where
  "closed ends quoted [] \<longleftrightarrow> \<not> quoted"
| "closed ends quoted (c # cs) \<longleftrightarrow>
     c \<noteq> 0 \<and> (quoted \<or> blank c \<notin> ends) \<and> closed ends (if c = 34 then \<not> quoted else quoted) cs"

fun token_ok :: "token \<Rightarrow> bool" where
  "token_ok (Tag t) \<longleftrightarrow> closed {62} False t \<and> length t < THINGLEN"
| "token_ok (Word w) \<longleftrightarrow> w \<noteq> [] \<and> closed {32, 60} False w \<and> length w \<le> THINGLEN"

lemma blank_simps [simp]: "blank c = 34 \<longleftrightarrow> c = 34" "blank c = 0 \<longleftrightarrow> c = 0" "blank c = 60 \<longleftrightarrow> c = 60" "blank c = 62 \<longleftrightarrow> c = 62"
  "blank c = 32 \<longleftrightarrow> iswhite c"
  by (auto simp: blank_def iswhite_def)

lemma collect_closed:
  assumes "closed {e, e2} (if ch = 34 then \<not> q else q) t" "blank c \<in> {e, e2}"
  shows "collect e e2 ch q (t @ c # r) = (ch # map blank t, Some (blank c), r)"
  using assms
proof (induction t arbitrary: ch q)
  case (Cons x t)
  have "collect e e2 (blank x) (if ch = 34 then \<not> q else q) (t @ c # r) = (blank x # map blank t, Some (blank c), r)"
    using Cons.prems by (intro Cons.IH) auto
  then show ?case using Cons.prems by (auto simp: Let_def simp flip: blank_def)
qed (auto simp: Let_def simp flip: blank_def)

lemma closed_nonzero: "closed ends q t \<Longrightarrow> 0 \<notin> set (map blank t)"
  by (induction ends q t rule: closed.induct) auto

text \<open>The state between two things: \<open>f\<close> is what follows, up to white space before it.\<close>

definition at_thing :: "byte list \<Rightarrow> xml \<Rightarrow> bool" where
  "at_thing f s \<longleftrightarrow> dropWhile iswhite (src s) = dropWhile iswhite f \<and> \<not> src_eof s \<and> length (lastthing s) = THINGLEN + 1"

text \<open>A word ends at white space or where a tag begins.\<close>

fun ends_word :: "token \<Rightarrow> byte list \<Rightarrow> bool" where
  "ends_word (Tag t) f = True"
| "ends_word (Word w) f = (f \<noteq> [] \<and> (iswhite (hd f) \<or> hd f = 60))"

lemma getthing_token:
  assumes "at_thing (ws @ show_token k @ f) s" "list_all iswhite ws" "token_ok k" "ends_word k f"
  shows "\<exists>s'. getthing s = Ret s' \<and> at_thing f s' \<and> \<not> enddetected s' \<and> cstr (lastthing s') = token_string k"
proof -
  have skip: "dropWhile iswhite (ws @ c # r) = c # r" if "\<not> iswhite c" for c r
    using that assms(2) by (induction ws) auto
  show ?thesis
  proof (cases k)
    case (Tag t)
    have c: "collect 62 62 60 False (t @ 62 # f) = (60 # map blank t, Some 62, f)"
      using collect_closed [of 62 62 60 False t 62 f] Tag assms(3) by (simp add: blank_def iswhite_def)
    have z: "0 \<notin> set (60 # map blank t)" using Tag assms(3) closed_nonzero [of "{62}" False t] by auto
    have "dropWhile iswhite (src s) = 60 # t @ 62 # f"
      using Tag assms(1) skip [of 60 "t @ 62 # f"] by (simp add: at_thing_def iswhite_def)
    then show ?thesis
      using Tag assms(1,3) c cstr_append_nul [OF z] by (simp add: getthing_def at_thing_def Let_def)
  next
    case (Word w)
    then obtain x v where w: "w = x # v" "\<not> iswhite x" "x \<noteq> 60" "closed {32, 60} (x = 34) v" "length v < THINGLEN"
      using assms(3) by (cases w) (auto split: if_splits)
    obtain y r where f: "f = y # r" "blank y \<in> {32, 60}" using Word assms(4) by (cases f) auto
    have c: "collect 32 60 x False (v @ f) = (x # map blank v, Some (blank y), r)"
      using collect_closed [of 32 60 x False v y r] w(4) f by (cases "x = 34") simp_all
    have x: "blank x = x" using w(2) by (simp add: blank_def)
    have z: "0 \<notin> set (x # map blank v)" using Word assms(3) closed_nonzero [of "{32, 60}" False w] x by (auto simp: w(1))
    have "dropWhile iswhite (src s) = x # v @ f"
      using Word assms(1) skip [of x "v @ f"] w(1,2) by (simp add: at_thing_def)
    then show ?thesis
      using Word assms(1) w c x f cstr_append_nul [OF z] by (auto simp: getthing_def at_thing_def Let_def iswhite_def)
  qed
qed

text \<open>The strings of the next \<open>n\<close> things.\<close>

fun read_things :: "nat \<Rightarrow> xml \<Rightarrow> (byte list list \<times> xml) res" where
  "read_things 0 s = Ret ([], s)"
| "read_things (Suc n) s =
     res_bind (getthing s) (\<lambda>s. res_map (\<lambda>(ts, s'). (cstr (lastthing s) # ts, s')) (read_things n s))"

text \<open>A page, with the white space before each token, and what follows it.\<close>

fun show_page :: "(byte list \<times> token) list \<Rightarrow> byte list \<Rightarrow> byte list" where
  "show_page [] f = f"
| "show_page ((ws, k) # p) f = ws @ show_token k @ show_page p f"

fun page_ok :: "(byte list \<times> token) list \<Rightarrow> byte list \<Rightarrow> bool" where
  "page_ok [] f = True"
| "page_ok ((ws, k) # p) f \<longleftrightarrow> list_all iswhite ws \<and> token_ok k \<and> ends_word k (show_page p f) \<and> page_ok p f"

text \<open>C31.
  A page of tags and words is read back thing by thing: each call delivers the next tag, with its \<open><\<close> and without its
  \<open>>\<close>, or the next word.  There may be blanks, tabs and line ends before each of them; a word ends where they begin or
  directly at the \<open><\<close> of a tag, which is then read next.  White space within a tag is delivered as blanks, and
  quotes, which are closed within their tag or word, may hold any characters, \<open>>\<close> and white space included.  The tags have
  less than 1024 characters and the words up to 1024, none of them a NUL, and a word at the end is followed by something.
\<close>

theorem xml_page_reads_back:
  assumes "at_thing (show_page p f) s" "page_ok p f"
  shows "\<exists>s'. read_things (length p) s = Ret (map (token_string \<circ> snd) p, s') \<and> at_thing f s'"
  using assms
proof (induction p arbitrary: s)
  case (Cons q p)
  obtain ws k where q: "q = (ws, k)" by fastforce
  obtain s1 where "getthing s = Ret s1" "at_thing (show_page p f) s1" "cstr (lastthing s1) = token_string k"
    using getthing_token [of ws k "show_page p f" s] Cons.prems by (auto simp: q)
  moreover from this obtain s' where "read_things (length p) s1 = Ret (map (token_string \<circ> snd) p, s')" "at_thing f s'"
    using Cons.IH [of s1] Cons.prems(2) by (auto simp: q)
  ultimately show ?case
    by (simp add: q)
qed simp

definition demo_page :: "(byte list \<times> token) list" where
  "demo_page = [([], Tag (bytes ''a t='' @ [34, 62, 34])), ([10, 9], Word (bytes ''one'')), ([], Tag (bytes ''b'' @ [10]))]"

theorem xml_page_reads_back_witness:
  "\<exists>s'. read_things 3 (xml0 (bytes ''<a t='' @ [34, 62, 34, 62, 10, 9] @ bytes ''one<b'' @ [10, 62])) =
     Ret ([bytes ''<a t='' @ [34, 62, 34], bytes ''one'', bytes ''<b ''], s')"
proof -
  have p: "show_page demo_page [] = bytes ''<a t='' @ [34, 62, 34, 62, 10, 9] @ bytes ''one<b'' @ [10, 62]"
    by (simp add: demo_page_def bytes_def)
  have "at_thing (show_page demo_page []) (xml0 (bytes ''<a t='' @ [34, 62, 34, 62, 10, 9] @ bytes ''one<b'' @ [10, 62]))"
    by (simp add: p at_thing_def xml0_def)
  moreover have "page_ok demo_page []"
    by (simp add: demo_page_def bytes_def iswhite_def blank_def THINGLEN_def)
  ultimately show ?thesis
    using xml_page_reads_back [of demo_page "[]"] by (fastforce simp: demo_page_def bytes_def blank_def iswhite_def numeral_3_eq_3)
qed

section \<open>The loops end\<close>

text \<open>What is left to be read; nothing is left once the end of the file was met.\<close>

definition unread :: "xml \<Rightarrow> nat" where
  "unread s = (if src_eof s then 0 else Suc (length (src s)))"

lemma collect_rest:
  "collect e e2 ch q cs = (t, stop, rest) \<Longrightarrow>
     (case stop of None \<Rightarrow> rest = [] | Some c \<Rightarrow> length rest < length cs)"
  by (induction cs arbitrary: ch q t)
     (fastforce simp: Let_def split: if_splits prod.splits option.splits)+

text \<open>A call of \<open>getthing\<close> reads something, or it finds the end; it changes nothing else.\<close>

definition read_on :: "xml \<Rightarrow> xml \<Rightarrow> bool" where
  "read_on s s' \<longleftrightarrow> enddetected s' = src_eof s \<and> (src_eof s \<or> unread s' < unread s) \<and> unread s' \<le> unread s
     \<and> cfgcmd s' = cfgcmd s \<and> cfgdata s' = cfgdata s \<and> currline s' = currline s"

lemma getthing_reads:
  assumes "getthing s = Ret s'"
  shows "read_on s s'"
proof (cases "src_eof s")
  case True
  then show ?thesis using assms by (auto simp: read_on_def getthing_def unread_def res_map_Ret_iff)
next
  case False
  show ?thesis
  proof (cases "dropWhile iswhite (src s)")
    case Nil
    then show ?thesis
      using False assms by (auto simp: read_on_def getthing_def unread_def Let_def res_map_Ret_iff simp del: dropWhile_eq_Nil_conv)
  next
    case (Cons ch cs)
    obtain e e2 :: byte where e: "(e, e2) = (if ch = 60 then (62, 62) else (32, 60))" by (cases "ch = 60") auto
    obtain t stop rest where c: "collect e e2 ch False cs = (t, stop, rest)" by (metis prod_cases3)
    have "length cs < length (src s)"
      using Cons length_dropWhile_le [of iswhite "src s"] by simp
    then show ?thesis
      using collect_rest [OF c] False assms Cons
      by (cases stop) (auto simp: read_on_def getthing_def unread_def c Let_def simp flip: e split: if_splits)
  qed
qed

text \<open>A call that returns in a state with \<open>P\<close>, or writes outside a buffer.\<close>

definition stops :: "('a \<Rightarrow> bool) \<Rightarrow> 'a res \<Rightarrow> bool" where
  "stops P m \<longleftrightarrow> m = Fault \<or> (\<exists>x. m = Ret x \<and> P x)"

lemma stops_simps [simp]:
  "stops P (Ret x) = P x" "stops P Fault" "\<not> stops P Exit" "\<not> stops P Diverge"
  by (simp_all add: stops_def)

lemma stops_mono: "stops P m \<Longrightarrow> (\<And>x. P x \<Longrightarrow> Q x) \<Longrightarrow> stops Q m"
  by (auto simp: stops_def)

lemma stops_bind: "stops P m \<Longrightarrow> (\<And>x. P x \<Longrightarrow> stops Q (f x)) \<Longrightarrow> stops Q (res_bind m f)"
  by (cases m) auto

lemma stops_map: "stops P m \<Longrightarrow> (\<And>x. P x \<Longrightarrow> Q (f x)) \<Longrightarrow> stops Q (res_map f m)"
  by (cases m) auto

lemma getthing_stops: "stops (read_on s) (getthing s)"
proof -
  have "getthing s \<noteq> Diverge \<and> getthing s \<noteq> Exit"
    by (auto simp: getthing_def Let_def wr_def split: list.splits prod.splits)
  then show ?thesis
    using getthing_reads by (cases "getthing s") auto
qed

text \<open>The program and its line are left alone, and no more is left to be read than before.\<close>

definition kept :: "xml \<Rightarrow> xml \<Rightarrow> bool" where
  "kept s s' \<longleftrightarrow> unread s' \<le> unread s \<and> cfgcmd s' = cfgcmd s \<and> cfgdata s' = cfgdata s \<and> currline s' = currline s"

lemma kept_trans: "kept s s' \<Longrightarrow> kept s' s'' \<Longrightarrow> kept s s''"
  by (simp add: kept_def)

lemma out_kept [simp]: "kept s (out t s') = kept s s'" "src_eof (out t s) = src_eof s" "unread (out t s) = unread s"
  "kept (out t s) s' = kept s s'" "read_on (out t s) s' = read_on s s'" "enddetected (out t s) = enddetected s" "istag (out t s) = istag s" "thing (out t s) = thing s" "getdata (out t s) = getdata s"
  by (simp_all add: kept_def read_on_def out_def unread_def istag_def thing_def getdata_def)

lemma read_on_kept: "read_on s s' \<Longrightarrow> kept s s'"
  by (simp add: read_on_def kept_def)

lemma unread_0: "unread s = 0 \<longleftrightarrow> src_eof s"
  by (simp add: unread_def)

lemma searchfortag_stops:
  "unread s < fuel \<Longrightarrow>
     stops (\<lambda>s'. kept s s' \<and> (enddetected s' \<or> istag s' \<and> thing s' = getdata s')) (searchfortag fuel s)"
proof (induction fuel arbitrary: s)
  case (Suc fuel)
  show ?case
    unfolding searchfortag.simps
  proof (rule stops_bind [OF getthing_stops])
    fix x assume x: "read_on s x"
    show "stops (\<lambda>s'. kept s s' \<and> (enddetected s' \<or> istag s' \<and> thing s' = getdata s'))
        (if (\<not> istag x \<or> thing x \<noteq> getdata x) \<and> \<not> enddetected x then searchfortag fuel x else Ret x)"
    proof (cases "enddetected x")
      case False
      then have "unread x < fuel" using x Suc.prems by (auto simp: read_on_def)
      from stops_mono [OF Suc.IH [OF this]] show ?thesis
        using read_on_kept [OF x] kept_trans by auto
    qed (use read_on_kept [OF x] in auto)
  qed
qed simp

lemma searchforstr_stops: "unread s < fuel \<Longrightarrow> stops (kept s) (searchforstr fuel s)"
proof (induction fuel arbitrary: s)
  case (Suc fuel)
  show ?case
    unfolding searchforstr.simps
  proof (rule stops_bind [OF getthing_stops])
    fix x assume x: "read_on s x"
    show "stops (kept s) (if thing x = getdata x \<and> \<not> enddetected x then searchforstr fuel x else Ret x)"
    proof (cases "enddetected x")
      case False
      then have "unread x < fuel" using x Suc.prems by (auto simp: read_on_def)
      from stops_mono [OF Suc.IH [OF this]] show ?thesis
        using read_on_kept [OF x] kept_trans by auto
    qed (use read_on_kept [OF x] in auto)
  qed
qed simp

lemma printuntiltag_stops:
  "unread s + (if enddetected s then 0 else 1) < fuel \<Longrightarrow>
     stops (\<lambda>s'. kept s s' \<and> (enddetected s' \<or> istag s' \<and> thing s' = getdata s')) (printuntiltag fuel s)"
proof (induction fuel arbitrary: s)
  case (Suc fuel)
  have loop: "stops (\<lambda>s'. kept s s' \<and> (enddetected s' \<or> istag s' \<and> thing s' = getdata s'))
      (res_bind (getthing s) (\<lambda>x. printuntiltag fuel (if \<not> istag x then out (32 # thing x) x else x)))"
    if "\<not> enddetected s"
  proof (rule stops_bind [OF getthing_stops])
    fix x assume x: "read_on s x"
    define y where "y = (if \<not> istag x then out (32 # thing x) x else x)"
    have "unread x + (if enddetected x then 0 else 1) < fuel"
      using x that Suc.prems by (auto simp: read_on_def unread_def split: if_splits)
    then have "unread y + (if enddetected y then 0 else 1) < fuel" "kept s y"
      using read_on_kept [OF x] by (auto simp: y_def)
    from stops_mono [OF Suc.IH [OF this(1)]] kept_trans [OF this(2)]
    show "stops (\<lambda>s'. kept s s' \<and> (enddetected s' \<or> istag s' \<and> thing s' = getdata s')) (printuntiltag fuel y)"
      by auto
  qed
  moreover have "kept s s" by (simp add: kept_def)
  ultimately show ?case by auto
qed simp

lemma printuntilstr_stops:
  "unread s + (if enddetected s then 0 else 1) < fuel \<Longrightarrow>
     stops (\<lambda>s'. kept s s' \<and> (enddetected s' \<or> thing s' = getdata s')) (printuntilstr fuel s)"
proof (induction fuel arbitrary: s)
  case (Suc fuel)
  have loop: "stops (\<lambda>s'. kept s s' \<and> (enddetected s' \<or> thing s' = getdata s'))
      (res_bind (getthing (out (32 # thing s) s)) (printuntilstr fuel))"
    if "\<not> enddetected s"
  proof (rule stops_bind [OF getthing_stops])
    fix x assume "read_on (out (32 # thing s) s) x"
    then have x: "read_on s x" by simp
    have "unread x + (if enddetected x then 0 else 1) < fuel"
      using x that Suc.prems by (auto simp: read_on_def unread_def split: if_splits)
    from stops_mono [OF Suc.IH [OF this]] kept_trans [OF read_on_kept [OF x]]
    show "stops (\<lambda>s'. kept s s' \<and> (enddetected s' \<or> thing s' = getdata s')) (printuntilstr fuel x)"
      by auto
  qed
  moreover have "kept s s" by (simp add: kept_def)
  ultimately show ?case by auto
qed simp

lemma stops_map_True: "stops (\<lambda>_. True) (res_map f m) = stops (\<lambda>_. True) m"
  by (cases m) auto

lemma print_format_stops: "stops (\<lambda>_. True) (print_format t)"
proof (induction t rule: print_format.induct)
  case (2 c cs)
  then show ?case by (cases cs) (simp_all add: stops_map_True)
qed simp

lemma kept_refl [simp]: "kept s s"
  by (simp add: kept_def)

lemma print_var_stops: "stops (kept s) (print_var argv d s)"
proof -
  have "stops (kept s) (print_arg argv k s)" for k
    unfolding print_arg_def by (auto intro: stops_map [OF print_format_stops])
  then show ?thesis by (auto simp: print_var_def)
qed

lemma print_data_stops: "stops (kept s) (print_data argv t s)"
proof (induction argv t s rule: print_data.induct)
  case (2 argv c cs s)
  have "stops (kept s) (res_bind (print_var argv d s) (print_data argv ds))"
    if "\<And>x. print_var argv d s = Ret x \<Longrightarrow> stops (kept x) (print_data argv ds x)" for d ds
    using print_var_stops [of s argv d] that
    by (cases "print_var argv d s") (auto intro: stops_mono kept_trans)
  then show ?case
    using 2 print_var_stops [of s argv] by (auto split: list.split)
qed simp

section \<open>The program ends\<close>

text \<open>A round either ends the program or goes on to the next line, if the line is no loop.\<close>

definition next_line :: "xml \<Rightarrow> bool \<times> xml \<Rightarrow> bool" where
  "next_line s = (\<lambda>(finished, s'). finished \<or>
     unread s' \<le> unread s \<and> cfgcmd s' = cfgcmd s \<and> cfgdata s' = cfgdata s \<and> currline s' = currline s + 1 \<and>
     currline s < CFGLINES - 1)"

lemma next_line_nextline: "kept s s' \<Longrightarrow> currline s < CFGLINES - 1 \<Longrightarrow> next_line s (False, nextline s')"
  by (simp add: next_line_def nextline_def kept_def CFGLINES_def unread_def split: if_splits)

lemma next_line_end: "next_line s (True, s')"
  by (simp add: next_line_def)

lemma xml_step_stops:
  assumes "unread s + 1 < fuel" "CFG_LOOPUNTILEOF \<notin> set (cfgcmd s)" "length (cfgcmd s) = CFGLINES"
  shows "stops (next_line s) (xml_step fuel argv s)"
proof (cases "currline s < CFGLINES - 1")
  case False
  then show ?thesis by (simp add: xml_step_def getcommand_def next_line_def)
next
  case line: True
  then have ne: "getcommand s \<noteq> CFG_LOOPUNTILEOF"
    using assms by (auto simp: getcommand_def CFGLINES_def in_set_conv_nth)
  have nl: "next_line s (False, nextline x)" if "kept s x" for x
    using next_line_nextline [OF that line] .
  show ?thesis
  proof (cases "getcommand s")
    case CFG_SEARCHFORTAG
    have "unread s < fuel" using assms(1) by simp
    then show ?thesis
      using CFG_SEARCHFORTAG nl by (auto simp: xml_step_def intro!: stops_map [OF searchfortag_stops])
  next
    case CFG_SEARCHFORSTR
    have "unread s < fuel" using assms(1) by simp
    then show ?thesis
      using CFG_SEARCHFORSTR nl by (auto simp: xml_step_def intro!: stops_map [OF searchforstr_stops])
  next
    case CFG_PRINT
    show ?thesis
      using CFG_PRINT nl by (auto simp: xml_step_def intro!: stops_map [OF print_data_stops])
  next
    case CFG_PRINTUNTILTAG
    have "stops (next_line s) (res_map (\<lambda>s. (False, nextline s)) (printuntiltag fuel y))"
      if "kept s y" for y
    proof -
      have "unread y + (if enddetected y then 0 else 1) < fuel" using that assms(1) by (simp add: kept_def)
      then show ?thesis
        using kept_trans [OF that] nl by (auto intro!: stops_map [OF printuntiltag_stops])
    qed
    then show ?thesis
      using CFG_PRINTUNTILTAG read_on_kept by (auto simp: xml_step_def intro!: stops_bind [OF getthing_stops])
  next
    case CFG_PRINTUNTILSTR
    have "stops (next_line s) (res_map (\<lambda>s. (False, nextline s)) (printuntilstr fuel y))"
      if "kept s y" for y
    proof -
      have "unread y + (if enddetected y then 0 else 1) < fuel" using that assms(1) by (simp add: kept_def)
      then show ?thesis
        using kept_trans [OF that] nl by (auto intro!: stops_map [OF printuntilstr_stops])
    qed
    then show ?thesis
      using CFG_PRINTUNTILSTR read_on_kept by (auto simp: xml_step_def intro!: stops_bind [OF getthing_stops])
  qed (use ne nl next_line_end in \<open>auto simp: xml_step_def\<close>)
qed

lemma xml_loop_stops:
  assumes "unread s + 2 + (CFGLINES - currline s) < fuel" "CFG_LOOPUNTILEOF \<notin> set (cfgcmd s)"
    "length (cfgcmd s) = CFGLINES"
  shows "stops (\<lambda>_. True) (xml_loop fuel argv s)"
  using assms
proof (induction fuel arbitrary: s)
  case (Suc fuel)
  have "unread s + 1 < fuel" using Suc.prems(1) by simp
  then have "stops (next_line s) (xml_step fuel argv s)"
    using Suc.prems by (intro xml_step_stops)
  then show ?case
    unfolding xml_loop.simps
  proof (rule stops_bind)
    fix r assume "next_line s r"
    then show "stops (\<lambda>_. True)
        (case r of (finished, s) \<Rightarrow> if \<not> enddetected s \<and> \<not> finished then xml_loop fuel argv s else Ret s)"
      using Suc.prems Suc.IH [of "snd r"] by (auto simp: next_line_def split: prod.split)
  qed
qed simp

lemma cfg_lines_length: "cfg_lines n b e f = Ret ls \<Longrightarrow> length ls \<le> n"
  by (induction n b e f arbitrary: ls rule: cfg_lines.induct)
     (auto simp: Let_def res_bind_Ret_iff res_map_Ret_iff split: if_splits prod.splits option.splits)

text \<open>C32.
  A program without \<^verbatim>\<open>loopuntileof\<close> comes to an end on every input file: the searches stop at the
  end of the file at the latest, so a number of rounds that is the length of the file and a constant
  is enough.  The only other result is a write outside \<open>lastthing\<close> or a format that has no value.
\<close>

theorem xml_program_ends:
  assumes "cfg_lines CFGLINES None False c = Ret ls" "CFG_LOOPUNTILEOF \<notin> set (map fst ls)"
    "length f + CFGLINES + 3 < fuel"
  shows "xmlparse_main fuel argv (Some c) (Some f) = Fault
       \<or> (\<exists>st t. xmlparse_main fuel argv (Some c) (Some f) = Ret (st, t))"
proof -
  define s where "s = (xml0 f)\<lparr>cfgcmd := map fst ls @ drop (length ls) (cfgcmd (xml0 f)),
    cfgdata := map snd ls @ replicate (CFGLINES - length ls) [], currline := 0\<rparr>"
  have "unread s + 2 + (CFGLINES - currline s) < fuel"
    using assms(3) by (simp add: s_def xml0_def unread_def)
  moreover have "CFG_LOOPUNTILEOF \<notin> set (cfgcmd s)" "length (cfgcmd s) = CFGLINES"
    using assms(2) cfg_lines_length [OF assms(1)] by (auto simp: s_def xml0_def dest: in_set_dropD)
  ultimately have "stops (\<lambda>_. True) (xml_loop fuel argv s)" by (rule xml_loop_stops)
  then show ?thesis
    using assms(1) by (auto simp: xmlparse_main_def readcfg_def s_def stops_def)
qed

theorem xml_program_ends_witness:
  "xmlparse_main 300 [[], [], []] (Some (bytes ''searchfortag b'')) (Some (bytes ''<a>x'')) = Fault
     \<or> (\<exists>st t. xmlparse_main 300 [[], [], []] (Some (bytes ''searchfortag b'')) (Some (bytes ''<a>x'')) = Ret (st, t))"
proof (rule xml_program_ends)
  show "cfg_lines CFGLINES None False (bytes ''searchfortag b'') = Ret [(CFG_SEARCHFORTAG, [98])]"
    by code_simp
qed (simp_all add: CFGLINES_def bytes_def)

section \<open>What goes wrong\<close>

text \<open>With \<^verbatim>\<open>loopuntileof\<close> the program can go round without reading.\<close>

lemma xml_loop_for_ever:
  assumes "\<not> enddetected s" "cfgcmd s = CFG_LABEL # CFG_LOOPUNTILEOF # cs" "cfgdata s = d # d # ds"
    "currline s = 1"
  shows "xml_loop fuel argv s = Diverge"
  using assms
proof (induction fuel)
  case (Suc fuel)
  have "gotoline s = s"
    using Suc.prems by (simp add: gotoline_def xml.surjective)
  then show ?case
    using Suc by (simp add: xml_step_def getcommand_def CFGLINES_def)
qed simp

text \<open>A tag of 1024 characters and more is written past the end of \<open>lastthing\<close>.\<close>

lemma getthing_overflows:
  assumes "at_thing (show_token (Tag t) @ f) s" "THINGLEN \<le> length t"
    "closed {62} False t"
  shows "getthing s = Fault"
  using assms collect_closed [of 62 62 60 False t 62 f] by (simp add: at_thing_def getthing_def blank_def iswhite_def)

end
