(* ===== verification/Rutl.thy ===== *)
theory Rutl
  imports Prelude
begin

text \<open>
  The utilities the kernel modules of the radio share, \<^verbatim>\<open>kernel/linux_bast/reciva/reciva_util.c\<close>.
\<close>

section \<open>Registers\<close>

text \<open>A bank of registers by address.  The result tells whether anything was changed.\<close>

type_synonym io_regs = "nat \<Rightarrow> 32 word"

definition rutl_regwrite :: "32 word \<Rightarrow> 32 word \<Rightarrow> nat \<Rightarrow> io_regs \<Rightarrow> bool \<times> io_regs" where
  "rutl_regwrite bits_to_set bits_to_clear address r =
     (let mask = bits_to_set OR bits_to_clear; before = r address;
          temp = (before AND NOT mask) OR bits_to_set
      in (before \<noteq> temp, r(address := temp)))"

text \<open>Most callers ignore the result.\<close>

definition reg_write :: "32 word \<Rightarrow> 32 word \<Rightarrow> nat \<Rightarrow> io_regs \<Rightarrow> io_regs" where
  "reg_write s c a r = snd (rutl_regwrite s c a r)"

lemma reg_write_other [simp]: "b \<noteq> a \<Longrightarrow> reg_write s c a r b = r b"
  by (simp add: reg_write_def rutl_regwrite_def Let_def)

lemma bit_reg_write: "bit (reg_write s c a r a) n \<longleftrightarrow> bit s n \<or> bit (r a) n \<and> \<not> bit c n"
  using bit_imp_le_length [of "r a" n]
  by (auto simp: reg_write_def rutl_regwrite_def Let_def bit_simps)

section \<open>The stack\<close>

text \<open>
  The stack of a process in the kernel, 8 KB.  Several modules copy what a program writes to an array on it
  that is as long as the program asks for; a longer one runs over the stack for certain, and what is left
  of the stack for a shorter one is not modelled.
\<close>

definition KERNEL_STACK :: nat where "KERNEL_STACK = 8192"

lemma ucast_byte: "ucast (ucast x :: 32 word) = x" for x :: byte
  by (rule bit_word_eqI) (simp add: bit_simps)

end
