(* ===== verification/Keypad.thy ===== *)
theory Keypad
  imports Rutl
begin

text \<open>
  The keypad driver of the radio's kernel, \<^verbatim>\<open>reciva_keypad_generic.c\<close>: a matrix of keys whose columns
  are driven and whose rows are read, a state machine that finds and debounces the key that is
  pressed, and one key that stands alone.  Spin locks and delays are left out: the handlers are atomic.
\<close>

section \<open>State\<close>

datatype key_config =
    KEY_CONFIG_4x3 | KEY_CONFIG_4x4_1 | KEY_CONFIG_4x4_2 | KEY_CONFIG_DUMMY | KEY_CONFIG_3x3
  | KEY_CONFIG_3x3_PLUS_1

datatype kp_state = IDLE | IDENTIFY_BUTTON | RELEASE_PENDING | RELEASE_DETECTED

datatype PowerOnKeyState_t = POKS_NONE | POKS_ALLOWED_TO_FIND | POKS_GOT_INTERRUPT | POKS_FOUND

definition GPBCON :: nat where "GPBCON = 0x10"
definition GPBDAT :: nat where "GPBDAT = 0x14"
definition GPBUP :: nat where "GPBUP = 0x18"
definition GPCCON :: nat where "GPCCON = 0x20"
definition GPCDAT :: nat where "GPCDAT = 0x24"
definition GPCUP :: nat where "GPCUP = 0x28"
definition GPDCON :: nat where "GPDCON = 0x30"
definition GPDDAT :: nat where "GPDDAT = 0x34"
definition GPDUP :: nat where "GPDUP = 0x38"
definition GPGCON :: nat where "GPGCON = 0x60"
definition GPGDAT :: nat where "GPGDAT = 0x64"
definition GPGUP :: nat where "GPGUP = 0x68"
definition EXTINT2 :: nat where "EXTINT2 = 0x90"
definition EXTINTPEND :: nat where "EXTINTPEND = 0xA8"
definition EINTFLT2 :: nat where "EINTFLT2 = 0x9c"

lemmas port_defs = GPBCON_def GPBDAT_def GPBUP_def GPCCON_def GPCDAT_def GPCUP_def GPDCON_def GPDDAT_def
  GPDUP_def GPGCON_def GPGDAT_def GPGUP_def EXTINT2_def EXTINTPEND_def EINTFLT2_def

text \<open>
  The driver of one model of keypad: its functions, where they are there.  Key codes are those of the
  input system; \<open>BTN_0\<close> and the others are constants of \<^verbatim>\<open>linux/input.h\<close>.
\<close>

record reciva_keypad_driver_t =
  kd_decode_key_press :: "(int \<Rightarrow> int \<Rightarrow> int res) option"
  kd_keys_present :: "int list option"
  kd_alt_key_functions :: "int list option"
  kd_ioctl_extension_hook :: "(nat \<Rightarrow> int) option"

definition RKD_UNUSED :: int where "RKD_UNUSED = 0x135 + 15"
definition RKD_MAX_KEYS :: nat where "RKD_MAX_KEYS = 32"

text \<open>The parameters of the module.\<close>

record kp_params =
  keypad_config :: key_config
  pins_shared :: bool

text \<open>
  The static variables, the registers and what the handlers do to the rest of the kernel:
  \<open>kp_events\<close> are the calls of \<open>input_report_key\<close>, \<open>kp_depth\<close> how often each interrupt was disabled,
  \<open>kp_timer\<close> and \<open>kp_stimer\<close> whether the timers are running, \<open>kp_reads\<close> how often the rows were read.
\<close>

record keypad =
  kp_regs :: io_regs
  kp_reads :: nat
  kp_depth :: "nat \<Rightarrow> nat"
  kp_requested :: "nat list"
  kp_events :: "(int \<times> int) list"
  kp_timer :: bool
  kp_stimer :: bool
  kp_state :: kp_state
  kp_gpio :: int
  kp_column :: int
  kp_key :: int
  num_cols :: int
  num_rows :: int
  standalone_key_state :: int
  standalone_idle :: bool
  kp_driver :: "reciva_keypad_driver_t option"
  interrupt_ran :: bool
  clear_pending_mask :: "32 word"
  column_levels :: int
  power_on_key_state :: PowerOnKeyState_t
  power_on_row :: int
  power_on_col :: int
  release_detect_count :: int

definition keypad0 :: "io_regs \<Rightarrow> keypad" where
  "keypad0 r =
     \<lparr>kp_regs = r, kp_reads = 0, kp_depth = (\<lambda>_. 0), kp_requested = [], kp_events = [], kp_timer = False,
      kp_stimer = False, kp_state = IDLE, kp_gpio = 0, kp_column = 0, kp_key = 0, num_cols = 0, num_rows = 0,
      standalone_key_state = 0, standalone_idle = True, kp_driver = None, interrupt_ran = False,
      clear_pending_mask = 0, column_levels = 0, power_on_key_state = POKS_NONE, power_on_row = 0,
      power_on_col = 0, release_detect_count = 0\<rparr>"

section \<open>Pins\<close>

text \<open>
  What the rows read: a function of how often they were read before, and of the registers, which
  drive the columns.
\<close>

type_synonym rows = "nat \<Rightarrow> io_regs \<Rightarrow> 32 word"

definition read_input :: "rows \<Rightarrow> keypad \<Rightarrow> 32 word \<times> keypad" where
  "read_input pins s = (pins (kp_reads s) (kp_regs s), s\<lparr>kp_reads := Suc (kp_reads s)\<rparr>)"

text \<open>A column with a 0 in \<open>c\<close> is an output, driven low; with a 1 it is an input.\<close>

definition column_bits :: "int \<Rightarrow> nat \<Rightarrow> 32 word" where
  "column_bits c base =
     (if c AND 1 = 0 then push_bit base 1 else 0) OR (if c AND 2 = 0 then push_bit (base + 2) 1 else 0)
     OR (if c AND 4 = 0 then push_bit (base + 4) 1 else 0)"

definition set_columns :: "kp_params \<Rightarrow> int \<Rightarrow> keypad \<Rightarrow> keypad" where
  "set_columns K c s =
     (let r = kp_regs s;
          r = (if pins_shared K
               then reg_write (column_bits c 24) (push_bit 28 3 OR push_bit 26 3 OR push_bit 24 3) GPCCON r
               else reg_write (column_bits c 16) (push_bit 20 3 OR push_bit 18 3 OR push_bit 16 3) GPDCON r);
          con = (if c AND 8 = 0 then 1 else 0);
          r = (if keypad_config K = KEY_CONFIG_4x4_1 \<or> keypad_config K = KEY_CONFIG_4x4_2
               then if pins_shared K then reg_write (push_bit 30 con) (push_bit 30 3) GPCCON r
                    else reg_write (push_bit 18 con) (push_bit 18 3) GPBCON r
               else r)
      in s\<lparr>kp_regs := r, column_levels := c\<rparr>)"

text \<open>One output pin: no pullup, data low, output.\<close>

definition setup_pin :: "nat \<Rightarrow> nat \<Rightarrow> nat \<Rightarrow> nat \<Rightarrow> io_regs \<Rightarrow> io_regs" where
  "setup_pin n up dat con r =
     reg_write (push_bit (2 * n) 1) (push_bit (2 * n) 3) con
       (reg_write 0 (push_bit n 1) dat (reg_write (push_bit n 1) 0 up r))"

definition cols_of :: "key_config \<Rightarrow> int" where
  "cols_of c = (case c of KEY_CONFIG_4x4_1 \<Rightarrow> 4 | KEY_CONFIG_4x4_2 \<Rightarrow> 4 | _ \<Rightarrow> 3)"

definition setup_gpio_output :: "kp_params \<Rightarrow> keypad \<Rightarrow> keypad" where
  "setup_gpio_output K s =
     (let r = kp_regs s;
          r = (if pins_shared K
               then setup_pin 14 GPCUP GPCDAT GPCCON (setup_pin 13 GPCUP GPCDAT GPCCON (setup_pin 12 GPCUP GPCDAT GPCCON r))
               else setup_pin 10 GPDUP GPDDAT GPDCON (setup_pin 9 GPDUP GPDDAT GPDCON (setup_pin 8 GPDUP GPDDAT GPDCON r)));
          r = (case keypad_config K of
                 KEY_CONFIG_4x4_1 \<Rightarrow>
                   if pins_shared K then setup_pin 15 GPCUP GPCDAT GPCCON r else setup_pin 9 GPBUP GPBDAT GPBCON r
               | KEY_CONFIG_4x4_2 \<Rightarrow>
                   if pins_shared K then setup_pin 15 GPCUP GPCDAT GPCCON r else setup_pin 5 GPGUP GPGDAT GPGCON r
               | _ \<Rightarrow> r)
      in s\<lparr>kp_regs := r, num_cols := cols_of (keypad_config K)\<rparr>)"

text \<open>One row: pullup, external interrupt.\<close>

definition setup_row :: "nat \<Rightarrow> io_regs \<Rightarrow> io_regs" where
  "setup_row n r = reg_write (push_bit (2 * n) 2) (push_bit (2 * n) 3) GPGCON (reg_write 0 (push_bit n 1) GPGUP r)"

definition setup_gpio_input :: "kp_params \<Rightarrow> keypad \<Rightarrow> keypad" where
  "setup_gpio_input K s =
     (let r = setup_row 10 (setup_row 9 (setup_row 8 (kp_regs s)))
      in s\<lparr>kp_regs := (if keypad_config K \<noteq> KEY_CONFIG_3x3 then setup_row 11 r else r)\<rparr>)"

definition setup_gpio_direction :: "kp_params \<Rightarrow> keypad \<Rightarrow> keypad" where
  "setup_gpio_direction K s = setup_gpio_input K (setup_gpio_output K s)"

section \<open>Interrupts, timers, keys\<close>

definition enable_irq :: "nat \<Rightarrow> keypad \<Rightarrow> keypad" where
  "enable_irq i s = s\<lparr>kp_depth := (kp_depth s)(i := kp_depth s i - 1)\<rparr>"

definition disable_irq :: "nat \<Rightarrow> keypad \<Rightarrow> keypad" where
  "disable_irq i s = s\<lparr>kp_depth := (kp_depth s)(i := kp_depth s i + 1)\<rparr>"

definition enable_interrupts :: "keypad \<Rightarrow> keypad" where
  "enable_interrupts s =
     (let s = enable_irq 18 (enable_irq 17 (enable_irq 16 s)) in if num_rows s > 3 then enable_irq 19 s else s)"

definition disable_interrupts :: "keypad \<Rightarrow> keypad" where
  "disable_interrupts s =
     (let s = disable_irq 18 (disable_irq 17 (disable_irq 16 s)) in if num_rows s > 3 then disable_irq 19 s else s)"

definition restart_timer :: "keypad \<Rightarrow> keypad" where
  "restart_timer s = s\<lparr>kp_timer := True\<rparr>"

definition restart_standalone_timer :: "keypad \<Rightarrow> keypad" where
  "restart_standalone_timer s = s\<lparr>kp_stimer := True\<rparr>"

definition delete_keypad_timers :: "keypad \<Rightarrow> keypad" where
  "delete_keypad_timers s = s\<lparr>kp_timer := False, kp_stimer := False\<rparr>"

definition input_report_key :: "int \<Rightarrow> int \<Rightarrow> keypad \<Rightarrow> keypad" where
  "input_report_key k v s = s\<lparr>kp_events := kp_events s @ [(k, v)]\<rparr>"

definition rkg_register :: "reciva_keypad_driver_t \<Rightarrow> keypad \<Rightarrow> keypad" where
  "rkg_register d s = s\<lparr>kp_driver := Some d\<rparr>"

text \<open>The registered driver is compared by its address: \<open>same\<close> is whether it is the one given.\<close>

definition rkg_unregister :: "bool \<Rightarrow> keypad \<Rightarrow> keypad" where
  "rkg_unregister same s = (if same then s\<lparr>kp_driver := None\<rparr> else s)"

definition decode_key_press :: "int \<Rightarrow> int \<Rightarrow> keypad \<Rightarrow> int res" where
  "decode_key_press row col s =
     (case kp_driver s of
        None \<Rightarrow> Ret RKD_UNUSED
      | Some d \<Rightarrow>
          (case kd_decode_key_press d of None \<Rightarrow> Ret RKD_UNUSED | Some f \<Rightarrow> f (row - 8) col))"

section \<open>The state machine\<close>

text \<open>The row is read up to three times, as long as it is low.\<close>

fun row_low :: "nat \<Rightarrow> rows \<Rightarrow> keypad \<Rightarrow> bool \<times> keypad" where
  "row_low 0 pins s = (True, s)"
| "row_low (Suc n) pins s =
     (let (v, s) = read_input pins s
      in if v AND push_bit (nat (kp_gpio s)) 1 = 0 then row_low n pins s else (False, s))"

definition next_column :: "kp_params \<Rightarrow> keypad \<Rightarrow> keypad" where
  "next_column K s =
     (if kp_column s \<ge> 1
      then let s = set_columns K 0x0f s; s = s\<lparr>kp_column := kp_column s - 1\<rparr>
           in set_columns K (NOT (push_bit (nat (kp_column s)) 1)) s
      else set_columns K 0 s)"

definition key_found :: "kp_params \<Rightarrow> keypad \<Rightarrow> keypad res" where
  "key_found K s =
     res_map (\<lambda>k.
       let s = input_report_key k 1 (s\<lparr>kp_key := k\<rparr>);
           s = (if power_on_key_state s = POKS_GOT_INTERRUPT
                then s\<lparr>power_on_row := kp_gpio s, power_on_col := kp_column s, power_on_key_state := POKS_FOUND\<rparr>
                else s)
       in set_columns K 0 s) (decode_key_press (kp_gpio s) (kp_column s) s)"

fun scan_columns :: "kp_params \<Rightarrow> rows \<Rightarrow> nat \<Rightarrow> keypad \<Rightarrow> (bool \<times> keypad) res" where
  "scan_columns K pins 0 s = Ret (False, s)"
| "scan_columns K pins (Suc n) s =
     (let (low, s) = row_low 3 pins s
      in if low then res_map (\<lambda>s. (True, s)) (key_found K s)
         else scan_columns K pins n (next_column K s))"

definition gp_state_machine :: "kp_params \<Rightarrow> rows \<Rightarrow> keypad \<Rightarrow> keypad res" where
  "gp_state_machine K pins s =
     (case kp_state s of
        IDLE \<Rightarrow>
          (let s = restart_timer (disable_interrupts s);
               s = s\<lparr>kp_column := num_cols s - 1, kp_state := IDENTIFY_BUTTON\<rparr>
           in Ret (set_columns K (NOT (push_bit (nat (kp_column s)) 1)) s))
      | IDENTIFY_BUTTON \<Rightarrow>
          res_map (\<lambda>(keypress_detected, s).
            (restart_timer s)\<lparr>release_detect_count := 0,
              kp_state := (if keypress_detected then RELEASE_PENDING else RELEASE_DETECTED)\<rparr>)
            (scan_columns K pins 4 s)
      | RELEASE_PENDING \<Rightarrow>
          (let (v, s) = read_input pins s;
               s = s\<lparr>release_detect_count :=
                       (if v AND push_bit (nat (kp_gpio s)) 1 \<noteq> 0 then release_detect_count s + 1 else 0)\<rparr>;
               s = (if release_detect_count s > 2 then s\<lparr>kp_state := RELEASE_DETECTED\<rparr> else s)
           in Ret (restart_timer s))
      | RELEASE_DETECTED \<Rightarrow>
          Ret (input_report_key (kp_key s) 0
                (enable_interrupts (s\<lparr>kp_state := IDLE, power_on_key_state := POKS_NONE\<rparr>))))"

definition reciva_gpio_int_handler :: "kp_params \<Rightarrow> rows \<Rightarrow> int \<Rightarrow> keypad \<Rightarrow> keypad res" where
  "reciva_gpio_int_handler K pins dev s =
     (let s = s\<lparr>interrupt_ran := True\<rparr>
      in if kp_state s = IDLE
         then let s = (if power_on_key_state s = POKS_ALLOWED_TO_FIND
                       then s\<lparr>power_on_key_state := POKS_GOT_INTERRUPT\<rparr> else s)
              in gp_state_machine K pins (s\<lparr>kp_gpio := dev\<rparr>)
         else Ret s)"

section \<open>The key that stands alone\<close>

definition standalone_level :: "32 word \<Rightarrow> int" where
  "standalone_level v = (if v AND push_bit 11 1 \<noteq> 0 then 1 else 0)"

definition standalone_debounce :: "rows \<Rightarrow> keypad \<Rightarrow> keypad res" where
  "standalone_debounce pins s =
     (let s = (enable_irq 19 s)\<lparr>standalone_idle := True\<rparr>; (v, s) = read_input pins s; st = standalone_level v
      in if st \<noteq> standalone_key_state s
         then res_map (\<lambda>k. input_report_key k st (s\<lparr>standalone_key_state := st, kp_key := k\<rparr>)) (decode_key_press 8 3 s)
         else Ret s)"

definition reciva_gpio_standalone_int_handler :: "rows \<Rightarrow> keypad \<Rightarrow> keypad res" where
  "reciva_gpio_standalone_int_handler pins s =
     (let (v, s) = read_input pins s; st = standalone_level v
      in if st \<noteq> standalone_key_state s
         then let s = restart_standalone_timer ((disable_irq 19 s)\<lparr>standalone_idle := False, standalone_key_state := st\<rparr>)
              in res_map (\<lambda>k. input_report_key k st (s\<lparr>kp_key := k\<rparr>)) (decode_key_press 8 3 s)
         else Ret s)"

section \<open>Sharing the pins with the display\<close>

definition rkg_access_request :: "kp_params \<Rightarrow> keypad \<Rightarrow> keypad" where
  "rkg_access_request K s =
     (if pins_shared K
      then let s = (if kp_state s = IDLE then disable_interrupts s else s\<lparr>kp_timer := False\<rparr>)
           in if keypad_config K = KEY_CONFIG_3x3_PLUS_1
              then if standalone_idle s then disable_irq 19 s else s\<lparr>kp_stimer := False\<rparr>
              else s
      else s)"

definition row_number :: "32 word \<Rightarrow> int" where
  "row_number v = (if bit v 0 then 8 else if bit v 1 then 9 else if bit v 2 then 10 else 11)"

definition check_for_keypress :: "kp_params \<Rightarrow> rows \<Rightarrow> keypad \<Rightarrow> keypad res" where
  "check_for_keypress K pins s =
     (let input_mask = push_bit 8 1 OR push_bit 9 1 OR push_bit 10 1;
          input_mask = (if keypad_config K \<noteq> KEY_CONFIG_3x3 then input_mask OR push_bit 11 1 else input_mask);
          (v, s) = read_input pins s;
          input_levels = drop_bit 8 (NOT v AND input_mask)
      in if input_levels \<noteq> 0
         then let s = disable_interrupts s
              in res_map enable_interrupts
                   (if \<not> interrupt_ran s then reciva_gpio_int_handler K pins (row_number input_levels) s else Ret s)
         else Ret s)"

text \<open>The pins as they were, and the pending interrupts cleared.\<close>

definition restore_columns :: "kp_params \<Rightarrow> keypad \<Rightarrow> keypad" where
  "restore_columns K s =
     (let s = setup_gpio_output K (set_columns K (column_levels s) s)
      in s\<lparr>kp_regs := (kp_regs s)(EXTINTPEND := clear_pending_mask s)\<rparr>)"

text \<open>
  \<open>now\<close> is the row whose interrupt, if any, comes as soon as the interrupts are enabled, before the
  rows are looked at.
\<close>

definition resume_matrix :: "kp_params \<Rightarrow> rows \<Rightarrow> int option \<Rightarrow> keypad \<Rightarrow> keypad res" where
  "resume_matrix K pins now s =
     (if kp_state s = IDLE
      then
        let s = enable_interrupts (s\<lparr>interrupt_ran := False\<rparr>)
        in res_bind (case now of None \<Rightarrow> Ret s | Some r \<Rightarrow> reciva_gpio_int_handler K pins r s)
             (check_for_keypress K pins)
      else Ret (restart_timer s))"

definition resume_standalone :: "kp_params \<Rightarrow> rows \<Rightarrow> keypad \<Rightarrow> keypad res" where
  "resume_standalone K pins s =
     (if keypad_config K = KEY_CONFIG_3x3_PLUS_1
      then if standalone_idle s then standalone_debounce pins s else Ret (restart_standalone_timer s)
      else Ret s)"

definition rkg_access_release :: "kp_params \<Rightarrow> rows \<Rightarrow> int option \<Rightarrow> keypad \<Rightarrow> keypad res" where
  "rkg_access_release K pins now s =
     (if pins_shared K
      then res_bind (resume_matrix K pins now (restore_columns K s)) (resume_standalone K pins)
      else Ret s)"

section \<open>The module\<close>

definition rows_of :: "key_config \<Rightarrow> int" where
  "rows_of c = (case c of KEY_CONFIG_3x3 \<Rightarrow> 3 | KEY_CONFIG_3x3_PLUS_1 \<Rightarrow> 3 | _ \<Rightarrow> 4)"

definition reciva_keypad_init :: "kp_params \<Rightarrow> rows \<Rightarrow> keypad \<Rightarrow> keypad res" where
  "reciva_keypad_init K pins s =
     (if keypad_config K = KEY_CONFIG_DUMMY then Ret s
      else
        let s = setup_gpio_direction K (set_columns K 0 (s\<lparr>kp_state := IDLE\<rparr>));
            s = s\<lparr>num_cols := cols_of (keypad_config K), num_rows := rows_of (keypad_config K)\<rparr>;
            r = reg_write 0x7f7f7f7f 0xffffffff EINTFLT2 (kp_regs s);
            r = (if keypad_config K = KEY_CONFIG_3x3_PLUS_1 then reg_write 0x0000eaaa 0x0000ffff EXTINT2 r
                 else reg_write 0x0000aaaa 0x0000ffff EXTINT2 r);
            more = num_rows s > 3 \<or> keypad_config K = KEY_CONFIG_3x3_PLUS_1;
            s = s\<lparr>kp_regs := r, power_on_key_state := POKS_ALLOWED_TO_FIND, interrupt_ran := False,
                  clear_pending_mask := push_bit 16 1 OR push_bit 17 1 OR push_bit 18 1
                                        OR (if more then push_bit 19 1 else 0),
                  kp_requested := [16, 17, 18] @ (if more then [19] else [])\<rparr>
        in res_map (\<lambda>s. if power_on_key_state s = POKS_ALLOWED_TO_FIND then s\<lparr>power_on_key_state := POKS_NONE\<rparr> else s)
             (check_for_keypress K pins s))"

definition reciva_keypad_exit :: "kp_params \<Rightarrow> keypad \<Rightarrow> keypad" where
  "reciva_keypad_exit K s =
     (if keypad_config K = KEY_CONFIG_DUMMY then s else delete_keypad_timers (s\<lparr>kp_requested := []\<rparr>))"

datatype key_request = IOC_KEY_GETSUPPORTED | IOC_KEY_GET_ALT_FN | IOC_KEY_GET_POWER_ON_KEY | IOC_KEY_OTHER nat

text \<open>
  \<open>from_ok\<close> and \<open>to_ok\<close> are whether the copies from and to the caller succeed.  The result is the value
  returned, what was copied to the caller, and the state.
\<close>

definition reciva_keypad_ioctl :: "key_request \<Rightarrow> bool \<Rightarrow> bool \<Rightarrow> keypad \<Rightarrow> (int \<times> int list \<times> keypad) res" where
  "reciva_keypad_ioctl cmd from_ok to_ok s =
     (let list = (\<lambda>sel. if \<not> from_ok then Ret (-14, [], s)
                        else case Option.bind (kp_driver s) sel of
                               None \<Rightarrow> Ret (-6, [], s)
                             | Some ks \<Rightarrow>
                                 if length ks < RKD_MAX_KEYS then Fault
                                 else if \<not> to_ok then Ret (-14, [], s) else Ret (0, take RKD_MAX_KEYS ks, s))
      in case cmd of
           IOC_KEY_GETSUPPORTED \<Rightarrow> list kd_keys_present
         | IOC_KEY_GET_ALT_FN \<Rightarrow> list kd_alt_key_functions
         | IOC_KEY_GET_POWER_ON_KEY \<Rightarrow>
             (if \<not> from_ok then Ret (-14, [], s)
              else if power_on_key_state s = POKS_FOUND
              then res_map (\<lambda>k. if \<not> to_ok then (-14, [], s) else (0, [k], s\<lparr>power_on_key_state := POKS_NONE\<rparr>))
                     (decode_key_press (power_on_row s) (power_on_col s) s)
              else Ret (-1, [], s))
         | IOC_KEY_OTHER n \<Rightarrow>
             (case Option.bind (kp_driver s) kd_ioctl_extension_hook of
                None \<Rightarrow> Ret (-19, [], s)
              | Some f \<Rightarrow> Ret (f n, [], s)))"

end
