(* ===== verification/Keypad_Machine.thy ===== *)
theory Keypad_Machine
  imports Keypad
begin

text \<open>
  What the keypad driver guarantees whatever happens to it: it can always be woken up, and every key it
  reports as pressed it reports as released before the next one.
\<close>

section \<open>The interrupts of the matrix\<close>

text \<open>How often the interrupts of the rows are disabled.\<close>

definition matrix_irqs :: "keypad \<Rightarrow> nat set" where
  "matrix_irqs s = (if num_rows s > 3 then {16, 17, 18, 19} else {16, 17, 18})"

definition disabled :: "nat \<Rightarrow> keypad \<Rightarrow> bool" where
  "disabled d s \<longleftrightarrow> (\<forall>i \<in> matrix_irqs s. kp_depth s i = d)"

lemma disabled_enable [simp]: "disabled (Suc d) s \<Longrightarrow> disabled d (enable_interrupts s)"
  by (simp add: disabled_def matrix_irqs_def enable_interrupts_def enable_irq_def Let_def split: if_splits)

lemma disabled_disable [simp]: "disabled d s \<Longrightarrow> disabled (Suc d) (disable_interrupts s)"
  by (simp add: disabled_def matrix_irqs_def disable_interrupts_def disable_irq_def Let_def split: if_splits)

text \<open>What enabling and disabling leave alone.\<close>

lemma interrupts_keep [simp]:
  "kp_state (enable_interrupts s) = kp_state s" "kp_state (disable_interrupts s) = kp_state s"
  "kp_timer (enable_interrupts s) = kp_timer s" "kp_timer (disable_interrupts s) = kp_timer s"
  "kp_events (enable_interrupts s) = kp_events s" "kp_events (disable_interrupts s) = kp_events s"
  "kp_key (enable_interrupts s) = kp_key s" "kp_key (disable_interrupts s) = kp_key s"
  "num_rows (enable_interrupts s) = num_rows s" "num_rows (disable_interrupts s) = num_rows s"
  "kp_stimer (enable_interrupts s) = kp_stimer s" "kp_stimer (disable_interrupts s) = kp_stimer s"
  "standalone_idle (enable_interrupts s) = standalone_idle s" "standalone_idle (disable_interrupts s) = standalone_idle s"
  "interrupt_ran (enable_interrupts s) = interrupt_ran s" "interrupt_ran (disable_interrupts s) = interrupt_ran s"
  by (simp_all add: enable_interrupts_def disable_interrupts_def enable_irq_def disable_irq_def Let_def)

lemma interrupts_depth [simp]:
  "num_rows s \<le> 3 \<Longrightarrow> kp_depth (enable_interrupts s) 19 = kp_depth s 19"
  "num_rows s \<le> 3 \<Longrightarrow> kp_depth (disable_interrupts s) 19 = kp_depth s 19"
  by (simp_all add: enable_interrupts_def disable_interrupts_def enable_irq_def disable_irq_def Let_def)

section \<open>What steps leave alone\<close>

text \<open>Two states that differ in registers and scanning data only.\<close>

definition like :: "keypad \<Rightarrow> keypad \<Rightarrow> bool" where
  "like s t \<longleftrightarrow> kp_depth t = kp_depth s \<and> kp_timer t = kp_timer s \<and> kp_stimer t = kp_stimer s \<and>
     kp_state t = kp_state s \<and> num_rows t = num_rows s \<and> standalone_idle t = standalone_idle s \<and>
     kp_events t = kp_events s \<and> kp_key t = kp_key s \<and> interrupt_ran t = interrupt_ran s"

lemma like_refl [simp]: "like s s"
  by (simp add: like_def)

lemma like_trans: "like s t \<Longrightarrow> like t u \<Longrightarrow> like s u"
  by (simp add: like_def)

lemma like_disabled: "like s t \<Longrightarrow> disabled d t = disabled d s"
  by (simp add: like_def disabled_def matrix_irqs_def)

lemma set_columns_like [simp]: "like s (set_columns K c s)"
  by (simp add: like_def set_columns_def Let_def)

lemma setup_like [simp]: "like s (setup_gpio_output K s)" "like s (setup_gpio_input K s)"
  by (simp_all add: like_def setup_gpio_output_def setup_gpio_input_def Let_def)

lemma read_input_like: "read_input pins s = (v, t) \<Longrightarrow> like s t"
  by (auto simp: read_input_def like_def)

lemma next_column_like: "like s (next_column K s)"
  by (auto simp: next_column_def like_def set_columns_def Let_def)

lemma row_low_like: "row_low n pins s = (b, t) \<Longrightarrow> like s t"
proof (induction n arbitrary: s)
  case (Suc n)
  obtain v u where "read_input pins s = (v, u)" by fastforce
  with Suc show ?case
    by (auto split: if_splits intro: like_trans read_input_like)
qed simp

text \<open>The scan finds a key, and reports it, or it finds none.\<close>

definition found :: "keypad \<Rightarrow> bool \<times> keypad \<Rightarrow> bool" where
  "found s = (\<lambda>(b, t). \<exists>u. like s u \<and>
     (if b then \<exists>k. like (input_report_key k 1 (u\<lparr>kp_key := k\<rparr>)) t else t = u))"

lemma key_found_found: "key_found K u = Ret t \<Longrightarrow> like s u \<Longrightarrow> found s (True, t)"
proof -
  assume "key_found K u = Ret t" "like s u"
  then obtain k where "t = (let v = input_report_key k 1 (u\<lparr>kp_key := k\<rparr>);
           v = (if power_on_key_state v = POKS_GOT_INTERRUPT
                then v\<lparr>power_on_row := kp_gpio v, power_on_col := kp_column v, power_on_key_state := POKS_FOUND\<rparr>
                else v)
       in set_columns K 0 v)"
    by (auto simp: key_found_def res_map_Ret_iff)
  then have "like (input_report_key k 1 (u\<lparr>kp_key := k\<rparr>)) t"
    by (auto simp: Let_def like_def set_columns_def)
  then show "found s (True, t)" using \<open>like s u\<close> by (auto simp: found_def)
qed

lemma scan_columns_found: "scan_columns K pins n s = Ret r \<Longrightarrow> found s r"
proof (induction n arbitrary: s)
  case 0
  then show ?case by (auto simp: found_def)
next
  case (Suc n)
  obtain low u where u: "row_low 3 pins s = (low, u)" by fastforce
  note l = row_low_like [OF u]
  show ?case
  proof (cases low)
    case True
    then show ?thesis using Suc.prems u key_found_found l by (auto simp: res_map_Ret_iff)
  next
    case False
    then have "found (next_column K u) r" using Suc u by simp
    then show ?thesis
      using like_trans [OF l like_trans [OF next_column_like]] by (fastforce simp: found_def split: prod.splits)
  qed
qed

section \<open>Runs of the driver\<close>

text \<open>
  What can happen to the driver: interrupts that are requested and not disabled, timers that run, the
  display module taking the pins and giving them back, calls of the driver's users.  The flag tells
  whether the display module has the pins.
\<close>

inductive kp_reach :: "kp_params \<Rightarrow> bool \<Rightarrow> keypad \<Rightarrow> bool" for K where
  load: "reciva_keypad_init K pins (keypad0 r) = Ret s \<Longrightarrow> keypad_config K \<noteq> KEY_CONFIG_DUMMY \<Longrightarrow> kp_reach K False s"
| irq: "kp_reach K False s \<Longrightarrow> i \<in> matrix_irqs s \<Longrightarrow> kp_depth s i = 0 \<Longrightarrow>
    reciva_gpio_int_handler K pins (int i - 8) s = Ret s' \<Longrightarrow> kp_reach K False s'"
| standalone_irq: "kp_reach K False s \<Longrightarrow> keypad_config K = KEY_CONFIG_3x3_PLUS_1 \<Longrightarrow> kp_depth s 19 = 0 \<Longrightarrow>
    reciva_gpio_standalone_int_handler pins s = Ret s' \<Longrightarrow> kp_reach K False s'"
| tick: "kp_reach K b s \<Longrightarrow> kp_timer s \<Longrightarrow>
    gp_state_machine K pins (s\<lparr>kp_timer := False\<rparr>) = Ret s' \<Longrightarrow> kp_reach K b s'"
| standalone_tick: "kp_reach K b s \<Longrightarrow> kp_stimer s \<Longrightarrow>
    standalone_debounce pins (s\<lparr>kp_stimer := False\<rparr>) = Ret s' \<Longrightarrow> kp_reach K b s'"
| request: "kp_reach K False s \<Longrightarrow> pins_shared K \<Longrightarrow> kp_reach K True (rkg_access_request K s)"
| release: "kp_reach K True s \<Longrightarrow> rkg_access_release K pins now s = Ret s' \<Longrightarrow> kp_reach K False s'"
| register: "kp_reach K b s \<Longrightarrow> kp_reach K b (rkg_register d s)"
| unregister: "kp_reach K b s \<Longrightarrow> kp_reach K b (rkg_unregister same s)"
| ioctl: "kp_reach K b s \<Longrightarrow> reciva_keypad_ioctl cmd from_ok to_ok s = Ret (e, out, s') \<Longrightarrow> kp_reach K b s'"

text \<open>
  Something will wake the driver up: when it is idle the interrupts are enabled, otherwise they are
  disabled and the timer runs; while the display module has the pins, neither.
\<close>

definition armed :: "bool \<Rightarrow> keypad \<Rightarrow> bool" where
  "armed access s \<longleftrightarrow>
     (if access then disabled 1 s \<and> \<not> kp_timer s
      else if kp_state s = IDLE then disabled 0 s \<and> \<not> kp_timer s else disabled 1 s \<and> kp_timer s)"

text \<open>The same for the key that stands alone.\<close>

definition armed_standalone :: "bool \<Rightarrow> keypad \<Rightarrow> bool" where
  "armed_standalone access s \<longleftrightarrow>
     (if access then kp_depth s 19 = 1 \<and> \<not> kp_stimer s
      else if standalone_idle s then kp_depth s 19 = 0 \<and> \<not> kp_stimer s else kp_depth s 19 = 1 \<and> kp_stimer s)"

lemma armed_like: "like s t \<Longrightarrow> armed b t = armed b s"
  by (simp add: armed_def like_disabled) (simp add: like_def)

lemma armed_standalone_like: "like s t \<Longrightarrow> armed_standalone b t = armed_standalone b s"
  by (simp add: armed_standalone_def like_def)

lemma restart_like_simps [simp]:
  "kp_timer (restart_timer s)" "disabled d (restart_timer s) = disabled d s" "kp_state (restart_timer s) = kp_state s"
  "disabled d (input_report_key k v s) = disabled d s" "kp_state (input_report_key k v s) = kp_state s"
  "kp_timer (input_report_key k v s) = kp_timer s"
  by (simp_all add: restart_timer_def input_report_key_def disabled_def matrix_irqs_def)

lemma disabled_update [simp]:
  "disabled d (s\<lparr>kp_timer := x1\<rparr>) = disabled d s" "disabled d (s\<lparr>kp_state := x2\<rparr>) = disabled d s"
  "disabled d (s\<lparr>kp_column := x3\<rparr>) = disabled d s" "disabled d (s\<lparr>release_detect_count := x4\<rparr>) = disabled d s"
  "disabled d (s\<lparr>power_on_key_state := x5\<rparr>) = disabled d s" "disabled d (s\<lparr>kp_key := x6\<rparr>) = disabled d s"
  "disabled d (s\<lparr>interrupt_ran := x7\<rparr>) = disabled d s" "disabled d (s\<lparr>kp_gpio := x8\<rparr>) = disabled d s"
  "disabled d (s\<lparr>kp_regs := x9\<rparr>) = disabled d s" "disabled d (s\<lparr>kp_stimer := x10\<rparr>) = disabled d s"
  "disabled d (s\<lparr>kp_driver := x11\<rparr>) = disabled d s"
  by (simp_all add: disabled_def matrix_irqs_def)

text \<open>What a step of the machine does, state by state.\<close>

lemma gp_idle:
  assumes "gp_state_machine K pins s = Ret t" "kp_state s = IDLE"
  shows "like ((restart_timer (disable_interrupts s))\<lparr>kp_state := IDENTIFY_BUTTON\<rparr>) t"
proof -
  define u where "u = (restart_timer (disable_interrupts s))\<lparr>kp_column := num_cols (restart_timer (disable_interrupts s)) - 1,
      kp_state := IDENTIFY_BUTTON\<rparr>"
  have "t = set_columns K (NOT (push_bit (nat (kp_column u)) 1)) u"
    using assms by (simp add: gp_state_machine_def Let_def u_def)
  moreover have "like ((restart_timer (disable_interrupts s))\<lparr>kp_state := IDENTIFY_BUTTON\<rparr>) u"
    by (simp add: u_def like_def)
  ultimately show ?thesis using like_trans set_columns_like by blast
qed

lemma gp_identify:
  assumes "gp_state_machine K pins s = Ret t" "kp_state s = IDENTIFY_BUTTON"
  shows "(\<exists>k. like ((restart_timer (input_report_key k 1 (s\<lparr>kp_key := k\<rparr>)))\<lparr>kp_state := RELEASE_PENDING\<rparr>) t)
    \<or> like ((restart_timer s)\<lparr>kp_state := RELEASE_DETECTED\<rparr>) t"
proof -
  obtain r where r: "scan_columns K pins 4 s = Ret r" and t: "t = (case r of (k, u) \<Rightarrow>
      (restart_timer u)\<lparr>release_detect_count := 0, kp_state := (if k then RELEASE_PENDING else RELEASE_DETECTED)\<rparr>)"
    using assms by (auto simp: gp_state_machine_def res_map_Ret_iff)
  from scan_columns_found [OF r] show ?thesis
    using t by (fastforce simp: found_def like_def restart_timer_def input_report_key_def split: prod.splits if_splits)
qed

lemma gp_pending:
  assumes "gp_state_machine K pins s = Ret t" "kp_state s = RELEASE_PENDING"
  shows "\<exists>st. st \<in> {RELEASE_PENDING, RELEASE_DETECTED} \<and> like ((restart_timer s)\<lparr>kp_state := st\<rparr>) t"
proof -
  obtain v u where u: "read_input pins s = (v, u)" by fastforce
  define n where "n = (if v AND push_bit (nat (kp_gpio u)) 1 \<noteq> 0 then release_detect_count u + 1 else 0)"
  define w where "w = (if n > 2 then u\<lparr>release_detect_count := n, kp_state := RELEASE_DETECTED\<rparr>
                       else u\<lparr>release_detect_count := n\<rparr>)"
  have "t = restart_timer w"
    using assms u by (auto simp: gp_state_machine_def Let_def n_def w_def)
  then show ?thesis
    using read_input_like [OF u] assms(2)
    by (cases "n > 2") (auto simp: w_def like_def restart_timer_def)
qed

lemma gp_released:
  "gp_state_machine K pins s = Ret t \<Longrightarrow> kp_state s = RELEASE_DETECTED \<Longrightarrow>
     like (input_report_key (kp_key s) 0 (enable_interrupts (s\<lparr>kp_state := IDLE\<rparr>))) t"
  by (auto simp: gp_state_machine_def like_def input_report_key_def enable_interrupts_def enable_irq_def Let_def)

text \<open>From a state with the interrupts as the state asks for and the timer off, a step arms the driver.\<close>

lemma gp_state_machine_armed:
  assumes "gp_state_machine K pins s = Ret t" "disabled (if kp_state s = IDLE then d else 1) s" "\<not> kp_timer s"
  shows "if kp_state s = IDLE then kp_state t \<noteq> IDLE \<and> disabled (Suc d) t \<and> kp_timer t else armed False t"
proof (cases "kp_state s")
  case IDLE
  note l = gp_idle [OF assms(1) IDLE]
  have "disabled (Suc d) t"
    unfolding like_disabled [OF l] using IDLE assms(2) by simp
  then show ?thesis
    using IDLE l by (simp add: like_def restart_timer_def)
next
  case IDENTIFY_BUTTON
  then have "disabled 1 s" using assms(2) by simp
  then show ?thesis
    using gp_identify [OF assms(1) IDENTIFY_BUTTON] IDENTIFY_BUTTON armed_like [of _ t False] by (fastforce simp: armed_def)
next
  case RELEASE_PENDING
  then have "disabled 1 s" using assms(2) by simp
  then show ?thesis
    using gp_pending [OF assms(1) RELEASE_PENDING] RELEASE_PENDING armed_like [of _ t False] by (fastforce simp: armed_def)
next
  case RELEASE_DETECTED
  then have "disabled (Suc 0) s" using assms(2) by simp
  then show ?thesis
    using gp_released [OF assms(1) RELEASE_DETECTED] RELEASE_DETECTED assms(3) armed_like [of _ t False]
    by (fastforce simp: armed_def)
qed

text \<open>What the machine never touches.\<close>

definition same_alone :: "keypad \<Rightarrow> keypad \<Rightarrow> bool" where
  "same_alone s t \<longleftrightarrow> num_rows t = num_rows s \<and> kp_stimer t = kp_stimer s \<and> standalone_idle t = standalone_idle s \<and>
     (num_rows s \<le> 3 \<longrightarrow> kp_depth t 19 = kp_depth s 19)"

lemma same_alone_trans: "same_alone s t \<Longrightarrow> same_alone t u \<Longrightarrow> same_alone s u"
  by (simp add: same_alone_def)

lemma like_same_alone: "like s t \<Longrightarrow> same_alone s t"
  by (simp add: like_def same_alone_def)

lemma same_alone_interrupts [simp]: "same_alone s (enable_interrupts s)" "same_alone s (disable_interrupts s)"
  by (simp_all add: same_alone_def)

lemma gp_state_machine_keeps:
  assumes "gp_state_machine K pins s = Ret t"
  shows "same_alone s t"
proof (cases "kp_state s")
  case IDLE
  from gp_idle [OF assms this] show ?thesis by (simp add: same_alone_def like_def restart_timer_def)
next
  case IDENTIFY_BUTTON
  from gp_identify [OF assms this] show ?thesis
    by (auto simp: same_alone_def like_def restart_timer_def input_report_key_def)
next
  case RELEASE_PENDING
  from gp_pending [OF assms this] show ?thesis by (auto simp: same_alone_def like_def restart_timer_def)
next
  case RELEASE_DETECTED
  from gp_released [OF assms this] show ?thesis by (simp add: same_alone_def like_def input_report_key_def)
qed

text \<open>An interrupt of a row starts the machine if it is idle.\<close>

lemma int_handler_armed:
  assumes "reciva_gpio_int_handler K pins dev s = Ret t" "disabled (if kp_state s = IDLE then d else Suc d) s"
    "kp_timer s = (kp_state s \<noteq> IDLE)"
  shows "kp_state t \<noteq> IDLE \<and> disabled (Suc d) t \<and> kp_timer t"
proof (cases "kp_state s = IDLE")
  case True
  let ?u = "s\<lparr>interrupt_ran := True, kp_gpio := dev\<rparr>"
  let ?v = "s\<lparr>interrupt_ran := True, power_on_key_state := POKS_GOT_INTERRUPT, kp_gpio := dev\<rparr>"
  have "gp_state_machine K pins ?u = Ret t \<or> gp_state_machine K pins ?v = Ret t"
    using assms(1) True by (auto simp: reciva_gpio_int_handler_def Let_def split: if_splits)
  then show ?thesis
    using gp_state_machine_armed [of K pins ?u t d] gp_state_machine_armed [of K pins ?v t d] True assms by auto
qed (use assms in \<open>auto simp: reciva_gpio_int_handler_def\<close>)

lemma int_handler_keeps: "reciva_gpio_int_handler K pins dev s = Ret t \<Longrightarrow> same_alone s t"
  by (auto simp: reciva_gpio_int_handler_def Let_def split: if_splits dest!: gp_state_machine_keeps)
     (auto simp: same_alone_def)

lemma check_for_keypress_cases:
  assumes "check_for_keypress K pins s = Ret t"
  obtains u where "like s u" "t = u"
  | u where "like s u" "interrupt_ran s" "t = enable_interrupts (disable_interrupts u)"
  | u v n where "like s u" "\<not> interrupt_ran s" "reciva_gpio_int_handler K pins n (disable_interrupts u) = Ret v"
      "t = enable_interrupts v"
proof -
  obtain v u where u: "read_input pins s = (v, u)" by fastforce
  note l = read_input_like [OF u]
  then have "interrupt_ran u = interrupt_ran s" by (simp add: like_def)
  then show thesis
    using assms u l that
    by (auto simp: check_for_keypress_def Let_def res_map_Ret_iff split: if_splits)
qed

section \<open>The driver stays armed\<close>

lemma check_for_keypress_armed:
  assumes "check_for_keypress K pins s = Ret t" "armed False s"
  shows "armed False t \<and> same_alone s t"
  using assms(1)
proof (cases rule: check_for_keypress_cases)
  case (1 u)
  then show ?thesis using assms(2) armed_like like_same_alone by blast
next
  case (2 u)
  then have "armed False u" using assms(2) armed_like by blast
  then have "armed False t" using 2 by (auto simp: armed_def)
  moreover have "same_alone s t"
    using 2 like_same_alone same_alone_trans same_alone_interrupts by blast
  ultimately show ?thesis ..
next
  case (3 u v n)
  then have a: "armed False u" using assms(2) armed_like by blast
  have "kp_state v \<noteq> IDLE \<and> disabled (Suc 1) v \<and> kp_timer v"
    using int_handler_armed [OF 3(3), of 1] a disabled_disable [of 0 u] disabled_disable [of 1 u]
    by (auto simp: armed_def split: if_splits)
  then have "armed False t" using 3(4) by (auto simp: armed_def)
  moreover have "same_alone s t"
    using 3 int_handler_keeps like_same_alone same_alone_trans same_alone_interrupts by metis
  ultimately show ?thesis ..
qed

text \<open>The operations of the key that stands alone do not touch the matrix, which has three rows then.\<close>

lemma disabled_irq_19 [simp]:
  "num_rows s \<le> 3 \<Longrightarrow> disabled d (enable_irq 19 s) = disabled d s"
  "num_rows s \<le> 3 \<Longrightarrow> disabled d (disable_irq 19 s) = disabled d s"
  by (simp_all add: disabled_def matrix_irqs_def enable_irq_def disable_irq_def)

lemma irq_19_keeps [simp]:
  "kp_state (enable_irq i s) = kp_state s" "kp_state (disable_irq i s) = kp_state s"
  "kp_timer (enable_irq i s) = kp_timer s" "kp_timer (disable_irq i s) = kp_timer s"
  "num_rows (enable_irq i s) = num_rows s" "num_rows (disable_irq i s) = num_rows s"
  "kp_stimer (enable_irq i s) = kp_stimer s"
  "kp_depth (enable_irq i s) i = kp_depth s i - 1" "kp_depth (disable_irq i s) i = kp_depth s i + 1"
  by (simp_all add: enable_irq_def disable_irq_def)

lemma standalone_debounce_cases:
  assumes "standalone_debounce pins s = Ret t"
  shows "\<exists>k es. like ((enable_irq 19 s)\<lparr>standalone_idle := True, kp_key := k, kp_events := es\<rparr>) t"
proof -
  define u where "u = (enable_irq 19 s)\<lparr>standalone_idle := True\<rparr>"
  obtain v w where w: "read_input pins u = (v, w)" by fastforce
  note l = read_input_like [OF w]
  have "t = w \<or> (\<exists>k. t = input_report_key k (standalone_level v) (w\<lparr>standalone_key_state := standalone_level v, kp_key := k\<rparr>))"
    using assms w by (auto simp: standalone_debounce_def Let_def u_def [symmetric] res_map_Ret_iff split: if_splits)
  then have "\<exists>k es. like (u\<lparr>kp_key := k, kp_events := es\<rparr>) t"
  proof
    assume "t = w"
    then have "like (u\<lparr>kp_key := kp_key u, kp_events := kp_events u\<rparr>) t" using l by simp
    then show ?thesis by blast
  next
    assume "\<exists>k. t = input_report_key k (standalone_level v) (w\<lparr>standalone_key_state := standalone_level v, kp_key := k\<rparr>)"
    then obtain k where "t = input_report_key k (standalone_level v) (w\<lparr>standalone_key_state := standalone_level v, kp_key := k\<rparr>)" ..
    then have "like (u\<lparr>kp_key := k, kp_events := kp_events u @ [(k, standalone_level v)]\<rparr>) t"
      using l by (simp add: like_def input_report_key_def)
    then show ?thesis by blast
  qed
  then show ?thesis by (simp add: u_def)
qed

lemma standalone_debounce_keeps:
  assumes "standalone_debounce pins s = Ret t" "num_rows s \<le> 3"
  shows "armed b t = armed b s" "num_rows t = num_rows s" "standalone_idle t" "kp_stimer t = kp_stimer s"
    "kp_depth t 19 = kp_depth s 19 - 1"
proof -
  obtain k es where l: "like ((enable_irq 19 s)\<lparr>standalone_idle := True, kp_key := k, kp_events := es\<rparr>) t"
    using standalone_debounce_cases [OF assms(1)] by blast
  show "armed b t = armed b s"
    unfolding armed_like [OF l] using assms(2) by (simp add: armed_def disabled_def [of _ "enable_irq 19 s\<lparr>standalone_idle := True, kp_key := k, kp_events := es\<rparr>"]
        matrix_irqs_def) (simp add: disabled_def matrix_irqs_def enable_irq_def)
  show "num_rows t = num_rows s" "standalone_idle t" "kp_stimer t = kp_stimer s" "kp_depth t 19 = kp_depth s 19 - 1"
    using l by (simp_all add: like_def)
qed

lemma standalone_int_cases:
  assumes "reciva_gpio_standalone_int_handler pins s = Ret t"
  shows "like s t \<or> (\<exists>k es. like ((disable_irq 19 s)\<lparr>standalone_idle := False, kp_stimer := True, kp_key := k, kp_events := es\<rparr>) t)"
proof -
  obtain v w where w: "read_input pins s = (v, w)" by fastforce
  note l = read_input_like [OF w]
  have "t = w \<or> (\<exists>k. t = input_report_key k (standalone_level v)
      ((restart_standalone_timer ((disable_irq 19 w)\<lparr>standalone_idle := False, standalone_key_state := standalone_level v\<rparr>))
        \<lparr>kp_key := k\<rparr>))"
    using assms w by (auto simp: reciva_gpio_standalone_int_handler_def Let_def res_map_Ret_iff split: if_splits)
  then show ?thesis
  proof
    assume "\<exists>k. t = input_report_key k (standalone_level v)
      ((restart_standalone_timer ((disable_irq 19 w)\<lparr>standalone_idle := False, standalone_key_state := standalone_level v\<rparr>))
        \<lparr>kp_key := k\<rparr>)"
    then obtain k where "t = input_report_key k (standalone_level v)
      ((restart_standalone_timer ((disable_irq 19 w)\<lparr>standalone_idle := False, standalone_key_state := standalone_level v\<rparr>))
        \<lparr>kp_key := k\<rparr>)" ..
    then have "like ((disable_irq 19 s)\<lparr>standalone_idle := False, kp_stimer := True, kp_key := k,
        kp_events := kp_events s @ [(k, standalone_level v)]\<rparr>) t"
      using l by (simp add: like_def input_report_key_def restart_standalone_timer_def disable_irq_def)
    then show ?thesis by blast
  qed (use l in simp)
qed

lemma standalone_int_keeps:
  assumes "reciva_gpio_standalone_int_handler pins s = Ret t" "num_rows s \<le> 3"
  shows "armed b t = armed b s" "num_rows t = num_rows s"
    "armed_standalone False s \<Longrightarrow> kp_depth s 19 = 0 \<Longrightarrow> armed_standalone False t"
proof -
  have "armed b t = armed b s \<and> num_rows t = num_rows s \<and>
    (armed_standalone False s \<longrightarrow> kp_depth s 19 = 0 \<longrightarrow> armed_standalone False t)"
    using standalone_int_cases [OF assms(1)]
  proof (elim disjE exE)
    assume l: "like s t"
    then show ?thesis using armed_like [OF l] armed_standalone_like [OF l] by (simp add: like_def)
  next
    fix k es
    assume l: "like ((disable_irq 19 s)\<lparr>standalone_idle := False, kp_stimer := True, kp_key := k, kp_events := es\<rparr>) t"
    have "armed b t = armed b s"
      unfolding armed_like [OF l] using assms(2)
      by (simp add: armed_def disabled_def matrix_irqs_def) (simp add: disable_irq_def)
    then show ?thesis
      using l by (simp add: like_def armed_standalone_def)
  qed
  then show "armed b t = armed b s" "num_rows t = num_rows s"
    "armed_standalone False s \<Longrightarrow> kp_depth s 19 = 0 \<Longrightarrow> armed_standalone False t" by auto
qed

definition kp_inv :: "kp_params \<Rightarrow> bool \<Rightarrow> keypad \<Rightarrow> bool" where
  "kp_inv K b s \<longleftrightarrow> armed b s \<and> num_rows s = rows_of (keypad_config K) \<and> (b \<longrightarrow> pins_shared K) \<and>
     (if keypad_config K = KEY_CONFIG_3x3_PLUS_1 then armed_standalone b s else \<not> kp_stimer s)"

lemma rows_plus_1 [simp]: "rows_of KEY_CONFIG_3x3_PLUS_1 = 3"
  by (simp add: rows_of_def)

lemma armed_standalone_same:
  "same_alone s t \<Longrightarrow> num_rows s \<le> 3 \<Longrightarrow> armed_standalone b t = armed_standalone b s"
  by (simp add: same_alone_def armed_standalone_def)

lemma kp_inv_step:
  assumes "kp_inv K b s" "armed b t" "same_alone s t"
  shows "kp_inv K b t"
  using assms armed_standalone_same [OF assms(3)] by (auto simp: kp_inv_def same_alone_def)

lemma request_armed:
  assumes "kp_inv K False s" "pins_shared K"
  shows "kp_inv K True (rkg_access_request K s)"
proof -
  define u where "u = (if kp_state s = IDLE then disable_interrupts s else s\<lparr>kp_timer := False\<rparr>)"
  have "armed True u" "same_alone s u"
    using assms(1) disabled_disable [of 0 s]
    by (auto simp: u_def kp_inv_def armed_def same_alone_def disable_interrupts_def disable_irq_def Let_def split: if_splits)
  moreover have "rkg_access_request K s =
      (if keypad_config K = KEY_CONFIG_3x3_PLUS_1
       then if standalone_idle u then disable_irq 19 u else u\<lparr>kp_stimer := False\<rparr> else u)"
    using assms(2) by (simp add: rkg_access_request_def u_def)
  ultimately show ?thesis
    using assms armed_standalone_same [of s u False]
    by (auto simp: kp_inv_def armed_def armed_standalone_def same_alone_def disable_irq_def disabled_def matrix_irqs_def)
qed

lemma release_armed:
  assumes "kp_inv K True s" "rkg_access_release K pins now s = Ret t"
  shows "kp_inv K False t"
proof -
  have sh: "pins_shared K" and a: "armed True s" and n: "num_rows s = rows_of (keypad_config K)"
    using assms(1) by (auto simp: kp_inv_def)
  define u where "u = restore_columns K s"
  have l: "like s u"
    by (simp add: u_def restore_columns_def like_def setup_gpio_output_def set_columns_def Let_def)
  obtain v where v: "resume_matrix K pins now u = Ret v" and t: "resume_standalone K pins v = Ret t"
    using assms(2) sh by (auto simp: rkg_access_release_def u_def res_bind_Ret_iff)
  have au: "disabled 1 u" "\<not> kp_timer u" using a l like_disabled [OF l, of 1] by (simp_all add: armed_def like_def)
  have "armed False v \<and> same_alone u v"
  proof (cases "kp_state u = IDLE")
    case True
    define w where "w = enable_interrupts (u\<lparr>interrupt_ran := False\<rparr>)"
    have w: "armed False w" "same_alone u w" "kp_state w = IDLE"
      using True au by (auto simp: w_def armed_def same_alone_def)
    obtain x where x: "(case now of None \<Rightarrow> Ret w | Some r \<Rightarrow> reciva_gpio_int_handler K pins r w) = Ret x"
        "check_for_keypress K pins x = Ret v"
      using v True by (auto simp: resume_matrix_def Let_def w_def [symmetric] res_bind_Ret_iff)
    have "armed False x \<and> same_alone w x"
    proof (cases now)
      case None
      then show ?thesis using x w by (simp add: same_alone_def)
    next
      case (Some r)
      then have h: "reciva_gpio_int_handler K pins r w = Ret x" using x by simp
      have "kp_state x \<noteq> IDLE \<and> disabled (Suc 0) x \<and> kp_timer x"
        using h w by (intro int_handler_armed) (auto simp: armed_def)
      then show ?thesis using int_handler_keeps [OF h] by (simp add: armed_def)
    qed
    then show ?thesis
      using check_for_keypress_armed [OF x(2)] w(2) same_alone_trans by blast
  next
    case False
    then show ?thesis using v au by (auto simp: resume_matrix_def armed_def same_alone_def restart_timer_def)
  qed
  moreover have "same_alone s u" using like_same_alone [OF l] .
  ultimately have av: "armed False v" "same_alone s v" using same_alone_trans by auto
  show ?thesis
  proof (cases "keypad_config K = KEY_CONFIG_3x3_PLUS_1")
    case True
    then have n3: "num_rows v \<le> 3" "kp_depth v 19 = 1" "\<not> kp_stimer v"
      using av n assms(1) by (auto simp: same_alone_def kp_inv_def armed_standalone_def)
    show ?thesis
    proof (cases "standalone_idle v")
      case True
      then have "standalone_debounce pins v = Ret t" using t \<open>keypad_config K = _\<close> by (simp add: resume_standalone_def)
      from standalone_debounce_keeps [OF this n3(1)] show ?thesis
        using av n3 n \<open>keypad_config K = _\<close> by (auto simp: kp_inv_def armed_standalone_def same_alone_def)
    next
      case False
      then have "t = restart_standalone_timer v" using t \<open>keypad_config K = _\<close> by (simp add: resume_standalone_def)
      then show ?thesis
        using False av n3 n \<open>keypad_config K = _\<close>
        by (auto simp: kp_inv_def armed_standalone_def same_alone_def restart_standalone_timer_def armed_def)
    qed
  qed (use t av n assms(1) in \<open>auto simp: resume_standalone_def kp_inv_def same_alone_def\<close>)
qed

lemma init_armed:
  assumes "reciva_keypad_init K pins (keypad0 r) = Ret s" "keypad_config K \<noteq> KEY_CONFIG_DUMMY"
  shows "kp_inv K False s"
proof -
  define p where "p = setup_gpio_direction K (set_columns K 0 ((keypad0 r)\<lparr>kp_state := IDLE\<rparr>))"
  have p: "like (keypad0 r) p"
    by (simp add: p_def like_def setup_gpio_direction_def setup_gpio_output_def setup_gpio_input_def set_columns_def
        Let_def keypad0_def)
  obtain rg m q where "res_map (\<lambda>s. if power_on_key_state s = POKS_ALLOWED_TO_FIND then s\<lparr>power_on_key_state := POKS_NONE\<rparr> else s)
      (check_for_keypress K pins (p\<lparr>num_cols := cols_of (keypad_config K), num_rows := rows_of (keypad_config K),
         kp_regs := rg, power_on_key_state := POKS_ALLOWED_TO_FIND, interrupt_ran := False, clear_pending_mask := m,
         kp_requested := q\<rparr>)) = Ret s"
    using assms by (simp add: reciva_keypad_init_def Let_def p_def)
  then obtain v where u: "check_for_keypress K pins (p\<lparr>num_cols := cols_of (keypad_config K),
         num_rows := rows_of (keypad_config K), kp_regs := rg, power_on_key_state := POKS_ALLOWED_TO_FIND,
         interrupt_ran := False, clear_pending_mask := m, kp_requested := q\<rparr>) = Ret v"
      (is "check_for_keypress K pins ?u = _") "s = v \<or> s = v\<lparr>power_on_key_state := POKS_NONE\<rparr>"
    by (auto simp: res_map_Ret_iff)
  have f: "kp_state ?u = IDLE" "kp_depth ?u = (\<lambda>_. 0)" "\<not> kp_timer ?u" "\<not> kp_stimer ?u" "standalone_idle ?u"
    "num_rows ?u = rows_of (keypad_config K)"
    using p by (simp_all add: like_def keypad0_def)
  have "armed False ?u" using f by (simp add: armed_def disabled_def)
  from check_for_keypress_armed [OF u(1) this] have "armed False v" "same_alone ?u v" by auto
  moreover have "like v s \<or> s = v" using u(2) by (auto simp: like_def)
  ultimately show ?thesis
    using f armed_like [of v s False] armed_standalone_like [of v s False]
    by (auto simp: kp_inv_def same_alone_def armed_standalone_def like_def)
qed

lemma armed_driver [simp]: "armed b (s\<lparr>kp_driver := d\<rparr>) = armed b s"
  by (simp add: armed_def)

lemma kp_reach_inv: "kp_reach K b s \<Longrightarrow> kp_inv K b s"
proof (induction rule: kp_reach.induct)
  case (load pins r s)
  then show ?case by (rule init_armed)
next
  case (irq s i pins s')
  then have "kp_state s = IDLE" "disabled 0 s" "\<not> kp_timer s"
    by (auto simp: kp_inv_def armed_def disabled_def split: if_splits)
  then have "kp_state s' \<noteq> IDLE \<and> disabled (Suc 0) s' \<and> kp_timer s'"
    using irq by (intro int_handler_armed) auto
  then show ?case
    using irq int_handler_keeps kp_inv_step by (auto simp: armed_def)
next
  case (standalone_irq s pins s')
  then have "num_rows s \<le> 3" by (simp add: kp_inv_def)
  from standalone_int_keeps [OF standalone_irq.hyps(4) this] show ?case
    using standalone_irq by (auto simp: kp_inv_def)
next
  case (tick b s pins s')
  then have "kp_state s \<noteq> IDLE" "disabled 1 s" "\<not> b"
    by (auto simp: kp_inv_def armed_def split: if_splits)
  then have "armed False s'"
    using gp_state_machine_armed [OF tick.hyps(3)] by simp
  moreover have "same_alone s s'"
    using gp_state_machine_keeps [OF tick.hyps(3)] by (simp add: same_alone_def)
  ultimately show ?case
    using kp_inv_step [of K False s s'] tick.IH \<open>\<not> b\<close> by simp
next
  case (standalone_tick b s pins s')
  then have p: "keypad_config K = KEY_CONFIG_3x3_PLUS_1" by (auto simp: kp_inv_def split: if_splits)
  then have a: "\<not> b" "kp_depth s 19 = 1" "num_rows s \<le> 3"
    using standalone_tick by (auto simp: kp_inv_def armed_standalone_def split: if_splits)
  then have "num_rows (s\<lparr>kp_stimer := False\<rparr>) \<le> 3" by simp
  note k = standalone_debounce_keeps [OF standalone_tick.hyps(3) this]
  have "armed False (s\<lparr>kp_stimer := False\<rparr>) = armed False s" by (simp add: armed_def)
  then show ?case
    using k(1) [of False] k(2-5) a p standalone_tick.IH by (auto simp: kp_inv_def armed_standalone_def)
next
  case (request s)
  then show ?case by (simp add: request_armed)
next
  case (release s pins now s')
  then show ?case by (simp add: release_armed)
next
  case (register b s d)
  show ?case
    by (rule kp_inv_step [OF register.IH]) (use register.IH in \<open>simp_all add: kp_inv_def rkg_register_def same_alone_def\<close>)
next
  case (unregister b s same)
  show ?case
    by (rule kp_inv_step [OF unregister.IH]) (use unregister.IH in \<open>simp_all add: kp_inv_def rkg_unregister_def same_alone_def\<close>)
next
  case (ioctl b s cmd from_ok to_ok e out s')
  then have "s' = s \<or> s' = s\<lparr>power_on_key_state := POKS_NONE\<rparr>"
    by (auto simp: reciva_keypad_ioctl_def Let_def res_map_Ret_iff split: key_request.splits if_splits option.splits)
  then have "armed b s' = armed b s" "same_alone s s'" by (auto simp: armed_def same_alone_def)
  then show ?case
    using kp_inv_step [OF ioctl.IH] ioctl.IH by (simp add: kp_inv_def)
qed

text \<open>C5.
  Whatever happens to the keypad driver, it can be woken up again: while the pins are its own it is
  either idle with the interrupts of the rows enabled, or it is busy with a key, these interrupts are
  disabled exactly once and its timer runs; while the display module has the pins, the interrupts are
  disabled exactly once and the timer is stopped.
\<close>

theorem keypad_stays_armed:
  assumes "kp_reach K access s"
  shows "if access then disabled 1 s \<and> \<not> kp_timer s
         else if kp_state s = IDLE then disabled 0 s \<and> \<not> kp_timer s
         else disabled 1 s \<and> kp_timer s"
  using kp_reach_inv [OF assms] unfolding kp_inv_def armed_def by blast

lemma int_handler_starts:
  assumes "kp_state s = IDLE"
  shows "\<exists>t. reciva_gpio_int_handler K pins n s = Ret t \<and> kp_state t = IDENTIFY_BUTTON"
proof -
  have g: "\<exists>t. gp_state_machine K pins u = Ret t \<and> kp_state t = IDENTIFY_BUTTON" if "kp_state u = IDLE" for u
    using that by (simp add: gp_state_machine_def Let_def set_columns_def)
  show ?thesis
    using assms g by (cases "power_on_key_state s = POKS_ALLOWED_TO_FIND") (simp_all add: reciva_gpio_int_handler_def Let_def)
qed

text \<open>A keypad of four rows and three columns with nothing pressed, up to its first interrupt.\<close>

definition demo_params :: kp_params where
  "demo_params = \<lparr>keypad_config = KEY_CONFIG_4x3, pins_shared = True\<rparr>"

definition demo_keypad :: "keypad res" where
  "demo_keypad =
     res_bind (reciva_keypad_init demo_params (\<lambda>_ _. -1) (keypad0 (\<lambda>_. 0)))
       (reciva_gpio_int_handler demo_params (\<lambda>_ _. 0) 9)"

lemma demo_reach:
  "\<exists>s. demo_keypad = Ret s \<and> kp_state s = IDENTIFY_BUTTON \<and> kp_reach demo_params False s"
proof -
  let ?i = "reciva_keypad_init demo_params (\<lambda>_ _. -1) (keypad0 (\<lambda>_. 0))"
  obtain s where s: "?i = Ret s" "kp_state s = IDLE" "kp_depth s 17 = 0" "num_rows s = 4"
    by (auto simp: reciva_keypad_init_def Let_def demo_params_def check_for_keypress_def read_input_def keypad0_def
        setup_gpio_direction_def setup_gpio_output_def setup_gpio_input_def set_columns_def rows_of_def)
  then obtain t where t: "reciva_gpio_int_handler demo_params (\<lambda>_ _. 0) 9 s = Ret t" "kp_state t = IDENTIFY_BUTTON"
    using int_handler_starts by blast
  have "kp_reach demo_params False s"
    using kp_reach.load [OF s(1)] by (simp add: demo_params_def)
  from kp_reach.irq [OF this, of 17 "\<lambda>_ _. 0" t] have "kp_reach demo_params False t"
    using s t by (simp add: matrix_irqs_def)
  then show ?thesis using s t by (auto simp: demo_keypad_def)
qed

theorem keypad_stays_armed_witness:
  "\<exists>s. demo_keypad = Ret s \<and> disabled 1 s \<and> kp_timer s"
  using demo_reach keypad_stays_armed [of demo_params False] by fastforce

section \<open>Presses and releases\<close>

text \<open>The key that is held after a sequence of reports, if each press is released before the next.\<close>

fun held_after :: "int option \<Rightarrow> (int \<times> int) list \<Rightarrow> int option option" where
  "held_after h [] = Some h"
| "held_after h ((k, v) # es) =
     (if v = 1 then (if h = None then held_after (Some k) es else None)
      else if h = None \<or> h = Some k then held_after None es else None)"

lemma held_after_append:
  "held_after h (es @ fs) = Option.bind (held_after h es) (\<lambda>h. held_after h fs)"
  by (induction h es rule: held_after.induct) auto

fun held_ok :: "kp_state \<Rightarrow> int \<Rightarrow> int option \<Rightarrow> bool" where
  "held_ok IDLE k h = (h = None)"
| "held_ok IDENTIFY_BUTTON k h = (h = None)"
| "held_ok RELEASE_PENDING k h = (h = Some k)"
| "held_ok RELEASE_DETECTED k h = (h = None \<or> h = Some k)"

definition kp_paired :: "keypad \<Rightarrow> bool" where
  "kp_paired s \<longleftrightarrow> (\<exists>h. held_after None (kp_events s) = Some h \<and> held_ok (kp_state s) (kp_key s) h)"

lemma paired_like: "like s t \<Longrightarrow> kp_paired t = kp_paired s"
  by (simp add: kp_paired_def like_def)

lemma paired_update [simp]:
  "kp_paired (s\<lparr>kp_timer := x1\<rparr>) = kp_paired s" "kp_paired (s\<lparr>kp_gpio := x8\<rparr>) = kp_paired s"
  "kp_paired (s\<lparr>power_on_key_state := x5\<rparr>) = kp_paired s" "kp_paired (s\<lparr>interrupt_ran := x7\<rparr>) = kp_paired s"
  "kp_paired (restart_timer s) = kp_paired s" "kp_paired (enable_interrupts s) = kp_paired s" "kp_paired (disable_interrupts s) = kp_paired s"
  by (simp_all add: kp_paired_def restart_timer_def)

lemma gp_state_machine_paired:
  assumes "gp_state_machine K pins s = Ret t" "kp_paired s"
  shows "kp_paired t"
proof (cases "kp_state s")
  case IDLE
  from paired_like [OF gp_idle [OF assms(1) this]] show ?thesis
    using IDLE assms(2) by (simp add: kp_paired_def restart_timer_def)
next
  case IDENTIFY_BUTTON
  from gp_identify [OF assms(1) this] show ?thesis
    using IDENTIFY_BUTTON assms(2) paired_like [of _ t]
    by (fastforce simp: kp_paired_def restart_timer_def input_report_key_def held_after_append)
next
  case RELEASE_PENDING
  from gp_pending [OF assms(1) this] show ?thesis
    using RELEASE_PENDING assms(2) paired_like [of _ t]
    by (fastforce simp: kp_paired_def restart_timer_def)
next
  case RELEASE_DETECTED
  from paired_like [OF gp_released [OF assms(1) this]] show ?thesis
    using RELEASE_DETECTED assms(2) by (auto simp: kp_paired_def input_report_key_def held_after_append)
qed

lemma int_handler_paired:
  assumes "reciva_gpio_int_handler K pins n s = Ret t" "kp_paired s"
  shows "kp_paired t"
  using assms by (auto simp: reciva_gpio_int_handler_def Let_def split: if_splits intro: gp_state_machine_paired)

lemma check_for_keypress_paired:
  assumes "check_for_keypress K pins s = Ret t" "kp_paired s"
  shows "kp_paired t"
  using assms(1)
proof (cases rule: check_for_keypress_cases)
  case (1 u)
  then show ?thesis using assms(2) paired_like by blast
next
  case (2 u)
  then show ?thesis using assms(2) paired_like [of s u] by simp
next
  case (3 u v n)
  then have "kp_paired (disable_interrupts u)" using assms(2) paired_like [of s u] by simp
  from int_handler_paired [OF 3(3) this] show ?thesis using 3(4) by simp
qed

lemma resume_matrix_paired:
  assumes "resume_matrix K pins now s = Ret t" "kp_paired s"
  shows "kp_paired t"
proof (cases "kp_state s = IDLE")
  case True
  then obtain u where "(case now of None \<Rightarrow> Ret (enable_interrupts (s\<lparr>interrupt_ran := False\<rparr>))
        | Some r \<Rightarrow> reciva_gpio_int_handler K pins r (enable_interrupts (s\<lparr>interrupt_ran := False\<rparr>))) = Ret u"
      "check_for_keypress K pins u = Ret t"
    using assms(1) by (auto simp: resume_matrix_def Let_def res_bind_Ret_iff)
  then show ?thesis
    using check_for_keypress_paired int_handler_paired assms(2) by (fastforce split: option.splits)
qed (use assms in \<open>auto simp: resume_matrix_def\<close>)

lemma restore_columns_like: "like s (restore_columns K s)"
  by (simp add: restore_columns_def like_def setup_gpio_output_def set_columns_def Let_def)

lemma kp_reach_paired:
  "kp_reach K b s \<Longrightarrow> keypad_config K \<noteq> KEY_CONFIG_3x3_PLUS_1 \<Longrightarrow> kp_paired s"
proof (induction rule: kp_reach.induct)
  case (load pins r s)
  define p where "p = setup_gpio_direction K (set_columns K 0 ((keypad0 r)\<lparr>kp_state := IDLE\<rparr>))"
  have p: "like (keypad0 r) p"
    by (simp add: p_def like_def setup_gpio_direction_def setup_gpio_output_def setup_gpio_input_def set_columns_def
        Let_def keypad0_def)
  then have "kp_paired (p\<lparr>num_cols := nc, num_rows := nr, kp_regs := rg, power_on_key_state := q, interrupt_ran := False,
      clear_pending_mask := m, kp_requested := rq\<rparr>)" for nc nr rg q m rq
    by (simp add: kp_paired_def like_def keypad0_def)
  then show ?case
    using load by (auto simp: reciva_keypad_init_def Let_def p_def [symmetric] res_map_Ret_iff
        dest!: check_for_keypress_paired)
next
  case (irq s i pins s')
  then show ?case using int_handler_paired by blast
next
  case (tick b s pins s')
  then show ?case using gp_state_machine_paired by fastforce
next
  case (standalone_tick b s pins s')
  then show ?case using kp_reach_inv [of K b s] by (simp add: kp_inv_def)
next
  case (request s)
  then show ?case by (simp add: rkg_access_request_def)
next
  case (release s pins now s')
  have "kp_paired (restore_columns K s)"
    using release paired_like [OF restore_columns_like] by blast
  moreover have "s' = s \<or> resume_matrix K pins now (restore_columns K s) = Ret s'"
    using release.hyps(2) release.prems
    by (cases "pins_shared K") (simp_all add: rkg_access_release_def resume_standalone_def res_bind_Ret_iff)
  ultimately show ?case
    using release.IH [OF release.prems] resume_matrix_paired by blast
next
  case (ioctl b s cmd from_ok to_ok e out s')
  then have "s' = s \<or> s' = s\<lparr>power_on_key_state := POKS_NONE\<rparr>"
    by (auto simp: reciva_keypad_ioctl_def Let_def res_map_Ret_iff split: key_request.splits if_splits option.splits)
  then show ?case using ioctl by auto
qed (auto simp: rkg_register_def rkg_unregister_def kp_paired_def)

text \<open>C28.
  On every keypad but the one with a key that stands alone, each key that the driver reports as pressed
  it reports as released before it reports another one, and when it is idle no key is held.
\<close>

theorem keypad_presses_paired:
  assumes "kp_reach K access s" "keypad_config K \<noteq> KEY_CONFIG_3x3_PLUS_1"
  shows "\<exists>h. held_after None (kp_events s) = Some h \<and> (kp_state s = IDLE \<longrightarrow> h = None)"
  using kp_reach_paired [OF assms] by (auto simp: kp_paired_def)

theorem keypad_presses_paired_witness:
  "\<exists>s h. demo_keypad = Ret s \<and> held_after None (kp_events s) = Some h"
  using demo_reach keypad_presses_paired [of demo_params False] by (fastforce simp: demo_params_def)

end
