(* ===== verification/Keypad_Matrix.thy ===== *)
theory Keypad_Matrix
  imports Keypad_Machine Keys "HOL-Library.Sublist"
begin

text \<open>
  From a finger to the library: the matrix of keys as it is wired, that the driver finds the key that is
  pressed and debounces it, and what the key library of the radio makes of its reports.
\<close>

section \<open>The wiring\<close>

text \<open>The control and the data bits of the pin of a column.\<close>

definition column_con :: "kp_params \<Rightarrow> nat \<Rightarrow> nat \<times> nat" where
  "column_con K c =
     (if pins_shared K then (GPCCON, 24 + 2 * c)
      else if c < 3 then (GPDCON, 16 + 2 * c)
      else if keypad_config K = KEY_CONFIG_4x4_1 then (GPBCON, 18) else (GPGCON, 10))"

definition column_dat :: "kp_params \<Rightarrow> nat \<Rightarrow> nat \<times> nat" where
  "column_dat K c =
     (if pins_shared K then (GPCDAT, 12 + c)
      else if c < 3 then (GPDDAT, 8 + c)
      else if keypad_config K = KEY_CONFIG_4x4_1 then (GPBDAT, 9) else (GPGDAT, 5))"

definition dat_low :: "kp_params \<Rightarrow> io_regs \<Rightarrow> bool" where
  "dat_low K r \<longleftrightarrow>
     (\<forall>c \<in> {0, 1, 2, 3}. int c < cols_of (keypad_config K) \<longrightarrow> (let (a, n) = column_dat K c in \<not> bit (r a) n))"

text \<open>A column is driven low when its pin is an output and its data bit is 0.\<close>

definition driven :: "kp_params \<Rightarrow> io_regs \<Rightarrow> nat \<Rightarrow> bool" where
  "driven K r c \<longleftrightarrow>
     (let (a, n) = column_con K c in bit (r a) n \<and> \<not> bit (r a) (n + 1)) \<and>
     (let (a, n) = column_dat K c in \<not> bit (r a) n)"

text \<open>A row is low when one of its pressed keys is in a column that is driven; the pullups keep the others high.\<close>

definition row_level :: "kp_params \<Rightarrow> (nat \<times> nat) list \<Rightarrow> io_regs \<Rightarrow> nat \<Rightarrow> bool" where
  "row_level K P r row \<longleftrightarrow> \<not> list_ex (\<lambda>(rw, c). rw = row \<and> driven K r c) P"

definition matrix :: "kp_params \<Rightarrow> (nat \<times> nat) list \<Rightarrow> rows" where
  "matrix K P _ r =
     foldr (\<lambda>row v. if row_level K P r row then v OR push_bit row 1 else v) [8, 9, 10, 11] 0"

lemma bit_matrix: "row \<in> {8, 9, 10, 11} \<Longrightarrow> bit (matrix K P n r) row = row_level K P r row"
  by (auto simp: matrix_def bit_simps)

text \<open>The parameters with which the pins of the columns are the ones that are switched.\<close>

definition proper :: "kp_params \<Rightarrow> bool" where
  "proper K \<longleftrightarrow> keypad_config K \<noteq> KEY_CONFIG_DUMMY \<and> (keypad_config K = KEY_CONFIG_4x4_2 \<longrightarrow> pins_shared K)"

lemma set_columns_dat_low [simp]: "dat_low K (kp_regs (set_columns K m s)) = dat_low K (kp_regs s)"
  by (auto simp: dat_low_def column_dat_def set_columns_def Let_def port_defs)

lemma and_exp_0: "(m :: int) AND 1 = 0 \<longleftrightarrow> \<not> bit m 0" "m AND 2 = 0 \<longleftrightarrow> \<not> bit m 1"
  "m AND 4 = 0 \<longleftrightarrow> \<not> bit m 2" "m AND 8 = 0 \<longleftrightarrow> \<not> bit m 3"
  using and_exp_eq_0_iff_not_bit [of m 0] and_exp_eq_0_iff_not_bit [of m 1]
    and_exp_eq_0_iff_not_bit [of m 2] and_exp_eq_0_iff_not_bit [of m 3] by simp_all

lemma bit_column_bits:
  "bit (column_bits m 24) 24 = (\<not> bit m 0)" "\<not> bit (column_bits m 24) 25"
  "bit (column_bits m 24) 26 = (\<not> bit m 1)" "\<not> bit (column_bits m 24) 27"
  "bit (column_bits m 24) 28 = (\<not> bit m 2)" "\<not> bit (column_bits m 24) 29"
  "\<not> bit (column_bits m 24) 30" "\<not> bit (column_bits m 24) 31"
  "bit (column_bits m 16) 16 = (\<not> bit m 0)" "\<not> bit (column_bits m 16) 17"
  "bit (column_bits m 16) 18 = (\<not> bit m 1)" "\<not> bit (column_bits m 16) 19"
  "bit (column_bits m 16) 20 = (\<not> bit m 2)" "\<not> bit (column_bits m 16) 21"
  by (simp_all add: column_bits_def and_exp_0 bit_simps)

lemma bit_three: "bit (push_bit a (3 :: 32 word)) n \<longleftrightarrow> n < 32 \<and> (n = a \<or> n = Suc a)"
proof -
  have "(3 :: 32 word) = mask 2" by (simp add: mask_eq_exp_minus_1)
  then show ?thesis
    by (simp only: bit_push_bit_iff bit_mask_iff) (auto simp: possible_bit_def)
qed

lemma set_columns_driven:
  assumes "proper K" "dat_low K (kp_regs s)" "int c < cols_of (keypad_config K)"
  shows "driven K (kp_regs (set_columns K m s)) c \<longleftrightarrow> \<not> bit m c"
proof -
  have c: "c = 0 \<or> c = 1 \<or> c = 2 \<or> c = 3 \<and> (keypad_config K = KEY_CONFIG_4x4_1 \<or> keypad_config K = KEY_CONFIG_4x4_2)"
    using assms(3) by (cases "keypad_config K") (auto simp: cols_of_def)
  then have "let (a, n) = column_con K c in
      (bit (kp_regs (set_columns K m s) a) n \<and> \<not> bit (kp_regs (set_columns K m s) a) (n + 1)) = (\<not> bit m c)"
    using assms(1)
    by (elim disjE) (auto simp: proper_def column_con_def set_columns_def Let_def
      bit_reg_write bit_column_bits bit_three and_exp_0 port_defs bit_simps split: if_splits)
  moreover have "dat_low K (kp_regs (set_columns K m s))" "c \<in> {0, 1, 2, 3}"
    using assms(2) c by auto
  ultimately show ?thesis
    using assms(3) by (auto simp: driven_def dat_low_def split: prod.splits)
qed

section \<open>Finding the key\<close>

lemma set_columns_fields [simp]:
  "kp_gpio (set_columns K m s) = kp_gpio s" "kp_column (set_columns K m s) = kp_column s"
  "kp_driver (set_columns K m s) = kp_driver s" "num_cols (set_columns K m s) = num_cols s"
  "kp_events (set_columns K m s) = kp_events s" "kp_key (set_columns K m s) = kp_key s"
  "kp_state (set_columns K m s) = kp_state s" "num_rows (set_columns K m s) = num_rows s"
  by (simp_all add: set_columns_def Let_def)

lemma next_column_down:
  "kp_column s \<ge> 1 \<Longrightarrow> next_column K s =
     set_columns K (NOT (push_bit (nat (kp_column s - 1)) 1)) ((set_columns K 0x0f s)\<lparr>kp_column := kp_column s - 1\<rparr>)"
  by (simp add: next_column_def Let_def)

lemma row_low_constant:
  assumes "\<And>k. pins k = p"
  shows "\<exists>m. row_low n pins s = (n = 0 \<or> \<not> bit (p (kp_regs s)) (nat (kp_gpio s)), s\<lparr>kp_reads := m\<rparr>)"
proof (induction n arbitrary: s)
  case 0
  show ?case by (intro exI [of _ "kp_reads s"]) simp
next
  case (Suc n)
  show ?case
  proof (cases "bit (p (kp_regs s)) (nat (kp_gpio s))")
    case True
    then show ?thesis using assms by (auto simp: read_input_def and_exp_eq_0_iff_not_bit)
  next
    case False
    from Suc [of "s\<lparr>kp_reads := Suc (kp_reads s)\<rparr>"] False show ?thesis
      using assms by (auto simp: read_input_def and_exp_eq_0_iff_not_bit)
  qed
qed

text \<open>With one key pressed, the scan goes down from the first column until it drives the column of the key.\<close>

lemma scan_finds:
  assumes "proper K" "dat_low K (kp_regs s)" "kp_gpio s = int row" "row \<in> {8, 9, 10, 11}"
    "kp_column s = int (c + j)" "int (c + j) < cols_of (keypad_config K)"
    "\<And>k. int k < cols_of (keypad_config K) \<Longrightarrow> driven K (kp_regs s) k = (k = c + j)" "j < n"
  shows "\<exists>r m l. dat_low K r \<and> scan_columns K (matrix K [(row, c)]) n s =
     res_map (Pair True) (key_found K (s\<lparr>kp_regs := r, kp_reads := m, kp_column := int c, column_levels := l\<rparr>))"
  using assms(2-)
proof (induction j arbitrary: s n)
  case 0
  obtain n' where n: "n = Suc n'" using 0 by (cases n) auto
  obtain m where m: "row_low 3 (matrix K [(row, c)]) s
      = (\<not> bit (matrix K [(row, c)] 0 (kp_regs s)) (nat (kp_gpio s)), s\<lparr>kp_reads := m\<rparr>)"
    using row_low_constant [of "matrix K [(row, c)]" "matrix K [(row, c)] 0" 3 s] by (auto simp: matrix_def fun_eq_iff)
  have "\<not> bit (matrix K [(row, c)] 0 (kp_regs s)) (nat (kp_gpio s))"
    using 0 by (simp add: bit_matrix row_level_def)
  then have scan: "scan_columns K (matrix K [(row, c)]) n s = res_map (Pair True) (key_found K (s\<lparr>kp_reads := m\<rparr>))"
    using m n by simp
  have eq: "s\<lparr>kp_reads := m\<rparr> = s\<lparr>kp_regs := kp_regs s, kp_reads := m, kp_column := int c, column_levels := column_levels s\<rparr>"
    using 0 by simp
  show ?case
    using scan [unfolded eq] 0(1) by blast
next
  case (Suc j)
  obtain n' where n: "n = Suc n'" "j < n'" using Suc.prems by (cases n) auto
  obtain m where m: "row_low 3 (matrix K [(row, c)]) s
      = (\<not> bit (matrix K [(row, c)] 0 (kp_regs s)) (nat (kp_gpio s)), s\<lparr>kp_reads := m\<rparr>)"
    using row_low_constant [of "matrix K [(row, c)]" "matrix K [(row, c)] 0" 3 s] by (auto simp: matrix_def fun_eq_iff)
  have h: "bit (matrix K [(row, c)] 0 (kp_regs s)) (nat (kp_gpio s))"
    using Suc.prems by (simp add: bit_matrix row_level_def)
  let ?u = "(set_columns K 0x0f (s\<lparr>kp_reads := m\<rparr>))\<lparr>kp_column := int (c + j)\<rparr>"
  let ?t = "set_columns K (NOT (push_bit (c + j) 1)) ?u"
  have t: "next_column K (s\<lparr>kp_reads := m\<rparr>) = ?t"
    using Suc.prems by (simp add: next_column_down nat_add_distrib [symmetric] flip: of_nat_add)
  have "driven K (kp_regs ?t) k = (k = c + j)" if "int k < cols_of (keypad_config K)" for k
    using set_columns_driven [OF assms(1), of ?u k] that Suc.prems by (auto simp: bit_simps)
  then have "\<And>k. int k < cols_of (keypad_config K) \<Longrightarrow> driven K (kp_regs ?t) k = (k = c + j)" by blast
  moreover have "dat_low K (kp_regs ?t)" "kp_gpio ?t = int row" "kp_column ?t = int (c + j)"
    using Suc.prems by simp_all
  ultimately obtain r m' l where r: "dat_low K r" "scan_columns K (matrix K [(row, c)]) n' ?t =
      res_map (Pair True) (key_found K (?t\<lparr>kp_regs := r, kp_reads := m', kp_column := int c, column_levels := l\<rparr>))"
    using Suc.IH [of ?t n'] Suc.prems(3,5) n by auto
  have "?t\<lparr>kp_regs := r, kp_reads := m', kp_column := int c, column_levels := l\<rparr>
      = s\<lparr>kp_regs := r, kp_reads := m', kp_column := int c, column_levels := l\<rparr>"
    by (simp add: set_columns_def Let_def)
  then have "scan_columns K (matrix K [(row, c)]) n s =
      res_map (Pair True) (key_found K (s\<lparr>kp_regs := r, kp_reads := m', kp_column := int c, column_levels := l\<rparr>))"
    using h t m n r(2) by simp
  with r(1) show ?case by blast
qed

section \<open>A key goes down and up\<close>

text \<open>The driver waits for a key, and these are the ticks of its timer.\<close>

definition ready :: "kp_params \<Rightarrow> (int \<Rightarrow> int \<Rightarrow> int res) \<Rightarrow> keypad \<Rightarrow> bool" where
  "ready K f s \<longleftrightarrow> kp_state s = IDLE \<and> \<not> kp_timer s \<and> disabled 0 s \<and>
     num_cols s = cols_of (keypad_config K) \<and> dat_low K (kp_regs s) \<and>
     Option.bind (kp_driver s) kd_decode_key_press = Some f"

fun kp_ticks :: "kp_params \<Rightarrow> rows list \<Rightarrow> keypad \<Rightarrow> keypad res" where
  "kp_ticks K [] s = Ret s"
| "kp_ticks K (pins # ps) s =
     (if kp_timer s then res_bind (gp_state_machine K pins (s\<lparr>kp_timer := False\<rparr>)) (kp_ticks K ps)
      else kp_ticks K ps s)"

text \<open>The interrupt of a row, and the tick at which its key is found.\<close>

definition key_press :: "kp_params \<Rightarrow> nat \<Rightarrow> nat \<Rightarrow> keypad \<Rightarrow> keypad res" where
  "key_press K row c s =
     res_bind (reciva_gpio_int_handler K (matrix K [(row, c)]) (int row) s) (kp_ticks K [matrix K [(row, c)]])"

text \<open>The row at a tick, while the contact bounces.\<close>

definition row_pin :: "nat \<Rightarrow> bool \<Rightarrow> rows" where
  "row_pin row high _ r = (if high then push_bit row 1 else 0)"

text \<open>The driver has reported a key; the row was high at the last \<open>n\<close> ticks.\<close>

definition holding :: "kp_state \<Rightarrow> kp_params \<Rightarrow> (int \<Rightarrow> int \<Rightarrow> int res) \<Rightarrow> nat \<Rightarrow> int \<Rightarrow> (int \<times> int) list \<Rightarrow> nat \<Rightarrow> keypad \<Rightarrow> bool" where
  "holding st K f row k es n s \<longleftrightarrow> kp_state s = st \<and> kp_timer s \<and> disabled 1 s \<and>
     num_cols s = cols_of (keypad_config K) \<and> dat_low K (kp_regs s) \<and>
     Option.bind (kp_driver s) kd_decode_key_press = Some f \<and>
     kp_gpio s = int row \<and> kp_key s = k \<and> kp_events s = es \<and> release_detect_count s = int n"

lemma interrupts_keep_scan [simp]:
  "kp_gpio (disable_interrupts s) = kp_gpio s" "num_cols (disable_interrupts s) = num_cols s"
  "kp_regs (disable_interrupts s) = kp_regs s" "kp_driver (disable_interrupts s) = kp_driver s"
  "num_cols (enable_interrupts s) = num_cols s"
  "kp_regs (enable_interrupts s) = kp_regs s" "kp_driver (enable_interrupts s) = kp_driver s"
  by (simp_all add: enable_interrupts_def disable_interrupts_def enable_irq_def disable_irq_def Let_def)

lemma disabled_set_columns [simp]: "disabled d (set_columns K m s) = disabled d s"
  by (simp add: disabled_def matrix_irqs_def set_columns_def Let_def)

lemma cols_of_bounds: "1 \<le> cols_of c" "cols_of c \<le> 4"
  by (cases c; simp add: cols_of_def)+

text \<open>The state in which the scan starts.\<close>

lemma int_handler_scans:
  assumes "proper K" "ready K f s"
  shows "\<exists>t. reciva_gpio_int_handler K pins (int row) s = Ret t \<and> kp_state t = IDENTIFY_BUTTON \<and> kp_timer t \<and>
    disabled 1 t \<and> num_cols t = cols_of (keypad_config K) \<and> dat_low K (kp_regs t) \<and>
    Option.bind (kp_driver t) kd_decode_key_press = Some f \<and> kp_gpio t = int row \<and> kp_events t = kp_events s \<and>
    kp_column t = cols_of (keypad_config K) - 1 \<and>
    (\<forall>k. int k < cols_of (keypad_config K) \<longrightarrow> driven K (kp_regs t) k = (int k = cols_of (keypad_config K) - 1))"
proof -
  define q where "q = (if power_on_key_state s = POKS_ALLOWED_TO_FIND then POKS_GOT_INTERRUPT else power_on_key_state s)"
  define u where "u = (restart_timer (disable_interrupts (s\<lparr>interrupt_ran := True, power_on_key_state := q, kp_gpio := int row\<rparr>)))
      \<lparr>kp_column := cols_of (keypad_config K) - 1, kp_state := IDENTIFY_BUTTON\<rparr>"
  define n where "n = nat (cols_of (keypad_config K) - 1)"
  have n: "cols_of (keypad_config K) - 1 = int n" using cols_of_bounds(1) [of "keypad_config K"] by (simp add: n_def)
  let ?t = "set_columns K (NOT (push_bit n 1)) u"
  have r: "kp_state s = IDLE" "disabled 0 s" "num_cols s = cols_of (keypad_config K)" "dat_low K (kp_regs s)"
      "Option.bind (kp_driver s) kd_decode_key_press = Some f"
    using assms(2) by (simp_all add: ready_def)
  have h: "reciva_gpio_int_handler K pins (int row) s = Ret ?t"
    using r(1,3) by (cases "power_on_key_state s = POKS_ALLOWED_TO_FIND")
      (simp_all add: reciva_gpio_int_handler_def gp_state_machine_def Let_def u_def q_def n_def restart_timer_def)
  have u: "kp_state u = IDENTIFY_BUTTON" "kp_timer u" "disabled (Suc 0) u" "num_cols u = cols_of (keypad_config K)"
      "dat_low K (kp_regs u)" "Option.bind (kp_driver u) kd_decode_key_press = Some f" "kp_gpio u = int row"
      "kp_events u = kp_events s" "kp_column u = cols_of (keypad_config K) - 1"
    using r by (simp_all add: u_def restart_timer_def)
  have "driven K (kp_regs ?t) k = (int k = cols_of (keypad_config K) - 1)" if "int k < cols_of (keypad_config K)" for k
    using set_columns_driven [OF assms(1) u(5) that] n by (auto simp: bit_simps)
  moreover have "kp_timer ?t" using u(2) by (simp add: set_columns_def Let_def)
  ultimately show ?thesis
    using h u by auto
qed

text \<open>The scan ends with the key, which the driver then holds.\<close>

lemma key_found_holds:
  assumes "Option.bind (kp_driver s) kd_decode_key_press = Some f" "f (kp_gpio s - 8) (kp_column s) = Ret k"
  shows "\<exists>t. key_found K s = Ret t \<and> like (input_report_key k 1 (s\<lparr>kp_key := k\<rparr>)) t \<and>
    num_cols t = num_cols s \<and> kp_driver t = kp_driver s \<and> kp_gpio t = kp_gpio s \<and> dat_low K (kp_regs t) = dat_low K (kp_regs s)"
proof -
  have "decode_key_press (kp_gpio s) (kp_column s) s = Ret k"
    using assms by (auto simp: decode_key_press_def bind_eq_Some_conv)
  then obtain t where t: "key_found K s = Ret t" and
    "t = (let v = input_report_key k 1 (s\<lparr>kp_key := k\<rparr>);
           v = (if power_on_key_state v = POKS_GOT_INTERRUPT
                then v\<lparr>power_on_row := kp_gpio v, power_on_col := kp_column v, power_on_key_state := POKS_FOUND\<rparr>
                else v)
       in set_columns K 0 v)"
    by (simp add: key_found_def)
  moreover have "like (input_report_key k 1 (s\<lparr>kp_key := k\<rparr>)) t"
    using key_found_found [OF t like_refl] calculation(2) by (auto simp: Let_def like_def set_columns_def)
  ultimately show ?thesis
    by (cases "power_on_key_state s = POKS_GOT_INTERRUPT") (auto simp: Let_def input_report_key_def)
qed

lemma key_press_holds:
  assumes "proper K" "ready K f s" "row \<in> {8, 9, 10, 11}" "int c < cols_of (keypad_config K)"
    "f (int row - 8) (int c) = Ret k"
  shows "\<exists>t. key_press K row c s = Ret t \<and> holding RELEASE_PENDING K f row k (kp_events s @ [(k, 1)]) 0 t"
proof -
  let ?P = "matrix K [(row, c)]"
  obtain u where u: "reciva_gpio_int_handler K ?P (int row) s = Ret u" "kp_state u = IDENTIFY_BUTTON" "kp_timer u"
    "disabled 1 u" "num_cols u = cols_of (keypad_config K)" "dat_low K (kp_regs u)"
    "Option.bind (kp_driver u) kd_decode_key_press = Some f" "kp_gpio u = int row" "kp_events u = kp_events s"
    "kp_column u = cols_of (keypad_config K) - 1"
    "\<forall>j. int j < cols_of (keypad_config K) \<longrightarrow> driven K (kp_regs u) j = (int j = cols_of (keypad_config K) - 1)"
    using int_handler_scans [OF assms(1,2)] by blast
  let ?u = "u\<lparr>kp_timer := False\<rparr>"
  define j where "j = nat (cols_of (keypad_config K) - 1) - c"
  have j: "cols_of (keypad_config K) = int (c + j) + 1" "j < 4"
    using assms(4) cols_of_bounds [of "keypad_config K"] by (auto simp: j_def)
  obtain r m l where r: "dat_low K r" "scan_columns K ?P 4 ?u =
      res_map (Pair True) (key_found K (?u\<lparr>kp_regs := r, kp_reads := m, kp_column := int c, column_levels := l\<rparr>))"
    using scan_finds [OF assms(1) _ _ assms(3), of ?u c j 4] u j by fastforce
  let ?v = "?u\<lparr>kp_regs := r, kp_reads := m, kp_column := int c, column_levels := l\<rparr>"
  obtain t where t: "key_found K ?v = Ret t" "like (input_report_key k 1 (?v\<lparr>kp_key := k\<rparr>)) t"
    "num_cols t = num_cols ?v" "kp_driver t = kp_driver ?v" "kp_gpio t = kp_gpio ?v" "dat_low K (kp_regs t)"
    using key_found_holds [of ?v f k K] u(7,8) assms(5) r(1) by auto
  let ?t = "(restart_timer t)\<lparr>release_detect_count := 0, kp_state := RELEASE_PENDING\<rparr>"
  have "key_press K row c s = Ret ?t"
    using u(1-3) r(2) t(1) by (simp add: key_press_def gp_state_machine_def)
  moreover have "disabled 1 (input_report_key k 1 (?v\<lparr>kp_key := k\<rparr>))"
    using u(4) by (simp add: disabled_def matrix_irqs_def input_report_key_def)
  then have "disabled 1 ?t" using like_disabled [OF t(2)] by simp
  moreover have "kp_key t = k" "kp_events t = kp_events s @ [(k, 1)]"
    using t(2) u(9) by (simp_all add: like_def input_report_key_def)
  ultimately show ?thesis
    using t u by (auto simp: holding_def restart_timer_def)
qed

text \<open>One tick while the key is held.\<close>

lemma hold_tick:
  assumes "holding RELEASE_PENDING K f row k es n s" "row < 32"
  shows "\<exists>t. kp_ticks K (row_pin row high # ps) s = kp_ticks K ps t \<and>
    holding (if high \<and> n \<ge> 2 then RELEASE_DETECTED else RELEASE_PENDING) K f row k es (if high then Suc n else 0) t"
proof -
  let ?c = "if high then int n + 1 else 0"
  let ?w = "s\<lparr>kp_timer := False, kp_reads := Suc (kp_reads s), release_detect_count := ?c\<rparr>"
  let ?t = "restart_timer (if ?c > 2 then ?w\<lparr>kp_state := RELEASE_DETECTED\<rparr> else ?w)"
  have h: "kp_state s = RELEASE_PENDING" "kp_timer s" "disabled (Suc 0) s" "num_cols s = cols_of (keypad_config K)"
    "dat_low K (kp_regs s)" "Option.bind (kp_driver s) kd_decode_key_press = Some f"
    "kp_gpio s = int row" "kp_key s = k" "kp_events s = es" "release_detect_count s = int n"
    using assms(1) by (simp_all add: holding_def)
  have "bit (push_bit row 1 :: 32 word) row" using assms(2) by (simp add: bit_simps)
  then have "(row_pin row high i r AND push_bit row 1 \<noteq> 0) = high" for i r
    by (auto simp: row_pin_def and_exp_eq_0_iff_not_bit)
  then have "gp_state_machine K (row_pin row high) (s\<lparr>kp_timer := False\<rparr>) = Ret ?t"
    using h(1,7,10) by (cases high) (simp_all add: gp_state_machine_def read_input_def Let_def)
  then have "kp_ticks K (row_pin row high # ps) s = kp_ticks K ps ?t"
    using h(2) by simp
  moreover have "disabled 1 ?t"
    using h(3) by (simp add: disabled_def matrix_irqs_def restart_timer_def)
  ultimately show ?thesis
    using h by (intro exI [of _ ?t]) (simp add: holding_def restart_timer_def)
qed

text \<open>The tick that reports the release, whatever the row reads.\<close>

lemma release_tick:
  assumes "holding RELEASE_DETECTED K f row k es n s"
  shows "\<exists>t. kp_ticks K (p # ps) s = Ret t \<and> kp_events t = es @ [(k, 0)] \<and> ready K f t"
proof -
  let ?t = "input_report_key k 0 (enable_interrupts (s\<lparr>kp_timer := False, kp_state := IDLE, power_on_key_state := POKS_NONE\<rparr>))"
  have h: "kp_state s = RELEASE_DETECTED" "kp_timer s" "disabled (Suc 0) s" "num_cols s = cols_of (keypad_config K)"
    "dat_low K (kp_regs s)" "Option.bind (kp_driver s) kd_decode_key_press = Some f" "kp_key s = k" "kp_events s = es"
    using assms by (simp_all add: holding_def)
  have idle: "kp_ticks K ps t = Ret t" if "\<not> kp_timer t" for ps t
    using that by (induction ps) simp_all
  have "\<not> kp_timer ?t" by simp
  then have "kp_ticks K (p # ps) s = Ret ?t"
    using h(1,2,7) idle by (simp add: gp_state_machine_def)
  moreover have "disabled 0 ?t" using h(3) by simp
  ultimately show ?thesis
    using h by (auto simp: ready_def input_report_key_def)
qed

text \<open>
  However the contact bounces, the key is held until the row was high three times in a row, and then
  it is released.
\<close>

lemma ticks_hold:
  assumes "holding RELEASE_PENDING K f row k es n s" "row < 32" "n \<le> 2"
    "\<not> sublist [True, True, True] (replicate n True @ hs)"
  shows "\<exists>t m. kp_ticks K (map (row_pin row) hs @ ps) s = kp_ticks K ps t \<and> m \<le> 2 \<and>
    holding RELEASE_PENDING K f row k es m t"
  using assms(1,3,4)
proof (induction hs arbitrary: s n)
  case Nil
  then show ?case by auto
next
  case (Cons h hs)
  have n: "\<not> (h \<and> n \<ge> 2)"
  proof
    assume "h \<and> n \<ge> 2"
    then have "replicate n True @ h # hs = replicate (n - 2) True @ [True, True, True] @ hs"
      using Cons.prems(2) by (auto simp: numeral_2_eq_2 le_Suc_eq)
    then show False using Cons.prems(3) by (metis sublist_appendI)
  qed
  obtain t where t: "kp_ticks K (row_pin row h # map (row_pin row) hs @ ps) s = kp_ticks K (map (row_pin row) hs @ ps) t"
    "holding RELEASE_PENDING K f row k es (if h then Suc n else 0) t"
    using hold_tick [OF Cons.prems(1) assms(2), of h "map (row_pin row) hs @ ps"] n by auto
  have "\<not> sublist [True, True, True] (replicate (if h then Suc n else 0) True @ hs)"
  proof (cases h)
    case True
    then have "replicate n True @ h # hs = replicate (Suc n) True @ hs"
      by (simp add: replicate_append_same [symmetric])
    then show ?thesis using Cons.prems(3) True by metis
  next
    case False
    then show ?thesis using Cons.prems(3) by (auto simp: sublist_append sublist_Cons_right)
  qed
  with Cons.IH [OF t(2)] n t(1) show ?case by fastforce
qed

lemma highs_release:
  assumes "row < 32" "holding RELEASE_PENDING K f row k es n s" "n + d = 2"
  shows "\<exists>t. kp_ticks K (map (row_pin row) (replicate (Suc d) True) @ p # ps) s = Ret t \<and> kp_events t = es @ [(k, 0)] \<and> ready K f t"
  using assms(2,3)
proof (induction d arbitrary: n s)
  case 0
  then show ?case
    using hold_tick [OF 0(1) assms(1), of True "p # ps"] release_tick [of K f row k es "Suc n" _ p ps] by fastforce
next
  case (Suc d)
  obtain t where t: "kp_ticks K (map (row_pin row) (replicate (Suc (Suc d)) True) @ p # ps) s =
      kp_ticks K (map (row_pin row) (replicate (Suc d) True) @ p # ps) t" "holding RELEASE_PENDING K f row k es (Suc n) t"
    using hold_tick [OF Suc.prems(1) assms(1), of True "map (row_pin row) (replicate (Suc d) True) @ p # ps"] Suc.prems(2) by auto
  show ?case using Suc.IH [OF t(2)] Suc.prems(2) t(1) by auto
qed

lemma ticks_release:
  assumes "holding RELEASE_PENDING K f row k es n s" "row < 32" "n \<le> 2"
  shows "\<exists>t. kp_ticks K (map (row_pin row) [True, True, True, h]) s = Ret t \<and> kp_events t = es @ [(k, 0)] \<and> ready K f t"
proof -
  have "\<exists>p ps. map (row_pin row) [True, True, True, h] = map (row_pin row) (replicate (Suc (2 - n)) True) @ p # ps"
    using assms(3) by (auto simp: numeral_2_eq_2 le_Suc_eq)
  then show ?thesis using highs_release [OF assms(2,1), of "2 - n"] assms(3) by fastforce
qed

lemma press_releases:
  assumes "proper K" "ready K f s" "row \<in> {8, 9, 10, 11}" "int c < cols_of (keypad_config K)"
    "f (int row - 8) (int c) = Ret k" "\<not> sublist [True, True, True] hs"
  shows "\<exists>t u. res_bind (key_press K row c s) (kp_ticks K (map (row_pin row) hs)) = Ret t \<and>
    kp_state t = RELEASE_PENDING \<and> kp_events t = kp_events s @ [(k, 1)] \<and>
    kp_ticks K (map (row_pin row) [True, True, True, h]) t = Ret u \<and>
    kp_events u = kp_events s @ [(k, 1), (k, 0)] \<and> ready K f u"
proof -
  have row: "row < 32" using assms(3) by auto
  obtain v where v: "key_press K row c s = Ret v" "holding RELEASE_PENDING K f row k (kp_events s @ [(k, 1)]) 0 v"
    using key_press_holds [OF assms(1-5)] by blast
  obtain t m where t: "kp_ticks K (map (row_pin row) hs) v = Ret t" "m \<le> 2"
      "holding RELEASE_PENDING K f row k (kp_events s @ [(k, 1)]) m t"
    using ticks_hold [OF v(2) row, of hs "[]"] assms(6) by auto
  show ?thesis
    using v(1) t ticks_release [OF t(3) row t(2), of h] by (auto simp: holding_def)
qed

end
