(* ===== verification/Keypad_Boards.thy ===== *)
theory Keypad_Boards
  imports Keypad_Matrix
begin

text \<open>
  The keypads of the models of the radio, \<^verbatim>\<open>reciva_keypad_alto.c\<close> and its siblings: for each board
  which key is at which row and column, which keys there are, and what they do with shift.
\<close>

section \<open>Key codes\<close>

text \<open>The codes of buttons in \<^verbatim>\<open>linux/input.h\<close>.\<close>

definition BTN_0 :: int where "BTN_0 = 0x100"
definition BTN_1 :: int where "BTN_1 = 0x101"
definition BTN_2 :: int where "BTN_2 = 0x102"
definition BTN_3 :: int where "BTN_3 = 0x103"
definition BTN_4 :: int where "BTN_4 = 0x104"
definition BTN_5 :: int where "BTN_5 = 0x105"
definition BTN_6 :: int where "BTN_6 = 0x106"
definition BTN_7 :: int where "BTN_7 = 0x107"
definition BTN_8 :: int where "BTN_8 = 0x108"
definition BTN_9 :: int where "BTN_9 = 0x109"
definition BTN_A :: int where "BTN_A = 0x130"
definition BTN_B :: int where "BTN_B = 0x131"
definition BTN_Z :: int where "BTN_Z = 0x135"

definition RKD_POWER :: int where "RKD_POWER = BTN_0"
definition RKD_PRESET_1 :: int where "RKD_PRESET_1 = BTN_1"
definition RKD_PRESET_2 :: int where "RKD_PRESET_2 = BTN_2"
definition RKD_PRESET_3 :: int where "RKD_PRESET_3 = BTN_3"
definition RKD_PRESET_4 :: int where "RKD_PRESET_4 = BTN_4"
definition RKD_PRESET_5 :: int where "RKD_PRESET_5 = BTN_5"
definition RKD_PRESET_6 :: int where "RKD_PRESET_6 = BTN_6"
definition RKD_SELECT :: int where "RKD_SELECT = BTN_7"
definition RKD_REPLY :: int where "RKD_REPLY = BTN_8"
definition RKD_BACK :: int where "RKD_BACK = BTN_9"
definition RKD_PRESET_7 :: int where "RKD_PRESET_7 = BTN_A"
definition RKD_PRESET_8 :: int where "RKD_PRESET_8 = BTN_B"
definition RKD_SHIFT :: int where "RKD_SHIFT = BTN_Z"
definition RKD_VOL_UP :: int where "RKD_VOL_UP = BTN_Z + 2"
definition RKD_VOL_DOWN :: int where "RKD_VOL_DOWN = BTN_Z + 3"
definition RKD_MUTE :: int where "RKD_MUTE = BTN_Z + 4"
definition RKD_ZOOM :: int where "RKD_ZOOM = BTN_Z + 5"
definition RKD_SKIP_NEXT :: int where "RKD_SKIP_NEXT = BTN_Z + 6"
definition RKD_SKIP_PREVIOUS :: int where "RKD_SKIP_PREVIOUS = BTN_Z + 7"
definition RKD_PLAY_PAUSE :: int where "RKD_PLAY_PAUSE = BTN_Z + 8"
definition RKD_STOP :: int where "RKD_STOP = BTN_Z + 9"
definition RKD_PLAYBACK_MODE :: int where "RKD_PLAYBACK_MODE = BTN_Z + 10"
definition RKD_BROWSE_QUEUE :: int where "RKD_BROWSE_QUEUE = BTN_Z + 11"
definition RKD_ALARM :: int where "RKD_ALARM = BTN_Z + 12"
definition RKD_UP :: int where "RKD_UP = BTN_Z + 16"
definition RKD_DOWN :: int where "RKD_DOWN = BTN_Z + 17"

lemmas rkd_defs = BTN_0_def BTN_1_def BTN_2_def BTN_3_def BTN_4_def BTN_5_def BTN_6_def BTN_7_def BTN_8_def BTN_9_def
  BTN_A_def BTN_B_def BTN_Z_def RKD_UNUSED_def
  RKD_POWER_def RKD_PRESET_1_def RKD_PRESET_2_def RKD_PRESET_3_def RKD_PRESET_4_def RKD_PRESET_5_def
  RKD_PRESET_6_def RKD_SELECT_def RKD_REPLY_def RKD_BACK_def RKD_PRESET_7_def RKD_PRESET_8_def
  RKD_SHIFT_def RKD_VOL_UP_def RKD_VOL_DOWN_def RKD_MUTE_def RKD_ZOOM_def RKD_SKIP_NEXT_def
  RKD_SKIP_PREVIOUS_def RKD_PLAY_PAUSE_def RKD_STOP_def RKD_PLAYBACK_MODE_def RKD_BROWSE_QUEUE_def RKD_ALARM_def
  RKD_UP_def RKD_DOWN_def

section \<open>Decoding\<close>

definition RKD_NUM_ROWS :: nat where "RKD_NUM_ROWS = 4"
definition RKD_NUM_COLS :: nat where "RKD_NUM_COLS = 4"

text \<open>The look-up all boards have: a row or a column out of the array is a fault.\<close>

definition key_decode :: "int list list \<Rightarrow> int \<Rightarrow> int \<Rightarrow> int res" where
  "key_decode t row column =
     (let row = (if row > int RKD_NUM_ROWS then 0 else row);
          column = (if column > int RKD_NUM_COLS then 0 else column)
      in if 0 \<le> row \<and> row < int RKD_NUM_ROWS \<and> 0 \<le> column \<and> column < int RKD_NUM_COLS
         then Ret (t ! nat row ! nat column) else Fault)"

section \<open>The boards\<close>

text \<open>\<^verbatim>\<open>reciva_keypad_alto.c\<close>\<close>

definition alto_aacKeyDecode :: "int list list" where
  "alto_aacKeyDecode =
     [[RKD_BACK, RKD_SELECT, RKD_REPLY, RKD_UNUSED],
      [RKD_PRESET_1, RKD_PRESET_2, RKD_PRESET_3, RKD_UNUSED],
      [RKD_UNUSED, RKD_PRESET_4, RKD_PRESET_5, RKD_UNUSED],
      [RKD_SHIFT, RKD_UNUSED, RKD_POWER, RKD_UNUSED]]"

definition alto_aiKeysPresent :: "int list" where
  "alto_aiKeysPresent =
     [RKD_PRESET_1, RKD_PRESET_2, RKD_PRESET_3, RKD_PRESET_4, RKD_PRESET_5, RKD_POWER,
      RKD_SELECT, RKD_BACK, RKD_REPLY, RKD_SHIFT]
     @ replicate 22 0"

definition alto_aiAlternateKeyFunctions :: "int list" where
  "alto_aiAlternateKeyFunctions =
     [RKD_STOP, RKD_PLAY_PAUSE, RKD_SKIP_PREVIOUS, RKD_SKIP_NEXT, RKD_BROWSE_QUEUE]
     @ replicate 27 RKD_UNUSED"

definition alto_decode_key_press :: "int \<Rightarrow> int \<Rightarrow> int res" where
  "alto_decode_key_press row column = key_decode alto_aacKeyDecode row column"

definition alto_driver :: reciva_keypad_driver_t where
  "alto_driver =
     \<lparr>kd_decode_key_press = Some alto_decode_key_press, kd_keys_present = Some alto_aiKeysPresent,
      kd_alt_key_functions = Some alto_aiAlternateKeyFunctions, kd_ioctl_extension_hook = None\<rparr>"

text \<open>\<^verbatim>\<open>reciva_keypad_allegro.c\<close>\<close>

definition allegro_aacKeyDecode :: "int list list" where
  "allegro_aacKeyDecode =
     [[RKD_BACK, RKD_SELECT, RKD_REPLY, RKD_UNUSED],
      [RKD_PRESET_2, RKD_PRESET_3, RKD_PRESET_4, RKD_VOL_UP],
      [RKD_PRESET_5, RKD_PRESET_6, RKD_ALARM, RKD_UNUSED],
      [RKD_PRESET_1, RKD_SHIFT, RKD_POWER, RKD_VOL_DOWN]]"

definition allegro_aiKeysPresent :: "int list" where
  "allegro_aiKeysPresent =
     [RKD_PRESET_1, RKD_PRESET_2, RKD_PRESET_3, RKD_PRESET_4, RKD_PRESET_5, RKD_PRESET_6,
      RKD_SELECT, RKD_BACK, RKD_REPLY, RKD_POWER, RKD_SHIFT, RKD_ALARM, RKD_VOL_UP,
      RKD_VOL_DOWN]
     @ replicate 18 0"

definition allegro_aiAlternateKeyFunctions :: "int list" where
  "allegro_aiAlternateKeyFunctions =
     [RKD_STOP, RKD_SKIP_PREVIOUS, RKD_PLAY_PAUSE, RKD_SKIP_NEXT, RKD_BROWSE_QUEUE,
      RKD_PLAYBACK_MODE]
     @ replicate 26 RKD_UNUSED"

definition allegro_decode_key_press :: "int \<Rightarrow> int \<Rightarrow> int res" where
  "allegro_decode_key_press row column = key_decode allegro_aacKeyDecode row column"

definition allegro_driver :: reciva_keypad_driver_t where
  "allegro_driver =
     \<lparr>kd_decode_key_press = Some allegro_decode_key_press, kd_keys_present = Some allegro_aiKeysPresent,
      kd_alt_key_functions = Some allegro_aiAlternateKeyFunctions, kd_ioctl_extension_hook = None\<rparr>"

text \<open>\<^verbatim>\<open>reciva_keypad_appa_issueb.c\<close>\<close>

definition appa_issueb_aacKeyDecode :: "int list list" where
  "appa_issueb_aacKeyDecode =
     [[RKD_POWER, RKD_POWER, RKD_POWER, RKD_UNUSED],
      [RKD_REPLY, RKD_PRESET_4, RKD_PRESET_1, RKD_UNUSED],
      [RKD_SELECT, RKD_PRESET_5, RKD_PRESET_2, RKD_UNUSED],
      [RKD_BACK, RKD_PRESET_6, RKD_PRESET_3, RKD_UNUSED]]"

definition appa_issueb_aiKeysPresent :: "int list" where
  "appa_issueb_aiKeysPresent =
     [RKD_PRESET_1, RKD_PRESET_2, RKD_PRESET_3, RKD_PRESET_4, RKD_PRESET_5, RKD_PRESET_6,
      RKD_POWER, RKD_SELECT, RKD_BACK, RKD_REPLY]
     @ replicate 22 0"

definition appa_issueb_aiAlternateKeyFunctions :: "int list" where
  "appa_issueb_aiAlternateKeyFunctions =
     [RKD_SKIP_PREVIOUS, RKD_PLAY_PAUSE, RKD_SKIP_NEXT, RKD_PLAYBACK_MODE, RKD_STOP,
      RKD_BROWSE_QUEUE]
     @ replicate 26 RKD_UNUSED"

definition appa_issueb_decode_key_press :: "int \<Rightarrow> int \<Rightarrow> int res" where
  "appa_issueb_decode_key_press row column = key_decode appa_issueb_aacKeyDecode row column"

definition appa_issueb_driver :: reciva_keypad_driver_t where
  "appa_issueb_driver =
     \<lparr>kd_decode_key_press = Some appa_issueb_decode_key_press, kd_keys_present = Some appa_issueb_aiKeysPresent,
      kd_alt_key_functions = Some appa_issueb_aiAlternateKeyFunctions, kd_ioctl_extension_hook = None\<rparr>"

text \<open>\<^verbatim>\<open>reciva_keypad_config1006.c\<close>\<close>

definition config1006_aacKeyDecode :: "int list list" where
  "config1006_aacKeyDecode =
     [[RKD_BACK, RKD_SELECT, RKD_POWER, RKD_UNUSED],
      [RKD_PRESET_4, RKD_REPLY, RKD_SHIFT, RKD_UNUSED],
      [RKD_PRESET_2, RKD_UNUSED, RKD_UNUSED, RKD_UNUSED],
      [RKD_PRESET_3, RKD_PRESET_5, RKD_PRESET_1, RKD_UNUSED]]"

definition config1006_aiKeysPresent :: "int list" where
  "config1006_aiKeysPresent =
     [RKD_PRESET_1, RKD_PRESET_2, RKD_PRESET_3, RKD_PRESET_4, RKD_PRESET_5, RKD_POWER,
      RKD_SELECT, RKD_BACK, RKD_REPLY, RKD_SHIFT]
     @ replicate 22 0"

definition config1006_aiAlternateKeyFunctions :: "int list" where
  "config1006_aiAlternateKeyFunctions =
     [RKD_STOP, RKD_PLAY_PAUSE, RKD_SKIP_PREVIOUS, RKD_SKIP_NEXT, RKD_BROWSE_QUEUE]
     @ replicate 27 RKD_UNUSED"

definition config1006_decode_key_press :: "int \<Rightarrow> int \<Rightarrow> int res" where
  "config1006_decode_key_press row column = key_decode config1006_aacKeyDecode row column"

definition config1006_driver :: reciva_keypad_driver_t where
  "config1006_driver =
     \<lparr>kd_decode_key_press = Some config1006_decode_key_press, kd_keys_present = Some config1006_aiKeysPresent,
      kd_alt_key_functions = Some config1006_aiAlternateKeyFunctions, kd_ioctl_extension_hook = None\<rparr>"

text \<open>\<^verbatim>\<open>reciva_keypad_config1009.c\<close>\<close>

definition config1009_aacKeyDecode :: "int list list" where
  "config1009_aacKeyDecode =
     [[RKD_BACK, RKD_SELECT, RKD_REPLY, RKD_UNUSED],
      [RKD_PRESET_1, RKD_PRESET_2, RKD_PRESET_3, RKD_UNUSED],
      [RKD_UNUSED, RKD_UNUSED, RKD_UNUSED, RKD_UNUSED],
      [RKD_SHIFT, RKD_UNUSED, RKD_POWER, RKD_UNUSED]]"

definition config1009_aiKeysPresent :: "int list" where
  "config1009_aiKeysPresent =
     [RKD_PRESET_1, RKD_PRESET_2, RKD_PRESET_3, RKD_POWER, RKD_SELECT, RKD_BACK, RKD_REPLY,
      RKD_SHIFT]
     @ replicate 24 0"

definition config1009_aiAlternateKeyFunctions :: "int list" where
  "config1009_aiAlternateKeyFunctions =
     [RKD_SKIP_PREVIOUS, RKD_PLAY_PAUSE, RKD_SKIP_NEXT]
     @ replicate 29 RKD_UNUSED"

definition config1009_decode_key_press :: "int \<Rightarrow> int \<Rightarrow> int res" where
  "config1009_decode_key_press row column = key_decode config1009_aacKeyDecode row column"

definition config1009_driver :: reciva_keypad_driver_t where
  "config1009_driver =
     \<lparr>kd_decode_key_press = Some config1009_decode_key_press, kd_keys_present = Some config1009_aiKeysPresent,
      kd_alt_key_functions = Some config1009_aiAlternateKeyFunctions, kd_ioctl_extension_hook = None\<rparr>"

text \<open>\<^verbatim>\<open>reciva_keypad_config1012.c\<close>\<close>

definition config1012_aacKeyDecode :: "int list list" where
  "config1012_aacKeyDecode =
     [[RKD_BACK, RKD_SELECT, RKD_REPLY, RKD_UNUSED],
      [RKD_PRESET_1, RKD_PRESET_2, RKD_PRESET_3, RKD_UNUSED],
      [RKD_PRESET_4, RKD_PRESET_5, RKD_BROWSE_QUEUE, RKD_UNUSED],
      [RKD_UNUSED, RKD_UNUSED, RKD_POWER, RKD_UNUSED]]"

definition config1012_aiKeysPresent :: "int list" where
  "config1012_aiKeysPresent =
     [RKD_PRESET_1, RKD_PRESET_2, RKD_PRESET_3, RKD_PRESET_4, RKD_PRESET_5, RKD_BROWSE_QUEUE,
      RKD_POWER, RKD_SELECT, RKD_BACK, RKD_REPLY]
     @ replicate 22 0"

definition config1012_aiAlternateKeyFunctions :: "int list" where
  "config1012_aiAlternateKeyFunctions =
     [RKD_SKIP_PREVIOUS, RKD_PLAY_PAUSE, RKD_SKIP_NEXT, RKD_PLAYBACK_MODE, RKD_STOP,
      RKD_BROWSE_QUEUE]
     @ replicate 26 RKD_UNUSED"

definition config1012_decode_key_press :: "int \<Rightarrow> int \<Rightarrow> int res" where
  "config1012_decode_key_press row column = key_decode config1012_aacKeyDecode row column"

definition config1012_driver :: reciva_keypad_driver_t where
  "config1012_driver =
     \<lparr>kd_decode_key_press = Some config1012_decode_key_press, kd_keys_present = Some config1012_aiKeysPresent,
      kd_alt_key_functions = Some config1012_aiAlternateKeyFunctions, kd_ioctl_extension_hook = None\<rparr>"

text \<open>\<^verbatim>\<open>reciva_keypad_config997.c\<close>\<close>

definition config997_aacKeyDecode :: "int list list" where
  "config997_aacKeyDecode =
     [[RKD_BACK, RKD_SELECT, RKD_REPLY, RKD_UNUSED],
      [RKD_DOWN, RKD_BROWSE_QUEUE, RKD_UP, RKD_UNUSED],
      [RKD_VOL_DOWN, RKD_UNUSED, RKD_VOL_UP, RKD_UNUSED],
      [RKD_UNUSED, RKD_UNUSED, RKD_POWER, RKD_UNUSED]]"

definition config997_aiKeysPresent :: "int list" where
  "config997_aiKeysPresent =
     [RKD_BACK, RKD_SELECT, RKD_REPLY, RKD_BROWSE_QUEUE, RKD_VOL_DOWN, RKD_VOL_UP, RKD_POWER,
      RKD_PRESET_1, RKD_PRESET_2, RKD_PRESET_3, RKD_PRESET_4, RKD_PRESET_5]
     @ replicate 20 0"

definition config997_aiAlternateKeyFunctions :: "int list" where
  "config997_aiAlternateKeyFunctions =
     [RKD_UNUSED, RKD_UNUSED, RKD_UNUSED, RKD_UNUSED, RKD_UNUSED, RKD_UNUSED, RKD_UNUSED,
      RKD_PLAYBACK_MODE, RKD_STOP, RKD_SKIP_PREVIOUS, RKD_PLAY_PAUSE, RKD_SKIP_NEXT]
     @ replicate 20 RKD_UNUSED"

definition config997_decode_key_press :: "int \<Rightarrow> int \<Rightarrow> int res" where
  "config997_decode_key_press row column = key_decode config997_aacKeyDecode row column"

definition config997_driver :: reciva_keypad_driver_t where
  "config997_driver =
     \<lparr>kd_decode_key_press = Some config997_decode_key_press, kd_keys_present = Some config997_aiKeysPresent,
      kd_alt_key_functions = Some config997_aiAlternateKeyFunctions, kd_ioctl_extension_hook = None\<rparr>"

text \<open>\<^verbatim>\<open>reciva_keypad_itech_cube.c\<close>\<close>

definition itech_cube_aacKeyDecode :: "int list list" where
  "itech_cube_aacKeyDecode =
     [[RKD_PRESET_4, RKD_BACK, RKD_REPLY, RKD_UNUSED],
      [RKD_PRESET_2, RKD_PRESET_3, RKD_PRESET_5, RKD_UNUSED],
      [RKD_UNUSED, RKD_PRESET_6, RKD_SELECT, RKD_UNUSED],
      [RKD_PRESET_1, RKD_UNUSED, RKD_POWER, RKD_UNUSED]]"

definition itech_cube_aiKeysPresent :: "int list" where
  "itech_cube_aiKeysPresent =
     [RKD_PRESET_1, RKD_PRESET_2, RKD_PRESET_3, RKD_PRESET_4, RKD_PRESET_5, RKD_PRESET_6,
      RKD_SELECT, RKD_BACK, RKD_REPLY, RKD_POWER]
     @ replicate 22 0"

definition itech_cube_aiAlternateKeyFunctions :: "int list" where
  "itech_cube_aiAlternateKeyFunctions =
     [RKD_SKIP_PREVIOUS, RKD_PLAY_PAUSE, RKD_SKIP_NEXT, RKD_PLAYBACK_MODE, RKD_STOP,
      RKD_BROWSE_QUEUE]
     @ replicate 26 RKD_UNUSED"

definition itech_cube_decode_key_press :: "int \<Rightarrow> int \<Rightarrow> int res" where
  "itech_cube_decode_key_press row column = key_decode itech_cube_aacKeyDecode row column"

definition itech_cube_driver :: reciva_keypad_driver_t where
  "itech_cube_driver =
     \<lparr>kd_decode_key_press = Some itech_cube_decode_key_press, kd_keys_present = Some itech_cube_aiKeysPresent,
      kd_alt_key_functions = Some itech_cube_aiAlternateKeyFunctions, kd_ioctl_extension_hook = None\<rparr>"

text \<open>\<^verbatim>\<open>reciva_keypad_vpro500.c\<close>\<close>

definition vpro500_aacKeyDecode :: "int list list" where
  "vpro500_aacKeyDecode =
     [[RKD_BACK, RKD_SELECT, RKD_REPLY, RKD_UNUSED],
      [RKD_PRESET_1, RKD_PRESET_2, RKD_PRESET_3, RKD_UNUSED],
      [RKD_PRESET_4, RKD_PRESET_5, RKD_PRESET_6, RKD_UNUSED],
      [RKD_PRESET_7, RKD_PRESET_8, RKD_POWER, RKD_UNUSED]]"

definition vpro500_aiKeysPresent :: "int list" where
  "vpro500_aiKeysPresent =
     [RKD_PRESET_1, RKD_PRESET_2, RKD_PRESET_3, RKD_PRESET_4, RKD_PRESET_5, RKD_PRESET_6,
      RKD_PRESET_7, RKD_PRESET_8, RKD_POWER, RKD_SELECT, RKD_BACK, RKD_REPLY]
     @ replicate 20 0"

definition vpro500_aiAlternateKeyFunctions :: "int list" where
  "vpro500_aiAlternateKeyFunctions =
     [RKD_SKIP_PREVIOUS, RKD_PLAY_PAUSE, RKD_SKIP_NEXT, RKD_PLAYBACK_MODE, RKD_STOP,
      RKD_BROWSE_QUEUE]
     @ replicate 26 RKD_UNUSED"

definition vpro500_decode_key_press :: "int \<Rightarrow> int \<Rightarrow> int res" where
  "vpro500_decode_key_press row column = key_decode vpro500_aacKeyDecode row column"

definition vpro500_driver :: reciva_keypad_driver_t where
  "vpro500_driver =
     \<lparr>kd_decode_key_press = Some vpro500_decode_key_press, kd_keys_present = Some vpro500_aiKeysPresent,
      kd_alt_key_functions = Some vpro500_aiAlternateKeyFunctions, kd_ioctl_extension_hook = None\<rparr>"

text \<open>\<^verbatim>\<open>reciva_keypad_windermere.c\<close>\<close>

definition windermere_aacKeyDecode :: "int list list" where
  "windermere_aacKeyDecode =
     [[RKD_REPLY, RKD_SELECT, RKD_PRESET_1, RKD_PRESET_2],
      [RKD_REPLY, RKD_PRESET_7, RKD_UNUSED, RKD_PRESET_3],
      [RKD_SELECT, RKD_PRESET_6, RKD_BACK, RKD_PRESET_4],
      [RKD_BACK, RKD_UNUSED, RKD_UNUSED, RKD_PRESET_5]]"

definition windermere_aiKeysPresent :: "int list" where
  "windermere_aiKeysPresent =
     [RKD_PRESET_1, RKD_PRESET_2, RKD_PRESET_3, RKD_PRESET_4, RKD_PRESET_5, RKD_PRESET_6,
      RKD_POWER, RKD_SELECT, RKD_BACK, RKD_REPLY]
     @ replicate 22 0"

definition windermere_aiAlternateKeyFunctions :: "int list" where
  "windermere_aiAlternateKeyFunctions =
     replicate 32 RKD_UNUSED"

definition windermere_decode_key_press :: "int \<Rightarrow> int \<Rightarrow> int res" where
  "windermere_decode_key_press row column = key_decode windermere_aacKeyDecode row column"

definition windermere_driver :: reciva_keypad_driver_t where
  "windermere_driver =
     \<lparr>kd_decode_key_press = Some windermere_decode_key_press, kd_keys_present = Some windermere_aiKeysPresent,
      kd_alt_key_functions = Some windermere_aiAlternateKeyFunctions, kd_ioctl_extension_hook = None\<rparr>"

text \<open>\<^verbatim>\<open>reciva_keypad_potas.c\<close>\<close>

definition potas_aiKeysPresent :: "int list" where
  "potas_aiKeysPresent =
     [RKD_PRESET_1, RKD_PRESET_2, RKD_PRESET_3, RKD_PRESET_4, RKD_PRESET_5, RKD_PRESET_6,
      RKD_POWER, RKD_MUTE, RKD_SKIP_PREVIOUS, RKD_PLAY_PAUSE, RKD_SKIP_NEXT, RKD_PLAYBACK_MODE,
      RKD_STOP, RKD_BROWSE_QUEUE, RKD_VOL_UP, RKD_VOL_DOWN, RKD_SELECT, RKD_REPLY, RKD_ZOOM,
      RKD_BACK]
     @ replicate 12 0"

definition potas_aiAlternateKeyFunctions :: "int list" where
  "potas_aiAlternateKeyFunctions =
     replicate 32 RKD_UNUSED"

definition potas_decode_key_press :: "int \<Rightarrow> int \<Rightarrow> int res" where
  "potas_decode_key_press row column = Ret RKD_UNUSED"

definition potas_driver :: reciva_keypad_driver_t where
  "potas_driver =
     \<lparr>kd_decode_key_press = Some potas_decode_key_press, kd_keys_present = Some potas_aiKeysPresent,
      kd_alt_key_functions = Some potas_aiAlternateKeyFunctions, kd_ioctl_extension_hook = None\<rparr>"

section \<open>The boards are consistent\<close>

text \<open>The keys a driver decodes, row by row.\<close>

definition decoded_keys :: "reciva_keypad_driver_t \<Rightarrow> int res list" where
  "decoded_keys d =
     (case kd_decode_key_press d of
        None \<Rightarrow> []
      | Some f \<Rightarrow> map (\<lambda>(r, c). f r c) (List.product [0, 1, 2, 3] [0, 1, 2, 3]))"

definition matrix_boards :: "reciva_keypad_driver_t list" where
  "matrix_boards =
     [alto_driver, allegro_driver, appa_issueb_driver, config1006_driver, config1009_driver, config1012_driver,
      itech_cube_driver, vpro500_driver]"

definition lists_its_keys :: "reciva_keypad_driver_t \<Rightarrow> bool" where
  "lists_its_keys d =
     (case kd_keys_present d of
        None \<Rightarrow> False
      | Some ks \<Rightarrow> length ks = RKD_MAX_KEYS \<and> set (decoded_keys d) - {Ret RKD_UNUSED} = Ret ` (set ks - {0}))"

text \<open>
  On every board with a matrix but Config997 and Windermere, the list of keys with which production tests the
  keypad is right: it has room for the thirty-two entries the ioctl copies, and it names exactly the keys that are
  somewhere in the matrix.
\<close>

theorem keys_present_are_the_matrix:
  "list_all lists_its_keys matrix_boards \<and>
   \<not> lists_its_keys config997_driver \<and> \<not> lists_its_keys windermere_driver"
  by code_simp

section \<open>From the matrix to the library\<close>

text \<open>When nothing is pressed as the module is loaded, and a board registers, the driver is ready.\<close>

lemma nothing_pressed: "check_for_keypress K (matrix K []) s = Ret (s\<lparr>kp_reads := Suc (kp_reads s)\<rparr>)"
  by (simp add: check_for_keypress_def read_input_def matrix_def row_level_def Let_def)

lemma bit_setup_pin:
  "dat \<noteq> con \<Longrightarrow> dat \<noteq> up \<Longrightarrow> n < 16 \<Longrightarrow> bit (setup_pin n up dat con r dat) m \<longleftrightarrow> bit (r dat) m \<and> m \<noteq> n"
  "a \<notin> {up, dat, con} \<Longrightarrow> setup_pin n up dat con r a = r a"
  using bit_imp_le_length [of "r dat" m] by (auto simp: setup_pin_def bit_reg_write bit_simps)

lemma setup_dat_low: "keypad_config K \<noteq> KEY_CONFIG_DUMMY \<Longrightarrow> dat_low K (kp_regs (setup_gpio_direction K s))"
  by (cases "keypad_config K")
    (simp_all add: dat_low_def column_dat_def setup_gpio_direction_def setup_gpio_output_def setup_gpio_input_def
      setup_row_def Let_def cols_of_def bit_setup_pin port_defs)

lemma dat_low_cong:
  assumes "r GPCDAT = r' GPCDAT" "r GPDDAT = r' GPDDAT" "r GPBDAT = r' GPBDAT" "r GPGDAT = r' GPGDAT"
  shows "dat_low K r = dat_low K r'"
  using assms by (simp add: dat_low_def column_dat_def Let_def split: prod.splits if_splits)

lemma init_ready:
  assumes "keypad_config K \<noteq> KEY_CONFIG_DUMMY" "kd_decode_key_press d = Some f"
  shows "\<exists>s. reciva_keypad_init K (matrix K []) (keypad0 r) = Ret s \<and> ready K f (rkg_register d s) \<and> kp_events s = []"
proof -
  define p where "p = setup_gpio_direction K (set_columns K 0 ((keypad0 r)\<lparr>kp_state := IDLE\<rparr>))"
  have dat: "dat_low K (kp_regs p)" unfolding p_def by (rule setup_dat_low [OF assms(1)])
  have p: "like (keypad0 r) p"
    by (simp add: p_def like_def setup_gpio_direction_def setup_gpio_output_def setup_gpio_input_def set_columns_def
        Let_def keypad0_def)
  have k: "kp_state p = IDLE" "\<not> kp_timer p" "kp_depth p = (\<lambda>_. 0)" "kp_events p = []"
    using p by (simp_all add: like_def keypad0_def)
  let ?q = "p\<lparr>num_cols := cols_of (keypad_config K), num_rows := rows_of (keypad_config K)\<rparr>"
  let ?e = "reg_write 0x7f7f7f7f 0xffffffff EINTFLT2 (kp_regs ?q)"
  let ?r = "if keypad_config K = KEY_CONFIG_3x3_PLUS_1 then reg_write 0x0000eaaa 0x0000ffff EXTINT2 ?e
            else reg_write 0x0000aaaa 0x0000ffff EXTINT2 ?e"
  have d: "dat_low K ?r"
    using dat by (subst dat_low_cong [of _ "kp_regs p"]) (simp_all add: port_defs)
  obtain u where u: "reciva_keypad_init K (matrix K []) (keypad0 r) = Ret u" "kp_regs u = ?r" "like p (u\<lparr>num_rows := num_rows p,
      interrupt_ran := interrupt_ran p\<rparr>)" "num_cols u = cols_of (keypad_config K)"
    using assms(1) by (simp add: reciva_keypad_init_def Let_def nothing_pressed p_def [symmetric] like_def)
  then show ?thesis
    using k d assms(2) by (simp add: ready_def rkg_register_def disabled_def like_def)
qed

text \<open>
  The timer runs every 20 ms, \<open>DEBOUNCE_TIMEOUT\<close>.  A comment of the state machine promises that a key whose release
  is not seen for 5 seconds times out, which no code does; what follows speaks of keys held for less than that.
\<close>

definition DEBOUNCE_TIMEOUT :: nat where "DEBOUNCE_TIMEOUT = 20"
definition RELEASE_TIMEOUT :: nat where "RELEASE_TIMEOUT = 5000"

text \<open>C4.
  A key that is pressed is reported, and reported once.  The board has a matrix (on the second 4x4 one the pins are
  shared with the port), the driver is ready, one key alone is pressed, and its contact is closed at the
  interrupt of its row and at the tick after it, at which the driver scans the columns.  Then the driver finds the
  column of the key and reports the key as pressed.  Afterwards the contact may bounce: as long as the row is not
  high at three ticks in a row nothing more is reported; and after three such ticks the next one reports the
  key as released and the driver waits for a key again.  The ticks are 20 ms apart, and the key is
  released within 5 seconds.
\<close>

theorem keypad_press_release:
  assumes "proper K" "ready K f s" "row \<in> {8, 9, 10, 11}" "int c < cols_of (keypad_config K)"
    "f (int row - 8) (int c) = Ret k" "\<not> sublist [True, True, True] hs"
    "DEBOUNCE_TIMEOUT * (length hs + 5) < RELEASE_TIMEOUT"
  shows "\<exists>t u. res_bind (key_press K row c s) (kp_ticks K (map (row_pin row) hs)) = Ret t \<and>
    kp_state t = RELEASE_PENDING \<and> kp_events t = kp_events s @ [(k, 1)] \<and>
    kp_ticks K (map (row_pin row) [True, True, True, h]) t = Ret u \<and>
    kp_events u = kp_events s @ [(k, 1), (k, 0)] \<and> ready K f u"
  by (rule press_releases [OF assms(1-6)])

definition wide_params :: kp_params where
  "wide_params = \<lparr>keypad_config = KEY_CONFIG_4x4_1, pins_shared = False\<rparr>"

theorem keypad_press_release_witness:
  "\<exists>s t u. reciva_keypad_init wide_params (matrix wide_params []) (keypad0 (\<lambda>_. -1)) = Ret s \<and>
     res_bind (key_press wide_params 10 3 (rkg_register windermere_driver s)) (kp_ticks wide_params (map (row_pin 10) [False, True, True])) = Ret t \<and>
     kp_events t = [(260, 1)] \<and>
     kp_ticks wide_params (map (row_pin 10) [True, True, True, False]) t = Ret u \<and> kp_events u = [(260, 1), (260, 0)]"
proof -
  have p: "proper wide_params" "keypad_config wide_params \<noteq> KEY_CONFIG_DUMMY" "int 3 < cols_of (keypad_config wide_params)"
    by (simp_all add: proper_def wide_params_def cols_of_def)
  have d: "kd_decode_key_press windermere_driver = Some windermere_decode_key_press" by (simp add: windermere_driver_def)
  obtain s where s: "reciva_keypad_init wide_params (matrix wide_params []) (keypad0 (\<lambda>_. -1)) = Ret s"
    "ready wide_params windermere_decode_key_press (rkg_register windermere_driver s)" "kp_events s = []"
    using init_ready [OF p(2) d] by blast
  have "windermere_decode_key_press (int 10 - 8) (int 3) = Ret 260" by code_simp
  moreover have "\<not> sublist [True, True, True] [False, True, True]" by (simp add: sublist_Cons_right)
  ultimately show ?thesis
    using keypad_press_release [OF p(1) s(2) _ p(3), of 10 260 "[False, True, True]" False] s(1,3)
    by (fastforce simp: rkg_register_def DEBOUNCE_TIMEOUT_def RELEASE_TIMEOUT_def)
qed

text \<open>The event device of the kernel hands a report to the key library.\<close>

definition to_library :: "int \<times> int \<Rightarrow> key \<Rightarrow> int \<times> key" where
  "to_library e k = translate_key \<lparr>ie_type = 1, ie_code = nat (fst e), ie_value = snd e\<rparr> k"

text \<open>The keys of the Alto board, by the pin of the row and the column.\<close>

definition alto_keys :: "(nat \<times> nat \<times> key_id) list" where
  "alto_keys =
     [(8, 0, KEY_ID_BACK), (8, 1, KEY_ID_SELECT), (8, 2, KEY_ID_REPLY), (9, 0, KEY_ID_1), (9, 1, KEY_ID_2),
      (9, 2, KEY_ID_3), (10, 1, KEY_ID_4), (10, 2, KEY_ID_5), (11, 0, KEY_ID_SHIFT), (11, 2, KEY_ID_POWER)]"

lemma alto_keys_decode:
  "list_all (\<lambda>(row, c, i). row \<in> {8, 9, 10, 11} \<and> c < 3 \<and>
     (case alto_decode_key_press (int row - 8) (int c) of Ret k \<Rightarrow> button_id (nat k) = Some i | _ \<Rightarrow> False)) alto_keys"
  by code_simp

lemma alto_key_code:
  assumes "(row, c, i) \<in> set alto_keys"
  shows "\<exists>k. row \<in> {8, 9, 10, 11} \<and> c < 3 \<and> alto_decode_key_press (int row - 8) (int c) = Ret k \<and> button_id (nat k) = Some i"
  using bspec [OF alto_keys_decode [unfolded list_all_iff] assms] by (auto split: res.splits)

text \<open>C24.
  From the matrix to the library: a key of the Alto board, pressed alone while the driver is ready, its contact
  closed at the interrupt and at the tick of the scan, held while the contact bounces (never open at three ticks in
  a row) and let go within 5 seconds, reaches the key library as the right key, pressed, and then as the same
  key, released; and nothing else is reported.
\<close>

theorem alto_key_reaches_library:
  assumes "(row, c, i) \<in> set alto_keys" "proper K" "ready K alto_decode_key_press s"
    "\<not> sublist [True, True, True] hs" "DEBOUNCE_TIMEOUT * (length hs + 5) < RELEASE_TIMEOUT"
  shows "\<exists>t u down up. res_bind (key_press K row c s) (kp_ticks K (map (row_pin row) hs)) = Ret t \<and>
    kp_events t = kp_events s @ [down] \<and> fst (to_library down k) = 1 \<and> KEY_PRESSED (snd (to_library down k)) i \<and>
    kp_ticks K (map (row_pin row) [True, True, True, h]) t = Ret u \<and>
    kp_events u = kp_events s @ [down, up] \<and> fst (to_library up k) = 1 \<and> KEY_RELEASED (snd (to_library up k)) i \<and>
    ready K alto_decode_key_press u"
proof -
  obtain n where n: "row \<in> {8, 9, 10, 11}" "c < 3" "alto_decode_key_press (int row - 8) (int c) = Ret n" "button_id (nat n) = Some i"
    using alto_key_code [OF assms(1)] by blast
  have "int c < cols_of (keypad_config K)" using n(2) by (cases "keypad_config K") (simp_all add: cols_of_def)
  from press_releases [OF assms(2,3) n(1) this n(3) assms(4), of h]
  obtain t u where "res_bind (key_press K row c s) (kp_ticks K (map (row_pin row) hs)) = Ret t"
    "kp_events t = kp_events s @ [(n, 1)]" "kp_ticks K (map (row_pin row) [True, True, True, h]) t = Ret u"
    "kp_events u = kp_events s @ [(n, 1), (n, 0)]" "ready K alto_decode_key_press u" by blast
  moreover have "fst (to_library (n, v) k) = 1 \<and> k_id (snd (to_library (n, v) k)) = i \<and> k_state (snd (to_library (n, v) k)) = v" for v
    using n(4) by (simp add: to_library_def translate_key_def)
  ultimately show ?thesis
    by (simp add: KEY_PRESSED_def KEY_RELEASED_def KEY_STATE_PRESSED_def KEY_STATE_RELEASED_def)
qed

theorem alto_key_reaches_library_witness:
  "\<exists>s t u down up.
     reciva_keypad_init demo_params (matrix demo_params []) (keypad0 (\<lambda>_. 0)) = Ret s \<and>
     res_bind (key_press demo_params 9 1 (rkg_register alto_driver s)) (kp_ticks demo_params (map (row_pin 9) [True, False, True, True, False])) = Ret t \<and>
     kp_events t = [down] \<and> KEY_PRESSED (snd (to_library down \<lparr>k_state = 0, k_id = KEY_ID_1\<rparr>)) KEY_ID_2 \<and>
     kp_ticks demo_params (map (row_pin 9) [True, True, True, True]) t = Ret u \<and> kp_events u = [down, up]"
proof -
  have p: "proper demo_params" "keypad_config demo_params \<noteq> KEY_CONFIG_DUMMY" by (simp_all add: proper_def demo_params_def)
  have d: "kd_decode_key_press alto_driver = Some alto_decode_key_press" by (simp add: alto_driver_def)
  obtain s where s: "reciva_keypad_init demo_params (matrix demo_params []) (keypad0 (\<lambda>_. 0)) = Ret s"
    "ready demo_params alto_decode_key_press (rkg_register alto_driver s)" "kp_events s = []"
    using init_ready [OF p(2) d] by blast
  have "(9, 1, KEY_ID_2) \<in> set alto_keys" by (simp add: alto_keys_def)
  moreover have "\<not> sublist [True, True, True] [True, False, True, True, False]" by (simp add: sublist_Cons_right)
  ultimately show ?thesis
    using alto_key_reaches_library [OF _ p(1) s(2), of 9 1 KEY_ID_2 "[True, False, True, True, False]" "\<lparr>k_state = 0, k_id = KEY_ID_1\<rparr>" True] s(1,3)
    by (fastforce simp: rkg_register_def DEBOUNCE_TIMEOUT_def RELEASE_TIMEOUT_def)
qed

section \<open>Where the driver goes wrong\<close>

text \<open>
  The key that stands alone shares the variable of the key in the matrix: when its state changes while a
  matrix key is held, the release of the matrix key is reported as a release of the key that stands
  alone, and the matrix key stays pressed for ever.
\<close>

theorem standalone_key_steals_release:
  assumes "holding RELEASE_PENDING K f row k es 0 s" "row < 32" "f 0 3 = Ret alone"
    "standalone_level (pins (kp_reads s) (kp_regs s)) \<noteq> standalone_key_state s" "num_rows s \<le> 3"
  shows "\<exists>t u st. reciva_gpio_standalone_int_handler pins s = Ret t \<and>
    kp_ticks K (map (row_pin row) [True, True, True, h]) t = Ret u \<and>
    kp_events u = es @ [(alone, st), (alone, 0)]"
proof -
  let ?st = "standalone_level (pins (kp_reads s) (kp_regs s))"
  let ?t = "(restart_standalone_timer ((disable_irq 19 (s\<lparr>kp_reads := Suc (kp_reads s)\<rparr>))
      \<lparr>standalone_idle := False, standalone_key_state := ?st\<rparr>))\<lparr>kp_key := alone, kp_events := es @ [(alone, ?st)]\<rparr>"
  have h: "kp_state s = RELEASE_PENDING" "kp_timer s" "disabled (Suc 0) s" "num_cols s = cols_of (keypad_config K)"
    "dat_low K (kp_regs s)" "Option.bind (kp_driver s) kd_decode_key_press = Some f"
    "kp_gpio s = int row" "kp_key s = k" "kp_events s = es" "release_detect_count s = 0"
    using assms(1) by (simp_all add: holding_def)
  have "reciva_gpio_standalone_int_handler pins s = Ret ?t"
    using assms(3,4) h(6,9)
    by (auto simp: reciva_gpio_standalone_int_handler_def read_input_def Let_def decode_key_press_def disable_irq_def
        restart_standalone_timer_def input_report_key_def bind_eq_Some_conv)
  moreover have "disabled (Suc 0) ?t"
    using h(3) assms(5) by (simp add: disabled_def matrix_irqs_def disable_irq_def restart_standalone_timer_def)
  then have "holding RELEASE_PENDING K f row alone (es @ [(alone, ?st)]) 0 ?t"
    using h by (simp add: holding_def disable_irq_def restart_standalone_timer_def)
  from ticks_release [OF this assms(2), of h]
  obtain u where "kp_ticks K (map (row_pin row) [True, True, True, h]) ?t = Ret u"
    "kp_events u = (es @ [(alone, ?st)]) @ [(alone, 0)]" by auto
  ultimately show ?thesis by (intro exI [of _ ?t] exI [of _ u] exI [of _ ?st]) simp
qed

theorem standalone_key_steals_release_witness:
  "\<exists>s t u st. kp_events s = [(258, 1)] \<and> reciva_gpio_standalone_int_handler (\<lambda>_ _. push_bit 11 1) s = Ret t \<and>
     kp_ticks \<lparr>keypad_config = KEY_CONFIG_3x3_PLUS_1, pins_shared = True\<rparr> (map (row_pin 9) [True, True, True, True]) t = Ret u \<and>
     kp_events u = [(258, 1), (RKD_UNUSED, st), (RKD_UNUSED, 0)]"
proof -
  let ?K = "\<lparr>keypad_config = KEY_CONFIG_3x3_PLUS_1, pins_shared = True\<rparr>"
  let ?s = "(keypad0 (\<lambda>_. 0))\<lparr>kp_state := RELEASE_PENDING, kp_timer := True, kp_depth := (\<lambda>_. 1), num_cols := 3, num_rows := 3,
      kp_driver := Some alto_driver, kp_gpio := 9, kp_key := 258, kp_events := [(258, 1)]\<rparr>"
  have "holding RELEASE_PENDING ?K alto_decode_key_press 9 258 [(258, 1)] 0 ?s"
    by (simp add: holding_def keypad0_def disabled_def alto_driver_def cols_of_def dat_low_def column_dat_def)
  moreover have "standalone_level (push_bit 11 1) \<noteq> standalone_key_state ?s" "num_rows ?s \<le> 3" "kp_events ?s = [(258, 1)]"
    by (simp_all add: standalone_level_def keypad0_def)
  ultimately obtain s where s: "holding RELEASE_PENDING ?K alto_decode_key_press 9 258 [(258, 1)] 0 s"
    "standalone_level (push_bit 11 1) \<noteq> standalone_key_state s" "num_rows s \<le> 3" "kp_events s = [(258, 1)]" by blast
  have "alto_decode_key_press 0 3 = Ret RKD_UNUSED" "(9 :: nat) < 32" by code_simp+
  from standalone_key_steals_release [OF s(1) this(2,1) s(2,3), of True] s(4) show ?thesis
    unfolding append_Cons append_Nil by blast
qed

text \<open>
  With four columns on pins of their own, the second wiring sets up pin 5 of port G for the last column
  but switches pin 9 of port B, as the first wiring does: the last column stays driven.
\<close>

lemma last_column_stays_driven:
  assumes "keypad_config K = KEY_CONFIG_4x4_2" "\<not> pins_shared K"
  shows "driven K (kp_regs (setup_gpio_output K s)) 3 \<and> driven K (kp_regs (set_columns K m s)) 3 = driven K (kp_regs s) 3"
  using assms by (simp add: driven_def column_con_def column_dat_def set_columns_def setup_gpio_output_def setup_pin_def
      Let_def bit_reg_write bit_three port_defs bit_simps)

text \<open>The rows of a contact that makes at the third reading.\<close>

definition late_contact :: "nat \<Rightarrow> nat \<Rightarrow> rows" where
  "late_contact n row m r = (if m < n then push_bit row 1 else 0)"

lemma late_row_low:
  assumes "kp_gpio s = int row" "row < 32"
  shows "kp_reads s < n \<Longrightarrow> row_low 3 (late_contact n row) s = (False, s\<lparr>kp_reads := Suc (kp_reads s)\<rparr>)"
    and "n \<le> kp_reads s \<Longrightarrow> row_low 3 (late_contact n row) s = (True, s\<lparr>kp_reads := kp_reads s + 3\<rparr>)"
  using assms by (simp_all add: numeral_3_eq_3 read_input_def late_contact_def and_exp_eq_0_iff_not_bit bit_simps)

lemma next_column_fields [simp]:
  "kp_reads (next_column K s) = kp_reads s" "kp_gpio (next_column K s) = kp_gpio s"
  "kp_driver (next_column K s) = kp_driver s" "kp_events (next_column K s) = kp_events s"
  "kp_column (next_column K s) = (if kp_column s \<ge> 1 then kp_column s - 1 else kp_column s)"
  by (simp_all add: next_column_def set_columns_def Let_def)

text \<open>
  On a keypad of three columns the scan looks at the row a fourth time, with all columns driven, and takes what
  it finds for the first column: a key whose contact is late by three readings is reported as the key of
  the first column of its row.
\<close>

theorem late_contact_reported_as_first_column:
  assumes "proper K" "ready K f s" "cols_of (keypad_config K) = 3" "row < 32" "f (int row - 8) 0 = Ret k"
  shows "\<exists>t u. reciva_gpio_int_handler K pins (int row) s = Ret t \<and>
    kp_ticks K [late_contact (kp_reads t + 3) row] t = Ret u \<and>
    kp_events u = kp_events s @ [(k, 1)] \<and> kp_state u = RELEASE_PENDING"
proof -
  obtain t where t: "reciva_gpio_int_handler K pins (int row) s = Ret t" "kp_state t = IDENTIFY_BUTTON" "kp_timer t"
    "Option.bind (kp_driver t) kd_decode_key_press = Some f" "kp_gpio t = int row" "kp_events t = kp_events s" "kp_column t = 2"
    using int_handler_scans [OF assms(1,2), of pins row] assms(3) by auto
  let ?t = "t\<lparr>kp_timer := False\<rparr>"
  let ?n = "kp_reads t + 3"
  define step where "step u = next_column K (u\<lparr>kp_reads := Suc (kp_reads u)\<rparr>)" for u
  have step: "kp_reads (step u) = Suc (kp_reads u)" "kp_gpio (step u) = kp_gpio u" "kp_driver (step u) = kp_driver u"
    "kp_events (step u) = kp_events u" "kp_column (step u) = (if kp_column u \<ge> 1 then kp_column u - 1 else kp_column u)" for u
    by (simp_all add: step_def)
  define v where "v = step (step (step ?t))"
  have high: "scan_columns K (late_contact ?n row) (Suc m) u = scan_columns K (late_contact ?n row) m (step u)"
    if "kp_gpio u = int row" "kp_reads u < ?n" for m u
    using late_row_low(1) [OF that(1) assms(4) that(2)] by (simp add: step_def)
  have "scan_columns K (late_contact ?n row) 4 ?t = scan_columns K (late_contact ?n row) 1 v"
    using high [of ?t 3] high [of "step ?t" 2] high [of "step (step ?t)" 1] t(5)
    by (simp add: step v_def numeral_2_eq_2 [symmetric] del: scan_columns.simps)
  also have "\<dots> = res_map (Pair True) (key_found K (v\<lparr>kp_reads := kp_reads v + 3\<rparr>))"
    using late_row_low(2) [of v row ?n] t(5) assms(4) by (simp add: v_def step)
  finally have scan: "scan_columns K (late_contact ?n row) 4 ?t = res_map (Pair True) (key_found K (v\<lparr>kp_reads := kp_reads v + 3\<rparr>))" .
  obtain w where w: "key_found K (v\<lparr>kp_reads := kp_reads v + 3\<rparr>) = Ret w"
    "like (input_report_key k 1 ((v\<lparr>kp_reads := kp_reads v + 3\<rparr>)\<lparr>kp_key := k\<rparr>)) w"
    using key_found_holds [of "v\<lparr>kp_reads := kp_reads v + 3\<rparr>" f k K] t(4,5,7) assms(5) by (auto simp: v_def step)
  have "kp_ticks K [late_contact ?n row] t = Ret ((restart_timer w)\<lparr>release_detect_count := 0, kp_state := RELEASE_PENDING\<rparr>)"
    using t(2,3) scan w(1) by (simp add: gp_state_machine_def)
  moreover have "kp_events w = kp_events s @ [(k, 1)]"
    using w(2) t(6) by (simp add: like_def input_report_key_def v_def step)
  ultimately show ?thesis
    using t(1) by (simp add: restart_timer_def)
qed

theorem late_contact_reported_as_first_column_witness:
  "\<exists>s t u. reciva_gpio_int_handler demo_params (\<lambda>_ _. 0) 9 s = Ret t \<and>
     kp_ticks demo_params [late_contact (kp_reads t + 3) 9] t = Ret u \<and> kp_events u = [(257, 1)]"
proof -
  have p: "proper demo_params" "keypad_config demo_params \<noteq> KEY_CONFIG_DUMMY" "cols_of (keypad_config demo_params) = 3"
    by (simp_all add: proper_def demo_params_def cols_of_def)
  have d: "kd_decode_key_press alto_driver = Some alto_decode_key_press" by (simp add: alto_driver_def)
  obtain s where s: "ready demo_params alto_decode_key_press (rkg_register alto_driver s)" "kp_events s = []"
    using init_ready [OF p(2) d] by blast
  have "alto_decode_key_press (int 9 - 8) 0 = Ret 257" by code_simp
  then show ?thesis
    using late_contact_reported_as_first_column [OF p(1) s(1) p(3), of 9 257 "\<lambda>_ _. 0"] s(2)
    by (fastforce simp: rkg_register_def)
qed

end
