(* ===== verification/Rutl_Utf8.thy ===== *)
theory Rutl_Utf8
  imports Rutl "HOL-Library.Signed_Division"
begin

text \<open>
  Strings in UTF-8, \<^verbatim>\<open>reciva_util.c\<close>: stepping through them, decoding them, and the hash table from
  characters to the codes of a display.
\<close>

section \<open>Walking along a string\<close>

text \<open>
  A pointer into a string is the list of the bytes from there to the end of the object.  Bytes are
  unsigned on the radio, and are promoted to \<open>int\<close> before anything is done with them; \<open>i32\<close> is
  the \<open>int\<close> that is left of a result.
\<close>

definition i32 :: "int \<Rightarrow> int" where
  "i32 x = signed_take_bit 31 x"

lemma i32_id [simp]: "- (2 ^ 31) \<le> x \<Longrightarrow> x < 2 ^ 31 \<Longrightarrow> i32 x = x"
  by (simp add: i32_def signed_take_bit_int_eq_self)

definition follow_on :: "byte \<Rightarrow> bool" where
  "follow_on b \<longleftrightarrow> uint b AND push_bit 6 3 = push_bit 6 2"

fun next_utf8 :: "byte list \<Rightarrow> byte list res" where
  "next_utf8 [] = Fault"
| "next_utf8 (b # s) = (if b = 0 then Ret (b # s) else if \<not> follow_on b then Ret (b # s) else next_utf8 s)"

definition rutl_find_next_utf8 :: "byte list \<Rightarrow> byte list res" where
  "rutl_find_next_utf8 s = (case s of [] \<Rightarrow> Fault | _ # s \<Rightarrow> next_utf8 s)"

lemma next_utf8_length: "next_utf8 s = Ret t \<Longrightarrow> length t \<le> length s"
  by (induction s) (auto split: if_splits)

lemma rutl_find_next_utf8_length: "rutl_find_next_utf8 s = Ret t \<Longrightarrow> length t < length s"
  by (auto simp: rutl_find_next_utf8_def le_imp_less_Suc next_utf8_length split: list.splits)

function count_utf8 :: "int \<Rightarrow> byte list \<Rightarrow> int res" where
  "count_utf8 i s =
     (case s of
        [] \<Rightarrow> Fault
      | b # _ \<Rightarrow> if b = 0 then Ret i else res_bind (rutl_find_next_utf8 s) (count_utf8 (i + 1)))"
  by pat_completeness auto
termination
  by (relation "measure (\<lambda>(i, s). length s)") (auto dest: rutl_find_next_utf8_length)

declare count_utf8.simps [simp del]

definition rutl_count_utf8_chars :: "byte list \<Rightarrow> int res" where
  "rutl_count_utf8_chars s = count_utf8 0 s"

section \<open>The hash table\<close>

text \<open>The hash of the first character of a string.\<close>

definition hash_step :: "int \<Rightarrow> byte \<Rightarrow> int" where
  "hash_step h b = i32 (i32 (i32 (push_bit 5 h) - h) + uint b)"

fun hash_more :: "int \<Rightarrow> byte list \<Rightarrow> int res" where
  "hash_more h [] = Fault"
| "hash_more h (b # s) = (if follow_on b then hash_more (hash_step h b) s else Ret h)"

definition rutl_utf8_hash :: "byte list \<Rightarrow> int res" where
  "rutl_utf8_hash s = (case s of [] \<Rightarrow> Fault | b # s \<Rightarrow> hash_more (uint b) s)"

text \<open>The elements of a bucket are a list: a new one is put in front.\<close>

record rutl_hashtable =
  ht_size :: int
  ht_elements :: "(byte list \<times> byte) list list"

definition rutl_new_hashtable :: "bool \<Rightarrow> bool \<Rightarrow> int \<Rightarrow> rutl_hashtable option" where
  "rutl_new_hashtable table_ok elements_ok n =
     (if \<not> table_ok then None
      else if \<not> elements_ok then None
      else Some \<lparr>ht_size = n, ht_elements = replicate (nat n) []\<rparr>)"

text \<open>\<open>hash % t->size\<close>: the remainder has the sign of the hash; division by zero is a fault.\<close>

definition bucket_of :: "int \<Rightarrow> int \<Rightarrow> int res" where
  "bucket_of h n = (if n = 0 then Fault else Ret (h smod n))"

definition rutl_hashtable_put :: "bool \<Rightarrow> byte list \<Rightarrow> byte \<Rightarrow> rutl_hashtable \<Rightarrow> rutl_hashtable res" where
  "rutl_hashtable_put alloc_ok key v t =
     res_bind (rutl_utf8_hash key) (\<lambda>h.
     res_bind (bucket_of h (ht_size t)) (\<lambda>bucket.
       if \<not> alloc_ok then Ret t
       else res_bind (rd (ht_elements t) bucket) (\<lambda>es.
            res_map (\<lambda>bs. t\<lparr>ht_elements := bs\<rparr>) (wr (ht_elements t) bucket ((key, v) # es)))))"

record rutl_utf8_seq_info =
  pcSeq :: "byte list"
  iUnicode :: int
  iHash :: int
  iLength :: int
  pcNextSeq :: "byte list"

definition INT_MAX :: int where "INT_MAX = 2147483647"

text \<open>Whether \<open>strncmp\<close> finds no difference.\<close>

fun strncmp_eq :: "nat \<Rightarrow> byte list \<Rightarrow> byte list \<Rightarrow> bool res" where
  "strncmp_eq 0 s t = Ret True"
| "strncmp_eq (Suc n) [] t = Fault"
| "strncmp_eq (Suc n) (a # s) [] = Fault"
| "strncmp_eq (Suc n) (a # s) (b # t) =
     (if a \<noteq> b then Ret False else if a = 0 then Ret True else strncmp_eq n s t)"

fun search_bucket :: "(byte list \<times> byte) list \<Rightarrow> nat \<Rightarrow> byte list \<Rightarrow> int res" where
  "search_bucket [] n s = Ret INT_MAX"
| "search_bucket ((key, v) # es) n s =
     res_bind (strncmp_eq n s key) (\<lambda>eq. if eq then Ret (uint v) else search_bucket es n s)"

definition rutl_hashtable_search :: "rutl_hashtable \<Rightarrow> rutl_utf8_seq_info \<Rightarrow> int res" where
  "rutl_hashtable_search t si =
     res_bind (bucket_of (iHash si) (ht_size t)) (\<lambda>bucket.
     res_bind (rd (ht_elements t) bucket) (\<lambda>es. search_bucket es (nat (iLength si)) (pcSeq si)))"

text \<open>The members of the structure that are not set keep the garbage \<open>g\<close> they had.\<close>

definition rutl_hashtable_get :: "rutl_utf8_seq_info \<Rightarrow> rutl_hashtable \<Rightarrow> byte list \<Rightarrow> int res" where
  "rutl_hashtable_get g t key =
     res_bind (rutl_find_next_utf8 key) (\<lambda>next.
       let n = int (length key) - int (length next)
       in if n < 0 then Ret INT_MAX
          else res_bind (rutl_utf8_hash key) (\<lambda>h.
               rutl_hashtable_search t (g\<lparr>pcSeq := key, iLength := n, iHash := h\<rparr>)))"

text \<open>How many buckets there are of each length, up to the number of buckets: an array of so many counters.\<close>

fun count_buckets :: "(byte list \<times> byte) list list \<Rightarrow> int list \<Rightarrow> int list res" where
  "count_buckets [] stat = Ret stat"
| "count_buckets (es # bs) stat =
     res_bind (rd stat (int (length es))) (\<lambda>n.
     res_bind (wr stat (int (length es)) (n + 1)) (count_buckets bs))"

definition rutl_dump_hashtable_stats :: "bool \<Rightarrow> rutl_hashtable \<Rightarrow> int list option res" where
  "rutl_dump_hashtable_stats alloc_ok t =
     (if \<not> alloc_ok then Ret None
      else res_map Some (count_buckets (ht_elements t) (replicate (nat (ht_size t)) 0)))"

definition rutl_strdup :: "bool \<Rightarrow> byte list \<Rightarrow> byte list option res" where
  "rutl_strdup alloc_ok s =
     res_map (\<lambda>n. if \<not> alloc_ok then None else Some (take (nat n + 1) s)) (strlen s)"

section \<open>Decoding\<close>

definition EFAULT :: int where "EFAULT = 14"
definition EILSEQ :: int where "EILSEQ = 84"

text \<open>
  The loop over the bytes that follow the first one.  The result is the mask, the bits, the number of
  bytes, the hash and the rest of the string; \<open>None\<close> when a byte has the wrong format.
\<close>

fun utf8_follow :: "int \<Rightarrow> int \<Rightarrow> int \<Rightarrow> int \<Rightarrow> int \<Rightarrow> byte list \<Rightarrow> (int \<times> int \<times> int \<times> int \<times> byte list) option res" where
  "utf8_follow lead zmask r i h [] =
     (if zmask AND lead = zmask then Fault else Ret (Some (zmask, r, i, h, [])))"
| "utf8_follow lead zmask r i h (b # s) =
     (if zmask AND lead = zmask
      then if \<not> follow_on b then Ret None
           else utf8_follow lead (drop_bit 1 zmask) (i32 (push_bit 6 r) OR (uint b AND NOT (push_bit 6 3))) (i + 1)
                  (hash_step h b) s
      else Ret (Some (zmask, r, i, h, b # s)))"

text \<open>What is made of the loop's result.\<close>

definition utf8_result ::
  "rutl_utf8_seq_info \<Rightarrow> int \<Rightarrow> (int \<times> int \<times> int \<times> int \<times> byte list) option \<Rightarrow> int \<times> rutl_utf8_seq_info option" where
  "utf8_result si lead f =
     (case f of
        None \<Rightarrow> (- EILSEQ, Some si)
      | Some (zmask, r, i, h, s) \<Rightarrow>
          let zmask = push_bit 1 zmask - 1; r = r OR i32 (push_bit (nat ((i - 1) * 6)) (lead AND zmask))
          in (0, Some (si\<lparr>iUnicode := r, iLength := i, iHash := h, pcNextSeq := s\<rparr>)))"

definition rutl_utf8_to_unicode :: "rutl_utf8_seq_info option \<Rightarrow> (int \<times> rutl_utf8_seq_info option) res" where
  "rutl_utf8_to_unicode p =
     (case p of
        None \<Rightarrow> Ret (- EFAULT, None)
      | Some si \<Rightarrow>
          (case pcSeq si of
             [] \<Rightarrow> Fault
           | b # s \<Rightarrow>
               let lead = uint b
               in if lead AND push_bit 7 1 = 0
                  then Ret (0, Some (si\<lparr>iUnicode := lead, iLength := 1, iHash := lead, pcNextSeq := s\<rparr>))
                  else if lead AND push_bit 6 3 = push_bit 6 2 \<or> lead AND 0xf1 = 0xf1 then Ret (- EILSEQ, Some si)
                  else res_map (utf8_result si lead) (utf8_follow lead (push_bit 6 1) 0 1 lead s)))"

section \<open>Bits of bytes\<close>

text \<open>What the masks pick out of a byte, checked for each of them.\<close>

lemma byte_bits_all:
  "list_all (\<lambda>x :: int.
     (x AND push_bit 6 3 = push_bit 6 2) = (128 \<le> x \<and> x < 192) \<and> (x AND push_bit 7 1 = 0) = (x < 128) \<and>
     x AND NOT (push_bit 6 3) = x mod 64 \<and>
     (64 AND x = 64) = (x div 64 mod 2 = 1) \<and> (32 AND x = 32) = (x div 32 mod 2 = 1) \<and>
     (16 AND x = 16) = (x div 16 mod 2 = 1) \<and> (8 AND x = 8) = (x div 8 mod 2 = 1) \<and>
     x AND 63 = x mod 64 \<and> x AND 31 = x mod 32 \<and> x AND 15 = x mod 16 \<and>
     (x AND 0xf1 = 0xf1) = (240 \<le> x \<and> x mod 2 = 1)) [0..255]"
  by code_simp

lemma byte_bits:
  fixes x :: int
  assumes "0 \<le> x" "x < 256"
  shows "x AND push_bit 6 3 = push_bit 6 2 \<longleftrightarrow> 128 \<le> x \<and> x < 192" "x AND push_bit 7 1 = 0 \<longleftrightarrow> x < 128"
    "x AND NOT (push_bit 6 3) = x mod 64"
    "64 AND x = 64 \<longleftrightarrow> x div 64 mod 2 = 1" "32 AND x = 32 \<longleftrightarrow> x div 32 mod 2 = 1"
    "16 AND x = 16 \<longleftrightarrow> x div 16 mod 2 = 1" "8 AND x = 8 \<longleftrightarrow> x div 8 mod 2 = 1"
    "x AND 63 = x mod 64" "x AND 31 = x mod 32" "x AND 15 = x mod 16"
    "x AND 0xf1 = 0xf1 \<longleftrightarrow> 240 \<le> x \<and> x mod 2 = 1"
  using bspec [OF byte_bits_all [unfolded list_all_iff], of x] assms by auto

lemma uint_byte: "0 \<le> uint (b :: byte)" "uint (b :: byte) < 256"
  using uint_bounded [of b] by simp_all

lemma follow_on_iff: "follow_on b \<longleftrightarrow> 128 \<le> uint b \<and> uint b < 192"
  by (simp only: follow_on_def byte_bits [OF uint_byte])

lemma uint_of_byte: "0 \<le> x \<Longrightarrow> x < 256 \<Longrightarrow> uint (word_of_int x :: byte) = x"
  by (simp add: uint_word_of_int)

text \<open>Putting six bits behind others, and others in front of them.\<close>

lemma or_low: "0 \<le> x \<Longrightarrow> x < 2 ^ n \<Longrightarrow> push_bit n r OR x = r * 2 ^ n + (x :: int)"
proof -
  assume "0 \<le> x" "x < 2 ^ n"
  then have x: "take_bit n x = x" by (simp add: take_bit_int_eq_self)
  have "push_bit n r AND take_bit n x = 0" by (auto simp: bit_eq_iff bit_simps)
  then show ?thesis by (simp add: x disjunctive_add_eq_or [symmetric] push_bit_eq_mult)
qed

lemma or_high: "0 \<le> x \<Longrightarrow> x < 2 ^ n \<Longrightarrow> x OR push_bit n r = r * 2 ^ n + (x :: int)"
  using or_low [of x n r] by (simp add: or.commute)

section \<open>Round trip\<close>

text \<open>The encoding of a character, by the standard.\<close>

definition utf8_encode :: "int \<Rightarrow> byte list" where
  "utf8_encode u =
     map word_of_int
       (if u < 0x80 then [u]
        else if u < 0x800 then [0xC0 + u div 64, 0x80 + u mod 64]
        else if u < 0x10000 then [0xE0 + u div 4096, 0x80 + u div 64 mod 64, 0x80 + u mod 64]
        else [0xF0 + u div 0x40000, 0x80 + u div 4096 mod 64, 0x80 + u div 64 mod 64, 0x80 + u mod 64])"

text \<open>One byte that follows the first.\<close>

lemma utf8_follow_step:
  assumes "uint b = 0x80 + x" "0 \<le> x" "x < 64" "zmask AND lead = zmask" "0 \<le> r" "r < 2 ^ 25"
  shows "utf8_follow lead zmask r i h (b # s) = utf8_follow lead (drop_bit 1 zmask) (r * 64 + x) (i + 1) (hash_step h b) s"
proof -
  have "(0x80 + x) mod 64 = x" using assms(2,3) mod_mult_self2 [of x 64 2] by (simp add: add.commute)
  then have "uint b AND NOT (push_bit 6 3) = x"
    using byte_bits(3) [OF uint_byte, of b] by (simp only: assms(1))
  moreover have "follow_on b" using assms(1-3) by (simp add: follow_on_iff)
  moreover have "i32 (push_bit 6 r) OR x = r * 64 + x"
    using or_low [of x 6 r] assms by (simp add: push_bit_eq_mult)
  ultimately show ?thesis using assms(4) by simp
qed

lemma utf8_follow_end:
  "zmask AND lead \<noteq> zmask \<Longrightarrow> utf8_follow lead zmask r i h s = Ret (Some (zmask, r, i, h, s))"
  by (cases s) simp_all

text \<open>The hash of a character.\<close>

definition char_hash :: "byte list \<Rightarrow> int" where
  "char_hash bs = foldl hash_step (uint (hd bs)) (tl bs)"

lemma finish_bits: "0 \<le> r \<Longrightarrow> r < 2 ^ n \<Longrightarrow> 0 \<le> a \<Longrightarrow> a * 2 ^ n < 2 ^ 31 \<Longrightarrow> r OR i32 (push_bit n a) = a * 2 ^ n + r"
  using or_high [of r n a] by (simp add: push_bit_eq_mult i32_id [OF order_trans, of 0])

definition decoded :: "rutl_utf8_seq_info \<Rightarrow> int \<Rightarrow> byte list \<Rightarrow> byte list \<Rightarrow> rutl_utf8_seq_info" where
  "decoded g u bs rest =
     g\<lparr>pcSeq := bs @ rest, iUnicode := u, iLength := int (length bs), iHash := char_hash bs, pcNextSeq := rest\<rparr>"

text \<open>What is left of the decoder for a first byte that announces more.\<close>

lemma decode_lead:
  fixes b :: byte
  assumes "192 \<le> uint b" "\<not> (240 \<le> uint b \<and> uint b mod 2 = 1)"
    "utf8_follow (uint b) (push_bit 6 1) 0 1 (uint b) (cs @ rest) =
       Ret (Some (zmask, r, int (Suc (length cs)), char_hash (b # cs), rest))"
    "uint b AND (push_bit 1 zmask - 1) = a" "0 \<le> r" "r < 2 ^ (6 * length cs)" "0 \<le> a" "a * 2 ^ (6 * length cs) < 2 ^ 31"
  shows "rutl_utf8_to_unicode (Some (g\<lparr>pcSeq := b # cs @ rest\<rparr>)) =
    Ret (0, Some (decoded g (a * 2 ^ (6 * length cs) + r) (b # cs) rest))"
proof -
  let ?si = "g\<lparr>pcSeq := b # cs @ rest\<rparr>"
  have n: "nat ((int (Suc (length cs)) - 1) * 6) = 6 * length cs" by simp
  have "uint b AND push_bit 7 1 \<noteq> 0" "uint b AND push_bit 6 3 \<noteq> push_bit 6 2" "uint b AND 0xf1 \<noteq> 0xf1"
    using byte_bits(1,2,11) [OF uint_byte, of b] assms(1,2) by auto
  then have "rutl_utf8_to_unicode (Some ?si) = res_map (utf8_result ?si (uint b)) (utf8_follow (uint b) (push_bit 6 1) 0 1 (uint b) (cs @ rest))"
    by (simp add: rutl_utf8_to_unicode_def Let_def)
  moreover have "utf8_result ?si (uint b) (Some (zmask, r, int (Suc (length cs)), char_hash (b # cs), rest)) =
      (0, Some (decoded g (a * 2 ^ (6 * length cs) + r) (b # cs) rest))"
    unfolding utf8_result_def option.case prod.case Let_def assms(4) n finish_bits [OF assms(5-8)] decoded_def by simp
  ultimately show ?thesis using assms(3) by simp
qed

text \<open>The bits of the first byte, for each byte that announces one, two or three others.\<close>

lemma lead_bits_all:
  "list_all (\<lambda>a :: int. 64 AND (192 + a) = 64 \<and> 32 AND (192 + a) \<noteq> 32 \<and> (192 + a) AND 63 = a) [0..31]"
  "list_all (\<lambda>a :: int. 64 AND (224 + a) = 64 \<and> 32 AND (224 + a) = 32 \<and> 16 AND (224 + a) \<noteq> 16 \<and> (224 + a) AND 31 = a) [0..15]"
  "list_all (\<lambda>a :: int. 64 AND (240 + a) = 64 \<and> 32 AND (240 + a) = 32 \<and> 16 AND (240 + a) = 16 \<and> 8 AND (240 + a) \<noteq> 8 \<and>
     (240 + a) AND 15 = a) [0..7]"
  by code_simp+

lemma lead_bits:
  "0 \<le> a \<Longrightarrow> a < 32 \<Longrightarrow> 64 AND (192 + a) = 64 \<and> 32 AND (192 + a) \<noteq> 32 \<and> (192 + a) AND 63 = (a :: int)"
  "0 \<le> a \<Longrightarrow> a < 16 \<Longrightarrow> 64 AND (224 + a) = 64 \<and> 32 AND (224 + a) = 32 \<and> 16 AND (224 + a) \<noteq> 16 \<and> (224 + a) AND 31 = (a :: int)"
  "0 \<le> a \<Longrightarrow> a < 8 \<Longrightarrow> 64 AND (240 + a) = 64 \<and> 32 AND (240 + a) = 32 \<and> 16 AND (240 + a) = 16 \<and> 8 AND (240 + a) \<noteq> 8 \<and>
     (240 + a) AND 15 = (a :: int)"
  using lead_bits_all [unfolded list_all_iff] by auto

lemma three_sextets: "u = u div 4096 * 4096 + u div 64 mod 64 * 64 + u mod (64 :: int)"
proof -
  define q where "q = u div 64"
  have "u div 4096 = q div 64" using zdiv_zmult2_eq [of 64 u 64] by (simp add: q_def)
  then have "u div 4096 * 4096 = (q div 64 * 64) * 64" by simp
  also have "\<dots> = (q - q mod 64) * 64" by (simp add: minus_mod_eq_div_mult)
  also have "\<dots> = q * 64 - q mod 64 * 64" by (simp add: left_diff_distrib)
  finally show ?thesis
    using div_mult_mod_eq [of u 64] unfolding q_def [symmetric] by simp
qed

lemma four_sextets: "u = u div 0x40000 * 0x40000 + u div 4096 mod 64 * 4096 + u div 64 mod 64 * 64 + u mod (64 :: int)"
proof -
  define q where "q = u div 64"
  have "q div 4096 = u div 0x40000" "q div 64 = u div 4096"
    using zdiv_zmult2_eq [of 4096 u 64] zdiv_zmult2_eq [of 64 u 64] by (simp_all add: q_def)
  then have "q = u div 0x40000 * 4096 + u div 4096 mod 64 * 64 + q mod 64" using three_sextets [of q] by simp
  then show ?thesis
    using div_mult_mod_eq [of u 64] unfolding q_def [symmetric] by (simp add: algebra_simps)
qed

lemma decode_one:
  assumes "0 \<le> u" "u < 0x80"
  shows "rutl_utf8_to_unicode (Some (g\<lparr>pcSeq := utf8_encode u @ rest\<rparr>)) = Ret (0, Some (decoded g u (utf8_encode u) rest))"
proof -
  define b :: byte where "b = word_of_int u"
  have b: "uint b = u" unfolding b_def by (rule uint_of_byte) (use assms in simp_all)
  moreover have "u AND push_bit 7 1 = 0" using byte_bits(2) [of u] assms by simp
  moreover have "utf8_encode u = [b]" using assms by (simp add: utf8_encode_def b_def)
  ultimately show ?thesis
    by (simp add: rutl_utf8_to_unicode_def decoded_def char_hash_def)
qed

lemma decode_two:
  assumes "0x80 \<le> u" "u < 0x800"
  shows "rutl_utf8_to_unicode (Some (g\<lparr>pcSeq := utf8_encode u @ rest\<rparr>)) = Ret (0, Some (decoded g u (utf8_encode u) rest))"
proof -
  define a where "a = u div 64"
  define x where "x = u mod 64"
  have u: "u = a * 64 + x" "0 \<le> x" "x < 64" "2 \<le> a" "a < 32" using assms by (auto simp: a_def x_def)
  define b :: byte where "b = word_of_int (0xC0 + a)"
  define c :: byte where "c = word_of_int (0x80 + x)"
  have b: "uint b = 0xC0 + a" unfolding b_def by (rule uint_of_byte) (use u in simp_all)
  have c: "uint c = 0x80 + x" unfolding c_def by (rule uint_of_byte) (use u in simp_all)
  have l: "64 AND (192 + a) = 64" "32 AND (192 + a) \<noteq> 32" "(192 + a) AND 63 = a" using lead_bits(1) [of a] u by simp_all
  have "utf8_follow (uint b) (push_bit 6 1) 0 1 (uint b) ([c] @ rest) = Ret (Some (32, x, int (Suc (length [c])), char_hash [b, c], rest))"
    using l(1,2) u by (simp add: utf8_follow_step [OF c] utf8_follow_end char_hash_def b del: utf8_follow.simps)
  moreover have "utf8_encode u = b # [c]" using assms by (simp add: utf8_encode_def a_def x_def b_def c_def)
  ultimately show ?thesis
    using decode_lead [of b "[c]" rest 32 x a g] l(3) u b by simp
qed

lemma decode_three:
  assumes "0x800 \<le> u" "u < 0x10000"
  shows "rutl_utf8_to_unicode (Some (g\<lparr>pcSeq := utf8_encode u @ rest\<rparr>)) = Ret (0, Some (decoded g u (utf8_encode u) rest))"
proof -
  define a where "a = u div 4096"
  define x where "x = u div 64 mod 64"
  define y where "y = u mod 64"
  have "u = a * 4096 + x * 64 + y" unfolding a_def x_def y_def by (rule three_sextets)
  then have u: "u = a * 4096 + x * 64 + y" "0 \<le> x" "x < 64" "0 \<le> y" "y < 64" "0 \<le> a" "a < 16"
    using assms by (auto simp: a_def x_def y_def)
  define b :: byte where "b = word_of_int (0xE0 + a)"
  define c :: byte where "c = word_of_int (0x80 + x)"
  define d :: byte where "d = word_of_int (0x80 + y)"
  have b: "uint b = 0xE0 + a" unfolding b_def by (rule uint_of_byte) (use u in simp_all)
  have c: "uint c = 0x80 + x" unfolding c_def by (rule uint_of_byte) (use u in simp_all)
  have d: "uint d = 0x80 + y" unfolding d_def by (rule uint_of_byte) (use u in simp_all)
  have l: "64 AND (224 + a) = 64" "32 AND (224 + a) = 32" "16 AND (224 + a) \<noteq> 16" "(224 + a) AND 31 = a"
    using lead_bits(2) [of a] u by simp_all
  have "utf8_follow (uint b) (push_bit 6 1) 0 1 (uint b) ([c, d] @ rest) =
      Ret (Some (16, x * 64 + y, int (Suc (length [c, d])), char_hash [b, c, d], rest))"
    using l(1-3) u by (simp add: utf8_follow_step [OF c] utf8_follow_step [OF d] utf8_follow_end char_hash_def b del: utf8_follow.simps)
  moreover have "utf8_encode u = b # [c, d]" using assms by (simp add: utf8_encode_def a_def x_def y_def b_def c_def d_def)
  ultimately show ?thesis
    using decode_lead [of b "[c, d]" rest 16 "x * 64 + y" a g] l(4) u b by (simp add: add.assoc)
qed

lemma decode_four:
  assumes "0x10000 \<le> u" "u < 0x110000" "u div 0x40000 \<noteq> 1" "u div 0x40000 \<noteq> 3"
  shows "rutl_utf8_to_unicode (Some (g\<lparr>pcSeq := utf8_encode u @ rest\<rparr>)) = Ret (0, Some (decoded g u (utf8_encode u) rest))"
proof -
  define a where "a = u div 0x40000"
  define x where "x = u div 4096 mod 64"
  define y where "y = u div 64 mod 64"
  define z where "z = u mod 64"
  have "u = a * 0x40000 + x * 4096 + y * 64 + z" unfolding a_def x_def y_def z_def by (rule four_sextets)
  moreover have "0 \<le> x" "x < 64" "0 \<le> y" "y < 64" "0 \<le> z" "z < 64" by (simp_all add: x_def y_def z_def)
  moreover have "0 \<le> a" "a < 5" "a \<noteq> 1" "a \<noteq> 3" using assms by (auto simp: a_def)
  ultimately have u: "u = a * 0x40000 + x * 4096 + y * 64 + z" "0 \<le> x" "x < 64" "0 \<le> y" "y < 64" "0 \<le> z" "z < 64" "0 \<le> a" "a < 5"
        "a \<noteq> 1" "a \<noteq> 3"
    by blast+
  define b :: byte where "b = word_of_int (0xF0 + a)"
  define c :: byte where "c = word_of_int (0x80 + x)"
  define d :: byte where "d = word_of_int (0x80 + y)"
  define e :: byte where "e = word_of_int (0x80 + z)"
  have b: "uint b = 0xF0 + a" unfolding b_def by (rule uint_of_byte) (use u in simp_all)
  have c: "uint c = 0x80 + x" unfolding c_def by (rule uint_of_byte) (use u in simp_all)
  have d: "uint d = 0x80 + y" unfolding d_def by (rule uint_of_byte) (use u in simp_all)
  have e: "uint e = 0x80 + z" unfolding e_def by (rule uint_of_byte) (use u in simp_all)
  have l: "64 AND (240 + a) = 64" "32 AND (240 + a) = 32" "16 AND (240 + a) = 16" "8 AND (240 + a) \<noteq> 8" "(240 + a) AND 15 = a"
    using lead_bits(3) [of a] u by simp_all
  have "utf8_follow (uint b) (push_bit 6 1) 0 1 (uint b) ([c, d, e] @ rest) =
      Ret (Some (8, (x * 64 + y) * 64 + z, int (Suc (length [c, d, e])), char_hash [b, c, d, e], rest))"
    using l(1-4) u by (simp add: utf8_follow_step [OF c] utf8_follow_step [OF d] utf8_follow_step [OF e] utf8_follow_end
        char_hash_def b del: utf8_follow.simps)
  moreover have "utf8_encode u = b # [c, d, e]"
    using assms by (simp add: utf8_encode_def a_def x_def y_def z_def b_def c_def d_def e_def)
  moreover have "(240 + a) mod 2 \<noteq> 1" using u(8-11) by presburger
  moreover have v: "a * 2 ^ (6 * length [c, d, e]) + ((x * 64 + y) * 64 + z) = u" using u(1) by simp
  ultimately show ?thesis
    using decode_lead [of b "[c, d, e]" rest 8 "(x * 64 + y) * 64 + z" a g, unfolded v] l(5) u(2-9) b by simp
qed

lemma decode_encode:
  assumes "0 \<le> u" "u < 0x110000" "u div 0x40000 \<noteq> 1" "u div 0x40000 \<noteq> 3"
  shows "rutl_utf8_to_unicode (Some (g\<lparr>pcSeq := utf8_encode u @ rest\<rparr>)) = Ret (0, Some (decoded g u (utf8_encode u) rest))"
  using assms decode_one decode_two decode_three decode_four
  by (meson linorder_not_less)

section \<open>Characters\<close>

text \<open>The characters the decoder knows: those of the planes from 4 to 7 and from 12 to 15 it rejects.\<close>

definition valid_char :: "int \<Rightarrow> bool" where
  "valid_char u \<longleftrightarrow> 0 < u \<and> u < 0x110000 \<and> u div 0x40000 \<noteq> 1 \<and> u div 0x40000 \<noteq> 3"

text \<open>A first byte, and then bytes that follow it.\<close>

definition one_char :: "byte list \<Rightarrow> bool" where
  "one_char bs \<longleftrightarrow> bs \<noteq> [] \<and> hd bs \<noteq> 0 \<and> \<not> follow_on (hd bs) \<and> list_all follow_on (tl bs) \<and> length bs \<le> 4"

lemma follow_on_0 [simp]: "\<not> follow_on 0"
  by (simp add: follow_on_iff)

lemma follow_on_byte: "0 \<le> x \<Longrightarrow> x < 64 \<Longrightarrow> follow_on (word_of_int (0x80 + x))"
  using uint_of_byte [of "0x80 + x"] by (simp add: follow_on_iff del: of_int_add)

lemma first_byte:
  assumes "0 < x \<and> x < 0x80 \<or> 0xC0 \<le> x \<and> x < 256"
  shows "word_of_int x \<noteq> (0 :: byte) \<and> \<not> follow_on (word_of_int x)"
proof -
  have "uint (word_of_int x :: byte) = x" by (rule uint_of_byte) (use assms in auto)
  then show ?thesis using assms by (auto simp: follow_on_iff)
qed

lemma one_char_encode:
  assumes "0 < u" "u < 0x110000"
  shows "one_char (utf8_encode u)"
proof -
  consider "u < 0x80" | "0x80 \<le> u" "u < 0x800" | "0x800 \<le> u" "u < 0x10000" | "0x10000 \<le> u" by linarith
  then show ?thesis
  proof cases
    case 1
    then show ?thesis using first_byte [of u] assms by (simp add: one_char_def utf8_encode_def)
  next
    case 2
    then have "u div 64 < 32" "0 \<le> u div 64" by auto
    then show ?thesis
      using first_byte [of "0xC0 + u div 64"] follow_on_byte [of "u mod 64"] 2
      by (simp add: one_char_def utf8_encode_def del: of_int_add)
  next
    case 3
    then have "u div 4096 < 16" "0 \<le> u div 4096" by auto
    then show ?thesis
      using first_byte [of "0xE0 + u div 4096"] follow_on_byte [of "u div 64 mod 64"] follow_on_byte [of "u mod 64"] 3
      by (simp add: one_char_def utf8_encode_def del: of_int_add)
  next
    case 4
    then have "u div 0x40000 < 5" "0 \<le> u div 0x40000" using assms by auto
    then show ?thesis
      using first_byte [of "0xF0 + u div 0x40000"] follow_on_byte [of "u div 4096 mod 64"]
        follow_on_byte [of "u div 64 mod 64"] follow_on_byte [of "u mod 64"] 4
      by (simp add: one_char_def utf8_encode_def del: of_int_add)
  qed
qed

text \<open>Stepping over one character.\<close>

lemma next_utf8_skip: "list_all follow_on cs \<Longrightarrow> next_utf8 (cs @ s) = next_utf8 s"
  by (induction cs) auto

lemma next_utf8_stop: "\<not> follow_on b \<Longrightarrow> next_utf8 (b # s) = Ret (b # s)"
  by simp

lemma find_next_one_char:
  assumes "one_char bs" "\<not> follow_on r"
  shows "rutl_find_next_utf8 (bs @ r # s) = Ret (r # s)"
  using assms by (cases bs) (simp_all add: one_char_def rutl_find_next_utf8_def next_utf8_skip)

lemma hash_more_foldl: "list_all follow_on cs \<Longrightarrow> \<not> follow_on r \<Longrightarrow> hash_more h (cs @ r # s) = Ret (foldl hash_step h cs)"
  by (induction cs arbitrary: h) auto

lemma hash_one_char:
  assumes "one_char bs" "\<not> follow_on r"
  shows "rutl_utf8_hash (bs @ r # s) = Ret (char_hash bs)"
  using assms by (cases bs) (simp_all add: one_char_def rutl_utf8_hash_def hash_more_foldl char_hash_def)

text \<open>The characters of a text are counted one by one.\<close>

lemma count_utf8_chars:
  "list_all one_char cs \<Longrightarrow> count_utf8 i (concat cs @ [0]) = Ret (i + int (length cs))"
proof (induction cs arbitrary: i)
  case Nil
  then show ?case by (simp add: count_utf8.simps)
next
  case (Cons c cs)
  obtain r s where r: "concat cs @ [0] = r # s" "\<not> follow_on r"
    using Cons.prems by (cases cs) (auto simp: one_char_def neq_Nil_conv)
  obtain b bs where c: "c = b # bs" "b \<noteq> 0" using Cons.prems by (cases c) (auto simp: one_char_def)
  have "count_utf8 i (c @ r # s) = res_bind (rutl_find_next_utf8 (c @ r # s)) (count_utf8 (i + 1))"
    unfolding c(1) by (subst count_utf8.simps) (simp add: c(2))
  then show ?case
    using find_next_one_char [of c r s] Cons r by simp
qed

section \<open>The properties of the strings\<close>

text \<open>C23.
  The decoder inverts the encoding of the standard: of a string that begins with the encoding of a
  character it knows, it returns the character, its length, its hash, which is the one the table is
  searched with, and the rest of the string.
\<close>

theorem utf8_round_trip:
  assumes "valid_char u" "\<not> follow_on r"
  shows "\<exists>si h. rutl_utf8_to_unicode (Some (g\<lparr>pcSeq := utf8_encode u @ r # s\<rparr>)) = Ret (0, Some si) \<and>
    iUnicode si = u \<and> pcNextSeq si = r # s \<and> rutl_find_next_utf8 (utf8_encode u @ r # s) = Ret (pcNextSeq si) \<and>
    iLength si = int (length (utf8_encode u)) \<and> iHash si = h \<and> rutl_utf8_hash (utf8_encode u @ r # s) = Ret h"
proof -
  have u: "0 \<le> u" "u < 0x110000" "u div 0x40000 \<noteq> 1" "u div 0x40000 \<noteq> 3" "one_char (utf8_encode u)"
    using assms(1) one_char_encode [of u] by (auto simp: valid_char_def)
  show ?thesis
    using decode_encode [OF u(1-4), of "r # s" g] hash_one_char [OF u(5) assms(2)] find_next_one_char [OF u(5) assms(2)]
    by (simp add: decoded_def)
qed

theorem utf8_round_trip_witness:
  "\<exists>si. rutl_utf8_to_unicode (Some \<lparr>pcSeq = [0xE2, 0x82, 0xAC, 0x41, 0], iUnicode = 0, iHash = 0, iLength = 0, pcNextSeq = []\<rparr>) =
     Ret (0, Some si) \<and> iUnicode si = 0x20AC \<and> pcNextSeq si = [0x41, 0]"
proof -
  have e: "utf8_encode 0x20AC = [0xE2, 0x82, 0xAC]" by code_simp
  have "valid_char 0x20AC" "\<not> follow_on 0x41" by code_simp+
  from utf8_round_trip [OF this, of "[0]" "\<lparr>pcSeq = [], iUnicode = 0, iHash = 0, iLength = 0, pcNextSeq = []\<rparr>"]
  show ?thesis unfolding e by auto
qed

text \<open>
  The test for first bytes that cannot be, which the comment gives as \<^verbatim>\<open>0x11111xxx\<close>, also holds for
  the bytes 0xF1 and 0xF3, which can.
\<close>

text \<open>
  Characters of the planes from 4 to 7 and from 12 to 15 are not decoded: their first bytes are taken for
  wrong ones and the decoder returns an error.
\<close>

theorem utf8_planes_rejected:
  assumes "u div 0x40000 = 1 \<or> u div 0x40000 = 3"
  shows "rutl_utf8_to_unicode (Some (g\<lparr>pcSeq := utf8_encode u @ s\<rparr>)) = Ret (- 84, Some (g\<lparr>pcSeq := utf8_encode u @ s\<rparr>))"
proof -
  have u: "\<not> u < 0x10000" using assms by auto
  define b :: byte where "b = word_of_int (0xF0 + u div 0x40000)"
  obtain cs where e: "utf8_encode u = b # cs" using u by (simp add: utf8_encode_def b_def)
  have "uint b = 0xF0 + u div 0x40000" unfolding b_def by (rule uint_of_byte) (use assms in auto)
  then have "uint b \<in> {0xF1, 0xF3}" using assms by auto
  then show ?thesis by (auto simp: e rutl_utf8_to_unicode_def EILSEQ_def)
qed

theorem utf8_planes_rejected_witness:
  "rutl_utf8_to_unicode (Some \<lparr>pcSeq = utf8_encode 0x40000 @ [0], iUnicode = 0, iHash = 0, iLength = 0, pcNextSeq = []\<rparr>) =
     Ret (- 84, Some \<lparr>pcSeq = utf8_encode 0x40000 @ [0], iUnicode = 0, iHash = 0, iLength = 0, pcNextSeq = []\<rparr>)"
  using utf8_planes_rejected [where u = "0x40000" and s = "[0]" and g = "\<lparr>pcSeq = [], iUnicode = 0, iHash = 0, iLength = 0, pcNextSeq = []\<rparr>"] by simp

text \<open>The loop stops at the end of the string.\<close>

lemma utf8_follow_safe:
  "0 \<in> set s \<Longrightarrow> \<exists>f. utf8_follow lead zmask r i h s = Ret f \<and>
     (\<forall>m r i h s'. f = Some (m, r, i, h, s') \<longrightarrow> 0 \<in> set s')"
proof (induction s arbitrary: zmask r i h)
  case (Cons b s)
  show ?case
  proof (cases "zmask AND lead = zmask \<and> follow_on b")
    case True
    then have "0 \<in> set s" using Cons.prems by auto
    from Cons.IH [OF this] show ?thesis using True by simp
  qed (use Cons.prems in auto)
qed simp

text \<open>C37.
  Whatever bytes a string has, decoding its first character reads nothing behind its NUL; and unless
  the string is at its end, the place where the next character starts is still before the NUL.
\<close>

theorem utf8_decode_stays_inside:
  assumes "pcSeq si = b # s" "0 \<in> set (b # s)"
  shows "\<exists>e si'. rutl_utf8_to_unicode (Some si) = Ret (e, Some si') \<and> (e = 0 \<and> b \<noteq> 0 \<longrightarrow> 0 \<in> set (pcNextSeq si'))"
proof (cases "uint b AND push_bit 7 1 = 0 \<or> uint b AND push_bit 6 3 = push_bit 6 2 \<or> uint b AND 0xf1 = 0xf1")
  case True
  then show ?thesis using assms by (auto simp: rutl_utf8_to_unicode_def Let_def EILSEQ_def)
next
  case False
  then have "0 \<in> set s" using assms(2) by auto
  from utf8_follow_safe [OF this, of "uint b" "push_bit 6 1" 0 1 "uint b"]
  obtain f where f: "utf8_follow (uint b) (push_bit 6 1) 0 1 (uint b) s = Ret f"
    "\<And>m r i h s'. f = Some (m, r, i, h, s') \<Longrightarrow> 0 \<in> set s'" by blast
  have "rutl_utf8_to_unicode (Some si) = Ret (utf8_result si (uint b) f)"
    using False assms(1) f(1) by (simp add: rutl_utf8_to_unicode_def Let_def)
  moreover have "\<exists>e si'. utf8_result si (uint b) f = (e, Some si') \<and> (e = 0 \<longrightarrow> 0 \<in> set (pcNextSeq si'))"
    using f(2) by (cases f) (auto simp: utf8_result_def EILSEQ_def Let_def)
  ultimately show ?thesis by auto
qed

theorem utf8_decode_stays_inside_witness:
  "\<exists>e si'. rutl_utf8_to_unicode (Some \<lparr>pcSeq = [0xE2, 0x82, 0], iUnicode = 0, iHash = 0, iLength = 0, pcNextSeq = []\<rparr>) = Ret (e, Some si')"
  using utf8_decode_stays_inside [of "\<lparr>pcSeq = [0xE2, 0x82, 0], iUnicode = 0, iHash = 0, iLength = 0, pcNextSeq = []\<rparr>" "0xE2" "[0x82, 0]"]
  by fastforce

text \<open>
  The number of characters of a text in UTF-8 is the number of its code points.
\<close>

theorem utf8_characters_counted:
  assumes "list_all (\<lambda>u. 0 < u \<and> u < 0x110000) us"
  shows "rutl_count_utf8_chars (concat (map utf8_encode us) @ [0]) = Ret (int (length us))"
  using count_utf8_chars [of "map utf8_encode us" 0] assms
  by (simp add: rutl_count_utf8_chars_def list_all_iff one_char_encode)

theorem utf8_characters_counted_witness:
  "rutl_count_utf8_chars [0x41, 0xE2, 0x82, 0xAC, 0xC3, 0xBC, 0] = Ret 3"
proof -
  have e: "concat (map utf8_encode [0x41, 0x20AC, 0xFC]) = [0x41, 0xE2, 0x82, 0xAC, 0xC3, 0xBC]" by code_simp
  show ?thesis using utf8_characters_counted [of "[0x41, 0x20AC, 0xFC]", unfolded e] by simp
qed

end
