(* ===== verification/Rutl_Table.thy ===== *)
theory Rutl_Table
  imports Rutl_Utf8
begin

text \<open>
  The hash table of \<^verbatim>\<open>reciva_util.c\<close> as a map from characters to the codes of a display: an interface
  for such tables, what can be said of everything that implements it, and that the hash table does.
\<close>

section \<open>Hashes\<close>

text \<open>The hash of a character does not overflow.\<close>

lemma hash_step_bound:
  assumes "0 \<le> h" "h < 2 ^ 25"
  shows "0 \<le> hash_step h b \<and> hash_step h b \<le> 31 * h + 255"
proof -
  have "i32 (31 * h + x) = 31 * h + x" if "0 \<le> x" "x < 256" for x using assms that by simp
  from this [OF uint_byte] have "hash_step h b = 31 * h + uint b"
    using assms by (simp add: hash_step_def push_bit_eq_mult)
  then show ?thesis using assms uint_byte [of b] by simp
qed

lemma char_hash_bound:
  assumes "bs \<noteq> []" "length bs \<le> 4"
  shows "0 \<le> char_hash bs"
proof -
  have "0 \<le> foldl hash_step h cs" if "length cs \<le> n" "n \<le> 3" "0 \<le> h" "h < 2 ^ (25 - 5 * n)" for h n cs
    using that
  proof (induction cs arbitrary: h n)
    case (Cons c cs)
    then obtain m where m: "n = Suc m" by (cases n) auto
    have "h < 2 ^ 25" using Cons.prems(4) power_increasing [of "25 - 5 * n" 25 "2 :: int"] by simp
    moreover have "31 * h + 255 < 2 ^ (25 - 5 * m)"
      using Cons.prems(2,4) by (auto simp: m numeral_3_eq_3 le_Suc_eq)
    ultimately have "0 \<le> hash_step h c" "hash_step h c < 2 ^ (25 - 5 * m)"
      using hash_step_bound [of h c] Cons.prems(3) by auto
    then show ?case using Cons.IH [of m "hash_step h c"] Cons.prems m by simp
  qed simp
  from this [of "tl bs" 3 "uint (hd bs)"] show ?thesis
    using assms uint_byte [of "hd bs"] by (simp add: char_hash_def)
qed

section \<open>No character is the beginning of another one\<close>

lemma utf8_prefix_free:
  assumes "valid_char u" "valid_char v" "utf8_encode v = utf8_encode u @ s"
  shows "u = v"
proof -
  have "decoded g v (utf8_encode v) [0] = decoded g u (utf8_encode u) (s @ [0])" for g
    using decode_encode [of v "[0]" g] decode_encode [of u "s @ [0]" g] assms by (auto simp: valid_char_def)
  from arg_cong [OF this, of iUnicode] show ?thesis by (simp add: decoded_def)
qed

lemma encode_no_nul:
  assumes "valid_char u"
  shows "0 \<notin> set (utf8_encode u)"
proof -
  have "one_char (utf8_encode u)" using assms by (simp add: valid_char_def one_char_encode)
  then show ?thesis by (cases "utf8_encode u") (auto simp: one_char_def list_all_iff)
qed

text \<open>What \<open>strncmp\<close> says of a character and a string without a NUL in it, over the length of the character.\<close>

lemma strncmp_prefix:
  "0 \<notin> set c \<Longrightarrow> 0 \<notin> set k \<Longrightarrow> strncmp_eq (length c) (c @ s) (k @ [0]) = Ret (\<exists>t. k = c @ t)"
proof (induction c arbitrary: k)
  case (Cons a c)
  then show ?case by (cases k) auto
qed simp

lemma strncmp_chars:
  assumes "valid_char u" "valid_char v"
  shows "strncmp_eq (length (utf8_encode u)) (utf8_encode u @ s) (zstr (utf8_encode v)) = Ret (u = v)"
proof -
  have "(\<exists>t. utf8_encode v = utf8_encode u @ t) = (u = v)"
    using utf8_prefix_free [OF assms] by auto
  then show ?thesis using strncmp_prefix [of "utf8_encode u" "utf8_encode v" s] assms by (simp add: zstr_def encode_no_nul)
qed

section \<open>Tables of characters\<close>

locale char_table =
  fixes ok :: "'t \<Rightarrow> bool"
    and ins :: "byte list \<Rightarrow> byte \<Rightarrow> 't \<Rightarrow> 't res"
    and find :: "int \<Rightarrow> 't \<Rightarrow> byte option"
  assumes ins: "ok t \<Longrightarrow> valid_char u \<Longrightarrow>
    \<exists>t'. ins (zstr (utf8_encode u)) v t = Ret t' \<and> ok t' \<and>
      (\<forall>w. valid_char w \<longrightarrow> find w t' = (if w = u then Some v else find w t))"
begin

text \<open>A table filled from a list has the last entry of each character.\<close>

lemma ins_all:
  assumes "ok t" "list_all (\<lambda>(u, v). valid_char u) m"
  shows "\<exists>t'. steps (map (\<lambda>(u, v). ins (zstr (utf8_encode u)) v) m) t = Ret t' \<and> ok t' \<and>
    (\<forall>w. valid_char w \<longrightarrow> find w t' = (case map_of (rev m) w of Some v \<Rightarrow> Some v | None \<Rightarrow> find w t))"
  using assms
proof (induction m arbitrary: t)
  case (Cons e m)
  obtain u v where e: "e = (u, v)" by fastforce
  obtain t1 where t1: "ins (zstr (utf8_encode u)) v t = Ret t1" "ok t1"
    "\<And>w. valid_char w \<Longrightarrow> find w t1 = (if w = u then Some v else find w t)"
    using ins [OF Cons.prems(1), of u v] Cons.prems(2) e by auto
  obtain t2 where t2: "steps (map (\<lambda>(u, v). ins (zstr (utf8_encode u)) v) m) t1 = Ret t2" "ok t2"
    "\<And>w. valid_char w \<Longrightarrow> find w t2 = (case map_of (rev m) w of Some v \<Rightarrow> Some v | None \<Rightarrow> find w t1)"
    using Cons.IH [OF t1(2)] Cons.prems(2) by auto
  show ?case
    using t1 t2 e by (auto simp: map_add_def split: option.splits)
qed simp

end

section \<open>The hash table is one\<close>

text \<open>Where the table keeps a character.\<close>

definition ht_bucket :: "int \<Rightarrow> rutl_hashtable \<Rightarrow> nat" where
  "ht_bucket u t = nat (char_hash (utf8_encode u) mod ht_size t)"

definition char_key :: "byte list \<Rightarrow> bool" where
  "char_key key \<longleftrightarrow> (\<exists>u. valid_char u \<and> key = zstr (utf8_encode u))"

definition ht_ok :: "rutl_hashtable \<Rightarrow> bool" where
  "ht_ok t \<longleftrightarrow> 0 < ht_size t \<and> length (ht_elements t) = nat (ht_size t) \<and>
     (\<forall>es \<in> set (ht_elements t). \<forall>e \<in> set es. char_key (fst e))"

definition ht_find :: "int \<Rightarrow> rutl_hashtable \<Rightarrow> byte option" where
  "ht_find u t = map_of (ht_elements t ! ht_bucket u t) (zstr (utf8_encode u))"

lemma valid_char_one_char: "valid_char u \<Longrightarrow> one_char (utf8_encode u)"
  by (simp add: valid_char_def one_char_encode)

lemma valid_char_hash: "valid_char u \<Longrightarrow> 0 \<le> char_hash (utf8_encode u)"
  using valid_char_one_char [of u] by (auto simp: one_char_def intro: char_hash_bound)

lemma ht_bucket_less: "0 < ht_size t \<Longrightarrow> ht_bucket u t < nat (ht_size t)"
  by (simp add: ht_bucket_def)

lemma smod_int_eq: "0 \<le> (h :: int) \<Longrightarrow> 0 < n \<Longrightarrow> h smod n = h mod n"
  by (cases "h = 0") (simp_all add: signed_modulo_int_def)

lemma bucket_of_char:
  "valid_char u \<Longrightarrow> 0 < ht_size t \<Longrightarrow> bucket_of (char_hash (utf8_encode u)) (ht_size t) = Ret (int (ht_bucket u t))"
  using valid_char_hash [of u] by (simp add: bucket_of_def ht_bucket_def smod_int_eq)

lemma encode_inj: "valid_char u \<Longrightarrow> valid_char v \<Longrightarrow> (zstr (utf8_encode u) = zstr (utf8_encode v)) = (u = v)"
  using utf8_prefix_free [of u v "[]"] by (auto simp: zstr_def)

lemma put_char:
  assumes "ht_ok t" "valid_char u"
  shows "rutl_hashtable_put True (zstr (utf8_encode u)) v t =
    Ret (t\<lparr>ht_elements := (ht_elements t)[ht_bucket u t := (zstr (utf8_encode u), v) # ht_elements t ! ht_bucket u t]\<rparr>)"
proof -
  have "rutl_utf8_hash (zstr (utf8_encode u)) = Ret (char_hash (utf8_encode u))"
    using hash_one_char [OF valid_char_one_char [OF assms(2)], of 0 "[]"] by (simp add: zstr_def)
  then show ?thesis
    using assms bucket_of_char [OF assms(2), of t] ht_bucket_less [of t u]
    by (simp add: rutl_hashtable_put_def ht_ok_def rd_def wr_def)
qed

interpretation rutl: char_table ht_ok "rutl_hashtable_put True" ht_find
proof unfold_locales
  fix t u v
  assume t: "ht_ok t" and u: "valid_char u"
  let ?t = "t\<lparr>ht_elements := (ht_elements t)[ht_bucket u t := (zstr (utf8_encode u), v) # ht_elements t ! ht_bucket u t]\<rparr>"
  have b: "ht_bucket w t < length (ht_elements t)" for w
    using t ht_bucket_less [of t w] by (simp add: ht_ok_def)
  have "char_key (zstr (utf8_encode u))" "\<forall>e \<in> set (ht_elements t ! ht_bucket u t). char_key (fst e)"
    using u t b [of u] nth_mem unfolding ht_ok_def char_key_def by blast+
  then have "ht_ok ?t"
    using t unfolding ht_ok_def by (auto dest!: set_update_subset_insert [THEN subsetD])
  moreover have "ht_find w ?t = (if w = u then Some v else ht_find w t)" if "valid_char w" for w
    using b [of u] encode_inj [OF that u] by (auto simp: ht_find_def ht_bucket_def nth_list_update)
  ultimately show "\<exists>t'. rutl_hashtable_put True (zstr (utf8_encode u)) v t = Ret t' \<and> ht_ok t' \<and>
      (\<forall>w. valid_char w \<longrightarrow> ht_find w t' = (if w = u then Some v else ht_find w t))"
    using put_char [OF t u] by auto
qed

lemma new_table:
  assumes "0 < n"
  shows "\<exists>t. rutl_new_hashtable True True n = Some t \<and> ht_ok t \<and> ht_find u t = None"
proof -
  have "nat (char_hash (utf8_encode u) mod n) < nat n" using assms by simp
  then show ?thesis using assms by (simp add: rutl_new_hashtable_def ht_ok_def ht_find_def ht_bucket_def)
qed

section \<open>Looking characters up\<close>

definition code_or_max :: "byte option \<Rightarrow> int" where
  "code_or_max c = (case c of None \<Rightarrow> INT_MAX | Some v \<Rightarrow> uint v)"

lemma search_bucket_char:
  assumes "\<forall>e \<in> set es. char_key (fst e)" "valid_char u"
  shows "search_bucket es (length (utf8_encode u)) (utf8_encode u @ s) = Ret (code_or_max (map_of es (zstr (utf8_encode u))))"
  using assms(1)
proof (induction es)
  case Nil
  then show ?case by (simp add: code_or_max_def)
next
  case (Cons e es)
  obtain w v where e: "e = (zstr (utf8_encode w), v)" "valid_char w"
    using Cons.prems by (cases e) (auto simp: char_key_def)
  show ?case
    using Cons e strncmp_chars [OF assms(2) e(2), of s] encode_inj [OF assms(2) e(2)]
    by (auto simp: code_or_max_def)
qed

lemma search_char:
  assumes "ht_ok t" "valid_char u" "pcSeq si = utf8_encode u @ s" "iLength si = int (length (utf8_encode u))"
    "iHash si = char_hash (utf8_encode u)"
  shows "rutl_hashtable_search t si = Ret (code_or_max (ht_find u t))"
proof -
  have b: "ht_bucket u t < length (ht_elements t)"
    using assms(1) ht_bucket_less [of t u] by (simp add: ht_ok_def)
  then have k: "\<forall>e \<in> set (ht_elements t ! ht_bucket u t). char_key (fst e)"
    using assms(1) nth_mem unfolding ht_ok_def by blast
  show ?thesis
    using assms b bucket_of_char [OF assms(2), of t] search_bucket_char [OF k assms(2), of s]
    by (simp add: rutl_hashtable_search_def ht_ok_def rd_def ht_find_def)
qed

lemma get_char:
  assumes "ht_ok t" "valid_char u" "\<not> follow_on r"
  shows "rutl_hashtable_get g t (utf8_encode u @ r # s) = Ret (code_or_max (ht_find u t))"
proof -
  note o = valid_char_one_char [OF assms(2)]
  show ?thesis
    using search_char [OF assms(1,2)] find_next_one_char [OF o assms(3)] hash_one_char [OF o assms(3)]
    by (simp add: rutl_hashtable_get_def)
qed

text \<open>C11.
  The hash table is a map from characters to bytes: a table of any positive number of buckets, filled
  from a list, gives for each character the last entry the list has for it, and \<open>INT_MAX\<close> when it has
  none; the search with a decoded character and the look-up of a string that begins with it agree.
\<close>

theorem hashtable_is_a_map:
  assumes "0 < n" "list_all (\<lambda>(u, v). valid_char u) m" "valid_char w" "\<not> follow_on r"
  shows "\<exists>t0 t si. rutl_new_hashtable True True n = Some t0 \<and>
    steps (map (\<lambda>(u, v). rutl_hashtable_put True (zstr (utf8_encode u)) v) m) t0 = Ret t \<and>
    rutl_hashtable_get g t (utf8_encode w @ r # s) = Ret (case map_of (rev m) w of None \<Rightarrow> INT_MAX | Some v \<Rightarrow> uint v) \<and>
    rutl_utf8_to_unicode (Some (g\<lparr>pcSeq := utf8_encode w @ r # s\<rparr>)) = Ret (0, Some si) \<and>
    rutl_hashtable_search t si = rutl_hashtable_get g t (utf8_encode w @ r # s)"
proof -
  obtain t0 where t0: "rutl_new_hashtable True True n = Some t0" "ht_ok t0" "ht_find w t0 = None"
    using new_table [OF assms(1)] by blast
  obtain t where t: "steps (map (\<lambda>(u, v). rutl_hashtable_put True (zstr (utf8_encode u)) v) m) t0 = Ret t" "ht_ok t"
    "ht_find w t = (case map_of (rev m) w of Some v \<Rightarrow> Some v | None \<Rightarrow> ht_find w t0)"
    using rutl.ins_all [OF t0(2) assms(2)] assms(3) by blast
  define si where "si = decoded g w (utf8_encode w) (r # s)"
  have "rutl_utf8_to_unicode (Some (g\<lparr>pcSeq := utf8_encode w @ r # s\<rparr>)) = Ret (0, Some si)"
    using decode_encode [of w "r # s" g] assms(3) by (simp add: valid_char_def si_def)
  moreover have "rutl_hashtable_search t si = Ret (code_or_max (ht_find w t))"
    by (rule search_char [OF t(2) assms(3)]) (simp_all add: si_def decoded_def)
  ultimately show ?thesis
    using t0 t get_char [OF t(2) assms(3,4), of g s] by (auto simp: code_or_max_def split: option.splits)
qed

theorem hashtable_is_a_map_witness:
  "\<exists>t0 t. rutl_new_hashtable True True 3 = Some t0 \<and>
     steps (map (\<lambda>(u, v). rutl_hashtable_put True (zstr (utf8_encode u)) v) [(0xFC, 0x75), (0x20AC, 0x45), (0xFC, 0x55)]) t0 = Ret t \<and>
     rutl_hashtable_get \<lparr>pcSeq = [], iUnicode = 0, iHash = 0, iLength = 0, pcNextSeq = []\<rparr> t [0xC3, 0xBC, 0x41, 0] = Ret 0x55"
proof -
  have e: "utf8_encode 0xFC = [0xC3, 0xBC]" by code_simp
  have v: "list_all (\<lambda>(u, v). valid_char u) [(0xFC, 0x75 :: byte), (0x20AC, 0x45), (0xFC, 0x55)]" "valid_char 0xFC" "\<not> follow_on 0x41"
    by code_simp+
  from hashtable_is_a_map [OF _ v, of 3 "\<lparr>pcSeq = [], iUnicode = 0, iHash = 0, iLength = 0, pcNextSeq = []\<rparr>" "[0]"]
  show ?thesis unfolding e by fastforce
qed

end
