(* ===== verification/Lcd_Generic.thy ===== *)
theory Lcd_Generic
  imports Rutl_Table
begin

text \<open>
  What the display drivers of the radio's kernel share, \<^verbatim>\<open>lcd_generic.c\<close>: the table of characters, the
  screen that is kept to be drawn again, the dimming of the backlight and the bars that show progress.
\<close>

section \<open>Characters of the display\<close>

text \<open>A table of characters is a list of strings and their codes, as the array up to its null pointer.\<close>

type_synonym charmap = "(byte list \<times> byte) list"

definition charmap_length :: int where "charmap_length = 50"

text \<open>
  The loop of \<open>reciva_lcd_init\<close> that fills the table; \<open>ok i\<close> is whether there is memory for entry \<open>i\<close>.
\<close>

definition fill_charmap :: "(nat \<Rightarrow> bool) \<Rightarrow> charmap \<Rightarrow> rutl_hashtable \<Rightarrow> rutl_hashtable res" where
  "fill_charmap ok m t = steps (map (\<lambda>(i, (key, v)). rutl_hashtable_put (ok i) key v) (enumerate 0 m)) t"

text \<open>What is shown for a character the table does not have.\<close>

definition unknown_char :: "byte list \<Rightarrow> byte res" where
  "unknown_char s = (case s of [] \<Rightarrow> Fault | b # _ \<Rightarrow> Ret (if uint b AND push_bit 7 1 \<noteq> 0 then 0x20 else b))"

definition reciva_lcd_utf8_lookup :: "rutl_utf8_seq_info \<Rightarrow> rutl_hashtable \<Rightarrow> byte list \<Rightarrow> byte res" where
  "reciva_lcd_utf8_lookup g t s =
     res_bind (rutl_hashtable_get g t s) (\<lambda>c. if c = INT_MAX then unknown_char s else Ret (word_of_int c))"

definition reciva_lcd_unicode_lookup :: "rutl_hashtable \<Rightarrow> rutl_utf8_seq_info \<Rightarrow> byte res" where
  "reciva_lcd_unicode_lookup t si =
     res_bind (rutl_hashtable_search t si) (\<lambda>c. if c = INT_MAX then unknown_char (pcSeq si) else Ret (word_of_int c))"

text \<open>The search through the array that the hash table replaced, and is measured against.\<close>

fun oldstyle_utf8_lookup :: "charmap \<Rightarrow> byte list \<Rightarrow> byte res" where
  "oldstyle_utf8_lookup [] s = unknown_char s"
| "oldstyle_utf8_lookup ((key, v) # m) s =
     res_bind (strlen key) (\<lambda>n.
     res_bind (strncmp_eq (nat n) s key) (\<lambda>eq. if eq then Ret v else oldstyle_utf8_lookup m s))"

section \<open>The two look-ups agree\<close>

definition utf8_charmap :: "(int \<times> byte) list \<Rightarrow> charmap" where
  "utf8_charmap m = map (\<lambda>(u, v). (zstr (utf8_encode u), v)) m"

lemma fill_utf8_charmap:
  "fill_charmap (\<lambda>_. True) (utf8_charmap m) t =
     steps (map (\<lambda>(u, v). rutl_hashtable_put True (zstr (utf8_encode u)) v) m) t"
proof -
  have "map (\<lambda>(i, (key, v)). rutl_hashtable_put True key v) (enumerate 0 xs) =
      map (\<lambda>(key, v). rutl_hashtable_put True key v) (map snd (enumerate 0 xs))" for xs
    by (simp add: case_prod_beta' del: map_snd_enumerate)
  then show ?thesis by (simp add: fill_charmap_def utf8_charmap_def case_prod_beta' comp_def)
qed

text \<open>Comparing a text with a key, over the length of the key.\<close>

lemma strncmp_key:
  "0 \<notin> set k \<Longrightarrow> 0 \<in> set s \<Longrightarrow> strncmp_eq (length k) s (k @ x) = Ret (\<exists>t. s = k @ t)"
proof (induction k arbitrary: s)
  case (Cons b k)
  then show ?case by (cases s) auto
qed simp

lemma text_begins_with:
  assumes "valid_char u" "valid_char v"
  shows "(\<exists>t. utf8_encode u @ s = utf8_encode v @ t) = (u = v)"
proof
  assume "\<exists>t. utf8_encode u @ s = utf8_encode v @ t"
  then have "\<exists>x. utf8_encode u = utf8_encode v @ x \<or> utf8_encode v = utf8_encode u @ x"
    by (metis append_eq_append_conv2)
  then show "u = v" using utf8_prefix_free assms by metis
qed auto

lemma strlen_key: "valid_char u \<Longrightarrow> strlen (zstr (utf8_encode u)) = Ret (int (length (utf8_encode u)))"
proof -
  assume "valid_char u"
  then have "takeWhile (\<lambda>c. c \<noteq> 0) (utf8_encode u @ [0]) = utf8_encode u"
    using encode_no_nul by (subst takeWhile_append2) auto
  then show ?thesis by (simp add: strlen_def zstr_def cstr_def)
qed

lemma oldstyle_char:
  assumes "list_all (\<lambda>(u, v). valid_char u) m" "valid_char w" "0 \<in> set s"
  shows "oldstyle_utf8_lookup (utf8_charmap m) (utf8_encode w @ s) =
    (case map_of m w of None \<Rightarrow> unknown_char (utf8_encode w @ s) | Some v \<Rightarrow> Ret v)"
  using assms(1)
proof (induction m)
  case Nil
  then show ?case by (simp add: utf8_charmap_def)
next
  case (Cons e m)
  obtain u v where e: "e = (u, v)" "valid_char u" using Cons.prems by (cases e) auto
  have "strncmp_eq (length (utf8_encode u)) (utf8_encode w @ s) (zstr (utf8_encode u)) = Ret (w = u)"
    using strncmp_key [of "utf8_encode u" "utf8_encode w @ s" "[0]"] encode_no_nul [OF e(2)]
      text_begins_with [OF assms(2) e(2), of s] assms(3) by (simp add: zstr_def)
  then show ?case
    using Cons e strlen_key [OF e(2)] by (simp add: utf8_charmap_def)
qed

lemma uint_not_max: "uint (v :: byte) \<noteq> INT_MAX"
  using uint_byte [of v] by (simp add: INT_MAX_def)

text \<open>The first byte of an encoding tells whether the character is ASCII.\<close>

lemma encode_first:
  assumes "valid_char w"
  shows "\<exists>b cs. utf8_encode w = b # cs \<and> (if w < 0x80 then b = word_of_int w \<and> uint b < 0x80 else 0x80 \<le> uint b)"
proof -
  have w: "0 < w" "w < 0x110000" using assms by (simp_all add: valid_char_def)
  have u: "uint (word_of_int x :: byte) = x" if "0 \<le> x" "x < 256" for x using that by (rule uint_of_byte)
  show ?thesis
  proof (cases "w < 0x80")
    case True
    then show ?thesis using u [of w] w by (simp add: utf8_encode_def)
  next
    case False
    then obtain x cs where "utf8_encode w = word_of_int x # cs" "0x80 \<le> x" "x < 256"
    proof (cases "w < 0x800")
      case True
      then show thesis using that [of "0xC0 + w div 64"] False by (auto simp: utf8_encode_def)
    next
      case c: False
      show thesis
        using that [of "0xE0 + w div 4096"] that [of "0xF0 + w div 0x40000"] False c w
        by (cases "w < 0x10000") (auto simp: utf8_encode_def)
    qed
    then show ?thesis using False u [of x] by simp
  qed
qed

lemma unknown_encoded:
  assumes "valid_char w"
  shows "unknown_char (utf8_encode w @ s) = Ret (if w < 0x80 then word_of_int w else 0x20)"
proof -
  obtain b cs where b: "utf8_encode w = b # cs" "if w < 0x80 then b = word_of_int w \<and> uint b < 0x80 else 0x80 \<le> uint b"
    using encode_first [OF assms] by blast
  then show ?thesis
    using byte_bits(2) [OF uint_byte, of b] by (auto simp: unknown_char_def)
qed

text \<open>C12.
  The hash table, for which there was memory, and the search through the array it replaced are equivalent: for every table of
  characters in UTF-8 that names none twice, and every text that begins with a character, both give the
  same byte, the one of the table, or a blank for a character that is not in it, or the character itself
  when it is ASCII.
\<close>

theorem lookups_equivalent:
  assumes "list_all (\<lambda>(u, v). valid_char u) m" "distinct (map fst m)" "valid_char w" "\<not> follow_on r" "0 \<in> set (r # s)"
  shows "\<exists>t0 t. rutl_new_hashtable True True charmap_length = Some t0 \<and>
    fill_charmap (\<lambda>_. True) (utf8_charmap m) t0 = Ret t \<and>
    reciva_lcd_utf8_lookup g t (utf8_encode w @ r # s) = oldstyle_utf8_lookup (utf8_charmap m) (utf8_encode w @ r # s) \<and>
    oldstyle_utf8_lookup (utf8_charmap m) (utf8_encode w @ r # s) =
      Ret (case map_of m w of Some v \<Rightarrow> v | None \<Rightarrow> if w < 0x80 then word_of_int w else 0x20)"
proof -
  obtain t0 where t0: "rutl_new_hashtable True True charmap_length = Some t0" "ht_ok t0" "ht_find w t0 = None"
    using new_table [of charmap_length] by (auto simp: charmap_length_def)
  obtain t where t: "fill_charmap (\<lambda>_. True) (utf8_charmap m) t0 = Ret t" "ht_ok t"
    "ht_find w t = (case map_of (rev m) w of Some v \<Rightarrow> Some v | None \<Rightarrow> ht_find w t0)"
    unfolding fill_utf8_charmap using rutl.ins_all [OF t0(2) assms(1)] assms(3) by blast
  have "map_of (rev m) = map_of m"
    using assms(2) map_of_inject_set [of "rev m" m] by (simp add: rev_map [symmetric])
  then have f: "ht_find w t = map_of m w" using t(3) t0(3) by (simp split: option.splits)
  have o: "oldstyle_utf8_lookup (utf8_charmap m) (utf8_encode w @ r # s) =
      (case map_of m w of None \<Rightarrow> unknown_char (utf8_encode w @ r # s) | Some v \<Rightarrow> Ret v)"
    by (rule oldstyle_char [OF assms(1,3,5)])
  moreover have "reciva_lcd_utf8_lookup g t (utf8_encode w @ r # s) =
      (case map_of m w of None \<Rightarrow> unknown_char (utf8_encode w @ r # s) | Some v \<Rightarrow> Ret v)"
    using get_char [OF t(2) assms(3,4), of g s] f
    by (auto simp: reciva_lcd_utf8_lookup_def code_or_max_def uint_not_max split: option.splits)
  moreover have "unknown_char (utf8_encode w @ r # s) = Ret (if w < 0x80 then word_of_int w else 0x20)"
    by (rule unknown_encoded [OF assms(3)])
  ultimately show ?thesis
    using t0(1) t(1) by (auto split: option.splits)
qed

theorem lookups_equivalent_witness:
  "\<exists>t0 t. rutl_new_hashtable True True charmap_length = Some t0 \<and>
     fill_charmap (\<lambda>_. True) (utf8_charmap [(0xFC, 0x75), (0x20AC, 0x45)]) t0 = Ret t \<and>
     reciva_lcd_utf8_lookup \<lparr>pcSeq = [], iUnicode = 0, iHash = 0, iLength = 0, pcNextSeq = []\<rparr> t (utf8_encode 0x20AC @ 0x41 # [0]) = Ret 0x45"
proof -
  have m: "list_all (\<lambda>(u, v). valid_char u) [(0xFC, 0x75 :: byte), (0x20AC, 0x45)]" "distinct (map fst [(0xFC, 0x75 :: byte), (0x20AC :: int, 0x45)])"
    "valid_char 0x20AC" "\<not> follow_on 0x41" "0 \<in> set (0x41 # [0 :: byte])"
    by code_simp+
  from lookups_equivalent [OF m, of "\<lparr>pcSeq = [], iUnicode = 0, iHash = 0, iLength = 0, pcNextSeq = []\<rparr>"]
  show ?thesis by auto
qed

section \<open>The characters of simple displays\<close>

text \<open>The table \<^verbatim>\<open>lcd_simple_charmap.c\<close>, which drivers of displays that only know ASCII include.\<close>

definition lcd_simple_charmap :: charmap where
  "lcd_simple_charmap =
     map (\<lambda>(k, c). (zstr k, c))
      [([0xEE, 0x80, 0x80], 0x45), ([0xEE, 0x80, 0x81], 0x4E), ([0xEE, 0x80, 0x82], 0x44), ([0xEE, 0x80, 0x8A], 0x70),
       ([0xEE, 0x80, 0x8B], 0x65), ([0xEE, 0x80, 0x8C], 0x66), ([0xEE, 0x80, 0x8D], 0x72), ([0xEE, 0x80, 0x8E], 0x73),
       ([0xEE, 0x80, 0x8F], 0x50), ([0xC2, 0xA1], 0x20), ([0xC2, 0xA2], 0x63), ([0xC2, 0xA3], 0x4C),
       ([0xC2, 0xA5], 0x59), ([0xC2, 0xAA], 0x61), ([0xC2, 0xAB], 0x3C), ([0xC3, 0x7A], 0x6F),
       ([0xC3, 0x7B], 0x3E), ([0xC3, 0x7F], 0x20), ([0xC3, 0x84], 0x41), ([0xC3, 0x85], 0x41),
       ([0xC3, 0x86], 0x45), ([0xC3, 0x87], 0x43), ([0xC3, 0x89], 0x45), ([0xC3, 0x91], 0x4E),
       ([0xC3, 0x96], 0x4F), ([0xC3, 0x9C], 0x55), ([0xC3, 0x9F], 0x42), ([0xC3, 0xA0], 0x61),
       ([0xC3, 0xA1], 0x61), ([0xC3, 0xA2], 0x61), ([0xC3, 0xA3], 0x61), ([0xC3, 0xA4], 0x61),
       ([0xC3, 0xA5], 0x61), ([0xC3, 0xA6], 0x65), ([0xC3, 0xA7], 0x63), ([0xC3, 0xA8], 0x65),
       ([0xC3, 0xA9], 0x65), ([0xC3, 0xAA], 0x65), ([0xC3, 0xAB], 0x65), ([0xC3, 0xAC], 0x69),
       ([0xC3, 0xAD], 0x69), ([0xC3, 0xAE], 0x69), ([0xC3, 0xAF], 0x69), ([0xC3, 0xB1], 0x6E),
       ([0xC3, 0xB2], 0x6F), ([0xC3, 0xB3], 0x6F), ([0xC3, 0xB4], 0x6F), ([0xC3, 0xB5], 0x6F),
       ([0xC3, 0xB6], 0x6F), ([0xC3, 0xB9], 0x75), ([0xC3, 0xBA], 0x75), ([0xC3, 0xBB], 0x75),
       ([0xC3, 0xBC], 0x75), ([0xC3, 0xBF], 0x79)]"

text \<open>The characters the comments beside the entries, and the header, give for them.\<close>

definition simple_charmap_meant :: "(int \<times> byte) list" where
  "simple_charmap_meant =
     [(0xE000, 0x45), (0xE001, 0x4E), (0xE002, 0x44), (0xE00A, 0x70), (0xE00B, 0x65), (0xE00C, 0x66), (0xE00D, 0x72),
      (0xE00E, 0x73), (0xE00F, 0x50), (0xA1, 0x20), (0xA2, 0x63), (0xA3, 0x4C), (0xA5, 0x59), (0xAA, 0x61),
      (0xAB, 0x3C), (0xBA, 0x6F), (0xBB, 0x3E), (0xBF, 0x20), (0xC4, 0x41), (0xC5, 0x41), (0xC6, 0x45),
      (0xC7, 0x43), (0xC9, 0x45), (0xD1, 0x4E), (0xD6, 0x4F), (0xDC, 0x55), (0xDF, 0x42), (0xE0, 0x61),
      (0xE1, 0x61), (0xE2, 0x61), (0xE3, 0x61), (0xE4, 0x61), (0xE5, 0x61), (0xE6, 0x65), (0xE7, 0x63),
      (0xE8, 0x65), (0xE9, 0x65), (0xEA, 0x65), (0xEB, 0x65), (0xEC, 0x69), (0xED, 0x69), (0xEE, 0x69),
      (0xEF, 0x69), (0xF1, 0x6E), (0xF2, 0x6F), (0xF3, 0x6F), (0xF4, 0x6F), (0xF5, 0x6F), (0xF6, 0x6F),
      (0xF9, 0x75), (0xFA, 0x75), (0xFB, 0x75), (0xFC, 0x75), (0xFF, 0x79)]"

definition shown_chars :: "charmap \<Rightarrow> int list \<Rightarrow> byte res list res" where
  "shown_chars m us =
     (case rutl_new_hashtable True True charmap_length of
        None \<Rightarrow> Fault
      | Some t \<Rightarrow>
          res_map (\<lambda>t. map (\<lambda>u. reciva_lcd_utf8_lookup \<lparr>pcSeq = [], iUnicode = 0, iHash = 0, iLength = 0, pcNextSeq = []\<rparr>
              t (zstr (utf8_encode u))) us) (fill_charmap (\<lambda>_. True) m t))"

text \<open>
  The table for simple displays is right but for three characters: every other entry is the encoding
  of the character its comment names, and that character is shown as the table says; the entries of the
  masculine ordinal indicator, the right guillemet and the inverted question mark are not characters in
  UTF-8, and these three are shown as blanks.
\<close>

theorem simple_charmap_shown:
  "shown_chars lcd_simple_charmap (map fst simple_charmap_meant) =
     Ret (map (\<lambda>(u, c). Ret (if u \<in> {0xBA, 0xBB, 0xBF} then 0x20 else c)) simple_charmap_meant) \<and>
   map fst (filter (\<lambda>(m, k). zstr (utf8_encode (fst m)) \<noteq> fst k) (zip simple_charmap_meant lcd_simple_charmap)) =
     [(0xBA, 0x6F), (0xBB, 0x3E), (0xBF, 0x20)]"
  by code_simp

section \<open>The backlight\<close>

definition LCDG_MAX_BACKLIGHT :: int where "LCDG_MAX_BACKLIGHT = 31"
definition EINVAL :: int where "EINVAL = 22"
definition ENOMEM :: int where "ENOMEM = 12"

text \<open>The two levels, whether the timer runs, and the levels the driver was told, the last one first.\<close>

record backlight =
  bl_level_current :: int
  bl_level_desired :: int
  bl_timer :: bool
  bl_told :: "int list"

definition reciva_lcd_set_backlight :: "int \<Rightarrow> backlight \<Rightarrow> int \<times> backlight" where
  "reciva_lcd_set_backlight level b =
     (if level < 0 \<or> level > LCDG_MAX_BACKLIGHT then (- EINVAL, b)
      else (0, b\<lparr>bl_level_desired := level, bl_timer := True\<rparr>))"

definition bl_timer_func :: "backlight \<Rightarrow> backlight" where
  "bl_timer_func b =
     (let c = (if bl_level_desired b > bl_level_current b then bl_level_current b + 1
               else if bl_level_desired b < bl_level_current b then bl_level_current b - 1
               else bl_level_current b)
      in b\<lparr>bl_level_current := c, bl_told := c # bl_told b, bl_timer := (bl_level_desired b \<noteq> c)\<rparr>)"

text \<open>The timer runs out \<open>n\<close> times, while it is on.\<close>

fun bl_ticks :: "nat \<Rightarrow> backlight \<Rightarrow> backlight" where
  "bl_ticks 0 b = b"
| "bl_ticks (Suc n) b = (if bl_timer b then bl_ticks n (bl_timer_func b) else b)"

lemma bl_ticks_off [simp]: "\<not> bl_timer b \<Longrightarrow> bl_ticks n b = b"
  by (cases n) auto

text \<open>The levels on the way.\<close>

definition bl_path :: "int \<Rightarrow> int \<Rightarrow> int list" where
  "bl_path from to = (if from < to then rev [from + 1..to] else if to < from then [to..from - 1] else [to])"

lemma bl_ticks_up:
  "bl_timer b \<Longrightarrow> bl_level_desired b = bl_level_current b + int (Suc n) \<Longrightarrow>
   bl_ticks (Suc n) b = b\<lparr>bl_level_current := bl_level_desired b, bl_timer := False,
     bl_told := rev [bl_level_current b + 1..bl_level_desired b] @ bl_told b\<rparr>"
proof (induction n arbitrary: b)
  case 0
  then show ?case by (simp add: bl_timer_func_def Let_def)
next
  case (Suc n)
  let ?b = "bl_timer_func b"
  have b: "?b = b\<lparr>bl_level_current := bl_level_current b + 1, bl_told := (bl_level_current b + 1) # bl_told b\<rparr>"
    using Suc.prems by (simp add: bl_timer_func_def Let_def)
  have "bl_ticks (Suc (Suc n)) b = bl_ticks (Suc n) ?b" using Suc.prems(1) by simp
  moreover have "[bl_level_current b + 1..bl_level_desired b] = (bl_level_current b + 1) # [2 + bl_level_current b..bl_level_desired b]"
    using Suc.prems(2) by (subst upto_rec1) (simp_all add: add.commute)
  ultimately show ?case
    using Suc.IH [of ?b] Suc.prems by (simp add: b del: bl_ticks.simps)
qed

lemma bl_ticks_down:
  "bl_timer b \<Longrightarrow> bl_level_current b = bl_level_desired b + int (Suc n) \<Longrightarrow>
   bl_ticks (Suc n) b = b\<lparr>bl_level_current := bl_level_desired b, bl_timer := False,
     bl_told := [bl_level_desired b..bl_level_current b - 1] @ bl_told b\<rparr>"
proof (induction n arbitrary: b)
  case 0
  then show ?case by (simp add: bl_timer_func_def Let_def)
next
  case (Suc n)
  let ?b = "bl_timer_func b"
  have b: "?b = b\<lparr>bl_level_current := bl_level_current b - 1, bl_told := (bl_level_current b - 1) # bl_told b\<rparr>"
    using Suc.prems by (simp add: bl_timer_func_def Let_def)
  have "bl_ticks (Suc (Suc n)) b = bl_ticks (Suc n) ?b" using Suc.prems(1) by simp
  moreover have "[bl_level_desired b..bl_level_current b - 1] = [bl_level_desired b..bl_level_current b - 2] @ [bl_level_current b - 1]"
    using Suc.prems(2) by (subst upto_rec2) (simp_all add: algebra_simps)
  ultimately show ?case
    using Suc.IH [of ?b] Suc.prems by (simp add: b del: bl_ticks.simps)
qed

text \<open>C38.
  A change of the backlight comes to its end: asked for a level of the range, the timer takes the level
  there, one step at a time and never past it, and then stops; the driver was told every level in
  between, and nothing else.
\<close>

theorem backlight_reaches_level:
  assumes "0 \<le> level" "level \<le> 31"
  shows "\<exists>b'. reciva_lcd_set_backlight level b = (0, b') \<and>
    bl_ticks (nat (max 1 \<bar>level - bl_level_current b\<bar>)) b' =
      b\<lparr>bl_level_current := level, bl_level_desired := level, bl_timer := False,
        bl_told := bl_path (bl_level_current b) level @ bl_told b\<rparr>"
proof -
  let ?b = "b\<lparr>bl_level_desired := level, bl_timer := True\<rparr>"
  have "bl_ticks (nat (max 1 \<bar>level - bl_level_current b\<bar>)) ?b =
      b\<lparr>bl_level_current := level, bl_level_desired := level, bl_timer := False,
        bl_told := bl_path (bl_level_current b) level @ bl_told b\<rparr>"
  proof (cases level "bl_level_current b" rule: linorder_cases)
    case equal
    then show ?thesis by (simp add: bl_timer_func_def bl_path_def Let_def)
  next
    case less
    then have n: "nat (max 1 \<bar>level - bl_level_current b\<bar>) = Suc (nat (bl_level_current b - level - 1))" by simp
    show ?thesis unfolding n by (subst bl_ticks_down) (use less in \<open>simp_all add: bl_path_def\<close>)
  next
    case greater
    then have n: "nat (max 1 \<bar>level - bl_level_current b\<bar>) = Suc (nat (level - bl_level_current b - 1))" by simp
    show ?thesis unfolding n by (subst bl_ticks_up) (use greater in \<open>simp_all add: bl_path_def\<close>)
  qed
  then show ?thesis using assms by (simp add: reciva_lcd_set_backlight_def LCDG_MAX_BACKLIGHT_def)
qed

theorem backlight_reaches_level_witness:
  "\<exists>b'. reciva_lcd_set_backlight 3 \<lparr>bl_level_current = 5, bl_level_desired = 31, bl_timer = True, bl_told = []\<rparr> = (0, b') \<and>
     bl_ticks 2 b' = \<lparr>bl_level_current = 3, bl_level_desired = 3, bl_timer = False, bl_told = [3, 4]\<rparr>"
  using backlight_reaches_level [of 3 "\<lparr>bl_level_current = 5, bl_level_desired = 31, bl_timer = True, bl_told = []\<rparr>"]
  by (simp add: bl_path_def eval_nat_numeral)

lemma backlight_refused:
  "level < 0 \<or> 31 < level \<Longrightarrow> reciva_lcd_set_backlight level b = (- 22, b)"
  by (auto simp: reciva_lcd_set_backlight_def LCDG_MAX_BACKLIGHT_def EINVAL_def)

section \<open>Progress bars\<close>

definition LCD_VOLUME_1_BAR :: "byte list" where "LCD_VOLUME_1_BAR = [0xEE, 0x80, 0x86]"
definition LCD_VOLUME_2_BAR :: "byte list" where "LCD_VOLUME_2_BAR = [0xEE, 0x80, 0x87]"

text \<open>Bytes are put where the pointer \<open>p\<close> is, which moves on.\<close>

fun put_at :: "byte list \<Rightarrow> byte list \<times> int \<Rightarrow> (byte list \<times> int) res" where
  "put_at [] (buf, p) = Ret (buf, p)"
| "put_at (c # cs) (buf, p) = res_bind (wr buf p c) (\<lambda>buf. put_at cs (buf, p + 1))"

function full_bars :: "int \<Rightarrow> int \<Rightarrow> byte list \<times> int \<Rightarrow> (int \<times> byte list \<times> int) res" where
  "full_bars iBars i bp =
     (if i < iBars - 1 then res_bind (put_at LCD_VOLUME_2_BAR bp) (full_bars iBars (i + 2)) else Ret (i, bp))"
  by pat_completeness auto
termination by (relation "measure (\<lambda>(n, i, _). nat (n - i))") auto

function bar_blanks :: "int \<Rightarrow> int \<Rightarrow> byte list \<times> int \<Rightarrow> (byte list \<times> int) res" where
  "bar_blanks iWidth i bp =
     (if i < iWidth * 2 then res_bind (put_at [0x20] bp) (bar_blanks iWidth (i + 2)) else Ret bp)"
  by pat_completeness auto
termination by (relation "measure (\<lambda>(w, i, _). nat (w * 2 - i))") auto

declare full_bars.simps [simp del] bar_blanks.simps [simp del]

definition bar_count :: "int \<Rightarrow> int \<Rightarrow> int \<Rightarrow> int" where
  "bar_count iProgress iRange iWidth =
     (let iBars = i32 (i32 (iProgress * iWidth) * 2) sdiv iRange;
          iBars = (if iBars < 0 then 0 else iBars)
      in if iBars > iWidth * 2 then iWidth * 2 else iBars)"

text \<open>\<open>g\<close> is what was in the memory.\<close>

definition dup_get_progress_bar :: "bool \<Rightarrow> (nat \<Rightarrow> byte) \<Rightarrow> int \<Rightarrow> int \<Rightarrow> int \<Rightarrow> byte list option res" where
  "dup_get_progress_bar alloc_ok g iProgress iRange iWidth =
     (if iRange = 0 then Fault
      else if \<not> alloc_ok then Ret None
      else
        let iBars = bar_count iProgress iRange iWidth
        in res_bind (full_bars iBars 0 (map g [0..<nat (iWidth + 1)], 0)) (\<lambda>(i, bp).
           res_bind (if iBars AND 1 \<noteq> 0 then res_map (\<lambda>bp. (i + 2, bp)) (put_at LCD_VOLUME_1_BAR bp) else Ret (i, bp)) (\<lambda>(i, bp).
           res_bind (bar_blanks iWidth i bp) (\<lambda>bp.
           res_map (\<lambda>(buf, p). Some buf) (put_at [0] bp)))))"

text \<open>A step that either faults or takes the pointer a known way.\<close>

definition moves :: "byte list \<times> int \<Rightarrow> int \<Rightarrow> (byte list \<times> int) res \<Rightarrow> bool" where
  "moves bp n r \<longleftrightarrow> r = Fault \<or> (\<exists>buf. r = Ret (buf, snd bp + n) \<and> length buf = length (fst bp))"

lemma put_at_moves: "moves bp (int (length cs)) (put_at cs bp)"
proof (induction cs "bp" rule: put_at.induct)
  case (1 buf p)
  then show ?case by (simp add: moves_def)
next
  case (2 c cs buf p)
  show ?case
  proof (cases "0 \<le> p \<and> p < int (length buf)")
    case True
    then have "moves (buf[nat p := c], p + 1) (int (length cs)) (put_at cs (buf[nat p := c], p + 1))"
      using 2 by (simp add: wr_def)
    then show ?thesis using True by (auto simp: moves_def wr_def add.assoc)
  next
    case False
    then show ?thesis by (auto simp: moves_def wr_def)
  qed
qed

lemma full_bars_moves:
  "i mod 2 = 0 \<Longrightarrow> i \<le> n \<Longrightarrow>
   full_bars n i bp = Fault \<or>
   (\<exists>buf. full_bars n i bp = Ret (n - n mod 2, buf, snd bp + 3 * ((n - i) div 2)) \<and> length buf = length (fst bp))"
proof (induction n i "bp" rule: full_bars.induct)
  case (1 n i bp)
  show ?case
  proof (cases "i < n - 1")
    case True
    have "put_at LCD_VOLUME_2_BAR bp = Fault \<or>
        (\<exists>buf. put_at LCD_VOLUME_2_BAR bp = Ret (buf, snd bp + 3) \<and> length buf = length (fst bp))"
      using put_at_moves [of bp LCD_VOLUME_2_BAR] by (simp add: moves_def LCD_VOLUME_2_BAR_def)
    then show ?thesis
    proof (elim disjE exE conjE)
      assume "put_at LCD_VOLUME_2_BAR bp = Fault"
      then show ?thesis using True by (subst (1 2) full_bars.simps) simp
    next
      fix buf
      assume p: "put_at LCD_VOLUME_2_BAR bp = Ret (buf, snd bp + 3)" "length buf = length (fst bp)"
      have e: "full_bars n i bp = full_bars n (i + 2) (buf, snd bp + 3)"
        using True p by (subst full_bars.simps) simp
      have "(i + 2) mod 2 = 0" "i + 2 \<le> n" using 1(2) True by simp_all
      moreover have "(n - i) div 2 = (n - (i + 2)) div 2 + 1" by presburger
      ultimately show ?thesis
        using 1(1) [OF True, of "(buf, snd bp + 3)"] p by (simp add: e algebra_simps)
    qed
  next
    case False
    then have "n = i \<or> n = i + 1" using 1(3) by linarith
    then have "n - n mod 2 = i" "(n - i) div 2 = 0" using 1(2) by presburger+
    then show ?thesis using False by (cases bp) (subst (1 2) full_bars.simps, simp)
  qed
qed

lemma bar_blanks_moves:
  "i mod 2 = 0 \<Longrightarrow> i \<le> w * 2 \<Longrightarrow> moves bp ((w * 2 - i) div 2) (bar_blanks w i bp)"
proof (induction w i "bp" rule: bar_blanks.induct)
  case (1 w i bp)
  show ?case
  proof (cases "i < w * 2")
    case True
    have "moves bp 1 (put_at [0x20] bp)" using put_at_moves [of bp "[0x20]"] by simp
    then show ?thesis unfolding moves_def
    proof (elim disjE exE conjE)
      assume "put_at [0x20] bp = Fault"
      then show "bar_blanks w i bp = Fault \<or> (\<exists>buf. bar_blanks w i bp = Ret (buf, snd bp + (w * 2 - i) div 2) \<and> length buf = length (fst bp))"
        using True by (subst (1 2) bar_blanks.simps) simp
    next
      fix buf
      assume p: "put_at [0x20] bp = Ret (buf, snd bp + 1)" "length buf = length (fst bp)"
      have e: "bar_blanks w i bp = bar_blanks w (i + 2) (buf, snd bp + 1)"
        using True p by (subst bar_blanks.simps) simp
      have "(i + 2) mod 2 = 0" "i + 2 \<le> w * 2" using 1(2) True by presburger+
      moreover have "(w * 2 - i) div 2 = (w * 2 - (i + 2)) div 2 + 1" by presburger
      ultimately show "bar_blanks w i bp = Fault \<or> (\<exists>buf. bar_blanks w i bp = Ret (buf, snd bp + (w * 2 - i) div 2) \<and> length buf = length (fst bp))"
        using 1(1) [OF True, of "(buf, snd bp + 1)"] p by (simp add: e moves_def algebra_simps)
    qed
  next
    case False
    then have "i = w * 2" using 1(3) by simp
    then show ?thesis by (cases bp) (subst bar_blanks.simps, simp add: moves_def)
  qed
qed

text \<open>Blanks up to the end of the buffer.\<close>

lemma bar_blanks_fill:
  "bar_blanks (int (k + n)) (int k * 2) (replicate k 0x20 @ map g [k..<k + n + 1], int k) =
     Ret (replicate (k + n) 0x20 @ [g (k + n)], int (k + n))"
proof (induction n arbitrary: k)
  case 0
  then show ?case by (subst bar_blanks.simps) simp
next
  case (Suc n)
  have "wr (replicate k 0x20 @ map g [k..<k + Suc n + 1]) (int k) 0x20 = Ret (replicate (Suc k) 0x20 @ map g [Suc k..<Suc k + n + 1])"
    by (simp add: wr_def upt_conv_Cons list_update_append replicate_append_same [symmetric] del: upt_Suc)
  then have "bar_blanks (int (k + Suc n)) (int k * 2) (replicate k 0x20 @ map g [k..<k + Suc n + 1], int k) =
      bar_blanks (int (Suc k + n)) (int (Suc k) * 2) (replicate (Suc k) 0x20 @ map g [Suc k..<Suc k + n + 1], int (Suc k))"
    by (subst bar_blanks.simps) (simp add: algebra_simps del: upt_Suc replicate.simps)
  then show ?case unfolding Suc.IH by simp
qed

text \<open>Where the end of the bar is past the buffer, its NUL is written outside.\<close>

lemma bar_end_faults:
  assumes "i mod 2 = 0" "i \<le> w * 2" "length buf = nat w + 1" "0 \<le> w" "w < p + (w * 2 - i) div 2"
  shows "res_bind (bar_blanks w i (buf, p)) (\<lambda>bp. res_map (\<lambda>(buf, p). Some buf) (put_at [0] bp)) = Fault"
proof -
  have "bar_blanks w i (buf, p) = Fault \<or> (\<exists>b. bar_blanks w i (buf, p) = Ret (b, p + (w * 2 - i) div 2) \<and> length b = length buf)"
    using bar_blanks_moves [OF assms(1,2), of "(buf, p)"] by (simp add: moves_def)
  then show ?thesis using assms(3-5) by (auto simp: wr_def)
qed

lemma bar_count_range: "0 \<le> iWidth \<Longrightarrow> 0 \<le> bar_count p r iWidth \<and> bar_count p r iWidth \<le> iWidth * 2"
  by (simp add: bar_count_def Let_def)

text \<open>
  A progress bar never fits: the buffer has one byte for each character and one for the NUL, but a
  character of the bar has three bytes, so that as soon as there is one the bar is written past the end
  of the buffer; only the empty bar is right, as so many blanks.
\<close>

theorem progress_bar_overflows:
  assumes "0 \<le> iWidth" "iRange \<noteq> 0"
  shows "dup_get_progress_bar True g iProgress iRange iWidth =
    (if bar_count iProgress iRange iWidth = 0 then Ret (Some (replicate (nat iWidth) 0x20 @ [0])) else Fault)"
proof -
  define n where "n = bar_count iProgress iRange iWidth"
  define buf where "buf = map g [0..<nat (iWidth + 1)]"
  have n: "0 \<le> n" "n \<le> iWidth * 2" using bar_count_range [OF assms(1)] by (simp_all add: n_def)
  have len: "length buf = nat iWidth + 1" using assms(1) by (simp add: buf_def nat_add_distrib)
  have odd: "n AND 1 \<noteq> 0 \<longleftrightarrow> n mod 2 = 1" by (simp add: and_one_eq mod2_eq_if)
  let ?rest = "\<lambda>(i, bp). res_bind (if n AND 1 \<noteq> 0 then res_map (\<lambda>bp. (i + 2, bp)) (put_at LCD_VOLUME_1_BAR bp) else Ret (i, bp))
      (\<lambda>(i, bp). res_bind (bar_blanks iWidth i bp) (\<lambda>bp. res_map (\<lambda>(buf, p). Some buf) (put_at [0] bp)))"
  have d: "dup_get_progress_bar True g iProgress iRange iWidth = res_bind (full_bars n 0 (buf, 0)) ?rest"
    using assms(2) by (simp add: dup_get_progress_bar_def n_def buf_def Let_def case_prod_beta')
  show ?thesis
  proof (cases "n = 0")
    case True
    have "full_bars 0 0 (buf, 0) = Ret (0, buf, 0)" by (subst full_bars.simps) simp
    moreover have "bar_blanks iWidth 0 (buf, 0) = Ret (replicate (nat iWidth) 0x20 @ [g (nat iWidth)], iWidth)"
      using bar_blanks_fill [of 0 "nat iWidth" g] assms(1) by (simp add: buf_def nat_add_distrib)
    moreover have "put_at [0] (replicate (nat iWidth) 0x20 @ [g (nat iWidth)], iWidth) = Ret (replicate (nat iWidth) 0x20 @ [0], iWidth + 1)"
      using assms(1) by (simp add: wr_def list_update_append)
    ultimately show ?thesis using d True by (simp add: n_def [symmetric])
  next
    case False
    have "full_bars n 0 (buf, 0) = Fault \<or>
        (\<exists>b. full_bars n 0 (buf, 0) = Ret (n - n mod 2, b, 3 * (n div 2)) \<and> length b = nat iWidth + 1)"
      using full_bars_moves [of 0 n "(buf, 0)"] n len by simp
    moreover have "?rest (n - n mod 2, b, 3 * (n div 2)) = Fault" if b: "length b = nat iWidth + 1" for b
    proof (cases "n mod 2 = 1")
      case True
      have "put_at LCD_VOLUME_1_BAR (b, 3 * (n div 2)) = Fault \<or>
          (\<exists>b'. put_at LCD_VOLUME_1_BAR (b, 3 * (n div 2)) = Ret (b', 3 * (n div 2) + 3) \<and> length b' = nat iWidth + 1)"
        using put_at_moves [of "(b, 3 * (n div 2))" LCD_VOLUME_1_BAR] b by (simp add: moves_def LCD_VOLUME_1_BAR_def)
      moreover have "(n - n mod 2 + 2) mod 2 = 0" "n - n mod 2 + 2 \<le> iWidth * 2"
        "iWidth < 3 * (n div 2) + 3 + (iWidth * 2 - (n - n mod 2 + 2)) div 2"
        using True n by presburger+
      ultimately show ?thesis
        using bar_end_faults [of "n - n mod 2 + 2" iWidth _ "3 * (n div 2) + 3"] assms(1) True odd by auto
    next
      case even: False
      then have "(n - n mod 2) mod 2 = 0" "n - n mod 2 \<le> iWidth * 2"
        "iWidth < 3 * (n div 2) + (iWidth * 2 - (n - n mod 2)) div 2"
        using n False by presburger+
      then show ?thesis
        using bar_end_faults [of "n - n mod 2" iWidth b "3 * (n div 2)"] assms(1) even odd b by simp
    qed
    ultimately have "res_bind (full_bars n 0 (buf, 0)) ?rest = Fault" by auto
    then show ?thesis using d False by (simp add: n_def [symmetric])
  qed
qed

theorem progress_bar_overflows_witness:
  "dup_get_progress_bar True (\<lambda>_. 0) 5 10 4 = Fault \<and> dup_get_progress_bar True (\<lambda>_. 7) 0 10 2 = Ret (Some [0x20, 0x20, 0])"
proof -
  have "bar_count 5 10 4 = 4" "bar_count 0 10 2 = 0" by code_simp+
  then show ?thesis
    using progress_bar_overflows [of 4 10 "\<lambda>_. 0" 5] progress_bar_overflows [of 2 10 "\<lambda>_. 7" 0] by (simp add: numeral_2_eq_2)
qed

end
