(* ===== verification/Lcd_Kscreen.thy ===== *)
theory Lcd_Kscreen
  imports Lcd_Generic Lcd_Screen
begin

text \<open>
  The screen of the display module of the kernel, \<^verbatim>\<open>lcd_generic.c\<close>: the texts that are kept to be drawn
  again, their memory, the lock around them, and the requests of programs.
\<close>

section \<open>State\<close>

definition ENOSYS :: int where "ENOSYS = 38"
definition ENODEV :: int where "ENODEV = 19"
definition LCD_CAPABILITIES_ARROWS :: int where "LCD_CAPABILITIES_ARROWS = 1"

text \<open>What the hardware driver is told to do.\<close>

datatype lcd_call =
    Init_Hardware
  | Draw_Screen "byte list option list option" int int int "int list option" "int list option"
  | Clear_Screen | Set_Zoom int | Draw_Grid int | Draw_Vertical_Lines int | Set_Led int | Power_Off
  | Draw_Clock "int list" | Set_Ampm_Text "int list" | Draw_Signal_Strength int | Draw_Icons int
  | Set_Display_Mode int | Draw_Bitmap int int "byte list" | Set_Contrast int | Redraw_Screen

text \<open>
  The static variables: the arrays are \<open>None\<close> while they are null pointers, a text of \<open>None\<close> is a null
  pointer in its array.  \<open>ks_lock\<close> is whether \<open>redraw_lock\<close> was taken and not released; on the one processor of the radio
  taking it again does not wait.  \<open>ks_calls\<close> is what the driver was told.
\<close>

record kscreen =
  ks_lock :: bool
  ppcTexts :: "byte list option list option"
  piArrows :: "int list option"
  piLineContents :: "int list option"
  iXcoord :: int
  iYcoord :: int
  iCursorTypeGlobal :: int
  ks_height :: int
  ks_width :: int
  ks_backlight :: backlight
  ks_table :: "rutl_hashtable option"
  ks_calls :: "lcd_call list"

text \<open>
  The driver of a display: which of its functions there are, and what those that return something return.
\<close>

record reciva_lcd_driver =
  ld_get_height :: int
  ld_get_width :: int
  ld_set_zoom :: "(int \<Rightarrow> int \<times> int) option"
  ld_draw_screen :: "lcd_call \<Rightarrow> int"
  ld_draw_grid :: bool
  ld_draw_vertical_lines :: bool
  ld_set_backlight :: bool
  ld_set_led :: bool
  ld_power_off :: bool
  ld_draw_clock :: bool
  ld_draw_signal_strength :: bool
  ld_draw_icons :: bool
  ld_leds_supported :: int
  ld_get_capabilities :: "int option"
  ld_set_display_mode :: "(int \<Rightarrow> int \<times> int) option"
  ld_draw_bitmap :: bool
  ld_get_graphics_height :: "int option"
  ld_get_graphics_width :: "int option"
  ld_set_contrast :: bool
  ld_redraw_screen :: bool
  ld_set_ampm_text :: "(int list \<Rightarrow> int) option"
  ld_grab_screen_region :: "(int \<Rightarrow> int \<Rightarrow> int \<Rightarrow> int \<Rightarrow> int \<times> int \<times> byte list) option"

definition ks_call :: "lcd_call \<Rightarrow> kscreen \<Rightarrow> kscreen" where
  "ks_call c s = s\<lparr>ks_calls := ks_calls s @ [c]\<rparr>"

section \<open>Memory\<close>

definition free_arrays :: "kscreen \<Rightarrow> kscreen" where
  "free_arrays s = s\<lparr>ppcTexts := None, piArrows := None, piLineContents := None\<rparr>"

text \<open>
  The three arrays: \<open>oks\<close> is whether there is memory for each.  A failure skips those that follow.
\<close>

definition alloc_three :: "bool list \<Rightarrow> (nat \<Rightarrow> int) \<Rightarrow> kscreen \<Rightarrow> int \<times> kscreen" where
  "alloc_three oks g s =
     (let n = nat (ks_height s);
          s = s\<lparr>ppcTexts := None, piArrows := None, piLineContents := None\<rparr>;
          (r, s) = (if \<not> oks ! 0 then (- ENOMEM, s) else (0, s\<lparr>ppcTexts := Some (replicate n None)\<rparr>));
          (r, s) = (if r = 0 then if \<not> oks ! 1 then (- ENOMEM, s) else (r, s\<lparr>piArrows := Some (map g [0..<n])\<rparr>)
                    else (r, s))
      in if r = 0 then if \<not> oks ! 2 then (- ENOMEM, s) else (r, s\<lparr>piLineContents := Some (map g [0..<n])\<rparr>)
         else (r, s))"

text \<open>A write through a pointer to an array.\<close>

definition wr_array :: "'a list option \<Rightarrow> int \<Rightarrow> 'a \<Rightarrow> 'a list option res" where
  "wr_array a i x = (case a of None \<Rightarrow> Fault | Some xs \<Rightarrow> res_map Some (wr xs i x))"

text \<open>
  The loop that fills the arrays: \<open>dups\<close> is whether there is memory for each blank text.  It runs even
  when an array could not be allocated.
\<close>

fun fill_arrays :: "bool list \<Rightarrow> int \<Rightarrow> int \<times> kscreen \<Rightarrow> (int \<times> kscreen) res" where
  "fill_arrays [] i (r, s) = Ret (r, s)"
| "fill_arrays (d # dups) i (r, s) =
     res_bind (wr_array (ppcTexts s) i (if d then Some [0x20, 0] else None)) (\<lambda>t.
       if \<not> d then Ret (- ENOMEM, s\<lparr>ppcTexts := t\<rparr>)
       else
         res_bind (wr_array (piArrows s) i LCD_ARROW_NONE) (\<lambda>a.
         res_bind (wr_array (piLineContents s) i LCD_LINE_CONTENTS_TEXT) (\<lambda>l.
           fill_arrays dups (i + 1) (r, s\<lparr>ppcTexts := t, piArrows := a, piLineContents := l\<rparr>))))"

text \<open>\<open>dup_ok i\<close> is whether there is memory for the text of row \<open>i\<close>.\<close>

definition alloc_arrays :: "bool list \<Rightarrow> (nat \<Rightarrow> bool) \<Rightarrow> (nat \<Rightarrow> int) \<Rightarrow> kscreen \<Rightarrow> (int \<times> kscreen) res" where
  "alloc_arrays oks dup_ok g s =
     res_map (\<lambda>(r, s). if r \<noteq> 0 then (r, free_arrays s) else (r, s))
       (fill_arrays (map dup_ok [0..<nat (ks_height s)]) 0 (alloc_three oks g s))"

text \<open>What there is memory for in a request.\<close>

record kmem =
  km_arrays :: "bool list"
  km_dup :: "nat \<Rightarrow> bool"
  km_row :: "nat \<Rightarrow> bool"
  km_data :: bool
  km_progress :: "nat \<Rightarrow> bool"
  km_garbage :: "nat \<Rightarrow> int"

definition resize :: "kmem \<Rightarrow> int \<Rightarrow> int \<Rightarrow> kscreen \<Rightarrow> (int \<times> kscreen) res" where
  "resize m h w s =
     (let s = (free_arrays s)\<lparr>ks_height := h, ks_width := w\<rparr> in alloc_arrays (km_arrays m) (km_dup m) (km_garbage m) s)"

section \<open>Drawing\<close>

text \<open>
  What a program passes: a pointer is null, or to memory that cannot be read, or to so many elements that can.
\<close>

datatype 'a user = U_Null | U_Bad | U_Data "'a list"

definition copy_from_user :: "nat \<Rightarrow> 'a user \<Rightarrow> 'a list option" where
  "copy_from_user n p = (case p of U_Data xs \<Rightarrow> if n \<le> length xs then Some (take n xs) else None | _ \<Rightarrow> None)"

text \<open>The length with the NUL; 0 when the string cannot be read.\<close>

definition strlen_user :: "byte user \<Rightarrow> nat" where
  "strlen_user p = (case p of U_Data xs \<Rightarrow> if 0 \<in> set xs then length (cstr xs) + 1 else 0 | _ \<Rightarrow> 0)"

text \<open>
  The text of each row: the old one is freed, and one byte
  more than the string with its NUL is copied; what cannot be copied the kernel clears.  \<open>row_ok i\<close> is whether there is memory for row \<open>i\<close>.
\<close>

fun copy_rows :: "(nat \<Rightarrow> bool) \<Rightarrow> byte user list \<Rightarrow> nat \<Rightarrow> kscreen \<Rightarrow> (int \<times> kscreen) res" where
  "copy_rows row_ok [] i s = Ret (0, s)"
| "copy_rows row_ok (p # ps) i s =
     (let n = strlen_user p in
      if \<not> row_ok i
      then res_map (\<lambda>t. (- ENOMEM, s\<lparr>ppcTexts := t\<rparr>)) (wr_array (ppcTexts s) (int i) None)
      else
        (case copy_from_user (n + 1) p of
           None \<Rightarrow> res_map (\<lambda>t. (- EFAULT, s\<lparr>ppcTexts := t\<rparr>)) (wr_array (ppcTexts s) (int i) (Some (replicate (n + 1) 0)))
         | Some bs \<Rightarrow>
             res_bind (wr_array (ppcTexts s) (int i) (Some bs)) (\<lambda>t. copy_rows row_ok ps (i + 1) (s\<lparr>ppcTexts := t\<rparr>))))"

record k_draw_screen =
  ds_text :: "byte user user"
  ds_x :: int
  ds_y :: int
  ds_cursor :: int
  ds_arrows :: "int user"
  ds_lines :: "int user"

definition draw_current :: "reciva_lcd_driver \<Rightarrow> kscreen \<Rightarrow> int \<times> kscreen" where
  "draw_current D s =
     (let c = Draw_Screen (ppcTexts s) (iXcoord s) (iYcoord s) (iCursorTypeGlobal s) (piArrows s) (piLineContents s)
      in (ld_draw_screen D c, ks_call c s))"

text \<open>Copying an array of the program over one of the module's.\<close>

definition copy_array :: "nat \<Rightarrow> int user \<Rightarrow> int list option \<Rightarrow> int list option option res" where
  "copy_array n p a =
     (case copy_from_user n p of
        None \<Rightarrow> Ret None
      | Some xs \<Rightarrow> (case a of None \<Rightarrow> Fault | Some ys \<Rightarrow> if length ys < n then Fault else Ret (Some (Some (xs @ drop n ys)))))"

text \<open>The parts of \<open>call_draw_screen\<close>, the last one first: the texts, the contents of the lines, the arrows.\<close>

definition draw_texts :: "reciva_lcd_driver \<Rightarrow> kmem \<Rightarrow> k_draw_screen \<Rightarrow> kscreen \<Rightarrow> (int \<times> kscreen) res" where
  "draw_texts D m ds s =
     (case copy_from_user (nat (ks_height s)) (ds_text ds) of
        None \<Rightarrow> Ret (- EFAULT, s)
      | Some ps \<Rightarrow>
          res_map (\<lambda>(r, s).
            if r \<noteq> 0 then (r, s)
            else case draw_current D (s\<lparr>iXcoord := ds_x ds, iYcoord := ds_y ds, iCursorTypeGlobal := ds_cursor ds\<rparr>) of
                (r, s) \<Rightarrow> (r, s\<lparr>ks_lock := False\<rparr>))
            (copy_rows (km_row m) ps 0 s))"

definition draw_lines :: "reciva_lcd_driver \<Rightarrow> kmem \<Rightarrow> k_draw_screen \<Rightarrow> kscreen \<Rightarrow> (int \<times> kscreen) res" where
  "draw_lines D m ds s =
     (if ds_lines ds = U_Null then Ret (- EFAULT, s)
      else res_bind (copy_array (nat (ks_height s)) (ds_lines ds) (piLineContents s)) (\<lambda>l. case l of
          None \<Rightarrow> Ret (- EFAULT, s)
        | Some l \<Rightarrow> draw_texts D m ds (s\<lparr>piLineContents := l\<rparr>)))"

definition call_draw_screen :: "reciva_lcd_driver \<Rightarrow> kmem \<Rightarrow> k_draw_screen \<Rightarrow> kscreen \<Rightarrow> (int \<times> kscreen) res" where
  "call_draw_screen D m ds s =
     (let s = s\<lparr>ks_lock := True\<rparr>
      in if ds_arrows ds = U_Null then Ret (- EFAULT, s)
         else res_bind (copy_array (nat (ks_height s)) (ds_arrows ds) (piArrows s)) (\<lambda>a. case a of
             None \<Rightarrow> Ret (- EFAULT, s)
           | Some a \<Rightarrow> draw_lines D m ds (s\<lparr>piArrows := a\<rparr>)))"

definition reciva_lcd_redraw :: "reciva_lcd_driver option \<Rightarrow> kscreen \<Rightarrow> kscreen" where
  "reciva_lcd_redraw D s =
     (let s = s\<lparr>ks_lock := True\<rparr>;
          s = (case (D, ppcTexts s) of (Some D, Some _) \<Rightarrow> snd (draw_current D s) | _ \<Rightarrow> s)
      in s\<lparr>ks_lock := False\<rparr>)"

text \<open>
  The progress bar: a heading and a percentage.  \<open>pct\<close> is the percentage that the floating point numbers of the code
  give for a progress, the highest and the lowest value.  \<open>%02d%%\<close> prints it.
\<close>

record k_draw_progress =
  dp_heading :: "byte user"
  dp_lowest :: int
  dp_highest :: int
  dp_progress :: int

definition percent_text :: "int \<Rightarrow> byte list" where
  "percent_text i = (if 0 \<le> i \<and> i < 10 then [48] else []) @ dec_int i @ [37]"

text \<open>
  What is freed at the end: a pointer that was never written is freed too, unless it happens to be null.  \<open>second\<close>
  is whether the second one is freed.
\<close>

definition free_unwritten :: "kmem \<Rightarrow> bool \<Rightarrow> int \<Rightarrow> kscreen \<Rightarrow> (int \<times> kscreen) res" where
  "free_unwritten m second r s =
     (if km_garbage m 0 \<noteq> 0 \<or> second \<and> km_garbage m 1 \<noteq> 0 then Fault else Ret (r, s))"

definition draw_progress_rows ::
  "reciva_lcd_driver \<Rightarrow> kmem \<Rightarrow> bool \<Rightarrow> byte list \<Rightarrow> int \<Rightarrow> kscreen \<Rightarrow> (int \<times> kscreen) res" where
  "draw_progress_rows D m draw text percent s =
     (let h = ld_get_height D; ptext = percent_text percent;
          show = (\<lambda>rows. let c = Draw_Screen (Some rows) 0 0 LCD_CURSOR_OFF None None in Ret (ld_draw_screen D c, ks_call c s))
      in if h = 1 \<and> draw
         then if \<not> km_progress m 2 then Ret (- ENOMEM, s)
              else if 0 \<notin> set text \<or> length text + 5 < length (cstr text) + length ptext + 2 then Fault
              else show [Some (cstr text @ [32] @ ptext @ [0])]
         else if h < 2 then Fault
         else if draw
         then if \<not> km_progress m 2 then Ret (- ENOMEM, s)
              else if 5 < length ptext + 1 then Fault
              else show ([Some text, Some (ptext @ [0])] @ replicate (nat h - 2) (Some [0]))
         else show ([Some text, Some [0]] @ replicate (nat h - 2) (Some [0])))"

definition draw_progress_simple ::
  "(int \<Rightarrow> int \<Rightarrow> int \<Rightarrow> int) \<Rightarrow> reciva_lcd_driver \<Rightarrow> kmem \<Rightarrow> k_draw_progress \<Rightarrow> kscreen \<Rightarrow> (int \<times> kscreen) res" where
  "draw_progress_simple pct D m dps s =
     (if dp_highest dps \<le> dp_lowest dps then Ret (- EINVAL, s)
      else
        let draw = (dp_lowest dps \<le> dp_progress dps \<and> dp_progress dps \<le> dp_highest dps);
            percent = pct (dp_progress dps) (dp_highest dps) (dp_lowest dps); h = ld_get_height D;
            i = strlen_user (dp_heading dps) + 1
        in if \<not> km_progress m 0 then Ret (- ENOMEM, s)
           else if h < 1 then Fault
           else if \<not> km_progress m 1 then free_unwritten m (h > 1 \<and> draw) (- ENOMEM) s
           else (case copy_from_user i (dp_heading dps) of
                   None \<Rightarrow> free_unwritten m (h > 1 \<and> draw) (- EFAULT) s
                 | Some text \<Rightarrow> draw_progress_rows D m draw text percent s))"

section \<open>Requests\<close>

text \<open>
  The requests of programs.  What is copied from the program is \<open>None\<close> when it cannot be read, and a flag
  tells whether what goes back to it can be written.
\<close>

datatype lcd_request =
    IOC_LCD_DRAW_SCREEN "k_draw_screen option" | IOC_LCD_CLEAR | IOC_LCD_GET_HEIGHT bool | IOC_LCD_GET_WIDTH bool
  | IOC_LCD_ZOOM "int option" | IOC_LCD_GRID | IOC_LCD_INVERSE_GRID | IOC_LCD_VERT_LINES | IOC_LCD_INVERSE_VERT_LINES
  | IOC_LCD_BACKLIGHT "int option" | IOC_LCD_LED "int option" | IOC_LCD_POWER_OFF | IOC_LCD_DRAW_CLOCK "int list option"
  | IOC_LCD_SET_AMPM_TEXT "int list option" | IOC_LCD_SIGNAL_STRENGTH "int option" | IOC_LCD_DRAW_ICONS "int option"
  | IOC_LCD_LEDS_SUPPORTED bool | IOC_LCD_GET_CAPABILITIES bool | IOC_LCD_SET_DISPLAY_MODE "int option"
  | IOC_LCD_DRAW_BITMAP "(int \<times> int \<times> byte user) option" | IOC_LCD_GET_GRAPHICS_HEIGHT bool | IOC_LCD_GET_GRAPHICS_WIDTH bool
  | IOC_LCD_GRAB_SCREEN_REGION "(int \<times> int \<times> int \<times> int) option" bool bool
  | IOC_LCD_SET_CONTRAST "int option" | IOC_LCD_REDRAW_SCREEN | IOC_LCD_DRAW_PROGRESS_SIMPLE "k_draw_progress option" | IOC_LCD_UNKNOWN

text \<open>What a request gives back: the result, and the numbers and bytes copied to the program.\<close>

type_synonym lcd_reply = "int \<times> int list \<times> byte list"

definition reply :: "int \<Rightarrow> kscreen \<Rightarrow> (lcd_reply \<times> kscreen) res" where
  "reply r s = Ret ((r, [], []), s)"

definition put_user :: "bool \<Rightarrow> int \<Rightarrow> kscreen \<Rightarrow> (lcd_reply \<times> kscreen) res" where
  "put_user ok x s = (if ok then Ret ((0, [x], []), s) else reply (- EFAULT) s)"

text \<open>Requests that are passed on, to a function that may be missing.\<close>

definition pass_on :: "bool \<Rightarrow> lcd_call \<Rightarrow> kscreen \<Rightarrow> (lcd_reply \<times> kscreen) res" where
  "pass_on there c s = (if there then reply 0 (ks_call c s) else reply (- ENOSYS) s)"

definition pass_arg :: "bool \<Rightarrow> ('a \<Rightarrow> lcd_call) \<Rightarrow> 'a option \<Rightarrow> kscreen \<Rightarrow> (lcd_reply \<times> kscreen) res" where
  "pass_arg there c a s =
     (if there then (case a of None \<Rightarrow> reply (- EFAULT) s | Some x \<Rightarrow> reply 0 (ks_call (c x) s)) else reply (- ENOSYS) s)"

definition result_of :: "(int \<times> kscreen) res \<Rightarrow> (lcd_reply \<times> kscreen) res" where
  "result_of = res_map (\<lambda>(r, s). ((r, [], []), s))"

definition zoom_request :: "reciva_lcd_driver \<Rightarrow> kmem \<Rightarrow> int option \<Rightarrow> kscreen \<Rightarrow> (lcd_reply \<times> kscreen) res" where
  "zoom_request D m a s =
     (case ld_set_zoom D of
        None \<Rightarrow> reply (- ENOSYS) s
      | Some zoom \<Rightarrow>
          (case a of
             None \<Rightarrow> reply (- EFAULT) s
           | Some i \<Rightarrow> let (h, w) = zoom i in result_of (resize m h w (ks_call Clear_Screen (ks_call (Set_Zoom i) s)))))"

definition mode_request :: "reciva_lcd_driver \<Rightarrow> kmem \<Rightarrow> int option \<Rightarrow> kscreen \<Rightarrow> (lcd_reply \<times> kscreen) res" where
  "mode_request D m a s =
     (case a of
        None \<Rightarrow> reply (- EFAULT) s
      | Some i \<Rightarrow>
          (case ld_set_display_mode D of
             None \<Rightarrow> reply (- EFAULT) s
           | Some mode \<Rightarrow>
               let (h, w) = mode i
               in res_bind (resize m h w (ks_call (Set_Display_Mode i) s)) (\<lambda>(_, s). reply 0 (ks_call Clear_Screen s))))"

definition bitmap_request :: "reciva_lcd_driver \<Rightarrow> kmem \<Rightarrow> (int \<times> int \<times> byte user) option \<Rightarrow> kscreen \<Rightarrow> (lcd_reply \<times> kscreen) res" where
  "bitmap_request D m a s =
     (if \<not> ld_draw_bitmap D then reply (- ENOSYS) s
      else
        (case a of
           None \<Rightarrow> reply (- EFAULT) s
         | Some (h, w, p) \<Rightarrow>
             (case copy_from_user (nat (h * w sdiv 8 + 1)) p of
                None \<Rightarrow> reply (- EFAULT) s
              | Some data \<Rightarrow> if \<not> km_data m then Fault else reply 0 (ks_call (Draw_Bitmap h w data) s))))"

definition grab_request ::
  "reciva_lcd_driver \<Rightarrow> (int \<times> int \<times> int \<times> int) option \<Rightarrow> bool \<Rightarrow> bool \<Rightarrow> kscreen \<Rightarrow> (lcd_reply \<times> kscreen) res" where
  "grab_request D a head_ok data_ok s =
     (case ld_grab_screen_region D of
        None \<Rightarrow> reply (- ENOSYS) s
      | Some grab \<Rightarrow>
          (case a of
             None \<Rightarrow> reply (- EFAULT) s
           | Some (l, t, w, h) \<Rightarrow>
               let (w', h', data) = grab l t w h; n = nat (h' * w' sdiv 8 + 1)
               in if \<not> head_ok then reply (- EFAULT) s
                  else if length data < n then Fault
                  else if \<not> data_ok then Ret ((- EFAULT, [w', h'], []), s)
                  else Ret ((0, [w', h'], take n data), s)))"

definition k_lcd_ioctl ::
  "(int \<Rightarrow> int \<Rightarrow> int \<Rightarrow> int) \<Rightarrow> reciva_lcd_driver \<Rightarrow> kmem \<Rightarrow> lcd_request \<Rightarrow> kscreen \<Rightarrow> (lcd_reply \<times> kscreen) res" where
  "k_lcd_ioctl pct D m cmd s =
     (case cmd of
        IOC_LCD_DRAW_SCREEN None \<Rightarrow> reply (- EFAULT) s
      | IOC_LCD_DRAW_SCREEN (Some ds) \<Rightarrow> result_of (call_draw_screen D m ds s)
      | IOC_LCD_CLEAR \<Rightarrow> reply 0 (ks_call Clear_Screen s)
      | IOC_LCD_GET_HEIGHT ok \<Rightarrow> put_user ok (ld_get_height D) s
      | IOC_LCD_GET_WIDTH ok \<Rightarrow> put_user ok (ld_get_width D) s
      | IOC_LCD_ZOOM a \<Rightarrow> zoom_request D m a s
      | IOC_LCD_GRID \<Rightarrow> pass_on (ld_draw_grid D) (Draw_Grid 0) s
      | IOC_LCD_INVERSE_GRID \<Rightarrow> pass_on (ld_draw_grid D) (Draw_Grid 1) s
      | IOC_LCD_VERT_LINES \<Rightarrow> pass_on (ld_draw_vertical_lines D) (Draw_Vertical_Lines 0) s
      | IOC_LCD_INVERSE_VERT_LINES \<Rightarrow> pass_on (ld_draw_vertical_lines D) (Draw_Vertical_Lines 1) s
      | IOC_LCD_BACKLIGHT a \<Rightarrow>
          if \<not> ld_set_backlight D then reply (- ENOSYS) s
          else (case a of
                  None \<Rightarrow> reply (- EFAULT) s
                | Some i \<Rightarrow> let (r, b) = reciva_lcd_set_backlight i (ks_backlight s) in reply r (s\<lparr>ks_backlight := b\<rparr>))
      | IOC_LCD_LED a \<Rightarrow> pass_arg (ld_set_led D) Set_Led a s
      | IOC_LCD_POWER_OFF \<Rightarrow> pass_on (ld_power_off D) Power_Off s
      | IOC_LCD_DRAW_CLOCK a \<Rightarrow> pass_arg (ld_draw_clock D) Draw_Clock a s
      | IOC_LCD_SET_AMPM_TEXT a \<Rightarrow>
          (case ld_set_ampm_text D of
             None \<Rightarrow> reply (- ENOSYS) s
           | Some f \<Rightarrow> (case a of None \<Rightarrow> reply (- EFAULT) s | Some t \<Rightarrow> reply (f t) (ks_call (Set_Ampm_Text t) s)))
      | IOC_LCD_SIGNAL_STRENGTH a \<Rightarrow> pass_arg (ld_draw_signal_strength D) Draw_Signal_Strength a s
      | IOC_LCD_DRAW_ICONS a \<Rightarrow> pass_arg (ld_draw_icons D) Draw_Icons a s
      | IOC_LCD_LEDS_SUPPORTED ok \<Rightarrow> put_user ok (ld_leds_supported D) s
      | IOC_LCD_GET_CAPABILITIES ok \<Rightarrow>
          put_user ok (case ld_get_capabilities D of Some c \<Rightarrow> c | None \<Rightarrow> LCD_CAPABILITIES_ARROWS) s
      | IOC_LCD_SET_DISPLAY_MODE a \<Rightarrow> mode_request D m a s
      | IOC_LCD_DRAW_BITMAP a \<Rightarrow> bitmap_request D m a s
      | IOC_LCD_GET_GRAPHICS_HEIGHT ok \<Rightarrow>
          (case ld_get_graphics_height D of None \<Rightarrow> reply (- ENOSYS) s | Some h \<Rightarrow> Ret ((0, if ok then [h] else [], []), s))
      | IOC_LCD_GET_GRAPHICS_WIDTH ok \<Rightarrow>
          (case ld_get_graphics_width D of None \<Rightarrow> reply (- ENOSYS) s | Some w \<Rightarrow> Ret ((0, if ok then [w] else [], []), s))
      | IOC_LCD_GRAB_SCREEN_REGION a head_ok data_ok \<Rightarrow> grab_request D a head_ok data_ok s
      | IOC_LCD_SET_CONTRAST a \<Rightarrow> pass_arg (ld_set_contrast D) Set_Contrast a s
      | IOC_LCD_REDRAW_SCREEN \<Rightarrow> pass_on (ld_redraw_screen D) Redraw_Screen s
      | IOC_LCD_DRAW_PROGRESS_SIMPLE None \<Rightarrow> reply (- EFAULT) s
      | IOC_LCD_DRAW_PROGRESS_SIMPLE (Some p) \<Rightarrow> result_of (draw_progress_simple pct D m p s)
      | IOC_LCD_UNKNOWN \<Rightarrow> reply (- ENODEV) s)"

section \<open>The module\<close>

text \<open>The texts of a greeting, and whether there is memory for each; those they replace are not freed.\<close>

fun greeting_rows :: "(byte list \<times> bool) list \<Rightarrow> int \<Rightarrow> kscreen \<Rightarrow> kscreen res" where
  "greeting_rows [] i s = Ret s"
| "greeting_rows ((line, ok) # ls) i s =
     res_bind (rutl_strdup ok line) (\<lambda>d.
     res_bind (wr_array (ppcTexts s) i d) (\<lambda>t. greeting_rows ls (i + 1) (s\<lparr>ppcTexts := t\<rparr>)))"

definition vDrawGreetingFrame :: "reciva_lcd_driver \<Rightarrow> (byte list \<times> bool) list \<Rightarrow> kscreen \<Rightarrow> kscreen res" where
  "vDrawGreetingFrame D ls s =
     (let n = (if ks_height s < 2 then ks_height s else 2)
      in res_map (\<lambda>s. ks_call (Draw_Screen (ppcTexts s) 0 0 0 (piArrows s) (piLineContents s)) s)
           (greeting_rows (take (nat n) ls) 0 s))"

text \<open>
  Loading the module: the greeting, two lines and the memory for them, is \<open>ls\<close>, and \<open>ok\<close> tells whether
  there is memory for the table of characters and each of its entries.
\<close>

definition reciva_lcd_init ::
  "reciva_lcd_driver \<Rightarrow> charmap \<Rightarrow> kmem \<Rightarrow> bool \<times> bool \<Rightarrow> (nat \<Rightarrow> bool) \<Rightarrow> (byte list \<times> bool) list \<Rightarrow> int \<Rightarrow> int \<Rightarrow> kscreen \<Rightarrow>
   (int \<times> kscreen) res" where
  "reciva_lcd_init D charmap m table_ok entry_ok ls height width s =
     (let s = ks_call Init_Hardware (s\<lparr>ks_height := height, ks_width := width\<rparr>)
      in res_bind (alloc_arrays (km_arrays m) (km_dup m) (km_garbage m) s) (\<lambda>(r, s).
           if r < 0 then Ret (r, s)
           else case rutl_new_hashtable (fst table_ok) (snd table_ok) charmap_length of
               None \<Rightarrow> Ret (- ENOMEM, free_arrays (s\<lparr>ks_table := None\<rparr>))
             | Some t \<Rightarrow>
                 res_bind (fill_charmap entry_ok charmap t) (\<lambda>t.
                 res_map (\<lambda>s. (0, if ld_set_backlight D
                                   then s\<lparr>ks_backlight := snd (reciva_lcd_set_backlight LCDG_MAX_BACKLIGHT (ks_backlight s))\<rparr>
                                   else s))
                   (vDrawGreetingFrame D ls (s\<lparr>ks_table := Some t\<rparr>)))))"

definition reciva_lcd_exit :: "kscreen \<Rightarrow> kscreen" where
  "reciva_lcd_exit s = free_arrays (ks_call Power_Off s)"

section \<open>The memory of the screen\<close>

text \<open>The arrays are all there, with an element for each row, or none is.\<close>

definition ks_ok :: "kscreen \<Rightarrow> bool" where
  "ks_ok s \<longleftrightarrow>
     ppcTexts s = None \<and> piArrows s = None \<and> piLineContents s = None \<or>
     (\<exists>t a l. ppcTexts s = Some t \<and> piArrows s = Some a \<and> piLineContents s = Some l \<and>
        length t = nat (ks_height s) \<and> length a = nat (ks_height s) \<and> length l = nat (ks_height s))"

lemma free_arrays_ok [simp]: "ks_ok (free_arrays s)"
  by (simp add: ks_ok_def free_arrays_def)

text \<open>One row of the loop, and all of them.\<close>

definition set_row :: "nat \<Rightarrow> kscreen \<Rightarrow> kscreen" where
  "set_row i s = s\<lparr>ppcTexts := map_option (\<lambda>t. t[i := Some [0x20, 0]]) (ppcTexts s),
     piArrows := map_option (\<lambda>a. a[i := LCD_ARROW_NONE]) (piArrows s),
     piLineContents := map_option (\<lambda>l. l[i := LCD_LINE_CONTENTS_TEXT]) (piLineContents s)\<rparr>"

definition rows_there :: "nat \<Rightarrow> kscreen \<Rightarrow> bool" where
  "rows_there n s \<longleftrightarrow> (\<exists>t a l. ppcTexts s = Some t \<and> piArrows s = Some a \<and> piLineContents s = Some l \<and>
     length t = n \<and> length a = n \<and> length l = n)"

lemma rows_there_set_row [simp]: "rows_there n (set_row i s) = rows_there n s"
  by (auto simp: rows_there_def set_row_def)

lemma free_set_row [simp]: "free_arrays (set_row i s) = free_arrays s"
  by (simp add: free_arrays_def set_row_def)

lemma fill_row:
  "rows_there n s \<Longrightarrow> i < n \<Longrightarrow> fill_arrays (True # dups) (int i) (r, s) = fill_arrays dups (int (Suc i)) (r, set_row i s)"
  by (auto simp: rows_there_def wr_array_def wr_def set_row_def add.commute)

lemma fill_arrays_ok:
  "rows_there n s \<Longrightarrow> i + k = n \<Longrightarrow>
   fill_arrays (replicate k True) (int i) (r, s) = Ret (r, foldl (\<lambda>s i. set_row i s) s [i..<n])"
proof (induction k arbitrary: i s)
  case (Suc k)
  then have "fill_arrays (replicate (Suc k) True) (int i) (r, s) = fill_arrays (replicate k True) (int (Suc i)) (r, set_row i s)"
    using fill_row [of n s i "replicate k True" r] by simp
  also have "\<dots> = Ret (r, foldl (\<lambda>s i. set_row i s) (set_row i s) [Suc i..<n])"
    using Suc.IH [of "set_row i s" "Suc i"] Suc.prems by simp
  finally show ?case using Suc.prems by (simp add: upt_conv_Cons)
qed simp

lemma fill_arrays_fails:
  "rows_there n s \<Longrightarrow> i + length dups \<le> n \<Longrightarrow> \<not> list_all id dups \<Longrightarrow>
   \<exists>s'. fill_arrays dups (int i) (r, s) = Ret (- ENOMEM, s') \<and> free_arrays s' = free_arrays s"
proof (induction dups arbitrary: i s)
  case (Cons d dups)
  show ?case
  proof (cases d)
    case True
    then show ?thesis
      using fill_row [OF Cons.prems(1), of i dups r] Cons.IH [of "set_row i s" "Suc i"] Cons.prems by simp
  next
    case False
    then show ?thesis
      using Cons.prems by (auto simp: rows_there_def wr_array_def wr_def free_arrays_def)
  qed
qed simp

lemma replicate_drop_update:
  "k < length xs \<Longrightarrow> (replicate k x @ drop k xs)[k := x] = replicate (Suc k) x @ drop (Suc k) xs"
  by (simp add: Cons_nth_drop_Suc [symmetric] list_update_append replicate_append_same [symmetric])

lemma set_rows_all:
  "rows_there n s \<Longrightarrow> k \<le> n \<Longrightarrow> foldl (\<lambda>s i. set_row i s) s [0..<k] =
     s\<lparr>ppcTexts := map_option (\<lambda>t. replicate k (Some [0x20, 0]) @ drop k t) (ppcTexts s),
       piArrows := map_option (\<lambda>a. replicate k LCD_ARROW_NONE @ drop k a) (piArrows s),
       piLineContents := map_option (\<lambda>l. replicate k LCD_LINE_CONTENTS_TEXT @ drop k l) (piLineContents s)\<rparr>"
proof (induction k)
  case 0
  then show ?case by (auto simp: rows_there_def)
next
  case (Suc k)
  then show ?case
    by (auto simp: set_row_def rows_there_def replicate_drop_update simp del: replicate.simps)
qed

text \<open>The texts are there, but not both of the other arrays.\<close>

definition rows_null :: "nat \<Rightarrow> kscreen \<Rightarrow> bool" where
  "rows_null n s \<longleftrightarrow> (\<exists>t. ppcTexts s = Some t \<and> length t = n) \<and> (piArrows s = None \<or> (\<exists>a. piArrows s = Some a \<and> length a = n) \<and> piLineContents s = None)"

text \<open>
  What allocating the arrays of a screen leaves: when there is memory for everything, a blank text, no
  arrow and the contents of a text in each row; when there is none for a text, an error, with all arrays
  freed; but when there is none for an array itself, an access through a null pointer, for the loop runs
  all the same, unless the first text fails too.
\<close>

theorem alloc_arrays_outcome:
  assumes "length oks = 3" "0 < ks_height s"
  shows "alloc_arrays oks dup_ok g s =
    (if \<not> oks ! 0 \<or> \<not> list_all id oks \<and> dup_ok 0 then Fault
     else if list_all id oks \<and> list_all dup_ok [0..<nat (ks_height s)]
     then let n = nat (ks_height s)
          in Ret (0, s\<lparr>ppcTexts := Some (replicate n (Some [0x20, 0])), piArrows := Some (replicate n 10), piLineContents := Some (replicate n 0)\<rparr>)
     else Ret (- 12, free_arrays s))"
proof -
  define n where "n = nat (ks_height s)"
  obtain m where m: "n = Suc m" using assms(2) by (cases n) (auto simp: n_def)
  obtain a b c where oks: "oks = [a, b, c]"
    using assms(1) by (auto simp: length_Suc_conv numeral_3_eq_3)
  then have h: "oks ! 0 = a" "list_all id oks = (a \<and> b \<and> c)" by simp_all
  show ?thesis
  proof (cases "a \<and> b \<and> c")
    case True
    let ?s = "s\<lparr>ppcTexts := Some (replicate n None), piArrows := Some (map g [0..<n]), piLineContents := Some (map g [0..<n])\<rparr>"
    have o: "oks = [True, True, True]" using True oks by simp
    have t: "alloc_three [True, True, True] g s = (0, ?s)" by (simp add: alloc_three_def n_def Let_def)
    have r: "rows_there n ?s" by (simp add: rows_there_def)
    show ?thesis
    proof (cases "list_all dup_ok [0..<n]")
      case all: True
      then have "map dup_ok [0..<n] = replicate n True" by (auto simp: list_all_iff intro!: nth_equalityI)
      then have "fill_arrays (map dup_ok [0..<n]) 0 (0, ?s) = Ret (0, foldl (\<lambda>s i. set_row i s) ?s [0..<n])"
        using fill_arrays_ok [OF r, of 0 n 0] by simp
      then show ?thesis
        using True all set_rows_all [OF r, of n]
        by (simp add: alloc_arrays_def t o n_def [symmetric] LCD_ARROW_NONE_def LCD_LINE_CONTENTS_TEXT_def)
    next
      case False
      then have "\<not> list_all id (map dup_ok [0..<n])" by (simp add: list.pred_map comp_def)
      from fill_arrays_fails [OF r _ this, of 0 0]
      obtain s' where "fill_arrays (map dup_ok [0..<n]) 0 (0, ?s) = Ret (- ENOMEM, s')" "free_arrays s' = free_arrays ?s" by auto
      then show ?thesis
        using True False by (simp add: alloc_arrays_def t o n_def [symmetric] ENOMEM_def free_arrays_def)
    qed
  next
    case False
    then have "\<exists>r s'. alloc_three oks g s = (r, s') \<and> r \<noteq> 0 \<and> free_arrays s' = free_arrays s \<and>
        (if a then rows_null n s' else ppcTexts s' = None)"
      by (cases a; cases b; cases c) (simp_all add: alloc_three_def oks Let_def free_arrays_def ENOMEM_def rows_null_def n_def)
    then obtain r s' where t: "alloc_three oks g s = (r, s')" "r \<noteq> 0" "free_arrays s' = free_arrays s"
      "if a then rows_null n s' else ppcTexts s' = None" by blast
    have "fill_arrays (map dup_ok [0..<n]) 0 (r, s') =
        (if \<not> a \<or> dup_ok 0 then Fault else Ret (- ENOMEM, s'\<lparr>ppcTexts := map_option (\<lambda>t. t[0 := None]) (ppcTexts s')\<rparr>))"
      using t(4) by (auto simp: m upt_conv_Cons rows_null_def wr_array_def wr_def simp del: upt_Suc split: if_splits)
    then show ?thesis
      using False t(3) h by (auto simp: alloc_arrays_def t(1) n_def [symmetric] ENOMEM_def free_arrays_def)
  qed
qed

theorem alloc_arrays_outcome_witness:
  "alloc_arrays [True, False, True] (\<lambda>_. True) (\<lambda>_. 0)
     \<lparr>ks_lock = False, ppcTexts = None, piArrows = None, piLineContents = None, iXcoord = 0, iYcoord = 0, iCursorTypeGlobal = 0,
      ks_height = 2, ks_width = 16, ks_backlight = \<lparr>bl_level_current = 0, bl_level_desired = 0, bl_timer = False, bl_told = []\<rparr>, ks_table = None, ks_calls = []\<rparr> = Fault"
  by (subst alloc_arrays_outcome) simp_all

section \<open>The lock\<close>

text \<open>What copying the arguments leaves alone: everything but the contents of the arrays.\<close>

definition same_kscreen :: "kscreen \<Rightarrow> kscreen \<Rightarrow> bool" where
  "same_kscreen s t \<longleftrightarrow> ks_lock t = ks_lock s \<and> ks_calls t = ks_calls s \<and> ks_height t = ks_height s \<and> ks_backlight t = ks_backlight s \<and>
     map_option length (ppcTexts t) = map_option length (ppcTexts s) \<and>
     map_option length (piArrows t) = map_option length (piArrows s) \<and>
     map_option length (piLineContents t) = map_option length (piLineContents s)"

lemma same_kscreen_refl [simp]: "same_kscreen s s"
  by (simp add: same_kscreen_def)

lemma same_kscreen_trans: "same_kscreen s t \<Longrightarrow> same_kscreen t u \<Longrightarrow> same_kscreen s u"
  by (simp add: same_kscreen_def)

lemma wr_array_length: "wr_array a j x = Ret t \<Longrightarrow> map_option length t = map_option length a"
  by (auto simp: wr_array_def res_map_Ret_iff wr_def split: option.splits if_splits)

lemma wr_text_same: "wr_array (ppcTexts s) j x = Ret t \<Longrightarrow> same_kscreen s (s\<lparr>ppcTexts := t\<rparr>)"
  by (simp add: same_kscreen_def wr_array_length)

lemma copy_rows_same:
  "copy_rows row_ok ps i s = Ret (r, s') \<Longrightarrow> r \<in> {0, - 12, - 14} \<and> same_kscreen s s'"
proof (induction ps arbitrary: i s)
  case (Cons p ps)
  let ?n = "strlen_user p"
  consider "\<not> row_ok i" | "row_ok i" "copy_from_user (?n + 1) p = None" | bs where "row_ok i" "copy_from_user (?n + 1) p = Some bs"
    by (cases "copy_from_user (?n + 1) p") auto
  then show ?case
  proof cases
    case 1
    then show ?thesis using Cons.prems wr_text_same by (auto simp: res_map_Ret_iff ENOMEM_def)
  next
    case 2
    then show ?thesis using Cons.prems wr_text_same by (auto simp: res_map_Ret_iff EFAULT_def)
  next
    case 3
    then obtain t where t: "wr_array (ppcTexts s) (int i) (Some bs) = Ret t" "copy_rows row_ok ps (i + 1) (s\<lparr>ppcTexts := t\<rparr>) = Ret (r, s')"
      using Cons.prems by (auto simp: res_bind_Ret_iff)
    show ?thesis using Cons.IH [OF t(2)] same_kscreen_trans [OF wr_text_same [OF t(1)]] by blast
  qed
qed simp

lemma copy_array_length: "copy_array n p a = Ret (Some b) \<Longrightarrow> map_option length b = map_option length a"
  by (auto simp: copy_array_def copy_from_user_def split: option.splits user.splits if_splits)

lemma same_screen_arrows:
  "copy_array n p (piArrows s) = Ret (Some a) \<Longrightarrow> same_kscreen s (s\<lparr>piArrows := a\<rparr>)"
  by (simp add: same_kscreen_def copy_array_length)

lemma same_screen_lines:
  "copy_array n p (piLineContents s) = Ret (Some a) \<Longrightarrow> same_kscreen s (s\<lparr>piLineContents := a\<rparr>)"
  by (simp add: same_kscreen_def copy_array_length)

text \<open>The outcomes of a call: an error on the way, or the screen is drawn and the lock released.\<close>

definition draw_outcome :: "reciva_lcd_driver \<Rightarrow> k_draw_screen \<Rightarrow> kscreen \<Rightarrow> int \<times> kscreen \<Rightarrow> bool" where
  "draw_outcome D ds s o' \<longleftrightarrow> fst o' \<in> {- 12, - 14} \<and> same_kscreen s (snd o') \<or>
     (\<exists>t. same_kscreen s t \<and>
       o' = (case draw_current D (t\<lparr>iXcoord := ds_x ds, iYcoord := ds_y ds, iCursorTypeGlobal := ds_cursor ds\<rparr>) of
         (r, s) \<Rightarrow> (r, s\<lparr>ks_lock := False\<rparr>)))"

lemma draw_outcome_mono: "draw_outcome D ds t x \<Longrightarrow> same_kscreen s t \<Longrightarrow> draw_outcome D ds s x"
  unfolding draw_outcome_def using same_kscreen_trans by blast

lemma draw_texts_outcome: "draw_texts D m ds s = Ret x \<Longrightarrow> draw_outcome D ds s x"
proof (cases "copy_from_user (nat (ks_height s)) (ds_text ds)")
  case None
  then show "draw_texts D m ds s = Ret x \<Longrightarrow> draw_outcome D ds s x"
    by (auto simp: draw_texts_def draw_outcome_def EFAULT_def)
next
  case (Some ps)
  assume "draw_texts D m ds s = Ret x"
  with Some obtain r t where t: "copy_rows (km_row m) ps 0 s = Ret (r, t)"
    "x = (if r \<noteq> 0 then (r, t) else case draw_current D (t\<lparr>iXcoord := ds_x ds, iYcoord := ds_y ds, iCursorTypeGlobal := ds_cursor ds\<rparr>) of
                (r, s) \<Rightarrow> (r, s\<lparr>ks_lock := False\<rparr>))"
    by (auto simp: draw_texts_def res_map_Ret_iff)
  show ?thesis
    using copy_rows_same [OF t(1)] t(2) unfolding draw_outcome_def by (cases "r = 0") auto
qed

lemma draw_lines_outcome:
  assumes "draw_lines D m ds s = Ret x"
  shows "draw_outcome D ds s x"
proof (cases "x = (- EFAULT, s)")
  case True
  then show ?thesis by (simp add: draw_outcome_def EFAULT_def)
next
  case False
  then obtain l where l: "copy_array (nat (ks_height s)) (ds_lines ds) (piLineContents s) = Ret (Some l)"
    "draw_texts D m ds (s\<lparr>piLineContents := l\<rparr>) = Ret x"
    using assms by (auto simp: draw_lines_def res_bind_Ret_iff split: if_splits option.splits)
  show ?thesis
    by (rule draw_outcome_mono [OF draw_texts_outcome [OF l(2)] same_screen_lines [OF l(1)]])
qed

lemma call_draw_screen_outcome:
  assumes "call_draw_screen D m ds s = Ret x"
  shows "draw_outcome D ds (s\<lparr>ks_lock := True\<rparr>) x"
proof -
  let ?s = "s\<lparr>ks_lock := True\<rparr>"
  show ?thesis
  proof (cases "x = (- EFAULT, ?s)")
    case True
    then show ?thesis by (simp add: draw_outcome_def EFAULT_def)
  next
    case False
    then obtain a where a: "copy_array (nat (ks_height ?s)) (ds_arrows ds) (piArrows ?s) = Ret (Some a)"
      "draw_lines D m ds (?s\<lparr>piArrows := a\<rparr>) = Ret x"
      using assms by (auto simp: call_draw_screen_def Let_def res_bind_Ret_iff split: if_splits option.splits)
    show ?thesis
      using draw_outcome_mono [OF draw_lines_outcome [OF a(2)] same_screen_arrows [OF a(1)]] by blast
  qed
qed

text \<open>
  A request to draw that fails does not release the lock: either the screen is drawn and the lock is free, or nothing is
  drawn, the request returns an error, and the lock stays taken.  On one processor this does no harm.
\<close>

theorem failed_draw_keeps_lock:
  assumes "call_draw_screen D m ds s = Ret (r, s')"
  shows "if ks_lock s' then ks_calls s' = ks_calls s \<and> r \<in> {- 12, - 14}
         else \<exists>c. ks_calls s' = ks_calls s @ [c] \<and> r = ld_draw_screen D c"
  using call_draw_screen_outcome [OF assms]
  by (auto simp: draw_outcome_def same_kscreen_def draw_current_def ks_call_def Let_def)

definition demo_kscreen :: kscreen where
  "demo_kscreen =
     \<lparr>ks_lock = False, ppcTexts = Some [Some [0x20, 0]], piArrows = Some [10], piLineContents = Some [0], iXcoord = 0, iYcoord = 0,
      iCursorTypeGlobal = 0, ks_height = 1, ks_width = 16,
      ks_backlight = \<lparr>bl_level_current = 0, bl_level_desired = 0, bl_timer = False, bl_told = []\<rparr>, ks_table = None, ks_calls = []\<rparr>"

definition demo_mem :: kmem where
  "demo_mem = \<lparr>km_arrays = [True, True, True], km_dup = (\<lambda>_. True), km_row = (\<lambda>_. True), km_data = True, km_progress = (\<lambda>_. True), km_garbage = (\<lambda>_. 0)\<rparr>"

definition demo_draw :: k_draw_screen where
  "demo_draw = \<lparr>ds_text = U_Data [U_Data [0x41, 0, 0x42]], ds_x = 0, ds_y = 0, ds_cursor = 10, ds_arrows = U_Data [10], ds_lines = U_Data [0]\<rparr>"

definition demo_kdriver :: reciva_lcd_driver where
  "demo_kdriver =
     \<lparr>ld_get_height = 1, ld_get_width = 16, ld_set_zoom = None, ld_draw_screen = (\<lambda>_. 0), ld_draw_grid = False,
      ld_draw_vertical_lines = False, ld_set_backlight = True, ld_set_led = False, ld_power_off = True, ld_draw_clock = False,
      ld_draw_signal_strength = False, ld_draw_icons = False, ld_leds_supported = 0, ld_get_capabilities = None,
      ld_set_display_mode = None, ld_draw_bitmap = False, ld_get_graphics_height = None, ld_get_graphics_width = None,
      ld_set_contrast = False, ld_redraw_screen = False, ld_set_ampm_text = None, ld_grab_screen_region = None\<rparr>"

theorem failed_draw_keeps_lock_witness:
  "\<exists>s'. call_draw_screen demo_kdriver demo_mem (demo_draw\<lparr>ds_lines := U_Null\<rparr>) demo_kscreen = Ret (- 14, s') \<and> ks_calls s' = []"
proof -
  have "call_draw_screen demo_kdriver demo_mem (demo_draw\<lparr>ds_lines := U_Null\<rparr>) demo_kscreen = Ret (- 14, demo_kscreen\<lparr>ks_lock := True\<rparr>)"
    by (simp add: call_draw_screen_def draw_lines_def demo_draw_def demo_kscreen_def copy_array_def copy_from_user_def EFAULT_def)
  from this failed_draw_keeps_lock [OF this] show ?thesis by (simp add: demo_kscreen_def)
qed

section \<open>Drawing and drawing again\<close>

text \<open>A string of the program that can be copied, and what is kept of it.\<close>

fun readable :: "byte user \<Rightarrow> bool" where
  "readable (U_Data xs) = (0 \<in> set xs \<and> length (cstr xs) + 2 \<le> length xs)"
| "readable p = False"

fun user_text :: "byte user \<Rightarrow> byte list" where
  "user_text (U_Data xs) = take (length (cstr xs) + 2) xs"
| "user_text p = []"

lemma cstr_take: "0 \<in> set xs \<Longrightarrow> length (cstr xs) < n \<Longrightarrow> cstr (take n xs) = cstr xs"
  by (induction xs arbitrary: n) (auto simp: cstr_def take_Cons split: nat.splits)

lemma row_text_string: "readable p \<Longrightarrow> p = U_Data xs \<Longrightarrow> cstr (user_text p) = cstr xs"
  by (simp add: cstr_take)

lemma readable_copy:
  assumes "readable p"
  shows "copy_from_user (strlen_user p + 1) p = Some (user_text p)"
  using assms by (cases p) (auto simp: copy_from_user_def strlen_user_def)

text \<open>
  A progress of a range far from zero is a percentage of more than three digits: the lowest value is not subtracted
  before the division, and the text overruns its five bytes.
\<close>

theorem progress_text_overruns:
  assumes "2 \<le> ld_get_height D" "dp_lowest dps < dp_highest dps" "dp_lowest dps \<le> dp_progress dps" "dp_progress dps \<le> dp_highest dps"
    "1000 \<le> pct (dp_progress dps) (dp_highest dps) (dp_lowest dps)"
    "\<And>i. km_progress m i" "readable (dp_heading dps)"
  shows "draw_progress_simple pct D m dps s = Fault"
proof -
  have one: "1 \<le> length (dec_digits n)" for n by (subst dec_digits.simps) simp
  have step: "10 \<le> n \<Longrightarrow> length (dec_digits n) = Suc (length (dec_digits (n div 10)))" for n
    by (subst dec_digits.simps) simp
  let ?n = "nat (pct (dp_progress dps) (dp_highest dps) (dp_lowest dps))"
  have n: "1000 \<le> ?n" using assms(5) by simp
  then have "length (dec_digits ?n) = 3 + length (dec_digits (?n div 10 div 10 div 10))" by (simp add: step div_le_mono)
  then have "4 \<le> length (dec_digits ?n)" using one [of "?n div 10 div 10 div 10"] by linarith
  then have "5 < length (percent_text (pct (dp_progress dps) (dp_highest dps) (dp_lowest dps))) + 1"
    using assms(5) by (simp add: percent_text_def dec_int_def)
  then show ?thesis
    using assms readable_copy [OF assms(7)] by (simp add: draw_progress_simple_def draw_progress_rows_def Let_def)
qed

theorem progress_text_overruns_witness:
  "draw_progress_simple (\<lambda>p h l. p * 100 div (h - l)) (demo_kdriver\<lparr>ld_get_height := 2\<rparr>) demo_mem
     \<lparr>dp_heading = U_Data [0x41, 0, 0], dp_lowest = 100, dp_highest = 110, dp_progress = 105\<rparr> demo_kscreen = Fault"
  by (rule progress_text_overruns) (simp_all add: demo_mem_def demo_kdriver_def cstr_def)

lemma copy_rows_ok:
  "list_all readable ps \<Longrightarrow> (\<And>j. row_ok j) \<Longrightarrow> ppcTexts s = Some t \<Longrightarrow> length t = i + length ps \<Longrightarrow>
   copy_rows row_ok ps i s = Ret (0, s\<lparr>ppcTexts := Some (take i t @ map (Some \<circ> user_text) ps)\<rparr>)"
proof (induction ps arbitrary: i s t)
  case (Cons p ps)
  let ?t = "t[i := Some (user_text p)]"
  have "wr_array (ppcTexts s) (int i) (Some (user_text p)) = Ret (Some ?t)"
    using Cons.prems by (simp add: wr_array_def wr_def)
  then have "copy_rows row_ok (p # ps) i s = copy_rows row_ok ps (i + 1) (s\<lparr>ppcTexts := Some ?t\<rparr>)"
    using Cons.prems readable_copy [of p] by (simp add: Let_def)
  also have "\<dots> = Ret (0, s\<lparr>ppcTexts := Some (take (i + 1) ?t @ map (Some \<circ> user_text) ps)\<rparr>)"
    using Cons.IH [OF _ Cons.prems(2), of "s\<lparr>ppcTexts := Some ?t\<rparr>" ?t "i + 1"] Cons.prems(1,3,4) by simp
  also have "take (i + 1) ?t = take i t @ [Some (user_text p)]"
    using Cons.prems by (simp add: take_Suc_conv_app_nth)
  finally show ?case by simp
qed simp

text \<open>C29.
  A request whose arguments can be read, and for whose texts there is memory, draws the screen it asks for: the string of each row, the arrows and
  the contents of the lines, where the cursor is; the lock is free afterwards, and a redrawing draws the
  same screen once more.
\<close>

theorem screen_drawn_and_kept:
  assumes "\<not> ks_lock s" "rows_there n s" "n = nat (ks_height s)" "\<And>j. km_row m j"
    "ds_text ds = U_Data ps" "length ps = n" "list_all readable ps"
    "ds_arrows ds = U_Data as" "n \<le> length as" "ds_lines ds = U_Data ls" "n \<le> length ls"
  shows "\<exists>c s'. c = Draw_Screen (Some (map (Some \<circ> user_text) ps)) (ds_x ds) (ds_y ds) (ds_cursor ds) (Some (take n as)) (Some (take n ls)) \<and>
    call_draw_screen D m ds s = Ret (ld_draw_screen D c, s') \<and> \<not> ks_lock s' \<and> ks_calls s' = ks_calls s @ [c] \<and>
    ks_calls (reciva_lcd_redraw (Some D) s') = ks_calls s @ [c, c]"
proof -
  obtain t a l where s: "ppcTexts s = Some t" "piArrows s = Some a" "piLineContents s = Some l" "length t = n" "length a = n" "length l = n"
    using assms(2) by (auto simp: rows_there_def)
  let ?s = "s\<lparr>ks_lock := True, piArrows := Some (take n as), piLineContents := Some (take n ls)\<rparr>"
  have "copy_rows (km_row m) ps 0 ?s = Ret (0, ?s\<lparr>ppcTexts := Some (map (Some \<circ> user_text) ps)\<rparr>)"
    using copy_rows_ok [of ps "km_row m" ?s t 0] assms(4,6,7) s by simp
  then have texts: "draw_texts D m ds ?s =
      Ret (case draw_current D (?s\<lparr>ppcTexts := Some (map (Some \<circ> user_text) ps), iXcoord := ds_x ds, iYcoord := ds_y ds, iCursorTypeGlobal := ds_cursor ds\<rparr>) of
                (r, s) \<Rightarrow> (r, s\<lparr>ks_lock := False\<rparr>))"
    using assms(3,5,6) by (simp add: draw_texts_def copy_from_user_def)
  have "draw_lines D m ds (s\<lparr>ks_lock := True, piArrows := Some (take n as)\<rparr>) = draw_texts D m ds ?s"
    using assms(3,10,11) s by (simp add: draw_lines_def copy_array_def copy_from_user_def)
  then have "call_draw_screen D m ds s = draw_texts D m ds ?s"
    using assms(1,3,8,9) s by (simp add: call_draw_screen_def copy_array_def copy_from_user_def Let_def)
  then show ?thesis
    unfolding texts by (simp add: draw_current_def ks_call_def Let_def reciva_lcd_redraw_def)
qed

theorem screen_drawn_and_kept_witness:
  "\<exists>c s'. c = Draw_Screen (Some [Some [0x41, 0, 0x42]]) 0 0 10 (Some [10]) (Some [0]) \<and>
     call_draw_screen demo_kdriver demo_mem demo_draw demo_kscreen = Ret (ld_draw_screen demo_kdriver c, s') \<and> ks_calls s' = [c]"
  using screen_drawn_and_kept [of demo_kscreen 1 demo_mem demo_draw "[U_Data [0x41, 0, 0x42]]" "[10]" "[0]" demo_kdriver]
  by (fastforce simp: demo_kscreen_def demo_mem_def demo_draw_def rows_there_def cstr_def)

section \<open>The arrays stay together\<close>

text \<open>A rewording of \<open>ks_ok\<close>, by the lengths of the arrays.\<close>

lemma ks_ok_lengths:
  "ks_ok s \<longleftrightarrow> (\<exists>x \<in> {None, Some (nat (ks_height s))}.
     map_option length (ppcTexts s) = x \<and> map_option length (piArrows s) = x \<and> map_option length (piLineContents s) = x)"
  by (cases "ppcTexts s"; cases "piArrows s"; cases "piLineContents s") (auto simp: ks_ok_def)

lemma same_screen_ok: "same_kscreen s t \<Longrightarrow> ks_ok t = ks_ok s"
  by (simp add: ks_ok_lengths same_kscreen_def)

lemma ks_ok_update [simp]:
  "ks_ok (s\<lparr>ks_lock := x1\<rparr>) = ks_ok s" "ks_ok (s\<lparr>ks_calls := x2\<rparr>) = ks_ok s" "ks_ok (s\<lparr>ks_backlight := x3\<rparr>) = ks_ok s"
  "ks_ok (s\<lparr>iXcoord := x4\<rparr>) = ks_ok s" "ks_ok (s\<lparr>iYcoord := x5\<rparr>) = ks_ok s" "ks_ok (s\<lparr>iCursorTypeGlobal := x6\<rparr>) = ks_ok s"
  "ks_ok (s\<lparr>ks_table := x7\<rparr>) = ks_ok s" "ks_ok (ks_call c s) = ks_ok s"
  by (simp_all add: ks_ok_def ks_call_def)

lemma call_draw_screen_ok: "call_draw_screen D m ds s = Ret (r, s') \<Longrightarrow> ks_ok s \<Longrightarrow> ks_ok s'"
  using call_draw_screen_outcome [of D m ds s "(r, s')"] same_screen_ok [of "s\<lparr>ks_lock := True\<rparr>"]
  by (auto simp: draw_outcome_def draw_current_def Let_def)

lemma fill_arrays_lengths:
  "fill_arrays dups i (r, s) = Ret (r', s') \<Longrightarrow> (r' = r \<or> r' = - 12) \<and> ks_height s' = ks_height s \<and>
   map_option length (ppcTexts s') = map_option length (ppcTexts s) \<and>
   map_option length (piArrows s') = map_option length (piArrows s) \<and>
   map_option length (piLineContents s') = map_option length (piLineContents s)"
proof (induction dups arbitrary: i s)
  case (Cons d dups)
  obtain t where t: "wr_array (ppcTexts s) i (if d then Some [0x20, 0] else None) = Ret t"
    using Cons.prems by (auto simp: res_bind_Ret_iff)
  show ?case
  proof (cases d)
    case False
    then show ?thesis using Cons.prems t wr_array_length [OF t] by (auto simp: ENOMEM_def)
  next
    case True
    then obtain a l where al: "wr_array (piArrows s) i LCD_ARROW_NONE = Ret a" "wr_array (piLineContents s) i LCD_LINE_CONTENTS_TEXT = Ret l"
      "fill_arrays dups (i + 1) (r, s\<lparr>ppcTexts := t, piArrows := a, piLineContents := l\<rparr>) = Ret (r', s')"
      using Cons.prems t by (auto simp: res_bind_Ret_iff)
    from Cons.IH [OF this(3)] show ?thesis
      using wr_array_length [OF t] wr_array_length [OF al(1)] wr_array_length [OF al(2)] by simp
  qed
qed simp

lemma alloc_arrays_ok:
  assumes "alloc_arrays oks dup_ok g s = Ret (r, s')"
  shows "ks_ok s'"
proof -
  obtain r0 s0 where t: "alloc_three oks g s = (r0, s0)" by fastforce
  then have r0: "r0 = 0 \<longrightarrow> ks_ok s0"
    by (auto simp: alloc_three_def Let_def ks_ok_lengths ENOMEM_def split: if_splits)
  obtain r1 s1 where f: "fill_arrays (map dup_ok [0..<nat (ks_height s)]) 0 (r0, s0) = Ret (r1, s1)"
    "(r, s') = (if r1 \<noteq> 0 then (r1, free_arrays s1) else (r1, s1))"
    using assms t by (auto simp: alloc_arrays_def res_map_Ret_iff)
  show ?thesis
  proof (cases "r1 = 0")
    case True
    then show ?thesis using fill_arrays_lengths [OF f(1)] f(2) r0 by (auto simp: ks_ok_lengths)
  next
    case False
    then show ?thesis using f(2) by simp
  qed
qed

text \<open>The levels of the backlight are in their range.\<close>

definition bl_ok :: "backlight \<Rightarrow> bool" where
  "bl_ok b \<longleftrightarrow> 0 \<le> bl_level_current b \<and> bl_level_current b \<le> 31 \<and> 0 \<le> bl_level_desired b \<and> bl_level_desired b \<le> 31"

lemma set_backlight_ok: "bl_ok b \<Longrightarrow> bl_ok (snd (reciva_lcd_set_backlight i b))"
  by (auto simp: bl_ok_def reciva_lcd_set_backlight_def LCDG_MAX_BACKLIGHT_def)

lemma bl_timer_ok: "bl_ok b \<Longrightarrow> bl_ok (bl_timer_func b)"
  by (auto simp: bl_ok_def bl_timer_func_def Let_def)

definition ks_inv :: "kscreen \<Rightarrow> bool" where
  "ks_inv s \<longleftrightarrow> ks_ok s \<and> bl_ok (ks_backlight s)"

lemma ks_inv_simps [simp]:
  "ks_inv (s\<lparr>ks_lock := x1\<rparr>) = ks_inv s" "ks_inv (s\<lparr>ks_calls := x2\<rparr>) = ks_inv s" "ks_inv (ks_call c s) = ks_inv s"
  "ks_inv (s\<lparr>ks_table := x7\<rparr>) = ks_inv s"
  by (simp_all add: ks_inv_def) (simp add: ks_call_def)

lemma call_draw_screen_backlight: "call_draw_screen D m ds s = Ret (r, s') \<Longrightarrow> ks_backlight s' = ks_backlight s"
  using call_draw_screen_outcome [of D m ds s "(r, s')"]
  by (auto simp: draw_outcome_def same_kscreen_def draw_current_def ks_call_def Let_def)

lemma fill_arrays_backlight: "fill_arrays dups i (r, s) = Ret (r', s') \<Longrightarrow> ks_backlight s' = ks_backlight s"
  by (induction dups arbitrary: i s) (fastforce simp: res_bind_Ret_iff split: if_splits)+

lemma alloc_arrays_backlight: "alloc_arrays oks dup_ok g s = Ret (r, s') \<Longrightarrow> ks_backlight s' = ks_backlight s"
  by (auto simp: alloc_arrays_def alloc_three_def free_arrays_def Let_def res_map_Ret_iff dest!: fill_arrays_backlight split: if_splits)

lemma resize_inv: "resize m h w s = Ret (r, s') \<Longrightarrow> ks_inv s \<Longrightarrow> ks_inv s'"
  using alloc_arrays_ok alloc_arrays_backlight
  by (fastforce simp: resize_def ks_inv_def free_arrays_def)

lemma call_draw_screen_inv: "call_draw_screen D m ds s = Ret (r, s') \<Longrightarrow> ks_inv s \<Longrightarrow> ks_inv s'"
  using call_draw_screen_ok call_draw_screen_backlight by (fastforce simp: ks_inv_def)

lemma reply_Ret [simp]: "reply r s = Ret (x, s') \<longleftrightarrow> x = (r, [], []) \<and> s' = s"
  by (auto simp: reply_def)

lemmas request_defs = put_user_def pass_on_def pass_arg_def zoom_request_def mode_request_def bitmap_request_def
  grab_request_def result_of_def

lemma request_inv:
  "put_user ok x s = Ret (y, s') \<Longrightarrow> ks_inv s \<Longrightarrow> ks_inv s'"
  "pass_on there c s = Ret (y, s') \<Longrightarrow> ks_inv s \<Longrightarrow> ks_inv s'"
  "pass_arg there' f a s = Ret (y, s') \<Longrightarrow> ks_inv s \<Longrightarrow> ks_inv s'"
  "zoom_request D m z s = Ret (y, s') \<Longrightarrow> ks_inv s \<Longrightarrow> ks_inv s'"
  "mode_request D m z s = Ret (y, s') \<Longrightarrow> ks_inv s \<Longrightarrow> ks_inv s'"
  "bitmap_request D m b s = Ret (y, s') \<Longrightarrow> ks_inv s \<Longrightarrow> ks_inv s'"
  "grab_request D g h_ok d_ok s = Ret (y, s') \<Longrightarrow> ks_inv s \<Longrightarrow> ks_inv s'"
  using resize_inv
  by (fastforce simp: request_defs res_map_Ret_iff res_bind_Ret_iff Let_def split: if_splits option.splits prod.splits)+

lemma progress_inv: "draw_progress_simple pct D m dps s = Ret (r, s') \<Longrightarrow> ks_inv s \<Longrightarrow> ks_inv s'"
  by (auto simp: draw_progress_simple_def draw_progress_rows_def free_unwritten_def Let_def split: if_splits option.splits)

lemma lcd_ioctl_inv:
  assumes "k_lcd_ioctl pct D m cmd s = Ret (y, s')" "ks_inv s"
  shows "ks_inv s'"
proof (cases cmd)
  case (IOC_LCD_DRAW_SCREEN a)
  then show ?thesis using assms call_draw_screen_inv by (fastforce simp: k_lcd_ioctl_def result_of_def res_map_Ret_iff split: option.splits)
next
  case (IOC_LCD_BACKLIGHT a)
  then show ?thesis
    using assms(1,2) set_backlight_ok [of "ks_backlight s"]
    by (auto simp: k_lcd_ioctl_def ks_inv_def Let_def case_prod_beta' split: if_splits option.splits)
next
  case (IOC_LCD_DRAW_PROGRESS_SIMPLE p)
  then show ?thesis
    using assms progress_inv by (fastforce simp: k_lcd_ioctl_def result_of_def res_map_Ret_iff split: option.splits)
next
  case (IOC_LCD_SET_AMPM_TEXT a)
  then show ?thesis using assms(1,2) by (auto simp: k_lcd_ioctl_def split: option.splits)
qed (use assms(1,2) in \<open>auto simp: k_lcd_ioctl_def dest: request_inv split: option.splits\<close>)

section \<open>Runs of the module\<close>

text \<open>
  The module is loaded with its variables zero, and then gets requests, redraws, and its timer runs out.
\<close>

definition kscreen0 :: kscreen where
  "kscreen0 =
     \<lparr>ks_lock = False, ppcTexts = None, piArrows = None, piLineContents = None, iXcoord = 0, iYcoord = 0, iCursorTypeGlobal = 0,
      ks_height = 0, ks_width = 0,
      ks_backlight = \<lparr>bl_level_current = 0, bl_level_desired = 0, bl_timer = False, bl_told = []\<rparr>, ks_table = None, ks_calls = []\<rparr>"

inductive ks_reach :: "(int \<Rightarrow> int \<Rightarrow> int \<Rightarrow> int) \<Rightarrow> reciva_lcd_driver \<Rightarrow> kscreen \<Rightarrow> bool" for pct D where
  load: "reciva_lcd_init D charmap m table_ok entry_ok ls h w kscreen0 = Ret (r, s) \<Longrightarrow> ks_reach pct D s"
| request: "ks_reach pct D s \<Longrightarrow> k_lcd_ioctl pct D m cmd s = Ret (y, s') \<Longrightarrow> ks_reach pct D s'"
| redraw: "ks_reach pct D s \<Longrightarrow> ks_reach pct D (reciva_lcd_redraw (Some D) s)"
| timer: "ks_reach pct D s \<Longrightarrow> bl_timer (ks_backlight s) \<Longrightarrow>
    ks_reach pct D (s\<lparr>ks_backlight := bl_timer_func (ks_backlight s)\<rparr>)"
| greeting: "ks_reach pct D s \<Longrightarrow> vDrawGreetingFrame D ls s = Ret s' \<Longrightarrow> ks_reach pct D s'"

lemma greeting_rows_inv: "greeting_rows ls i s = Ret s' \<Longrightarrow> ks_inv s \<Longrightarrow> ks_inv s'"
proof (induction ls i s rule: greeting_rows.induct)
  case (2 line ok ls i s)
  then obtain d t where t: "rutl_strdup ok line = Ret d" "wr_array (ppcTexts s) i d = Ret t"
    "greeting_rows ls (i + 1) (s\<lparr>ppcTexts := t\<rparr>) = Ret s'"
    by (auto simp: res_bind_Ret_iff)
  have "ks_inv (s\<lparr>ppcTexts := t\<rparr>)"
    using 2(3) wr_array_length [OF t(2)] by (simp add: ks_inv_def ks_ok_lengths)
  then show ?case using 2(1) [OF t(1,2,3)] by blast
qed simp

lemma greeting_inv: "vDrawGreetingFrame D ls s = Ret s' \<Longrightarrow> ks_inv s \<Longrightarrow> ks_inv s'"
  using greeting_rows_inv by (auto simp: vDrawGreetingFrame_def Let_def res_map_Ret_iff)

lemma init_inv:
  assumes "reciva_lcd_init D charmap m table_ok entry_ok ls h w kscreen0 = Ret (r, s)"
  shows "ks_inv s"
proof -
  let ?s = "ks_call Init_Hardware (kscreen0\<lparr>ks_height := h, ks_width := w\<rparr>)"
  obtain r0 s0 where a: "alloc_arrays (km_arrays m) (km_dup m) (km_garbage m) ?s = Ret (r0, s0)"
    using assms by (auto simp: reciva_lcd_init_def Let_def res_bind_Ret_iff)
  have i: "ks_inv s0"
    using alloc_arrays_ok [OF a] alloc_arrays_backlight [OF a] by (simp add: ks_inv_def ks_call_def kscreen0_def bl_ok_def)
  show ?thesis
  proof (cases "r0 < 0")
    case True
    then show ?thesis using assms a i by (simp add: reciva_lcd_init_def Let_def)
  next
    case False
    show ?thesis
    proof (cases "rutl_new_hashtable (fst table_ok) (snd table_ok) charmap_length")
      case None
      then show ?thesis
        using assms a i False by (auto simp: reciva_lcd_init_def Let_def ks_inv_def free_arrays_def ks_ok_def)
    next
      case (Some t)
      then obtain t' s1 where "vDrawGreetingFrame D ls (s0\<lparr>ks_table := Some t'\<rparr>) = Ret s1"
        "s = (if ld_set_backlight D then s1\<lparr>ks_backlight := snd (reciva_lcd_set_backlight LCDG_MAX_BACKLIGHT (ks_backlight s1))\<rparr> else s1)"
        using assms a False by (auto simp: reciva_lcd_init_def Let_def res_bind_Ret_iff res_map_Ret_iff)
      moreover from this(1) have "ks_inv s1" using greeting_inv i by fastforce
      ultimately show ?thesis using set_backlight_ok by (simp add: ks_inv_def)
    qed
  qed
qed

text \<open>C33.
  In every state of the display module that it reaches from its loading by requests, redraws, greetings and its
  timer, in any order, whatever they ask and whichever memory there is, the three arrays of the screen are either all
  there, with an element for each row of the screen, or all freed, and the backlight and what it is asked to be
  are levels of its range.  The states are those of runs in which no step faults: a step that goes through a null pointer,
  as when an array cannot be allocated or a screen is drawn after that, has no next state.
\<close>

theorem lcd_module_invariant:
  assumes "ks_reach pct D s"
  shows "(\<exists>x \<in> {None, Some (nat (ks_height s))}.
      map_option length (ppcTexts s) = x \<and> map_option length (piArrows s) = x \<and> map_option length (piLineContents s) = x) \<and>
    0 \<le> bl_level_current (ks_backlight s) \<and> bl_level_current (ks_backlight s) \<le> 31 \<and>
    0 \<le> bl_level_desired (ks_backlight s) \<and> bl_level_desired (ks_backlight s) \<le> 31"
proof -
  have "ks_inv s"
    using assms(1)
  proof (induction rule: ks_reach.induct)
    case (load charmap m table_ok entry_ok ls h w r s)
    then show ?case by (rule init_inv)
  next
    case (request s m cmd y s')
    then show ?case using lcd_ioctl_inv by blast
  next
    case (redraw s)
    then show ?case
      by (auto simp: reciva_lcd_redraw_def Let_def draw_current_def split: if_splits option.splits)
  next
    case (timer s)
    then show ?case using bl_timer_ok by (simp add: ks_inv_def)
  next
    case (greeting s ls s')
    then show ?case using greeting_inv by blast
  qed
  then show ?thesis unfolding ks_inv_def ks_ok_lengths bl_ok_def by blast
qed

lemma demo_init:
  "\<exists>s. reciva_lcd_init demo_kdriver [] demo_mem (True, True) (\<lambda>_. True) [([0x41, 0], True)] 1 16 kscreen0 = Ret (0, s) \<and>
     bl_level_desired (ks_backlight s) = 31 \<and> ppcTexts s = Some [Some [0x41, 0]]"
  by (simp add: reciva_lcd_init_def alloc_arrays_def alloc_three_def demo_mem_def kscreen0_def ks_call_def wr_array_def wr_def
      rutl_new_hashtable_def fill_charmap_def vDrawGreetingFrame_def rutl_strdup_def strlen_def cstr_def demo_kdriver_def
      reciva_lcd_set_backlight_def LCDG_MAX_BACKLIGHT_def Let_def)

theorem lcd_module_invariant_witness:
  "\<exists>s :: kscreen. bl_level_desired (ks_backlight s) = 31 \<and> ppcTexts s = Some [Some [0x41, 0]] \<and> bl_level_current (ks_backlight s) \<le> 31 \<and>
     map_option length (piArrows s) = Some 1"
proof -
  obtain s where s: "reciva_lcd_init demo_kdriver [] demo_mem (True, True) (\<lambda>_. True) [([0x41, 0], True)] 1 16 kscreen0 = Ret (0, s)"
    "bl_level_desired (ks_backlight s) = 31" "ppcTexts s = Some [Some [0x41, 0]]"
    using demo_init by blast
  have "ks_reach (\<lambda>p h l. p * 100 div (h - l)) demo_kdriver s" by (rule ks_reach.load [OF s(1)])
  from lcd_module_invariant [OF this] have "\<exists>x \<in> {None, Some (nat (ks_height s))}.
      map_option length (ppcTexts s) = x \<and> map_option length (piArrows s) = x \<and> map_option length (piLineContents s) = x"
    "bl_level_current (ks_backlight s) \<le> 31" by auto
  then have "map_option length (piArrows s) = Some 1 \<and> bl_level_current (ks_backlight s) \<le> 31"
    using s(3) by fastforce
  then show ?thesis using s(2,3) by blast
qed

end
