(* ===== verification/Ring.thy ===== *)
theory Ring
  imports Prelude
begin

text \<open>
  The ring buffers of the serial line and of the I2C slave, \<^verbatim>\<open>buffer_t\<close> of \<^verbatim>\<open>reciva_uart.c\<close> and
  \<^verbatim>\<open>reciva_i2c_slave.c\<close>: two indexes into 1024 bytes, advanced with a mask by the one and with a comparison by
  the other.  The interface of both is the queue of the bytes between the indexes.
\<close>

section \<open>The buffers\<close>

definition BUF_SIZE :: nat where "BUF_SIZE = 1024"

record buffer_t =
  rd_index :: nat
  wr_index :: nat
  ring_buf :: "byte list"

definition uart_buf_init :: "buffer_t \<Rightarrow> buffer_t" where
  "uart_buf_init b = b\<lparr>rd_index := 0, wr_index := 0\<rparr>"

definition uart_buf_inc_rd_index :: "buffer_t \<Rightarrow> buffer_t" where
  "uart_buf_inc_rd_index b = b\<lparr>rd_index := (rd_index b + 1) AND (BUF_SIZE - 1)\<rparr>"

definition uart_buf_inc_wr_index :: "buffer_t \<Rightarrow> buffer_t" where
  "uart_buf_inc_wr_index b = b\<lparr>wr_index := (wr_index b + 1) AND (BUF_SIZE - 1)\<rparr>"

definition i2c_buf_init :: "buffer_t \<Rightarrow> buffer_t" where
  "i2c_buf_init b = b\<lparr>rd_index := 0, wr_index := 0\<rparr>"

definition i2c_buf_inc_rd_index :: "buffer_t \<Rightarrow> buffer_t" where
  "i2c_buf_inc_rd_index b =
     (let b = b\<lparr>rd_index := rd_index b + 1\<rparr> in if rd_index b \<ge> BUF_SIZE then b\<lparr>rd_index := 0\<rparr> else b)"

definition i2c_buf_inc_wr_index :: "buffer_t \<Rightarrow> buffer_t" where
  "i2c_buf_inc_wr_index b =
     (let b = b\<lparr>wr_index := wr_index b + 1\<rparr> in if wr_index b \<ge> BUF_SIZE then b\<lparr>wr_index := 0\<rparr> else b)"

section \<open>What is in a buffer\<close>

definition ring_ok :: "buffer_t \<Rightarrow> bool" where
  "ring_ok b \<longleftrightarrow> rd_index b < BUF_SIZE \<and> wr_index b < BUF_SIZE \<and> length (ring_buf b) = BUF_SIZE"

definition ring_used :: "buffer_t \<Rightarrow> nat" where
  "ring_used b = (wr_index b + BUF_SIZE - rd_index b) mod BUF_SIZE"

definition ring_contents :: "buffer_t \<Rightarrow> byte list" where
  "ring_contents b = map (\<lambda>i. ring_buf b ! ((rd_index b + i) mod BUF_SIZE)) [0..<ring_used b]"

lemma length_contents [simp]: "length (ring_contents b) = ring_used b"
  by (simp add: ring_contents_def)

lemma used_nil: "ring_contents b = [] \<Longrightarrow> ring_used b = 0"
  by (simp add: length_contents [symmetric] del: length_contents)

lemma ring_used_less: "ring_used b < BUF_SIZE"
  by (simp add: ring_used_def BUF_SIZE_def)

lemma ring_used_add: "ring_ok b \<Longrightarrow> (rd_index b + ring_used b) mod BUF_SIZE = wr_index b"
  by (simp add: ring_ok_def ring_used_def mod_add_right_eq)

lemma ring_used_iff: "ring_ok b \<Longrightarrow> n < BUF_SIZE \<Longrightarrow> (rd_index b + n) mod BUF_SIZE = wr_index b \<longleftrightarrow> ring_used b = n"
proof
  assume b: "ring_ok b" "n < BUF_SIZE" "(rd_index b + n) mod BUF_SIZE = wr_index b"
  then have "ring_used b = ((rd_index b + n) mod BUF_SIZE + (BUF_SIZE - rd_index b)) mod BUF_SIZE"
    by (simp add: ring_used_def ring_ok_def)
  also have "\<dots> = (n + BUF_SIZE) mod BUF_SIZE" using b(1) unfolding mod_add_left_eq by (simp add: ring_ok_def)
  finally show "ring_used b = n" using b(2) by simp
qed (auto dest: ring_used_add)

lemma ring_empty_iff: "ring_ok b \<Longrightarrow> ring_contents b = [] \<longleftrightarrow> rd_index b = wr_index b"
  using ring_used_iff [of b 0] by (simp add: ring_contents_def ring_ok_def BUF_SIZE_def)

lemma ring_full_iff: "ring_ok b \<Longrightarrow> (wr_index b + 1) mod BUF_SIZE = rd_index b \<longleftrightarrow> ring_used b = BUF_SIZE - 1"
  unfolding ring_ok_def ring_used_def BUF_SIZE_def by (auto simp: mod_if split: if_splits)

lemma contents_reset [simp]: "length (ring_buf b) = BUF_SIZE \<Longrightarrow> ring_contents (b\<lparr>rd_index := 0, wr_index := 0\<rparr>) = []"
  by (simp add: ring_contents_def ring_used_def)

lemma contents_empty [simp]: "ring_contents \<lparr>rd_index = 0, wr_index = 0, ring_buf = xs\<rparr> = []"
  by (simp add: ring_contents_def ring_used_def)

section \<open>The interface\<close>

locale ring_buffer =
  fixes inc_rd inc_wr :: "buffer_t \<Rightarrow> buffer_t"
  assumes inc_rd: "rd_index b < BUF_SIZE \<Longrightarrow> inc_rd b = b\<lparr>rd_index := (rd_index b + 1) mod BUF_SIZE\<rparr>"
    and inc_wr: "wr_index b < BUF_SIZE \<Longrightarrow> inc_wr b = b\<lparr>wr_index := (wr_index b + 1) mod BUF_SIZE\<rparr>"
begin

lemma inc_ok: "ring_ok b \<Longrightarrow> ring_ok (inc_rd b)" "ring_ok b \<Longrightarrow> ring_ok (inc_wr b)"
  by (auto simp: ring_ok_def inc_rd inc_wr BUF_SIZE_def)

lemma put_ok: "ring_ok b \<Longrightarrow> ring_ok (inc_wr (b\<lparr>ring_buf := (ring_buf b)[wr_index b := x]\<rparr>))"
  by (rule inc_ok) (simp add: ring_ok_def)

lemma put_used:
  assumes "ring_ok b"
  shows "ring_used (inc_wr (b\<lparr>ring_buf := xs\<rparr>)) = (if ring_used b = BUF_SIZE - 1 then 0 else ring_used b + 1)"
  using assms by (auto simp: ring_ok_def ring_used_def inc_wr BUF_SIZE_def mod_if)

lemma put:
  assumes "ring_ok b" "length (ring_contents b) < BUF_SIZE - 1"
  shows "ring_contents (inc_wr (b\<lparr>ring_buf := (ring_buf b)[wr_index b := x]\<rparr>)) = ring_contents b @ [x]"
proof -
  let ?b = "inc_wr (b\<lparr>ring_buf := (ring_buf b)[wr_index b := x]\<rparr>)"
  have u: "ring_used ?b = Suc (ring_used b)" using put_used [OF assms(1)] assms(2) by simp
  have b: "rd_index ?b = rd_index b" "ring_buf ?b = (ring_buf b)[wr_index b := x]" using assms(1) by (simp_all add: inc_wr ring_ok_def)
  have "wr_index b \<noteq> (rd_index b + i) mod BUF_SIZE" if "i < ring_used b" for i
    using ring_used_iff [OF assms(1), of i] ring_used_less [of b] that by auto
  then show ?thesis
    using assms(1) ring_used_add [OF assms(1)] by (simp add: ring_contents_def u b ring_ok_def)
qed

lemma overflow: "ring_ok b \<Longrightarrow> ring_used b = BUF_SIZE - 1 \<Longrightarrow> ring_contents (inc_wr (b\<lparr>ring_buf := xs\<rparr>)) = []"
  using put_used [of b xs] by (simp add: ring_contents_def)

lemma get:
  assumes "ring_ok b" "ring_contents b = x # xs"
  shows "ring_buf b ! rd_index b = x" "ring_contents (inc_rd b) = xs"
proof -
  obtain n where n: "ring_used b = Suc n" using arg_cong [OF assms(2), of length] by simp
  have c: "ring_contents b = ring_buf b ! rd_index b # map (\<lambda>i. ring_buf b ! ((rd_index b + Suc i) mod BUF_SIZE)) [0..<n]"
    using assms(1) by (simp add: ring_contents_def n ring_ok_def upt_conv_Cons map_Suc_upt [symmetric] del: upt_Suc)
  then show "ring_buf b ! rd_index b = x" using assms(2) by simp
  have "ring_used (inc_rd b) = n"
    using assms(1) n by (auto simp: ring_ok_def ring_used_def inc_rd BUF_SIZE_def mod_if split: if_splits)
  then have "ring_contents (inc_rd b) = map (\<lambda>i. ring_buf b ! (((rd_index b + 1) mod BUF_SIZE + i) mod BUF_SIZE)) [0..<n]"
    using assms(1) by (simp add: ring_contents_def inc_rd ring_ok_def)
  also have "\<dots> = xs" using c assms(2) by (simp add: mod_add_left_eq)
  finally show "ring_contents (inc_rd b) = xs" .
qed

end

lemma and_1023: "n AND (BUF_SIZE - Suc 0) = n mod BUF_SIZE"
proof -
  have "n AND mask 10 = take_bit 10 n" by (simp add: take_bit_eq_mask)
  then show ?thesis by (simp add: BUF_SIZE_def take_bit_eq_mod mask_eq_exp_minus_1)
qed

interpretation uart_ring: ring_buffer uart_buf_inc_rd_index uart_buf_inc_wr_index
  by unfold_locales (simp_all add: uart_buf_inc_rd_index_def uart_buf_inc_wr_index_def and_1023)

interpretation i2c_ring: ring_buffer i2c_buf_inc_rd_index i2c_buf_inc_wr_index
  by unfold_locales (auto simp: i2c_buf_inc_rd_index_def i2c_buf_inc_wr_index_def Let_def mod_if)

declare used_nil [simp]

end
