(* ===== verification/Uart.thy ===== *)
theory Uart
  imports Ring Rutl
begin

text \<open>
  The serial line of the radio, \<^verbatim>\<open>reciva_uart.c\<close>: bytes are sent bit by bit on a pin, by a timer, and
  received by the UART of the processor.
\<close>

section \<open>State\<close>

datatype NextBit_t = STOP_BIT | START_BIT | DATA

text \<open>The bits of the control register of the timers that belong to timer 2.\<close>

record tcon2 =
  t2start :: bool
  t2manualupd :: bool
  t2invert :: bool
  t2reload :: bool

text \<open>
  \<open>rx_driver\<close> is whether a driver for messages is registered; what it is called with is a result of the
  functions below.  The registers of the two baud rates follow: the control bits of timer 2, its field in
  the register of the multiplexers, its count and its compare value, and the divisor of the receiver.
  \<open>iTimerRunning\<close> is the variable of the driver; whether the timer runs is \<open>t2start\<close>.
\<close>

record uart =
  ua_regs :: io_regs
  write_buffer :: buffer_t
  read_buffer :: buffer_t
  nextBit :: NextBit_t
  bitoffset :: nat
  iTimerRunning :: bool
  rx_driver :: bool
  ua_tcon :: tcon2
  ua_mux2 :: int
  ua_tcntb :: int
  ua_tcmpb :: int
  ua_ubrdiv :: int

definition UART_GPBCON :: nat where "UART_GPBCON = 0x10"
definition UART_GPBDAT :: nat where "UART_GPBDAT = 0x14"
definition UART_GPBUP :: nat where "UART_GPBUP = 0x18"
definition UART_GPHCON :: nat where "UART_GPHCON = 0x70"
definition UART_GPHUP :: nat where "UART_GPHUP = 0x78"

definition DEFAULT_BAUD_RATE :: int where "DEFAULT_BAUD_RATE = 1200"

section \<open>Sending\<close>

definition set_level_txd :: "bool \<Rightarrow> uart \<Rightarrow> uart" where
  "set_level_txd high s =
     (if \<not> high then s\<lparr>ua_regs := reg_write (push_bit 9 0) (push_bit 9 1) UART_GPBDAT (ua_regs s)\<rparr>
      else s\<lparr>ua_regs := reg_write (push_bit 9 1) (push_bit 9 0) UART_GPBDAT (ua_regs s)\<rparr>)"

definition start_timer :: "uart \<Rightarrow> uart" where
  "start_timer s =
     s\<lparr>iTimerRunning := True, ua_tcon := \<lparr>t2start = True, t2manualupd = False, t2invert = False, t2reload = True\<rparr>\<rparr>"

definition stop_timer :: "uart \<Rightarrow> uart" where
  "stop_timer s =
     s\<lparr>iTimerRunning := False, ua_tcon := \<lparr>t2start = False, t2manualupd = False, t2invert = False, t2reload = True\<rparr>\<rparr>"

definition kick_uart_send_ticker :: "uart \<Rightarrow> uart" where
  "kick_uart_send_ticker s = (if \<not> iTimerRunning s then start_timer s else s)"

definition clock_bit_out :: "uart \<Rightarrow> uart" where
  "clock_bit_out s =
     (case nextBit s of
        START_BIT \<Rightarrow> (set_level_txd False s)\<lparr>nextBit := DATA, bitoffset := 0\<rparr>
      | DATA \<Rightarrow>
          (let b = write_buffer s;
               s = set_level_txd (ring_buf b ! rd_index b AND push_bit (bitoffset s) 1 \<noteq> 0) s;
               s = s\<lparr>bitoffset := bitoffset s + 1\<rparr>
           in if bitoffset s = 8 then s\<lparr>bitoffset := 0, nextBit := STOP_BIT\<rparr> else s)
      | STOP_BIT \<Rightarrow>
          (set_level_txd True s)\<lparr>nextBit := START_BIT, write_buffer := uart_buf_inc_rd_index (write_buffer s)\<rparr>)"

definition uart_tx_interrupt :: "uart \<Rightarrow> uart" where
  "uart_tx_interrupt s =
     (let s = clock_bit_out s
      in if rd_index (write_buffer s) \<noteq> wr_index (write_buffer s) then start_timer s else stop_timer s)"

text \<open>The bytes are taken as long as the buffer is not full; the result is how many.\<close>

fun put_bytes :: "byte list \<Rightarrow> buffer_t \<Rightarrow> nat \<times> buffer_t" where
  "put_bytes [] b = (0, b)"
| "put_bytes (x # xs) b =
     (if (wr_index b + 1) AND (BUF_SIZE - 1) \<noteq> rd_index b
      then let (n, b) = put_bytes xs (uart_buf_inc_wr_index (b\<lparr>ring_buf := (ring_buf b)[wr_index b := x]\<rparr>)) in (n + 1, b)
      else (0, b))"

definition reciva_uart_write_internal :: "byte list \<Rightarrow> uart \<Rightarrow> nat \<times> uart" where
  "reciva_uart_write_internal xs s =
     (let (n, b) = put_bytes xs (write_buffer s); s = s\<lparr>write_buffer := b\<rparr>
      in (n, if n > 0 then kick_uart_send_ticker s else s))"

definition reciva_uart_tx_buffer_empty :: "uart \<Rightarrow> int" where
  "reciva_uart_tx_buffer_empty s = (if wr_index (write_buffer s) = rd_index (write_buffer s) then 1 else 0)"

section \<open>Receiving\<close>

definition reciva_uart_register_rx_driver :: "bool \<Rightarrow> uart \<Rightarrow> int \<times> uart" where
  "reciva_uart_register_rx_driver d s = (0, s\<lparr>rx_driver := d\<rparr>)"

text \<open>The bytes up to a carriage return or the end; \<open>n\<close> bounds the rounds, which the size of the buffer does too.\<close>

fun take_message :: "nat \<Rightarrow> buffer_t \<Rightarrow> (byte list \<times> buffer_t) res" where
  "take_message 0 b = Diverge"
| "take_message (Suc n) b =
     (if ring_buf b ! rd_index b \<noteq> 0x0D \<and> rd_index b \<noteq> wr_index b
      then res_map (\<lambda>(xs, b'). (ring_buf b ! rd_index b # xs, b')) (take_message n (uart_buf_inc_rd_index b))
      else Ret ([], b))"

text \<open>The message, with its NUL, that the driver is called with.\<close>

definition send_msg_to_rx_driver :: "uart \<Rightarrow> (byte list \<times> uart) res" where
  "send_msg_to_rx_driver s =
     res_map (\<lambda>(xs, b).
       let b = (if ring_buf b ! rd_index b = 0x0D then uart_buf_inc_rd_index b else b)
       in (xs @ [0], s\<lparr>read_buffer := b\<rparr>)) (take_message BUF_SIZE (read_buffer s))"

definition process_uart_rx_data :: "byte \<Rightarrow> uart \<Rightarrow> (byte list option \<times> uart) res" where
  "process_uart_rx_data x s =
     (let b = read_buffer s; s = s\<lparr>read_buffer := uart_buf_inc_wr_index (b\<lparr>ring_buf := (ring_buf b)[wr_index b := x]\<rparr>)\<rparr>
      in if rx_driver s \<and> x = 0x0D then res_map (\<lambda>(m, s). (Some m, s)) (send_msg_to_rx_driver s) else Ret (None, s))"

text \<open>The status registers of the UART, and the byte it received.\<close>

definition uart_rx_interrupt :: "32 word \<Rightarrow> 32 word \<Rightarrow> 32 word \<Rightarrow> uart \<Rightarrow> (byte list option \<times> uart) res" where
  "uart_rx_interrupt uerstat2 ufstat2 urhx2 s =
     (if ufstat2 AND 0x0f \<noteq> 0
      then if uerstat2 AND 0x0f = 0 then process_uart_rx_data (ucast urhx2) s else Ret (None, s)
      else Ret (None, s))"

section \<open>Programs\<close>

definition uart_poll :: "uart \<Rightarrow> bool" where
  "uart_poll s \<longleftrightarrow> wr_index (read_buffer s) \<noteq> rd_index (read_buffer s)"

fun get_bytes :: "nat \<Rightarrow> buffer_t \<Rightarrow> byte list \<times> buffer_t" where
  "get_bytes 0 b = ([], b)"
| "get_bytes (Suc n) b =
     (if wr_index b \<noteq> rd_index b
      then let (xs, b') = get_bytes n (uart_buf_inc_rd_index b) in (ring_buf b ! rd_index b # xs, b')
      else ([], b))"

text \<open>The result, what was copied to the program, and the state; \<open>ok\<close> is whether it can be copied.\<close>

definition uart_read :: "nat \<Rightarrow> bool \<Rightarrow> uart \<Rightarrow> int \<times> byte list \<times> uart" where
  "uart_read count ok s =
     (let (xs, b) = get_bytes count (read_buffer s); s = s\<lparr>read_buffer := b\<rparr>
      in if xs \<noteq> [] \<and> \<not> ok then (- 14, [], s) else (int (length xs), xs, s))"

text \<open>What cannot be copied from the program is zero.  The copy is an array of so many bytes on the stack.\<close>

definition uart_write :: "nat \<Rightarrow> byte list option \<Rightarrow> uart \<Rightarrow> (nat \<times> uart) res" where
  "uart_write count xs s =
     (if KERNEL_STACK < count + 1 then Fault
      else Ret (reciva_uart_write_internal (case xs of Some xs \<Rightarrow> take count xs | None \<Rightarrow> replicate count 0) s))"

text \<open>
  \<open>PCLK\<close> is the clock of the processor.  A rate too low for the timer ends in a panic.  The timer is stopped,
  whether it was running or not, and nothing here starts it again.
\<close>

definition set_tx_baud_rate :: "int \<Rightarrow> int \<Rightarrow> uart \<Rightarrow> (int \<times> uart) res" where
  "set_tx_baud_rate PCLK baudrate s =
     (if baudrate = 0 then Fault
      else let tcnt = PCLK div 2 div baudrate
           in if tcnt > 0xffff then Exit
              else Ret (0, s\<lparr>ua_mux2 := 0, ua_tcntb := tcnt, ua_tcmpb := tcnt,
                ua_tcon := \<lparr>t2start = False, t2manualupd = True, t2invert = False, t2reload = False\<rparr>\<rparr>))"

definition set_rx_baud_rate :: "int \<Rightarrow> int \<Rightarrow> uart \<Rightarrow> (int \<times> uart) res" where
  "set_rx_baud_rate PCLK baudrate s =
     (if baudrate = 0 then Fault
      else Ret (0, s\<lparr>ua_ubrdiv := (PCLK div (baudrate * 16) - 1) mod 0x10000\<rparr>))"

definition set_baud_rate :: "int \<Rightarrow> int \<Rightarrow> uart \<Rightarrow> (int \<times> uart) res" where
  "set_baud_rate PCLK baudrate s =
     (if baudrate > 115200 \<or> baudrate < 0 then Ret (- 1, s)
      else res_bind (set_tx_baud_rate PCLK baudrate s) (\<lambda>(r, s).
             if r < 0 then Ret (- 1, s)
             else res_map (\<lambda>(r, s). (if r < 0 then - 1 else 0, s)) (set_rx_baud_rate PCLK baudrate s)))"

datatype uart_request = IOC_UART_SET_BAUD "int option" | IOC_UART_GET_TX_BUFFER_EMPTY bool | IOC_UART_CLEAR_RX_BUFFER | IOC_UART_OTHER

text \<open>The result, what is put to the program, and the state.\<close>

definition uart_ioctl :: "int \<Rightarrow> uart_request \<Rightarrow> uart \<Rightarrow> (int \<times> int list \<times> uart) res" where
  "uart_ioctl PCLK cmd s =
     (case cmd of
        IOC_UART_SET_BAUD None \<Rightarrow> Ret (- 14, [], s)
      | IOC_UART_SET_BAUD (Some baudrate) \<Rightarrow>
          res_map (\<lambda>(r, s). (if r < 0 then - 22 else 0, [], s)) (set_baud_rate PCLK baudrate s)
      | IOC_UART_GET_TX_BUFFER_EMPTY ok \<Rightarrow> Ret (if ok then (0, [reciva_uart_tx_buffer_empty s], s) else (- 14, [], s))
      | IOC_UART_CLEAR_RX_BUFFER \<Rightarrow> Ret (0, [], s\<lparr>read_buffer := uart_buf_init (read_buffer s)\<rparr>)
      | IOC_UART_OTHER \<Rightarrow> Ret (- 19, [], s))"

definition uart_module_init :: "int \<Rightarrow> uart \<Rightarrow> uart res" where
  "uart_module_init PCLK s =
     (let r = reg_write (push_bit 18 1) (push_bit 18 3) UART_GPBCON
                (reg_write (push_bit 9 1) 0 UART_GPBUP (reg_write (push_bit 9 1) 0 UART_GPBDAT (ua_regs s)));
          r = reg_write (push_bit 14 2) (push_bit 14 3) UART_GPHCON (reg_write (push_bit 7 1) 0 UART_GPHUP r)
      in res_map snd (set_baud_rate PCLK DEFAULT_BAUD_RATE
           (s\<lparr>write_buffer := uart_buf_init (write_buffer s), read_buffer := uart_buf_init (read_buffer s),
              ua_regs := r, nextBit := START_BIT\<rparr>)))"

text \<open>The module when it is loaded: its static data, and the registers.\<close>

definition uart0 :: "io_regs \<Rightarrow> uart" where
  "uart0 r =
     \<lparr>ua_regs = r, write_buffer = \<lparr>rd_index = 0, wr_index = 0, ring_buf = replicate BUF_SIZE 0\<rparr>,
      read_buffer = \<lparr>rd_index = 0, wr_index = 0, ring_buf = replicate BUF_SIZE 0\<rparr>,
      nextBit = START_BIT, bitoffset = 0, iTimerRunning = False, rx_driver = False,
      ua_tcon = \<lparr>t2start = False, t2manualupd = False, t2invert = False, t2reload = False\<rparr>,
      ua_mux2 = 0, ua_tcntb = 0, ua_tcmpb = 0, ua_ubrdiv = 0\<rparr>"

end
