(* ===== verification/Uart_Line.thy ===== *)
theory Uart_Line
  imports Uart
begin

text \<open>
  What the serial line carries: that the bits on the pin are the frames of the bytes written, that the
  messages received are those that were sent, and what is lost.
\<close>

lemmas [simp] = uart_ring.inc_ok uart_ring.put_ok

section \<open>Well-formed states\<close>

text \<open>
  The driver takes the timer for running exactly while there is something to send, and a byte in progress is
  in the buffer.  Where the baud rate is not changed on the way, the timer then does run.
\<close>

definition ua_ok :: "uart \<Rightarrow> bool" where
  "ua_ok s \<longleftrightarrow>
     ring_ok (write_buffer s) \<and> ring_ok (read_buffer s) \<and> bitoffset s < 8 \<and>
     (iTimerRunning s \<longleftrightarrow> ring_contents (write_buffer s) \<noteq> []) \<and> (t2start (ua_tcon s) \<longrightarrow> iTimerRunning s) \<and>
     (nextBit s \<noteq> START_BIT \<longrightarrow> ring_contents (write_buffer s) \<noteq> [])"

definition ua_live :: "uart \<Rightarrow> bool" where
  "ua_live s \<longleftrightarrow> (iTimerRunning s \<longrightarrow> t2start (ua_tcon s))"

lemma ua_live_ops [simp]:
  "ua_live (start_timer s)" "ua_live (stop_timer s)" "ua_live (uart_tx_interrupt s)"
  "ua_live s \<Longrightarrow> ua_live (s\<lparr>write_buffer := b\<rparr>)" "ua_live s \<Longrightarrow> ua_live (kick_uart_send_ticker s)"
  by (simp_all add: ua_live_def start_timer_def stop_timer_def uart_tx_interrupt_def kick_uart_send_ticker_def Let_def)

lemma write_live: "ua_live s \<Longrightarrow> ua_live (snd (reciva_uart_write_internal xs s))"
  by (simp add: reciva_uart_write_internal_def Let_def split: prod.splits)

lemma txd_fields [simp]:
  "write_buffer (set_level_txd v s) = write_buffer s" "read_buffer (set_level_txd v s) = read_buffer s"
  "bitoffset (set_level_txd v s) = bitoffset s" "ua_tcon (set_level_txd v s) = ua_tcon s" "iTimerRunning (set_level_txd v s) = iTimerRunning s" "nextBit (set_level_txd v s) = nextBit s"
  "rx_driver (set_level_txd v s) = rx_driver s"
  by (simp_all add: set_level_txd_def)

lemma tx_interrupt_ok:
  assumes "ua_ok s" "iTimerRunning s"
  shows "ua_ok (uart_tx_interrupt s)"
proof (cases "nextBit s")
  case STOP_BIT
  then show ?thesis using assms
    by (auto simp: ua_ok_def uart_tx_interrupt_def clock_bit_out_def start_timer_def stop_timer_def Let_def ring_empty_iff)
qed (use assms in \<open>auto simp: ua_ok_def uart_tx_interrupt_def clock_bit_out_def start_timer_def stop_timer_def Let_def ring_empty_iff\<close>)

lemma put_bytes_contents:
  assumes "ring_ok b" "put_bytes xs b = (n, b')"
  shows "ring_ok b' \<and> ring_contents b' = ring_contents b @ take n xs \<and> n = min (length xs) (BUF_SIZE - 1 - ring_used b)"
  using assms
proof (induction xs arbitrary: b n b')
  case (Cons x xs)
  show ?case
  proof (cases "ring_used b = BUF_SIZE - 1")
    case True
    then show ?thesis using Cons.prems ring_full_iff [OF Cons.prems(1)] by (simp add: and_1023)
  next
    case False
    let ?b = "uart_buf_inc_wr_index (b\<lparr>ring_buf := (ring_buf b)[wr_index b := x]\<rparr>)"
    obtain m where m: "put_bytes xs ?b = (m, b')" "n = m + 1"
      using Cons.prems(2) False ring_full_iff [OF Cons.prems(1)] by (auto simp: and_1023 split: prod.splits)
    have c: "ring_contents ?b = ring_contents b @ [x]" "ring_used ?b = ring_used b + 1"
      using uart_ring.put [OF Cons.prems(1)] uart_ring.put_used [OF Cons.prems(1)] ring_used_less [of b] False by simp_all
    then show ?thesis using Cons.IH [OF _ m(1)] Cons.prems(1) m(2) ring_used_less [of b] False by auto
  qed
qed simp

lemma write_internal:
  assumes "ua_ok s" "reciva_uart_write_internal xs s = (n, t)"
  shows "ua_ok t" "ring_contents (write_buffer t) = ring_contents (write_buffer s) @ take n xs"
    "n = min (length xs) (BUF_SIZE - 1 - length (ring_contents (write_buffer s)))"
    "nextBit t = nextBit s" "bitoffset t = bitoffset s" "read_buffer t = read_buffer s" "rx_driver t = rx_driver s"
proof -
  obtain b where b: "put_bytes xs (write_buffer s) = (n, b)"
      "t = (if n > 0 then kick_uart_send_ticker (s\<lparr>write_buffer := b\<rparr>) else s\<lparr>write_buffer := b\<rparr>)"
    using assms(2) by (auto simp: reciva_uart_write_internal_def Let_def split: prod.splits)
  have c: "ring_ok b" "ring_contents b = ring_contents (write_buffer s) @ take n xs"
      "n = min (length xs) (BUF_SIZE - 1 - ring_used (write_buffer s))"
    using put_bytes_contents [OF _ b(1)] assms(1) by (simp_all add: ua_ok_def)
  show "ua_ok t" using assms(1) c b(2) by (auto simp: ua_ok_def kick_uart_send_ticker_def start_timer_def)
  show "ring_contents (write_buffer t) = ring_contents (write_buffer s) @ take n xs"
    "n = min (length xs) (BUF_SIZE - 1 - length (ring_contents (write_buffer s)))"
    "nextBit t = nextBit s" "bitoffset t = bitoffset s" "read_buffer t = read_buffer s" "rx_driver t = rx_driver s"
    using b(2) c by (simp_all add: kick_uart_send_ticker_def start_timer_def)
qed

section \<open>The bits on the line\<close>

definition txd :: "uart \<Rightarrow> bool" where
  "txd s \<longleftrightarrow> bit (ua_regs s UART_GPBDAT) 9"

text \<open>A start bit, the bits of the byte from the lowest, a stop bit.\<close>

definition frame :: "byte \<Rightarrow> bool list" where
  "frame x = False # map (bit x) [0..<8] @ [True]"

text \<open>The bits that are still to be sent.\<close>

definition unsent :: "uart \<Rightarrow> bool list" where
  "unsent s =
     (let q = ring_contents (write_buffer s)
      in case nextBit s of
           START_BIT \<Rightarrow> concat (map frame q)
         | DATA \<Rightarrow> map (bit (hd q)) [bitoffset s..<8] @ True # concat (map frame (tl q))
         | STOP_BIT \<Rightarrow> True # concat (map frame (tl q)))"

lemma txd_level: "bit (ua_regs (set_level_txd v s) UART_GPBDAT) 9 = v"
  by (simp add: set_level_txd_def bit_reg_write bit_push_bit_iff)

lemma bit_and_exp: "(x AND push_bit k 1 \<noteq> 0) = bit x k" for x :: byte
  using bit_iff_and_push_bit_not_eq_0 [of x k] by simp

lemma timer_fields [simp]:
  "write_buffer (start_timer s) = write_buffer s" "write_buffer (stop_timer s) = write_buffer s"
  "nextBit (start_timer s) = nextBit s" "nextBit (stop_timer s) = nextBit s"
  "bitoffset (start_timer s) = bitoffset s" "bitoffset (stop_timer s) = bitoffset s"
  "ua_regs (start_timer s) = ua_regs s" "ua_regs (stop_timer s) = ua_regs s"
  by (simp_all add: start_timer_def stop_timer_def)

lemma tick_sends:
  assumes "ua_ok s" "iTimerRunning s"
  shows "unsent s = txd (uart_tx_interrupt s) # unsent (uart_tx_interrupt s)"
proof -
  let ?b = "write_buffer s"
  obtain x xs where q: "ring_contents ?b = x # xs" using assms by (cases "ring_contents ?b") (auto simp: ua_ok_def)
  have ok: "ring_ok ?b" "bitoffset s < 8" using assms(1) by (simp_all add: ua_ok_def)
  have f: "txd (uart_tx_interrupt s) = txd (clock_bit_out s)" "unsent (uart_tx_interrupt s) = unsent (clock_bit_out s)"
    by (cases "nextBit (clock_bit_out s)"; simp add: uart_tx_interrupt_def txd_def unsent_def Let_def)+
  have x: "ring_buf ?b ! rd_index ?b = x" "ring_contents (uart_buf_inc_rd_index ?b) = xs"
    using uart_ring.get [OF ok(1) q] by simp_all
  show ?thesis
  proof (cases "nextBit s")
    case STOP_BIT
    then show ?thesis unfolding f by (simp add: unsent_def clock_bit_out_def txd_def txd_level q x Let_def)
  next
    case START_BIT
    then show ?thesis unfolding f by (simp add: unsent_def clock_bit_out_def txd_def txd_level q frame_def Let_def)
  next
    case DATA
    have "map (bit x) [bitoffset s..<8] = bit x (bitoffset s) # map (bit x) [Suc (bitoffset s)..<8]"
      using ok(2) by (simp add: upt_conv_Cons)
    then show ?thesis using DATA bit_and_exp [of x "bitoffset s"] unfolding f
      by (cases "bitoffset s = 7") (simp_all add: unsent_def clock_bit_out_def txd_def txd_level q x Let_def)
  qed
qed

text \<open>A program writes, or the timer ticks, which it does only while it runs.\<close>

datatype line_step = Write "byte list" | Tick

text \<open>The state, the bits sent and the bytes accepted after some steps.\<close>

fun line_run :: "line_step list \<Rightarrow> uart \<Rightarrow> uart \<times> bool list \<times> byte list" where
  "line_run [] s = (s, [], [])"
| "line_run (Write xs # us) s =
     (let (n, t) = reciva_uart_write_internal xs s; (u, bits, ys) = line_run us t in (u, bits, take n xs @ ys))"
| "line_run (Tick # us) s =
     (if t2start (ua_tcon s)
      then let t = uart_tx_interrupt s; (u, bits, ys) = line_run us t in (u, txd t # bits, ys)
      else line_run us s)"

lemma pending_write:
  assumes "ua_ok s" "reciva_uart_write_internal xs s = (n, t)"
  shows "unsent t = unsent s @ concat (map frame (take n xs))"
  using assms(1) write_internal [OF assms] unfolding unsent_def ua_ok_def
  by (cases "nextBit s"; cases "ring_contents (write_buffer s)") (simp_all add: Let_def)

lemma line_run_sends:
  assumes "ua_ok s" "ua_live s" "line_run us s = (t, bits, ys)"
  shows "ua_ok t \<and> ua_live t \<and> bits @ unsent t = unsent s @ concat (map frame ys)"
  using assms
proof (induction us s arbitrary: t bits ys rule: line_run.induct)
  case (2 xs us s)
  obtain n v where v: "reciva_uart_write_internal xs s = (n, v)" by fastforce
  obtain zs where "line_run us v = (t, bits, zs)" "ys = take n xs @ zs" using 2(4) v by (auto split: prod.splits)
  then show ?case
    using 2(1) [OF v [symmetric] refl] pending_write [OF 2(2) v] write_internal(1) [OF 2(2) v] write_live [OF 2(3), of xs]
    by (auto simp: v)
next
  case (3 us s)
  show ?case
  proof (cases "t2start (ua_tcon s)")
    case True
    then have r: "iTimerRunning s" using 3(3) by (auto simp: ua_ok_def)
    obtain cs where "line_run us (uart_tx_interrupt s) = (t, cs, ys)" "bits = txd (uart_tx_interrupt s) # cs"
      using 3(5) True by (auto simp: Let_def split: prod.splits)
    then show ?thesis using 3(1) [OF True refl] tx_interrupt_ok [OF 3(3) r] tick_sends [OF 3(3) r] by auto
  next
    case False
    then show ?thesis using 3(2) [OF False] 3(3-5) by simp
  qed
qed simp

lemma ok_init:
  assumes "uart_module_init PCLK s0 = Ret s" "length (ring_buf (write_buffer s0)) = BUF_SIZE"
    "length (ring_buf (read_buffer s0)) = BUF_SIZE" "bitoffset s0 < 8" "\<not> iTimerRunning s0"
  shows "ua_ok s" "ring_contents (write_buffer s) = []" "ring_contents (read_buffer s) = []" "nextBit s = START_BIT" "rx_driver s = rx_driver s0"
    "ua_live s"
proof -
  have "write_buffer s = uart_buf_init (write_buffer s0) \<and> read_buffer s = uart_buf_init (read_buffer s0) \<and> \<not> t2start (ua_tcon s) \<and>
      nextBit s = START_BIT \<and> bitoffset s = bitoffset s0 \<and> iTimerRunning s = iTimerRunning s0 \<and> rx_driver s = rx_driver s0"
    using assms(1) by (auto simp: uart_module_init_def set_baud_rate_def set_tx_baud_rate_def set_rx_baud_rate_def
        DEFAULT_BAUD_RATE_def Let_def split: if_splits)
  then show "ua_ok s" "ring_contents (write_buffer s) = []" "ring_contents (read_buffer s) = []" "nextBit s = START_BIT" "rx_driver s = rx_driver s0"
    "ua_live s"
    using assms by (simp_all add: ua_ok_def ua_live_def uart_buf_init_def ring_ok_def BUF_SIZE_def contents_reset [unfolded BUF_SIZE_def])
qed

lemma pending_running: "ua_ok s \<Longrightarrow> iTimerRunning s \<longleftrightarrow> unsent s \<noteq> []"
  by (cases "nextBit s"; cases "ring_contents (write_buffer s)") (auto simp: ua_ok_def unsent_def frame_def)

lemma ticks:
  assumes "ua_ok s" "ua_live s" "n \<le> length (unsent s)"
  shows "\<exists>t. line_run (replicate n Tick) s = (t, take n (unsent s), []) \<and> ua_ok t \<and> unsent t = drop n (unsent s)"
  using assms
proof (induction n arbitrary: s)
  case (Suc n)
  have r: "iTimerRunning s" using pending_running [OF Suc.prems(1)] Suc.prems(3) by auto
  then have live: "t2start (ua_tcon s)" using Suc.prems(2) by (simp add: ua_live_def)
  note t = tick_sends [OF Suc.prems(1) r]
  obtain u where "line_run (replicate n Tick) (uart_tx_interrupt s) = (u, take n (unsent (uart_tx_interrupt s)), [])"
      "ua_ok u" "unsent u = drop n (unsent (uart_tx_interrupt s))"
    using Suc.IH [OF tx_interrupt_ok [OF Suc.prems(1) r]] Suc.prems(3) arg_cong [OF t, of length] by auto
  then show ?case using live t by (simp add: Let_def)
qed simp


lemma length_frames: "length (concat (map frame xs)) = 10 * length xs"
  by (induction xs) (simp_all add: frame_def)

lemma uart_sends:
  assumes "ua_ok s" "\<not> iTimerRunning s" "length xs \<le> 1023"
  shows "\<exists>u t. reciva_uart_write_internal xs s = (length xs, u) \<and>
    line_run (replicate (10 * length xs) Tick) u = (t, concat (map frame xs), []) \<and> ua_ok t \<and> \<not> iTimerRunning t"
proof -
  obtain n u where w: "reciva_uart_write_internal xs s = (n, u)" by fastforce
  have n: "n = length xs" using write_internal(3) [OF assms(1) w] assms by (auto simp: BUF_SIZE_def ua_ok_def)
  have "unsent s = []" "ua_live s" using pending_running [OF assms(1)] assms(2) by (simp_all add: ua_live_def)
  then have live: "ua_live u" using write_live [of s xs] w by simp
  have "unsent s = []" by fact
  then have p: "unsent u = concat (map frame xs)" using pending_write [OF assms(1) w] n by simp
  obtain t where "line_run (replicate (10 * length xs) Tick) u = (t, concat (map frame xs), [])" "ua_ok t" "unsent t = []"
    using ticks [OF write_internal(1) [OF assms(1) w] live, of "10 * length xs"] p by (auto simp: length_frames)
  then show ?thesis using w n pending_running [of t] by simp
qed

lemma init_1200: "\<exists>s. uart_module_init 50000000 s0 = Ret s"
  by (simp add: uart_module_init_def set_baud_rate_def set_tx_baud_rate_def set_rx_baud_rate_def DEFAULT_BAUD_RATE_def Let_def)


section \<open>Messages received\<close>

text \<open>A byte that arrives without an error; what comes of several, and the messages the driver is given.\<close>

definition rx_byte :: "byte \<Rightarrow> uart \<Rightarrow> (byte list option \<times> uart) res" where
  "rx_byte x s = uart_rx_interrupt 0 1 (ucast x) s"

fun rx_run :: "byte list \<Rightarrow> uart \<Rightarrow> (byte list list \<times> uart) res" where
  "rx_run [] s = Ret ([], s)"
| "rx_run (x # xs) s =
     res_bind (rx_byte x s) (\<lambda>(m, s). res_map (\<lambda>(ms, s). ((case m of Some m \<Rightarrow> [m] | None \<Rightarrow> []) @ ms, s)) (rx_run xs s))"

lemma rx_byte: "rx_byte x s = process_uart_rx_data x s"
  by (simp add: rx_byte_def uart_rx_interrupt_def ucast_byte)

lemma take_message:
  assumes "ring_ok b" "length (ring_contents b) < n"
  shows "\<exists>b'. take_message n b = Ret (takeWhile (\<lambda>x. x \<noteq> 13) (ring_contents b), b') \<and> ring_ok b' \<and>
           ring_contents b' = dropWhile (\<lambda>x. x \<noteq> 13) (ring_contents b)"
  using assms
proof (induction n arbitrary: b)
  case (Suc n)
  show ?case
  proof (cases "ring_contents b")
    case Nil
    then show ?thesis using Suc.prems(1) ring_empty_iff [OF Suc.prems(1)] by simp
  next
    case (Cons x xs)
    note g = uart_ring.get [OF Suc.prems(1) Cons]
    have ne: "rd_index b \<noteq> wr_index b" using Cons ring_empty_iff [OF Suc.prems(1)] by auto
    show ?thesis
    proof (cases "x = 13")
      case False
      obtain b' where "take_message n (uart_buf_inc_rd_index b) = Ret (takeWhile (\<lambda>x. x \<noteq> 13) xs, b')" "ring_ok b'"
          "ring_contents b' = dropWhile (\<lambda>x. x \<noteq> 13) xs"
        using Suc.IH [of "uart_buf_inc_rd_index b"] Suc.prems Cons g(2) arg_cong [OF Cons, of length] by auto
      then show ?thesis using False g(1) ne Cons by simp
    qed (use Suc.prems(1) g(1) Cons in simp)
  qed
qed simp

lemma send_msg:
  assumes "ring_ok (read_buffer s)"
  shows "\<exists>b m. send_msg_to_rx_driver s = Ret (m, s\<lparr>read_buffer := b\<rparr>) \<and> ring_ok b"
proof -
  obtain b where "take_message BUF_SIZE (read_buffer s) = Ret (takeWhile (\<lambda>x. x \<noteq> 13) (ring_contents (read_buffer s)), b)" "ring_ok b"
    using take_message [OF assms, of BUF_SIZE] by (auto simp: ring_used_less)
  then show ?thesis
    by (intro exI [of _ "if ring_buf b ! rd_index b = 13 then uart_buf_inc_rd_index b else b"]) (simp add: send_msg_to_rx_driver_def)
qed

lemma process_rx_ok:
  assumes "ring_ok (read_buffer s)"
  shows "\<exists>b m. process_uart_rx_data x s = Ret (m, s\<lparr>read_buffer := b\<rparr>) \<and> ring_ok b"
proof -
  let ?s = "s\<lparr>read_buffer := uart_buf_inc_wr_index (read_buffer s\<lparr>ring_buf := (ring_buf (read_buffer s))[wr_index (read_buffer s) := x]\<rparr>)\<rparr>"
  have o: "ring_ok (read_buffer ?s)" using assms by simp
  then obtain b m where b: "send_msg_to_rx_driver ?s = Ret (m, s\<lparr>read_buffer := b\<rparr>)" "ring_ok b" using send_msg [of ?s] by auto
  show ?thesis
    by (cases "rx_driver s \<and> x = 13"; intro exI [of _ "if rx_driver s \<and> x = 13 then b else read_buffer ?s"])
      (use b o in \<open>auto simp: process_uart_rx_data_def Let_def\<close>)
qed

lemma rx_plain:
  assumes "ring_ok (read_buffer s)" "length (ring_contents (read_buffer s)) < BUF_SIZE - 1" "x \<noteq> 13"
  shows "\<exists>b. rx_byte x s = Ret (None, s\<lparr>read_buffer := b\<rparr>) \<and> ring_ok b \<and> ring_contents b = ring_contents (read_buffer s) @ [x]"
proof -
  let ?b = "uart_buf_inc_wr_index (read_buffer s\<lparr>ring_buf := (ring_buf (read_buffer s))[wr_index (read_buffer s) := x]\<rparr>)"
  show ?thesis
    by (rule exI [of _ ?b]) (use assms uart_ring.put [OF assms(1,2)] in \<open>simp add: rx_byte process_uart_rx_data_def Let_def\<close>)
qed

lemma rx_plains:
  assumes "ring_ok (read_buffer s)" "length (ring_contents (read_buffer s)) + length xs < BUF_SIZE" "13 \<notin> set xs"
  shows "\<exists>b. rx_run (xs @ ys) s = rx_run ys (s\<lparr>read_buffer := b\<rparr>) \<and> ring_ok b \<and> ring_contents b = ring_contents (read_buffer s) @ xs"
  using assms
proof (induction xs arbitrary: s)
  case Nil
  then show ?case by (intro exI [of _ "read_buffer s"]) simp
next
  case (Cons x xs)
  obtain b where b: "rx_byte x s = Ret (None, s\<lparr>read_buffer := b\<rparr>)" "ring_ok b" "ring_contents b = ring_contents (read_buffer s) @ [x]"
    using rx_plain [of s x] Cons.prems by (auto simp: less_diff_conv)
  show ?case using Cons.IH [of "s\<lparr>read_buffer := b\<rparr>"] Cons.prems b by (cases "rx_run (xs @ ys) (s\<lparr>read_buffer := b\<rparr>)") (auto simp: b(3) arg_cong [OF b(3), of length, simplified])
qed

lemma rx_return:
  assumes "ring_ok (read_buffer s)" "length (ring_contents (read_buffer s)) < BUF_SIZE - 1" "rx_driver s" "13 \<notin> set (ring_contents (read_buffer s))"
  shows "\<exists>b. rx_byte 13 s = Ret (Some (ring_contents (read_buffer s) @ [0]), s\<lparr>read_buffer := b\<rparr>) \<and> ring_ok b \<and> ring_contents b = []"
proof -
  let ?b = "uart_buf_inc_wr_index (read_buffer s\<lparr>ring_buf := (ring_buf (read_buffer s))[wr_index (read_buffer s) := 13]\<rparr>)"
  have c: "ring_ok ?b" "ring_contents ?b = ring_contents (read_buffer s) @ [13]"
    using assms(1) uart_ring.put [OF assms(1,2)] by simp_all
  have w: "takeWhile (\<lambda>x. x \<noteq> 13) (ring_contents ?b) = ring_contents (read_buffer s)" "dropWhile (\<lambda>x. x \<noteq> 13) (ring_contents ?b) = [13]"
    unfolding c(2) using assms(4) by (auto simp: takeWhile_tail dropWhile_append3)
  obtain d where d: "take_message BUF_SIZE ?b = Ret (ring_contents (read_buffer s), d)" "ring_ok d" "ring_contents d = [13]"
    using take_message [OF c(1), of BUF_SIZE] unfolding w by (auto simp: ring_used_less)
  note g = uart_ring.get [OF d(2,3)]
  show ?thesis
    by (rule exI [of _ "uart_buf_inc_rd_index d"])
      (use assms(3) d g in \<open>simp add: rx_byte process_uart_rx_data_def send_msg_to_rx_driver_def Let_def\<close>)
qed

text \<open>C14.
  Once the module is loaded and a driver is registered for what it receives, messages that the line brings without an
  error, of at most 1022 bytes, none of them a carriage return, each with a carriage return behind it, reach that
  driver whole, one by one and in the order they came, each with a NUL behind it, and nothing of them stays in the
  buffer.
\<close>

theorem uart_messages_delivered:
  assumes "uart_module_init PCLK (uart0 r) = Ret s0" "reciva_uart_register_rx_driver True s0 = (0, s)"
    "\<forall>m\<in>set ms. 13 \<notin> set m \<and> length m \<le> 1022"
  shows "\<exists>t. rx_run (concat (map (\<lambda>m. m @ [13]) ms)) s = Ret (map (\<lambda>m. m @ [0]) ms, t) \<and> ring_contents (read_buffer t) = []"
proof -
  have "rx_driver s" "ring_ok (read_buffer s)" "ring_contents (read_buffer s) = []"
    using ok_init [OF assms(1)] assms(2) by (auto simp: uart0_def ua_ok_def reciva_uart_register_rx_driver_def)
  then show ?thesis using assms(3)
  proof (induction ms arbitrary: s)
    case (Cons m ms)
    let ?ys = "13 # concat (map (\<lambda>m. m @ [13]) ms)"
    obtain b where b: "rx_run (m @ ?ys) s = rx_run ?ys (s\<lparr>read_buffer := b\<rparr>)" "ring_ok b" "ring_contents b = m"
      using rx_plains [of s m ?ys] Cons.prems by (auto simp: BUF_SIZE_def)
    obtain d where d: "rx_byte 13 (s\<lparr>read_buffer := b\<rparr>) = Ret (Some (m @ [0]), s\<lparr>read_buffer := d\<rparr>)" "ring_ok d" "ring_contents d = []"
      using rx_return [of "s\<lparr>read_buffer := b\<rparr>"] Cons.prems(1,4) b(2,3) arg_cong [OF b(3), of length] by (auto simp: BUF_SIZE_def)
    obtain t where t: "rx_run (concat (map (\<lambda>m. m @ [13]) ms)) (s\<lparr>read_buffer := d\<rparr>) = Ret (map (\<lambda>m. m @ [0]) ms, t)"
        "ring_contents (read_buffer t) = []"
      using Cons.IH [of "s\<lparr>read_buffer := d\<rparr>"] Cons.prems d(2,3) by auto
    have "rx_run (concat (map (\<lambda>m. m @ [13]) (m # ms))) s = rx_run ?ys (s\<lparr>read_buffer := b\<rparr>)" using b(1) by simp
    then show ?case using t d(1) by simp
  qed simp
qed

lemma uart_messages_delivered_witness:
  "\<exists>s0 s t. uart_module_init 50000000 (uart0 (\<lambda>_. 0)) = Ret s0 \<and> reciva_uart_register_rx_driver True s0 = (0, s) \<and>
     rx_run [0x41, 0x42, 13, 13, 0x43, 13] s = Ret ([[0x41, 0x42, 0], [0], [0x43, 0]], t) \<and> ring_contents (read_buffer t) = []"
proof -
  obtain s where s: "uart_module_init 50000000 (uart0 (\<lambda>_. 0)) = Ret s" using init_1200 by blast
  show ?thesis
    using uart_messages_delivered [OF s, of "s\<lparr>rx_driver := True\<rparr>" "[[0x41, 0x42], [], [0x43]]"] s
    by (auto simp: reciva_uart_register_rx_driver_def)
qed

text \<open>One byte more, and the carriage return makes the buffer look empty: the driver is given an empty message.\<close>

lemma rx_return_full:
  assumes "ring_ok (read_buffer s)" "ring_contents (read_buffer s) = x # xs" "length xs = BUF_SIZE - 2" "rx_driver s" "x \<noteq> 13"
  shows "\<exists>b. rx_byte 13 s = Ret (Some [0], s\<lparr>read_buffer := b\<rparr>) \<and> ring_ok b \<and> ring_contents b = []"
proof -
  let ?s = "read_buffer s" let ?b = "uart_buf_inc_wr_index (?s\<lparr>ring_buf := (ring_buf ?s)[wr_index ?s := 13]\<rparr>)"
  have u: "ring_used ?s = BUF_SIZE - 1" using arg_cong [OF assms(2), of length] assms(3) by (simp add: BUF_SIZE_def)
  have c: "ring_ok ?b" "ring_contents ?b = []" using assms(1) uart_ring.overflow [OF assms(1) u] by simp_all
  have "wr_index ?s \<noteq> rd_index ?s" using assms(2) ring_empty_iff [OF assms(1)] by auto
  then have "ring_buf ?b ! rd_index ?b = x"
    using uart_ring.get(1) [OF assms(1,2)] by (simp add: uart_buf_inc_wr_index_def)
  moreover have "rd_index ?b = wr_index ?b" using ring_empty_iff [OF c(1)] c(2) by simp
  ultimately have "take_message BUF_SIZE ?b = Ret ([], ?b)" "ring_buf ?b ! rd_index ?b \<noteq> 13"
    using assms(5) by (simp_all add: BUF_SIZE_def eval_nat_numeral)
  then show ?thesis using c assms(4)
    by (intro exI [of _ ?b]) (simp add: rx_byte process_uart_rx_data_def send_msg_to_rx_driver_def Let_def)
qed

text \<open> A message of 1023 bytes, one more than fit, is lost whole: the driver is given an empty message and the
  buffer is empty, as the write index has met the read index and no code looks for it.\<close>

theorem uart_long_message_lost:
  assumes "uart_module_init PCLK (uart0 r) = Ret s0" "reciva_uart_register_rx_driver True s0 = (0, s)"
    "13 \<notin> set m" "length m = 1023"
  shows "\<exists>t. rx_run (m @ [13]) s = Ret ([[0]], t) \<and> ring_contents (read_buffer t) = []"
proof -
  have s: "rx_driver s" "ring_ok (read_buffer s)" "ring_contents (read_buffer s) = []"
    using ok_init [OF assms(1)] assms(2) by (auto simp: uart0_def ua_ok_def reciva_uart_register_rx_driver_def)
  obtain b where b: "rx_run (m @ [13]) s = rx_run [13] (s\<lparr>read_buffer := b\<rparr>)" "ring_ok b" "ring_contents b = m"
    using rx_plains [of s m "[13]"] s assms by (auto simp: BUF_SIZE_def)
  obtain x xs where "m = x # xs" using assms(4) by (cases m) auto
  then show ?thesis
    using rx_return_full [of "s\<lparr>read_buffer := b\<rparr>" x xs] s b assms by (auto simp: BUF_SIZE_def)
qed

lemma uart_long_message_lost_witness:
  "\<exists>s0 s t. uart_module_init 50000000 (uart0 (\<lambda>_. 0)) = Ret s0 \<and> reciva_uart_register_rx_driver True s0 = (0, s) \<and>
     rx_run (replicate 1023 0x41 @ [13]) s = Ret ([[0]], t) \<and> ring_contents (read_buffer t) = []"
proof -
  obtain s where s: "uart_module_init 50000000 (uart0 (\<lambda>_. 0)) = Ret s" using init_1200 by blast
  show ?thesis
    using uart_long_message_lost [OF s, of "s\<lparr>rx_driver := True\<rparr>" "replicate 1023 0x41"] s
    by (auto simp: reciva_uart_register_rx_driver_def)
qed

section \<open>Reachable states\<close>

text \<open>What may happen to the module once it is loaded: writes of programs and of other modules, ticks of the timer
  while it runs, interrupts of the receiver with any register contents, reads, control requests that do not end in a
  panic, and the registration of a driver.\<close>

inductive ua_reach :: "int \<Rightarrow> uart \<Rightarrow> bool" for PCLK where
  init: "uart_module_init PCLK (uart0 r) = Ret s \<Longrightarrow> ua_reach PCLK s"
| written: "ua_reach PCLK s \<Longrightarrow> uart_write count xs s = Ret (n, t) \<Longrightarrow> ua_reach PCLK t"
| internal: "ua_reach PCLK s \<Longrightarrow> ua_reach PCLK (snd (reciva_uart_write_internal xs s))"
| tick: "ua_reach PCLK s \<Longrightarrow> t2start (ua_tcon s) \<Longrightarrow> ua_reach PCLK (uart_tx_interrupt s)"
| receive: "ua_reach PCLK s \<Longrightarrow> uart_rx_interrupt e f u s = Ret (m, t) \<Longrightarrow> ua_reach PCLK t"
| read: "ua_reach PCLK s \<Longrightarrow> ua_reach PCLK (snd (snd (uart_read count ok s)))"
| ioctl: "ua_reach PCLK s \<Longrightarrow> uart_ioctl PCLK cmd s = Ret (q, vs, t) \<Longrightarrow> ua_reach PCLK t"
| register: "ua_reach PCLK s \<Longrightarrow> ua_reach PCLK (snd (reciva_uart_register_rx_driver d s))"

lemma get_bytes_ok: "ring_ok b \<Longrightarrow> ring_ok (snd (get_bytes n b))"
  by (induction n b rule: get_bytes.induct) (auto split: prod.splits)

lemma ok_read_buffer: "ua_ok s \<Longrightarrow> ring_ok b \<Longrightarrow> ua_ok (s\<lparr>read_buffer := b\<rparr>)"
  by (auto simp: ua_ok_def)

lemma rx_interrupt_ok:
  assumes "ua_ok s"
  shows "\<exists>m t. uart_rx_interrupt e f u s = Ret (m, t) \<and> ua_ok t"
proof -
  obtain b m where "process_uart_rx_data (ucast u) s = Ret (m, s\<lparr>read_buffer := b\<rparr>)" "ring_ok b"
    using process_rx_ok [of s "ucast u"] assms by (auto simp: ua_ok_def)
  then show ?thesis using assms ok_read_buffer [OF assms, of b] by (auto simp: uart_rx_interrupt_def)
qed

lemma ioctl_ok:
  assumes "ua_ok s" "uart_ioctl PCLK cmd s = Ret (q, vs, t)"
  shows "ua_ok t"
proof (cases cmd)
  case (IOC_UART_SET_BAUD r)
  then show ?thesis using assms
    by (cases r) (auto simp: uart_ioctl_def set_baud_rate_def set_tx_baud_rate_def set_rx_baud_rate_def Let_def ua_ok_def split: if_splits)
qed (use assms in \<open>auto simp: uart_ioctl_def ua_ok_def uart_buf_init_def ring_ok_def BUF_SIZE_def split: if_splits\<close>)

lemma reach_ok: "ua_reach PCLK s \<Longrightarrow> ua_ok s"
proof (induction rule: ua_reach.induct)
  case (init r s)
  then show ?case by (rule ok_init(1)) (simp_all add: uart0_def)
next
  case (written s count xs n t)
  then have "reciva_uart_write_internal (case xs of Some xs \<Rightarrow> take count xs | None \<Rightarrow> replicate count 0) s = (n, t)"
    by (simp add: uart_write_def split: if_splits)
  then show ?case using write_internal(1) written.IH by blast
next
  case (internal s xs)
  then show ?case using write_internal(1) by (metis prod.collapse)
next
  case (tick s)
  then show ?case by (metis tx_interrupt_ok ua_ok_def)
next
  case (receive s e f u m t)
  then show ?case using rx_interrupt_ok [of s e f u] by auto
next
  case (read s count ok)
  have "ring_ok (snd (get_bytes count (read_buffer s)))" using read.IH get_bytes_ok by (simp add: ua_ok_def)
  then show ?case using read.IH by (auto simp: uart_read_def Let_def ok_read_buffer split: prod.splits)
next
  case (ioctl s cmd q vs t)
  then show ?case by (blast intro: ioctl_ok)
next
  case (register s d)
  then show ?case by (auto simp: reciva_uart_register_rx_driver_def ua_ok_def)
qed

text \<open>C26. Every state that the module reaches, by writes, reads, ticks of the timer while it runs, interrupts of the
  receiver, control requests and registrations that return, is well-typed: the indexes of both buffers lie in their
  1024 bytes, the bit sent next is one of the eight, the driver's variable for the timer is set exactly while there are
  bytes to send, the timer runs only while it is set (a change of the baud rate may have stopped the timer, but not
  reset the variable), a byte is only in progress when there is one; and the interrupt of the receiver returns,
  whatever the registers hold.\<close>

theorem uart_states_typed:
  assumes "ua_reach PCLK s"
  shows "rd_index (write_buffer s) < 1024 \<and> wr_index (write_buffer s) < 1024 \<and> length (ring_buf (write_buffer s)) = 1024 \<and>
    rd_index (read_buffer s) < 1024 \<and> wr_index (read_buffer s) < 1024 \<and> length (ring_buf (read_buffer s)) = 1024 \<and>
    bitoffset s < 8 \<and> (iTimerRunning s \<longleftrightarrow> rd_index (write_buffer s) \<noteq> wr_index (write_buffer s)) \<and>
    (t2start (ua_tcon s) \<longrightarrow> iTimerRunning s) \<and>
    (nextBit s \<noteq> START_BIT \<longrightarrow> rd_index (write_buffer s) \<noteq> wr_index (write_buffer s)) \<and>
    (\<exists>m t. uart_rx_interrupt uerstat2 ufstat2 urhx2 s = Ret (m, t))"
proof -
  have "ua_ok s" by (rule reach_ok [OF assms])
  moreover obtain m t where "uart_rx_interrupt uerstat2 ufstat2 urhx2 s = Ret (m, t)"
    using rx_interrupt_ok [OF calculation] by blast
  ultimately show ?thesis unfolding ua_ok_def by (auto simp: ring_empty_iff ring_ok_def BUF_SIZE_def)
qed

lemma uart_states_typed_witness:
  "\<exists>s. ua_reach 50000000 s \<and> iTimerRunning s \<and> nextBit s = DATA \<and> rd_index (write_buffer s) \<noteq> wr_index (write_buffer s)"
proof -
  obtain s where s: "uart_module_init 50000000 (uart0 (\<lambda>_. 0)) = Ret s" using init_1200 by blast
  have ok: "ua_ok s" "\<not> iTimerRunning s" "nextBit s = START_BIT" using ok_init [OF s] by (auto simp: uart0_def ua_ok_def)
  obtain n u where u: "reciva_uart_write_internal [0x41] s = (n, u)" by fastforce
  have c: "ua_ok u" "ring_contents (write_buffer u) = [0x41]" "nextBit u = START_BIT"
    using write_internal [OF ok(1) u] ok by (simp_all add: ua_ok_def BUF_SIZE_def)
  then have r: "iTimerRunning u" by (simp add: ua_ok_def)
  have "ua_live u" using write_live [OF ok_init(6) [OF s], of "[0x41]"] u by (simp add: uart0_def)
  then have on: "t2start (ua_tcon u)" using r by (simp add: ua_live_def)
  have "ua_reach 50000000 u" using ua_reach.internal [OF ua_reach.init [OF s], of "[0x41]"] u by simp
  then have w: "ua_reach 50000000 (uart_tx_interrupt u)" by (rule ua_reach.tick) (rule on)
  have n: "nextBit (uart_tx_interrupt u) = DATA" using c by (simp add: uart_tx_interrupt_def clock_bit_out_def Let_def)
  show ?thesis using w n uart_states_typed [OF w] by auto
qed

section \<open>Changing the baud rate while bytes are sent\<close>

lemma no_ticks:
  assumes "iTimerRunning s" "\<not> t2start (ua_tcon s)"
  shows "\<exists>t ys. line_run us s = (t, [], ys) \<and> iTimerRunning t \<and> \<not> t2start (ua_tcon t)"
  using assms
proof (induction us s rule: line_run.induct)
  case (2 xs us s)
  obtain n v where v: "reciva_uart_write_internal xs s = (n, v)" by fastforce
  then have "iTimerRunning v" "\<not> t2start (ua_tcon v)"
    using 2(2,3) by (auto simp: reciva_uart_write_internal_def kick_uart_send_ticker_def Let_def split: prod.splits if_splits)
  then show ?case using 2(1) [OF v [symmetric] refl] v by auto
qed auto

text \<open> A change of the baud rate while bytes are sent stops the line for good: the request succeeds and stops the
  timer, but the variable that says it runs stays set, so no write starts it again; whatever is written
  afterwards, no bit is sent, and the bytes that waited still wait.\<close>

theorem uart_baud_change_stalls:
  assumes "ua_reach PCLK s" "rd_index (write_buffer s) \<noteq> wr_index (write_buffer s)"
    "uart_ioctl PCLK (IOC_UART_SET_BAUD (Some baudrate)) s = Ret (0, vs, t)"
  shows "\<exists>u ys. line_run us t = (u, [], ys) \<and> iTimerRunning u \<and> \<not> t2start (ua_tcon u)"
proof -
  have "ua_ok s" by (rule reach_ok [OF assms(1)])
  then have "iTimerRunning s" using assms(2) by (auto simp: ua_ok_def ring_empty_iff)
  then have "iTimerRunning t" "\<not> t2start (ua_tcon t)"
    using assms(3) by (auto simp: uart_ioctl_def set_baud_rate_def set_tx_baud_rate_def set_rx_baud_rate_def Let_def split: if_splits)
  then show ?thesis using no_ticks by blast
qed

lemma uart_baud_change_stalls_witness:
  "\<exists>s t vs u ys. ua_reach 50000000 s \<and> uart_ioctl 50000000 (IOC_UART_SET_BAUD (Some 9600)) s = Ret (0, vs, t) \<and>
     line_run [Write [0x42], Tick, Tick] t = (u, [], ys)"
proof -
  obtain s where s: "uart_module_init 50000000 (uart0 (\<lambda>_. 0)) = Ret s" using init_1200 by blast
  have ok: "ua_ok s" "ring_contents (write_buffer s) = []" using ok_init [OF s] by (auto simp: uart0_def)
  obtain n u where u: "reciva_uart_write_internal [0x41] s = (n, u)" by fastforce
  have c: "ua_ok u" "ring_contents (write_buffer u) = [0x41]" using write_internal [OF ok(1) u] ok(2) by (simp_all add: BUF_SIZE_def)
  have r: "ua_reach 50000000 u" using ua_reach.internal [OF ua_reach.init [OF s], of "[0x41]"] u by simp
  have ne: "rd_index (write_buffer u) \<noteq> wr_index (write_buffer u)"
    using c ring_empty_iff [of "write_buffer u"] by (auto simp: ua_ok_def)
  obtain t where "uart_ioctl 50000000 (IOC_UART_SET_BAUD (Some 9600)) u = Ret (0, [], t)"
    by (simp add: uart_ioctl_def set_baud_rate_def set_tx_baud_rate_def set_rx_baud_rate_def Let_def)
  then show ?thesis using uart_baud_change_stalls [OF r ne, of 9600 "[]" t "[Write [0x42], Tick, Tick]"] r by blast
qed

end
