(* ===== verification/Slave_Mode.thy ===== *)
theory Slave_Mode
  imports Uart_Line
begin

text \<open>
  The radio as the slave of another device: the controller \<^verbatim>\<open>reciva_slave_mode_controller.c\<close>, which keeps one
  message for the application, and its drivers for the serial line, \<^verbatim>\<open>reciva_slave_mode_driver_serial.c\<close>, and for
  I2C, \<^verbatim>\<open>reciva_slave_mode_driver_i2c.c\<close>, which does nothing.
\<close>

section \<open>The controller\<close>

datatype smc_driver_id_t = SMC_DRIVER_UNKNOWN | SMC_DRIVER_I2C | SMC_DRIVER_SERIAL

definition smc_driver_id_value :: "smc_driver_id_t \<Rightarrow> int" where
  "smc_driver_id_value d = (case d of SMC_DRIVER_UNKNOWN \<Rightarrow> 0 | SMC_DRIVER_I2C \<Rightarrow> 1 | SMC_DRIVER_SERIAL \<Rightarrow> 2)"

text \<open>
  The functions of a driver, which work on the serial line; one that is missing is None.  \<open>smc_write\<close> is given
  whether memory can be allocated.
\<close>

record reciva_smc_driver_t =
  smc_reset :: "uart \<Rightarrow> uart"
  smc_write_data :: "(bool \<Rightarrow> byte list \<Rightarrow> uart \<Rightarrow> uart res) option"
  smc_get_driver_id :: "smc_driver_id_t option"
  smc_get_tx_buffer_empty :: "(uart \<Rightarrow> int) option"

record smc =
  smc_regs :: io_regs
  smc_driver :: "reciva_smc_driver_t option"
  message :: "byte list option"
  message_length :: nat
  smc_uart :: uart

definition SMC_GPCCON :: nat where "SMC_GPCCON = 0x20"
definition SMC_GPCDAT :: nat where "SMC_GPCDAT = 0x24"
definition SMC_GPCUP :: nat where "SMC_GPCUP = 0x28"

definition reciva_smc_register_driver :: "reciva_smc_driver_t \<Rightarrow> smc \<Rightarrow> int \<times> smc" where
  "reciva_smc_register_driver d s = (0, s\<lparr>smc_driver := Some d\<rparr>)"

text \<open>A message replaces the one before.  Without memory it is copied to address zero.\<close>

definition reciva_smc_command :: "bool \<Rightarrow> byte list \<Rightarrow> nat \<Rightarrow> smc \<Rightarrow> smc res" where
  "reciva_smc_command memory data len s =
     (let s = s\<lparr>message := None\<rparr>
      in if len > 0
         then if memory then Ret (s\<lparr>message := Some (take len data), message_length := len\<rparr>) else Fault
         else Ret s)"

definition smc_poll :: "smc \<Rightarrow> bool" where
  "smc_poll s \<longleftrightarrow> message s \<noteq> None"

text \<open>The result, what was copied to the program, and the state; \<open>ok\<close> is whether it can be copied.\<close>

definition smc_read :: "nat \<Rightarrow> bool \<Rightarrow> smc \<Rightarrow> int \<times> byte list \<times> smc" where
  "smc_read count ok s =
     (case message s of
        None \<Rightarrow> (- 14, [], s)
      | Some m \<Rightarrow>
          let n = (if message_length s < count then message_length s else count); s = s\<lparr>message := None\<rparr>
          in if ok then (int n, take n m, s) else (- 14, [], s))"

text \<open>What cannot be copied from the program is zero.\<close>

definition smc_write :: "bool \<Rightarrow> nat \<Rightarrow> byte list option \<Rightarrow> smc \<Rightarrow> (nat \<times> smc) res" where
  "smc_write memory count buf s =
     (if KERNEL_STACK < count + 1 then Fault else
      let temp_buf = (case buf of Some xs \<Rightarrow> take count xs | None \<Rightarrow> replicate count 0)
      in case smc_driver s of
           None \<Rightarrow> Ret (count, s)
         | Some d \<Rightarrow>
             (case smc_write_data d of
                None \<Rightarrow> Ret (count, s)
              | Some f \<Rightarrow> res_map (\<lambda>u. (count, s\<lparr>smc_uart := u\<rparr>)) (f memory temp_buf (smc_uart s))))"

definition smc_set_level_nmrdy :: "bool \<Rightarrow> smc \<Rightarrow> smc" where
  "smc_set_level_nmrdy high s =
     (if \<not> high then s\<lparr>smc_regs := reg_write (push_bit 8 0) (push_bit 8 1) SMC_GPCDAT (smc_regs s)\<rparr>
      else s\<lparr>smc_regs := reg_write (push_bit 8 1) (push_bit 8 0) SMC_GPCDAT (smc_regs s)\<rparr>)"

definition smc_set_level_ninterrupt :: "bool \<Rightarrow> smc \<Rightarrow> smc" where
  "smc_set_level_ninterrupt high s =
     (if \<not> high then s\<lparr>smc_regs := reg_write (push_bit 9 0) (push_bit 9 1) SMC_GPCDAT (smc_regs s)\<rparr>
      else s\<lparr>smc_regs := reg_write (push_bit 9 1) (push_bit 9 0) SMC_GPCDAT (smc_regs s)\<rparr>)"

definition smc_reset_module :: "smc \<Rightarrow> smc" where
  "smc_reset_module s =
     (let s = (case smc_driver s of Some d \<Rightarrow> s\<lparr>smc_uart := smc_reset d (smc_uart s)\<rparr> | None \<Rightarrow> s);
          s = smc_set_level_nmrdy False (smc_set_level_ninterrupt True s)
      in s\<lparr>message := None\<rparr>)"

definition attention_req :: "smc \<Rightarrow> smc" where
  "attention_req s = smc_set_level_ninterrupt False s"

definition attention_ack :: "smc \<Rightarrow> smc" where
  "attention_ack s = smc_set_level_ninterrupt True s"

datatype smc_request = IOC_SMC_RESET | IOC_SMC_ATTENTION_REQ | IOC_SMC_ATTENTION_ACK
  | IOC_SMC_GET_DRIVER_ID bool | IOC_SMC_GET_TX_BUFFER_EMPTY bool | IOC_SMC_OTHER

text \<open>The result, what is put to the program, and the state.\<close>

definition smc_ioctl :: "smc_request \<Rightarrow> smc \<Rightarrow> int \<times> int list \<times> smc" where
  "smc_ioctl cmd s =
     (case cmd of
        IOC_SMC_RESET \<Rightarrow> (0, [], smc_reset_module s)
      | IOC_SMC_ATTENTION_REQ \<Rightarrow> (0, [], attention_req s)
      | IOC_SMC_ATTENTION_ACK \<Rightarrow> (0, [], attention_ack s)
      | IOC_SMC_GET_DRIVER_ID ok \<Rightarrow>
          let driver_id = (case Option.bind (smc_driver s) smc_get_driver_id of Some i \<Rightarrow> i | None \<Rightarrow> SMC_DRIVER_UNKNOWN)
          in if ok then (0, [smc_driver_id_value driver_id], s) else (- 14, [], s)
      | IOC_SMC_GET_TX_BUFFER_EMPTY ok \<Rightarrow>
          let tx_empty = (case Option.bind (smc_driver s) smc_get_tx_buffer_empty of Some f \<Rightarrow> f (smc_uart s) | None \<Rightarrow> 0)
          in if ok then (0, [tx_empty], s) else (- 14, [], s)
      | IOC_SMC_OTHER \<Rightarrow> (- 19, [], s))"

definition smc_module_init :: "smc \<Rightarrow> smc" where
  "smc_module_init s =
     (let r = smc_regs s;
          r = reg_write (push_bit 8 1) (push_bit 8 0) SMC_GPCDAT r;
          r = reg_write (push_bit 8 1) (push_bit 8 0) SMC_GPCUP r;
          r = reg_write (push_bit 16 1) (push_bit 16 3) SMC_GPCCON r;
          r = reg_write (push_bit 9 1) (push_bit 9 0) SMC_GPCDAT r;
          r = reg_write (push_bit 9 1) (push_bit 9 0) SMC_GPCUP r;
          r = reg_write (push_bit 18 1) (push_bit 18 3) SMC_GPCCON r
      in s\<lparr>smc_regs := r\<rparr>)"

definition smc0 :: "io_regs \<Rightarrow> uart \<Rightarrow> smc" where
  "smc0 r u = \<lparr>smc_regs = r, smc_driver = None, message = None, message_length = 0, smc_uart = u\<rparr>"

section \<open>The driver of the serial line\<close>

text \<open>The lower-case hexadecimal digit that \<^verbatim>\<open>%1x\<close> prints.\<close>

definition hex_char :: "byte \<Rightarrow> byte" where
  "hex_char n = (if n < 10 then 0x30 + n else 0x57 + n)"

fun hex_encode :: "byte list \<Rightarrow> byte list" where
  "hex_encode [] = []"
| "hex_encode (x # xs) =
     (let msn = drop_bit 4 (x AND 0xf0); lsn = x AND 0x0f in hex_char msn # hex_char lsn # hex_encode xs)"

definition serial_write_data :: "bool \<Rightarrow> byte list \<Rightarrow> uart \<Rightarrow> uart res" where
  "serial_write_data memory data u =
     (if memory then Ret (snd (reciva_uart_write_internal (hex_encode data @ [0x0D]) u)) else Fault)"

text \<open>The value of a string of one character, as \<^verbatim>\<open>simple_strtol\<close> reads it: zero if it is no digit.\<close>

definition hex_value :: "byte \<Rightarrow> byte" where
  "hex_value c =
     (if 0x30 \<le> c \<and> c \<le> 0x39 then c - 0x30
      else if 0x41 \<le> c \<and> c \<le> 0x46 then c - 0x37
      else if 0x61 \<le> c \<and> c \<le> 0x66 then c - 0x57 else 0)"

text \<open>The characters are replaced by the bytes they stand for in the same memory, \<open>n\<close> bytes from the one at \<open>k\<close>.\<close>

fun hex_decode :: "nat \<Rightarrow> nat \<Rightarrow> byte list \<Rightarrow> byte list" where
  "hex_decode 0 k data = data"
| "hex_decode (Suc n) k data =
     (let msn = hex_value (data ! (k * 2)); lsn = hex_value (data ! (k * 2 + 1))
      in hex_decode n (k + 1) (data[k := (push_bit 4 msn AND 0xf0) OR (lsn AND 0x0f)]))"

definition serial_uart_rx_data :: "bool \<Rightarrow> byte list \<Rightarrow> smc \<Rightarrow> smc res" where
  "serial_uart_rx_data memory data s =
     res_bind (strlen data) (\<lambda>len.
       if len > 0 \<and> len mod 2 = 0
       then reciva_smc_command memory (hex_decode (nat (len div 2)) 0 data) (nat (len div 2)) s
       else Ret s)"

definition serial_driver :: reciva_smc_driver_t where
  "serial_driver =
     \<lparr>smc_reset = (\<lambda>u. u), smc_write_data = Some serial_write_data, smc_get_driver_id = Some SMC_DRIVER_SERIAL,
      smc_get_tx_buffer_empty = Some reciva_uart_tx_buffer_empty\<rparr>"

text \<open>Loading the driver: neither registration fails.\<close>

definition serial_module_init :: "smc \<Rightarrow> smc" where
  "serial_module_init s =
     (let s = snd (reciva_smc_register_driver serial_driver s)
      in s\<lparr>smc_uart := snd (reciva_uart_register_rx_driver True (smc_uart s))\<rparr>)"

text \<open>The interrupt of the receiver with the driver loaded: a message goes on to the controller.\<close>

definition serial_rx_interrupt :: "bool \<Rightarrow> 32 word \<Rightarrow> 32 word \<Rightarrow> 32 word \<Rightarrow> smc \<Rightarrow> smc res" where
  "serial_rx_interrupt memory e f x s =
     res_bind (uart_rx_interrupt e f x (smc_uart s)) (\<lambda>(m, u).
       let s = s\<lparr>smc_uart := u\<rparr> in case m of Some m \<Rightarrow> serial_uart_rx_data memory m s | None \<Rightarrow> Ret s)"

section \<open>The driver of I2C\<close>

definition smc_i2c_write_data :: "bool \<Rightarrow> byte list \<Rightarrow> uart \<Rightarrow> uart res" where
  "smc_i2c_write_data memory data u = Ret u"

definition smc_i2c_driver :: reciva_smc_driver_t where
  "smc_i2c_driver =
     \<lparr>smc_reset = (\<lambda>u. u), smc_write_data = Some smc_i2c_write_data, smc_get_driver_id = Some SMC_DRIVER_I2C,
      smc_get_tx_buffer_empty = None\<rparr>"

definition smc_i2c_module_init :: "smc \<Rightarrow> int \<times> smc" where
  "smc_i2c_module_init s = reciva_smc_register_driver smc_i2c_driver s"

section \<open>Hexadecimal\<close>

lemma nibbles: "m < 16 \<Longrightarrow> hex_value (hex_char m) = m \<and> hex_char m \<noteq> 0 \<and> hex_char m \<noteq> 13"
proof -
  assume "m < 16"
  then have "unat m < 16" by (simp add: word_less_nat_alt)
  moreover have "\<forall>i\<in>set [0..<16]. let m = of_nat i in hex_value (hex_char m) = m \<and> hex_char m \<noteq> 0 \<and> hex_char m \<noteq> 13"
    by code_simp
  ultimately have "let m = of_nat (unat m) in hex_value (hex_char m) = m \<and> hex_char m \<noteq> 0 \<and> hex_char m \<noteq> 13" by (auto simp del: of_nat_unat)
  then show ?thesis by (simp add: Let_def)
qed

lemma halves:
  "drop_bit 4 (x AND 0xf0) < 16" "x AND 0x0f < 16"
  "(push_bit 4 (drop_bit 4 (x AND 0xf0)) AND 0xf0) OR ((x AND 0x0f) AND 0x0f) = x" for x :: byte
proof -
  have f: "(0xf0 :: byte) = push_bit 4 (mask 4)" "(0x0f :: byte) = mask 4" by (simp_all add: mask_eq_exp_minus_1)
  show "x AND 0x0f < 16" by (rule le_less_trans [OF word_and_le1]) simp
  have "unat (drop_bit 4 (x AND 0xf0)) < 16"
    using unsigned_less [of "x AND 0xf0", where 'a = nat] by (simp add: drop_bit_eq_div unat_div)
  then show "drop_bit 4 (x AND 0xf0) < 16" by (simp add: word_less_nat_alt)
  show "(push_bit 4 (drop_bit 4 (x AND 0xf0)) AND 0xf0) OR ((x AND 0x0f) AND 0x0f) = x"
    unfolding f by (rule bit_word_eqI) (auto simp: bit_simps)
qed

lemma length_hex [simp]: "length (hex_encode xs) = 2 * length xs"
  by (induction xs) (simp_all add: Let_def)

lemma hex_plain: "0 \<notin> set (hex_encode xs)" "13 \<notin> set (hex_encode xs)"
  using nibbles [OF halves(1)] nibbles [OF halves(2)] by (induction xs) (auto simp: Let_def)

lemma hex_decode:
  assumes "drop (2 * k) data = hex_encode ys @ r" "2 * (k + length ys) \<le> length data"
  shows "take (k + length ys) (hex_decode (length ys) k data) = take k data @ ys"
  using assms
proof (induction ys arbitrary: k data)
  case (Cons y ys)
  let ?m = "hex_char (drop_bit 4 (y AND 0xf0))" and ?l = "hex_char (y AND 0x0f)"
  have d: "drop (2 * k) data = ?m # ?l # hex_encode ys @ r" using Cons.prems(1) by (simp add: Let_def)
  then have n: "data ! (k * 2) = ?m" "data ! Suc (k * 2) = ?l"
    using nth_drop [of "2 * k" data 0] nth_drop [of "2 * k" data 1] Cons.prems(2) by (simp_all add: mult.commute)
  have v: "(push_bit 4 (hex_value ?m) AND 0xf0) OR (hex_value ?l AND 0x0f) = y"
    using nibbles [OF halves(1)] nibbles [OF halves(2)] halves(3) by simp
  let ?d = "data[k := y]"
  have "drop (2 * Suc k) ?d = hex_encode ys @ r" using arg_cong [OF d, of "drop 2"] by (simp add: add.commute)
  then have "take (Suc k + length ys) (hex_decode (length ys) (Suc k) ?d) = take (Suc k) ?d @ ys"
    using Cons.prems(2) by (intro Cons.IH) simp_all
  moreover have "take (Suc k) ?d = take k data @ [y]" using Cons.prems(2) by (simp add: take_Suc_conv_app_nth)
  ultimately show ?case using v by (simp add: n Let_def)
qed simp

lemma serial_decodes:
  assumes "xs \<noteq> []"
  shows "serial_uart_rx_data True (hex_encode xs @ [0]) s = Ret (s\<lparr>message := Some xs, message_length := length xs\<rparr>)"
proof -
  have "cstr (hex_encode xs @ [0]) = hex_encode xs" using hex_plain(1) [of xs] by (auto simp: cstr_def takeWhile_tail)
  then show ?thesis
    using hex_decode [of 0 "hex_encode xs @ [0]" xs "[0]"] assms
    by (simp add: serial_uart_rx_data_def strlen_def reciva_smc_command_def nat_mult_distrib)
qed

section \<open>From one radio to another\<close>

text \<open>What a receiver makes of the bits on the line, ten at a time.\<close>

function unframe :: "bool list \<Rightarrow> byte list" where
  "unframe bits = (if length bits < 10 then [] else horner_sum of_bool 2 (take 8 (tl bits)) # unframe (drop 10 bits))"
  by auto
termination by (relation "measure length") auto

declare unframe.simps [simp del]

lemma unframe_frame: "unframe (frame x @ bits) = x # unframe bits"
proof -
  have "horner_sum of_bool 2 (map (bit x) [0..<8]) = x"
    using take_bit_length_eq [of x] by (simp only: horner_sum_bit_eq_take_bit) simp
  then show ?thesis by (subst unframe.simps) (simp add: frame_def del: upt_Suc)
qed

lemma unframe_frames: "unframe (concat (map frame xs)) = xs"
  by (induction xs) (simp_all add: unframe_frame, simp add: unframe.simps)

text \<open>The bytes arrive one by one, each with an interrupt.\<close>

fun serial_receive :: "bool \<Rightarrow> byte list \<Rightarrow> smc \<Rightarrow> smc res" where
  "serial_receive memory [] s = Ret s"
| "serial_receive memory (x # xs) s = res_bind (serial_rx_interrupt memory 0 1 (ucast x) s) (serial_receive memory xs)"

lemma receive_plains:
  assumes "ring_ok (read_buffer (smc_uart s))" "length (ring_contents (read_buffer (smc_uart s))) + length xs < BUF_SIZE" "13 \<notin> set xs"
  shows "\<exists>b. serial_receive memory (xs @ ys) s = serial_receive memory ys (s\<lparr>smc_uart := (smc_uart s)\<lparr>read_buffer := b\<rparr>\<rparr>) \<and>
    ring_ok b \<and> ring_contents b = ring_contents (read_buffer (smc_uart s)) @ xs"
  using assms
proof (induction xs arbitrary: s)
  case Nil
  then show ?case by (intro exI [of _ "read_buffer (smc_uart s)"]) simp
next
  case (Cons x xs)
  let ?u = "smc_uart s"
  obtain b where b: "uart_rx_interrupt 0 1 (ucast x) ?u = Ret (None, ?u\<lparr>read_buffer := b\<rparr>)" "ring_ok b"
      "ring_contents b = ring_contents (read_buffer ?u) @ [x]"
    using rx_plain [of ?u x] Cons.prems by (auto simp: less_diff_conv rx_byte_def)
  let ?s = "s\<lparr>smc_uart := ?u\<lparr>read_buffer := b\<rparr>\<rparr>"
  obtain c where "serial_receive memory (xs @ ys) ?s = serial_receive memory ys (s\<lparr>smc_uart := ?u\<lparr>read_buffer := c\<rparr>\<rparr>)"
      "ring_ok c" "ring_contents c = ring_contents (read_buffer ?u) @ x # xs"
    using Cons.IH [of ?s] Cons.prems b(2,3) arg_cong [OF b(3), of length] by auto
  then show ?case using b(1) by (auto simp: serial_rx_interrupt_def)
qed

lemma receive_message:
  assumes "ring_ok (read_buffer (smc_uart s))" "ring_contents (read_buffer (smc_uart s)) = []" "rx_driver (smc_uart s)"
    "xs \<noteq> []" "length xs \<le> 511"
  shows "\<exists>b. serial_receive True (hex_encode xs @ [13]) s =
      Ret (s\<lparr>smc_uart := (smc_uart s)\<lparr>read_buffer := b\<rparr>, message := Some xs, message_length := length xs\<rparr>) \<and>
    ring_ok b \<and> ring_contents b = []"
proof -
  obtain b where b: "serial_receive True (hex_encode xs @ [13]) s = serial_receive True [13] (s\<lparr>smc_uart := (smc_uart s)\<lparr>read_buffer := b\<rparr>\<rparr>)"
      "ring_ok b" "ring_contents b = hex_encode xs"
    using receive_plains [of s "hex_encode xs" True "[13]"] assms hex_plain(2) by (auto simp: BUF_SIZE_def)
  let ?u = "(smc_uart s)\<lparr>read_buffer := b\<rparr>"
  obtain c where c: "uart_rx_interrupt 0 1 13 ?u = Ret (Some (hex_encode xs @ [0]), ?u\<lparr>read_buffer := c\<rparr>)" "ring_ok c" "ring_contents c = []"
    using rx_return [of ?u] b(2,3) arg_cong [OF b(3), of length] assms(3,5) hex_plain(2) [of xs] by (auto simp: BUF_SIZE_def rx_byte_def)
  show ?thesis
    by (rule exI [of _ c]) (use b(1) c assms(4) serial_decodes in \<open>simp add: serial_rx_interrupt_def Let_def\<close>)
qed

lemma serial_init:
  assumes "uart_module_init PCLK (uart0 r) = Ret u" "s = serial_module_init (smc0 q u)"
  shows "ua_ok (smc_uart s)" "ring_contents (write_buffer (smc_uart s)) = []" "ring_contents (read_buffer (smc_uart s)) = []"
    "rx_driver (smc_uart s)" "smc_driver s = Some serial_driver" "\<not> iTimerRunning (smc_uart s)"
  using ok_init [OF assms(1)] assms(2)
  by (auto simp: uart0_def serial_module_init_def reciva_smc_register_driver_def reciva_uart_register_rx_driver_def smc0_def ua_ok_def Let_def)

text \<open>C6. A message of 1 to 511 bytes crosses from one radio to another: in both the serial line and the slave mode
  have just been loaded with the serial driver and nothing has been sent or received yet, there is memory, and the
  receiver is on the other's line.  What a program writes to the controller of the first becomes hexadecimal, the line
  carries it bit by bit, and after as many ticks as there are bits the second radio holds it as its message, which a
  program that reads at least so many bytes gets, once.\<close>

theorem serial_message_crosses:
  assumes "uart_module_init PCLK (uart0 r) = Ret u" "a = serial_module_init (smc0 q u)"
    "uart_module_init PCLK' (uart0 r') = Ret u'" "b = serial_module_init (smc0 q' u')"
    "data \<noteq> []" "length data \<le> 511" "length data \<le> count"
  shows "\<exists>a' v bits b'.
    smc_write True (length data) (Some data) a = Ret (length data, a') \<and>
    line_run (replicate (10 * (2 * length data + 1)) Tick) (smc_uart a') = (v, bits, []) \<and> \<not> iTimerRunning v \<and>
    serial_receive True (unframe bits) b = Ret b' \<and> smc_poll b' \<and>
    fst (smc_read count True b') = int (length data) \<and> fst (snd (smc_read count True b')) = data \<and>
    \<not> smc_poll (snd (snd (smc_read count True b')))"
proof -
  note a = serial_init [OF assms(1,2)] and b = serial_init [OF assms(3,4)]
  let ?m = "hex_encode data @ [13]"
  have l: "length ?m \<le> 1023" "length ?m = 2 * length data + 1" using assms(6) by simp_all
  obtain w v where w: "reciva_uart_write_internal ?m (smc_uart a) = (length ?m, w)"
      "line_run (replicate (10 * length ?m) Tick) w = (v, concat (map frame ?m), [])" "\<not> iTimerRunning v"
    using uart_sends [OF a(1,6) l(1)] by auto
  have wr: "smc_write True (length data) (Some data) a = Ret (length data, a\<lparr>smc_uart := w\<rparr>)"
    using w(1) assms(6) by (simp add: smc_write_def KERNEL_STACK_def a(5) serial_driver_def serial_write_data_def)
  obtain c where c: "serial_receive True ?m b = Ret (b\<lparr>smc_uart := (smc_uart b)\<lparr>read_buffer := c\<rparr>, message := Some data, message_length := length data\<rparr>)"
    using receive_message [of b data] b assms(5,6) by (auto simp: ua_ok_def)
  let ?b = "b\<lparr>smc_uart := (smc_uart b)\<lparr>read_buffer := c\<rparr>, message := Some data, message_length := length data\<rparr>"
  have "smc_read count True ?b = (int (length data), data, ?b\<lparr>message := None\<rparr>)" "smc_poll ?b"
    "\<not> smc_poll (?b\<lparr>message := None\<rparr>)"
    using assms(7) by (auto simp: smc_read_def smc_poll_def Let_def)
  moreover have "serial_receive True (unframe (concat (map frame ?m))) b = Ret ?b" unfolding unframe_frames by (rule c)
  ultimately show ?thesis
    by (intro exI [of _ "a\<lparr>smc_uart := w\<rparr>"] exI [of _ v] exI [of _ "concat (map frame ?m)"] exI [of _ ?b])
      (use wr w(2,3) l(2) in \<open>simp del: replicate.simps\<close>)
qed

text \<open> A message of more than 511 bytes does not cross: the write answers that all of it was taken, but what is
  put on the line is the first 1023 characters of it, without the carriage return that ends a message, and nothing
  tells the program.\<close>

theorem serial_long_message_cut:
  assumes "uart_module_init PCLK (uart0 r) = Ret u" "s = serial_module_init (smc0 q u)" "length data > 511" "length data < KERNEL_STACK"
  shows "\<exists>t. smc_write True (length data) (Some data) s = Ret (length data, t) \<and>
    ring_contents (write_buffer (smc_uart t)) = take 1023 (hex_encode data) \<and>
    13 \<notin> set (ring_contents (write_buffer (smc_uart t)))"
proof -
  note i = serial_init [OF assms(1,2)]
  let ?m = "hex_encode data @ [13]"
  obtain n w where w: "reciva_uart_write_internal ?m (smc_uart s) = (n, w)" by fastforce
  have c: "ring_contents (write_buffer w) = take 1023 ?m"
    using write_internal(2,3) [OF i(1) w] i(2) assms(3) by (simp add: BUF_SIZE_def)
  have "smc_write True (length data) (Some data) s = Ret (length data, s\<lparr>smc_uart := w\<rparr>)"
    using w assms(4) by (simp add: smc_write_def i(5) serial_driver_def serial_write_data_def)
  then show ?thesis using c hex_plain(2) [of data] assms(3)
    by (intro exI [of _ "s\<lparr>smc_uart := w\<rparr>"]) (auto dest: in_set_takeD)
qed

lemma serial_long_message_cut_witness:
  "\<exists>u s t. uart_module_init 50000000 (uart0 (\<lambda>_. 0)) = Ret u \<and> s = serial_module_init (smc0 (\<lambda>_. 0) u) \<and>
     smc_write True 512 (Some (replicate 512 0xAB)) s = Ret (512, t) \<and>
     13 \<notin> set (ring_contents (write_buffer (smc_uart t)))"
proof -
  obtain u where u: "uart_module_init 50000000 (uart0 (\<lambda>_. 0)) = Ret u" using init_1200 by blast
  show ?thesis using serial_long_message_cut [OF u refl, of "replicate 512 0xAB" "\<lambda>_. 0"] u by (auto simp: KERNEL_STACK_def)
qed

lemma serial_message_crosses_witness:
  "\<exists>u a a' v bits b'. uart_module_init 50000000 (uart0 (\<lambda>_. 0)) = Ret u \<and> a = serial_module_init (smc0 (\<lambda>_. 0) u) \<and>
     smc_write True 3 (Some [0x00, 0x0D, 0xFF]) a = Ret (3, a') \<and>
     line_run (replicate 70 Tick) (smc_uart a') = (v, bits, []) \<and>
     serial_receive True (unframe bits) a = Ret b' \<and> fst (snd (smc_read 100 True b')) = [0x00, 0x0D, 0xFF]"
proof -
  obtain u where u: "uart_module_init 50000000 (uart0 (\<lambda>_. 0)) = Ret u" using init_1200 by blast
  obtain data :: "byte list" where d: "data = [0x00, 0x0D, 0xFF]" "length data = 3" "data \<noteq> []" by simp
  show ?thesis
    using serial_message_crosses [OF u refl u refl d(3), where count = 100 and q = "\<lambda>_. 0" and q' = "\<lambda>_. 0"] u
    unfolding d(2) d(1) [symmetric] by auto
qed

end
