(* ===== verification/Quad.thy ===== *)
theory Quad
  imports Keypad Keys "HOL-Library.Sublist"
begin

text \<open>
  The rotary encoder of the radio: \<^verbatim>\<open>reciva_quad_piher_20pulse.c\<close>, \<^verbatim>\<open>reciva_quad_piher_ci11.c\<close> and the two
  modules that read its pins; that clicks are counted, and reach the key library.
\<close>

section \<open>Pins and directions\<close>

text \<open>The letters \<open>x\<close>, \<open>a\<close> and \<open>c\<close> of the code: no single step, anticlockwise, clockwise.\<close>

datatype direction = Dir_x | Dir_a | Dir_c

definition quad_lookup :: "direction list list" where
  "quad_lookup =
     [[Dir_x, Dir_a, Dir_c, Dir_x],
      [Dir_c, Dir_x, Dir_x, Dir_a],
      [Dir_a, Dir_x, Dir_x, Dir_c],
      [Dir_x, Dir_c, Dir_a, Dir_x]]"

record quad_params =
  pulse_threshold :: int
  pin_config :: int
  pins_reversed :: bool

text \<open>\<open>dat\<close> is what the data register of port G reads as.\<close>

definition reciva_qp_pins_read :: "bool \<Rightarrow> nat \<Rightarrow> nat \<Rightarrow> 32 word \<Rightarrow> nat" where
  "reciva_qp_pins_read rv p0 p1 dat =
     ((if dat AND push_bit p0 1 \<noteq> 0 then (if rv then 2 else 1) else 0)
      OR (if dat AND push_bit p1 1 \<noteq> 0 then (if rv then 1 else 2) else 0))"

definition reciva_qp_pins_standard :: "32 word \<Rightarrow> nat" where
  "reciva_qp_pins_standard dat = unat (drop_bit 14 dat AND 3)"

definition reciva_qp_pins_reversed :: "32 word \<Rightarrow> nat" where
  "reciva_qp_pins_reversed dat = unat ((drop_bit 13 dat AND 2) OR (drop_bit 15 dat AND 1))"

section \<open>The encoder of 20 pulses\<close>

definition EXTINT1 :: nat where "EXTINT1 = 0x8c"
definition EINTFLT3 :: nat where "EINTFLT3 = 0xa0"

record quad =
  q_regs :: io_regs
  q_irqs :: "nat list"
  pin0 :: nat
  pin1 :: nat
  shaft_old :: nat
  direction_old :: direction
  iCount :: int
  q_events :: "int list"

definition quad0 :: "io_regs \<Rightarrow> quad" where
  "quad0 r = \<lparr>q_regs = r, q_irqs = [], pin0 = 0, pin1 = 0, shaft_old = 0, direction_old = Dir_x, iCount = 0, q_events = []\<rparr>"

definition shaft_pins :: "quad_params \<Rightarrow> quad \<Rightarrow> 32 word \<Rightarrow> nat" where
  "shaft_pins P s dat = reciva_qp_pins_read (pins_reversed P) (pin0 s) (pin1 s) dat"

text \<open>The pins, their interrupts, and the pin functions and pullups both configurations set up.\<close>

definition quad_pins :: "int \<Rightarrow> (nat \<times> nat \<times> nat list) option" where
  "quad_pins c = (if c = 0 then Some (14, 15, [22, 23]) else if c = 1 then Some (3, 5, [11, 13]) else None)"

definition quad_gpio :: "nat \<Rightarrow> nat \<Rightarrow> io_regs \<Rightarrow> io_regs" where
  "quad_gpio p0 p1 r =
     reg_write (push_bit p0 0 OR push_bit p1 0) (push_bit p0 1 OR push_bit p1 1) GPGUP
       (reg_write (push_bit (2 * p0) 2 OR push_bit (2 * p1) 2) (push_bit (2 * p0) 3 OR push_bit (2 * p1) 3) GPGCON r)"

definition quad_edges :: "int \<Rightarrow> io_regs \<Rightarrow> io_regs" where
  "quad_edges c r =
     (if c = 0 then reg_write 0x7f7f0000 0xffff0000 EINTFLT3 (reg_write 0xff000000 0 EXTINT2 r)
      else reg_write (push_bit 20 7 OR push_bit 12 7) 0 EXTINT1 r)"

definition register_quad :: "quad_params \<Rightarrow> 32 word \<Rightarrow> quad \<Rightarrow> int \<times> quad" where
  "register_quad P dat s =
     (case quad_pins (pin_config P) of
        None \<Rightarrow> (- 19, s)
      | Some (p0, p1, irqs) \<Rightarrow>
          let s = s\<lparr>pin0 := p0, pin1 := p1, q_regs := quad_edges (pin_config P) (quad_gpio p0 p1 (q_regs s)), q_irqs := irqs\<rparr>
          in (0, s\<lparr>shaft_old := shaft_pins P s dat\<rparr>))"

definition unregister_quad :: "quad \<Rightarrow> quad" where
  "unregister_quad s = s\<lparr>q_irqs := []\<rparr>"

text \<open>What is reported of a turn; an unexpected transition is ignored.\<close>

definition quad_report :: "direction \<Rightarrow> int list" where
  "quad_report d = (case d of Dir_c \<Rightarrow> [1] | Dir_a \<Rightarrow> [-1] | Dir_x \<Rightarrow> [])"

definition do_quad :: "quad_params \<Rightarrow> nat \<Rightarrow> nat \<Rightarrow> quad \<Rightarrow> quad" where
  "do_quad P old new s =
     (let d = quad_lookup ! old ! new
      in if direction_old s = d
         then let s = s\<lparr>iCount := iCount s + 1\<rparr>
              in if iCount s \<ge> pulse_threshold P
                 then s\<lparr>iCount := 0, q_events := q_events s @ quad_report d\<rparr>
                 else s
         else s\<lparr>iCount := 1, direction_old := d\<rparr>)"

definition reciva_quad_int_handler :: "quad_params \<Rightarrow> 32 word \<Rightarrow> quad \<Rightarrow> quad" where
  "reciva_quad_int_handler P dat s =
     (let new = shaft_pins P s dat in (do_quad P (shaft_old s) new s)\<lparr>shaft_old := new\<rparr>)"

section \<open>The CI-11\<close>

text \<open>\<open>qp\<close> is the module that reads the pins.\<close>

definition ci11_register_quad :: "(32 word \<Rightarrow> nat) \<Rightarrow> 32 word \<Rightarrow> quad \<Rightarrow> quad" where
  "ci11_register_quad qp dat s =
     s\<lparr>q_regs := reg_write 0x7f7f0000 0xffff0000 EINTFLT3 (reg_write 0xff000000 0 EXTINT2
         (reg_write 0 (push_bit 15 1 OR push_bit 14 1) GPGUP
           (reg_write (push_bit 30 2 OR push_bit 28 2) (push_bit 30 3 OR push_bit 28 3) GPGCON (q_regs s)))),
       q_irqs := [22, 23], shaft_old := qp dat\<rparr>"

definition ci11_do_quad :: "(32 word \<Rightarrow> nat) \<Rightarrow> 32 word \<Rightarrow> quad \<Rightarrow> quad" where
  "ci11_do_quad qp dat s =
     (let d = quad_lookup ! shaft_old s ! qp dat
      in if direction_old s = d then s\<lparr>direction_old := Dir_x, q_events := q_events s @ quad_report d\<rparr>
         else s\<lparr>direction_old := d\<rparr>)"

text \<open>The pins are read twice, first by the handler and then by \<open>do_quad\<close>.\<close>

definition ci11_int_handler :: "(32 word \<Rightarrow> nat) \<Rightarrow> 32 word \<Rightarrow> 32 word \<Rightarrow> quad \<Rightarrow> quad" where
  "ci11_int_handler qp dat dat' s = (let new = qp dat in (ci11_do_quad qp dat' s)\<lparr>shaft_old := new\<rparr>)"

section \<open>Readings\<close>

lemma qp_pins_bits:
  assumes "p0 < 32" "p1 < 32"
  shows "reciva_qp_pins_read rv p0 p1 dat =
    (if bit dat p0 then if rv then 2 else 1 else 0) OR (if bit dat p1 then if rv then 1 else 2 else 0)"
  using assms by (simp add: reciva_qp_pins_read_def bit_iff_and_push_bit_not_eq_0)

text \<open>Every reading is an index of the table.\<close>

lemma qp_pins_less: "reciva_qp_pins_read rv p0 p1 dat < 4"
  by (simp add: reciva_qp_pins_read_def or_nat_numerals)

lemma qp_pins_modules:
  "reciva_qp_pins_standard dat = reciva_qp_pins_read False 14 15 dat"
  "reciva_qp_pins_reversed dat = reciva_qp_pins_read True 14 15 dat"
proof -
  have b: "bit (3 :: 32 word) n \<longleftrightarrow> n < 2" "bit (2 :: 32 word) n \<longleftrightarrow> n = 1" "bit (1 :: 32 word) n \<longleftrightarrow> n = 0" for n
    by (auto simp: bit_numeral_rec(1) bit_numeral_rec(2) bit_1_iff less_Suc_eq numeral_2_eq_2 split: nat.splits)
  have s: "drop_bit 14 dat AND 3 = (if bit dat 14 then 1 else 0) OR (if bit dat 15 then 2 else 0)"
  proof (rule bit_word_eqI)
    fix n
    show "bit (drop_bit 14 dat AND 3) n \<longleftrightarrow> bit ((if bit dat 14 then 1 else 0) OR (if bit dat 15 then 2 else 0) :: 32 word) n"
      by (cases n; cases "n - 1") (auto simp: bit_simps b)
  qed
  have r: "(drop_bit 13 dat AND 2) OR (drop_bit 15 dat AND 1) = (if bit dat 14 then 2 else 0) OR (if bit dat 15 then 1 else 0)"
  proof (rule bit_word_eqI)
    fix n
    show "bit ((drop_bit 13 dat AND 2) OR (drop_bit 15 dat AND 1)) n \<longleftrightarrow> bit ((if bit dat 14 then 2 else 0) OR (if bit dat 15 then 1 else 0) :: 32 word) n"
      by (cases n; cases "n - 1") (auto simp: bit_simps b)
  qed
  show "reciva_qp_pins_standard dat = reciva_qp_pins_read False 14 15 dat"
    by (simp add: reciva_qp_pins_standard_def s qp_pins_bits)
  show "reciva_qp_pins_reversed dat = reciva_qp_pins_read True 14 15 dat"
    by (simp add: reciva_qp_pins_reversed_def r qp_pins_bits)
qed

section \<open>Turning the shaft\<close>

text \<open>The positions of the shaft, and what it passes on its way.\<close>

definition turn :: "direction \<Rightarrow> nat \<Rightarrow> nat" where
  "turn d p = (case d of Dir_x \<Rightarrow> p | Dir_c \<Rightarrow> [2, 0, 3, 1] ! p | Dir_a \<Rightarrow> [1, 3, 0, 2] ! p)"

fun shaft_path :: "nat \<Rightarrow> direction list \<Rightarrow> nat list" where
  "shaft_path p [] = []"
| "shaft_path p (d # ds) = turn d p # shaft_path (turn d p) ds"

lemma turn_table: "p < 4 \<Longrightarrow> quad_lookup ! p ! turn d p = d \<and> turn d p < 4"
  by (auto simp: turn_def quad_lookup_def less_Suc_eq numeral_eq_Suc split: direction.splits)

text \<open>The maximal runs of equal directions, with their lengths, and what is reported for them.\<close>

definition add_run :: "(direction \<times> nat) list \<Rightarrow> direction \<Rightarrow> (direction \<times> nat) list" where
  "add_run rs d =
     (if rs \<noteq> [] \<and> fst (last rs) = d then butlast rs @ [(d, Suc (snd (last rs)))] else rs @ [(d, 1)])"

definition quad_runs :: "direction list \<Rightarrow> (direction \<times> nat) list" where
  "quad_runs ds = foldl add_run [] ds"

definition run_reports :: "nat \<Rightarrow> (direction \<times> nat) list \<Rightarrow> int list" where
  "run_reports t rs = concat (map (\<lambda>(d, n). concat (replicate (n div t) (quad_report d))) rs)"

definition last_run :: "(direction \<times> nat) list \<Rightarrow> direction \<times> nat" where
  "last_run rs = (if rs = [] then (Dir_x, 0) else last rs)"

lemma run_reports_append [simp]: "run_reports t (rs @ rs') = run_reports t rs @ run_reports t rs'"
  by (simp add: run_reports_def)

lemma last_add_run:
  "last_run (add_run rs d) = (d, if fst (last_run rs) = d then Suc (snd (last_run rs)) else 1)"
  by (cases rs rule: rev_cases) (auto simp: last_run_def add_run_def)

lemma reports_add_run:
  assumes "1 < t"
  shows "run_reports t (add_run rs d) =
    run_reports t rs @ (if fst (last_run rs) = d \<and> Suc (snd (last_run rs)) mod t = 0 then quad_report d else [])"
proof (cases rs rule: rev_cases)
  case Nil
  then show ?thesis using assms by (auto simp: add_run_def last_run_def run_reports_def)
next
  case (snoc qs r)
  obtain e n where r: "r = (e, n)" by (cases r)
  show ?thesis
    using assms by (simp add: snoc r add_run_def last_run_def run_reports_def div_Suc replicate_append_same [symmetric])
qed

lemma add_run_snoc [simp]: "add_run (rs @ [(d, m)]) e = (if d = e then rs @ [(d, Suc m)] else rs @ [(d, m), (e, 1)])"
  by (simp add: add_run_def)

lemma runs_replicate: "foldl add_run (rs @ [(d, m)]) (replicate n d) = rs @ [(d, m + n)]"
  by (induction n arbitrary: m) simp_all

lemma runs_fresh: "0 < n \<Longrightarrow> add_run rs d = rs @ [(d, 1)] \<Longrightarrow> foldl add_run rs (replicate n d) = rs @ [(d, n)]"
  by (cases n) (simp_all add: runs_replicate)

section \<open>Clicks are counted\<close>

text \<open>The count and the direction of a driver that has seen some runs.\<close>

definition counted :: "nat \<Rightarrow> int list \<Rightarrow> (direction \<times> nat) list \<Rightarrow> quad \<Rightarrow> bool" where
  "counted t es rs s \<longleftrightarrow>
     direction_old s = fst (last_run rs) \<and> iCount s = int (snd (last_run rs) mod t) \<and> q_events s = es @ run_reports t rs"

lemma do_quad_counts:
  assumes "counted t es rs s" "pulse_threshold P = int t" "1 < t" "p < 4"
  shows "counted t es (add_run rs d) (do_quad P p (turn d p) s)"
proof -
  let ?n = "snd (last_run rs) mod t"
  consider "Suc ?n = t" | "Suc ?n < t" using mod_less_divisor [of t "snd (last_run rs)"] assms(3) by linarith
  then show ?thesis
    using assms(1-3) turn_table [OF assms(4), of d]
    by cases (auto simp: counted_def do_quad_def Let_def last_add_run reports_add_run mod_Suc)
qed

lemma handlers_count:
  assumes "counted t es rs s" "pulse_threshold P = int t" "1 < t" "shaft_old s < 4"
    "map (shaft_pins P s) dats = shaft_path (shaft_old s) ds"
  shows "counted t es (foldl add_run rs ds) (fold (reciva_quad_int_handler P) dats s)"
  using assms
proof (induction ds arbitrary: rs s dats)
  case (Cons d ds)
  obtain dat dats' where dats: "dats = dat # dats'" "shaft_pins P s dat = turn d (shaft_old s)"
      "map (shaft_pins P s) dats' = shaft_path (turn d (shaft_old s)) ds"
    using Cons.prems(5) by (cases dats) auto
  let ?s = "reciva_quad_int_handler P dat s"
  have u: "pin0 ?s = pin0 s" "pin1 ?s = pin1 s" "shaft_old ?s = turn d (shaft_old s)"
    by (simp_all add: reciva_quad_int_handler_def do_quad_def dats Let_def)
  have "counted t es (add_run rs d) ?s"
    using do_quad_counts [OF Cons.prems(1-4), of d] by (simp add: reciva_quad_int_handler_def Let_def dats counted_def)
  moreover have "shaft_pins P ?s = shaft_pins P s" by (rule ext) (simp add: shaft_pins_def u)
  ultimately show ?case
    using Cons.IH [of "add_run rs d" ?s dats'] Cons.prems(2,3) turn_table [OF Cons.prems(4), of d] dats u by simp
qed simp

definition rel_event :: "int \<Rightarrow> input_event" where
  "rel_event v = \<lparr>ie_type = 2, ie_code = 1, ie_value = v\<rparr>"

lemma register_quad_ready:
  assumes "register_quad P dat (quad0 r) = (0, s)"
  shows "counted t [] [] s" "shaft_old s = shaft_pins P s dat" "shaft_old s < 4"
  using assms qp_pins_less
  by (auto simp: register_quad_def quad0_def counted_def last_run_def run_reports_def shaft_pins_def Let_def split: option.splits)

text \<open>C15.
  The encoder counts clicks.  With a \<open>pulse_threshold\<close> of at least 2 (the default is 4; with 1 the first move of every
  run would not be reported) and an interrupt at least at every single step of the shaft, so that two readings that
  follow each other are equal or a step apart, the driver of the 20-pulse encoder reports one turn for every
  \<open>pulse_threshold\<close> moves in one direction without a break, and nothing else.  The moves may go in any order of
  directions; a move the other way and an interrupt without a move both end a run, and its rest is forgotten.
\<close>

theorem quad_counts_runs:
  assumes "register_quad P dat (quad0 r) = (0, s)" "2 \<le> pulse_threshold P"
    "map (shaft_pins P s) dats = shaft_path (shaft_pins P s dat) ds"
  shows "q_events (fold (reciva_quad_int_handler P) dats s) = run_reports (nat (pulse_threshold P)) (quad_runs ds)"
  using handlers_count [of "nat (pulse_threshold P)" "[]" "[]" s P dats ds] register_quad_ready [OF assms(1)] assms(2,3)
  by (simp add: counted_def quad_runs_def)

definition demo_quad :: quad_params where
  "demo_quad = \<lparr>pulse_threshold = 2, pin_config = 1, pins_reversed = True\<rparr>"

lemma demo_quad_register:
  "\<exists>s. register_quad \<lparr>pulse_threshold = t, pin_config = 1, pins_reversed = True\<rparr> 8 (quad0 (\<lambda>_. 0)) = (0, s) \<and> pin0 s = 3 \<and> pin1 s = 5"
  by (simp add: register_quad_def quad_pins_def quad0_def Let_def)

theorem quad_counts_runs_witness:
  "\<exists>s. register_quad demo_quad 8 (quad0 (\<lambda>_. 0)) = (0, s) \<and>
     q_events (fold (reciva_quad_int_handler demo_quad) [40, 32, 32, 0, 8] s) = [1, 1]"
proof -
  obtain s where s: "register_quad demo_quad 8 (quad0 (\<lambda>_. 0)) = (0, s)" "pin0 s = 3" "pin1 s = 5"
    using demo_quad_register unfolding demo_quad_def by blast
  have "q_events (fold (reciva_quad_int_handler demo_quad) [40, 32, 32, 0, 8] s) =
      run_reports (nat (pulse_threshold demo_quad)) (quad_runs [Dir_c, Dir_c, Dir_x, Dir_c, Dir_c])"
    by (rule quad_counts_runs [OF s(1)])
      (simp_all add: demo_quad_def shaft_pins_def s reciva_qp_pins_read_def turn_def or_nat_numerals)
  also have "\<dots> = [1, 1]"
    by (simp add: demo_quad_def quad_runs_def add_run_def run_reports_def quad_report_def)
  finally show ?thesis using s(1) by blast
qed

text \<open>C25.
  From the shaft to the library: so many clicks clockwise and then so many anticlockwise, of four moves
  each, reach the key library as as many presses of the right key and then of the left key.
\<close>

theorem quad_clicks_reach_library:
  assumes "register_quad P dat (quad0 r) = (0, s)" "pulse_threshold P = 4"
    "map (shaft_pins P s) dats = shaft_path (shaft_pins P s dat) (replicate (4 * n) Dir_c @ replicate (4 * m) Dir_a)"
  shows "map (\<lambda>v. translate_key (rel_event v) k) (q_events (fold (reciva_quad_int_handler P) dats s)) =
    replicate n (1, \<lparr>k_state = KEY_STATE_PRESSED, k_id = KEY_ID_RIGHT\<rparr>) @
    replicate m (1, \<lparr>k_state = KEY_STATE_PRESSED, k_id = KEY_ID_LEFT\<rparr>)"
proof -
  have first: "add_run [] d = [(d, 1)]" for d by (simp add: add_run_def)
  have one: "concat (replicate i [x]) = replicate i x" for i and x :: int by (induction i) auto
  have "run_reports 4 (foldl add_run (foldl add_run [] (replicate (4 * n) Dir_c)) (replicate (4 * m) Dir_a)) =
      replicate n 1 @ replicate m (- 1)"
    by (cases "n = 0"; cases "m = 0") (simp_all add: first add_run_snoc [of "[]", simplified] runs_fresh run_reports_def quad_report_def one)
  then have "q_events (fold (reciva_quad_int_handler P) dats s) = replicate n 1 @ replicate m (- 1)"
    using handlers_count [of 4 "[]" "[]" s P dats, OF _ _ _ _ assms(3) [folded register_quad_ready(2) [OF assms(1)]]]
      register_quad_ready [OF assms(1)] assms(2) by (simp add: counted_def)
  then show ?thesis by (simp add: translate_key_def rel_event_def)
qed

theorem quad_clicks_reach_library_witness:
  "\<exists>s P. register_quad P 8 (quad0 (\<lambda>_. 0)) = (0, s) \<and>
     map (\<lambda>v. snd (translate_key (rel_event v) \<lparr>k_state = 0, k_id = KEY_ID_1\<rparr>))
       (q_events (fold (reciva_quad_int_handler P) [40, 32, 0, 8, 0, 32, 40, 8] s)) =
     [\<lparr>k_state = 1, k_id = KEY_ID_RIGHT\<rparr>, \<lparr>k_state = 1, k_id = KEY_ID_LEFT\<rparr>]"
proof -
  let ?P = "\<lparr>pulse_threshold = 4, pin_config = 1, pins_reversed = True\<rparr>"
  obtain s where s: "register_quad ?P 8 (quad0 (\<lambda>_. 0)) = (0, s)" "pin0 s = 3" "pin1 s = 5"
    using demo_quad_register by blast
  have four: "replicate 4 d = [d, d, d, d]" for d :: direction by (simp add: eval_nat_numeral)
  have "map (\<lambda>v. translate_key (rel_event v) \<lparr>k_state = 0, k_id = KEY_ID_1\<rparr>)
      (q_events (fold (reciva_quad_int_handler ?P) [40, 32, 0, 8, 0, 32, 40, 8] s)) =
    replicate 1 (1, \<lparr>k_state = KEY_STATE_PRESSED, k_id = KEY_ID_RIGHT\<rparr>) @
    replicate 1 (1, \<lparr>k_state = KEY_STATE_PRESSED, k_id = KEY_ID_LEFT\<rparr>)"
    by (rule quad_clicks_reach_library [OF s(1)])
      (simp_all add: shaft_pins_def s reciva_qp_pins_read_def turn_def or_nat_numerals four)
  from arg_cong [OF this, of "map snd"]
  have "map (\<lambda>v. snd (translate_key (rel_event v) \<lparr>k_state = 0, k_id = KEY_ID_1\<rparr>))
      (q_events (fold (reciva_quad_int_handler ?P) [40, 32, 0, 8, 0, 32, 40, 8] s)) =
    [\<lparr>k_state = 1, k_id = KEY_ID_RIGHT\<rparr>, \<lparr>k_state = 1, k_id = KEY_ID_LEFT\<rparr>]"
    unfolding map_map o_def KEY_STATE_PRESSED_def by simp
  with s(1) show ?thesis by (intro exI conjI)
qed

section \<open>The two drivers\<close>

text \<open>The CI-11 forgets the direction where the other driver resets its count.\<close>

definition same_turns :: "quad \<Rightarrow> quad \<Rightarrow> bool" where
  "same_turns s u \<longleftrightarrow>
     shaft_old u = shaft_old s \<and> q_events u = q_events s \<and> iCount s \<in> {0, 1} \<and>
     direction_old u = (if iCount s = 1 then direction_old s else Dir_x)"

lemma handlers_same_turns:
  assumes "same_turns s u" "pulse_threshold P = 2" "shaft_pins P s = qp"
  shows "same_turns (reciva_quad_int_handler P dat s) (ci11_int_handler qp dat dat u)"
  using assms
  by (cases "direction_old s = quad_lookup ! shaft_old s ! qp dat"; cases "quad_lookup ! shaft_old s ! qp dat")
    (auto simp: same_turns_def reciva_quad_int_handler_def ci11_int_handler_def do_quad_def ci11_do_quad_def Let_def quad_report_def)

lemma runs_same_turns:
  assumes "same_turns s u" "pulse_threshold P = 2" "shaft_pins P s = qp"
  shows "same_turns (fold (reciva_quad_int_handler P) dats s) (fold (\<lambda>d. ci11_int_handler qp d d) dats u)"
  using assms
proof (induction dats arbitrary: s u)
  case (Cons dat dats)
  have "shaft_pins P (reciva_quad_int_handler P dat s) = qp"
    using Cons.prems(3) by (auto simp: shaft_pins_def fun_eq_iff reciva_quad_int_handler_def do_quad_def Let_def)
  then show ?case using Cons.IH handlers_same_turns Cons.prems by simp
qed simp

text \<open>C34.
  The driver of the CI-11 is equivalent to the 20-pulse driver with a threshold of 2, as long as the pins do not change
  between its two readings: both report the same turns for the same readings, with the pins as they are
  and with the pins reversed.
\<close>

theorem quad_drivers_equivalent:
  assumes "pulse_threshold P = 2" "pin_config P = 0"
    "qp = (if pins_reversed P then reciva_qp_pins_reversed else reciva_qp_pins_standard)"
  shows "q_events (fold (reciva_quad_int_handler P) dats (snd (register_quad P dat (quad0 r)))) =
    q_events (fold (\<lambda>d. ci11_int_handler qp d d) dats (ci11_register_quad qp dat (quad0 r)))"
proof -
  let ?s = "snd (register_quad P dat (quad0 r))"
  have qp: "shaft_pins P ?s = qp"
    using assms(2,3) qp_pins_modules by (auto simp: shaft_pins_def register_quad_def quad_pins_def Let_def fun_eq_iff)
  have "same_turns ?s (ci11_register_quad qp dat (quad0 r))"
    using fun_cong [OF qp, of dat] assms(2) by (simp add: same_turns_def ci11_register_quad_def register_quad_def quad_pins_def quad0_def Let_def shaft_pins_def)
  from runs_same_turns [OF this assms(1) qp] show ?thesis by (simp add: same_turns_def)
qed

text \<open>
  The CI-11 driver reads the pins twice: when the shaft moves between the two readings, the move is counted
  in this interrupt and again in the next one, and half a click is reported as a turn.
\<close>

theorem ci11_counts_move_twice:
  assumes "shaft_old s = p" "p < 4" "direction_old s = Dir_x" "qp before = p" "qp after = turn d p" "d \<noteq> Dir_x"
  shows "q_events (ci11_int_handler qp after after (ci11_int_handler qp before after s)) = q_events s @ quad_report d"
  using assms turn_table [OF assms(2), of d]
  by (simp add: ci11_int_handler_def ci11_do_quad_def Let_def)

theorem quad_drivers_equivalent_witness:
  "q_events (fold (reciva_quad_int_handler \<lparr>pulse_threshold = 2, pin_config = 0, pins_reversed = False\<rparr>) [0x4000, 0xC000]
      (snd (register_quad \<lparr>pulse_threshold = 2, pin_config = 0, pins_reversed = False\<rparr> 0 (quad0 (\<lambda>_. 0))))) =
   q_events (fold (\<lambda>d. ci11_int_handler reciva_qp_pins_standard d d) [0x4000, 0xC000]
      (ci11_register_quad reciva_qp_pins_standard 0 (quad0 (\<lambda>_. 0))))"
  by (rule quad_drivers_equivalent) simp_all

theorem ci11_counts_move_twice_witness:
  "q_events (ci11_int_handler reciva_qp_pins_standard 0x8000 0x8000 (ci11_int_handler reciva_qp_pins_standard 0 0x8000
     (ci11_register_quad reciva_qp_pins_standard 0 (quad0 (\<lambda>_. 0))))) = [1]"
proof -
  have p: "reciva_qp_pins_standard 0 = 0" "reciva_qp_pins_standard 0x8000 = 2"
    by (simp_all add: reciva_qp_pins_standard_def)
  show ?thesis
    by (subst ci11_counts_move_twice [where p = 0 and d = Dir_c])
      (simp_all add: ci11_register_quad_def quad0_def p turn_def quad_report_def)
qed

section \<open>The encoder without a filter\<close>

text \<open>
  \<^verbatim>\<open>reciva_quad.c\<close> has the pins sampled by a fast interrupt, \<^verbatim>\<open>reciva_fiq.S\<close>, which debounces them and leaves
  the direction of a step in \<open>reciva_quad_data\<close>; a timer looks there and reports every second step.
\<close>

record quad_fiq =
  fiq_state :: nat
  fiq_count :: int
  fiq_position :: nat
  reciva_quad_data :: int
  up_count :: int
  down_count :: int
  qf_events :: "int list"

definition quad_fiq0 :: quad_fiq where
  "quad_fiq0 = \<lparr>fiq_state = 0, fiq_count = - 1, fiq_position = 0, reciva_quad_data = 0, up_count = 0, down_count = 0, qf_events = []\<rparr>"

definition sequence_up :: "nat list" where "sequence_up = [1, 3, 0, 2]"
definition sequence_down :: "nat list" where "sequence_down = [2, 0, 3, 1]"

text \<open>The registers r9, r10 and r11 are the last sample, the count of equal samples and the position; \<open>v\<close> is the sample.\<close>

definition quad_fiq_handler :: "nat \<Rightarrow> quad_fiq \<Rightarrow> quad_fiq" where
  "quad_fiq_handler v s =
     (if v \<noteq> fiq_state s then s\<lparr>fiq_count := 0, fiq_state := v\<rparr>
      else if fiq_count s = - 1 then s
      else
        let s = s\<lparr>fiq_count := fiq_count s + 1\<rparr>
        in if fiq_count s \<noteq> 3 then s
           else
             let s = (if sequence_up ! fiq_position s = v then s\<lparr>reciva_quad_data := 1\<rparr> else s);
                 s = (if sequence_down ! fiq_position s = v then s\<lparr>reciva_quad_data := 2\<rparr> else s)
             in s\<lparr>fiq_count := - 1, fiq_position := v\<rparr>)"

definition quad_timer :: "quad_fiq \<Rightarrow> quad_fiq" where
  "quad_timer s =
     (if reciva_quad_data s = 1
      then let s = s\<lparr>reciva_quad_data := 0\<rparr>
           in if up_count s \<noteq> 0 then s\<lparr>up_count := 0, qf_events := qf_events s @ [- 1]\<rparr> else s\<lparr>up_count := up_count s + 1\<rparr>
      else if reciva_quad_data s = 2
      then let s = s\<lparr>reciva_quad_data := 0\<rparr>
           in if down_count s \<noteq> 0 then s\<lparr>down_count := 0, qf_events := qf_events s @ [1]\<rparr> else s\<lparr>down_count := down_count s + 1\<rparr>
      else s)"

text \<open>The FIQ samples the pins at 4 kHz, the timer runs once a jiffy, independently of it: a run is any interleaving of both.\<close>

datatype fiq_event = Sample nat | Jiffy

fun fiq_step :: "fiq_event \<Rightarrow> quad_fiq \<Rightarrow> quad_fiq" where
  "fiq_step (Sample v) s = quad_fiq_handler v s"
| "fiq_step Jiffy s = quad_timer s"

fun samples :: "fiq_event list \<Rightarrow> nat list" where
  "samples [] = []"
| "samples (Sample v # es) = v # samples es"
| "samples (Jiffy # es) = samples es"

text \<open>A sample that is the fourth equal one settles the position; no other sample is seen by the timer.\<close>

definition settles :: "nat \<Rightarrow> quad_fiq \<Rightarrow> bool" where
  "settles v s \<longleftrightarrow> fiq_state s = v \<and> fiq_count s = 2"

fun calm :: "nat list \<Rightarrow> quad_fiq \<Rightarrow> bool" where
  "calm [] s = True"
| "calm (v # vs) s = (\<not> settles v s \<and> calm vs (quad_fiq_handler v s))"

lemma quad_timer_core [simp]:
  "fiq_state (quad_timer s) = fiq_state s" "fiq_count (quad_timer s) = fiq_count s" "fiq_position (quad_timer s) = fiq_position s"
  "quad_timer (quad_timer s) = quad_timer s"
  by (simp_all add: quad_timer_def Let_def)

lemma timer_commutes: "\<not> settles v s \<Longrightarrow> quad_fiq_handler v (quad_timer s) = quad_timer (quad_fiq_handler v s)"
  by (auto simp: settles_def quad_fiq_handler_def quad_timer_def Let_def)

lemma calm_timer:
  "calm vs (quad_timer s) = calm vs s"
  "calm vs s \<Longrightarrow> fold quad_fiq_handler vs (quad_timer s) = quad_timer (fold quad_fiq_handler vs s)"
  by (induction vs arbitrary: s) (auto simp: timer_commutes settles_def)

lemma calm_append [simp]: "calm (us @ vs) s = (calm us s \<and> calm vs (fold quad_fiq_handler us s))"
  by (induction us arbitrary: s) auto

lemma fold_calm:
  "calm (samples es) s \<Longrightarrow> fold fiq_step es s =
    (if Jiffy \<in> set es then quad_timer (fold quad_fiq_handler (samples es) s) else fold quad_fiq_handler (samples es) s)"
  by (induction es arbitrary: s rule: samples.induct) (auto simp: calm_timer)

text \<open>Samples that bounce: no four in a row are equal.  The driver settles nothing while they come.\<close>

definition no_four :: "nat list \<Rightarrow> bool" where
  "no_four xs \<longleftrightarrow> (\<forall>w. \<not> sublist (replicate 4 w) xs)"

lemma no_four_run: "no_four (replicate n u @ xs) \<Longrightarrow> n < 4"
proof (rule ccontr)
  assume *: "no_four (replicate n u @ xs)" "\<not> n < 4"
  then have "replicate n u = replicate 4 u @ replicate (n - 4) u" by (simp flip: replicate_add)
  then have "sublist (replicate 4 u) (replicate n u @ xs)" by (metis append.assoc sublist_append_rightI)
  then show False using * by (simp add: no_four_def)
qed

lemma no_four_tail: "no_four (ys @ xs) \<Longrightarrow> no_four xs"
  unfolding no_four_def by (meson sublist_append_leftI sublist_order.order_trans)

lemma no_four_head: "no_four (xs @ ys) \<Longrightarrow> no_four xs"
  unfolding no_four_def by (meson sublist_appendI prefix_imp_sublist prefixI sublist_order.order_trans)

definition bouncing :: "quad_fiq \<Rightarrow> quad_fiq \<Rightarrow> bool" where
  "bouncing s t \<longleftrightarrow>
     t\<lparr>fiq_state := fiq_state s, fiq_count := fiq_count s\<rparr> = s \<and>
     (fiq_count t = - 1 \<and> fiq_state t = fiq_position t \<or> fiq_count t \<in> {0, 1, 2})"

lemma fiq_bounces:
  assumes "no_four (replicate (nat (fiq_count t + 1)) (fiq_state t) @ xs)" "bouncing s t"
  shows "bouncing s (fold quad_fiq_handler xs t) \<and> calm xs t"
  using assms
proof (induction xs arbitrary: t)
  case (Cons v xs)
  let ?t = "quad_fiq_handler v t"
  have "bouncing s ?t \<and> \<not> settles v t \<and> no_four (replicate (nat (fiq_count ?t + 1)) (fiq_state ?t) @ xs)"
  proof (cases "v = fiq_state t")
    case True
    then have "no_four (replicate (Suc (nat (fiq_count t + 1))) v @ xs)"
      using Cons.prems(1) by (simp add: replicate_app_Cons_same)
    moreover from no_four_run [OF this] have "fiq_count t \<noteq> 2" by auto
    ultimately show ?thesis
      using Cons.prems(2) True no_four_tail [of "[v]" xs]
      by (auto simp: bouncing_def settles_def quad_fiq_handler_def Let_def numeral_eq_Suc)
  next
    case False
    have "no_four ([v] @ xs)" using no_four_tail [OF Cons.prems(1)] by simp
    then show ?thesis using Cons.prems(2) False by (auto simp: bouncing_def settles_def quad_fiq_handler_def)
  qed
  then show ?case using Cons.IH by simp
qed simp

text \<open>Four equal samples settle the position.\<close>

definition fiq_settled :: "nat \<Rightarrow> quad_fiq \<Rightarrow> bool" where
  "fiq_settled p s \<longleftrightarrow> fiq_state s = p \<and> fiq_count s = - 1 \<and> fiq_position s = p \<and> reciva_quad_data s \<in> {0, 1, 2}"

definition step_data :: "direction \<Rightarrow> int" where
  "step_data d = (case d of Dir_x \<Rightarrow> 0 | Dir_a \<Rightarrow> 1 | Dir_c \<Rightarrow> 2)"

lemma sequence_turn:
  assumes "p < 4"
  shows "(sequence_up ! p = turn d p) = (d = Dir_a)" "(sequence_down ! p = turn d p) = (d = Dir_c)" "(turn d p = p) = (d = Dir_x)"
  using assms by (auto simp: sequence_up_def sequence_down_def turn_def less_Suc_eq numeral_eq_Suc split: direction.splits)

lemma fiq_keeps:
  assumes "fiq_state s = v" "fiq_count s = - 1"
  shows "fold quad_fiq_handler (replicate j v) s = s" "calm (replicate j v) s"
  using assms by (induction j) (simp_all add: quad_fiq_handler_def settles_def)

lemma fiq_settle:
  assumes "turn d p = fiq_state t" "fiq_count t = 2" "fiq_position t = p" "reciva_quad_data t = 0" "p < 4" "d \<noteq> Dir_x"
  shows "quad_fiq_handler (turn d p) t = t\<lparr>fiq_count := - 1, fiq_position := turn d p, reciva_quad_data := step_data d\<rparr>"
  using assms(1-4,6) sequence_turn [OF assms(5), of d] by (cases d) (simp_all add: quad_fiq_handler_def Let_def step_data_def)

text \<open>
  A step of the shaft away from the position \<open>p\<close>, up to the sample before the one that settles it: the contacts
  rest, bounce with no four equal samples in a row, and then the last three samples are the next position.
  The jiffies fall anywhere.
\<close>

definition approach :: "nat \<Rightarrow> direction \<Rightarrow> fiq_event list \<Rightarrow> bool" where
  "approach p d es \<longleftrightarrow> d \<noteq> Dir_x \<and>
     (\<exists>j xs. samples es = replicate j p @ xs @ replicate 3 (turn d p) \<and> no_four (xs @ replicate 3 (turn d p)))"

lemma three_equal:
  assumes "bouncing s t" "fiq_position s \<noteq> v" "bouncing s (fold quad_fiq_handler (replicate 3 v) t)"
  shows "fiq_state (fold quad_fiq_handler (replicate 3 v) t) = v" "fiq_count (fold quad_fiq_handler (replicate 3 v) t) = 2"
proof -
  have pos: "fiq_position t = fiq_position s" using assms(1) by (auto simp: bouncing_def dest: arg_cong [where f = fiq_position])
  have three: "replicate 3 v = [v, v, v]" by (simp add: eval_nat_numeral)
  let ?r = "fold quad_fiq_handler (replicate 3 v) t"
  have p: "fiq_position ?r = fiq_position s" using assms(3) by (auto simp: bouncing_def dest: arg_cong [where f = fiq_position])
  have "fiq_state ?r = v \<and> fiq_count ?r = 2"
  proof (cases "fiq_state t = v")
    case False
    then show ?thesis by (simp add: three quad_fiq_handler_def)
  next
    case True
    then have "fiq_count t \<in> {0, 1, 2}" using assms(1,2) pos by (auto simp: bouncing_def)
    then have "fiq_position ?r = v" using True by (auto simp: three quad_fiq_handler_def Let_def)
    then show ?thesis using p assms(2) by simp
  qed
  then show "fiq_state ?r = v" "fiq_count ?r = 2" by simp_all
qed

lemma fiq_settles:
  assumes "fiq_settled p s" "p < 4" "approach p d es" "reciva_quad_data s = 0 \<or> Jiffy \<in> set es"
  shows "quad_fiq_handler (turn d p) (fold fiq_step es s) =
    (quad_timer s)\<lparr>fiq_state := turn d p, fiq_count := - 1, fiq_position := turn d p, reciva_quad_data := step_data d\<rparr>"
proof -
  let ?v = "turn d p"
  obtain j xs where e: "d \<noteq> Dir_x" "samples es = replicate j p @ xs @ replicate 3 ?v" "no_four (xs @ replicate 3 ?v)"
    using assms(3) by (auto simp: approach_def)
  have s: "fiq_state s = p" "fiq_count s = - 1" "fiq_position s = p" using assms(1) by (simp_all add: fiq_settled_def)
  have v: "?v \<noteq> p" using sequence_turn(3) [OF assms(2)] e(1) by blast
  let ?x = "fold quad_fiq_handler xs s" let ?t = "fold quad_fiq_handler (replicate 3 ?v) ?x"
  have b: "bouncing s s" using s by (simp add: bouncing_def)
  have xs: "no_four (replicate (nat (fiq_count s + 1)) (fiq_state s) @ xs)"
    using no_four_head [OF e(3)] s(2) by simp
  have ys: "no_four (replicate (nat (fiq_count s + 1)) (fiq_state s) @ xs @ replicate 3 ?v)" using e(3) s(2) by simp
  have x: "bouncing s ?x" using fiq_bounces [OF xs b] by blast
  have t: "bouncing s ?t" "calm (xs @ replicate 3 ?v) s" using fiq_bounces [OF ys b] by (simp_all del: fold_replicate calm_append)
  note three = three_equal [OF x _ t(1), unfolded s(3), OF v [symmetric]]
  have f: "fold quad_fiq_handler (samples es) s = ?t" "calm (samples es) s"
    using t(2) fiq_keeps [OF s(1,2)] by (simp_all add: e(2) del: fold_replicate)
  have q: "?t\<lparr>fiq_state := p, fiq_count := - 1\<rparr> = s" using t(1) s by (simp add: bouncing_def del: fold_replicate)
  obtain r where r: "?t = r" by blast
  note three = three [unfolded r] and q = q [unfolded r]
  have "quad_timer r = (if reciva_quad_data s = 0 then r else quad_timer r)"
    using arg_cong [OF q, of reciva_quad_data] by (simp add: quad_timer_def)
  then have w: "fold fiq_step es s = quad_timer r" using fold_calm [OF f(2)] f(1) r assms(4) by (auto simp del: fold_replicate)
  have q': "quad_timer r = (quad_timer s)\<lparr>fiq_state := ?v, fiq_count := 2\<rparr>"
    using three by (subst q [symmetric]) (simp add: quad_timer_def Let_def)
  have "reciva_quad_data (quad_timer s) = 0" using assms(1) by (auto simp: fiq_settled_def quad_timer_def Let_def)
  then show ?thesis unfolding w q' using s(3) e(1) assms(2) by (subst fiq_settle) simp_all
qed

text \<open>A run: the events before each settling sample, and the direction of the step.\<close>

fun fiq_moves :: "nat \<Rightarrow> (fiq_event list \<times> direction) list \<Rightarrow> quad_fiq \<Rightarrow> quad_fiq" where
  "fiq_moves p [] s = s"
| "fiq_moves p ((es, d) # ms) s = fiq_moves (turn d p) ms (fiq_step (Sample (turn d p)) (fold fiq_step es s))"

fun approaches :: "nat \<Rightarrow> (fiq_event list \<times> direction) list \<Rightarrow> bool" where
  "approaches p [] = True"
| "approaches p ((es, d) # ms) = (approach p d es \<and> approaches (turn d p) ms)"

definition turn_count :: "direction \<Rightarrow> (fiq_event list \<times> direction) list \<Rightarrow> nat" where
  "turn_count d ms = length (filter (\<lambda>(es, e). e = d) ms)"

lemma fiq_moves_count:
  assumes "approaches p ms" "fiq_settled p s" "p < 4"
    "reciva_quad_data s = 0 \<or> ms = [] \<or> Jiffy \<in> set (fst (hd ms))" "\<forall>(es, d) \<in> set (tl ms). Jiffy \<in> set es"
    "up_count (quad_timer s) = int u" "u < 2" "down_count (quad_timer s) = int v" "v < 2"
  shows "count_list (qf_events (quad_timer (fiq_moves p ms s))) (- 1) =
      count_list (qf_events (quad_timer s)) (- 1) + (u + turn_count Dir_a ms) div 2 \<and>
    count_list (qf_events (quad_timer (fiq_moves p ms s))) 1 =
      count_list (qf_events (quad_timer s)) 1 + (v + turn_count Dir_c ms) div 2"
  using assms
proof (induction ms arbitrary: p s u v)
  case Nil
  then show ?case by (simp add: turn_count_def)
next
  case (Cons m ms)
  obtain es d where m: "m = (es, d)" "approach p d es" "d \<noteq> Dir_x" using Cons.prems(1) by (cases m) (auto simp: approach_def)
  let ?u = "if d = Dir_a then 1 - u else u" let ?v = "if d = Dir_c then 1 - v else v"
  obtain t where t: "quad_timer s = t" by blast
  have "reciva_quad_data s = 0 \<or> Jiffy \<in> set es" using Cons.prems(4) by (simp add: m(1))
  from fiq_settles [OF Cons.prems(2,3) m(2) this]
  obtain s' where s': "quad_fiq_handler (turn d p) (fold fiq_step es s) = s'"
    "s' = t\<lparr>fiq_state := turn d p, fiq_count := - 1, fiq_position := turn d p, reciva_quad_data := step_data d\<rparr>"
    unfolding t by blast
  have s: "fiq_settled (turn d p) s'" "up_count (quad_timer s') = int ?u" "down_count (quad_timer s') = int ?v"
      "qf_events (quad_timer s') = qf_events t @ (if d = Dir_a \<and> u = 1 then [- 1] else if d = Dir_c \<and> v = 1 then [1] else [])"
    using Cons.prems(6-9) [unfolded t] m(3) unfolding s'(2) quad_timer_def step_data_def fiq_settled_def Let_def by (cases d; force)+
  have jiffies: "\<forall>(es, d) \<in> set ms. Jiffy \<in> set es" using Cons.prems(5) by simp
  have "count_list (qf_events (quad_timer (fiq_moves (turn d p) ms s'))) (- 1) =
      count_list (qf_events (quad_timer s')) (- 1) + (?u + turn_count Dir_a ms) div 2 \<and>
    count_list (qf_events (quad_timer (fiq_moves (turn d p) ms s'))) 1 =
      count_list (qf_events (quad_timer s')) 1 + (?v + turn_count Dir_c ms) div 2"
  proof (rule Cons.IH)
    show "approaches (turn d p) ms" using Cons.prems(1) by (simp add: m(1))
    show "turn d p < 4" using turn_table [OF Cons.prems(3)] by blast
    show "reciva_quad_data s' = 0 \<or> ms = [] \<or> Jiffy \<in> set (fst (hd ms))" "\<forall>(es, d)\<in>set (tl ms). Jiffy \<in> set es"
      using jiffies by (cases ms; force)+
  qed (use s Cons.prems(7,9) in auto)
  moreover have "fiq_moves p (m # ms) s = fiq_moves (turn d p) ms s'" by (simp add: m(1) s'(1))
  ultimately show ?case
    using m(3) Cons.prems(7,9) s(4) unfolding t by (cases d) (auto simp: m(1) turn_count_def less_2_cases_iff)
qed



end
