(* ===== verification/Pins.thy ===== *)
theory Pins
  imports Slave_Mode Quad
begin

text \<open>
  The modules that drive and watch single pins: \<^verbatim>\<open>reciva_misc_control.c\<close>, which writes any pin of the connectors,
  \<^verbatim>\<open>reciva_status_pins.c\<close>, \<^verbatim>\<open>reciva_leds_potas.c\<close>, \<^verbatim>\<open>reciva_usb.c\<close>, the two ends of the status lines of the slave
  mode, \<^verbatim>\<open>reciva_slave_mode_status_slave.c\<close> and \<^verbatim>\<open>reciva_slave_mode_status_master.c\<close>, the monitor of the audio
  chip, \<^verbatim>\<open>reciva_mosa_ms6335_monitor.c\<close>, and the power button, \<^verbatim>\<open>reciva_powerbutton_windermere.c\<close>.
\<close>

section \<open>Ports\<close>

definition CON :: nat where "CON = 0x00"
definition DAT :: nat where "DAT = 0x04"
definition UP :: nat where "UP = 0x08"

text \<open>The address of a register of a port.\<close>

definition GP :: "char \<Rightarrow> nat \<Rightarrow> nat" where
  "GP x a = 0x10 * (of_char x - 65) + a"

section \<open>Control of any pin\<close>

text \<open>A pin of a connector: its port, unless it is none of the processor, and its number.\<close>

type_synonym gpio_channel = "(char \<times> nat) option"

definition connector1 :: "gpio_channel list" where
  "connector1 =
     [None, None, Some (CHR ''E'', 10), Some (CHR ''E'', 2), Some (CHR ''E'', 9), Some (CHR ''E'', 4),
      Some (CHR ''E'', 8), Some (CHR ''E'', 1), Some (CHR ''E'', 7), Some (CHR ''E'', 0), None, Some (CHR ''E'', 3),
      Some (CHR ''E'', 6), None, Some (CHR ''E'', 5), Some (CHR ''B'', 0), None, Some (CHR ''B'', 7),
      Some (CHR ''E'', 14), Some (CHR ''B'', 9)]"

definition connector2 :: "gpio_channel list" where
  "connector2 =
     [Some (CHR ''G'', 3), None, Some (CHR ''G'', 5), None, Some (CHR ''G'', 6), None, Some (CHR ''G'', 7), Some (CHR ''E'', 15),
      None, Some (CHR ''F'', 1), Some (CHR ''G'', 11), Some (CHR ''F'', 2), Some (CHR ''G'', 10), None, Some (CHR ''G'', 9), None,
      Some (CHR ''G'', 8), None, Some (CHR ''G'', 14), None, Some (CHR ''G'', 15), None, None, None, Some (CHR ''F'', 4), None,
      Some (CHR ''F'', 5), None, Some (CHR ''F'', 6), Some (CHR ''H'', 10), None, Some (CHR ''H'', 9), Some (CHR ''H'', 7), None,
      None, None, None, None, None, None]"

definition connector3 :: "gpio_channel list" where
  "connector3 =
     [None, Some (CHR ''D'', 10), Some (CHR ''C'', 15), Some (CHR ''D'', 9), Some (CHR ''C'', 14), Some (CHR ''D'', 8),
      Some (CHR ''C'', 13), None, Some (CHR ''C'', 12), Some (CHR ''C'', 5), Some (CHR ''C'', 11), Some (CHR ''C'', 4),
      Some (CHR ''C'', 10), Some (CHR ''C'', 3), Some (CHR ''C'', 9), Some (CHR ''C'', 2), Some (CHR ''C'', 8), Some (CHR ''C'', 1),
      None, Some (CHR ''C'', 0)]"

definition get_gpio_channel :: "int \<Rightarrow> int \<Rightarrow> gpio_channel option" where
  "get_gpio_channel connector pin =
     (if pin < 1 then None
      else let pick = (\<lambda>c. if pin > int (length c) then None else Some (c ! nat (pin - 1)))
           in if connector = 1 then pick connector1 else if connector = 2 then pick connector2
              else if connector = 3 then pick connector3 else None)"

definition gpio_write :: "gpio_channel \<Rightarrow> int \<Rightarrow> io_regs \<Rightarrow> int \<times> io_regs" where
  "gpio_write pin b r =
     (case pin of
        None \<Rightarrow> (- 13, r)
      | Some (c, n) \<Rightarrow>
          if of_char c < (65 :: nat) \<or> of_char c > (72 :: nat) then (- 22, r)
          else if n > 15 then (- 22, r)
          else if b \<noteq> 0 \<and> b \<noteq> 1 then (- 22, r)
          else let r = reg_write (push_bit n 1) 0 (GP c UP) r;
                   r = reg_write (push_bit (2 * n) 1) (push_bit (2 * n) 3) (GP c CON) r;
                   (acted, r) = rutl_regwrite (push_bit n (of_int b)) (push_bit n (if b = 0 then 1 else 0)) (GP c DAT) r
               in (if acted then 0 else - 114, r))"

definition set_standby_pin :: "int \<Rightarrow> int \<Rightarrow> io_regs \<Rightarrow> int \<times> io_regs" where
  "set_standby_pin standby_pin on r =
     (if standby_pin = 1 then gpio_write (Some (CHR ''B'', 9)) on r
      else if standby_pin = 2 then gpio_write (Some (CHR ''G'', 3)) on r
      else if standby_pin = 3 then gpio_write (Some (CHR ''H'', 7)) on r
      else (0, r))"

definition set_ethernet_power :: "int \<Rightarrow> int \<Rightarrow> io_regs \<Rightarrow> int \<times> io_regs" where
  "set_ethernet_power ethernet_ic_power on r =
     (if ethernet_ic_power = 1 then gpio_write (Some (CHR ''G'', 9)) (if on = 0 then 1 else 0) r else (0, r))"

datatype rmc_request = IOC_RMC_STANDBY "int option" | IOC_RMC_ETHERNET_POWER "int option"
  | IOC_RMC_PIN_WRITE "(int \<times> int \<times> int) option" | IOC_RMC_PIN_READ | IOC_RMC_OTHER

text \<open>The two options of the module are parameters; None is an argument that cannot be copied.\<close>

definition rmc_ioctl :: "int \<Rightarrow> int \<Rightarrow> rmc_request \<Rightarrow> io_regs \<Rightarrow> int \<times> io_regs" where
  "rmc_ioctl standby_pin ethernet_ic_power cmd r =
     (case cmd of
        IOC_RMC_STANDBY None \<Rightarrow> (- 14, r)
      | IOC_RMC_STANDBY (Some i) \<Rightarrow> set_standby_pin standby_pin i r
      | IOC_RMC_ETHERNET_POWER None \<Rightarrow> (- 14, r)
      | IOC_RMC_ETHERNET_POWER (Some i) \<Rightarrow> set_ethernet_power ethernet_ic_power i r
      | IOC_RMC_PIN_WRITE None \<Rightarrow> (- 14, r)
      | IOC_RMC_PIN_WRITE (Some (connector, pin, data)) \<Rightarrow>
          (case get_gpio_channel connector pin of None \<Rightarrow> (- 22, r) | Some p \<Rightarrow> gpio_write p data r)
      | IOC_RMC_PIN_READ \<Rightarrow> (- 38, r)
      | IOC_RMC_OTHER \<Rightarrow> (- 19, r))"

definition rmc_module_init :: "int \<Rightarrow> int \<Rightarrow> io_regs \<Rightarrow> io_regs" where
  "rmc_module_init standby_pin ethernet_ic_power r =
     snd (set_ethernet_power ethernet_ic_power 1 (snd (set_standby_pin standby_pin 0 r)))"

section \<open>Status pins\<close>

definition rsp_init :: "io_regs \<Rightarrow> io_regs" where
  "rsp_init r =
     reg_write 0x00150000 0x00000000 (GP CHR ''C'' CON)
       (reg_write 0x00000700 0x00000000 (GP CHR ''C'' UP) (reg_write 0x00000000 0x00000700 (GP CHR ''C'' DAT) r))"

datatype rsp_request = IOC_RSP_SET "32 word option" | IOC_RSP_OTHER

definition rsp_ioctl :: "rsp_request \<Rightarrow> io_regs \<Rightarrow> int \<times> io_regs" where
  "rsp_ioctl cmd r =
     (case cmd of
        IOC_RSP_SET None \<Rightarrow> (- 14, r)
      | IOC_RSP_SET (Some temp) \<Rightarrow>
          let bits_to_set = push_bit 8 (temp AND 0x07); bits_to_clear = NOT bits_to_set AND 0x00000700
          in (0, reg_write bits_to_set bits_to_clear (GP CHR ''C'' DAT) r)
      | IOC_RSP_OTHER \<Rightarrow> (- 19, r))"

section \<open>LEDs\<close>

definition K_RLED_NONE :: "32 word" where "K_RLED_NONE = 0"
definition K_RLED_MENU :: "32 word" where "K_RLED_MENU = 1"
definition K_RLED_VOLUME :: "32 word" where "K_RLED_VOLUME = 2"

text \<open>An LED on a pin: set or cleared.\<close>

definition led_pin :: "char \<Rightarrow> nat \<Rightarrow> bool \<Rightarrow> io_regs \<Rightarrow> io_regs" where
  "led_pin c n on r =
     (if on then reg_write (push_bit n 1) (push_bit n 0) (GP c DAT) r
      else reg_write (push_bit n 0) (push_bit n 1) (GP c DAT) r)"

definition reciva_led_set :: "int \<Rightarrow> 32 word \<Rightarrow> io_regs \<Rightarrow> io_regs" where
  "reciva_led_set led_config bitmask r =
     (let r = (if led_config = 2 then led_pin CHR ''H'' 7 (bitmask AND K_RLED_MENU \<noteq> 0) r
               else if led_config = 3 then r
               else led_pin CHR ''H'' 7 (bitmask AND K_RLED_VOLUME \<noteq> 0) r)
      in if led_config = 1 then led_pin CHR ''C'' 4 (bitmask AND K_RLED_MENU \<noteq> 0) r
         else if led_config = 2 \<or> led_config = 3 then r
         else led_pin CHR ''B'' 7 (bitmask AND K_RLED_MENU \<noteq> 0) r)"

definition reciva_get_leds_supported :: "int \<Rightarrow> 32 word" where
  "reciva_get_leds_supported led_config = (if led_config = 2 then K_RLED_MENU else K_RLED_VOLUME OR K_RLED_MENU)"

text \<open>A pin is made an output, low.\<close>

definition led_output :: "char \<Rightarrow> nat \<Rightarrow> io_regs \<Rightarrow> io_regs" where
  "led_output c n r =
     reg_write (push_bit (2 * n) 1) (push_bit (2 * n) 3) (GP c CON)
       (reg_write (push_bit n 1) (push_bit n 0) (GP c UP) (reg_write (push_bit n 0) (push_bit n 1) (GP c DAT) r))"

definition reciva_led_init :: "int \<Rightarrow> io_regs \<Rightarrow> io_regs" where
  "reciva_led_init led_config r =
     (let r = (if led_config = 1 then led_output CHR ''C'' 4 r
               else if led_config = 2 \<or> led_config = 3 then r else led_output CHR ''B'' 7 r);
          r = (if led_config = 3 then r else led_output CHR ''H'' 7 r)
      in reciva_led_set led_config (K_RLED_VOLUME OR K_RLED_MENU) r)"

definition reciva_led_exit :: "int \<Rightarrow> io_regs \<Rightarrow> io_regs" where
  "reciva_led_exit led_config r = reciva_led_set led_config K_RLED_NONE r"

section \<open>USB\<close>

definition MISCCR :: nat where "MISCCR = 0x80"

definition rusb_init :: "int \<Rightarrow> io_regs \<Rightarrow> io_regs" where
  "rusb_init usb_config r =
     (if usb_config = 0 then reg_write (push_bit 3 0) (push_bit 3 1) MISCCR r
      else if usb_config = 1 then reg_write (push_bit 3 1) (push_bit 3 0) MISCCR r else r)"

datatype usb_request = IOC_USB_POWER "int option" | IOC_USB_OTHER

definition rusb_ioctl :: "usb_request \<Rightarrow> io_regs \<Rightarrow> int \<times> io_regs" where
  "rusb_ioctl cmd r =
     (case cmd of IOC_USB_POWER None \<Rightarrow> (- 14, r) | IOC_USB_POWER (Some i) \<Rightarrow> (0, r) | IOC_USB_OTHER \<Rightarrow> (- 19, r))"

section \<open>The status lines of the slave mode\<close>

text \<open>The slave, which drives them; programs give any number, zero is low.\<close>

definition smss_set_level_nmrdy :: "int \<Rightarrow> io_regs \<Rightarrow> io_regs" where
  "smss_set_level_nmrdy level r =
     (if level = 0 then reg_write (push_bit 8 0) (push_bit 8 1) (GP CHR ''C'' DAT) r
      else reg_write (push_bit 8 1) (push_bit 8 0) (GP CHR ''C'' DAT) r)"

definition smss_set_level_ninterrupt :: "int \<Rightarrow> io_regs \<Rightarrow> io_regs" where
  "smss_set_level_ninterrupt level r =
     (if level = 0 then reg_write (push_bit 9 0) (push_bit 9 1) (GP CHR ''C'' DAT) r
      else reg_write (push_bit 9 1) (push_bit 9 0) (GP CHR ''C'' DAT) r)"

definition smss_release :: "io_regs \<Rightarrow> int \<times> io_regs" where
  "smss_release r = (0, smss_set_level_nmrdy 1 r)"

datatype smss_request = IOC_SMSS_SET_NMRDY "int option" | IOC_SMSS_SET_NINTERRUPT "int option" | IOC_SMSS_OTHER

definition smss_ioctl :: "smss_request \<Rightarrow> io_regs \<Rightarrow> int \<times> io_regs" where
  "smss_ioctl cmd r =
     (case cmd of
        IOC_SMSS_SET_NMRDY None \<Rightarrow> (- 14, r)
      | IOC_SMSS_SET_NMRDY (Some i) \<Rightarrow> (0, smss_set_level_nmrdy i r)
      | IOC_SMSS_SET_NINTERRUPT None \<Rightarrow> (- 14, r)
      | IOC_SMSS_SET_NINTERRUPT (Some i) \<Rightarrow> (0, smss_set_level_ninterrupt i r)
      | IOC_SMSS_OTHER \<Rightarrow> (- 19, r))"

definition smss_module_init :: "io_regs \<Rightarrow> io_regs" where
  "smss_module_init r =
     (let r = reg_write (push_bit 8 1) (push_bit 8 0) (GP CHR ''C'' DAT) r;
          r = reg_write (push_bit 8 1) (push_bit 8 0) (GP CHR ''C'' UP) r;
          r = reg_write (push_bit 16 1) (push_bit 16 3) (GP CHR ''C'' CON) r;
          r = reg_write (push_bit 9 1) (push_bit 9 0) (GP CHR ''C'' DAT) r;
          r = reg_write (push_bit 9 1) (push_bit 9 0) (GP CHR ''C'' UP) r
      in reg_write (push_bit 18 1) (push_bit 18 3) (GP CHR ''C'' CON) r)"

text \<open>The master, which watches them.\<close>

definition SMSM_BITFIELD_nMRDY :: "32 word" where "SMSM_BITFIELD_nMRDY = 1"
definition SMSM_BITFIELD_nINTERRUPT :: "32 word" where "SMSM_BITFIELD_nINTERRUPT = 2"

record smsm =
  smsm_regs :: io_regs
  status_pins_changed :: bool

definition get_pin_status :: "smsm \<Rightarrow> 32 word" where
  "get_pin_status s =
     (let gpgdat = smsm_regs s (GP CHR ''G'' DAT);
          pin_status = (if gpgdat AND push_bit 5 1 \<noteq> 0 then SMSM_BITFIELD_nMRDY else 0)
      in if gpgdat AND push_bit 7 1 \<noteq> 0 then pin_status OR SMSM_BITFIELD_nINTERRUPT else pin_status)"

definition smsm_int_handler :: "smsm \<Rightarrow> smsm" where
  "smsm_int_handler s = s\<lparr>status_pins_changed := True\<rparr>"

definition smsm_poll :: "smsm \<Rightarrow> bool" where
  "smsm_poll s \<longleftrightarrow> status_pins_changed s"

datatype smsm_request = IOC_SMSM_GET_STATUS bool | IOC_SMSM_OK_TO_SEND bool | IOC_SMSM_OTHER

definition smsm_ioctl :: "smsm_request \<Rightarrow> smsm \<Rightarrow> int \<times> int list \<times> smsm" where
  "smsm_ioctl cmd s =
     (case cmd of
        IOC_SMSM_GET_STATUS ok \<Rightarrow>
          let s = s\<lparr>status_pins_changed := False\<rparr> in if ok then (0, [uint (get_pin_status s)], s) else (- 14, [], s)
      | IOC_SMSM_OK_TO_SEND ok \<Rightarrow>
          let status = (if get_pin_status s AND SMSM_BITFIELD_nMRDY \<noteq> 0 then 0 else 1)
          in if ok then (0, [status], s) else (- 14, [], s)
      | IOC_SMSM_OTHER \<Rightarrow> (- 19, [], s))"

definition smsm_module_init :: "smsm \<Rightarrow> smsm" where
  "smsm_module_init s =
     (let r = reg_write (push_bit 20 0xf) (push_bit 20 0xf) EXTINT1 (smsm_regs s);
          r = reg_write (push_bit 28 0xf) (push_bit 28 0xf) EXTINT1 r;
          r = reg_write (push_bit 5 0) (push_bit 5 1) (GP CHR ''G'' UP) r;
          r = reg_write (push_bit 10 2) (push_bit 10 3) (GP CHR ''G'' CON) r;
          r = reg_write (push_bit 7 0) (push_bit 7 1) (GP CHR ''G'' UP) r;
          r = reg_write (push_bit 14 2) (push_bit 14 3) (GP CHR ''G'' CON) r
      in s\<lparr>smsm_regs := r\<rparr>)"

section \<open>The monitor of the audio chip\<close>

text \<open>\<open>mon_timer\<close> is whether the timer is set.  A result tells whether the converter is initialised.\<close>

record monitor =
  mon_regs :: io_regs
  debouncing :: bool
  mon_timer :: bool

definition mosa_debounce_timeout_handler :: "monitor \<Rightarrow> bool \<times> monitor" where
  "mosa_debounce_timeout_handler s =
     (mon_regs s (GP CHR ''G'' DAT) AND push_bit 5 1 \<noteq> 0, s\<lparr>debouncing := False, mon_timer := False\<rparr>)"

definition mosa_int_handler :: "monitor \<Rightarrow> monitor" where
  "mosa_int_handler s = (if \<not> debouncing s then s\<lparr>debouncing := True, mon_timer := True\<rparr> else s)"

definition mosa_init :: "monitor \<Rightarrow> monitor" where
  "mosa_init s =
     (let r = reg_write (push_bit 20 0xf) (push_bit 20 0xf) EXTINT1 (mon_regs s);
          r = reg_write (push_bit 5 0) (push_bit 5 1) (GP CHR ''G'' UP) r;
          r = reg_write (push_bit 10 2) (push_bit 10 3) (GP CHR ''G'' CON) r
      in s\<lparr>mon_regs := r\<rparr>)"

section \<open>The power button\<close>

datatype power_button = BTN_X | BTN_Y

record powbut =
  pb_regs :: io_regs
  power_is_on_old :: int

text \<open>
  The driver waits a millisecond (\<open>udelay\<close>) for the contacts to settle and then reads the pin.  The wait changes no state
  and is left out: \<open>pb_regs\<close> holds what the pin shows after it.
\<close>

definition is_power_on :: "powbut \<Rightarrow> int" where
  "is_power_on s = (if pb_regs s (GP CHR ''G'' DAT) AND push_bit 6 1 \<noteq> 0 then 0 else 1)"

text \<open>The registers are assigned one after the other, as memory.\<close>

definition led_off :: "powbut \<Rightarrow> powbut" where
  "led_off s =
     (let r = pb_regs s; hcon = GP CHR ''H'' CON; hup = GP CHR ''H'' UP; hdat = GP CHR ''H'' DAT;
          r = r(hcon := r hcon OR push_bit 14 4);
          r = r(hcon := r hcon AND NOT (push_bit 14 2));
          r = r(hup := r hup AND NOT (push_bit 7 1));
          r = r(hdat := r hdat AND NOT (push_bit 7 1))
      in s\<lparr>pb_regs := r\<rparr>)"

definition powbut_init :: "powbut \<Rightarrow> powbut" where
  "powbut_init s =
     (let s = s\<lparr>power_is_on_old := - 1\<rparr>; r = pb_regs s; gup = GP CHR ''G'' UP; gcon = GP CHR ''G'' CON;
          r = r(gup := r gup AND NOT (push_bit 6 1));
          r = r(gcon := r gcon AND NOT (push_bit 12 3));
          r = r(gcon := r gcon OR push_bit 12 2);
          r = r(EXTINT1 := r EXTINT1 OR push_bit 24 7);
          s = s\<lparr>pb_regs := r\<rparr>
      in if is_power_on s = 0 then led_off s else s)"

text \<open>The button is reported pressed and released.\<close>

definition power_int_handler :: "powbut \<Rightarrow> (power_button \<times> bool) list \<times> powbut" where
  "power_int_handler s =
     (let poweron = is_power_on s
      in (if poweron \<noteq> power_is_on_old s
          then if poweron \<noteq> 0 then [(BTN_X, True), (BTN_X, False)] else [(BTN_Y, True), (BTN_Y, False)]
          else [], s\<lparr>power_is_on_old := poweron\<rparr>))"

definition powbut_proc :: "powbut \<Rightarrow> byte list" where
  "powbut_proc s = [if is_power_on s = 0 then 48 else 49, 10]"

section \<open>What a write changes\<close>

lemma bit_reg_write_at:
  "bit (reg_write st cl a r b) i \<longleftrightarrow> (if b = a then bit st i \<or> bit (r a) i \<and> \<not> bit cl i else bit (r b) i)"
  by (simp add: bit_reg_write)

lemma one_bit: "bit (push_bit m (1 :: 32 word)) i \<longleftrightarrow> i < 32 \<and> i = m"
  by (auto simp: bit_push_bit_iff bit_1_iff simp del: push_bit_of_1)

lemma two_bits: "bit (push_bit m (3 :: 32 word)) i \<longleftrightarrow> i < 32 \<and> (i = m \<or> i = m + 1)"
proof -
  have "(3 :: 32 word) = mask 2" by (simp add: mask_eq_exp_minus_1)
  then have "bit (push_bit m (3 :: 32 word)) i \<longleftrightarrow> i < 32 \<and> m \<le> i \<and> i - m < 2" by (simp only: bit_push_bit_iff bit_mask_iff) auto
  then show ?thesis by auto
qed

text \<open>C27. A program that writes a pin of a connector drives that pin and nothing else: the pin is an output with its
  pull-up off and its level the bit given, and every other bit of every register is as it was; the answer is an
  error exactly when the level was the same before.\<close>

theorem pin_write_drives_one_pin:
  assumes "get_gpio_channel connector pin = Some (Some (c, n))" "data = 0 \<or> data = 1"
    "rmc_ioctl sb eth (IOC_RMC_PIN_WRITE (Some (connector, pin, data))) r = (e, r')"
  shows "bit (r' (GP c DAT)) n = (data = 1) \<and> bit (r' (GP c UP)) n \<and>
    bit (r' (GP c CON)) (2 * n) \<and> \<not> bit (r' (GP c CON)) (2 * n + 1) \<and>
    (\<forall>a i. (a, i) \<notin> {(GP c DAT, n), (GP c UP, n), (GP c CON, 2 * n), (GP c CON, 2 * n + 1)} \<longrightarrow> bit (r' a) i = bit (r a) i) \<and>
    e = (if bit (r (GP c DAT)) n = (data = 1) then - 114 else 0)"
proof -
  have "Some (c, n) \<in> set connector1 \<union> set connector2 \<union> set connector3"
  proof -
    have "y \<in> set xs" if "xs ! nat (pin - 1) = y" "\<not> pin < 1" "\<not> int (length xs) < pin" for y and xs :: "gpio_channel list"
      using that nth_mem [of "nat (pin - 1)" xs] by simp
    from this [of connector1 "Some (c, n)"] this [of connector2 "Some (c, n)"] this [of connector3 "Some (c, n)"] show ?thesis
      using assms(1) by (auto simp: get_gpio_channel_def Let_def split: if_splits)
  qed
  then have v: "\<not> of_char c < (65 :: nat)" "\<not> of_char c > (72 :: nat)" "n \<le> 15"
    by (auto simp: connector1_def connector2_def connector3_def)
  have g: "GP c UP \<noteq> GP c CON" "GP c DAT \<noteq> GP c CON" "GP c DAT \<noteq> GP c UP" by (simp_all add: GP_def CON_def UP_def DAT_def)
  define r1 where "r1 = reg_write (push_bit (2 * n) 1) (push_bit (2 * n) 3) (GP c CON) (reg_write (push_bit n 1) 0 (GP c UP) r)"
  let ?st = "push_bit n (of_int data) :: 32 word" and ?cl = "push_bit n (if data = 0 then 1 else 0) :: 32 word"
  obtain acted where w: "rutl_regwrite ?st ?cl (GP c DAT) r1 = (acted, r')" "e = (if acted then 0 else - 114)"
    using assms v by (auto simp: rmc_ioctl_def gpio_write_def r1_def Let_def split: prod.splits if_splits)
  have r': "r' = reg_write ?st ?cl (GP c DAT) r1" "acted \<longleftrightarrow> r1 (GP c DAT) \<noteq> r' (GP c DAT)"
    using w(1) by (auto simp: reg_write_def rutl_regwrite_def Let_def)
  have st: "bit ?st i \<longleftrightarrow> data = 1 \<and> i = n" "bit ?cl i \<longleftrightarrow> data = 0 \<and> i = n" for i
    using assms(2) v(3) by (auto simp: bit_push_bit_iff bit_1_iff)
  have b: "bit (r' a) i \<longleftrightarrow>
      (if a = GP c DAT then data = 1 \<and> i = n \<or> bit (r a) i \<and> \<not> (data = 0 \<and> i = n)
       else if a = GP c CON then i = 2 * n \<or> bit (r a) i \<and> i \<noteq> 2 * n + 1
       else if a = GP c UP then i = n \<or> bit (r a) i else bit (r a) i)" for a i
    unfolding r' r1_def bit_reg_write_at st two_bits one_bit using v(3) g
    by (auto dest: bit_imp_le_length)
  have d: "r1 (GP c DAT) = r (GP c DAT)" using g by (simp add: r1_def)
  have "acted \<longleftrightarrow> bit (r (GP c DAT)) n \<noteq> (data = 1)"
  proof -
    have "r (GP c DAT) = r' (GP c DAT) \<longleftrightarrow> (\<forall>i. bit (r (GP c DAT)) i = bit (r' (GP c DAT)) i)" by (metis bit_word_eqI)
    then show ?thesis unfolding r'(2) d using b [of "GP c DAT"] assms(2) by auto
  qed
  then show ?thesis using b w(2) g assms(2) by auto
qed

lemma pin_write_drives_one_pin_witness:
  "rmc_ioctl 0 0 (IOC_RMC_PIN_WRITE (Some (2, 33, 1))) (\<lambda>_. 0) = (0, snd (rmc_ioctl 0 0 (IOC_RMC_PIN_WRITE (Some (2, 33, 1))) (\<lambda>_. 0))) \<and>
   bit (snd (rmc_ioctl 0 0 (IOC_RMC_PIN_WRITE (Some (2, 33, 1))) (\<lambda>_. 0)) (GP CHR ''H'' DAT)) 7"
proof -
  have c: "get_gpio_channel 2 33 = Some (Some (CHR ''H'', 7))" by code_simp
  show ?thesis using pin_write_drives_one_pin [OF c _ surjective_pairing, of 1 0 0 "\<lambda>_. 0"]
    by (simp add: prod_eq_iff)
qed

section \<open>The power button\<close>

text \<open>The interrupts of the button, each with the registers it finds.\<close>

fun power_run :: "io_regs list \<Rightarrow> powbut \<Rightarrow> (power_button \<times> bool) list" where
  "power_run [] s = []"
| "power_run (r # rs) s = (let (evs, s) = power_int_handler (s\<lparr>pb_regs := r\<rparr>) in evs @ power_run rs s)"

text \<open>The key that stands for the position of the button.\<close>

definition power_key :: "io_regs \<Rightarrow> power_button" where
  "power_key r = (if bit (r (GP CHR ''G'' DAT)) 6 then BTN_Y else BTN_X)"

lemma and_bit: "(x AND push_bit n 1 = 0) = (\<not> bit x n)" for x :: "32 word"
  by (simp add: bit_iff_and_push_bit_not_eq_0)

lemma remdups_split: "concat (map f (remdups_adj (x # xs))) = f x @ concat (map f (tl (remdups_adj (x # xs))))"
proof -
  have "remdups_adj (x # xs) \<noteq> []" "hd (remdups_adj (x # xs)) = x" by simp_all
  then obtain ys where "remdups_adj (x # xs) = x # ys" by (metis list.collapse)
  then show ?thesis by simp
qed

lemma power_run:
  assumes "power_is_on_old s = (case k of BTN_X \<Rightarrow> 1 | BTN_Y \<Rightarrow> 0)"
  shows "power_run rs s = concat (map (\<lambda>k. [(k, True), (k, False)]) (tl (remdups_adj (k # map power_key rs))))"
  using assms
proof (induction rs arbitrary: s k)
  case (Cons r rs)
  have o: "is_power_on (s\<lparr>pb_regs := r\<rparr>) = (case power_key r of BTN_X \<Rightarrow> 1 | BTN_Y \<Rightarrow> 0)"
    by (simp add: is_power_on_def power_key_def and_bit del: push_bit_of_1)
  let ?t = "s\<lparr>pb_regs := r, power_is_on_old := case power_key r of BTN_X \<Rightarrow> 1 | BTN_Y \<Rightarrow> 0\<rparr>"
  have h: "power_int_handler (s\<lparr>pb_regs := r\<rparr>) = (if power_key r = k then [] else [(power_key r, True), (power_key r, False)], ?t)"
    using Cons.prems by (cases "power_key r"; cases k) (simp_all add: power_int_handler_def o)
  have "power_run rs ?t = concat (map (\<lambda>k. [(k, True), (k, False)]) (tl (remdups_adj (power_key r # map power_key rs))))"
    by (rule Cons.IH) simp
  then show ?case using h remdups_split [of "\<lambda>k. [(k, True), (k, False)]" "power_key r" "map power_key rs"]
    by (cases "power_key r = k") auto
qed simp

text \<open>C36. However often the contacts bounce, the presses reported are the changes of the button, as it is read
  after the wait of each interrupt: each position is reported once, as a press with its release, until the other one is, and the first interrupt reports the position.\<close>

theorem power_presses_alternate:
  "power_run rs (powbut_init s) = concat (map (\<lambda>k. [(k, True), (k, False)]) (remdups_adj (map power_key rs)))"
proof (cases rs)
  case (Cons r rs')
  let ?s = "powbut_init s"
  have i: "power_is_on_old ?s = - 1" by (simp add: powbut_init_def led_off_def Let_def)
  have o: "is_power_on (?s\<lparr>pb_regs := r\<rparr>) = (case power_key r of BTN_X \<Rightarrow> 1 | BTN_Y \<Rightarrow> 0)"
    by (simp add: is_power_on_def power_key_def and_bit del: push_bit_of_1)
  let ?t = "?s\<lparr>pb_regs := r, power_is_on_old := case power_key r of BTN_X \<Rightarrow> 1 | BTN_Y \<Rightarrow> 0\<rparr>"
  have h: "power_int_handler (?s\<lparr>pb_regs := r\<rparr>) = ([(power_key r, True), (power_key r, False)], ?t)"
    using i by (cases "power_key r") (simp_all add: power_int_handler_def o)
  have "power_run rs' ?t = concat (map (\<lambda>k. [(k, True), (k, False)]) (tl (remdups_adj (power_key r # map power_key rs'))))"
    by (rule power_run) simp
  then show ?thesis using h Cons remdups_split [of "\<lambda>k. [(k, True), (k, False)]" "power_key r" "map power_key rs'"] by simp
qed simp

text \<open> Loaded with the button off, the module means to make the pin of the LED an output and clear it, but it sets
  a bit of the next pin: the pin keeps one bit of its mode, and becomes no output that was none.\<close>

theorem power_led_wrong_pin:
  assumes "bit (pb_regs s (GP CHR ''G'' DAT)) 6"
  shows "bit (pb_regs (powbut_init s) (GP CHR ''H'' CON)) 16 \<and>
    bit (pb_regs (powbut_init s) (GP CHR ''H'' CON)) 14 = bit (pb_regs s (GP CHR ''H'' CON)) 14 \<and>
    \<not> bit (pb_regs (powbut_init s) (GP CHR ''H'' DAT)) 7"
proof -
  define hcon where "hcon = GP CHR ''H'' CON"
  have a: "hcon \<noteq> GP CHR ''H'' UP" "hcon \<noteq> GP CHR ''H'' DAT" "hcon \<noteq> GP CHR ''G'' UP" "hcon \<noteq> GP CHR ''G'' CON" "hcon \<noteq> EXTINT1"
      "GP CHR ''H'' DAT \<noteq> GP CHR ''H'' UP"
    and g: "GP CHR ''G'' DAT \<noteq> GP CHR ''G'' UP" "GP CHR ''G'' DAT \<noteq> GP CHR ''G'' CON" "GP CHR ''G'' DAT \<noteq> EXTINT1"
    by (simp_all add: hcon_def GP_def CON_def UP_def DAT_def EXTINT1_def)
  obtain u where u: "powbut_init s = led_off u" "pb_regs u hcon = pb_regs s hcon"
    using assms a g by (simp add: powbut_init_def is_power_on_def Let_def and_bit del: push_bit_of_1)
  have "bit (pb_regs (led_off u) hcon) i \<longleftrightarrow> (bit (pb_regs u hcon) i \<or> bit (push_bit 14 (4 :: 32 word)) i) \<and> \<not> bit (push_bit 14 (2 :: 32 word)) i" for i
    using a bit_imp_le_length [of "pb_regs u hcon" i] unfolding led_off_def hcon_def [symmetric] Let_def
    by (auto simp: bit_and_iff bit_or_iff bit_not_iff simp del: push_bit_numeral dest: bit_imp_le_length)
  moreover have "\<not> bit (pb_regs (led_off u) (GP CHR ''H'' DAT)) 7"
    using a unfolding led_off_def hcon_def [symmetric] Let_def by (simp add: bit_and_iff bit_not_iff)
  ultimately show ?thesis using u unfolding hcon_def [symmetric] by simp
qed

lemma power_led_wrong_pin_witness:
  "bit (pb_regs (powbut_init \<lparr>pb_regs = (\<lambda>_. push_bit 6 1), power_is_on_old = 0\<rparr>) (GP CHR ''H'' CON)) 16"
  using power_led_wrong_pin [of "\<lparr>pb_regs = (\<lambda>_. push_bit 6 1), power_is_on_old = 0\<rparr>"] by simp

section \<open>The status lines\<close>

text \<open>The lines of the slave, pins 8 and 9 of port C, are wired to the pins 5 and 7 of port G of the master.\<close>

definition status_wired :: "io_regs \<Rightarrow> smsm \<Rightarrow> bool" where
  "status_wired r s \<longleftrightarrow>
     bit (smsm_regs s (GP CHR ''G'' DAT)) 5 = bit (r (GP CHR ''C'' DAT)) 8 \<and>
     bit (smsm_regs s (GP CHR ''G'' DAT)) 7 = bit (r (GP CHR ''C'' DAT)) 9"

lemma ok_to_send:
  assumes "status_wired r s"
  shows "fst (snd (smsm_ioctl (IOC_SMSM_OK_TO_SEND True) s)) = [if bit (r (GP CHR ''C'' DAT)) 8 then 0 else 1]"
proof -
  have "bit (get_pin_status s) 0 \<longleftrightarrow> bit (r (GP CHR ''C'' DAT)) 8"
    using assms unfolding get_pin_status_def Let_def and_bit
    by (auto simp: status_wired_def SMSM_BITFIELD_nMRDY_def SMSM_BITFIELD_nINTERRUPT_def bit_or_iff)
  moreover have "get_pin_status s AND SMSM_BITFIELD_nMRDY \<noteq> 0 \<longleftrightarrow> bit (get_pin_status s) 0"
    using and_bit [of "get_pin_status s" 0] by (simp add: SMSM_BITFIELD_nMRDY_def)
  ultimately show ?thesis by (simp add: smsm_ioctl_def Let_def)
qed

text \<open>The master may send once the controller of the slave was reset, or a program pulled the line low, and no more
  when the program has closed the device.\<close>

lemma ready_after_reset:
  "status_wired (smc_regs (snd (snd (smc_ioctl IOC_SMC_RESET c)))) s \<Longrightarrow>
   fst (snd (smsm_ioctl (IOC_SMSM_OK_TO_SEND True) s)) = [1]"
  by (drule ok_to_send)
    (simp add: smc_ioctl_def smc_reset_module_def smc_set_level_nmrdy_def Let_def bit_reg_write SMC_GPCDAT_def GP_def DAT_def)

lemma ready_as_set:
  "status_wired (snd (smss_ioctl (IOC_SMSS_SET_NMRDY (Some i)) r)) s \<Longrightarrow>
   fst (snd (smsm_ioctl (IOC_SMSM_OK_TO_SEND True) s)) = [if i = 0 then 1 else 0]"
  by (drule ok_to_send) (simp add: smss_ioctl_def smss_set_level_nmrdy_def bit_reg_write)

lemma not_ready_after_release:
  "status_wired (snd (smss_release r)) s \<Longrightarrow> fst (snd (smsm_ioctl (IOC_SMSM_OK_TO_SEND True) s)) = [0]"
  by (drule ok_to_send) (simp add: smss_release_def smss_set_level_nmrdy_def bit_reg_write)

end
