(* ===== verification/I2c.thy ===== *)
theory I2c
  imports Ring Rutl
begin

text \<open>
  The I2C bus of the radio: the module that answers a master, \<^verbatim>\<open>reciva_i2c_slave.c\<close>, a state machine driven by the
  interrupts of the I2C block of the processor, and the module that is one, \<^verbatim>\<open>reciva_i2c_master.c\<close>.
\<close>

section \<open>The slave\<close>

datatype slave_tx_state_t = RI2CS_LENGTH_REQ_PENDING | RI2CS_DATA_READ_PENDING

definition IICCON :: nat where "IICCON = 0"
definition IICSTAT :: nat where "IICSTAT = 4"
definition IICADD :: nat where "IICADD = 8"
definition IICDS :: nat where "IICDS = 12"

definition I2C_GPEUP :: nat where "I2C_GPEUP = 0x48"
definition I2C_GPECON :: nat where "I2C_GPECON = 0x40"
definition I2C_GPGCON :: nat where "I2C_GPGCON = 0x60"
definition I2C_GPGDAT :: nat where "I2C_GPGDAT = 0x64"
definition I2C_GPGUP :: nat where "I2C_GPGUP = 0x68"

text \<open>\<open>gpio\<close> holds the registers of the pins, \<open>iic\<close> those of the I2C block.\<close>

record i2cs =
  gpio :: io_regs
  iic :: io_regs
  rx_buffer :: buffer_t
  tx_buffer :: buffer_t
  slave_tx_data_valid :: bool
  slave_tx_ready :: bool
  tx_count :: nat
  tx_length :: nat
  slave_tx_state :: slave_tx_state_t
  slave_address :: int
  exit_on_tx_end :: bool

definition slave_address_lookup :: "int list" where
  "slave_address_lookup =
     [0x00, 0x01, 0x02, 0x03, 0x10, 0x11, 0x12, 0x13, 0x20, 0x21, 0x22, 0x23, 0x30, 0x31, 0x32, 0x33]"

definition buf_read :: "buffer_t \<Rightarrow> byte \<times> buffer_t" where
  "buf_read b = (ring_buf b ! rd_index b, i2c_buf_inc_rd_index b)"

definition buf_write :: "byte \<Rightarrow> buffer_t \<Rightarrow> buffer_t" where
  "buf_write x b = i2c_buf_inc_wr_index (b\<lparr>ring_buf := (ring_buf b)[wr_index b := x]\<rparr>)"

definition buf_data_in_buffer :: "buffer_t \<Rightarrow> int" where
  "buf_data_in_buffer b = (int (wr_index b) - int (rd_index b)) AND (int BUF_SIZE - 1)"

definition get_slave_address :: "i2cs \<Rightarrow> int" where
  "get_slave_address s = slave_address_lookup ! unat (drop_bit 8 (gpio s I2C_GPGDAT) AND 0x0f)"

definition iic_write :: "32 word \<Rightarrow> nat \<Rightarrow> i2cs \<Rightarrow> i2cs" where
  "iic_write v a s = s\<lparr>iic := (iic s)(a := v)\<rparr>"

definition iic_regwrite :: "32 word \<Rightarrow> 32 word \<Rightarrow> nat \<Rightarrow> i2cs \<Rightarrow> i2cs" where
  "iic_regwrite st cl a s = s\<lparr>iic := reg_write st cl a (iic s)\<rparr>"

text \<open>The number of bytes is kept in a \<^verbatim>\<open>char\<close>, which has eight bits.\<close>

definition slave_tx :: "32 word \<Rightarrow> i2cs \<Rightarrow> i2cs" where
  "slave_tx iicstat s =
     (if slave_tx_data_valid s
      then case slave_tx_state s of
        RI2CS_LENGTH_REQ_PENDING \<Rightarrow>
          if iicstat AND 0x04 \<noteq> 0
          then let temp = of_int (buf_data_in_buffer (tx_buffer s)) :: byte;
                   s = iic_write (drop_bit 8 (ucast temp AND 0x0000ff00)) IICDS s
               in (iic_regwrite 0 (push_bit 4 1) IICCON s)\<lparr>tx_count := 1\<rparr>
          else if tx_count s = 1
          then let temp = of_int (buf_data_in_buffer (tx_buffer s)) :: byte;
                   s = iic_write (ucast temp AND 0x000000ff) IICDS s; s = iic_regwrite 0 (push_bit 4 1) IICCON s
               in s\<lparr>tx_count := tx_count s + 1\<rparr>
          else let s = iic_regwrite 0 (push_bit 4 1) IICCON s; s = iic_regwrite 0 (push_bit 6 3) IICSTAT s
               in s\<lparr>slave_tx_state := RI2CS_DATA_READ_PENDING, tx_count := 0\<rparr>
      | RI2CS_DATA_READ_PENDING \<Rightarrow>
          if tx_count s < tx_length s
          then let (temp, s) = (if buf_data_in_buffer (tx_buffer s) \<noteq> 0
                                then let (x, b) = buf_read (tx_buffer s) in (x, s\<lparr>tx_buffer := b\<rparr>) else (0, s));
                   s = iic_write (ucast temp) IICDS s; s = iic_regwrite 0 (push_bit 4 1) IICCON s
               in s\<lparr>tx_count := tx_count s + 1\<rparr>
          else let s = iic_regwrite 0 (push_bit 4 1) IICCON s
               in if exit_on_tx_end s then (iic_write 0 IICSTAT s)\<lparr>exit_on_tx_end := False\<rparr>
                  else iic_regwrite 0 (push_bit 6 3) IICSTAT s
      else s\<lparr>slave_tx_ready := True\<rparr>)"

definition i2cs_poll :: "i2cs \<Rightarrow> bool" where
  "i2cs_poll s \<longleftrightarrow> buf_data_in_buffer (rx_buffer s) \<noteq> 0"

fun i2cs_get :: "nat \<Rightarrow> buffer_t \<Rightarrow> byte list \<times> buffer_t" where
  "i2cs_get 0 b = ([], b)"
| "i2cs_get (Suc n) b =
     (if buf_data_in_buffer b \<noteq> 0
      then let (x, b) = buf_read b; (xs, b) = i2cs_get n b in (x # xs, b)
      else ([], b))"

text \<open>
  The result, what was copied to the program, and the state; \<open>ok\<close> is whether it can be copied.  Here and
  below, the bytes pass through an array of \<open>count\<close> bytes on the stack.
\<close>

definition i2cs_read :: "nat \<Rightarrow> bool \<Rightarrow> i2cs \<Rightarrow> (int \<times> byte list \<times> i2cs) res" where
  "i2cs_read count ok s =
     (if KERNEL_STACK < count then Fault else
      let (xs, b) = i2cs_get count (rx_buffer s); s = s\<lparr>rx_buffer := b\<rparr>
      in Ret (if xs \<noteq> [] \<and> \<not> ok then (- 14, [], s) else (int (length xs), xs, s)))"

text \<open>
  What cannot be copied from the program is zero.  The lock that is taken here is taken again in
  \<open>slave_tx\<close>: on the one processor both only hold off interrupts, and each gives back the state it found.
\<close>

definition i2cs_write :: "nat \<Rightarrow> byte list option \<Rightarrow> i2cs \<Rightarrow> (nat \<times> i2cs) res" where
  "i2cs_write count buf s =
     (if KERNEL_STACK < count then Fault else
      let local_buf = (case buf of Some xs \<Rightarrow> take count xs | None \<Rightarrow> replicate count 0);
          s = s\<lparr>tx_buffer := fold buf_write local_buf (i2c_buf_init (tx_buffer s))\<rparr>;
          s = s\<lparr>slave_tx_data_valid := True, tx_length := length local_buf\<rparr>
      in Ret (length local_buf, if slave_tx_ready s then slave_tx 0x04 s else s))"

definition i2cs_reset_module :: "i2cs \<Rightarrow> i2cs" where
  "i2cs_reset_module s =
     (let s = iic_write 0xa0 IICCON s; s = (if \<not> exit_on_tx_end s then iic_write 0x10 IICSTAT s else s)
      in s\<lparr>exit_on_tx_end := False, tx_buffer := i2c_buf_init (tx_buffer s), rx_buffer := i2c_buf_init (rx_buffer s)\<rparr>)"

definition set_exit_on_tx_end :: "i2cs \<Rightarrow> int \<times> i2cs" where
  "set_exit_on_tx_end s = (if slave_tx_data_valid s then (- 114, s) else (0, s\<lparr>exit_on_tx_end := True\<rparr>))"

datatype i2cs_request = IOC_I2C_RESET | IOC_I2C_EXIT_ON_NEXT_TX | IOC_I2C_OTHER

definition i2cs_ioctl :: "i2cs_request \<Rightarrow> i2cs \<Rightarrow> int \<times> i2cs" where
  "i2cs_ioctl cmd s =
     (case cmd of IOC_I2C_RESET \<Rightarrow> (0, i2cs_reset_module s) | IOC_I2C_EXIT_ON_NEXT_TX \<Rightarrow> set_exit_on_tx_end s
      | IOC_I2C_OTHER \<Rightarrow> (- 19, s))"

definition reciva_i2c_interrupt :: "i2cs \<Rightarrow> i2cs" where
  "reciva_i2c_interrupt s =
     (let iicstat = iic s IICSTAT; iicds = iic s IICDS
      in if iicstat AND 0xc0 = 0x00
         then let s = s\<lparr>slave_tx_data_valid := False, slave_tx_ready := False, slave_tx_state := RI2CS_LENGTH_REQ_PENDING\<rparr>;
                  s = iic_regwrite 0 (push_bit 4 1) IICCON s
              in if iicstat AND 0x04 \<noteq> 0 then s else s\<lparr>rx_buffer := buf_write (ucast iicds) (rx_buffer s)\<rparr>
         else if iicstat AND 0xc0 = 0x40 then slave_tx iicstat s else s)"

definition i2cs_module_init :: "i2cs \<Rightarrow> i2cs" where
  "i2cs_module_init s =
     (let s = s\<lparr>tx_buffer := i2c_buf_init (tx_buffer s), rx_buffer := i2c_buf_init (rx_buffer s)\<rparr>;
          r = gpio s;
          r = reg_write (push_bit 14 0) (push_bit 14 1) I2C_GPEUP r;
          r = reg_write (push_bit 28 2) (push_bit 28 3) I2C_GPECON r;
          r = reg_write (push_bit 15 0) (push_bit 15 1) I2C_GPEUP r;
          r = reg_write (push_bit 30 2) (push_bit 30 3) I2C_GPECON r;
          r = reg_write (push_bit 8 1) (push_bit 8 0) I2C_GPGUP r;
          r = reg_write (push_bit 16 0) (push_bit 16 3) I2C_GPGCON r;
          r = reg_write (push_bit 9 1) (push_bit 9 0) I2C_GPGUP r;
          r = reg_write (push_bit 18 0) (push_bit 18 3) I2C_GPGCON r;
          r = reg_write (push_bit 10 1) (push_bit 10 0) I2C_GPGUP r;
          r = reg_write (push_bit 20 0) (push_bit 20 3) I2C_GPGCON r;
          r = reg_write (push_bit 11 1) (push_bit 11 0) I2C_GPGUP r;
          r = reg_write (push_bit 22 0) (push_bit 22 3) I2C_GPGCON r;
          s = s\<lparr>gpio := r\<rparr>;
          s = s\<lparr>slave_address := get_slave_address s\<rparr>;
          s = iic_write (push_bit 1 (of_int (slave_address s))) IICADD s;
          s = iic_write 0xa0 IICCON s
      in iic_write 0x00 IICSTAT s)"

text \<open>The module when it is loaded: its static data, and the registers.\<close>

definition i2cs0 :: "io_regs \<Rightarrow> io_regs \<Rightarrow> i2cs" where
  "i2cs0 g i =
     \<lparr>gpio = g, iic = i, rx_buffer = \<lparr>rd_index = 0, wr_index = 0, ring_buf = replicate BUF_SIZE 0\<rparr>,
      tx_buffer = \<lparr>rd_index = 0, wr_index = 0, ring_buf = replicate BUF_SIZE 0\<rparr>,
      slave_tx_data_valid = False, slave_tx_ready = False, tx_count = 0, tx_length = 0,
      slave_tx_state = RI2CS_LENGTH_REQ_PENDING, slave_address = 0, exit_on_tx_end = False\<rparr>"

section \<open>The master\<close>

text \<open>
  The functions of the bus driver are parameters: \<open>send xs w\<close> is the result of \<^verbatim>\<open>i2c_master_send\<close> of the bytes, and
  \<open>recv n w\<close> that of \<^verbatim>\<open>i2c_master_recv\<close> with the bytes that were received, in a world of any type.
\<close>

record 'w bus =
  i2c_master_send :: "byte list \<Rightarrow> 'w \<Rightarrow> int \<times> 'w"
  i2c_master_recv :: "nat \<Rightarrow> 'w \<Rightarrow> int \<times> byte list \<times> 'w"

record i2cm =
  m_rx_buffer :: "byte list"
  rx_data_valid :: bool
  rx_length :: nat
  i2c_device_found :: bool
  reciva_i2c_client :: "int option"
  force0 :: int
  driver_added :: bool

definition i2cm_poll :: "i2cm \<Rightarrow> bool" where
  "i2cm_poll s \<longleftrightarrow> rx_data_valid s"

definition i2cm_read :: "nat \<Rightarrow> bool \<Rightarrow> i2cm \<Rightarrow> int \<times> byte list \<times> i2cm" where
  "i2cm_read count ok s =
     (if rx_data_valid s
      then let count = (if count > rx_length s then rx_length s else count); s' = s\<lparr>rx_data_valid := False\<rparr>
           in if ok then (int count, take count (m_rx_buffer s), s') else (- 14, [], s')
      else (0, [], s))"

text \<open>Bytes received into the buffer; more than fit run over what lies behind it.\<close>

definition recv_into :: "byte list \<Rightarrow> byte list \<Rightarrow> byte list res" where
  "recv_into xs buf = (if length xs \<le> length buf then Ret (xs @ drop (length xs) buf) else Fault)"

definition i2cm_write :: "'w bus \<Rightarrow> byte list \<Rightarrow> i2cm \<Rightarrow> 'w \<Rightarrow> (nat \<times> i2cm \<times> 'w) res" where
  "i2cm_write bus buf s w =
     (let count = length buf
      in if KERNEL_STACK < count + 1 then Fault
         else if reciva_i2c_client s = None then Ret (0, s, w)
         else let (r, w) = i2c_master_send bus buf w
         in if r \<noteq> int count then Ret (0, s, w)
         else let (r, xs, w) = i2c_master_recv bus 2 w
         in res_bind (recv_into xs (m_rx_buffer s)) (\<lambda>b.
              let s = s\<lparr>m_rx_buffer := b\<rparr>
              in if r \<noteq> 2 then Ret (count, s, w)
                 else let s = s\<lparr>rx_length := 256 * unat (b ! 0) + unat (b ! 1)\<rparr>;
                          (r, xs, w) = i2c_master_recv bus (rx_length s) w
                 in res_bind (recv_into xs (m_rx_buffer s)) (\<lambda>b.
                      let s = s\<lparr>m_rx_buffer := b\<rparr>
                      in if r \<noteq> int (rx_length s) then Ret (count, s, w)
                         else Ret (count, s\<lparr>rx_data_valid := True\<rparr>, w))))"

text \<open>A device that the probe found at an address: only the first is used.\<close>

definition reciva_i2c_attach :: "int \<Rightarrow> i2cm \<Rightarrow> int \<times> i2cm" where
  "reciva_i2c_attach addr s =
     (if i2c_device_found s then (0, s) else (0, s\<lparr>i2c_device_found := True, reciva_i2c_client := Some addr\<rparr>))"

text \<open>\<open>add\<close> stands for \<^verbatim>\<open>i2c_add_driver\<close>: what the probe of the bus for a device at an address does.\<close>

definition setup_slave :: "int \<Rightarrow> (int \<Rightarrow> i2cm \<Rightarrow> i2cm) \<Rightarrow> i2cm \<Rightarrow> i2cm res" where
  "setup_slave slave_index add s =
     (if reciva_i2c_client s \<noteq> None then Ret s
      else if slave_index < 16
      then if slave_index < 0 then Fault
           else let s = s\<lparr>force0 := slave_address_lookup ! nat slave_index\<rparr>
                in Ret ((add (force0 s) s)\<lparr>driver_added := True\<rparr>)
      else Ret s)"

datatype i2cm_request = IOC_RI2CM_RESET | IOC_RI2CM_INIT | IOC_RI2CM_GET_STATUS bool | IOC_RI2CM_OTHER

definition RI2CM_STATUS_SLAVE_DETECTED :: int where "RI2CM_STATUS_SLAVE_DETECTED = 1"

definition i2cm_ioctl :: "int \<Rightarrow> (int \<Rightarrow> i2cm \<Rightarrow> i2cm) \<Rightarrow> i2cm_request \<Rightarrow> i2cm \<Rightarrow> (int \<times> int list \<times> i2cm) res" where
  "i2cm_ioctl slave_index add cmd s =
     (case cmd of
        IOC_RI2CM_RESET \<Rightarrow> Ret (0, [], s)
      | IOC_RI2CM_INIT \<Rightarrow> res_map (\<lambda>s. (0, [], s)) (setup_slave slave_index add s)
      | IOC_RI2CM_GET_STATUS ok \<Rightarrow>
          let temp = (if reciva_i2c_client s \<noteq> None then RI2CM_STATUS_SLAVE_DETECTED else 0)
          in Ret (if ok then (0, [temp], s) else (- 14, [], s))
      | IOC_RI2CM_OTHER \<Rightarrow> Ret (- 19, [], s))"

definition i2cm_module_init :: "i2cm \<Rightarrow> i2cm" where
  "i2cm_module_init s = s\<lparr>i2c_device_found := False, driver_added := False\<rparr>"

definition i2cm0 :: i2cm where
  "i2cm0 = \<lparr>m_rx_buffer = replicate BUF_SIZE 0, rx_data_valid = False, rx_length = 0, i2c_device_found = False,
     reciva_i2c_client = None, force0 = 0x33, driver_added = False\<rparr>"

end
