(* ===== verification/I2c_Bus.thy ===== *)
theory I2c_Bus
  imports I2c
begin

text \<open>
  A master and a slave on one bus: the replies of an application reach the master, whichever of the two is first.
\<close>

section \<open>The bus\<close>

text \<open>An interrupt of the I2C block with its status and data; the slave holds the clock while its pending bit is set.\<close>

definition i2c_irq :: "32 word \<Rightarrow> 32 word \<Rightarrow> i2cs \<Rightarrow> i2cs" where
  "i2c_irq st ds s = reciva_i2c_interrupt (iic_write ds IICDS (iic_write st IICSTAT (iic_regwrite (push_bit 4 1) 0 IICCON s)))"

definition iic_stalled :: "i2cs \<Rightarrow> bool" where
  "iic_stalled s \<longleftrightarrow> bit (iic s IICCON) 4"

text \<open>
  An application that reads the command and writes its reply.  A write that overruns the stack, which none
  of the replies below does, leaves the module as it was.
\<close>

definition app_serve :: "(byte list \<Rightarrow> byte list) \<Rightarrow> i2cs \<Rightarrow> i2cs" where
  "app_serve f s =
     (case i2cs_read 1024 True s of
        Ret (r, xs, s) \<Rightarrow> (case i2cs_write (length (f xs)) (Some (f xs)) s of Ret (n, s) \<Rightarrow> s | _ \<Rightarrow> s)
      | _ \<Rightarrow> s)"

text \<open>The bytes a master clocks out: one in the data register, an interrupt for the next.\<close>

fun clock_in :: "nat \<Rightarrow> i2cs \<Rightarrow> byte list \<times> i2cs" where
  "clock_in 0 s = ([], s)"
| "clock_in (Suc n) s = (let x = ucast (iic s IICDS); (xs, s) = clock_in n (i2c_irq 0x50 (iic s IICDS) s) in (x # xs, s))"

text \<open>A read waits for the application if it is stalled.\<close>

definition bus_recv :: "(byte list \<Rightarrow> byte list) \<Rightarrow> nat \<Rightarrow> i2cs \<Rightarrow> int \<times> byte list \<times> i2cs" where
  "bus_recv f n s =
     (let s = i2c_irq 0x54 (iic s IICDS) s; s = (if iic_stalled s then app_serve f s else s)
      in if iic_stalled s then (- 110, [], s) else let (xs, s) = clock_in n s in (int n, xs, s))"

text \<open>\<open>early\<close> is whether the application answers before the master asks.\<close>

definition bus_send :: "bool \<Rightarrow> (byte list \<Rightarrow> byte list) \<Rightarrow> byte list \<Rightarrow> i2cs \<Rightarrow> int \<times> i2cs" where
  "bus_send early f xs s =
     (let s = fold (\<lambda>x. i2c_irq 0x10 (ucast x)) xs (i2c_irq 0x14 0 s)
      in (int (length xs), if early then app_serve f s else s))"

definition slave_bus :: "bool \<Rightarrow> (byte list \<Rightarrow> byte list) \<Rightarrow> i2cs bus" where
  "slave_bus early f = \<lparr>i2c_master_send = bus_send early f, i2c_master_recv = bus_recv f\<rparr>"

section \<open>Steps of the slave\<close>

lemmas [simp] = i2c_ring.inc_ok i2c_ring.put_ok

lemma data_in_buffer: "ring_ok b \<Longrightarrow> buf_data_in_buffer b = int (ring_used b)"
proof -
  assume b: "ring_ok b"
  have "buf_data_in_buffer b = (int (wr_index b) - int (rd_index b)) mod 1024"
    using take_bit_eq_mask [of 10 "int (wr_index b) - int (rd_index b)"]
    by (simp add: buf_data_in_buffer_def BUF_SIZE_def take_bit_eq_mod mask_eq_exp_minus_1)
  also have "\<dots> = (int (wr_index b) + 1024 - int (rd_index b)) mod 1024"
    using mod_add_self2 [of "int (wr_index b) - int (rd_index b)" 1024] by (simp add: algebra_simps)
  also have "\<dots> = int (ring_used b)"
    using b by (simp add: ring_ok_def ring_used_def BUF_SIZE_def zmod_int of_nat_diff)
  finally show ?thesis .
qed

text \<open>What a step says of: the buffers, and the progress of a reply.\<close>

definition sl :: "i2cs \<Rightarrow> byte list \<Rightarrow> byte list \<Rightarrow> bool \<Rightarrow> bool \<Rightarrow> slave_tx_state_t \<Rightarrow> bool" where
  "sl s cmd reply valid ready st \<longleftrightarrow>
     ring_ok (rx_buffer s) \<and> ring_contents (rx_buffer s) = cmd \<and> ring_ok (tx_buffer s) \<and>
     (valid \<longrightarrow> ring_contents (tx_buffer s) = reply) \<and>
     slave_tx_data_valid s = valid \<and> slave_tx_ready s = ready \<and> slave_tx_state s = st"

lemma iic_fields [simp]:
  "rx_buffer (iic_write v a s) = rx_buffer s" "tx_buffer (iic_write v a s) = tx_buffer s"
  "slave_tx_data_valid (iic_write v a s) = slave_tx_data_valid s" "slave_tx_ready (iic_write v a s) = slave_tx_ready s"
  "slave_tx_state (iic_write v a s) = slave_tx_state s" "tx_count (iic_write v a s) = tx_count s"
  "tx_length (iic_write v a s) = tx_length s" "exit_on_tx_end (iic_write v a s) = exit_on_tx_end s"
  "rx_buffer (iic_regwrite u v a s) = rx_buffer s" "tx_buffer (iic_regwrite u v a s) = tx_buffer s"
  "slave_tx_data_valid (iic_regwrite u v a s) = slave_tx_data_valid s" "slave_tx_ready (iic_regwrite u v a s) = slave_tx_ready s"
  "slave_tx_state (iic_regwrite u v a s) = slave_tx_state s" "tx_count (iic_regwrite u v a s) = tx_count s"
  "tx_length (iic_regwrite u v a s) = tx_length s" "exit_on_tx_end (iic_regwrite u v a s) = exit_on_tx_end s"
  "iic (iic_write v a s) = (iic s)(a := v)" "iic (iic_regwrite u v a s) = reg_write u v a (iic s)"
  by (simp_all add: iic_write_def iic_regwrite_def)

lemma iic_apart [simp]: "IICCON \<noteq> IICSTAT" "IICSTAT \<noteq> IICCON" "IICCON \<noteq> IICDS" "IICDS \<noteq> IICCON" "IICSTAT \<noteq> IICDS" "IICDS \<noteq> IICSTAT"
  by (simp_all add: IICCON_def IICSTAT_def IICDS_def)

lemma buf_put:
  assumes "ring_ok b" "length (ring_contents b) < BUF_SIZE - 1"
  shows "ring_ok (buf_write x b) \<and> ring_contents (buf_write x b) = ring_contents b @ [x]"
  using i2c_ring.put_ok [OF assms(1)] i2c_ring.put [OF assms] by (simp add: buf_write_def)

lemma irq_receives:
  assumes "ring_ok (rx_buffer s)" "ring_ok (tx_buffer s)" "length (ring_contents (rx_buffer s)) < BUF_SIZE - 1"
  shows "sl (i2c_irq 0x10 (ucast x) s) (ring_contents (rx_buffer s) @ [x]) [] False False RI2CS_LENGTH_REQ_PENDING"
  using buf_put [OF assms(1,3), of x] assms
  by (simp add: sl_def i2c_irq_def reciva_i2c_interrupt_def Let_def ucast_byte)

lemma irq_addressed:
  assumes "ring_ok (rx_buffer s)" "ring_ok (tx_buffer s)"
  shows "sl (i2c_irq 0x14 0 s) (ring_contents (rx_buffer s)) [] False False RI2CS_LENGTH_REQ_PENDING"
  using assms by (simp add: sl_def i2c_irq_def reciva_i2c_interrupt_def Let_def)

text \<open>A command arrives.\<close>

lemma command_arrives:
  assumes "ring_ok (rx_buffer s)" "ring_ok (tx_buffer s)" "length (ring_contents (rx_buffer s)) + length xs < BUF_SIZE"
    "xs \<noteq> []"
  shows "sl (fold (\<lambda>x. i2c_irq 0x10 (ucast x)) xs s) (ring_contents (rx_buffer s) @ xs) [] False False RI2CS_LENGTH_REQ_PENDING"
  using assms
proof (induction xs arbitrary: s)
  case (Cons x xs)
  let ?s = "i2c_irq 0x10 (ucast x) s"
  have s: "sl ?s (ring_contents (rx_buffer s) @ [x]) [] False False RI2CS_LENGTH_REQ_PENDING"
    using irq_receives [OF Cons.prems(1,2)] Cons.prems(3) by (simp add: BUF_SIZE_def)
  then have c: "ring_ok (rx_buffer ?s)" "ring_ok (tx_buffer ?s)" "ring_contents (rx_buffer ?s) = ring_contents (rx_buffer s) @ [x]"
    by (simp_all add: sl_def)
  show ?case
  proof (cases xs)
    case (Cons y ys)
    then show ?thesis using Cons.IH [OF c(1,2)] Cons.prems(3) c(3) arg_cong [OF c(3), of length] by auto
  qed (use s in simp)
qed simp

text \<open>The application: it reads the command, and its reply is in the buffer.\<close>

lemma get_all:
  assumes "ring_ok b" "length (ring_contents b) \<le> n"
  shows "\<exists>b'. i2cs_get n b = (ring_contents b, b') \<and> ring_ok b' \<and> ring_contents b' = []"
  using assms
proof (induction n arbitrary: b)
  case (Suc n)
  show ?case
  proof (cases "ring_contents b")
    case Nil
    then have "ring_used b = 0" by (simp flip: length_contents)
    then show ?thesis using Suc.prems(1) Nil by (simp add: data_in_buffer)
  next
    case (Cons x xs)
    note g = i2c_ring.get [OF Suc.prems(1) Cons]
    have u: "ring_used b = Suc (length xs)" using arg_cong [OF Cons, of length] by simp
    obtain b' where "i2cs_get n (i2c_buf_inc_rd_index b) = (xs, b')" "ring_ok b'" "ring_contents b' = []"
      using Suc.IH [of "i2c_buf_inc_rd_index b"] Suc.prems g(2) u by (auto simp flip: length_contents)
    then show ?thesis using Suc.prems(1) Cons g(1) u by (simp add: data_in_buffer buf_read_def)
  qed
qed (simp add: ring_contents_def del: used_nil)

lemma fold_put:
  assumes "ring_ok b" "length (ring_contents b) + length xs < BUF_SIZE"
  shows "ring_ok (fold buf_write xs b) \<and> ring_contents (fold buf_write xs b) = ring_contents b @ xs"
  using assms
proof (induction xs arbitrary: b)
  case (Cons x xs)
  have p: "ring_ok (buf_write x b)" "ring_contents (buf_write x b) = ring_contents b @ [x]"
    using buf_put [OF Cons.prems(1), of x] Cons.prems(2) by auto
  then show ?case using Cons.IH [OF p(1)] Cons.prems(2) arg_cong [OF p(2), of length] by simp
qed simp

lemma app_replies:
  assumes "sl s cmd [] False ready st" "length cmd < BUF_SIZE" "length (f cmd) < BUF_SIZE"
  obtains t where "app_serve f s = (if ready then slave_tx 0x04 t else t)" "sl t [] (f cmd) True ready st"
    "tx_length t = length (f cmd)" "iic t = iic s"
proof -
  obtain b where b: "i2cs_get 1024 (rx_buffer s) = (cmd, b)" "ring_ok b" "ring_contents b = []"
    using get_all [of "rx_buffer s" 1024] assms(1,2) by (auto simp: sl_def BUF_SIZE_def simp flip: length_contents)
  let ?b = "fold buf_write (f cmd) (i2c_buf_init (tx_buffer s))"
  have i: "ring_ok (i2c_buf_init (tx_buffer s))" "ring_contents (i2c_buf_init (tx_buffer s)) = []"
    using assms(1) by (simp_all add: sl_def ring_ok_def i2c_buf_init_def BUF_SIZE_def contents_reset [unfolded BUF_SIZE_def])
  have c: "ring_ok ?b" "ring_contents ?b = f cmd" using fold_put [OF i(1), of "f cmd"] i(2) assms(3) by auto
  let ?t = "s\<lparr>rx_buffer := b, tx_buffer := ?b, slave_tx_data_valid := True, tx_length := length (f cmd)\<rparr>"
  have "app_serve f s = (if ready then slave_tx 0x04 ?t else ?t)"
    using b(1) assms(1,3) by (auto simp: app_serve_def i2cs_read_def i2cs_write_def sl_def Let_def KERNEL_STACK_def BUF_SIZE_def)
  moreover have "sl ?t [] (f cmd) True ready st" using assms(1) b c by (simp add: sl_def)
  ultimately show thesis by (rule that) simp_all
qed

section \<open>A reply is sent\<close>

lemma bit_stall: "\<not> bit (reg_write 0 16 IICCON r IICCON) 4"
  by (simp add: bit_reg_write)

lemma irq_asks:
  "i2c_irq st ds s = slave_tx st (iic_write ds IICDS (iic_write st IICSTAT (iic_regwrite (push_bit 4 1) 0 IICCON s)))"
  if "st AND 0xc0 = 0x40"
  using that by (simp add: i2c_irq_def reciva_i2c_interrupt_def Let_def)

text \<open>Asked for the length, whichever way: the high byte of it is out, the slave not stalled.\<close>

lemma tx_length_high:
  assumes "sl s [] reply True ready RI2CS_LENGTH_REQ_PENDING"
  shows "sl (slave_tx 0x04 s) [] reply True ready RI2CS_LENGTH_REQ_PENDING \<and> tx_count (slave_tx 0x04 s) = 1 \<and>
    tx_length (slave_tx 0x04 s) = tx_length s \<and> iic (slave_tx 0x04 s) IICDS = 0 \<and> \<not> iic_stalled (slave_tx 0x04 s) \<and>
    slave_tx 0x54 s = slave_tx 0x04 s"
proof -
  have "drop_bit 8 (ucast (x :: byte) AND (0x0000ff00 :: 32 word)) = 0" for x
    by (rule bit_word_eqI) (auto simp: bit_simps dest: bit_imp_le_length)
  then show ?thesis
    using assms by (simp add: sl_def slave_tx_def Let_def iic_stalled_def bit_stall)
qed

lemma sl_iic [simp]: "sl (iic_write v a s) c r u q st = sl s c r u q st" "sl (iic_regwrite w v a s) c r u q st = sl s c r u q st"
  by (simp_all add: sl_def)

lemma tx_length_low:
  assumes "sl s [] reply True ready RI2CS_LENGTH_REQ_PENDING" "tx_count s = 1"
  shows "sl (slave_tx 0x50 s) [] reply True ready RI2CS_LENGTH_REQ_PENDING \<and> tx_count (slave_tx 0x50 s) = 2 \<and>
    tx_length (slave_tx 0x50 s) = tx_length s \<and> ucast (iic (slave_tx 0x50 s) IICDS) = (of_nat (length reply) :: byte)"
proof -
  have "ucast (ucast x AND (0x000000ff :: 32 word)) = x" for x :: byte
  proof -
    have "(0x000000ff :: 32 word) = mask 8" by (simp add: mask_eq_exp_minus_1)
    then have "bit (0x000000ff :: 32 word) n" if "n < 8" for n
      using that unfolding \<open>0x000000ff = mask 8\<close> bit_mask_iff by simp
    then show ?thesis by (intro bit_word_eqI) (simp add: bit_ucast_iff bit_and_iff)
  qed
  then show ?thesis using assms arg_cong [of "ring_contents (tx_buffer s)" reply length]
    by (auto simp: sl_def slave_tx_def Let_def data_in_buffer)
qed

lemma tx_length_end:
  assumes "sl s [] reply True ready RI2CS_LENGTH_REQ_PENDING" "tx_count s = 2"
  shows "sl (slave_tx 0x50 s) [] reply True ready RI2CS_DATA_READ_PENDING \<and> tx_count (slave_tx 0x50 s) = 0 \<and>
    tx_length (slave_tx 0x50 s) = tx_length s"
  using assms by (simp add: sl_def slave_tx_def Let_def)

text \<open>The two bytes of the length, of which the first is always zero.\<close>

lemma clock_length:
  assumes "sl s [] reply True ready RI2CS_LENGTH_REQ_PENDING" "tx_count s = 1" "iic s IICDS = 0"
  obtains t where "clock_in 2 s = ([0, of_nat (length reply)], t)" "sl t [] reply True ready RI2CS_DATA_READ_PENDING"
    "tx_count t = 0" "tx_length t = tx_length s"
proof -
  define q where "q s = iic_write (iic s IICDS) IICDS (iic_write 0x50 IICSTAT (iic_regwrite (push_bit 4 1) 0 IICCON s))" for s
  have i: "i2c_irq 0x50 (iic s IICDS) s = slave_tx 0x50 (q s)" for s by (simp add: irq_asks q_def)
  let ?s = "slave_tx 0x50 (q s)" let ?t = "slave_tx 0x50 (q ?s)"
  have q: "sl (q u) c r v y st = sl u c r v y st" "tx_count (q u) = tx_count u" "tx_length (q u) = tx_length u" for u c r v y st
    by (simp_all add: q_def)
  have s: "sl ?s [] reply True ready RI2CS_LENGTH_REQ_PENDING" "tx_count ?s = 2" "tx_length ?s = tx_length s"
      "ucast (iic ?s IICDS) = (of_nat (length reply) :: byte)"
    using tx_length_low [of "q s" reply ready] assms by (simp_all add: q)
  have t: "sl ?t [] reply True ready RI2CS_DATA_READ_PENDING" "tx_count ?t = 0" "tx_length ?t = tx_length s"
    using tx_length_end [of "q ?s" reply ready] s by (simp_all add: q)
  have "clock_in 2 s = ([0, of_nat (length reply)], ?t)"
    using assms(3) s(4) i [of s] i [of ?s] by (simp add: numeral_2_eq_2)
  then show thesis by (rule that) (use t in simp_all)
qed

text \<open>The bytes of the reply, as many of them as the master asks for.\<close>

lemma tx_byte:
  assumes "sl s [] (x # xs) True ready RI2CS_DATA_READ_PENDING" "tx_count s < tx_length s"
  shows "sl (slave_tx st s) [] xs True ready RI2CS_DATA_READ_PENDING \<and> tx_count (slave_tx st s) = tx_count s + 1 \<and>
    tx_length (slave_tx st s) = tx_length s \<and> ucast (iic (slave_tx st s) IICDS) = x \<and> \<not> iic_stalled (slave_tx st s)"
proof -
  have b: "ring_ok (tx_buffer s)" "ring_contents (tx_buffer s) = x # xs" using assms(1) by (simp_all add: sl_def)
  have u: "ring_used (tx_buffer s) \<noteq> 0" using arg_cong [OF b(2), of length] by simp
  show ?thesis using assms i2c_ring.get [OF b] u b(1)
    by (simp add: sl_def slave_tx_def Let_def data_in_buffer buf_read_def iic_stalled_def bit_stall ucast_byte)
qed

lemma tx_end:
  assumes "sl s [] [] True ready RI2CS_DATA_READ_PENDING" "tx_count s = tx_length s"
  shows "sl (slave_tx st s) [] [] True ready RI2CS_DATA_READ_PENDING \<and> \<not> iic_stalled (slave_tx st s)"
  using assms by (simp add: sl_def slave_tx_def Let_def iic_stalled_def bit_stall)

lemma clock_data:
  assumes "sl s [] xs True ready RI2CS_DATA_READ_PENDING" "tx_count s + length xs = tx_length s" "k \<le> length xs + 1"
  shows "\<exists>t ys. clock_in k s = (take k (ucast (iic s IICDS) # xs), t) \<and> sl t [] ys True ready RI2CS_DATA_READ_PENDING"
  using assms
proof (induction k arbitrary: s xs)
  case (Suc k)
  define q where "q = iic_write (iic s IICDS) IICDS (iic_write 0x50 IICSTAT (iic_regwrite (push_bit 4 1) 0 IICCON s))"
  let ?s = "slave_tx 0x50 q"
  have i: "i2c_irq 0x50 (iic s IICDS) s = ?s" by (simp add: irq_asks q_def)
  have q: "sl q c r v y st = sl s c r v y st" "tx_count q = tx_count s" "tx_length q = tx_length s" for c r v y st
    by (simp_all add: q_def)
  show ?case
  proof (cases xs)
    case Nil
    then have "sl ?s [] [] True ready RI2CS_DATA_READ_PENDING" "k = 0" using tx_end [of q ready "0x50"] Suc.prems q by auto
    then show ?thesis using i by (auto simp: Let_def)
  next
    case (Cons y ys)
    have s: "sl ?s [] ys True ready RI2CS_DATA_READ_PENDING" "tx_count ?s = tx_count s + 1" "tx_length ?s = tx_length s"
        "ucast (iic ?s IICDS) = y"
      using tx_byte [of q y ys ready "0x50"] Suc.prems Cons q by auto
    then obtain t zs where "clock_in k ?s = (take k (y # ys), t)" "sl t [] zs True ready RI2CS_DATA_READ_PENDING"
      using Suc.IH [OF s(1)] Suc.prems Cons by auto
    then show ?thesis using i Cons by auto
  qed
qed auto

section \<open>A whole exchange\<close>

text \<open>The first read: answered already, or stalled until the application answers.\<close>

lemma recv_length:
  assumes "if early then sl s [] (f cmd) True False RI2CS_LENGTH_REQ_PENDING \<and> tx_length s = length (f cmd)
           else sl s cmd [] False False RI2CS_LENGTH_REQ_PENDING"
    "length cmd < BUF_SIZE" "length (f cmd) < BUF_SIZE"
  obtains t ready where "bus_recv f 2 s = (2, [0, of_nat (length (f cmd))], t)" "sl t [] (f cmd) True ready RI2CS_DATA_READ_PENDING"
    "tx_count t = 0" "tx_length t = length (f cmd)"
proof -
  define q where "q = iic_write (iic s IICDS) IICDS (iic_write 0x54 IICSTAT (iic_regwrite (push_bit 4 1) 0 IICCON s))"
  have i: "i2c_irq 0x54 (iic s IICDS) s = slave_tx 0x54 q" by (simp add: irq_asks q_def)
  have q: "sl q c r v y st = sl s c r v y st" "tx_length q = tx_length s" for c r v y st by (simp_all add: q_def)
  have "\<exists>u ready. (let s = slave_tx 0x54 q in if iic_stalled s then app_serve f s else s) = slave_tx 0x04 u \<and>
      sl u [] (f cmd) True ready RI2CS_LENGTH_REQ_PENDING \<and> tx_length u = length (f cmd)"
  proof (cases early)
    case True
    then have "sl q [] (f cmd) True False RI2CS_LENGTH_REQ_PENDING" "tx_length q = length (f cmd)" using assms(1) q by simp_all
    then show ?thesis using tx_length_high [of q "f cmd" False] by auto
  next
    case False
    let ?r = "q\<lparr>slave_tx_ready := True\<rparr>"
    have p: "sl q cmd [] False False RI2CS_LENGTH_REQ_PENDING" using False assms(1) q(1) by simp
    then have r: "slave_tx 0x54 q = ?r" "sl ?r cmd [] False True RI2CS_LENGTH_REQ_PENDING"
      by (simp_all add: slave_tx_def sl_def)
    have st: "iic_stalled ?r" by (simp add: iic_stalled_def q_def bit_reg_write bit_push_bit_iff)
    obtain t where "app_serve f ?r = slave_tx 0x04 t" "sl t [] (f cmd) True True RI2CS_LENGTH_REQ_PENDING" "tx_length t = length (f cmd)"
      using app_replies [where f = f, OF r(2) assms(2,3)] by auto
    then show ?thesis using r(1) st by auto
  qed
  then obtain u ready where u: "(let s = slave_tx 0x54 q in if iic_stalled s then app_serve f s else s) = slave_tx 0x04 u"
      "sl u [] (f cmd) True ready RI2CS_LENGTH_REQ_PENDING" "tx_length u = length (f cmd)" by auto
  note h = tx_length_high [OF u(2)]
  obtain t where t: "clock_in 2 (slave_tx 0x04 u) = ([0, of_nat (length (f cmd))], t)" "sl t [] (f cmd) True ready RI2CS_DATA_READ_PENDING"
    "tx_count t = 0" "tx_length t = length (f cmd)"
    using clock_length [of "slave_tx 0x04 u" "f cmd" ready] h u(3) by auto
  have "bus_recv f 2 s = (2, [0, of_nat (length (f cmd))], t)"
    using u(1) h t(1) by (simp add: bus_recv_def i Let_def)
  then show thesis by (rule that) (use t in simp_all)
qed

text \<open>The second read.\<close>

lemma recv_data:
  assumes "sl s [] reply True ready RI2CS_DATA_READ_PENDING" "tx_count s = 0" "tx_length s = length reply" "n \<le> length reply"
  obtains t ys where "bus_recv f n s = (int n, take n reply, t)" "sl t [] ys True ready RI2CS_DATA_READ_PENDING"
proof -
  define q where "q = iic_write (iic s IICDS) IICDS (iic_write 0x54 IICSTAT (iic_regwrite (push_bit 4 1) 0 IICCON s))"
  let ?s = "slave_tx 0x54 q"
  have i: "i2c_irq 0x54 (iic s IICDS) s = ?s" by (simp add: irq_asks q_def)
  have q: "sl q c r v y st = sl s c r v y st" "tx_count q = tx_count s" "tx_length q = tx_length s" for c r v y st by (simp_all add: q_def)
  have "\<exists>t ys. clock_in n ?s = (take n reply, t) \<and> sl t [] ys True ready RI2CS_DATA_READ_PENDING \<and> \<not> iic_stalled ?s"
  proof (cases reply)
    case Nil
    then have "sl ?s [] [] True ready RI2CS_DATA_READ_PENDING" "\<not> iic_stalled ?s" using tx_end [of q ready "0x54"] assms q by auto
    then show ?thesis using Nil assms(4) by auto
  next
    case (Cons y ys)
    have s: "sl ?s [] ys True ready RI2CS_DATA_READ_PENDING" "tx_count ?s = 1" "tx_length ?s = length reply"
        "ucast (iic ?s IICDS) = y" "\<not> iic_stalled ?s"
      using tx_byte [of q y ys ready "0x54"] assms Cons q by auto
    then show ?thesis using clock_data [OF s(1), of n] assms(4) Cons by auto
  qed
  then obtain t ys where "clock_in n ?s = (take n reply, t)" "sl t [] ys True ready RI2CS_DATA_READ_PENDING" "\<not> iic_stalled ?s" by auto
  then show thesis by (intro that [of t ys]) (simp_all add: bus_recv_def i Let_def)
qed

definition slave_idle :: "i2cs \<Rightarrow> bool" where
  "slave_idle s \<longleftrightarrow> ring_ok (rx_buffer s) \<and> ring_contents (rx_buffer s) = [] \<and> ring_ok (tx_buffer s)"

definition master_ok :: "i2cm \<Rightarrow> bool" where
  "master_ok m \<longleftrightarrow> reciva_i2c_client m \<noteq> None \<and> length (m_rx_buffer m) = BUF_SIZE"

lemma sends_command:
  assumes "slave_idle s" "cmd \<noteq> []" "length cmd < BUF_SIZE" "length (f cmd) < BUF_SIZE"
  obtains t where "bus_send early f cmd s = (int (length cmd), t)"
    "if early then sl t [] (f cmd) True False RI2CS_LENGTH_REQ_PENDING \<and> tx_length t = length (f cmd)
     else sl t cmd [] False False RI2CS_LENGTH_REQ_PENDING"
proof -
  let ?u = "fold (\<lambda>x. i2c_irq 0x10 (ucast x)) cmd (i2c_irq 0x14 0 s)"
  have a: "sl (i2c_irq 0x14 0 s) [] [] False False RI2CS_LENGTH_REQ_PENDING"
    using irq_addressed [of s] assms(1) by (simp add: slave_idle_def)
  have u: "sl ?u cmd [] False False RI2CS_LENGTH_REQ_PENDING"
  proof -
    have r: "ring_ok (rx_buffer (i2c_irq 0x14 0 s))" "ring_ok (tx_buffer (i2c_irq 0x14 0 s))"
        "ring_contents (rx_buffer (i2c_irq 0x14 0 s)) = []" using a by (simp_all add: sl_def)
    then show ?thesis using command_arrives [OF r(1,2) _ assms(2)] assms(3) by simp
  qed
  show thesis
  proof (cases early)
    case True
    obtain t where t: "app_serve f ?u = t" "sl t [] (f cmd) True False RI2CS_LENGTH_REQ_PENDING" "tx_length t = length (f cmd)"
      by (rule app_replies [where f = f, OF u assms(3,4)]) simp
    show ?thesis by (rule that [of t]) (use t True in \<open>simp_all add: bus_send_def\<close>)
  next
    case False
    show ?thesis using u False by (intro that [of ?u]) (simp_all add: bus_send_def)
  qed
qed

lemma length_mod: "unat (of_nat n :: byte) = n mod 256" "uint (of_nat n :: byte) = int (n mod 256)"
  by (simp_all add: unsigned_of_nat take_bit_eq_mod zmod_int)

lemma exchange:
  assumes "slave_idle s" "master_ok m" "cmd \<noteq> []" "length cmd < BUF_SIZE" "length (f cmd) < BUF_SIZE"
  obtains m' t where "i2cm_write (slave_bus early f) cmd m s = Ret (length cmd, m', t)" "slave_idle t" "master_ok m'"
    "rx_data_valid m'" "rx_length m' = length (f cmd) mod 256"
    "take (rx_length m') (m_rx_buffer m') = take (length (f cmd) mod 256) (f cmd)"
proof -
  let ?n = "length (f cmd) mod 256"
  obtain u where u: "bus_send early f cmd s = (int (length cmd), u)"
    "if early then sl u [] (f cmd) True False RI2CS_LENGTH_REQ_PENDING \<and> tx_length u = length (f cmd)
     else sl u cmd [] False False RI2CS_LENGTH_REQ_PENDING"
    by (rule sends_command [where f = f and early = early, OF assms(1,3,4,5)])
  obtain v ready where v: "bus_recv f 2 u = (2, [0, of_nat (length (f cmd))], v)" "sl v [] (f cmd) True ready RI2CS_DATA_READ_PENDING"
    "tx_count v = 0" "tx_length v = length (f cmd)"
    by (rule recv_length [where f = f and cmd = cmd, OF u(2) assms(4,5)])
  obtain t ys where t: "bus_recv f ?n v = (int ?n, take ?n (f cmd), t)" "sl t [] ys True ready RI2CS_DATA_READ_PENDING"
    by (rule recv_data [where f = f and n = "?n", OF v(2,3,4)]) simp_all
  have n: "?n \<le> BUF_SIZE" "?n \<le> length (f cmd)" by (simp_all add: BUF_SIZE_def order_trans [OF less_imp_le [of _ 256]])
  let ?b = "[0, of_nat (length (f cmd))] @ drop 2 (m_rx_buffer m)"
  let ?m = "m\<lparr>m_rx_buffer := take ?n (f cmd) @ drop ?n ?b, rx_length := ?n, rx_data_valid := True\<rparr>"
  have "i2cm_write (slave_bus early f) cmd m s = Ret (length cmd, ?m, t)"
    using u(1) v(1) t(1) n assms(2,4)
    by (auto simp: i2cm_write_def slave_bus_def recv_into_def master_ok_def length_mod BUF_SIZE_def KERNEL_STACK_def Let_def
        numeral_2_eq_2)
  then show thesis
    by (rule that) (use t(2) assms(2) n in \<open>auto simp: slave_idle_def sl_def master_ok_def BUF_SIZE_def\<close>)
qed

text \<open>Commands of a program of the master, one by one, and what it reads.\<close>

fun i2c_session :: "'w bus \<Rightarrow> nat \<Rightarrow> byte list list \<Rightarrow> i2cm \<Rightarrow> 'w \<Rightarrow> (byte list list \<times> i2cm \<times> 'w) res" where
  "i2c_session bus count [] m w = Ret ([], m, w)"
| "i2c_session bus count (cmd # cmds) m w =
     res_bind (i2cm_write bus cmd m w) (\<lambda>(r, m, w).
       let (r, xs, m) = i2cm_read count True m
       in res_map (\<lambda>(yss, m, w). (xs # yss, m, w)) (i2c_session bus count cmds m w))"

lemma session:
  assumes "slave_idle s" "master_ok m" "\<forall>cmd\<in>set cmds. cmd \<noteq> [] \<and> length cmd < BUF_SIZE \<and> length (f cmd) < BUF_SIZE"
  shows "\<exists>m' t. i2c_session (slave_bus early f) BUF_SIZE cmds m s =
    Ret (map (\<lambda>cmd. take (length (f cmd) mod 256) (f cmd)) cmds, m', t)"
  using assms
proof (induction cmds arbitrary: m s)
  case (Cons cmd cmds)
  have c: "cmd \<noteq> []" "length cmd < BUF_SIZE" "length (f cmd) < BUF_SIZE" using Cons.prems(3) by simp_all
  obtain m1 t where e: "i2cm_write (slave_bus early f) cmd m s = Ret (length cmd, m1, t)" "slave_idle t" "master_ok m1"
    "rx_data_valid m1" "rx_length m1 = length (f cmd) mod 256"
    "take (rx_length m1) (m_rx_buffer m1) = take (length (f cmd) mod 256) (f cmd)"
    by (rule exchange [where f = f and early = early, OF Cons.prems(1,2) c])
  let ?m = "m1\<lparr>rx_data_valid := False\<rparr>"
  have r: "i2cm_read BUF_SIZE True m1 = (int (length (f cmd) mod 256), take (length (f cmd) mod 256) (f cmd), ?m)"
    using e(4,5,6) mod_less_divisor [of 256 "length (f cmd)"] by (simp add: i2cm_read_def BUF_SIZE_def not_less Let_def)
  have ok: "master_ok ?m" using e(3) by (simp add: master_ok_def)
  have "\<forall>cmd\<in>set cmds. cmd \<noteq> [] \<and> length cmd < BUF_SIZE \<and> length (f cmd) < BUF_SIZE" using Cons.prems(3) by simp
  then obtain m2 w where "i2c_session (slave_bus early f) BUF_SIZE cmds ?m t =
      Ret (map (\<lambda>cmd. take (length (f cmd) mod 256) (f cmd)) cmds, m2, w)"
    using Cons.IH [OF e(2) ok] by blast
  then show ?case using e(1) r by simp
qed simp

lemma loaded_idle: "slave_idle (snd (i2cs_ioctl IOC_I2C_RESET (i2cs_module_init (i2cs0 g i))))"
  by (simp add: slave_idle_def i2cs_ioctl_def i2cs_reset_module_def i2cs_module_init_def i2cs0_def ring_ok_def
      i2c_buf_init_def BUF_SIZE_def contents_reset [unfolded BUF_SIZE_def] Let_def)

lemma attached_ok: "master_ok (snd (reciva_i2c_attach addr (i2cm_module_init i2cm0)))"
  by (simp add: master_ok_def reciva_i2c_attach_def i2cm_module_init_def i2cm0_def)

text \<open>C7. The reply of an application of up to 255 bytes reaches the program of the master whole, for every
  command of a session, of 1 to 1023 bytes, and whichever is first, the write of the application or the read of the master, which is held
  until there is a reply: both modules, their two-step protocol and the buffers between composed.\<close>

theorem i2c_replies_reach_master:
  assumes "s = snd (i2cs_ioctl IOC_I2C_RESET (i2cs_module_init (i2cs0 g i)))"
    "m = snd (reciva_i2c_attach addr (i2cm_module_init i2cm0))"
    "\<forall>cmd\<in>set cmds. cmd \<noteq> [] \<and> length cmd \<le> 1023 \<and> length (f cmd) \<le> 255"
  shows "\<exists>m' t. i2c_session (slave_bus early f) 1024 cmds m s = Ret (map f cmds, m', t)"
proof -
  have "\<forall>cmd\<in>set cmds. cmd \<noteq> [] \<and> length cmd < BUF_SIZE \<and> length (f cmd) < BUF_SIZE" using assms(3) by (auto simp: BUF_SIZE_def)
  then obtain m' t where "i2c_session (slave_bus early f) 1024 cmds m s =
      Ret (map (\<lambda>cmd. take (length (f cmd) mod 256) (f cmd)) cmds, m', t)"
    unfolding assms(1,2) using session [OF loaded_idle attached_ok, where f = f and cmds = cmds and early = early, unfolded BUF_SIZE_def]
    unfolding BUF_SIZE_def by blast
  moreover have "map (\<lambda>cmd. take (length (f cmd) mod 256) (f cmd)) cmds = map f cmds" using assms(3) by (auto intro!: map_cong)
  ultimately show ?thesis by auto
qed

lemma i2c_replies_reach_master_witness:
  "\<exists>m' t. i2c_session (slave_bus False (map ((+) 1))) 1024 [[1, 2], [9]]
     (snd (reciva_i2c_attach 0x33 (i2cm_module_init i2cm0)))
     (snd (i2cs_ioctl IOC_I2C_RESET (i2cs_module_init (i2cs0 (\<lambda>_. 0) (\<lambda>_. 0))))) = Ret ([[2, 3], [10]], m', t)"
  using i2c_replies_reach_master [OF refl refl, where cmds = "[[1, 2], [9]]" and f = "map ((+) 1)" and early = False and
    g = "\<lambda>_. 0" and i = "\<lambda>_. 0" and addr = "0x33"]
  by (simp del: i2c_session.simps)

text \<open> A longer reply is cut without a word: the slave keeps the number of its bytes in a char, so the master
  is told, asks for and gives its program only as many as are left over 256, none of 256.\<close>

theorem i2c_long_reply_cut:
  assumes "s = snd (i2cs_ioctl IOC_I2C_RESET (i2cs_module_init (i2cs0 g i)))"
    "m = snd (reciva_i2c_attach addr (i2cm_module_init i2cm0))"
    "cmd \<noteq> []" "length cmd \<le> 1023" "256 \<le> length (f cmd)" "length (f cmd) \<le> 1023"
  shows "\<exists>m' t. i2c_session (slave_bus early f) 1024 [cmd] m s = Ret ([take (length (f cmd) mod 256) (f cmd)], m', t) \<and>
    take (length (f cmd) mod 256) (f cmd) \<noteq> f cmd"
proof -
  have "length (take (length (f cmd) mod 256) (f cmd)) < length (f cmd)" using assms(5) by simp
  then have "take (length (f cmd) mod 256) (f cmd) \<noteq> f cmd" by fastforce
  then show ?thesis
    using session [OF loaded_idle attached_ok, where f = f and cmds = "[cmd]" and early = early, unfolded BUF_SIZE_def] assms
    by (auto simp del: i2c_session.simps)
qed

lemma i2c_long_reply_cut_witness:
  "\<exists>m' t. i2c_session (slave_bus True (\<lambda>xs. replicate 300 7)) 1024 [[1]]
     (snd (reciva_i2c_attach 0x33 (i2cm_module_init i2cm0)))
     (snd (i2cs_ioctl IOC_I2C_RESET (i2cs_module_init (i2cs0 (\<lambda>_. 0) (\<lambda>_. 0))))) = Ret ([replicate 44 7], m', t)"
  using i2c_long_reply_cut [OF refl refl, where cmd = "[1]" and f = "\<lambda>xs. replicate 300 7" and early = True and
    g = "\<lambda>_. 0" and i = "\<lambda>_. 0" and addr = "0x33"]
  by (auto simp del: i2c_session.simps)

text \<open> A device that reports more bytes than the buffer of the master has makes the module receive past the end
  of it: nothing compares the two.\<close>

theorem i2c_master_overruns:
  assumes "master_ok m" "i2c_master_send bus cmd w = (int (length cmd), w1)" "i2c_master_recv bus 2 w1 = (2, [hi, lo], w2)"
    "256 * unat hi + unat lo > 1024" "\<forall>n. length (fst (snd (i2c_master_recv bus n w2))) = n"
  shows "i2cm_write bus cmd m w = Fault"
proof -
  obtain r xs w3 where r: "i2c_master_recv bus (256 * unat hi + unat lo) w2 = (r, xs, w3)" by (metis prod_cases3)
  have "length xs = 256 * unat hi + unat lo" using assms(5) r by (metis fst_conv snd_conv)
  then show ?thesis using assms r by (auto simp: i2cm_write_def recv_into_def master_ok_def BUF_SIZE_def Let_def)
qed

lemma i2c_master_overruns_witness:
  "i2cm_write \<lparr>i2c_master_send = (\<lambda>xs w. (int (length xs), w)), i2c_master_recv = (\<lambda>n w. (int n, replicate n 4, w))\<rparr> [1]
     (snd (reciva_i2c_attach 0x33 (i2cm_module_init i2cm0))) () = Fault"
proof -
  have "replicate 2 (4 :: byte) = [4, 4]" by (simp add: numeral_2_eq_2)
  then show ?thesis by (intro i2c_master_overruns [OF attached_ok, where hi = 4 and lo = 4]) simp_all
qed

end
