(* ===== verification/Si4700.thy ===== *)
theory Si4700
  imports I2c
begin

text \<open>
  The FM tuner, \<^verbatim>\<open>reciva_si4700.c\<close>: a copy of the registers of the chip, which is reached over I2C, and a queue
  of the packets of radio data that it received.
\<close>

section \<open>State\<close>

record si4700_packet =
  pk_code :: "32 word"
  rds_a :: "32 word"
  rds_b :: "32 word"
  rds_c :: "32 word"
  rds_d :: "32 word"

text \<open>\<open>si_irq\<close> is whether the module holds its interrupt line, \<open>extint1\<close> the register that selects the edge.\<close>

record si4700 =
  si_regs :: "16 word list"
  output_buffer :: "si4700_packet list"
  inp :: nat
  outp :: nat
  scanning :: bool
  start_scan :: bool
  si_irq :: bool
  extint1 :: "32 word"

definition SI4700_PACKET_RDS :: "32 word" where "SI4700_PACKET_RDS = 1"
definition BASE_FREQ :: int where "BASE_FREQ = 87500"
definition Si4700_STC :: nat where "Si4700_STC = 14"
definition Si4700_RDSR :: nat where "Si4700_RDSR = 15"

section \<open>The registers of the chip\<close>

definition cpu_to_be16 :: "16 word \<Rightarrow> byte list" where
  "cpu_to_be16 x = [ucast (drop_bit 8 x), ucast x]"

definition be16_to_cpu :: "byte \<Rightarrow> byte \<Rightarrow> 16 word" where
  "be16_to_cpu hi lo = push_bit 8 (ucast hi) OR ucast lo"

fun be16s :: "byte list \<Rightarrow> 16 word list" where
  "be16s (hi # lo # xs) = be16_to_cpu hi lo # be16s xs"
| "be16s _ = []"

text \<open>The result, what was read, and the bus; None is memory that was not written.\<close>

definition si4700_chip_read :: "'w bus \<Rightarrow> nat \<Rightarrow> 'w \<Rightarrow> int \<times> 16 word list option \<times> 'w" where
  "si4700_chip_read bus nregs w =
     (let (r, xs, w) = i2c_master_recv bus (nregs * 2) w
      in if r \<noteq> int (nregs * 2) then (r, None, w) else (0, Some (be16s (take (nregs * 2) xs)), w))"

definition si4700_chip_write :: "'w bus \<Rightarrow> 16 word list \<Rightarrow> 'w \<Rightarrow> int \<times> 'w" where
  "si4700_chip_write bus data w =
     (let (r, w) = i2c_master_send bus (concat (map cpu_to_be16 data)) w
      in if r \<noteq> int (length data * 2) then (r, w) else (0, w))"

fun store_regs :: "nat \<Rightarrow> 16 word list \<Rightarrow> 16 word list \<Rightarrow> 16 word list" where
  "store_regs i [] rs = rs"
| "store_regs i (x # xs) rs = store_regs (i + 1) xs (rs[(i + 0xa) mod 16 := x])"

definition si4700_read_regs :: "'w bus \<Rightarrow> nat \<Rightarrow> si4700 \<times> 'w \<Rightarrow> (int \<times> si4700 \<times> 'w) res" where
  "si4700_read_regs bus nregs sw =
     (let (s, w) = sw; (r, ws, w) = si4700_chip_read bus nregs w
      in if r \<noteq> 0 then Ret (r, s, w)
         else case ws of None \<Rightarrow> Fault | Some ws \<Rightarrow> Ret (0, s\<lparr>si_regs := store_regs 0 ws (si_regs s)\<rparr>, w))"

definition si4700_write_regs :: "'w bus \<Rightarrow> nat \<Rightarrow> si4700 \<times> 'w \<Rightarrow> int \<times> si4700 \<times> 'w" where
  "si4700_write_regs bus nregs sw =
     (let (s, w) = sw; (r, w) = si4700_chip_write bus (map (\<lambda>i. si_regs s ! ((i + 2) mod 16)) [0..<nregs]) w in (r, s, w))"

definition set_reg :: "nat \<Rightarrow> 16 word \<Rightarrow> si4700 \<Rightarrow> si4700" where
  "set_reg i x s = s\<lparr>si_regs := (si_regs s)[i := x]\<rparr>"

definition si4700_tune_to :: "'w bus \<Rightarrow> int \<Rightarrow> si4700 \<times> 'w \<Rightarrow> int \<times> si4700 \<times> 'w" where
  "si4700_tune_to bus freq sw =
     (if freq < BASE_FREQ then (- 22, sw)
      else let chan = (freq - BASE_FREQ) div 100; (s, w) = sw;
               (r, s, w) = si4700_write_regs bus 2 (set_reg 3 (si_regs s ! 3 AND NOT 0x8000) s, w)
           in if r \<noteq> 0 then (r, s, w)
              else si4700_write_regs bus 4 (set_reg 3 (0x8000 OR of_int chan) s, w))"

definition si4700_seek :: "'w bus \<Rightarrow> si4700 \<times> 'w \<Rightarrow> int \<times> si4700 \<times> 'w" where
  "si4700_seek bus sw = (let (s, w) = sw in si4700_tune_to bus BASE_FREQ (s\<lparr>start_scan := True\<rparr>, w))"

definition si4700_set_volume :: "'w bus \<Rightarrow> int \<Rightarrow> si4700 \<times> 'w \<Rightarrow> int \<times> si4700 \<times> 'w" where
  "si4700_set_volume bus vol sw =
     (let (s, w) = sw; s = set_reg 5 (si_regs s ! 5 AND NOT 15) s; s = set_reg 5 (si_regs s ! 5 OR (of_int vol AND 15)) s
      in si4700_write_regs bus 4 (s, w))"

definition si4700_init_chip :: "'w bus \<Rightarrow> si4700 \<times> 'w \<Rightarrow> (int \<times> si4700 \<times> 'w) res" where
  "si4700_init_chip bus sw =
     (let (s, w) = sw; s = set_reg 2 0x4801 s; s = set_reg 3 0 s; s = set_reg 4 0xC804 s; s = set_reg 5 (push_bit 8 19) s;
          (r, s, w) = si4700_write_regs bus 4 (s, w)
      in if r \<noteq> 0 then Ret (r, s, w) else si4700_read_regs bus 16 (s, w))"

definition si4700_power_down :: "'w bus \<Rightarrow> si4700 \<times> 'w \<Rightarrow> int \<times> si4700 \<times> 'w" where
  "si4700_power_down bus sw = (let (s, w) = sw in si4700_write_regs bus 4 (set_reg 2 0x0041 s, w))"

section \<open>The packets\<close>

definition si4700_get_packet :: "si4700 \<Rightarrow> nat option" where
  "si4700_get_packet s = (let new_inp = (inp s + 1) mod 16 in if new_inp = outp s then None else Some (inp s))"

definition si4700_write_packet :: "si4700 \<Rightarrow> si4700" where
  "si4700_write_packet s = s\<lparr>inp := (inp s + 1) mod 16\<rparr>"

definition rds_block :: "16 word \<Rightarrow> bool \<Rightarrow> 32 word" where
  "rds_block x err = (if err then ucast x OR 0x80000000 else ucast x)"

definition rds_packet :: "16 word list \<Rightarrow> si4700_packet" where
  "rds_packet rs =
     \<lparr>pk_code = SI4700_PACKET_RDS,
      rds_a = rds_block (rs ! 0xc) (rs ! 0xa AND 0x600 \<noteq> 0), rds_b = rds_block (rs ! 0xd) (rs ! 0xb AND 0xc000 \<noteq> 0),
      rds_c = rds_block (rs ! 0xe) (rs ! 0xb AND 0x3000 \<noteq> 0), rds_d = rds_block (rs ! 0xf) (rs ! 0xb AND 0x0c00 \<noteq> 0)\<rparr>"

text \<open>A tuning or a seek has ended: first its bits are cleared and the radio data switched on.\<close>

definition clear_seek :: "si4700 \<Rightarrow> si4700" where
  "clear_seek s =
     (let s = set_reg 2 (si_regs s ! 2 AND NOT (push_bit 8 1)) s; s = set_reg 3 (si_regs s ! 3 AND NOT (push_bit 15 1)) s
      in set_reg 4 (si_regs s ! 4 OR push_bit 12 1) s)"

definition seek_complete :: "'w bus \<Rightarrow> 16 word \<Rightarrow> si4700 \<times> 'w \<Rightarrow> si4700 \<times> 'w" where
  "seek_complete bus status sw =
     (let (s, w) = sw; (r, s, w) = si4700_write_regs bus 3 (clear_seek s, w)
      in if scanning s
         then if status AND push_bit 13 1 \<noteq> 0 then (s\<lparr>scanning := False\<rparr>, w) else snd (si4700_seek bus (s, w))
         else if start_scan s
         then let s = s\<lparr>start_scan := False, scanning := True\<rparr>;
                  s = set_reg 2 (si_regs s ! 2 OR (push_bit 8 1 OR push_bit 9 1 OR push_bit 10 1)) s
              in snd (si4700_write_regs bus 1 (s, w))
         else (s, w))"

definition rds_received :: "si4700 \<Rightarrow> si4700" where
  "rds_received s =
     (case si4700_get_packet s of
        None \<Rightarrow> s
      | Some i \<Rightarrow> si4700_write_packet (s\<lparr>output_buffer := (output_buffer s)[i := rds_packet (si_regs s)]\<rparr>))"

text \<open>The work the interrupt schedules.  The result of reading the registers is ignored.\<close>

definition si4700_kevent :: "'w bus \<Rightarrow> si4700 \<times> 'w \<Rightarrow> (si4700 \<times> 'w) res" where
  "si4700_kevent bus sw =
     res_map (\<lambda>(r, s, w).
       let status = si_regs s ! 0xa;
           (s, w) = (if bit status Si4700_STC then seek_complete bus status (s, w) else (s, w))
       in if bit status Si4700_RDSR then (rds_received s, w) else (s, w)) (si4700_read_regs bus 6 sw)"

section \<open>Programs\<close>

definition si4700_poll :: "si4700 \<Rightarrow> bool" where
  "si4700_poll s \<longleftrightarrow> inp s \<noteq> outp s"

definition le32 :: "32 word \<Rightarrow> byte list" where
  "le32 x = [ucast x, ucast (drop_bit 8 x), ucast (drop_bit 16 x), ucast (drop_bit 24 x)]"

text \<open>The bytes of a packet, with the rest of the union, which is never written.\<close>

definition packet_bytes :: "si4700_packet \<Rightarrow> byte list" where
  "packet_bytes p = le32 (pk_code p) @ le32 (rds_a p) @ le32 (rds_b p) @ le32 (rds_c p) @ le32 (rds_d p) @ replicate 12 0"

text \<open>
  The result, what was copied to the program, and the state; None is a program that waits.  \<open>nonblock\<close> is the
  flag of the file, \<open>signal\<close> whether one is pending, \<open>ok\<close> whether the bytes can be copied.
\<close>

definition si4700_read :: "bool \<Rightarrow> bool \<Rightarrow> nat \<Rightarrow> bool \<Rightarrow> si4700 \<Rightarrow> (int \<times> byte list \<times> si4700) option" where
  "si4700_read nonblock signal count ok s =
     (if inp s = outp s
      then if nonblock then Some (- 11, [], s) else if signal then Some (- 4, [], s) else None
      else let bcount = min count 32; p = output_buffer s ! outp s; s = s\<lparr>outp := (outp s + 1) mod 16\<rparr>
           in Some (if ok then (int bcount, take bcount (packet_bytes p), s) else (- 14, [], s)))"

text \<open>\<open>taken\<close> is whether another module holds the interrupt line.\<close>

definition si4700_open :: "'w bus \<Rightarrow> bool \<Rightarrow> si4700 \<times> 'w \<Rightarrow> (int \<times> si4700 \<times> 'w) res" where
  "si4700_open bus taken sw =
     res_map (\<lambda>(r, s, w).
       if r \<noteq> 0 then (r, s, w)
       else let s = s\<lparr>inp := 0, outp := 0\<rparr>;
                s = s\<lparr>extint1 := (extint1 s AND NOT (push_bit 20 7)) OR push_bit 20 2\<rparr>
            in if taken \<or> si_irq s then let (r, s, w) = si4700_power_down bus (s, w) in (- 16, s, w)
               else (0, s\<lparr>si_irq := True\<rparr>, w)) (si4700_init_chip bus sw)"

definition si4700_release :: "'w bus \<Rightarrow> si4700 \<times> 'w \<Rightarrow> int \<times> si4700 \<times> 'w" where
  "si4700_release bus sw =
     (let (s, w) = sw; (r, s, w) = si4700_power_down bus (s\<lparr>si_irq := False\<rparr>, w) in (0, s, w))"

datatype si4700_request = IOC_SI4700_TUNE "int option" | IOC_SI4700_STATUS bool | IOC_SI4700_SEEK | IOC_SI4700_VOLUME "int option"

definition si4700_ioctl :: "'w bus \<Rightarrow> si4700_request \<Rightarrow> si4700 \<times> 'w \<Rightarrow> (int \<times> int list \<times> si4700 \<times> 'w) res" where
  "si4700_ioctl bus cmd sw =
     (case cmd of
        IOC_SI4700_TUNE None \<Rightarrow> Ret (- 14, [], sw)
      | IOC_SI4700_TUNE (Some freq) \<Rightarrow> let (r, sw) = si4700_tune_to bus freq sw in Ret (r, [], sw)
      | IOC_SI4700_STATUS ok \<Rightarrow>
          res_map (\<lambda>(r, s, w). if ok then (0, [uint (si_regs s ! 0xa AND 0x1ff)], s, w) else (- 14, [], s, w))
            (si4700_read_regs bus 1 sw)
      | IOC_SI4700_VOLUME None \<Rightarrow> Ret (- 14, [], sw)
      | IOC_SI4700_VOLUME (Some vol) \<Rightarrow> let (r, sw) = si4700_set_volume bus vol sw in Ret (r, [], sw)
      | IOC_SI4700_SEEK \<Rightarrow> Ret (- 19, [], sw))"

text \<open>The state after the chip was found: the memory is cleared.\<close>

definition si4700_attach :: "bool \<Rightarrow> bool \<Rightarrow> bool \<Rightarrow> 32 word \<Rightarrow> (int \<times> si4700 option) res" where
  "si4700_attach known_adapter memory_clnt memory_si e =
     (if \<not> known_adapter then Ret (- 19, None)
      else if \<not> memory_clnt then Fault
      else if \<not> memory_si then Ret (- 12, None)
      else Ret (0, Some \<lparr>si_regs = replicate 16 0, output_buffer = replicate 16 \<lparr>pk_code = 0, rds_a = 0, rds_b = 0, rds_c = 0, rds_d = 0\<rparr>,
        inp = 0, outp = 0, scanning = False, start_scan = False, si_irq = False, extint1 = e\<rparr>))"

section \<open>What the operations leave alone\<close>

definition si_ok :: "si4700 \<Rightarrow> bool" where
  "si_ok s \<longleftrightarrow> length (si_regs s) = 16 \<and> length (output_buffer s) = 16 \<and> inp s < 16 \<and> outp s < 16"

text \<open>Writing registers below the sixth, which no packet is made of.\<close>

definition same_radio :: "si4700 \<Rightarrow> si4700 \<Rightarrow> bool" where
  "same_radio s t \<longleftrightarrow>
     output_buffer t = output_buffer s \<and> inp t = inp s \<and> outp t = outp s \<and> si_irq t = si_irq s \<and>
     length (si_regs t) = length (si_regs s) \<and> (\<forall>i\<ge>6. si_regs t ! i = si_regs s ! i)"

lemma same_radio_refl [simp]: "same_radio s s"
  by (simp add: same_radio_def)

lemma same_radio_trans: "same_radio s t \<Longrightarrow> same_radio t u \<Longrightarrow> same_radio s u"
  by (simp add: same_radio_def)

lemma same_set_reg [simp]: "i < 6 \<Longrightarrow> same_radio s (set_reg i x t) = same_radio s t"
  by (auto simp: same_radio_def set_reg_def)

lemma same_flags [simp]:
  "same_radio s (t\<lparr>scanning := a\<rparr>) = same_radio s t" "same_radio s (t\<lparr>start_scan := a\<rparr>) = same_radio s t"
  by (simp_all add: same_radio_def)

lemma set_reg_fields [simp]:
  "scanning (set_reg i x s) = scanning s" "start_scan (set_reg i x s) = start_scan s" "inp (set_reg i x s) = inp s"
  "outp (set_reg i x s) = outp s" "output_buffer (set_reg i x s) = output_buffer s" "si_irq (set_reg i x s) = si_irq s"
  "length (si_regs (set_reg i x s)) = length (si_regs s)"
  by (simp_all add: set_reg_def)

lemma write_regs: "si4700_write_regs bus n (s, w) = (r, t, w') \<Longrightarrow> t = s"
  by (auto simp: si4700_write_regs_def split: prod.splits)

lemma write_regs_snd: "snd (si4700_write_regs bus n (s, w)) = (t, w') \<Longrightarrow> t = s"
  by (auto simp: si4700_write_regs_def split: prod.splits)

lemma tune_same: "si4700_tune_to bus freq (s, w) = (r, t, w') \<Longrightarrow> same_radio s t \<and> scanning t = scanning s \<and> start_scan t = start_scan s"
  by (auto simp: si4700_tune_to_def Let_def split: prod.splits if_splits dest!: write_regs)

lemma volume_same: "si4700_set_volume bus vol (s, w) = (r, t, w') \<Longrightarrow> same_radio s t \<and> scanning t = scanning s \<and> start_scan t = start_scan s"
  by (auto simp: si4700_set_volume_def Let_def dest!: write_regs)

lemma power_down_same: "si4700_power_down bus (s, w) = (r, t, w') \<Longrightarrow> same_radio s t \<and> scanning t = scanning s \<and> start_scan t = start_scan s"
  by (auto simp: si4700_power_down_def dest!: write_regs)

lemma length_store [simp]: "length (store_regs i xs rs) = length rs"
  by (induction i xs rs rule: store_regs.induct) simp_all

lemma read_regs_same:
  assumes "si4700_read_regs bus n (s, w) = Ret (r, t, w')"
  shows "\<exists>rs. t = s\<lparr>si_regs := rs\<rparr> \<and> length rs = length (si_regs s)"
  using assms by (auto simp: si4700_read_regs_def split: prod.splits if_splits option.splits intro: exI [of _ "si_regs s"])

lemma seek_complete_same:
  assumes "seek_complete bus status (s, w) = (t, w')"
  shows "same_radio s t \<and> (\<not> scanning s \<and> \<not> start_scan s \<longrightarrow> \<not> scanning t \<and> \<not> start_scan t)"
proof -
  let ?u = "clear_seek s"
  have u: "same_radio s ?u" "scanning ?u = scanning s" "start_scan ?u = start_scan s" by (simp_all add: clear_seek_def Let_def)
  obtain r w1 where w: "si4700_write_regs bus 3 (?u, w) = (r, ?u, w1)" using write_regs by (metis prod_cases3)
  show ?thesis
  proof (cases "scanning s")
    case True
    show ?thesis
    proof (cases "status AND push_bit 13 1 \<noteq> 0")
      case False
      obtain q v x where v: "si4700_tune_to bus BASE_FREQ (?u\<lparr>start_scan := True\<rparr>, w1) = (q, v, x)" by (metis prod_cases3)
      then have "t = v" using assms w True False u(2) by (simp add: seek_complete_def si4700_seek_def)
      then show ?thesis using tune_same [OF v] u True by (auto simp: same_radio_def)
    qed (use assms w True u in \<open>auto simp: seek_complete_def\<close>)
  next
    case False
    then show ?thesis using assms w u by (auto simp: seek_complete_def Let_def split: if_splits prod.splits dest!: write_regs write_regs_snd)
  qed
qed

lemma same_ok: "same_radio s t \<Longrightarrow> si_ok s \<Longrightarrow> si_ok t"
  by (simp add: same_radio_def si_ok_def)

section \<open>Packets\<close>

text \<open>The packets between the indexes, of which there are at most fifteen.\<close>

definition si_queue :: "si4700 \<Rightarrow> si4700_packet list" where
  "si_queue s = map (\<lambda>i. output_buffer s ! ((outp s + i) mod 16)) [0..<(inp s + 16 - outp s) mod 16]"

lemma length_queue: "length (si_queue s) = (inp s + 16 - outp s) mod 16"
  by (simp add: si_queue_def)

lemma waiting:
  assumes "si_ok s"
  shows "length (si_queue s) = (if outp s \<le> inp s then inp s - outp s else inp s + 16 - outp s)"
  using assms by (auto simp: si_ok_def length_queue mod_if)

lemma next_index: "n < 16 \<Longrightarrow> Suc n mod 16 = (if n = 15 then 0 else Suc n)"
  by simp

lemma queue_full: "si_ok s \<Longrightarrow> (inp s + 1) mod 16 = outp s \<longleftrightarrow> length (si_queue s) = 15"
  by (auto simp: waiting si_ok_def next_index)

lemma queue_empty: "si_ok s \<Longrightarrow> inp s = outp s \<longleftrightarrow> si_queue s = []"
  using waiting [of s] by (auto simp: si_ok_def simp flip: length_0_conv)

lemma same_queue: "same_radio s t \<Longrightarrow> si_queue t = si_queue s"
  by (simp add: same_radio_def si_queue_def)

lemma received:
  assumes "si_ok s"
  shows "si_ok (rds_received s) \<and> si_regs (rds_received s) = si_regs s \<and>
    scanning (rds_received s) = scanning s \<and> start_scan (rds_received s) = start_scan s \<and>
    si_queue (rds_received s) = si_queue s @ (if length (si_queue s) < 15 then [rds_packet (si_regs s)] else [])"
proof (cases "length (si_queue s) = 15")
  case True
  then show ?thesis using queue_full [OF assms] assms by (simp add: rds_received_def si4700_get_packet_def)
next
  case False
  have "length (si_queue s) < 16" by (simp add: length_queue)
  then have l: "length (si_queue s) < 15" using False by simp
  let ?p = "rds_packet (si_regs s)"
  let ?t = "s\<lparr>output_buffer := (output_buffer s)[inp s := ?p], inp := (inp s + 1) mod 16\<rparr>"
  have t: "rds_received s = ?t"
    using False queue_full [OF assms] by (simp add: rds_received_def si4700_get_packet_def si4700_write_packet_def Let_def)
  have b: "inp s < 16" "outp s < 16" "length (output_buffer s) = 16" using assms by (simp_all add: si_ok_def)
  have n: "(Suc (inp s) mod 16 + 16 - outp s) mod 16 = Suc ((inp s + 16 - outp s) mod 16)"
    using b l waiting [OF assms] unfolding length_queue next_index [OF b(1)] by (auto simp: mod_if split: if_splits)
  have e: "(outp s + (inp s + 16 - outp s) mod 16) mod 16 = inp s" using b by (auto simp: mod_if)
  have d: "inp s \<noteq> (outp s + i) mod 16" if "i < (inp s + 16 - outp s) mod 16" for i
  proof -
    have i: "i < (if outp s \<le> inp s then inp s - outp s else inp s + 16 - outp s)"
      using that waiting [OF assms] unfolding length_queue by simp
    then have "(outp s + i) mod 16 = (if outp s + i < 16 then outp s + i else outp s + i - 16)"
      using b by (simp add: le_mod_geq split: if_splits)
    then show ?thesis using i b by (auto split: if_splits)
  qed
  define k where "k = (inp s + 16 - outp s) mod 16"
  have "si_queue ?t = map (\<lambda>i. (output_buffer s)[inp s := ?p] ! ((outp s + i) mod 16)) ([0..<k] @ [k])"
    unfolding si_queue_def using n by (simp add: k_def)
  also have "\<dots> = map (\<lambda>i. output_buffer s ! ((outp s + i) mod 16)) [0..<k] @ [?p]"
    using b e d unfolding k_def [symmetric] by simp
  finally have "si_queue ?t = si_queue s @ [?p]" unfolding si_queue_def k_def .
  then show ?thesis using t l assms by (simp add: si_ok_def)
qed

text \<open>What one interrupt does to the queue.\<close>

lemma event_queue:
  assumes "si4700_kevent bus (s, w) = Ret (t, w')" "si_ok s"
  shows "si_ok t \<and> si_queue t = si_queue s @
      (if bit (si_regs t ! 0xa) Si4700_RDSR \<and> length (si_queue s) < 15 then [rds_packet (si_regs t)] else []) \<and>
    (\<not> scanning s \<and> \<not> start_scan s \<longrightarrow> \<not> scanning t \<and> \<not> start_scan t) \<and>
    (\<forall>r u w1. si4700_read_regs bus 6 (s, w) = Ret (r, u, w1) \<longrightarrow> (\<forall>i\<ge>6. si_regs t ! i = si_regs u ! i))"
proof -
  obtain r u w1 where u: "si4700_read_regs bus 6 (s, w) = Ret (r, u, w1)"
    using assms(1) by (cases "si4700_read_regs bus 6 (s, w)") (auto simp: si4700_kevent_def)
  obtain rs where rs: "u = s\<lparr>si_regs := rs\<rparr>" "length rs = length (si_regs s)" using read_regs_same [OF u] by auto
  have ok: "si_ok u" "si_queue u = si_queue s" "scanning u = scanning s" "start_scan u = start_scan s"
    using rs assms(2) by (simp_all add: si_ok_def si_queue_def)
  let ?st = "si_regs u ! 0xa"
  obtain v w2 where v: "(if bit ?st Si4700_STC then seek_complete bus ?st (u, w1) else (u, w1)) = (v, w2)" by fastforce
  have sv: "same_radio u v" "\<not> scanning u \<and> \<not> start_scan u \<longrightarrow> \<not> scanning v \<and> \<not> start_scan v"
    using v seek_complete_same [of bus ?st u w1 v w2] by (auto split: if_splits)
  have st: "si_regs v ! 0xa = ?st" using sv(1) by (simp add: same_radio_def)
  have t: "t = (if bit ?st Si4700_RDSR then rds_received v else v)"
    using assms(1) u v by (auto simp: si4700_kevent_def Let_def split: if_splits)
  show ?thesis
    using t u st received [OF same_ok [OF sv(1) ok(1)]] same_queue [OF sv(1)] ok sv same_ok [OF sv(1) ok(1)]
    by (auto simp: same_radio_def)
qed

lemma kevent_returns:
  assumes "si4700_read_regs bus 6 (s, w) = Ret (r, u, w1)"
  obtains t w' where "si4700_kevent bus (s, w) = Ret (t, w')"
proof -
  have "\<exists>x. si4700_kevent bus (s, w) = Ret x" using assms by (simp add: si4700_kevent_def)
  then show thesis using that by (metis surj_pair)
qed

text \<open>A program takes the first packet.\<close>

lemma read_queue:
  assumes "si_ok s" "si_queue s = p # ps"
  shows "\<exists>t. si4700_read nonblock signal count True s = Some (int (min count 32), take (min count 32) (packet_bytes p), t) \<and>
    si_ok t \<and> si_queue t = ps \<and> scanning t = scanning s \<and> start_scan t = start_scan s"
proof -
  define k where "k = (inp s + 16 - outp s) mod 16"
  have b: "inp s < 16" "outp s < 16" using assms(1) by (simp_all add: si_ok_def)
  have ne: "inp s \<noteq> outp s" using queue_empty [OF assms(1)] assms(2) by simp
  have l: "k = Suc (length ps)" using arg_cong [OF assms(2), of length] by (simp add: length_queue k_def)
  have q: "p # ps = map (\<lambda>i. output_buffer s ! ((outp s + i) mod 16)) [0..<Suc (length ps)]"
    using assms(2) l unfolding si_queue_def k_def by simp
  also have "\<dots> = output_buffer s ! outp s # map (\<lambda>i. output_buffer s ! ((outp s + Suc i) mod 16)) [0..<length ps]"
    using b by (simp add: upt_conv_Cons map_Suc_upt [symmetric] del: upt_Suc)
  finally have p: "p = output_buffer s ! outp s" "ps = map (\<lambda>i. output_buffer s ! ((outp s + Suc i) mod 16)) [0..<length ps]" by simp_all
  let ?t = "s\<lparr>outp := (outp s + 1) mod 16\<rparr>"
  have ok: "si_ok ?t" using assms(1) by (simp add: si_ok_def)
  have "length (si_queue ?t) = length ps"
    using l ne b waiting [OF assms(1)] waiting [OF ok] by (auto simp: length_queue k_def next_index split: if_splits)
  then have "si_queue ?t = map (\<lambda>i. output_buffer s ! (((outp s + 1) mod 16 + i) mod 16)) [0..<length ps]"
    unfolding si_queue_def by simp
  then have "si_queue ?t = ps" using p(2) by (simp add: mod_add_left_eq)
  then show ?thesis using ok ne p(1) by (auto simp: si4700_read_def Let_def)
qed

text \<open>
  What the chip reports, as bytes of the bus: the status, whose first bit says that radio data are there, and the
  blocks, highest byte first, each with two bits of errors, which the driver turns into the topmost bit of the block.
\<close>

definition block_of_bytes :: "byte \<Rightarrow> byte \<Rightarrow> bool \<Rightarrow> 32 word" where
  "block_of_bytes hi lo err = word_of_int (256 * uint hi + uint lo + (if err then 2 ^ 31 else 0))"

definition rds_of_bytes :: "byte list \<Rightarrow> si4700_packet option" where
  "rds_of_bytes xs =
     (if bit (xs ! 0) 7
      then Some \<lparr>pk_code = 1,
             rds_a = block_of_bytes (xs ! 4) (xs ! 5) (bit (xs ! 0) 1 \<or> bit (xs ! 0) 2),
             rds_b = block_of_bytes (xs ! 6) (xs ! 7) (bit (xs ! 2) 6 \<or> bit (xs ! 2) 7),
             rds_c = block_of_bytes (xs ! 8) (xs ! 9) (bit (xs ! 2) 4 \<or> bit (xs ! 2) 5),
             rds_d = block_of_bytes (xs ! 10) (xs ! 11) (bit (xs ! 2) 2 \<or> bit (xs ! 2) 3)\<rparr>
      else None)"

text \<open>The bus answers a read of the six registers with their twelve bytes.\<close>

definition bus_bytes :: "'w bus \<Rightarrow> 'w \<Rightarrow> byte list" where
  "bus_bytes bus w = fst (snd (i2c_master_recv bus 12 w))"

definition bus_answers :: "'w bus \<Rightarrow> 'w \<Rightarrow> bool" where
  "bus_answers bus w \<longleftrightarrow> fst (i2c_master_recv bus 12 w) = 12 \<and> length (bus_bytes bus w) = 12"

lemma bit_be16: "bit (be16_to_cpu hi lo) n \<longleftrightarrow> n < 16 \<and> (if n < 8 then bit lo n else bit hi (n - 8))"
  unfolding be16_to_cpu_def by (auto simp: bit_simps dest: bit_imp_le_length)

lemma nonzero_bit: "x \<noteq> 0 \<longleftrightarrow> (\<exists>i. bit (x :: 16 word) i)"
  using bit_word_eqI [of x 0] by auto

lemma two_error_bits:
  assumes "8 \<le> n" "n < 15"
  shows "be16_to_cpu hi lo AND push_bit n (mask 2) \<noteq> 0 \<longleftrightarrow> bit hi (n - 8) \<or> bit hi (n - 7)"
proof -
  have m: "bit (push_bit n (mask 2) :: 16 word) i \<longleftrightarrow> i = n \<or> i = Suc n" for i
    using assms by (auto simp: bit_push_bit_iff bit_mask_iff)
  have "be16_to_cpu hi lo AND push_bit n (mask 2) \<noteq> 0 \<longleftrightarrow> (\<exists>i. bit (be16_to_cpu hi lo AND push_bit n (mask 2)) i)"
    by (rule nonzero_bit)
  also have "\<dots> \<longleftrightarrow> bit hi (n - 8) \<or> bit hi (n - 7)"
  proof -
    have e: "(\<exists>i. P i \<and> (i = n \<or> i = Suc n)) \<longleftrightarrow> P n \<or> P (Suc n)" for P :: "nat \<Rightarrow> bool" by blast
    have "\<not> n < 8" "\<not> Suc n < 8" "n < 16" "Suc n < 16" "Suc n - 8 = n - 7" using assms by auto
    then show ?thesis unfolding bit_and_iff m e bit_be16 by simp
  qed
  finally show ?thesis .
qed

lemma error_masks:
  "(0x600 :: 16 word) = push_bit 9 (mask 2)" "(0xc000 :: 16 word) = push_bit 14 (mask 2)"
  "(0x3000 :: 16 word) = push_bit 12 (mask 2)" "(0x0c00 :: 16 word) = push_bit 10 (mask 2)"
  by (simp_all add: mask_eq_exp_minus_1)

lemma block_bytes: "rds_block (be16_to_cpu hi lo) err = block_of_bytes hi lo err"
proof -
  have or: "a OR b = a + b" if "\<And>n. \<not> bit a n \<or> \<not> bit b n" for a b :: int
  proof -
    have "a AND b = 0" by (rule bit_eqI) (use that in \<open>simp add: bit_and_iff\<close>)
    then show ?thesis by (simp add: disjunctive_add_eq_or)
  qed
  have big: "\<not> bit (uint x) n" if "n \<ge> 8" for x :: byte and n using that by (auto simp: bit_uint_iff dest: bit_imp_le_length)
  have "uint (be16_to_cpu hi lo) = push_bit 8 (uint hi) OR uint lo"
    by (rule bit_eqI) (auto simp: bit_uint_iff bit_be16 bit_or_iff bit_push_bit_iff dest: bit_imp_le_length)
  also have "\<dots> = push_bit 8 (uint hi) + uint lo" by (rule or) (use big in \<open>auto simp: bit_push_bit_iff\<close>)
  finally have u: "uint (be16_to_cpu hi lo) = 256 * uint hi + uint lo" by (simp add: push_bit_eq_mult)
  have "uint (be16_to_cpu hi lo) OR 2 ^ 31 = uint (be16_to_cpu hi lo) + 2 ^ 31"
  proof (rule or)
    have "bit (2 ^ 31 :: int) n \<Longrightarrow> n = 31" for n by (simp only: bit_exp_iff)
    then show "\<not> bit (uint (be16_to_cpu hi lo)) n \<or> \<not> bit (2 ^ 31 :: int) n" for n
      by (cases "n = 31") (auto simp: bit_uint_iff bit_be16)
  qed
  moreover have "(ucast (be16_to_cpu hi lo) OR 0x80000000 :: 32 word) = word_of_int (uint (be16_to_cpu hi lo) OR 2 ^ 31)"
    unfolding of_int_or_eq ucast_eq by simp
  moreover have "(ucast (be16_to_cpu hi lo) :: 32 word) = word_of_int (uint (be16_to_cpu hi lo))" by (rule ucast_eq)
  ultimately show ?thesis unfolding rds_block_def block_of_bytes_def u by simp
qed

lemma twelve:
  assumes "length xs = 12"
  obtains a b c d e f g h i j k l where "xs = [a, b, c, d, e, f, g, h, i, j, k, l]"
proof -
  from assms have "length xs = Suc (Suc (Suc (Suc (Suc (Suc (Suc (Suc (Suc (Suc (Suc (Suc 0)))))))))))" by simp
  then show thesis using that by (auto simp: length_Suc_conv)
qed

text \<open>The driver makes of its registers what the bytes of the bus say.\<close>

lemma regs_of_bytes:
  assumes "length xs = 12" "length rs = 16" "\<forall>i\<ge>6. qs ! i = store_regs 0 (be16s xs) rs ! i"
  shows "bit (qs ! 0xa) Si4700_RDSR = bit (xs ! 0) 7"
    "bit (xs ! 0) 7 \<Longrightarrow> rds_of_bytes xs = Some (rds_packet qs)"
proof -
  obtain a b c d e f g h i j k l where xs: "xs = [a, b, c, d, e, f, g, h, i, j, k, l]" by (rule twelve [OF assms(1)])
  have q: "qs ! 0xa = be16_to_cpu a b" "qs ! 0xb = be16_to_cpu c d" "qs ! 0xc = be16_to_cpu e f" "qs ! 0xd = be16_to_cpu g h"
      "qs ! 0xe = be16_to_cpu i j" "qs ! 0xf = be16_to_cpu k l"
    using assms(2,3) by (simp_all add: xs)
  show "bit (qs ! 0xa) Si4700_RDSR = bit (xs ! 0) 7" by (simp add: q xs bit_be16 Si4700_RDSR_def)
  show "rds_of_bytes xs = Some (rds_packet qs)" if "bit (xs ! 0) 7"
    using that unfolding rds_of_bytes_def rds_packet_def q block_bytes
    unfolding error_masks by (subst two_error_bits; simp add: xs SI4700_PACKET_RDS_def)+
qed

section \<open>Runs\<close>

text \<open>
  An interrupt, with the bus as the chip has it then, or a read of a program, with the number of bytes it asks for
  and whether they can be copied to it.
\<close>

datatype 'w si_step = Rds 'w | Take nat bool

text \<open>The state and the bytes given out after some steps; a read that would wait is not made.\<close>

fun si_run :: "'w bus \<Rightarrow> 'w si_step list \<Rightarrow> si4700 \<Rightarrow> (si4700 \<times> byte list list) res" where
  "si_run bus [] s = Ret (s, [])"
| "si_run bus (Rds w # us) s = res_bind (si4700_kevent bus (s, w)) (\<lambda>(t, w). si_run bus us t)"
| "si_run bus (Take n ok # us) s =
     (case si4700_read True False n ok s of
        Some (r, xs, t) \<Rightarrow> res_map (\<lambda>(u, bs). (u, if r = - 11 then bs else xs # bs)) (si_run bus us t)
      | None \<Rightarrow> si_run bus us s)"

text \<open>The promise: a queue of fifteen packets, filled from the bus; a read takes the first one out of it.\<close>

fun radio_fifo :: "'w bus \<Rightarrow> 'w si_step list \<Rightarrow> si4700_packet list \<Rightarrow> si4700_packet list \<times> byte list list" where
  "radio_fifo bus [] q = (q, [])"
| "radio_fifo bus (Rds w # us) q =
     radio_fifo bus us (case rds_of_bytes (bus_bytes bus w) of None \<Rightarrow> q | Some p \<Rightarrow> if length q < 15 then q @ [p] else q)"
| "radio_fifo bus (Take n ok # us) [] = radio_fifo bus us []"
| "radio_fifo bus (Take n ok # us) (p # q) =
     (let (q', bs) = radio_fifo bus us q in (q', (if ok then take (min n 32) (packet_bytes p) else []) # bs))"

lemma length_packet: "length (packet_bytes p) = 32"
  by (simp add: packet_bytes_def le32_def)

lemma event_answered:
  assumes "si_ok s" "bus_answers bus w"
  obtains t w' where "si4700_kevent bus (s, w) = Ret (t, w')" "si_ok t"
    "si_queue t = (case rds_of_bytes (bus_bytes bus w) of None \<Rightarrow> si_queue s
       | Some p \<Rightarrow> if length (si_queue s) < 15 then si_queue s @ [p] else si_queue s)"
proof -
  let ?xs = "bus_bytes bus w"
  obtain w1 where r: "i2c_master_recv bus 12 w = (12, ?xs, w1)" "length ?xs = 12"
    using assms(2) by (cases "i2c_master_recv bus 12 w") (auto simp: bus_answers_def bus_bytes_def)
  have u: "si4700_read_regs bus 6 (s, w) = Ret (0, s\<lparr>si_regs := store_regs 0 (be16s ?xs) (si_regs s)\<rparr>, w1)"
    using r by (simp add: si4700_read_regs_def si4700_chip_read_def)
  obtain t w' where t: "si4700_kevent bus (s, w) = Ret (t, w')" by (rule kevent_returns [OF u])
  note e = event_queue [OF t assms(1)]
  have g: "\<forall>i\<ge>6. si_regs t ! i = store_regs 0 (be16s ?xs) (si_regs s) ! i" using e u by fastforce
  have "length (si_regs s) = 16" using assms(1) by (simp add: si_ok_def)
  from regs_of_bytes [OF r(2) this g] have "si_queue t = (case rds_of_bytes ?xs of None \<Rightarrow> si_queue s
       | Some p \<Rightarrow> if length (si_queue s) < 15 then si_queue s @ [p] else si_queue s)"
    using e by (cases "bit (?xs ! 0) 7") (auto simp: rds_of_bytes_def)
  then show thesis using that t e by blast
qed

lemma si_run_fifo:
  assumes "si_ok s" "\<forall>w. Rds w \<in> set us \<longrightarrow> bus_answers bus w"
  shows "\<exists>t. si_run bus us s = Ret (t, snd (radio_fifo bus us (si_queue s))) \<and> si_queue t = fst (radio_fifo bus us (si_queue s))"
  using assms
proof (induction bus us "si_queue s" arbitrary: s rule: radio_fifo.induct)
  case (2 bus w us)
  obtain t w' where t: "si4700_kevent bus (s, w) = Ret (t, w')" "si_ok t"
    "si_queue t = (case rds_of_bytes (bus_bytes bus w) of None \<Rightarrow> si_queue s
       | Some p \<Rightarrow> if length (si_queue s) < 15 then si_queue s @ [p] else si_queue s)"
    using event_answered [OF 2(2), of bus w] 2(3) by auto
  show ?case using 2(1) [OF t(3) [symmetric] t(2)] 2(3) t by simp
next
  case (3 bus n ok us)
  have "si4700_read True False n ok s = Some (- 11, [], s)"
    using queue_empty [OF 3(3)] 3(2) by (simp add: si4700_read_def)
  then show ?case using 3(1) [OF 3(2) 3(3)] 3(2,4) by (force simp flip: 3(2))
next
  case (4 bus n ok us p q)
  obtain t where t: "si4700_read True False n True s = Some (int (min n 32), take (min n 32) (packet_bytes p), t)"
      "si_ok t" "si_queue t = q"
    using read_queue [OF 4(3) 4(2) [symmetric], of True False n] by blast
  have r: "si4700_read True False n ok s = Some (if ok then int (min n 32) else - 14, if ok then take (min n 32) (packet_bytes p) else [], t)"
    using t(1) by (auto simp: si4700_read_def Let_def split: if_splits)
  obtain v where v: "si_run bus us t = Ret (v, snd (radio_fifo bus us q))" "si_queue v = fst (radio_fifo bus us q)"
    using 4(1) [OF t(3) [symmetric] t(2)] 4(4) t(3) by auto
  show ?case using r v by (simp add: 4(2) [symmetric] split: prod.splits)
qed simp

lemma attached:
  assumes "si4700_attach known mc ms e = Ret (0, Some s)"
  shows "si_ok s \<and> \<not> scanning s \<and> \<not> start_scan s \<and> \<not> si_irq s"
  using assms by (auto simp: si4700_attach_def si_ok_def split: if_splits)

lemma init_chip_same:
  assumes "si4700_init_chip bus (s, w) = Ret (r, t, w')" "si_ok s"
  shows "si_ok t \<and> scanning t = scanning s \<and> start_scan t = start_scan s \<and> si_irq t = si_irq s"
  using assms by (auto simp: si4700_init_chip_def Let_def si_ok_def split: prod.splits if_splits dest!: write_regs read_regs_same)

lemma opened:
  assumes "si4700_open bus taken (s, w) = Ret (r, t, w')" "si_ok s"
  shows "si_ok t \<and> scanning t = scanning s \<and> start_scan t = start_scan s \<and> (r = 0 \<longrightarrow> si_queue t = [] \<and> si_irq t \<and> \<not> si_irq s)"
proof -
  obtain q u v where u: "si4700_init_chip bus (s, w) = Ret (q, u, v)" using assms(1)
    by (cases "si4700_init_chip bus (s, w)") (auto simp: si4700_open_def)
  note i = init_chip_same [OF u assms(2)]
  obtain q' x y where x: "si4700_power_down bus (u\<lparr>inp := 0, outp := 0, extint1 := (extint1 u AND NOT (push_bit 20 7)) OR push_bit 20 2\<rparr>, v) = (q', x, y)"
    by (metis prod_cases3)
  have "si_ok (u\<lparr>inp := 0, outp := 0, extint1 := (extint1 u AND NOT (push_bit 20 7)) OR push_bit 20 2\<rparr>)" using i by (simp add: si_ok_def)
  from power_down_same [OF x] same_ok [OF _ this] have "si_ok x" "scanning x = scanning u" "start_scan x = start_scan u" by auto
  then show ?thesis using assms(1) u x i by (auto simp: si4700_open_def si_ok_def si_queue_def Let_def split: if_splits)
qed

text \<open>C16.
  The driver is a queue of packets of radio data between the bus and the program that opened the tuner.  As long as
  the bus answers the read of every interrupt with its twelve bytes, no step faults, and however interrupts and
  reads alternate, the packets are what these bytes say (four blocks of two bytes, an erroneous block marked in its
  topmost bit), they are given out in the order the interrupts came, each once, and one is dropped only when
  fifteen wait.  A read takes a whole packet out of the queue: the program is given the first 32 bytes
  of it at most, as many as it asks for, and nothing when they cannot be copied.
\<close>

theorem si4700_packets_in_order:
  assumes "si4700_attach known mc ms e = Ret (0, Some s0)" "si4700_open bus taken (s0, w0) = Ret (0, s, w)"
    "\<forall>w. Rds w \<in> set us \<longrightarrow> bus_answers bus w"
  shows "\<exists>t. si_run bus us s = Ret (t, snd (radio_fifo bus us [])) \<and> si_queue t = fst (radio_fifo bus us [])"
  using si_run_fifo [OF _ assms(3), of s] opened [OF assms(2)] attached [OF assms(1)] by auto

text \<open>
  When the bus does not answer, the result is ignored: the registers of the last read are still there, and the
  packet they hold is queued once more.
\<close>

theorem si4700_failed_read_repeats:
  assumes "si_ok s" "fst (i2c_master_recv bus 12 w) \<notin> {0, 12}" "bit (si_regs s ! 0xa) Si4700_RDSR" "length (si_queue s) < 15"
  shows "\<exists>t w'. si4700_kevent bus (s, w) = Ret (t, w') \<and> si_queue t = si_queue s @ [rds_packet (si_regs s)]"
proof -
  obtain r xs w1 where r: "i2c_master_recv bus 12 w = (r, xs, w1)" by (metis prod_cases3)
  then have u: "si4700_read_regs bus 6 (s, w) = Ret (r, s, w1)"
    using assms(2) by (auto simp: si4700_read_regs_def si4700_chip_read_def)
  obtain t w' where t: "si4700_kevent bus (s, w) = Ret (t, w')" by (rule kevent_returns [OF u])
  note e = event_queue [OF t assms(1)]
  then have "\<forall>i\<ge>6. si_regs t ! i = si_regs s ! i" using u by blast
  then have "rds_packet (si_regs t) = rds_packet (si_regs s)" "si_regs t ! 0xa = si_regs s ! 0xa" by (simp_all add: rds_packet_def)
  then show ?thesis using t e assms(3,4) by auto
qed

section \<open>Reachable states\<close>

inductive si_reach :: "'w bus \<Rightarrow> si4700 \<Rightarrow> bool" for bus where
  attach: "si4700_attach known mc ms e = Ret (0, Some s) \<Longrightarrow> si_reach bus s"
| opens: "si_reach bus s \<Longrightarrow> si4700_open bus taken (s, w) = Ret (r, t, w') \<Longrightarrow> si_reach bus t"
| event: "si_reach bus s \<Longrightarrow> si4700_kevent bus (s, w) = Ret (t, w') \<Longrightarrow> si_reach bus t"
| reads: "si_reach bus s \<Longrightarrow> si4700_read nonblock signal count ok s = Some (r, xs, t) \<Longrightarrow> si_reach bus t"
| ioctl: "si_reach bus s \<Longrightarrow> si4700_ioctl bus cmd (s, w) = Ret (r, vs, t, w') \<Longrightarrow> si_reach bus t"
| release: "si_reach bus s \<Longrightarrow> si4700_release bus (s, w) = (r, t, w') \<Longrightarrow> si_reach bus t"

lemma ioctl_same:
  assumes "si4700_ioctl bus cmd (s, w) = Ret (r, vs, t, w')" "si_ok s"
  shows "si_ok t \<and> scanning t = scanning s \<and> start_scan t = start_scan s"
proof (cases cmd)
  case (IOC_SI4700_TUNE a)
  then show ?thesis using assms
    by (cases a) (auto simp: si4700_ioctl_def split: prod.splits dest!: tune_same intro: same_ok)
next
  case (IOC_SI4700_VOLUME a)
  then show ?thesis using assms
    by (cases a) (auto simp: si4700_ioctl_def split: prod.splits dest!: volume_same intro: same_ok)
next
  case (IOC_SI4700_STATUS ok)
  obtain q u v where "si4700_read_regs bus 1 (s, w) = Ret (q, u, v)"
    using assms(1) IOC_SI4700_STATUS by (cases "si4700_read_regs bus 1 (s, w)") (auto simp: si4700_ioctl_def)
  then show ?thesis using assms IOC_SI4700_STATUS read_regs_same [of bus 1 s w q u v] by (auto simp: si4700_ioctl_def si_ok_def split: if_splits)
qed (use assms in \<open>simp add: si4700_ioctl_def\<close>)

lemma read_same: "si4700_read nonblock signal count ok s = Some (r, xs, t) \<Longrightarrow> si_ok s \<Longrightarrow> si_ok t \<and> scanning t = scanning s \<and> start_scan t = start_scan s"
  by (auto simp: si4700_read_def si_ok_def Let_def split: if_splits)

lemma release_same:
  assumes "si4700_release bus (s, w) = (r, t, w')" "si_ok s"
  shows "si_ok t \<and> scanning t = scanning s \<and> start_scan t = start_scan s"
proof -
  obtain q u v where u: "si4700_power_down bus (s\<lparr>si_irq := False\<rparr>, w) = (q, u, v)" by (metis prod_cases3)
  have "si_ok (s\<lparr>si_irq := False\<rparr>)" using assms(2) by (simp add: si_ok_def)
  then show ?thesis using power_down_same [OF u] same_ok assms(1) u by (auto simp: si4700_release_def)
qed

text \<open> The tuner never seeks stations: the code that scans is reached by no sequence of operations, as what
  starts it is called only by itself.\<close>

theorem si4700_never_scans:
  assumes "si_reach bus s"
  shows "\<not> scanning s \<and> \<not> start_scan s \<and> length (si_regs s) = 16 \<and> inp s < 16 \<and> outp s < 16"
proof -
  have "si_ok s \<and> \<not> scanning s \<and> \<not> start_scan s"
    using assms
  proof (induction rule: si_reach.induct)
    case (event s w t w')
    then show ?case using event_queue [OF event.hyps(2)] by blast
  qed (use attached opened ioctl_same read_same release_same in \<open>metis+\<close>)
  then show ?thesis by (simp add: si_ok_def)
qed

section \<open>Tuning\<close>

lemma be16_bytes [simp]: "be16_to_cpu (ucast (drop_bit 8 x)) (ucast x) = x"
  unfolding be16_to_cpu_def by (rule bit_word_eqI) (auto simp: bit_simps)

lemma be16s_concat [simp]: "be16s (concat (map cpu_to_be16 xs)) = xs"
  by (induction xs) (simp_all add: cpu_to_be16_def)

lemma length_be16s [simp]: "length (concat (map cpu_to_be16 xs)) = 2 * length xs"
  by (induction xs) (simp_all add: cpu_to_be16_def)

text \<open>
  The bus reaches a chip whose registers are written from the second on, as the comment of the driver says; the driver
  writes four of them at most.
\<close>

definition chip_latches :: "'w bus \<Rightarrow> ('w \<Rightarrow> 16 word list) \<Rightarrow> bool" where
  "chip_latches bus chip \<longleftrightarrow>
     (\<forall>w xs. length xs \<le> 8 \<longrightarrow> fst (i2c_master_send bus xs w) = int (length xs) \<and>
       (\<forall>i < length (be16s xs). chip (snd (i2c_master_send bus xs w)) ! ((i + 2) mod 16) = be16s xs ! i))"

lemma channel_word:
  assumes "0 \<le> c" "c < 1024"
  shows "uint (0x8000 OR of_int c :: 16 word) = 0x8000 + c"
proof -
  have t: "take_bit 10 c = c" using assms by (simp add: take_bit_int_eq_self)
  have "\<not> bit c n" if "n \<ge> 10" for n using bit_take_bit_iff [of 10 c n] t that by simp
  then have "\<not> bit (push_bit 15 (1 :: int)) n \<or> \<not> bit c n" for n unfolding bit_push_bit_iff bit_1_iff by auto
  then have "push_bit 15 (1 :: int) OR c = push_bit 15 1 + c" by (metis disjunctive_add)
  moreover have "uint (of_int c :: 16 word) = c" using assms by (simp add: uint_word_of_int)
  ultimately show ?thesis by (simp add: uint_or)
qed

lemma write_latched:
  assumes "chip_latches bus chip" "si4700_write_regs bus n (s, w) = (r, t, w')" "2 \<le> j" "j < n + 2" "n \<le> 4"
  shows "r = 0 \<and> chip w' ! j = si_regs s ! j"
proof -
  obtain i where i: "j = i + 2" "i < n" using assms(3,4) by (metis add_less_cancel_right le_add_diff_inverse2)
  define rs where "rs = map (\<lambda>i. si_regs s ! ((i + 2) mod 16)) [0..<n]"
  have rs: "length rs = n" "rs ! i = si_regs s ! j" using i assms(5) by (auto simp: rs_def mod_if)
  let ?bs = "concat (map cpu_to_be16 rs)"
  have "fst (i2c_master_send bus ?bs w) = int (length ?bs) \<and>
      (\<forall>i < length (be16s ?bs). chip (snd (i2c_master_send bus ?bs w)) ! ((i + 2) mod 16) = be16s ?bs ! i)"
  proof -
    have "length ?bs \<le> 8" using assms(5) rs(1) by simp
    then show ?thesis using assms(1) unfolding chip_latches_def by blast
  qed
  then have l: "fst (i2c_master_send bus ?bs w) = 2 * int n" "chip (snd (i2c_master_send bus ?bs w)) ! j = rs ! i"
  proof -
    have "(i + 2) mod 16 = j" using i assms(5) by simp
    moreover assume a: "fst (i2c_master_send bus ?bs w) = int (length ?bs) \<and>
      (\<forall>i < length (be16s ?bs). chip (snd (i2c_master_send bus ?bs w)) ! ((i + 2) mod 16) = be16s ?bs ! i)"
    ultimately show "chip (snd (i2c_master_send bus ?bs w)) ! j = rs ! i"
      using i(2) rs(1) unfolding be16s_concat by metis
    show "fst (i2c_master_send bus ?bs w) = 2 * int n" using a rs(1) unfolding length_be16s by simp
  qed
  obtain q v where v: "i2c_master_send bus ?bs w = (q, v)" by fastforce
  have "si4700_write_regs bus n (s, w) = (let (r, w) = si4700_chip_write bus rs w in (r, s, w))"
    by (simp add: si4700_write_regs_def rs_def)
  then have "si4700_write_regs bus n (s, w) = (0, s, v)"
    using l(1) v rs(1) by (simp add: si4700_chip_write_def)
  then show ?thesis using assms(2) l(2) v rs(2) by simp
qed

text \<open>Such a chip, to evaluate the driver with: its registers are read from the tenth on.\<close>

definition chip_bus :: "(nat \<Rightarrow> 16 word) bus" where
  "chip_bus =
     \<lparr>i2c_master_send = (\<lambda>xs w. (int (length xs), \<lambda>r. if 2 \<le> r \<and> r - 2 < length (be16s xs) then be16s xs ! (r - 2) else w r)),
      i2c_master_recv = (\<lambda>n w. (int n, concat (map (\<lambda>i. cpu_to_be16 (w ((i + 10) mod 16))) [0..<n div 2]), w))\<rparr>"

lemma chip_bus: "chip_latches chip_bus (\<lambda>w. map w [0..<16])"
proof -
  have "length (be16s xs) \<le> length xs div 2" for xs by (induction xs rule: be16s.induct) auto
  then have "length (be16s xs) \<le> 4" if "length xs \<le> 8" for xs using that div_le_mono [OF that, of 2] by (metis le_trans num_double numeral_times_numeral nonzero_mult_div_cancel_right div_mult_self1_is_m numeral_Bit0_div_2)
  then show ?thesis by (fastforce simp: chip_latches_def chip_bus_def)
qed

lemma chip_bus_answers: "bus_answers chip_bus w"
proof -
  have "length (concat (map (\<lambda>i. cpu_to_be16 (f i)) js)) = 2 * length js" for f and js :: "nat list"
    by (induction js) (simp_all add: cpu_to_be16_def)
  then show ?thesis by (simp add: bus_answers_def bus_bytes_def chip_bus_def)
qed

text \<open> Tuning to a frequency of the band leaves the chip with the number of its channel and the bit that starts
  the tuning, the bit having been low before, with the rest of its registers as the driver has them.\<close>

theorem si4700_tunes:
  assumes "chip_latches bus chip" "length (si_regs s) = 16" "87500 \<le> freq" "freq < 189900"
    "si4700_tune_to bus freq (s, w) = (r, t, w')"
  shows "r = 0 \<and> uint (chip w' ! 3) = 0x8000 + (freq - 87500) div 100 \<and>
    chip w' ! 2 = si_regs s ! 2 \<and> chip w' ! 4 = si_regs s ! 4 \<and> chip w' ! 5 = si_regs s ! 5"
proof -
  let ?c = "(freq - 87500) div 100"
  let ?s = "set_reg 3 (si_regs s ! 3 AND NOT 0x8000) s" let ?t = "set_reg 3 (0x8000 OR of_int ?c) ?s"
  have c: "0 \<le> ?c" "?c < 1024" using assms(3,4) by simp_all
  obtain q u w1 where u: "si4700_write_regs bus 2 (?s, w) = (q, u, w1)" by (metis prod_cases3)
  have q: "q = 0" "u = ?s" using write_latched [OF assms(1) u, of 2] write_regs [OF u] by simp_all
  have t: "si4700_write_regs bus 4 (?t, w1) = (r, t, w')"
    using assms(3,5) u q by (simp add: si4700_tune_to_def BASE_FREQ_def Let_def)
  have l: "r = 0 \<and> chip w' ! j = si_regs ?t ! j" if "2 \<le> j" "j < 6" for j
    using write_latched [OF assms(1) t, of j] that by simp
  have "chip w' ! 3 = 0x8000 OR of_int ?c" using l [of 3] assms(2) by (simp add: set_reg_def)
  moreover have "chip w' ! j = si_regs s ! j" if "2 \<le> j" "j < 6" "j \<noteq> 3" for j
    using l [of j] that by (simp add: set_reg_def)
  ultimately show ?thesis using l [of 2] channel_word [OF c] by simp
qed

text \<open> A second program that opens the tuner is refused, but only after the chip was set up anew, the packets
  that wait for the first were dropped, and the chip was told to power down: the first one keeps a tuner that is off.\<close>

theorem si4700_second_open_powers_down:
  assumes "chip_latches bus chip" "si_ok s" "si_irq s" "si4700_open bus taken (s, w) = Ret (r, t, w')"
    "\<forall>w. fst (i2c_master_recv bus 32 w) = 32"
  shows "r = - 16 \<and> si_irq t \<and> si_queue t = [] \<and> chip w' ! 2 = 0x0041"
proof -
  obtain q u v where u: "si4700_init_chip bus (s, w) = Ret (q, u, v)" using assms(4)
    by (cases "si4700_init_chip bus (s, w)") (auto simp: si4700_open_def)
  note i = init_chip_same [OF u assms(2)]
  have q: "q = 0"
  proof -
    let ?s = "set_reg 5 (push_bit 8 19) (set_reg 4 0xC804 (set_reg 3 0 (set_reg 2 0x4801 s)))"
    obtain a b c where b: "si4700_write_regs bus 4 (?s, w) = (a, b, c)" by (metis prod_cases3)
    have "a = 0" using write_latched [OF assms(1) b, of 2] by simp
    then show ?thesis using u b assms(5)
      by (auto simp: si4700_init_chip_def si4700_read_regs_def si4700_chip_read_def Let_def split: prod.splits if_splits option.splits)
        (metis fst_conv)+
  qed
  let ?u = "u\<lparr>inp := 0, outp := 0, extint1 := (extint1 u AND NOT (push_bit 20 7)) OR push_bit 20 2\<rparr>"
  obtain a b c where b: "si4700_write_regs bus 4 (set_reg 2 0x0041 ?u, v) = (a, b, c)" by (metis prod_cases3)
  have "chip c ! 2 = si_regs (set_reg 2 0x0041 ?u) ! 2" using write_latched [OF assms(1) b, of 2] by simp
  then have c: "chip c ! 2 = 0x0041" "b = set_reg 2 0x0041 ?u" using i write_regs [OF b] by (auto simp: set_reg_def si_ok_def)
  have "r = - 16 \<and> t = b \<and> w' = c" using assms(3,4) u q i b by (simp add: si4700_open_def si4700_power_down_def Let_def)
  then show ?thesis using c i assms(3) by (simp add: si_queue_def)
qed

section \<open>Witnesses\<close>

definition tuner :: si4700 where
  "tuner = \<lparr>si_regs = replicate 16 0, output_buffer = replicate 16 \<lparr>pk_code = 0, rds_a = 0, rds_b = 0, rds_c = 0, rds_d = 0\<rparr>,
     inp = 0, outp = 0, scanning = False, start_scan = False, si_irq = False, extint1 = 0\<rparr>"

lemma tuner: "si4700_attach True True True 0 = Ret (0, Some tuner)"
  by (simp add: si4700_attach_def tuner_def)

definition rds_chip :: "nat \<Rightarrow> 16 word" where
  "rds_chip r = (if r = 10 then 0x8200 else if r = 11 then 0x0C05 else of_nat r)"

lemma test_open: "\<exists>s w. si4700_open chip_bus False (tuner, \<lambda>_. 0) = Ret (0, s, w)"
proof -
  have "(case si4700_open chip_bus False (tuner, \<lambda>_. 0) of Ret (r, s, w) \<Rightarrow> r = 0 | _ \<Rightarrow> False)" by code_simp
  then show ?thesis by (auto split: res.splits)
qed

lemma si4700_packets_in_order_witness:
  "\<exists>s w t. si4700_attach True True True 0 = Ret (0, Some tuner) \<and> si4700_open chip_bus False (tuner, \<lambda>_. 0) = Ret (0, s, w) \<and>
     si_run chip_bus [Rds rds_chip, Rds (\<lambda>_. 0), Take 6 True, Take 32 True, Rds rds_chip] s = Ret (t, [[1, 0, 0, 0, 12, 0]]) \<and>
     length (si_queue t) = 1"
proof -
  obtain s w where o: "si4700_open chip_bus False (tuner, \<lambda>_. 0) = Ret (0, s, w)" using test_open by blast
  let ?us = "[Rds rds_chip, Rds (\<lambda>_. 0), Take 6 True, Take 32 True, Rds rds_chip]"
  have b: "\<forall>w. Rds w \<in> set ?us \<longrightarrow> bus_answers chip_bus w"
    by (simp add: chip_bus_answers)
  have f: "snd (radio_fifo chip_bus ?us []) = [[1, 0, 0, 0, 12, 0]] \<and> length (fst (radio_fifo chip_bus ?us [])) = 1"
  proof -
    have x: "bus_bytes chip_bus rds_chip = [0x82, 0, 0x0C, 5, 0, 12, 0, 13, 0, 14, 0, 15]" by code_simp
    have y: "bus_bytes chip_bus (\<lambda>_. 0) = replicate 12 0" by code_simp
    have "case rds_of_bytes (bus_bytes chip_bus rds_chip) of None \<Rightarrow> False | Some p \<Rightarrow> take 6 (packet_bytes p) = [1, 0, 0, 0, 12, 0]"
      unfolding x by code_simp
    moreover have "rds_of_bytes (bus_bytes chip_bus (\<lambda>_. 0)) = None" unfolding y by code_simp
    ultimately show ?thesis by (auto split: option.splits)
  qed
  show ?thesis using tuner o si4700_packets_in_order [OF tuner o b] f by auto
qed

lemma si4700_never_scans_witness:
  "\<exists>s w t. si4700_open chip_bus False (tuner, \<lambda>_. 0) = Ret (0, s, w) \<and> si4700_kevent chip_bus (s, \<lambda>_. 0xffff) = Ret t \<and>
     si_reach chip_bus (fst t) \<and> \<not> scanning (fst t) \<and> \<not> start_scan (fst t)"
proof -
  have r: "case si4700_open chip_bus False (tuner, \<lambda>_. 0) of Ret (r, s, w) \<Rightarrow> r = 0 \<and>
      (case si4700_kevent chip_bus (s, \<lambda>_. 0xffff) of Ret t \<Rightarrow> True | _ \<Rightarrow> False) | _ \<Rightarrow> False"
    by code_simp
  then obtain s w where o: "si4700_open chip_bus False (tuner, \<lambda>_. 0) = Ret (0, s, w)" by (auto split: res.splits)
  obtain t w' where t: "si4700_kevent chip_bus (s, \<lambda>_. 0xffff) = Ret (t, w')" using r o by (auto split: res.splits)
  have "si_reach chip_bus t" by (rule si_reach.event [OF si_reach.opens [OF si_reach.attach [OF tuner] o] t])
  then show ?thesis using o t si4700_never_scans by (intro exI [of _ s] exI [of _ w] exI [of _ "(t, w')"]) auto
qed

lemma si4700_tunes_witness:
  "\<exists>r t w'. si4700_tune_to chip_bus 98000 (tuner, \<lambda>_. 0) = (r, t, w') \<and> r = 0 \<and> uint (map w' [0..<16] ! 3) = 0x8000 + 105"
proof -
  obtain r t w' where t: "si4700_tune_to chip_bus 98000 (tuner, \<lambda>_. 0) = (r, t, w')" by (metis prod_cases3)
  show ?thesis using si4700_tunes [OF chip_bus _ _ _ t] t by (auto simp: tuner_def)
qed

lemma si4700_second_open_powers_down_witness:
  "\<exists>s w r t w'. si4700_open chip_bus False (tuner, \<lambda>_. 0) = Ret (0, s, w) \<and> si4700_open chip_bus False (s, w) = Ret (r, t, w') \<and>
     r = - 16 \<and> si_irq t \<and> map w' [0..<16] ! 2 = 0x0041"
proof -
  have r: "case si4700_open chip_bus False (tuner, \<lambda>_. 0) of Ret (r, s, w) \<Rightarrow> r = 0 \<and>
      (case si4700_open chip_bus False (s, w) of Ret x \<Rightarrow> True | _ \<Rightarrow> False) | _ \<Rightarrow> False"
    by code_simp
  then obtain s w where o: "si4700_open chip_bus False (tuner, \<lambda>_. 0) = Ret (0, s, w)"
    by (cases "si4700_open chip_bus False (tuner, \<lambda>_. 0)") auto
  obtain q t w' where t: "si4700_open chip_bus False (s, w) = Ret (q, t, w')"
    using r o by (cases "si4700_open chip_bus False (s, w)") auto
  have s: "si_ok s" "si_irq s" using opened [OF o] attached [OF tuner] by auto
  have "\<forall>w. fst (i2c_master_recv chip_bus 32 w) = 32" by (simp add: chip_bus_def)
  then show ?thesis using si4700_second_open_powers_down [OF chip_bus s t] o t by blast
qed

end
