(* ===== verification/Spec2Isabelle.thy ===== *)
theory Spec2Isabelle
  imports Lcd_Show Keys Sys Flash_Image Ftpd_Descriptors Flash_Write Xmlparse Keypad_Boards Rutl_Table Lcd_Kscreen
    Pins I2c_Bus Si4700
begin

text \<open>
  A model of the Sharpfin project's own C code, and what makes it correct.

  \<^bold>\<open>The program.\<close>  Sharpfin is third-party software for Reciva internet radios.  Its parts are a library
  for the display, keys, mute switch, watchdog and log of the radio (\<^verbatim>\<open>src/src/libreciva\<close>), each with
  an implementation for the radio, over the ioctls of its drivers, and one for a terminal; tools that
  run on the radio, among them an FTP server and a dumper of the flash
  (\<^verbatim>\<open>src/src/ipk/sharpfin-base-ipk\<close>) and a scraper of web pages (\<^verbatim>\<open>src/src/apps/xmlparse\<close>); and tools that
  run on a PC, which split images of the flash and write it over a JTAG cable on the parallel port
  (\<^verbatim>\<open>src/devtools/sharpflash\<close>).  Below the library are the modules of the radio's Linux kernel, built with it
  (\<^verbatim>\<open>src/kernel/linux_bast/reciva\<close>): the keypad and the rotary encoder, whose events the library
  reads, the display, whose ioctls it uses, and the lines to other devices: a serial line and an I2C
  slave, over which another processor controls the radio, an I2C master, the radio tuner and single pins.

  \<^bold>\<open>Conventions.\<close>  \<open>Prelude\<close> has what all parts share.  A fallible C function gives a value of
  \<open>res\<close>: \<open>Ret\<close> a result, \<open>Exit\<close> where the code ends the process, \<open>Fault\<close> where it would read or write
  outside an object, use freed memory or follow a null pointer, and \<open>Diverge\<close> where a loop does not
  end.  State is a record that is passed and returned; buffers are lists of bytes, and \<open>cstr\<close> is the string
  that one holds.  Memory that is allocated is a map from addresses to rows with a set of those that are
  allocated.  What is outside of \<^verbatim>\<open>src/\<close>, the operating system, a driver, a chip, is a parameter: an
  argument or a record of functions.  A name of the C code that is defined twice, for the radio and for
  the terminal, has the prefix \<open>devel_\<close> in its second model.

  \<^bold>\<open>Display library\<close> (\<^verbatim>\<open>lcd.c\<close>, \<^verbatim>\<open>lcd.h\<close>).  \<open>Lcd_State\<close>: handles and rows.  \<open>Lcd_Menu\<close>: menus,
  which are rings of rows; \<open>Menu_Ring\<close> and \<open>Menu_Spec\<close> say what a menu is, a list of entries with a
  selected and a top one, and \<open>Menu_Refine\<close>, \<open>Menu_Sort\<close> and \<open>Menu_Props\<close> that the operations on rings implement
  those on lists, free each row once, and keep the selected row in sight.  \<open>Lcd_Text\<close>: UTF-8 and the
  string routines.  \<open>Lcd_Scroll\<close>: the window of a row that scrolls, and the line of an input screen.
  \<open>Lcd_Frame\<close>: frames, bars, status and clock screens.  \<open>Lcd_Input\<close>: the editor of input screens and
  yes/no screens.  \<open>Lcd_Refresh\<close> and \<open>Lcd_Show\<close>: drawing a screen through the interface of the hardware layer.
  \<open>Lcd_Screen\<close> and \<open>Lcd_Iface\<close> hold that interface: the locale of what drawing a line and refreshing promise,
  interpreted for the radio in \<open>Lcd_Reciva\<close> (\<^verbatim>\<open>lcd_reciva.c\<close>) and for the terminal in \<open>Lcd_Devel\<close>
  (\<^verbatim>\<open>lcd_devel.c\<close>); \<open>Lcd_Show\<close> proves for both that a menu appears on the display as it is.

  \<^bold>\<open>Keys and small services.\<close>  \<open>Keys\<close>: \<^verbatim>\<open>key_reciva.c\<close>, \<^verbatim>\<open>key_devel.c\<close>.  \<open>Sys\<close>: mute switch, watchdog,
  log and the windows of the terminal (\<^verbatim>\<open>mute_*.c\<close>, \<^verbatim>\<open>dog_*.c\<close>, \<^verbatim>\<open>log_*.c\<close>, \<^verbatim>\<open>scr_devel.c\<close>).

  \<^bold>\<open>Flash images.\<close>  \<open>Nand_Ecc\<close>: the error-correcting code of \<^verbatim>\<open>nand_ecc.c\<close>; that it locates each error of one
  bit and detects each of two.  \<open>Flash_Image\<close>: \<^verbatim>\<open>getpart.c\<close> and \<^verbatim>\<open>nanddump.c\<close>.

  \<^bold>\<open>FTP server.\<close>  \<open>Ftpd\<close>: the commands and the session of \<^verbatim>\<open>ftpd.c\<close>.  \<open>Ftpd_Login\<close>: no file is touched
  before a login, and what a line that is too long does.  \<open>Ftpd_Descriptors\<close>: each descriptor that a
  session opens is closed.  The loop of a session has fuel; the properties hold for each amount of it.

  \<^bold>\<open>Flash programmer.\<close>  \<open>Jtag\<close>: parallel port and cable (\<^verbatim>\<open>ppt.c\<close>, \<^verbatim>\<open>jtag.c\<close>).  \<open>Jtag_Tap\<close>: the test access port of
  IEEE 1149.1, and that the functions of the cable do on it what they are for: the locale \<open>jtag_cable\<close>.
  \<open>Pin2410\<close>: the boundary cells (\<^verbatim>\<open>pin2410.c\<close>).  \<open>K9fxx08\<close>: the operations on the flash (\<^verbatim>\<open>k9fxx08.c\<close>).
  \<open>Nand_Bus\<close>: the locale \<open>nand_cable\<close>, in which each operation, hundreds of scans of 427 cells, is refined to the
  few cycles it makes on the bus of the flash.  \<open>Sharpflash\<close>: command line and main program, and that
  reading, checking and identifying never send a cycle that changes the flash.  \<open>Flash_Write\<close>: what writing
  an image leaves in the flash.  \<open>polls\<close> bounds the polls of the ready line, \<open>fuel\<close> the blocks tried.  The
  properties say for which values a run ends: \<open>polls\<close> must exceed the polls that the flash
  stays busy, and \<open>fuel\<close> the number of blocks.

  \<^bold>\<open>Scraper.\<close>  \<open>Xmlparse\<close>: \<^verbatim>\<open>xmlparse.c\<close>; that a page is read back thing by thing and that a program without
  a loop ends within as many rounds as the file has bytes, and 260.

  \<^bold>\<open>Kernel: keypad.\<close>  \<open>Rutl\<close>: registers (\<^verbatim>\<open>rutl_regwrite\<close>).  \<open>Keypad\<close>: \<^verbatim>\<open>reciva_keypad_generic.c\<close>; a state
  has the registers, how often each interrupt is disabled, the timers and the events reported, and a
  parameter gives what each reading of the rows returns.  \<open>Keypad_Machine\<close>: the runs of the driver, in any
  order of interrupts, ticks, requests of the display for the pins, loading and unloading, as an inductive
  relation, and what holds in each: it can be woken up, and presses and releases alternate.
  \<open>Keypad_Matrix\<close>: the wiring of a matrix behind the registers, and that the scan finds the key that is
  pressed.  \<open>Keypad_Boards\<close>: the tables of eleven boards, and a key from the matrix of one of them up to the
  key library.  Ticks are counted; they are 20 ms apart.

  \<^bold>\<open>Kernel: display.\<close>  \<open>Rutl_Utf8\<close>: UTF-8 and the hash table of \<^verbatim>\<open>reciva_util.c\<close>; that decoding inverts the
  encoding of the standard and stays inside its string.  \<open>Rutl_Table\<close>: that the table is a map, by
  the locale \<open>char_table\<close>.  \<open>Lcd_Generic\<close>: the look-up of characters, the backlight and the progress bar of
  \<^verbatim>\<open>lcd_generic.c\<close>, and the table of \<^verbatim>\<open>lcd_simple_charmap.c\<close>; the timer of the backlight needs as many ticks as
  the levels are apart, and one at least.  \<open>Lcd_Kscreen\<close>: the screen that is kept, its memory, and
  the ioctls; the percentage of the progress bar, which the code computes in floating point, is a parameter \<open>pct\<close>.  The
  spin lock is recorded as taken or not, and taking it does not wait: the radio has one processor.

  \<^bold>\<open>Kernel: rotary encoders.\<close>  \<open>Quad\<close>: three drivers, \<^verbatim>\<open>reciva_quad_piher_20pulse.c\<close>, \<^verbatim>\<open>reciva_quad_piher_ci11.c\<close>
  and \<^verbatim>\<open>reciva_quad.c\<close> with the interrupt routine of \<^verbatim>\<open>reciva_fiq.S\<close>, and the modules that read the pins.  A shaft
  has four positions; the lemmas say which turns are reported for each way it is turned, that two of the
  drivers are equivalent, and that clicks reach the key library.  The samples of the fast interrupt and the runs of
  the timer of the third one are interleaved in any order, one run of the timer at least between two steps.

  \<^bold>\<open>Kernel: serial line and slave mode.\<close>  \<open>Ring\<close>: the ring buffers of the serial line and of the I2C slave, two
  instances of the locale \<open>ring_buffer\<close>.  \<open>Uart\<close>: \<^verbatim>\<open>reciva_uart.c\<close>, a transmitter that a timer clocks bit by bit
  over a pin, and the interrupt of a receiver.  The loop of \<open>take_message\<close> has fuel: as many rounds as the
  buffer has bytes, of which one always stays free.  A write is one step between two ticks.  Ticks come while the
  timer itself runs, \<open>t2start\<close>, which a change of the baud rate stops without the driver noticing.  The writes of the
  serial line, the slave mode and the I2C modules keep their bytes on the stack of the kernel: what does not
  fit its 8192 bytes, \<open>KERNEL_STACK\<close>, faults.
  \<open>Uart_Line\<close>: what is on the line are the frames of what was written, messages are delivered whole, and the
  invariant of the states.  \<open>Slave_Mode\<close>: \<^verbatim>\<open>reciva_slave_mode_controller.c\<close> and its drivers, and that a message
  crosses from one radio to another.

  \<^bold>\<open>Kernel: I2C and tuner.\<close>  \<open>I2c\<close>: \<^verbatim>\<open>reciva_i2c_slave.c\<close> and \<^verbatim>\<open>reciva_i2c_master.c\<close>; the functions of the
  kernel that send and receive are a parameter, the record \<open>bus\<close>.  \<open>I2c_Bus\<close> composes the two modules: such a
  bus on which the slave module answers by its interrupts, and that commands and replies pass.  \<open>Si4700\<close>:
  \<^verbatim>\<open>reciva_si4700.c\<close>, the tuner, whose chip is behind the same parameter; its packets are a queue from the bytes of
  the bus to the program.

  \<^bold>\<open>Kernel: pins.\<close>  \<open>Pins\<close>: \<^verbatim>\<open>reciva_misc_control.c\<close>, \<^verbatim>\<open>reciva_status_pins.c\<close>, \<^verbatim>\<open>reciva_leds_potas.c\<close>,
  \<^verbatim>\<open>reciva_usb.c\<close>, \<^verbatim>\<open>reciva_slave_mode_status_slave.c\<close> and \<^verbatim>\<open>..._master.c\<close>, \<^verbatim>\<open>reciva_mosa_ms6335_monitor.c\<close> and
  \<^verbatim>\<open>reciva_powerbutton_windermere.c\<close>: what they change, bit by bit, and the presses of the power button.

  \<^bold>\<open>Not modelled.\<close>  busybox and LIRC are other projects' code that is only packaged here.  The directories
  \<^verbatim>\<open>src/src/include/reciva-*\<close> are copies of the vendor's kernel drivers in several releases, kept for their
  headers.  Of \<^verbatim>\<open>src/kernel\<close> the drivers of the display chips
  are not modelled, sequences of writes to controllers that are not under \<^verbatim>\<open>src/\<close>, nor tables of fonts and the
  other drivers of audio chips and backlights; of the display module
  its profiling and the thread of the second greeting;
  of the encoders the set-up of the fast interrupt, of the I2C master its unit test, and of the tuner its reset
  sequence and its file in \<^verbatim>\<open>/proc\<close>.  Other spin locks, which on the one processor only hold off interrupts, and
  delays are left out: a pin that is read after a delay is an argument that says what it shows then.  The patch server is C++.  The test and demonstration programs
  only call the library.  Of the modelled files the following is left out: usage texts, colours of the
  terminal, the help window, the fork and accept loop of the FTP server, delays, and the builds for
  Windows.  Floating-point estimates of the time that remains are arguments.
\<close>

end
